(* ===== verification/Prelude.thy ===== *)
theory Prelude imports Complex_Main "HOL-Library.AList" begin

text \<open>
  What every component shares: the exceptions the Python code raises, the result of a
  function that may raise, Python's insertion-ordered dictionaries as association lists
  (\<open>AList.update\<close> replaces in place or appends, as \<open>d[k] = v\<close> does), and the
  collections of facts that the proofs of the components use by name.
\<close>

named_theorems model_simps "equations that unfold one operation of the model"
named_theorems frame_simps "which fields of a state an operation leaves alone"
named_theorems inv_intros "an operation keeps its component's invariant"

section \<open>Exceptions and results\<close>

text \<open>
  One constructor per exception class; the message strings are not kept. The domain
  exceptions are those of \<open>chart/renko/exceptions.py\<close>.
\<close>

datatype py_error =
    ValueError | KeyError | TypeError | RuntimeError | ZeroDivisionError
  | InvalidBrickSize | RenkoConfigurationError | UnsupportedRenkoMode | ValidationFailed
  | CorruptedSnapshotError | SnapshotVersionError | IncompatibleSnapshotError | InvalidOperation | PermissionError | InvalidTokenError

type_synonym 'a result = "py_error + 'a"

type_synonym pystr = string

type_synonym time = int

text \<open>A truncating \<open>int(x)\<close> on a number that is not an integer.\<close>

definition py_trunc :: "rat \<Rightarrow> int" where
  "py_trunc x = (if 0 \<le> x then \<lfloor>x\<rfloor> else \<lceil>x\<rceil>)"

fun rbind :: "'a result \<Rightarrow> ('a \<Rightarrow> 'b result) \<Rightarrow> 'b result" where
  "rbind (Inl e) f = Inl e"
| "rbind (Inr x) f = f x"

definition require :: "bool \<Rightarrow> py_error \<Rightarrow> unit result" where
  "require c e = (if c then Inr () else Inl e)"

lemma require_iff [simp]:
  "require c e = Inr u \<longleftrightarrow> c"
  "require c e = Inl e' \<longleftrightarrow> \<not> c \<and> e' = e"
  by (auto simp: require_def)

lemma rbind_Inr_iff: "rbind m f = Inr y \<longleftrightarrow> (\<exists>x. m = Inr x \<and> f x = Inr y)"
  by (cases m) auto

lemma rbind_Inl_iff: "rbind m f = Inl e \<longleftrightarrow> m = Inl e \<or> (\<exists>x. m = Inr x \<and> f x = Inl e)"
  by (cases m) auto

lemma rbind_require [simp]: "rbind (require c e) f = (if c then f () else Inl e)"
  by (simp add: require_def)

lemma if_raise_iff [simp]:
  "(if c then m else Inl e) = Inr y \<longleftrightarrow> c \<and> m = Inr y"
  "(if c then Inl e else m) = Inr y \<longleftrightarrow> \<not> c \<and> m = Inr y"
  by auto

text \<open>The results of a comprehension: the first failure is raised.\<close>

fun collect :: "'a result list \<Rightarrow> 'a list result" where
  "collect [] = Inr []"
| "collect (r # rs) = rbind r (\<lambda>x. rbind (collect rs) (\<lambda>xs. Inr (x # xs)))"

lemma collect_Inr_iff: "collect rs = Inr xs \<longleftrightarrow> rs = map Inr xs"
  by (induction rs arbitrary: xs) (auto simp: rbind_Inr_iff)

section \<open>Dictionaries in insertion order\<close>

type_synonym ('k, 'v) dict = "('k \<times> 'v) list"

abbreviation dget :: "('k, 'v) dict \<Rightarrow> 'k \<Rightarrow> 'v option" where
  "dget d k \<equiv> map_of d k"

abbreviation dset :: "'k \<Rightarrow> 'v \<Rightarrow> ('k, 'v) dict \<Rightarrow> ('k, 'v) dict" where
  "dset k v d \<equiv> AList.update k v d"

abbreviation ddel :: "'k \<Rightarrow> ('k, 'v) dict \<Rightarrow> ('k, 'v) dict" where
  "ddel k d \<equiv> AList.delete k d"

abbreviation dkeys :: "('k, 'v) dict \<Rightarrow> 'k list" where
  "dkeys d \<equiv> map fst d"

abbreviation dvals :: "('k, 'v) dict \<Rightarrow> 'v list" where
  "dvals d \<equiv> map snd d"

definition wf_dict :: "('k, 'v) dict \<Rightarrow> bool" where
  "wf_dict d \<longleftrightarrow> distinct (dkeys d)"

lemma wf_dict_Nil [simp, intro]: "wf_dict []"
  by (simp add: wf_dict_def)

lemma wf_dict_dset [intro]: "wf_dict d \<Longrightarrow> wf_dict (dset k v d)"
  by (simp add: wf_dict_def distinct_update)

lemma wf_dict_ddel [intro]: "wf_dict d \<Longrightarrow> wf_dict (ddel k d)"
  by (simp add: wf_dict_def distinct_delete)

lemma dget_dset: "dget (dset k v d) k' = (if k' = k then Some v else dget d k')"
  by (simp add: update_conv')

lemma dget_ddel: "dget (ddel k d) k' = (if k' = k then None else dget d k')"
  by (simp add: delete_conv')

lemma dset_new: "dget d k = None \<Longrightarrow> dset k v d = d @ [(k, v)]"
proof (induction d)
  case Nil
  then show ?case by simp
next
  case (Cons p d)
  then show ?case by (cases p) (auto split: if_splits)
qed

lemma dget_None_iff: "dget d k = None \<longleftrightarrow> k \<notin> set (dkeys d)"
  by (simp add: map_of_eq_None_iff)

section \<open>Lists\<close>

text \<open>The list \<open>d\<close> of records grew from \<open>c\<close> by appending: the shape of every log.\<close>

definition extends :: "'a list \<Rightarrow> 'a list \<Rightarrow> bool" where
  "extends c d \<longleftrightarrow> take (length c) d = c"

lemma extends_refl [simp, intro]: "extends c c"
  by (simp add: extends_def)

lemma extends_append [simp, intro]: "extends c (c @ d)"
  by (simp add: extends_def)

lemma extends_iff: "extends c d \<longleftrightarrow> (\<exists>e. d = c @ e)"
  unfolding extends_def by (metis append_eq_conv_conj append_take_drop_id)

lemma extends_trans [trans]: "extends a b \<Longrightarrow> extends b c \<Longrightarrow> extends a c"
  by (auto simp: extends_iff)

section \<open>Running a component over a sequence of inputs\<close>

text \<open>
  One operation returns the next state and what the caller sees; an operation that raises
  leaves the state it had reached. Feeding a list of inputs keeps the states only.
\<close>

definition feed :: "('s \<Rightarrow> 'i \<Rightarrow> 's \<times> 'r) \<Rightarrow> 's \<Rightarrow> 'i list \<Rightarrow> 's" where
  "feed f s xs = foldl (\<lambda>s x. fst (f s x)) s xs"

lemma feed_simps [simp]:
  "feed f s [] = s"
  "feed f s (x # xs) = feed f (fst (f s x)) xs"
  "feed f s (xs @ ys) = feed f (feed f s xs) ys"
  by (simp_all add: feed_def)

lemma feed_invariant:
  assumes "P s" and "\<And>s x. x \<in> set xs \<Longrightarrow> P s \<Longrightarrow> P (fst (f s x))"
  shows "P (feed f s xs)"
  using assms by (induction xs arbitrary: s) auto

text \<open>Whatever every step leaves alone, a whole run leaves alone.\<close>

lemma feed_frame:
  assumes "\<And>s x. g (fst (f s x)) = g s"
  shows "g (feed f s xs) = g s"
  by (induction xs arbitrary: s) (simp_all add: assms)

lemma rbind_cong [fundef_cong]:
  "m = m' \<Longrightarrow> (\<And>x. m' = Inr x \<Longrightarrow> f x = f' x) \<Longrightarrow> rbind m f = rbind m' f'"
  by (cases m') auto

section \<open>Decimal numerals\<close>

fun str_nat :: "nat \<Rightarrow> pystr" where
  "str_nat n = (if n < 10 then [char_of (48 + n)] else str_nat (n div 10) @ [char_of (48 + n mod 10)])"

declare str_nat.simps [simp del]

text \<open>\<open>str(n)\<close> of an integer.\<close>

definition str_int :: "int \<Rightarrow> pystr" where
  "str_int n = (if n < 0 then ''-'' @ str_nat (nat (- n)) else str_nat (nat n))"

section \<open>Text\<close>

text \<open>\<open>str.strip()\<close> and \<open>str.upper()\<close> on ASCII text.\<close>

definition is_space :: "char \<Rightarrow> bool" where
  "is_space c \<longleftrightarrow> (let n = of_char c :: nat in n = 32 \<or> (9 \<le> n \<and> n \<le> 13) \<or> (28 \<le> n \<and> n \<le> 31))"

definition str_strip :: "pystr \<Rightarrow> pystr" where
  "str_strip s = rev (dropWhile is_space (rev (dropWhile is_space s)))"

definition str_upper :: "pystr \<Rightarrow> pystr" where
  "str_upper s = map (\<lambda>c. let n = of_char c :: nat in if 97 \<le> n \<and> n \<le> 122 then char_of (n - 32) else c) s"

definition str_lower :: "pystr \<Rightarrow> pystr" where
  "str_lower s = map (\<lambda>c. let n = of_char c :: nat in if 65 \<le> n \<and> n \<le> 90 then char_of (n + 32) else c) s"

text \<open>The scalar values a metadata dictionary holds.\<close>

datatype py_value = PNone | PStr pystr | PFloat rat | PInt int | PBool bool

type_synonym metadata = "(pystr, py_value) dict"

text \<open>The day of a timestamp.\<close>

definition day_of :: "time \<Rightarrow> int" where
  "day_of t = t div 86400000000"

end
