(* ===== verification/Floats.thy ===== *)
theory Floats imports Prelude "HOL-Library.Log_Nat" begin

text \<open>
  Python's \<open>float\<close>. A value is the rational it denotes and every arithmetic operation
  rounds its exact result to 53 significant bits, to nearest with ties to even, as IEEE 754
  binary64 does. Outside the model are overflow to infinity, underflow (the exponent is not
  bounded) and NaN: prices, quantities and money stay far inside the binary64 range.
  \<open>fl\<close> is rounding to a precision in any base; \<open>b64\<close> is its instance at base 2.
  The laws of rounding that clients use are the assumptions of the locale \<open>rounding\<close>,
  interpreted on \<open>b64\<close>.
\<close>

section \<open>Round to nearest, ties to even\<close>

definition rne :: "rat \<Rightarrow> int" where
  "rne q = (let f = \<lfloor>q\<rfloor>; d = q - of_int f in
     if d < 1 / 2 then f else if 1 / 2 < d then f + 1 else if even f then f else f + 1)"

lemma rne_of_int [simp]: "rne (of_int n) = n"
  by (simp add: rne_def)

lemma rne_cases: "rne q = \<lfloor>q\<rfloor> \<or> rne q = \<lfloor>q\<rfloor> + 1"
  by (simp add: rne_def Let_def)

lemma rne_error: "\<bar>of_int (rne q) - q\<bar> \<le> 1 / 2"
proof -
  define f where "f = \<lfloor>q\<rfloor>"
  have "of_int f \<le> q" "q < of_int f + 1"
    unfolding f_def by linarith+
  then show ?thesis
    unfolding rne_def Let_def f_def [symmetric] by (auto simp: abs_le_iff)
qed

lemma rne_floor_le: "\<lfloor>q\<rfloor> \<le> rne q"
  using rne_cases [of q] by auto

lemma rne_mono:
  assumes "x \<le> y"
  shows "rne x \<le> rne y"
proof (cases "\<lfloor>x\<rfloor> = \<lfloor>y\<rfloor>")
  case True
  with assms show ?thesis by (auto simp: rne_def Let_def)
next
  case False
  with floor_mono [OF assms] have "\<lfloor>x\<rfloor> + 1 \<le> \<lfloor>y\<rfloor>" by simp
  with rne_cases [of x] rne_floor_le [of y] show ?thesis by auto
qed

lemma rne_minus: "rne (- q) = - rne q"
proof (cases "q \<in> \<int>")
  case True
  then obtain n where "q = of_int n" by (rule Ints_cases)
  then show ?thesis by (metis of_int_minus rne_of_int)
next
  case False
  then have f: "\<lfloor>- q\<rfloor> = - \<lfloor>q\<rfloor> - 1"
    by (simp add: floor_minus ceiling_altdef) (metis Ints_of_int)
  show ?thesis
    unfolding rne_def Let_def f by auto
qed

section \<open>The exponent of a number\<close>

definition expo :: "nat \<Rightarrow> rat \<Rightarrow> int" where
  "expo B x = (if 1 \<le> \<bar>x\<bar> then int (floorlog B (nat \<lfloor>\<bar>x\<bar>\<rfloor>)) - 1
     else - int (floorlog B (nat (\<lceil>1 / \<bar>x\<bar>\<rceil> - 1))))"

lemma expo_minus [simp]: "expo B (- x) = expo B x"
  by (simp add: expo_def)

lemma powi_of_nat_diff: "k \<noteq> 0 \<Longrightarrow> (b::rat) powi (int k - 1) = b ^ (k - 1)"
  by (metis One_nat_def Suc_pred bot_nat_0.not_eq_extremum diff_Suc_1 int_ops(2) of_nat_diff
      power_int_of_nat Suc_leI)

lemma expo_bounds:
  assumes "x \<noteq> 0" and B: "1 < B"
  shows "of_nat B powi expo B x \<le> \<bar>x\<bar> \<and> \<bar>x\<bar> < of_nat B powi (expo B x + 1)"
proof (cases "1 \<le> \<bar>x\<bar>")
  case True
  define n where "n = nat \<lfloor>\<bar>x\<bar>\<rfloor>"
  define k where "k = floorlog B n"
  from True have n: "0 < n" "of_nat n \<le> \<bar>x\<bar>" "\<bar>x\<bar> < of_nat n + 1"
    unfolding n_def by linarith+
  from n(1) B have b: "B ^ (k - 1) \<le> n" "n < B ^ k"
    using floorlog_bounds [of n B] by (auto simp: k_def)
  have k0: "k \<noteq> 0" using b(2) n(1) by (cases k) auto
  have e: "expo B x = int k - 1"
    using True by (simp add: expo_def n_def k_def)
  have "(of_nat B :: rat) ^ (k - 1) \<le> of_nat n"
    using b(1) by (metis of_nat_le_iff of_nat_power)
  moreover have "of_nat n + 1 \<le> (of_nat B :: rat) ^ k"
    using b(2) by (metis Suc_leI of_nat_Suc of_nat_le_iff of_nat_power add.commute)
  moreover have "of_nat B powi expo B x = (of_nat B :: rat) ^ (k - 1)"
    "of_nat B powi (expo B x + 1) = (of_nat B :: rat) ^ k"
    using powi_of_nat_diff [OF k0, of "of_nat B"] by (simp_all add: e)
  ultimately show ?thesis
    using n by (intro conjI; linarith)
next
  case False
  define y where "y = 1 / \<bar>x\<bar>"
  define n where "n = nat (\<lceil>y\<rceil> - 1)"
  define k where "k = floorlog B n"
  from False assms(1) have y: "1 < y" by (simp add: y_def)
  then have n: "0 < n" "of_nat n < y" "y \<le> of_nat n + 1"
    unfolding n_def by linarith+
  from n(1) B have b: "B ^ (k - 1) \<le> n" "n < B ^ k"
    using floorlog_bounds [of n B] by (auto simp: k_def)
  have k0: "k \<noteq> 0" using b(2) n(1) by (cases k) auto
  have e: "expo B x = - int k"
    using False by (simp add: expo_def n_def k_def y_def)
  have x: "\<bar>x\<bar> = 1 / y" using assms(1) by (simp add: y_def)
  have lo: "(of_nat B :: rat) ^ (k - 1) < y"
    using b(1) n(2) by (metis of_nat_le_iff of_nat_power order_le_less_trans)
  have hi: "y \<le> (of_nat B :: rat) ^ k"
    using b(2) n(3) by (metis Suc_leI of_nat_Suc of_nat_le_iff of_nat_power add.commute order_trans)
  have Bp: "0 < (of_nat B :: rat)" using B by simp
  have "of_nat B powi expo B x = 1 / (of_nat B :: rat) ^ k"
    by (simp add: e power_int_minus divide_inverse)
  moreover have "of_nat B powi (expo B x + 1) = 1 / (of_nat B :: rat) ^ (k - 1)"
  proof -
    have "expo B x + 1 = - (int k - 1)" by (simp add: e)
    then show ?thesis
      using k0 by (metis power_int_minus powi_of_nat_diff divide_inverse mult_1)
  qed
  ultimately show ?thesis
    using lo hi y Bp by (simp add: x frac_le divide_strict_left_mono)
qed

lemma power_int_less_imp_less_exp:
  assumes "x powi m < x powi n" and "1 < (x :: rat)"
  shows "m < n"
  using assms power_int_increasing [of n m x] by (meson less_le_not_le not_le_imp_less)

lemma expo_unique:
  assumes "x \<noteq> 0" and B: "1 < B"
    and "of_nat B powi e \<le> \<bar>x\<bar>" and "\<bar>x\<bar> < of_nat B powi (f + 1)"
  shows "e \<le> expo B x" and "expo B x \<le> f"
proof -
  have B1: "1 < (of_nat B :: rat)" using B by simp
  have "of_nat B powi e < (of_nat B :: rat) powi (expo B x + 1)"
    using expo_bounds [OF assms(1) B] assms(3) by linarith
  then have "e < expo B x + 1"
    using B1 by (rule power_int_less_imp_less_exp)
  then show "e \<le> expo B x" by simp
  have "of_nat B powi expo B x < (of_nat B :: rat) powi (f + 1)"
    using expo_bounds [OF assms(1) B] assms(4) by linarith
  then have "expo B x < f + 1"
    using B1 by (rule power_int_less_imp_less_exp)
  then show "expo B x \<le> f" by simp
qed

section \<open>Rounding to a precision\<close>

text \<open>
  \<open>fl B p x\<close> is the base-\<open>B\<close> number with \<open>p\<close> digits closest to \<open>x\<close>: \<open>x\<close> is scaled
  by the unit of its last digit, rounded to an integer and scaled back.
\<close>

definition ulp :: "nat \<Rightarrow> nat \<Rightarrow> rat \<Rightarrow> rat" where
  "ulp B p x = of_nat B powi (expo B x - int p + 1)"

definition fl :: "nat \<Rightarrow> nat \<Rightarrow> rat \<Rightarrow> rat" where
  "fl B p x = (if x = 0 then 0 else of_int (rne (x / ulp B p x)) * ulp B p x)"

lemma ulp_pos: "1 < B \<Longrightarrow> 0 < ulp B p x"
  by (simp add: ulp_def)

lemma fl_0 [simp]: "fl B p 0 = 0"
  by (simp add: fl_def)

lemma fl_minus: "fl B p (- x) = - fl B p x"
  by (simp add: fl_def ulp_def minus_divide_left [symmetric] rne_minus)

lemma ulp_times_power:
  assumes "1 < B"
  shows "of_nat B ^ k * ulp B p x = of_nat B powi (int k + (expo B x - int p + 1))"
proof -
  have B0: "(of_nat B :: rat) \<noteq> 0" using assms by simp
  show ?thesis
    unfolding ulp_def by (simp add: power_int_add [OF disjI1 [OF B0]])
qed

lemma powi_as_ulp:
  "1 < B \<Longrightarrow> of_nat B powi (expo B x + 1) = of_nat B ^ p * ulp B p x"
  "1 < B \<Longrightarrow> 0 < p \<Longrightarrow> of_nat B powi expo B x = of_nat B ^ (p - 1) * ulp B p x"
  by (simp_all add: ulp_times_power of_nat_diff add.commute)

lemma fl_bounds:
  assumes "0 < x" and B: "1 < B" and p: "0 < p"
  shows "of_nat B powi (expo B x) \<le> fl B p x" and "fl B p x \<le> of_nat B powi (expo B x + 1)"
proof -
  let ?u = "ulp B p x" and ?b = "of_nat B :: rat"
  have u: "0 < ?u" using B by (rule ulp_pos)
  have b: "?b powi expo B x \<le> x" "x < ?b powi (expo B x + 1)"
    using expo_bounds [of x B] assms by auto
  have "of_int (int B ^ (p - 1)) \<le> x / ?u"
    using b(1) u by (simp add: powi_as_ulp(2) [OF B p] pos_le_divide_eq)
  then have "int B ^ (p - 1) \<le> rne (x / ?u)"
    using rne_mono [of "of_int (int B ^ (p - 1))"] by (metis rne_of_int)
  then have "?b ^ (p - 1) \<le> of_int (rne (x / ?u))"
    by (metis of_int_le_iff of_int_of_nat_eq of_int_power)
  with u show "?b powi expo B x \<le> fl B p x"
    using \<open>0 < x\<close> by (simp add: fl_def powi_as_ulp(2) [OF B p])
  have "x / ?u \<le> of_int (int B ^ p)"
    using b(2) u by (simp add: powi_as_ulp(1) [OF B, of _ p] pos_divide_le_eq)
  then have "rne (x / ?u) \<le> int B ^ p"
    using rne_mono [of _ "of_int (int B ^ p)"] by (metis rne_of_int)
  then have "of_int (rne (x / ?u)) \<le> ?b ^ p"
    by (metis of_int_le_iff of_int_of_nat_eq of_int_power)
  with u show "fl B p x \<le> ?b powi (expo B x + 1)"
    using \<open>0 < x\<close> by (simp add: fl_def powi_as_ulp(1) [OF B, of _ p])
qed

lemma fl_pos: "0 < x \<Longrightarrow> 1 < B \<Longrightarrow> 0 < p \<Longrightarrow> 0 < fl B p x"
  using fl_bounds(1) [of x B p] by (metis less_le_trans of_nat_0_less_iff order_less_trans
      zero_less_one zero_less_power_int)

lemma fl_mono_pos:
  assumes "0 < x" "x \<le> y" and B: "1 < B" and p: "0 < p"
  shows "fl B p x \<le> fl B p y"
proof -
  let ?b = "of_nat B :: rat"
  have y: "0 < y" using assms by linarith
  have "?b powi expo B x \<le> \<bar>y\<bar>" "\<bar>y\<bar> < ?b powi (expo B y + 1)"
    using expo_bounds [of x B] expo_bounds [of y B] assms y by auto
  then have "expo B x \<le> expo B y"
    using expo_unique(1) [of y B] y B by simp
  then consider "expo B x = expo B y" | "expo B x + 1 \<le> expo B y" by linarith
  then show ?thesis
  proof cases
    case 1
    then have u: "ulp B p x = ulp B p y" by (simp add: ulp_def)
    have "x / ulp B p y \<le> y / ulp B p y"
      using assms(2) ulp_pos [OF B] by (simp add: divide_right_mono less_imp_le)
    then have "rne (x / ulp B p y) \<le> rne (y / ulp B p y)" by (rule rne_mono)
    then show ?thesis
      using assms(1) y ulp_pos [OF B, of p y] by (simp add: fl_def u mult_right_mono)
  next
    case 2
    have "fl B p x \<le> ?b powi (expo B x + 1)" using assms by (intro fl_bounds)
    also have "\<dots> \<le> ?b powi expo B y" using 2 B by (intro power_int_increasing) auto
    also have "\<dots> \<le> fl B p y" using y B p by (intro fl_bounds)
    finally show ?thesis .
  qed
qed

lemma fl_mono:
  assumes "x \<le> y" and "1 < B" and "0 < p"
  shows "fl B p x \<le> fl B p y"
proof -
  consider "0 < x" | "x \<le> 0" "0 \<le> y" | "y < 0" by linarith
  then show ?thesis
  proof cases
    case 1
    with assms show ?thesis by (intro fl_mono_pos)
  next
    case 2
    have "fl B p x \<le> 0"
      using fl_pos [of "- x" B p] 2 assms by (cases "x = 0") (auto simp: fl_minus)
    moreover have "0 \<le> fl B p y"
      using fl_pos [of y B p] 2 assms by (cases "y = 0") auto
    ultimately show ?thesis by linarith
  next
    case 3
    with assms have "fl B p (- y) \<le> fl B p (- x)" by (intro fl_mono_pos) auto
    then show ?thesis by (simp add: fl_minus)
  qed
qed

text \<open>A number of at most \<open>p\<close> digits is its own rounding.\<close>

lemma fl_exact_lt:
  assumes "\<bar>m\<bar> < int B ^ p" and B: "1 < B"
  shows "fl B p (of_int m * of_nat B powi k) = of_int m * of_nat B powi k"
proof (cases "m = 0")
  case False
  let ?b = "of_nat B :: rat" and ?x = "of_int m * of_nat B powi k :: rat"
  have B0: "?b \<noteq> 0" and Bp: "0 < ?b" using B by auto
  have x: "?x \<noteq> 0" using False B0 by simp
  have "\<bar>of_int m :: rat\<bar> < of_int (int B ^ p)"
    using assms(1) by (metis of_int_abs of_int_less_iff)
  then have "\<bar>?x\<bar> < ?b ^ p * ?b powi k"
    using Bp by (simp add: abs_mult)
  also have "?b ^ p * ?b powi k = ?b powi ((int p + k - 1) + 1)"
    using power_int_add [OF disjI1 [OF B0], of "int p" k] by (simp add: add.commute)
  finally have "expo B ?x \<le> int p + k - 1"
    using expo_unique(2) [OF x B expo_bounds [OF x B, THEN conjunct1]] by blast
  then obtain n where n: "k = (expo B ?x - int p + 1) + int n"
    by (metis add.commute add_diff_cancel_left' diff_add_cancel diff_ge_0_iff_ge
        nonneg_int_cases zle_iff_zadd add_le_cancel_right add_diff_eq diff_le_eq)
  have e: "?x = (of_int (m * int B ^ n)) * ulp B p ?x"
    unfolding ulp_def by (subst n) (simp add: power_int_add [OF disjI1 [OF B0]])
  then have "?x / ulp B p ?x = of_int (m * int B ^ n)"
    using ulp_pos [OF B, of p ?x] by (metis nonzero_mult_div_cancel_right less_irrefl)
  then have "rne (?x / ulp B p ?x) = m * int B ^ n"
    by (simp only: rne_of_int)
  then have "fl B p ?x = of_int (m * int B ^ n) * ulp B p ?x"
    using x by (simp only: fl_def if_False)
  also note e [symmetric]
  finally show ?thesis .
qed simp

lemma fl_exact:
  assumes "\<bar>m\<bar> \<le> int B ^ p" and B: "1 < B" and p: "0 < p"
  shows "fl B p (of_int m * of_nat B powi k) = of_int m * of_nat B powi k"
proof (cases "\<bar>m\<bar> = int B ^ p")
  case False
  with assms show ?thesis by (intro fl_exact_lt) auto
next
  case True
  define s :: int where "s = sgn m"
  have m: "m = s * int B ^ p" and s: "\<bar>s\<bar> \<le> 1"
    using True by (auto simp: s_def sgn_if split: if_splits)
  have B0: "(of_nat B :: rat) \<noteq> 0" using B by simp
  have e: "of_int m * of_nat B powi k = of_int s * (of_nat B :: rat) powi (int p + k)"
    using B0 by (simp add: m power_int_add)
  have "1 < int B ^ p" using B p by simp
  with s show ?thesis
    unfolding e by (intro fl_exact_lt B) auto
qed

lemma fl_is_scaled:
  assumes "1 < B" and "0 < p"
  shows "\<exists>m k. fl B p x = of_int m * of_nat B powi k \<and> \<bar>m\<bar> \<le> int B ^ p"
proof (cases "x = 0")
  case True
  then show ?thesis by (intro exI [of _ 0]) simp
next
  case False
  have u: "0 < ulp B p x" using assms(1) by (rule ulp_pos)
  have "\<bar>x\<bar> \<le> of_nat B ^ p * ulp B p x"
    using expo_bounds [OF False assms(1)] powi_as_ulp(1) [OF assms(1), of x p] by linarith
  then have "\<bar>x / ulp B p x\<bar> \<le> of_int (int B ^ p)"
    using u by (simp add: abs_divide pos_divide_le_eq)
  then have "x / ulp B p x \<le> of_int (int B ^ p)" "of_int (- (int B ^ p)) \<le> x / ulp B p x"
    unfolding of_int_minus by linarith+
  then have "\<bar>rne (x / ulp B p x)\<bar> \<le> int B ^ p"
    using rne_mono [of "x / ulp B p x" "of_int (int B ^ p)"]
      rne_mono [of "of_int (- (int B ^ p))" "x / ulp B p x"]
    unfolding rne_of_int by linarith
  with False show ?thesis
    by (intro exI [of _ "rne (x / ulp B p x)"] exI [of _ "expo B x - int p + 1"])
      (simp add: fl_def ulp_def)
qed

lemma fl_idem: "1 < B \<Longrightarrow> 0 < p \<Longrightarrow> fl B p (fl B p x) = fl B p x"
  using fl_is_scaled [of B p x] fl_exact [of _ B p] by fastforce

lemma fl_error:
  assumes B: "1 < B" and p: "0 < p"
  shows "\<bar>fl B p x - x\<bar> \<le> \<bar>x\<bar> / (2 * of_nat B ^ (p - 1))"
proof (cases "x = 0")
  case False
  let ?u = "ulp B p x"
  have u: "0 < ?u" using B by (rule ulp_pos)
  have "of_nat B ^ (p - 1) * ?u \<le> \<bar>x\<bar>"
    using expo_bounds [OF False B] powi_as_ulp(2) [OF B p, of x] by simp
  then have ux: "?u \<le> \<bar>x\<bar> / of_nat B ^ (p - 1)"
    using B by (simp add: pos_le_divide_eq mult.commute)
  have "fl B p x - x = (of_int (rne (x / ?u)) - x / ?u) * ?u"
    using False u by (simp add: fl_def left_diff_distrib)
  then have "\<bar>fl B p x - x\<bar> \<le> 1 / 2 * ?u"
    using rne_error [of "x / ?u"] u by (simp add: abs_mult mult_right_mono)
  also have "\<dots> \<le> 1 / 2 * (\<bar>x\<bar> / of_nat B ^ (p - 1))"
    using ux by simp
  finally show ?thesis by simp
qed simp

section \<open>The laws of rounding\<close>

text \<open>
  What arithmetic on rounded numbers relies on. Monotonicity and the exactness of numbers
  that are already representable carry every comparison the code makes; the relative error
  bounds what is lost.
\<close>

locale rounding =
  fixes rnd :: "rat \<Rightarrow> rat" and eps :: rat
  assumes rnd_mono: "x \<le> y \<Longrightarrow> rnd x \<le> rnd y"
    and rnd_idem: "rnd (rnd x) = rnd x"
    and rnd_minus: "rnd (- x) = - rnd x"
    and rnd_pos: "0 < x \<Longrightarrow> 0 < rnd x"
    and rnd_one: "rnd 1 = 1"
    and rnd_error: "\<bar>rnd x - x\<bar> \<le> eps * \<bar>x\<bar>"
begin

lemma rnd_0: "rnd 0 = 0"
  using rnd_minus [of 0] by simp

lemma rnd_nonneg: "0 \<le> x \<Longrightarrow> 0 \<le> rnd x"
  using rnd_mono [of 0 x] by (simp add: rnd_0)

lemma rnd_nonpos: "x \<le> 0 \<Longrightarrow> rnd x \<le> 0"
  using rnd_mono [of x 0] by (simp add: rnd_0)

lemma rnd_neg: "x < 0 \<Longrightarrow> rnd x < 0"
  using rnd_pos [of "- x"] by (simp add: rnd_minus)

lemma rnd_pos_iff: "0 < rnd x \<longleftrightarrow> 0 < x"
  using rnd_pos rnd_nonpos by (metis not_le)

lemma rnd_neg_iff: "rnd x < 0 \<longleftrightarrow> x < 0"
  using rnd_neg rnd_nonneg by (metis not_le)

lemma rnd_nonneg_iff: "0 \<le> rnd x \<longleftrightarrow> 0 \<le> x"
  using rnd_neg_iff by (metis not_le)

lemma rnd_nonpos_iff: "rnd x \<le> 0 \<longleftrightarrow> x \<le> 0"
  using rnd_pos_iff by (metis not_le)

lemma rnd_eq_0_iff: "rnd x = 0 \<longleftrightarrow> x = 0"
  using rnd_pos_iff [of x] rnd_neg_iff [of x] by (auto simp: rnd_0)

lemma rnd_abs: "rnd \<bar>x\<bar> = \<bar>rnd x\<bar>"
  using rnd_nonneg [of x] rnd_nonpos [of x] by (auto simp: abs_if rnd_minus)

text \<open>Comparing with a representable number commutes with rounding.\<close>

lemma rnd_ge: "rnd y = y \<Longrightarrow> y \<le> x \<Longrightarrow> y \<le> rnd x"
  using rnd_mono [of y x] by simp

lemma rnd_le: "rnd y = y \<Longrightarrow> x \<le> y \<Longrightarrow> rnd x \<le> y"
  using rnd_mono [of x y] by simp

lemma rnd_diff_sign:
  "0 < rnd (x - y) \<longleftrightarrow> y < x" "rnd (x - y) < 0 \<longleftrightarrow> x < y" "rnd (x - y) = 0 \<longleftrightarrow> x = y"
  "0 \<le> rnd (x - y) \<longleftrightarrow> y \<le> x"
  by (auto simp: rnd_pos_iff rnd_neg_iff rnd_eq_0_iff rnd_nonneg_iff)

end

section \<open>Binary64\<close>

definition b64 :: "rat \<Rightarrow> rat" where
  "b64 x = fl 2 53 x"

text \<open>The unit roundoff of binary64.\<close>

definition b64_eps :: rat where
  "b64_eps = 1 / 2 ^ 53"

lemma b64_exact: "\<bar>m\<bar> \<le> 2 ^ 53 \<Longrightarrow> b64 (of_int m * 2 powi k) = of_int m * 2 powi k"
  using fl_exact [of m 2 53 k] by (simp add: b64_def)

lemma b64_of_int: "\<bar>m\<bar> \<le> 2 ^ 53 \<Longrightarrow> b64 (of_int m) = of_int m"
  using b64_exact [of m 0] by simp

interpretation b64: rounding b64 b64_eps
proof
  show "b64 x \<le> b64 y" if "x \<le> y" for x y
    using that by (simp add: b64_def fl_mono)
  show "b64 (b64 x) = b64 x" for x
    by (simp add: b64_def fl_idem)
  show "b64 (- x) = - b64 x" for x
    by (simp add: b64_def fl_minus)
  show "0 < b64 x" if "0 < x" for x
    using that by (simp add: b64_def fl_pos)
  show "b64 1 = 1"
    using b64_of_int [of 1] by simp
  show "\<bar>b64 x - x\<bar> \<le> b64_eps * \<bar>x\<bar>" for x
    using fl_error [of 2 53 x] by (simp add: b64_def b64_eps_def)
qed

declare b64.rnd_0 [simp] b64.rnd_one [simp] b64.rnd_idem [simp]

lemma b64_numeral [simp]:
  "(numeral n :: int) \<le> 9007199254740992 \<Longrightarrow> b64 (numeral n) = numeral n"
  using b64_of_int [of "numeral n"] by simp

lemma b64_neg_numeral [simp]:
  "(numeral n :: int) \<le> 9007199254740992 \<Longrightarrow> b64 (- numeral n) = - numeral n"
  by (simp add: b64.rnd_minus)

text \<open>Whole numbers up to \<open>2 ^ 53\<close> are representable, so arithmetic on them is exact.\<close>

lemma b64_Ints: "x \<in> \<int> \<Longrightarrow> \<bar>x\<bar> \<le> 9007199254740992 \<Longrightarrow> b64 x = x"
proof (elim Ints_cases)
  fix z :: int
  assume "\<bar>x\<bar> \<le> 9007199254740992" and "x = of_int z"
  moreover from this have "\<bar>z\<bar> \<le> 9007199254740992" by linarith
  ultimately show "b64 x = x" using b64_of_int [of z] by simp
qed

text \<open>A value a Python float can hold.\<close>

definition isfl :: "rat \<Rightarrow> bool" where
  "isfl x \<longleftrightarrow> b64 x = x"

definition fadd :: "rat \<Rightarrow> rat \<Rightarrow> rat" where
  "fadd x y = b64 (x + y)"

definition fsub :: "rat \<Rightarrow> rat \<Rightarrow> rat" where
  "fsub x y = b64 (x - y)"

definition fmul :: "rat \<Rightarrow> rat \<Rightarrow> rat" where
  "fmul x y = b64 (x * y)"

definition fdiv :: "rat \<Rightarrow> rat \<Rightarrow> rat" where
  "fdiv x y = b64 (x / y)"

text \<open>\<open>x / y\<close> in Python: raises when the divisor is zero.\<close>

definition py_div :: "rat \<Rightarrow> rat \<Rightarrow> rat result" where
  "py_div x y = (if y = 0 then Inl ZeroDivisionError else Inr (fdiv x y))"

lemma isfl_ops [simp, intro]:
  "isfl (b64 x)" "isfl (fadd x y)" "isfl (fsub x y)" "isfl (fmul x y)" "isfl (fdiv x y)"
  "isfl 0" "isfl 1"
  by (simp_all add: isfl_def fadd_def fsub_def fmul_def fdiv_def)

lemma isfl_minus [simp]: "isfl (- x) \<longleftrightarrow> isfl x"
  by (auto simp: isfl_def b64.rnd_minus)

lemma isfl_abs [simp, intro]: "isfl x \<Longrightarrow> isfl \<bar>x\<bar>"
  by (simp add: isfl_def b64.rnd_abs)

lemma isfl_max_min [simp, intro]: "isfl x \<Longrightarrow> isfl y \<Longrightarrow> isfl (max x y)"
  "isfl x \<Longrightarrow> isfl y \<Longrightarrow> isfl (min x y)"
  by (simp_all add: max_def min_def)

lemma b64_isfl [simp]: "isfl x \<Longrightarrow> b64 x = x"
  by (simp add: isfl_def)

lemma fsub_sign:
  "0 < fsub x y \<longleftrightarrow> y < x" "fsub x y < 0 \<longleftrightarrow> x < y" "fsub x y = 0 \<longleftrightarrow> x = y"
  "0 \<le> fsub x y \<longleftrightarrow> y \<le> x"
  by (simp_all add: fsub_def b64.rnd_diff_sign)

lemma fadd_nonneg: "0 \<le> x \<Longrightarrow> 0 \<le> y \<Longrightarrow> 0 \<le> fadd x y"
  by (simp add: fadd_def b64.rnd_nonneg)

lemma fmul_nonneg: "0 \<le> x \<Longrightarrow> 0 \<le> y \<Longrightarrow> 0 \<le> fmul x y"
  by (simp add: fmul_def b64.rnd_nonneg)

lemma fmul_pos: "0 < x \<Longrightarrow> 0 < y \<Longrightarrow> 0 < fmul x y"
  by (simp add: fmul_def b64.rnd_pos)

lemma fdiv_nonneg: "0 \<le> x \<Longrightarrow> 0 \<le> y \<Longrightarrow> 0 \<le> fdiv x y"
  by (simp add: fdiv_def b64.rnd_nonneg)

lemma fdiv_pos: "0 < x \<Longrightarrow> 0 < y \<Longrightarrow> 0 < fdiv x y"
  by (simp add: fdiv_def b64.rnd_pos)

lemma fadd_ge: "isfl x \<Longrightarrow> 0 \<le> y \<Longrightarrow> x \<le> fadd x y"
  unfolding fadd_def by (rule b64.rnd_ge) simp_all

lemma fsub_le: "isfl x \<Longrightarrow> 0 \<le> y \<Longrightarrow> fsub x y \<le> x"
  unfolding fsub_def by (rule b64.rnd_le) simp_all

lemmas fl_sign_intros = fadd_nonneg fmul_nonneg fmul_pos fdiv_nonneg fdiv_pos

section \<open>Evaluating the arithmetic\<close>

text \<open>
  Code equations: a number with a power of two as denominator and at most 53 significant bits is
  its own rounding, and logarithms are taken on integers.
\<close>

function ilog :: "int \<Rightarrow> int \<Rightarrow> int" where
  "ilog b n = (if 0 < n \<and> 1 < b then ilog b (n div b) + 1 else 0)"
  by pat_completeness auto
termination
  by (relation "measure (\<lambda>(b, n). nat n)") (auto simp: int_div_less_self)

declare ilog.simps [simp del]

lemma floorlog_ilog: "int (floorlog b (nat n)) = ilog (int b) n"
proof (induction "int b" n rule: ilog.induct)
  case (1 n)
  show ?case
  proof (cases "0 < n \<and> 1 < int b")
    case True
    have "nat n div b = nat (n div int b)"
      using True by (metis int_nat_eq linorder_not_le nat_int nat_int_comparison(3) order_less_imp_le zdiv_int)
    then show ?thesis
      using True 1 by (simp add: compute_floorlog [of b "nat n"] ilog.simps [of "int b" n])
  next
    case False
    then show ?thesis by (auto simp: compute_floorlog [of b "nat n"] ilog.simps [of "int b" n])
  qed
qed

lemma expo_code [code]:
  "expo B x = (if 1 \<le> \<bar>x\<bar> then ilog (int B) \<lfloor>\<bar>x\<bar>\<rfloor> - 1 else - ilog (int B) (\<lceil>1 / \<bar>x\<bar>\<rceil> - 1))"
  by (simp add: expo_def floorlog_ilog)

function is_pow2 :: "int \<Rightarrow> bool" where
  "is_pow2 d = (if d \<le> 1 then d = 1 else d mod 2 = 0 \<and> is_pow2 (d div 2))"
  by pat_completeness auto
termination
  by (relation "measure nat") auto

declare is_pow2.simps [simp del]

lemma is_pow2_power: "is_pow2 d \<Longrightarrow> \<exists>k. d = 2 ^ k"
proof (induction d rule: is_pow2.induct)
  case (1 d)
  show ?case
  proof (cases "d \<le> 1")
    case True
    with "1.prems" show ?thesis by (metis is_pow2.simps power_0)
  next
    case False
    with "1.prems" have "d mod 2 = 0" "is_pow2 (d div 2)" by (metis is_pow2.simps)+
    with "1.IH" [OF False] obtain k where "d div 2 = 2 ^ k" by blast
    with \<open>d mod 2 = 0\<close> have "d = 2 ^ Suc k" by auto
    then show ?thesis ..
  qed
qed

lemma b64_dyadic:
  assumes "\<bar>n\<bar> \<le> 9007199254740992" "is_pow2 d"
  shows "b64 (of_int n / of_int d) = of_int n / of_int d"
proof -
  obtain k where "d = 2 ^ k" using is_pow2_power [OF assms(2)] ..
  then have "of_int n / of_int d = of_int n * (2::rat) powi (- int k)"
    by (simp add: power_int_minus divide_inverse)
  with b64_exact [of n "- int k"] assms(1) show ?thesis by simp
qed

lemma b64_code [code]:
  "b64 x = (let (n, d) = quotient_of x in
     if \<bar>n\<bar> \<le> 9007199254740992 \<and> is_pow2 d then x else fl 2 53 x)"
proof -
  obtain n d where q: "quotient_of x = (n, d)" by (cases "quotient_of x")
  have x: "x = of_int n / of_int d" using q by (rule quotient_of_div)
  have "b64 x = x" if "\<bar>n\<bar> \<le> 9007199254740992" "is_pow2 d"
    unfolding x using that by (rule b64_dyadic)
  then show ?thesis
    unfolding q Let_def by (simp add: b64_def)
qed

section \<open>Floor division\<close>

text \<open>
  CPython's \<open>x // y\<close> on floats (\<open>_float_div_mod\<close>): the remainder is exact, the quotient is
  rounded and then snapped to the nearest integer.
\<close>

definition fmod :: "rat \<Rightarrow> rat \<Rightarrow> rat" where
  "fmod x y = x - y * of_int (py_trunc (x / y))"

definition ffloordiv :: "rat \<Rightarrow> rat \<Rightarrow> rat result" where
  "ffloordiv x y = (if y = 0 then Inl ZeroDivisionError else
     let m = fmod x y;
         d0 = fdiv (fsub x m) y;
         d = (if m \<noteq> 0 \<and> (y < 0) \<noteq> (m < 0) then fsub d0 1 else d0);
         f = of_int \<lfloor>d\<rfloor>
     in Inr (if 1 / 2 < fsub d f then fadd f 1 else f))"

lemma fmod_nonneg:
  assumes "0 \<le> x" "0 < y"
  shows "0 \<le> fmod x y" "x - fmod x y = y * of_int \<lfloor>x / y\<rfloor>"
proof -
  have t: "py_trunc (x / y) = \<lfloor>x / y\<rfloor>"
    using assms by (simp add: py_trunc_def)
  have "y * of_int \<lfloor>x / y\<rfloor> \<le> y * (x / y)"
    using assms by (intro mult_left_mono) auto
  then show "0 \<le> fmod x y"
    using assms by (simp add: fmod_def t)
  show "x - fmod x y = y * of_int \<lfloor>x / y\<rfloor>"
    by (simp add: fmod_def t)
qed

lemma ffloordiv_nonneg:
  assumes "0 \<le> x" "0 < y"
  shows "ffloordiv x y = Inr (let d = fdiv (b64 (y * of_int \<lfloor>x / y\<rfloor>)) y; f = of_int \<lfloor>d\<rfloor>
     in if 1 / 2 < fsub d f then fadd f 1 else f)"
  using assms fmod_nonneg [OF assms] by (simp add: ffloordiv_def Let_def fsub_def)

lemma b64_rel_error: "\<bar>b64 x - x\<bar> \<le> \<bar>x\<bar> / 9007199254740992"
  using b64.rnd_error [of x] by (simp add: b64_eps_def)

text \<open>Quotients below \<open>2 ^ 49\<close> are exact.\<close>

lemma ffloordiv_exact:
  assumes "0 \<le> x" "0 < y" and q: "\<lfloor>x / y\<rfloor> \<le> 2 ^ 49"
  shows "ffloordiv x y = Inr (of_int \<lfloor>x / y\<rfloor>)"
proof -
  define n where "n = \<lfloor>x / y\<rfloor>"
  define z where "z = b64 (y * of_int n)"
  define d where "d = fdiv z y"
  have n: "0 \<le> n" "n \<le> 2 ^ 49" using assms by (simp_all add: n_def)
  have nr: "0 \<le> (of_int n :: rat)" "(of_int n :: rat) \<le> 2 ^ 49"
    using n by (simp, metis of_int_le_iff of_int_numeral of_int_power)
  have "\<bar>z - y * of_int n\<bar> \<le> y * of_int n / 9007199254740992"
    using b64_rel_error [of "y * of_int n"] assms(2) nr(1) by (simp add: z_def abs_mult)
  then have "\<bar>z / y - of_int n\<bar> \<le> of_int n / 9007199254740992"
    using assms(2) by (simp add: abs_le_iff field_simps)
  moreover have "(of_int n :: rat) / 9007199254740992 \<le> 1 / 16"
    using nr(2) by simp
  ultimately have z: "\<bar>z / y - of_int n\<bar> \<le> 1 / 16" by linarith
  moreover have "(2::rat) ^ 49 + 1 / 16 \<le> 2 ^ 50" by simp
  ultimately have "\<bar>z / y\<bar> \<le> 2 ^ 50" using nr by linarith
  then have "\<bar>z / y\<bar> / 9007199254740992 \<le> 2 ^ 50 / 9007199254740992"
    by (rule divide_right_mono) simp
  then have "\<bar>z / y\<bar> / 9007199254740992 \<le> 1 / 8" by simp
  with b64_rel_error [of "z / y"] have "\<bar>d - z / y\<bar> \<le> 1 / 8"
    unfolding d_def fdiv_def by linarith
  with z have d: "\<bar>d - of_int n\<bar> < 1 / 4" by linarith
  have r: "ffloordiv x y = Inr (let f = of_int \<lfloor>d\<rfloor> in if 1 / 2 < fsub d f then fadd f 1 else f)"
    using ffloordiv_nonneg [OF assms(1,2)] by (simp add: d_def z_def n_def Let_def)
  consider "\<lfloor>d\<rfloor> = n" | "\<lfloor>d\<rfloor> = n - 1" "of_int n - 1 / 4 \<le> d"
    using d by (cases "of_int n \<le> d") (auto simp: floor_eq_iff abs_if split: if_splits)
  then show ?thesis
  proof cases
    case 1
    have "fsub d (of_int n) \<le> 1 / 4"
      unfolding fsub_def using d b64_dyadic [of 1 4]
      by (intro b64.rnd_le) (auto simp: is_pow2.simps abs_if split: if_splits)
    with 1 r show ?thesis by (simp add: Let_def n_def)
  next
    case 2
    have "3 / 4 \<le> fsub d (of_int (n - 1))"
      unfolding fsub_def using 2 b64_dyadic [of 3 4] by (intro b64.rnd_ge) (auto simp: is_pow2.simps)
    moreover have "fadd (of_int (n - 1)) 1 = of_int n"
      using n b64_of_int [of n] by (simp add: fadd_def)
    ultimately show ?thesis using 2 r by (simp add: Let_def n_def)
  qed
qed

text \<open>At any magnitude the quotient is zero below the divisor and at least one from it on.\<close>

lemma ffloordiv_small: "0 \<le> x \<Longrightarrow> x < y \<Longrightarrow> ffloordiv x y = Inr 0"
proof -
  assume "0 \<le> x" "x < y"
  then have "\<lfloor>x / y\<rfloor> = 0" by (simp add: floor_eq_iff)
  with ffloordiv_exact [of x y] \<open>0 \<le> x\<close> \<open>x < y\<close> show ?thesis by simp
qed

lemma ffloordiv_ge_1:
  assumes "isfl y" "0 < y" "y \<le> x"
  obtains r where "ffloordiv x y = Inr r" "1 \<le> r"
proof -
  define n where "n = \<lfloor>x / y\<rfloor>"
  have n: "1 \<le> n" using assms by (simp add: n_def le_floor_iff)
  then have "1 \<le> (of_int n :: rat)" by simp
  with assms(2) have "y \<le> y * of_int n" by simp
  then have "y \<le> b64 (y * of_int n)" using assms(1) by (intro b64.rnd_ge) auto
  then have d: "1 \<le> fdiv (b64 (y * of_int n)) y"
    unfolding fdiv_def using assms(2) by (intro b64.rnd_ge) auto
  then have f: "1 \<le> (of_int \<lfloor>fdiv (b64 (y * of_int n)) y\<rfloor> :: rat)"
    by (simp add: le_floor_iff)
  then have "1 \<le> fadd (of_int \<lfloor>fdiv (b64 (y * of_int n)) y\<rfloor>) 1"
    unfolding fadd_def by (intro b64.rnd_ge) auto
  note le = this
  have r: "ffloordiv x y = Inr (if 1 / 2 < fsub (fdiv (b64 (y * of_int n)) y) (of_int \<lfloor>fdiv (b64 (y * of_int n)) y\<rfloor>)
      then fadd (of_int \<lfloor>fdiv (b64 (y * of_int n)) y\<rfloor>) 1 else of_int \<lfloor>fdiv (b64 (y * of_int n)) y\<rfloor>)"
    using ffloordiv_nonneg [of x y] assms by (simp add: Let_def n_def)
  show ?thesis
    by (rule that [OF r]) (use f le in simp)
qed

text \<open>With a negative divisor the quotient of a distance is never positive.\<close>

lemma snap_nonpos:
  assumes "y \<le> 0"
  shows "(if 1 / 2 < fsub y (of_int \<lfloor>y\<rfloor>) then fadd (of_int \<lfloor>y\<rfloor>) 1 else of_int \<lfloor>y\<rfloor>) \<le> 0"
proof (cases "y = 0")
  case False
  then have "\<lfloor>y\<rfloor> \<le> - 1" using assms by (simp add: floor_le_iff)
  then have "(of_int \<lfloor>y\<rfloor> :: rat) \<le> - 1" by (metis of_int_le_iff of_int_minus of_int_1)
  then show ?thesis using assms by (auto simp: fadd_def b64.rnd_nonpos_iff)
qed (simp add: fsub_def)

lemma ffloordiv_nonpos:
  assumes "ffloordiv x y = Inr q" "y < 0" "0 \<le> x"
  shows "q \<le> 0"
proof -
  have t: "py_trunc (x / y) = \<lceil>x / y\<rceil>" "x / y \<le> 0"
    using assms(2,3) by (auto simp: py_trunc_def divide_le_0_iff zero_le_divide_iff)
  have "y * of_int \<lceil>x / y\<rceil> \<le> y * (x / y)"
    using assms(2) by (intro mult_left_mono_neg) auto
  then have m: "0 \<le> fmod x y" using assms(2) by (simp add: fmod_def t)
  have "x - fmod x y = y * of_int \<lceil>x / y\<rceil>" by (simp add: fmod_def t)
  moreover have "of_int \<lceil>x / y\<rceil> \<le> (0::rat)" using t(2) by (simp add: ceiling_le_iff)
  ultimately have "0 \<le> x - fmod x y" using assms(2) by (simp add: zero_le_mult_iff)
  then have "fdiv (fsub x (fmod x y)) y \<le> 0"
    using assms(2) by (simp add: fdiv_def fsub_def b64.rnd_nonpos_iff divide_le_0_iff b64.rnd_nonneg_iff)
  then have "(if fmod x y \<noteq> 0 \<and> (y < 0) \<noteq> (fmod x y < 0)
      then fsub (fdiv (fsub x (fmod x y)) y) 1 else fdiv (fsub x (fmod x y)) y) \<le> 0"
    by (auto simp: fsub_def b64.rnd_nonpos_iff)
  from snap_nonpos [OF this] show ?thesis
    using assms(1,2) by (auto simp: ffloordiv_def Let_def split: if_splits)
qed

lemma ffloordiv_pos:
  assumes "ffloordiv x y = Inr q" "0 < py_trunc q" "0 \<le> x"
  shows "0 < y \<and> y \<le> x"
proof -
  have "0 < q" using assms(2) by (auto simp: py_trunc_def split: if_splits)
  then have "\<not> y < 0" using ffloordiv_nonpos [of x y q] assms by auto
  moreover have "y \<noteq> 0" using assms(1) by (auto simp: ffloordiv_def)
  moreover have "y \<le> x"
    using ffloordiv_small [of x y] assms \<open>0 < q\<close> by (cases "x < y") auto
  ultimately show ?thesis by simp
qed

section \<open>Summing a list\<close>

text \<open>
  \<open>sum()\<close> of floats in Python 3.12 and later: compensated summation, the lost low parts are
  collected and added at the end.
\<close>

definition cs_add :: "rat \<times> rat \<Rightarrow> rat \<Rightarrow> rat \<times> rat" where
  "cs_add s x = (let t = fadd (fst s) x in
     (t, fadd (snd s) (if \<bar>x\<bar> \<le> \<bar>fst s\<bar> then fadd (fsub (fst s) t) x else fadd (fsub x t) (fst s))))"

definition py_sum :: "rat list \<Rightarrow> rat" where
  "py_sum xs = (let s = foldl cs_add (0, 0) xs in if snd s \<noteq> 0 then fadd (fst s) (snd s) else fst s)"

lemma py_sum_Nil [simp]: "py_sum [] = 0"
  by (simp add: py_sum_def)

text \<open>Whole numbers are added without any loss.\<close>

lemma cs_add_whole:
  assumes "s \<in> \<int>" "x \<in> \<int>" "\<bar>s + x\<bar> \<le> 9007199254740992" "\<bar>s\<bar> \<le> 9007199254740992" "\<bar>x\<bar> \<le> 9007199254740992"
  shows "cs_add (s, 0) x = (s + x, 0)"
proof -
  have t: "b64 (s + x) = s + x" "b64 s = s" "b64 x = x" "b64 (- s) = - s" "b64 (- x) = - x"
    using assms by (auto intro!: b64_Ints)
  show ?thesis by (simp add: cs_add_def Let_def fadd_def fsub_def t)
qed

lemma py_sum_whole:
  assumes "\<forall>x\<in>set xs. x \<in> \<int>" "(\<Sum>x\<leftarrow>xs. \<bar>x\<bar>) \<le> 9007199254740992"
  shows "py_sum xs = sum_list xs"
proof -
  have "s \<in> \<int> \<Longrightarrow> \<bar>s\<bar> + (\<Sum>x\<leftarrow>xs. \<bar>x\<bar>) \<le> 9007199254740992 \<Longrightarrow> foldl cs_add (s, 0) xs = (s + sum_list xs, 0)" for s
    using assms(1)
  proof (induction xs arbitrary: s)
    case (Cons x xs)
    have n: "0 \<le> (\<Sum>x\<leftarrow>xs. \<bar>x\<bar>)" by (intro sum_list_nonneg) auto
    have "cs_add (s, 0) x = (s + x, 0)"
      using Cons.prems n by (intro cs_add_whole) (auto simp: abs_if split: if_splits)
    moreover have "foldl cs_add (s + x, 0) xs = (s + x + sum_list xs, 0)"
      using Cons.prems n by (intro Cons.IH) (auto simp: abs_if split: if_splits)
    ultimately show ?case by (simp add: add.assoc)
  qed simp
  from this [of 0] assms(2) show ?thesis by (simp add: py_sum_def)
qed

text \<open>The sum of numbers that are not negative is near the exact one, relative to it.\<close>

lemma fadd_near: "\<bar>fadd x y - (x + y)\<bar> \<le> b64_eps * \<bar>x + y\<bar>" "\<bar>fsub x y - (x - y)\<bar> \<le> b64_eps * \<bar>x - y\<bar>"
  using b64.rnd_error by (simp_all add: fadd_def fsub_def)

lemma fdiv_near: "\<bar>fdiv x y - x / y\<bar> \<le> b64_eps * \<bar>x / y\<bar>"
  unfolding fdiv_def by (rule b64.rnd_error)

text \<open>What two operations recover of the part that an addition lost.\<close>

lemma lost_part:
  fixes r y s :: rat
  assumes "\<bar>p - (r - y)\<bar> \<le> u * \<bar>r - y\<bar>" "\<bar>e - (p + y)\<bar> \<le> u * \<bar>p + y\<bar>" "\<bar>r\<bar> \<le> u * s" "\<bar>y\<bar> \<le> s" "0 \<le> u" "u \<le> 1 / 100" "0 \<le> s"
  shows "\<bar>e\<bar> \<le> 3 * u * s"
proof -
  have us: "u * s \<le> 1 / 100 * s" using assms(6,7) by (intro mult_right_mono)
  have "\<bar>r - y\<bar> \<le> 101 / 100 * s" using assms(3,4) us by linarith
  from mult_left_mono [OF this assms(5)] have "u * \<bar>r - y\<bar> \<le> 101 / 100 * (u * s)" by (simp only: mult.left_commute)
  then have py: "\<bar>p + y\<bar> \<le> 201 / 100 * (u * s)" using assms(1,3) by linarith
  define z where "z = \<bar>p + y\<bar>"
  have "u * z \<le> 1 / 100 * z" using assms(6) by (intro mult_right_mono) (auto simp: z_def)
  moreover have "\<bar>e - (p + y)\<bar> \<le> u * z" "\<bar>p + y\<bar> \<le> z" "z \<le> 201 / 100 * (u * s)" using assms(2) py by (simp_all add: z_def)
  ultimately have "\<bar>e\<bar> \<le> 101 / 100 * (201 / 100 * (u * s))" by linarith
  moreover have "0 \<le> u * s" using assms(5,7) by simp
  ultimately show ?thesis by linarith
qed

definition sum_near :: "rat \<Rightarrow> rat \<Rightarrow> rat \<times> rat \<Rightarrow> bool" where
  "sum_near d s x \<longleftrightarrow> 0 \<le> s \<and> 0 \<le> fst x \<and> \<bar>fst x - s\<bar> \<le> 2 * d * s \<and> \<bar>snd x\<bar> \<le> 8 * d * s"

lemma eps_bounds: "0 < b64_eps" "b64_eps \<le> 1 / 100"
  by (simp_all add: b64_eps_def)

lemma cs_add_near:
  assumes "sum_near d s (t, c)" "0 \<le> d" "d \<le> 1 / 16" "0 \<le> x"
  shows "sum_near (d + b64_eps) (s + x) (cs_add (t, c) x)"
proof -
  let ?u = b64_eps
  define t' where "t' = fadd t x"
  define e where "e = (if \<bar>x\<bar> \<le> \<bar>t\<bar> then fadd (fsub t t') x else fadd (fsub x t') t)"
  have cs: "cs_add (t, c) x = (t', fadd c e)" by (simp add: cs_add_def Let_def t'_def e_def)
  note u = eps_bounds
  have s: "0 \<le> s" "0 \<le> t" "\<bar>t - s\<bar> \<le> 2 * d * s" "\<bar>c\<bar> \<le> 8 * d * s" using assms(1) by (simp_all add: sum_near_def)
  have ds: "d * s \<le> d * (s + x)" "d * (s + x) \<le> 1 / 16 * (s + x)" "0 \<le> d * s" "0 \<le> d * (s + x)"
    using assms(2,4) s(1) mult_right_mono [OF assms(3), of "s + x"] by (auto intro: mult_left_mono)
  have tx: "t + x \<le> 9 / 8 * (s + x)" "0 \<le> t + x" using s assms(4) ds by (auto simp: abs_le_iff)
  have ux: "?u * (t + x) \<le> 9 / 8 * (?u * (s + x))" "0 \<le> ?u * (s + x)" "?u * (s + x) \<le> 1 / 100 * (s + x)"
    using mult_left_mono [OF tx(1), of ?u] u s(1) assms(4) mult_right_mono [OF u(2), of "s + x"] by auto
  have r: "\<bar>t' - (t + x)\<bar> \<le> ?u * (t + x)" using fadd_near(1) [of t x] tx(2) by (simp add: t'_def)
  have 1: "\<bar>t' - (s + x)\<bar> \<le> 2 * (d + ?u) * (s + x)"
  proof -
    have "\<bar>t' - (s + x)\<bar> \<le> \<bar>t' - (t + x)\<bar> + \<bar>t - s\<bar>" by simp
    also have "\<dots> \<le> 9 / 8 * (?u * (s + x)) + 2 * (d * (s + x))" using r ux s(3) ds(1) by auto
    also have "\<dots> \<le> 2 * (d + ?u) * (s + x)" using ux(2) by (simp add: algebra_simps)
    finally show ?thesis .
  qed
  have e3: "\<bar>e\<bar> \<le> 3 * ?u * (t + x)"
  proof (cases "\<bar>x\<bar> \<le> \<bar>t\<bar>")
    case True
    have eq: "t - t' = (t + x - t') - x" by simp
    show ?thesis
      by (rule lost_part [of "fsub t t'" "t + x - t'" x]) (use True fadd_near(2) [of t t'] fadd_near(1) [of "fsub t t'" x] r u tx s assms(4) in
        \<open>auto simp: e_def abs_minus_commute\<close>)
  next
    case False
    show ?thesis
      by (rule lost_part [of "fsub x t'" "t + x - t'" t]) (use False fadd_near(2) [of x t'] fadd_near(1) [of "fsub x t'" t] r u tx s assms(4) in
        \<open>auto simp: e_def abs_minus_commute\<close>)
  qed
  have 2: "\<bar>fadd c e\<bar> \<le> 8 * (d + ?u) * (s + x)"
  proof -
    have ce: "\<bar>c + e\<bar> \<le> 8 * (d * (s + x)) + 27 / 8 * (?u * (s + x))" using s(4) e3 ux(1) ds(1) by auto
    have "\<bar>c + e\<bar> \<le> 6 / 10 * (s + x)" using ce ds(2,4) ux(2,3) by linarith
    then have "?u * \<bar>c + e\<bar> \<le> 6 / 10 * (?u * (s + x))" using mult_left_mono [of "\<bar>c + e\<bar>" "6 / 10 * (s + x)" ?u] u by auto
    moreover have "\<bar>fadd c e\<bar> \<le> \<bar>c + e\<bar> + ?u * \<bar>c + e\<bar>" using fadd_near(1) [of c e] by auto
    ultimately have "\<bar>fadd c e\<bar> \<le> 8 * (d * (s + x)) + 8 * (?u * (s + x))" using ce ux(2) by auto
    then show ?thesis by (simp add: algebra_simps)
  qed
  have "0 \<le> t'" using s(2) assms(4) by (simp add: t'_def fadd_nonneg)
  then show ?thesis using 1 2 s(1) assms(4) by (simp add: sum_near_def cs)
qed

lemma py_sum_near:
  assumes "\<forall>x\<in>set xs. 0 \<le> x" "length xs \<le> 1000000000"
  shows "\<bar>py_sum xs - sum_list xs\<bar> \<le> 12 * of_nat (length xs + 1) * b64_eps * sum_list xs"
proof -
  let ?u = b64_eps
  have near: "sum_near (of_nat (length xs) * ?u) (sum_list xs) (foldl cs_add (0, 0) xs)"
    using assms
  proof (induction xs rule: rev_induct)
    case (snoc x xs)
    obtain t c where tc: "foldl cs_add (0, 0) xs = (t, c)" by fastforce
    have "of_nat (length xs) * ?u \<le> 1000000000 * ?u" using snoc.prems(2) by (intro mult_right_mono) (simp_all add: b64_eps_def)
    then have "of_nat (length xs) * ?u \<le> 1 / 16" by (simp add: b64_eps_def)
    then have "sum_near (of_nat (length xs) * ?u + ?u) (sum_list xs + x) (cs_add (t, c) x)"
      using snoc by (intro cs_add_near) (auto simp: tc b64_eps_def)
    then show ?case by (simp add: tc algebra_simps)
  qed (simp add: sum_near_def)
  obtain t c where tc: "foldl cs_add (0, 0) xs = (t, c)" by fastforce
  define s where "s = sum_list xs"
  define d where "d = of_nat (length xs) * ?u"
  have n: "0 \<le> s" "\<bar>t - s\<bar> \<le> 2 * d * s" "\<bar>c\<bar> \<le> 8 * d * s" using near by (simp_all add: tc sum_near_def s_def d_def)
  have "d \<le> 1000000000 * ?u" unfolding d_def using assms(2) by (intro mult_right_mono) (simp_all add: b64_eps_def)
  then have d: "0 \<le> d" "d \<le> 1 / 100" by (simp_all add: b64_eps_def d_def)
  have ds: "d * s \<le> 1 / 100 * s" "0 \<le> d * s" using d(1) n(1) mult_right_mono [OF d(2) n(1)] by auto
  have p: "\<bar>py_sum xs - (t + c)\<bar> \<le> ?u * \<bar>t + c\<bar>"
    using fadd_near(1) [of t c] eps_bounds(1) by (simp add: py_sum_def tc Let_def)
  have "\<bar>t + c\<bar> \<le> 2 * s" using n ds by auto
  then have "?u * \<bar>t + c\<bar> \<le> 2 * (?u * s)" using mult_left_mono [of "\<bar>t + c\<bar>" "2 * s" ?u] eps_bounds(1) by auto
  moreover have "0 \<le> ?u * s" using eps_bounds(1) n(1) by simp
  ultimately have "\<bar>py_sum xs - s\<bar> \<le> 12 * (d * s) + 12 * (?u * s)" using p n(2,3) ds(2) by auto
  then show ?thesis by (simp add: d_def s_def algebra_simps)
qed

end
