(* ===== verification/RenkoModels.thy ===== *)
theory RenkoModels imports Floats begin

text \<open>
  The data of the Renko chart (\<open>chart/renko/models.py\<close>, \<open>configuration.py\<close>) and the
  price-reference strategies (\<open>strategies.py\<close>). The string enumerations are datatypes; where
  the code checks that a value is a member, the datatype has one more constructor for a raw
  string that is none. A candle is a Python mapping: a price key may be absent, present with
  \<open>None\<close>, or present with a number.
\<close>

section \<open>Enumerations\<close>

datatype brick_direction = UP | DOWN | NEUTRAL

fun opposite :: "brick_direction \<Rightarrow> brick_direction" where
  "opposite UP = DOWN"
| "opposite DOWN = UP"
| "opposite NEUTRAL = NEUTRAL"

lemma opposite_opposite [simp]: "opposite (opposite d) = d"
  by (cases d) auto

datatype brick_type = BT_TRADITIONAL | BT_ATR | BT_PERCENTAGE | BT_MEAN | BT_MEDIAN | BT_HYBRID | BT_AI

datatype price_source = SRC_OPEN | SRC_HIGH | SRC_LOW | SRC_CLOSE | SRC_TYPICAL | SRC_OTHER pystr

datatype renko_mode = MODE_LIVE | MODE_REPLAY | MODE_BACKTEST | MODE_OTHER pystr

datatype reference_price =
  REF_CLOSE | REF_OPEN | REF_HIGH | REF_LOW | REF_TYPICAL | REF_MEDIAN | REF_OTHER pystr

datatype rounding_mode = RND_NONE | RND_ROUND | RND_FLOOR | RND_CEIL | RND_OTHER pystr

fun is_price_source :: "price_source \<Rightarrow> bool" where
  "is_price_source (SRC_OTHER _) = False"
| "is_price_source _ = True"

fun is_renko_mode :: "renko_mode \<Rightarrow> bool" where
  "is_renko_mode (MODE_OTHER _) = False"
| "is_renko_mode _ = True"

fun is_reference_price :: "reference_price \<Rightarrow> bool" where
  "is_reference_price (REF_OTHER _) = False"
| "is_reference_price _ = True"

fun is_rounding_mode :: "rounding_mode \<Rightarrow> bool" where
  "is_rounding_mode (RND_OTHER _) = False"
| "is_rounding_mode _ = True"

section \<open>Configuration\<close>

record brick_configuration =
  cfg_brick_type :: brick_type
  cfg_brick_size :: rat
  cfg_price_source :: price_source
  cfg_mode :: renko_mode
  cfg_atr_period :: "int option"
  cfg_atr_multiplier :: "rat option"
  cfg_provider :: "pystr option"
  cfg_builder :: "pystr option"
  cfg_builder_type :: "pystr option"
  cfg_percentage :: "rat option"
  cfg_reference_price :: "reference_price option"
  cfg_reference_price_strategy :: "pystr option"
  cfg_minimum_brick_size :: "rat option"
  cfg_rounding_mode :: rounding_mode
  cfg_mean_lookback :: "int option"
  cfg_median_lookback :: "int option"
  cfg_hybrid_weight :: "rat option"
  cfg_ai_model :: "pystr option"
  cfg_adaptive_window :: "int option"
  cfg_adaptive_thresholds :: "rat list option"
  cfg_adaptive_hysteresis :: "rat option"
  cfg_metadata :: "(pystr, pystr) dict"

text \<open>The dataclass's defaults, for a brick type and size.\<close>

definition default_configuration :: "brick_type \<Rightarrow> rat \<Rightarrow> brick_configuration" where
  "default_configuration t s =
     \<lparr>cfg_brick_type = t, cfg_brick_size = s, cfg_price_source = SRC_CLOSE, cfg_mode = MODE_LIVE,
      cfg_atr_period = None, cfg_atr_multiplier = None, cfg_provider = None, cfg_builder = None,
      cfg_builder_type = None, cfg_percentage = None, cfg_reference_price = Some REF_CLOSE,
      cfg_reference_price_strategy = None, cfg_minimum_brick_size = None,
      cfg_rounding_mode = RND_NONE, cfg_mean_lookback = None, cfg_median_lookback = None,
      cfg_hybrid_weight = None, cfg_ai_model = None, cfg_adaptive_window = None,
      cfg_adaptive_thresholds = None, cfg_adaptive_hysteresis = None, cfg_metadata = []\<rparr>"

text \<open>Python's truth of an optional string: neither \<open>None\<close> nor empty.\<close>

fun truthy :: "pystr option \<Rightarrow> bool" where
  "truthy None = False"
| "truthy (Some s) = (s \<noteq> [])"

definition resolved_provider :: "brick_configuration \<Rightarrow> pystr" where
  "resolved_provider c =
     (if truthy (cfg_provider c) then the (cfg_provider c)
      else if cfg_brick_type c = BT_ATR then ''atr''
      else if cfg_brick_type c = BT_PERCENTAGE then ''percentage''
      else ''fixed'')"

definition resolved_builder :: "brick_configuration \<Rightarrow> pystr" where
  "resolved_builder c =
     (if truthy (cfg_builder_type c) then the (cfg_builder_type c)
      else if truthy (cfg_builder c) then the (cfg_builder c)
      else if truthy (dget (cfg_metadata c) ''builder_type'')
        then the (dget (cfg_metadata c) ''builder_type'')
      else ''traditional'')"

text \<open>The name a reference price maps to; \<open>ReferencePrice(value)\<close> raises on a raw string.\<close>

fun reference_strategy_name :: "reference_price \<Rightarrow> pystr result" where
  "reference_strategy_name REF_CLOSE = Inr ''close''"
| "reference_strategy_name REF_OPEN = Inr ''open''"
| "reference_strategy_name REF_HIGH = Inr ''high''"
| "reference_strategy_name REF_LOW = Inr ''low''"
| "reference_strategy_name REF_TYPICAL = Inr ''typical''"
| "reference_strategy_name REF_MEDIAN = Inr ''median''"
| "reference_strategy_name (REF_OTHER _) = Inl ValueError"

definition resolved_reference_strategy :: "brick_configuration \<Rightarrow> pystr result" where
  "resolved_reference_strategy c =
     (if truthy (cfg_reference_price_strategy c) then Inr (the (cfg_reference_price_strategy c))
      else case cfg_reference_price c of
        Some r \<Rightarrow> reference_strategy_name r
      | None \<Rightarrow> Inr ''close'')"

section \<open>Candles\<close>

datatype price_field = F_OPEN | F_HIGH | F_LOW | F_CLOSE

record candle =
  prices :: "price_field \<Rightarrow> rat option option"
  stamp :: "time option"

definition full_candle :: "time \<Rightarrow> rat \<Rightarrow> rat \<Rightarrow> rat \<Rightarrow> rat \<Rightarrow> candle" where
  "full_candle t opn hi lo cl =
     \<lparr>prices = (\<lambda>f. Some (Some (case f of F_OPEN \<Rightarrow> opn | F_HIGH \<Rightarrow> hi | F_LOW \<Rightarrow> lo | F_CLOSE \<Rightarrow> cl))),
      stamp = Some t\<rparr>"

text \<open>\<open>candle.get(key)\<close>: an absent key and a key holding \<open>None\<close> both give \<open>None\<close>.\<close>

definition candle_get :: "candle \<Rightarrow> price_field \<Rightarrow> rat option" where
  "candle_get c f = Option.bind (prices c f) id"

text \<open>\<open>float(candle.get(key, default))\<close>: a key holding \<open>None\<close> makes \<open>float\<close> raise.\<close>

definition float_get :: "candle \<Rightarrow> price_field \<Rightarrow> rat \<Rightarrow> rat result" where
  "float_get c f d = (case prices c f of
       None \<Rightarrow> Inr d
     | Some None \<Rightarrow> Inl TypeError
     | Some (Some v) \<Rightarrow> Inr (b64 v))"

text \<open>The close, or the first other price present; \<open>ValueError\<close> when there is none.\<close>

definition close_or_any :: "candle \<Rightarrow> rat result" where
  "close_or_any c =
     (case List.find (\<lambda>v. v \<noteq> None) (map (candle_get c) [F_CLOSE, F_OPEN, F_HIGH, F_LOW]) of
        Some (Some v) \<Rightarrow> Inr (b64 v)
      | _ \<Rightarrow> Inl ValueError)"

text \<open>\<open>_ohlc\<close> of \<open>strategies.py\<close>: (open, high, low, close).\<close>

definition ohlc :: "candle \<Rightarrow> (rat \<times> rat \<times> rat \<times> rat) result" where
  "ohlc c = rbind (close_or_any c) (\<lambda>cl.
     rbind (float_get c F_OPEN cl) (\<lambda>opn.
     rbind (float_get c F_HIGH cl) (\<lambda>hi.
     rbind (float_get c F_LOW cl) (\<lambda>lo. Inr (opn, hi, lo, cl)))))"

lemma ohlc_full [simp]: "ohlc (full_candle t opn hi lo cl) = Inr (b64 opn, b64 hi, b64 lo, b64 cl)"
  by (simp add: ohlc_def close_or_any_def float_get_def candle_get_def full_candle_def)

lemma ohlc_errors: "ohlc c = Inl e \<Longrightarrow> e = ValueError \<or> e = TypeError"
  by (auto simp: ohlc_def close_or_any_def float_get_def rbind_Inl_iff
      split: option.splits if_splits)

section \<open>Price-reference strategies\<close>

datatype price_strategy =
  CloseStrategy | OpenStrategy | HighStrategy | LowStrategy | TypicalStrategy | MeanStrategy | MedianStrategy

fun strategy_name :: "price_strategy \<Rightarrow> pystr" where
  "strategy_name CloseStrategy = ''close''"
| "strategy_name OpenStrategy = ''open''"
| "strategy_name HighStrategy = ''high''"
| "strategy_name LowStrategy = ''low''"
| "strategy_name TypicalStrategy = ''typical''"
| "strategy_name MeanStrategy = ''mean''"
| "strategy_name MedianStrategy = ''median''"

definition typical_price :: "rat \<Rightarrow> rat \<Rightarrow> rat \<Rightarrow> rat" where
  "typical_price hi lo cl = fdiv (fadd (fadd hi lo) cl) 3"

definition mean_price :: "rat \<Rightarrow> rat \<Rightarrow> rat \<Rightarrow> rat \<Rightarrow> rat" where
  "mean_price opn hi lo cl = fdiv (fadd (fadd (fadd opn hi) lo) cl) 4"

definition median_price :: "rat \<Rightarrow> rat \<Rightarrow> rat" where
  "median_price hi lo = fdiv (fadd hi lo) 2"

fun strategy_pick :: "price_strategy \<Rightarrow> rat \<times> rat \<times> rat \<times> rat \<Rightarrow> rat" where
  "strategy_pick CloseStrategy (opn, hi, lo, cl) = cl"
| "strategy_pick OpenStrategy (opn, hi, lo, cl) = opn"
| "strategy_pick HighStrategy (opn, hi, lo, cl) = hi"
| "strategy_pick LowStrategy (opn, hi, lo, cl) = lo"
| "strategy_pick TypicalStrategy (opn, hi, lo, cl) = typical_price hi lo cl"
| "strategy_pick MeanStrategy (opn, hi, lo, cl) = mean_price opn hi lo cl"
| "strategy_pick MedianStrategy (opn, hi, lo, cl) = median_price hi lo"

definition reference_price_of :: "price_strategy \<Rightarrow> candle \<Rightarrow> rat result" where
  "reference_price_of s c = rbind (ohlc c) (\<lambda>p. Inr (strategy_pick s p))"

text \<open>\<open>_BUILTIN_STRATEGIES\<close>: the built-in strategies by name, in registration order.\<close>

definition builtin_strategies :: "(pystr, price_strategy) dict" where
  "builtin_strategies = map (\<lambda>s. (strategy_name s, s))
     [CloseStrategy, OpenStrategy, HighStrategy, LowStrategy, TypicalStrategy, MeanStrategy, MedianStrategy]"

definition strategy_for_reference_price :: "reference_price \<Rightarrow> price_strategy result" where
  "strategy_for_reference_price r = rbind (reference_strategy_name r) (\<lambda>n.
     case dget builtin_strategies n of None \<Rightarrow> Inl KeyError | Some s \<Rightarrow> Inr s)"

text \<open>\<open>default_strategy_registry().create(configuration)\<close>.\<close>

definition create_strategy :: "brick_configuration \<Rightarrow> price_strategy result" where
  "create_strategy c = rbind (resolved_reference_strategy c) (\<lambda>n.
     case dget builtin_strategies n of
       None \<Rightarrow> Inl RenkoConfigurationError
     | Some s \<Rightarrow> Inr s)"

lemma builtin_strategies_get [simp]: "dget builtin_strategies (strategy_name s) = Some s"
  by (cases s) (simp_all add: builtin_strategies_def)

lemma builtin_strategies_wf: "wf_dict builtin_strategies"
  by (simp add: wf_dict_def builtin_strategies_def)

lemma fdiv_between:
  assumes "0 < n" "isfl lo" "isfl hi" "n * lo \<le> s" "s \<le> n * hi"
  shows "lo \<le> fdiv s n" and "fdiv s n \<le> hi"
  unfolding fdiv_def using assms
  by (auto intro!: b64.rnd_ge b64.rnd_le simp: pos_le_divide_eq pos_divide_le_eq mult.commute)

text \<open>Doubling is exact, so the midpoint of two floats stays between them.\<close>

lemma isfl_double: "isfl x \<Longrightarrow> isfl (2 * x)"
proof -
  assume x: "isfl x"
  obtain m k where mk: "b64 x = of_int m * 2 powi k" "\<bar>m\<bar> \<le> 2 ^ 53"
    using fl_is_scaled [of 2 53 x] by (auto simp: b64_def)
  have "2 * x = of_int m * 2 powi (k + 1)"
    using x mk(1) by (simp add: isfl_def power_int_add)
  with b64_exact [OF mk(2), of "k + 1"] show ?thesis
    by (simp add: isfl_def)
qed

lemma median_price_between:
  assumes "isfl lo" "isfl hi" "lo \<le> hi"
  shows "lo \<le> median_price hi lo" "median_price hi lo \<le> hi"
proof -
  have "2 * lo \<le> fadd hi lo" "fadd hi lo \<le> 2 * hi"
    using isfl_double [OF assms(1)] isfl_double [OF assms(2)] assms(3)
      b64.rnd_ge [of "2 * lo" "hi + lo"] b64.rnd_le [of "2 * hi" "hi + lo"]
    unfolding fadd_def isfl_def by linarith+
  with assms show "lo \<le> median_price hi lo" "median_price hi lo \<le> hi"
    using fdiv_between [of 2 lo hi "fadd hi lo"] by (simp_all add: median_price_def)
qed

section \<open>Bricks and states\<close>

text \<open>
  A brick identifier stands for the formatted string
  \<open>brick-<direction>-<timestamp>-<open*1e5>-<close*1e5>\<close>, or for \<open>hybrid-<n>-<base>\<close>: the parts
  it prints, kept as data.
\<close>

datatype brick_id = BrickId brick_direction time int int | HybridId int brick_id

record brick =
  br_id :: brick_id
  br_direction :: brick_direction
  br_open :: rat
  br_close :: rat
  br_high :: rat
  br_low :: rat
  br_volume :: rat
  br_created_at :: time
  br_meta_size :: rat
  br_meta_source :: price_source
  br_meta_hybrid :: "int option"

datatype state_meta = MetaEmpty | MetaStarted time | MetaStopped state_meta time | MetaAnchor rat | MetaLastBrick brick_id

record brick_state =
  bs_direction :: brick_direction
  bs_last_price :: rat
  bs_brick_size :: rat
  bs_is_open :: bool
  bs_meta :: state_meta

end
