(* ===== verification/RenkoProviders.thy ===== *)
theory RenkoProviders imports RenkoModels begin

text \<open>
  Brick-size providers (\<open>chart/renko/providers.py\<close>): the fixed, ATR, percentage and adaptive
  providers, with their constructors, their \<open>update\<close> / \<open>current_size\<close> / \<open>ready\<close> / \<open>reset\<close> contract
  and the export and import of their rolling state. The contract is the locale
  \<open>size_provider\<close>, interpreted on the model's own operations.
\<close>

section \<open>Price extraction\<close>

text \<open>\<open>_candle_prices\<close>: (high, low, close).\<close>

definition candle_prices :: "candle \<Rightarrow> (rat \<times> rat \<times> rat) result" where
  "candle_prices c = rbind (close_or_any c) (\<lambda>cl.
     rbind (float_get c F_HIGH cl) (\<lambda>hi.
     rbind (float_get c F_LOW cl) (\<lambda>lo. Inr (hi, lo, cl))))"

text \<open>\<open>_select_reference_price\<close>, the selection that predates the strategies.\<close>

definition select_reference_price :: "candle \<Rightarrow> reference_price \<Rightarrow> rat result" where
  "select_reference_price c source = rbind (close_or_any c) (\<lambda>cl.
     rbind (float_get c F_HIGH cl) (\<lambda>hi.
     rbind (float_get c F_LOW cl) (\<lambda>lo.
     rbind (float_get c F_OPEN cl) (\<lambda>opn.
       case source of
         REF_CLOSE \<Rightarrow> Inr cl
       | REF_OPEN \<Rightarrow> Inr opn
       | REF_HIGH \<Rightarrow> Inr hi
       | REF_LOW \<Rightarrow> Inr lo
       | REF_TYPICAL \<Rightarrow> Inr (typical_price hi lo cl)
       | REF_MEDIAN \<Rightarrow> Inr (median_price hi lo)
       | REF_OTHER _ \<Rightarrow> Inl ValueError))))"

lemma candle_prices_full [simp]:
  "candle_prices (full_candle t opn hi lo cl) = Inr (b64 hi, b64 lo, b64 cl)"
  by (simp add: candle_prices_def close_or_any_def float_get_def candle_get_def full_candle_def)

lemma float_get_cases: "float_get c f d = Inl TypeError \<or> (\<exists>v. float_get c f d = Inr v)"
  by (auto simp: float_get_def split: option.splits)

lemma ohlc_Inr_candle_prices: "ohlc c = Inr (opn, hi, lo, cl) \<Longrightarrow> candle_prices c = Inr (hi, lo, cl)"
  by (auto simp: ohlc_def candle_prices_def rbind_Inr_iff)

text \<open>\<open>ATRBrickSizeProvider.true_range\<close>.\<close>

definition true_range :: "rat \<Rightarrow> rat \<Rightarrow> rat option \<Rightarrow> rat" where
  "true_range hi lo prev = (case prev of
       None \<Rightarrow> fsub hi lo
     | Some pc \<Rightarrow> max (max (fsub hi lo) \<bar>fsub hi pc\<bar>) \<bar>fsub lo pc\<bar>)"

lemma true_range_nonneg: "lo \<le> hi \<Longrightarrow> 0 \<le> true_range hi lo prev"
  by (auto simp: true_range_def fsub_sign le_max_iff_disj split: option.splits)

text \<open>With a previous close the true range is never negative, whatever the candle.\<close>

lemma true_range_nonneg_prev: "0 \<le> true_range hi lo (Some pc)"
  by (auto simp: true_range_def le_max_iff_disj)

lemma true_range_flat: "true_range p p None = 0" "true_range p p (Some p) = 0"
  by (simp_all add: true_range_def fsub_def)

lemma isfl_true_range [simp]: "isfl (true_range hi lo prev)"
  by (auto simp: true_range_def split: option.splits)

section \<open>State of the providers\<close>

record atr_provider =
  atr_period :: int
  atr_multiplier :: rat
  atr_prev_close :: "rat option"
  atr_warmup_sum :: rat
  atr_count :: int
  atr_value :: "rat option"

record pct_provider =
  pct_percentage :: rat
  pct_strategy :: price_strategy
  pct_reference :: "reference_price option"
  pct_rounding :: rounding_mode
  pct_minimum :: "rat option"
  pct_size :: "rat option"

datatype leaf_provider = FixedProvider rat | AtrProvider atr_provider | PctProvider pct_provider

datatype regime = LOW | MEDIUM | HIGH

record adaptive_provider =
  ad_low :: leaf_provider
  ad_medium :: leaf_provider
  ad_high :: leaf_provider
  ad_window :: int
  ad_t1 :: rat
  ad_t2 :: rat
  ad_hysteresis :: rat
  ad_stat :: "rat option"
  ad_prev_close :: "rat option"
  ad_regime :: "regime option"
  ad_count :: int

datatype provider = Leaf leaf_provider | Adaptive adaptive_provider

section \<open>Construction\<close>

definition new_fixed :: "rat \<Rightarrow> leaf_provider result" where
  "new_fixed sz = (if sz \<le> 0 then Inl RenkoConfigurationError else Inr (FixedProvider (b64 sz)))"

definition new_atr :: "int option \<Rightarrow> rat option \<Rightarrow> leaf_provider result" where
  "new_atr period multiplier = (case period of
       None \<Rightarrow> Inl RenkoConfigurationError
     | Some n \<Rightarrow> if n \<le> 0 then Inl RenkoConfigurationError
       else case multiplier of
         None \<Rightarrow> Inl RenkoConfigurationError
       | Some m \<Rightarrow> if m \<le> 0 then Inl RenkoConfigurationError
         else Inr (AtrProvider \<lparr>atr_period = n, atr_multiplier = b64 m, atr_prev_close = None,
                     atr_warmup_sum = 0, atr_count = 0, atr_value = None\<rparr>))"

definition atr_from_configuration :: "brick_configuration \<Rightarrow> leaf_provider result" where
  "atr_from_configuration c =
     new_atr (cfg_atr_period c) (case cfg_atr_multiplier c of None \<Rightarrow> Some 1 | Some m \<Rightarrow> Some m)"

definition coerce_reference_price :: "reference_price \<Rightarrow> reference_price result" where
  "coerce_reference_price r = (if is_reference_price r then Inr r else Inl ValueError)"

definition coerce_rounding_mode :: "rounding_mode \<Rightarrow> rounding_mode result" where
  "coerce_rounding_mode r = (if is_rounding_mode r then Inr r else Inl ValueError)"

text \<open>\<open>PercentageBrickSizeProvider.__init__\<close>: an explicit strategy wins over a reference price.\<close>

definition new_pct :: "rat option \<Rightarrow> price_strategy option \<Rightarrow> reference_price option \<Rightarrow> rounding_mode
    \<Rightarrow> rat option \<Rightarrow> leaf_provider result" where
  "new_pct percentage strategy reference mode0 minimum = (case percentage of
       None \<Rightarrow> Inl RenkoConfigurationError
     | Some p \<Rightarrow>
       rbind (require (0 < p \<and> p \<le> 100) RenkoConfigurationError) (\<lambda>_.
       rbind (require (case minimum of None \<Rightarrow> True | Some m \<Rightarrow> 0 < m) RenkoConfigurationError) (\<lambda>_.
       rbind (case (strategy, reference) of
                (Some s, None) \<Rightarrow> Inr (s, None)
              | (Some s, Some r) \<Rightarrow> rbind (coerce_reference_price r) (\<lambda>r'. Inr (s, Some r'))
              | (None, Some r) \<Rightarrow> rbind (coerce_reference_price r) (\<lambda>r'.
                  rbind (strategy_for_reference_price r') (\<lambda>s. Inr (s, Some r')))
              | (None, None) \<Rightarrow> Inr (CloseStrategy, Some REF_CLOSE)) (\<lambda>(s, r).
       rbind (coerce_rounding_mode mode0) (\<lambda>mode.
         Inr (PctProvider \<lparr>pct_percentage = b64 p, pct_strategy = s, pct_reference = r,
                pct_rounding = mode, pct_minimum = map_option b64 minimum, pct_size = None\<rparr>))))))"

definition pct_from_configuration :: "brick_configuration \<Rightarrow> leaf_provider result" where
  "pct_from_configuration c = rbind (create_strategy c) (\<lambda>s.
     new_pct (cfg_percentage c) (Some s) None (cfg_rounding_mode c) (cfg_minimum_brick_size c))"

definition new_adaptive :: "leaf_provider \<Rightarrow> leaf_provider \<Rightarrow> leaf_provider \<Rightarrow> int \<Rightarrow> rat list \<Rightarrow> rat
    \<Rightarrow> provider result" where
  "new_adaptive low medium high window thresholds hysteresis =
     (if window \<le> 0 then Inl RenkoConfigurationError
      else case map b64 thresholds of
        [t1, t2] \<Rightarrow>
          if \<not> t1 < t2 \<or> t1 \<le> 0 then Inl RenkoConfigurationError
          else if b64 hysteresis < 0 then Inl RenkoConfigurationError
          else Inr (Adaptive \<lparr>ad_low = low, ad_medium = medium, ad_high = high, ad_window = window,
                 ad_t1 = t1, ad_t2 = t2, ad_hysteresis = b64 hysteresis, ad_stat = None,
                 ad_prev_close = None, ad_regime = None, ad_count = 0\<rparr>)
      | _ \<Rightarrow> Inl RenkoConfigurationError)"

text \<open>Python's \<open>x or default\<close>: a missing, zero or empty value takes the default.\<close>

definition adaptive_from_configuration :: "brick_configuration \<Rightarrow> provider result" where
  "adaptive_from_configuration c =
     rbind (new_fixed (cfg_brick_size c)) (\<lambda>low.
     rbind (pct_from_configuration c) (\<lambda>medium.
     rbind (atr_from_configuration c) (\<lambda>high.
       new_adaptive low medium high
         (case cfg_adaptive_window c of None \<Rightarrow> 14 | Some w \<Rightarrow> if w = 0 then 14 else w)
         (case cfg_adaptive_thresholds c of None \<Rightarrow> [1, 2] | Some ts \<Rightarrow> if ts = [] then [1, 2] else ts)
         (case cfg_adaptive_hysteresis c of None \<Rightarrow> 0 | Some h \<Rightarrow> h))))"

text \<open>\<open>default_provider_registry().create(configuration)\<close>.\<close>

definition create_provider :: "brick_configuration \<Rightarrow> provider result" where
  "create_provider c =
     (if resolved_provider c = ''fixed'' then map_sum id Leaf (new_fixed (cfg_brick_size c))
      else if resolved_provider c = ''atr'' then map_sum id Leaf (atr_from_configuration c)
      else if resolved_provider c = ''percentage'' then map_sum id Leaf (pct_from_configuration c)
      else if resolved_provider c = ''adaptive'' then adaptive_from_configuration c
      else Inl KeyError)"

section \<open>Update\<close>

text \<open>One candle of the ATR provider: the warm-up sum, then Wilder's smoothing.\<close>

definition atr_step :: "atr_provider \<Rightarrow> rat \<Rightarrow> rat \<Rightarrow> rat \<Rightarrow> atr_provider" where
  "atr_step a hi lo cl =
     (let tr = true_range hi lo (atr_prev_close a); n = b64 (of_int (atr_period a)) in
      case atr_value a of
        None \<Rightarrow>
          let s = fadd (atr_warmup_sum a) tr; k = atr_count a + 1 in
          a\<lparr>atr_warmup_sum := s, atr_count := k,
            atr_value := (if atr_period a \<le> k then Some (fdiv s n) else None),
            atr_prev_close := Some cl\<rparr>
      | Some v \<Rightarrow>
          a\<lparr>atr_value := Some (fdiv (fadd (fmul v (b64 (of_int (atr_period a - 1)))) tr) n),
            atr_prev_close := Some cl\<rparr>)"

definition atr_update :: "atr_provider \<Rightarrow> candle \<Rightarrow> atr_provider result" where
  "atr_update a c = rbind (candle_prices c) (\<lambda>(hi, lo, cl). Inr (atr_step a hi lo cl))"

definition apply_rounding :: "rounding_mode \<Rightarrow> rat \<Rightarrow> rat result" where
  "apply_rounding mode sz = (case mode of
       RND_NONE \<Rightarrow> Inr sz
     | RND_FLOOR \<Rightarrow> Inr (b64 (of_int \<lfloor>sz\<rfloor>))
     | RND_CEIL \<Rightarrow> Inr (b64 (of_int \<lceil>sz\<rceil>))
     | RND_ROUND \<Rightarrow> Inr (b64 (of_int \<lfloor>fadd sz (1 / 2)\<rfloor>))
     | RND_OTHER _ \<Rightarrow> Inl ValueError)"

text \<open>The size of a candle: rounded, at least the minimum, and never one that is not positive.\<close>

definition pct_new_size :: "rat option \<Rightarrow> rat \<Rightarrow> rat \<Rightarrow> rat option" where
  "pct_new_size minimum raw rounded =
     (let sz = (case minimum of None \<Rightarrow> rounded | Some m \<Rightarrow> max rounded m);
          sz1 = (if sz \<le> 0 then raw else sz)
      in if sz1 \<le> 0 then None else Some sz1)"

definition pct_update :: "pct_provider \<Rightarrow> candle \<Rightarrow> pct_provider result" where
  "pct_update p c =
     rbind (reference_price_of (pct_strategy p) c) (\<lambda>ref.
     let raw = fmul ref (fdiv (pct_percentage p) 100) in
     rbind (apply_rounding (pct_rounding p) raw) (\<lambda>rounded.
       Inr (case pct_new_size (pct_minimum p) raw rounded of
              None \<Rightarrow> p
            | Some s \<Rightarrow> p\<lparr>pct_size := Some s\<rparr>)))"

fun leaf_update :: "leaf_provider \<Rightarrow> candle \<Rightarrow> leaf_provider result" where
  "leaf_update (FixedProvider s) c = Inr (FixedProvider s)"
| "leaf_update (AtrProvider a) c = map_sum id AtrProvider (atr_update a c)"
| "leaf_update (PctProvider p) c = map_sum id PctProvider (pct_update p c)"

text \<open>\<open>_detect_regime\<close>: plain thresholds first, hysteresis afterwards.\<close>

definition detect_regime :: "rat option \<Rightarrow> rat \<Rightarrow> rat \<Rightarrow> rat \<Rightarrow> regime option \<Rightarrow> regime" where
  "detect_regime stat t1 t2 h cur =
     (let s = (case stat of None \<Rightarrow> 0 | Some v \<Rightarrow> v) in
      case cur of
        None \<Rightarrow> if s < t1 then LOW else if s < t2 then MEDIUM else HIGH
      | Some LOW \<Rightarrow>
          if fadd t2 h \<le> s then HIGH else if fadd t1 h \<le> s then MEDIUM else LOW
      | Some MEDIUM \<Rightarrow>
          if fadd t2 h \<le> s then HIGH else if s < fsub t1 h then LOW else MEDIUM
      | Some HIGH \<Rightarrow>
          if s < fsub t1 h then LOW else if s < fsub t2 h then MEDIUM else HIGH)"

definition adaptive_observe :: "adaptive_provider \<Rightarrow> rat \<Rightarrow> rat \<Rightarrow> rat \<Rightarrow> adaptive_provider" where
  "adaptive_observe a hi lo cl =
     (let tr = true_range hi lo (ad_prev_close a);
          stat = (case ad_stat a of
              None \<Rightarrow> tr
            | Some s \<Rightarrow>
                let alpha = fdiv 2 (b64 (of_int (ad_window a + 1)))
                in fadd (fmul alpha tr) (fmul (fsub 1 alpha) s))
      in a\<lparr>ad_stat := Some stat, ad_prev_close := Some cl, ad_count := ad_count a + 1,
           ad_regime := Some (detect_regime (Some stat) (ad_t1 a) (ad_t2 a) (ad_hysteresis a) (ad_regime a))\<rparr>)"

text \<open>
  The children are updated one after the other; an exception of one of them leaves the earlier
  ones updated and the adaptive state as it was.
\<close>

definition adaptive_update :: "adaptive_provider \<Rightarrow> candle \<Rightarrow> adaptive_provider \<times> unit result" where
  "adaptive_update a c = (case leaf_update (ad_low a) c of
       Inl e \<Rightarrow> (a, Inl e)
     | Inr low \<Rightarrow> let a1 = a\<lparr>ad_low := low\<rparr> in case leaf_update (ad_medium a) c of
         Inl e \<Rightarrow> (a1, Inl e)
       | Inr medium \<Rightarrow> let a2 = a1\<lparr>ad_medium := medium\<rparr> in case leaf_update (ad_high a) c of
           Inl e \<Rightarrow> (a2, Inl e)
         | Inr high \<Rightarrow> let a3 = a2\<lparr>ad_high := high\<rparr> in case candle_prices c of
             Inl e \<Rightarrow> (a3, Inl e)
           | Inr (hi, lo, cl) \<Rightarrow> (adaptive_observe a3 hi lo cl, Inr ()))"

fun provider_update :: "provider \<Rightarrow> candle \<Rightarrow> provider \<times> unit result" where
  "provider_update (Leaf l) c = (case leaf_update l c of
       Inl e \<Rightarrow> (Leaf l, Inl e)
     | Inr l' \<Rightarrow> (Leaf l', Inr ()))"
| "provider_update (Adaptive a) c = (let (a', r) = adaptive_update a c in (Adaptive a', r))"

section \<open>Reading the size\<close>

fun leaf_ready :: "leaf_provider \<Rightarrow> bool" where
  "leaf_ready (FixedProvider s) = True"
| "leaf_ready (AtrProvider a) = (atr_value a \<noteq> None)"
| "leaf_ready (PctProvider p) = (pct_size p \<noteq> None)"

fun leaf_size :: "leaf_provider \<Rightarrow> rat result" where
  "leaf_size (FixedProvider s) = Inr s"
| "leaf_size (AtrProvider a) = (case atr_value a of
       None \<Rightarrow> Inl RuntimeError
     | Some v \<Rightarrow> Inr (fmul v (atr_multiplier a)))"
| "leaf_size (PctProvider p) = (case pct_size p of None \<Rightarrow> Inl RuntimeError | Some s \<Rightarrow> Inr s)"

definition select_provider :: "adaptive_provider \<Rightarrow> leaf_provider" where
  "select_provider a = (case ad_regime a of
       None \<Rightarrow> ad_low a
     | Some LOW \<Rightarrow> ad_low a
     | Some MEDIUM \<Rightarrow> ad_medium a
     | Some HIGH \<Rightarrow> ad_high a)"

fun provider_ready :: "provider \<Rightarrow> bool" where
  "provider_ready (Leaf l) = leaf_ready l"
| "provider_ready (Adaptive a) = (leaf_ready (ad_low a) \<and> leaf_ready (ad_medium a) \<and> leaf_ready (ad_high a))"

fun provider_size :: "provider \<Rightarrow> rat result" where
  "provider_size (Leaf l) = leaf_size l"
| "provider_size (Adaptive a) =
     (if \<not> provider_ready (Adaptive a) then Inl RuntimeError else leaf_size (select_provider a))"

section \<open>Reset\<close>

fun leaf_reset :: "leaf_provider \<Rightarrow> leaf_provider" where
  "leaf_reset (FixedProvider s) = FixedProvider s"
| "leaf_reset (AtrProvider a) =
     AtrProvider (a\<lparr>atr_prev_close := None, atr_warmup_sum := 0, atr_count := 0, atr_value := None\<rparr>)"
| "leaf_reset (PctProvider p) = PctProvider (p\<lparr>pct_size := None\<rparr>)"

fun provider_reset :: "provider \<Rightarrow> provider" where
  "provider_reset (Leaf l) = Leaf (leaf_reset l)"
| "provider_reset (Adaptive a) = Adaptive (a\<lparr>ad_stat := None, ad_prev_close := None, ad_regime := None,
     ad_count := 0, ad_low := leaf_reset (ad_low a), ad_medium := leaf_reset (ad_medium a),
     ad_high := leaf_reset (ad_high a)\<rparr>)"

section \<open>Exporting and importing rolling state\<close>

text \<open>
  The state dictionaries by key. A key that is absent and a key that holds \<open>None\<close> are read alike
  (\<open>state.get\<close>), so both are \<open>None\<close> here; an empty dictionary is \<open>EmptyState\<close>, which the adaptive
  provider tells apart (\<open>if not state: return\<close>).
\<close>

record leaf_state =
  ls_prev_close :: "rat option"
  ls_warmup_sum :: "rat option"
  ls_count :: "int option"
  ls_atr :: "rat option"
  ls_current_size :: "rat option"

definition no_leaf_state :: leaf_state where
  "no_leaf_state = \<lparr>ls_prev_close = None, ls_warmup_sum = None, ls_count = None, ls_atr = None,
     ls_current_size = None\<rparr>"

record adaptive_state =
  as_stat :: "rat option"
  as_prev_close :: "rat option"
  as_regime :: "regime option"
  as_count :: "int option"
  as_sub :: "(regime, leaf_state) dict"

datatype provider_state = EmptyState | LeafState leaf_state | AdaptiveState adaptive_state

fun leaf_export :: "leaf_provider \<Rightarrow> leaf_state" where
  "leaf_export (FixedProvider s) = no_leaf_state"
| "leaf_export (AtrProvider a) = no_leaf_state\<lparr>ls_prev_close := atr_prev_close a,
     ls_warmup_sum := Some (atr_warmup_sum a), ls_count := Some (atr_count a), ls_atr := atr_value a\<rparr>"
| "leaf_export (PctProvider p) = no_leaf_state\<lparr>ls_current_size := pct_size p\<rparr>"

fun leaf_import :: "leaf_provider \<Rightarrow> leaf_state \<Rightarrow> leaf_provider" where
  "leaf_import (FixedProvider s) st = FixedProvider s"
| "leaf_import (AtrProvider a) st = AtrProvider (a\<lparr>atr_prev_close := ls_prev_close st,
     atr_warmup_sum := (case ls_warmup_sum st of None \<Rightarrow> 0 | Some w \<Rightarrow> b64 w),
     atr_count := (case ls_count st of None \<Rightarrow> 0 | Some k \<Rightarrow> k),
     atr_value := map_option b64 (ls_atr st)\<rparr>)"
| "leaf_import (PctProvider p) st = PctProvider (p\<lparr>pct_size := map_option b64 (ls_current_size st)\<rparr>)"

fun leaf_view :: "provider_state \<Rightarrow> leaf_state" where
  "leaf_view EmptyState = no_leaf_state"
| "leaf_view (LeafState s) = s"
| "leaf_view (AdaptiveState a) = no_leaf_state\<lparr>ls_prev_close := as_prev_close a, ls_count := as_count a\<rparr>"

fun adaptive_view :: "provider_state \<Rightarrow> adaptive_state option" where
  "adaptive_view EmptyState = None"
| "adaptive_view (LeafState s) = Some \<lparr>as_stat = None, as_prev_close = ls_prev_close s,
     as_regime = None, as_count = ls_count s, as_sub = []\<rparr>"
| "adaptive_view (AdaptiveState a) = Some a"

definition import_child :: "(regime, leaf_state) dict \<Rightarrow> regime \<Rightarrow> leaf_provider \<Rightarrow> leaf_provider" where
  "import_child sub r child = (case dget sub r of None \<Rightarrow> child | Some st \<Rightarrow> leaf_import child st)"

definition adaptive_import :: "adaptive_provider \<Rightarrow> adaptive_state \<Rightarrow> adaptive_provider" where
  "adaptive_import a st = a\<lparr>ad_stat := map_option b64 (as_stat st),
     ad_prev_close := map_option b64 (as_prev_close st), ad_regime := as_regime st,
     ad_count := (case as_count st of None \<Rightarrow> 0 | Some k \<Rightarrow> k),
     ad_low := import_child (as_sub st) LOW (ad_low a),
     ad_medium := import_child (as_sub st) MEDIUM (ad_medium a),
     ad_high := import_child (as_sub st) HIGH (ad_high a)\<rparr>"

fun provider_export :: "provider \<Rightarrow> provider_state" where
  "provider_export (Leaf (FixedProvider s)) = EmptyState"
| "provider_export (Leaf l) = LeafState (leaf_export l)"
| "provider_export (Adaptive a) = AdaptiveState \<lparr>as_stat = ad_stat a, as_prev_close = ad_prev_close a,
     as_regime = ad_regime a, as_count = Some (ad_count a),
     as_sub = [(LOW, leaf_export (ad_low a)), (MEDIUM, leaf_export (ad_medium a)),
       (HIGH, leaf_export (ad_high a))]\<rparr>"

fun provider_import :: "provider \<Rightarrow> provider_state \<Rightarrow> provider" where
  "provider_import (Leaf l) st = Leaf (leaf_import l (leaf_view st))"
| "provider_import (Adaptive a) st =
     (case adaptive_view st of None \<Rightarrow> Adaptive a | Some s \<Rightarrow> Adaptive (adaptive_import a s))"

section \<open>Well-formed providers\<close>

definition isfl_opt :: "rat option \<Rightarrow> bool" where
  "isfl_opt x \<longleftrightarrow> (case x of None \<Rightarrow> True | Some v \<Rightarrow> isfl v)"

lemma isfl_opt_simps [simp]: "isfl_opt None" "isfl_opt (Some v) \<longleftrightarrow> isfl v"
  by (simp_all add: isfl_opt_def)

lemma map_b64_isfl_opt [simp]: "isfl_opt x \<Longrightarrow> map_option b64 x = x"
  by (cases x) simp_all

definition wf_atr :: "atr_provider \<Rightarrow> bool" where
  "wf_atr a \<longleftrightarrow> 0 < atr_period a \<and> 0 < atr_multiplier a \<and> isfl (atr_multiplier a) \<and>
     isfl_opt (atr_prev_close a) \<and> isfl (atr_warmup_sum a) \<and> isfl_opt (atr_value a) \<and>
     0 \<le> atr_count a \<and> (atr_value a \<noteq> None \<longleftrightarrow> atr_period a \<le> atr_count a)"

definition wf_pct :: "pct_provider \<Rightarrow> bool" where
  "wf_pct p \<longleftrightarrow> 0 < pct_percentage p \<and> pct_percentage p \<le> 100 \<and> isfl (pct_percentage p) \<and>
     is_rounding_mode (pct_rounding p) \<and>
     (case pct_minimum p of None \<Rightarrow> True | Some m \<Rightarrow> 0 < m \<and> isfl m) \<and>
     (case pct_size p of None \<Rightarrow> True | Some s \<Rightarrow> isfl s \<and> 0 < s \<and>
        (case pct_minimum p of None \<Rightarrow> True | Some m \<Rightarrow> m \<le> s))"

fun wf_leaf :: "leaf_provider \<Rightarrow> bool" where
  "wf_leaf (FixedProvider s) = (0 < s \<and> isfl s)"
| "wf_leaf (AtrProvider a) = wf_atr a"
| "wf_leaf (PctProvider p) = wf_pct p"

definition wf_adaptive :: "adaptive_provider \<Rightarrow> bool" where
  "wf_adaptive a \<longleftrightarrow> wf_leaf (ad_low a) \<and> wf_leaf (ad_medium a) \<and> wf_leaf (ad_high a) \<and>
     0 < ad_window a \<and> 0 < ad_t1 a \<and> ad_t1 a < ad_t2 a \<and> 0 \<le> ad_hysteresis a \<and>
     isfl (ad_t1 a) \<and> isfl (ad_t2 a) \<and> isfl (ad_hysteresis a) \<and>
     isfl_opt (ad_stat a) \<and> isfl_opt (ad_prev_close a) \<and> 0 \<le> ad_count a"

fun wf_provider :: "provider \<Rightarrow> bool" where
  "wf_provider (Leaf l) = wf_leaf l"
| "wf_provider (Adaptive a) = wf_adaptive a"

lemma close_or_any_isfl: "close_or_any c = Inr v \<Longrightarrow> isfl v"
  by (auto simp: close_or_any_def split: option.splits)

lemma float_get_isfl: "float_get c f d = Inr v \<Longrightarrow> isfl d \<Longrightarrow> isfl v"
  by (auto simp: float_get_def split: option.splits)

lemma candle_prices_isfl:
  "candle_prices c = Inr (hi, lo, cl) \<Longrightarrow> isfl hi \<and> isfl lo \<and> isfl cl"
  by (auto simp: candle_prices_def rbind_Inr_iff dest: close_or_any_isfl float_get_isfl)

lemma ohlc_isfl:
  "ohlc c = Inr (opn, hi, lo, cl) \<Longrightarrow> isfl opn \<and> isfl hi \<and> isfl lo \<and> isfl cl"
  by (auto simp: ohlc_def rbind_Inr_iff dest: close_or_any_isfl float_get_isfl)

lemma strategy_pick_isfl:
  "ohlc c = Inr p \<Longrightarrow> isfl (strategy_pick s p)"
proof -
  assume a: "ohlc c = Inr p"
  obtain opn hi lo cl where p: "p = (opn, hi, lo, cl)" by (cases p)
  from a have "isfl opn \<and> isfl hi \<and> isfl lo \<and> isfl cl"
    unfolding p by (rule ohlc_isfl)
  then show ?thesis
    unfolding p by (cases s) (simp_all add: typical_price_def mean_price_def median_price_def)
qed

lemma wf_atr_step:
  assumes "wf_atr a" "isfl cl"
  shows "wf_atr (atr_step a hi lo cl)"
  using assms by (auto simp: wf_atr_def atr_step_def Let_def split: option.splits)

lemma wf_pct_update:
  assumes "wf_pct p" "pct_update p c = Inr p'"
  shows "wf_pct p'"
proof -
  obtain ref rounded where
    r: "apply_rounding (pct_rounding p) (fmul ref (fdiv (pct_percentage p) 100)) = Inr rounded" and
    p': "p' = (case pct_new_size (pct_minimum p) (fmul ref (fdiv (pct_percentage p) 100)) rounded of
              None \<Rightarrow> p | Some s \<Rightarrow> p\<lparr>pct_size := Some s\<rparr>)"
    using assms(2) by (auto simp: pct_update_def rbind_Inr_iff Let_def)
  have "isfl rounded"
    using r by (auto simp: apply_rounding_def split: rounding_mode.splits)
  then show ?thesis
    using assms(1) unfolding p'
    by (auto simp: wf_pct_def pct_new_size_def Let_def max_def split: option.splits if_splits)
qed

lemma wf_leaf_update: "wf_leaf l \<Longrightarrow> leaf_update l c = Inr l' \<Longrightarrow> wf_leaf l'"
proof (cases l)
  case (AtrProvider a)
  assume "wf_leaf l" and "leaf_update l c = Inr l'"
  then obtain hi lo cl where "l' = AtrProvider (atr_step a hi lo cl)" "candle_prices c = Inr (hi, lo, cl)"
    by (auto simp: AtrProvider atr_update_def rbind_Inr_iff map_sum_def split: sum.splits)
  with \<open>wf_leaf l\<close> show ?thesis
    using wf_atr_step [of a cl hi lo] candle_prices_isfl [of c] by (simp add: AtrProvider)
next
  case (PctProvider p)
  assume "wf_leaf l" and "leaf_update l c = Inr l'"
  then show ?thesis
    by (auto simp: PctProvider map_sum_def dest: wf_pct_update split: sum.splits)
qed auto

lemma wf_adaptive_children:
  "wf_adaptive a \<Longrightarrow> wf_leaf l \<Longrightarrow> wf_adaptive (a\<lparr>ad_low := l\<rparr>)"
  "wf_adaptive a \<Longrightarrow> wf_leaf l \<Longrightarrow> wf_adaptive (a\<lparr>ad_medium := l\<rparr>)"
  "wf_adaptive a \<Longrightarrow> wf_leaf l \<Longrightarrow> wf_adaptive (a\<lparr>ad_high := l\<rparr>)"
  by (simp_all add: wf_adaptive_def)

lemma wf_adaptive_leaves:
  "wf_adaptive a \<Longrightarrow> wf_leaf (ad_low a)" "wf_adaptive a \<Longrightarrow> wf_leaf (ad_medium a)"
  "wf_adaptive a \<Longrightarrow> wf_leaf (ad_high a)"
  by (simp_all add: wf_adaptive_def)

lemma wf_adaptive_observe:
  assumes "wf_adaptive a" "isfl cl"
  shows "wf_adaptive (adaptive_observe a hi lo cl)"
  using assms by (simp add: wf_adaptive_def adaptive_observe_def Let_def split: option.split)

text \<open>
  A successful update goes through three successful updates of the children and one observation;
  an unsuccessful one stops on the way.
\<close>

lemma adaptive_update_Inr_iff:
  "adaptive_update a c = (a', Inr ()) \<longleftrightarrow>
     (\<exists>l m h hi lo cl. leaf_update (ad_low a) c = Inr l \<and> leaf_update (ad_medium a) c = Inr m \<and>
        leaf_update (ad_high a) c = Inr h \<and> candle_prices c = Inr (hi, lo, cl) \<and>
        a' = adaptive_observe (a\<lparr>ad_low := l, ad_medium := m, ad_high := h\<rparr>) hi lo cl)"
  by (auto simp: adaptive_update_def Let_def split: sum.splits)

lemma wf_adaptive_update: "wf_adaptive a \<Longrightarrow> wf_adaptive (fst (adaptive_update a c))"
  by (auto simp: adaptive_update_def Let_def split: sum.splits
      intro!: wf_adaptive_observe wf_adaptive_children
      intro: wf_leaf_update wf_adaptive_leaves dest: candle_prices_isfl)

lemma wf_provider_update: "wf_provider p \<Longrightarrow> wf_provider (fst (provider_update p c))"
  by (cases p) (auto simp: wf_adaptive_update wf_leaf_update split: sum.splits prod.splits
      dest: wf_adaptive_update [of _ c])

lemma wf_leaf_reset: "wf_leaf l \<Longrightarrow> wf_leaf (leaf_reset l)"
  by (cases l) (simp_all add: wf_atr_def wf_pct_def)

lemma wf_provider_reset: "wf_provider p \<Longrightarrow> wf_provider (provider_reset p)"
  by (cases p) (auto simp: wf_leaf_reset wf_adaptive_def)

lemma isfl_int [simp]: "isfl 14" "isfl 100"
  by (simp_all add: isfl_def)

lemma new_fixed_wf: "new_fixed s = Inr l \<Longrightarrow> wf_leaf l"
  by (auto simp: new_fixed_def b64.rnd_pos split: if_splits)

lemma new_atr_wf: "new_atr n m = Inr l \<Longrightarrow> wf_leaf l"
  by (auto simp: new_atr_def wf_atr_def b64.rnd_pos split: option.splits if_splits)

lemma new_pct_wf: "new_pct p s r mode m = Inr l \<Longrightarrow> wf_leaf l"
  by (auto simp: new_pct_def wf_pct_def rbind_Inr_iff coerce_rounding_mode_def b64.rnd_pos
      intro!: b64.rnd_le split: option.splits if_splits prod.splits)

lemma new_adaptive_wf:
  "new_adaptive l m h w ts hy = Inr p \<Longrightarrow> wf_leaf l \<Longrightarrow> wf_leaf m \<Longrightarrow> wf_leaf h \<Longrightarrow> wf_provider p"
  by (auto simp: new_adaptive_def wf_adaptive_def split: list.splits if_splits)

lemma create_provider_cases [consumes 1]:
  assumes "create_provider c = Inr p"
  obtains (leaf) l where "p = Leaf l"
      "new_fixed (cfg_brick_size c) = Inr l \<or> atr_from_configuration c = Inr l \<or> pct_from_configuration c = Inr l"
  | (adaptive) l m h w ts hy where "new_fixed (cfg_brick_size c) = Inr l" "pct_from_configuration c = Inr m"
      "atr_from_configuration c = Inr h" "new_adaptive l m h w ts hy = Inr p"
  using assms
  by (auto simp: create_provider_def map_sum_def adaptive_from_configuration_def rbind_Inr_iff
      split: sum.splits if_splits)

lemma from_configuration_wf:
  "atr_from_configuration c = Inr l \<Longrightarrow> wf_leaf l" "pct_from_configuration c = Inr l \<Longrightarrow> wf_leaf l"
  by (auto simp: atr_from_configuration_def pct_from_configuration_def rbind_Inr_iff
      dest: new_atr_wf new_pct_wf)

lemma create_provider_wf: "create_provider c = Inr p \<Longrightarrow> wf_provider p"
  by (cases rule: create_provider_cases)
    (auto dest: new_fixed_wf from_configuration_wf intro: new_adaptive_wf)

section \<open>The provider contract\<close>

text \<open>
  \<open>BrickSizeProvider\<close> (\<open>interfaces.py\<close>): what the engine and the adaptive provider rely on. A
  size is read only when the provider is ready, readiness is never lost, and a reset forgets
  every candle.
\<close>

locale size_provider =
  fixes upd :: "'s \<Rightarrow> 'c \<Rightarrow> 's \<times> unit result"
    and rdy :: "'s \<Rightarrow> bool"
    and sz :: "'s \<Rightarrow> rat result"
    and rst :: "'s \<Rightarrow> 's"
    and wf :: "'s \<Rightarrow> bool"
  assumes upd_wf: "wf s \<Longrightarrow> wf (fst (upd s c))"
    and rst_wf: "wf s \<Longrightarrow> wf (rst s)"
    and sz_ready: "rdy s \<Longrightarrow> \<exists>x. sz s = Inr x"
    and sz_not_ready: "\<not> rdy s \<Longrightarrow> sz s = Inl RuntimeError"
    and upd_ready: "rdy s \<Longrightarrow> rdy (fst (upd s c))"
    and rst_upd: "rst (fst (upd s c)) = rst s"
begin

lemma feed_wf: "wf s \<Longrightarrow> wf (feed upd s cs)"
  by (rule feed_invariant) (auto intro: upd_wf)

lemma feed_ready: "rdy s \<Longrightarrow> rdy (feed upd s cs)"
  by (rule feed_invariant) (auto intro: upd_ready)

lemma rst_feed: "rst (feed upd s cs) = rst s"
  by (rule feed_frame) (rule rst_upd)

lemma sz_Inr_iff: "(\<exists>x. sz s = Inr x) \<longleftrightarrow> rdy s"
  using sz_ready sz_not_ready by fastforce

text \<open>Resetting and replaying the same candles gives the same provider.\<close>

lemma replay_after_reset: "feed upd (rst (feed upd s cs)) ds = feed upd (rst s) ds"
  by (simp add: rst_feed)

end

text \<open>A provider whose rolling state can be saved and loaded into a fresh one.\<close>

locale persistent_provider = size_provider upd rdy sz rst wf
  for upd :: "'s \<Rightarrow> 'c \<Rightarrow> 's \<times> unit result" and rdy and sz and rst and wf +
  fixes expt :: "'s \<Rightarrow> 'e" and impt :: "'s \<Rightarrow> 'e \<Rightarrow> 's"
  assumes impt_expt: "wf s \<Longrightarrow> impt (rst s) (expt s) = s"
begin

lemma resume:
  assumes "wf s" "rst s = s"
  shows "feed upd (impt s (expt (feed upd s cs))) ds = feed upd s (cs @ ds)"
proof -
  have "impt (rst (feed upd s cs)) (expt (feed upd s cs)) = feed upd s cs"
    using assms(1) by (intro impt_expt feed_wf)
  then show ?thesis
    using assms(2) by (simp add: rst_feed)
qed

end

lemma leaf_size_iff: "leaf_size l = Inl RuntimeError \<longleftrightarrow> \<not> leaf_ready l"
  "(\<exists>x. leaf_size l = Inr x) \<longleftrightarrow> leaf_ready l"
  by (cases l; force split: option.splits)+

lemma leaf_update_ready: "leaf_update l c = Inr l' \<Longrightarrow> leaf_ready l \<Longrightarrow> leaf_ready l'"
  by (cases l) (auto simp: atr_update_def pct_update_def rbind_Inr_iff atr_step_def Let_def
      map_sum_def split: sum.splits option.splits)

lemma leaf_reset_update: "leaf_update l c = Inr l' \<Longrightarrow> leaf_reset l' = leaf_reset l"
  by (cases l) (auto simp: atr_update_def pct_update_def rbind_Inr_iff atr_step_def Let_def
      map_sum_def split: sum.splits option.splits)

lemma leaf_import_export: "wf_leaf l \<Longrightarrow> leaf_import (leaf_reset l) (leaf_export l) = l"
  by (cases l) (auto simp: wf_atr_def wf_pct_def no_leaf_state_def split: option.splits)

lemma adaptive_update_cases:
  obtains "fst (adaptive_update a c) = a"
  | l where "leaf_update (ad_low a) c = Inr l" "fst (adaptive_update a c) = a\<lparr>ad_low := l\<rparr>"
  | l m where "leaf_update (ad_low a) c = Inr l" "leaf_update (ad_medium a) c = Inr m"
      "fst (adaptive_update a c) = a\<lparr>ad_low := l, ad_medium := m\<rparr>"
  | l m h where "leaf_update (ad_low a) c = Inr l" "leaf_update (ad_medium a) c = Inr m"
      "leaf_update (ad_high a) c = Inr h"
      "fst (adaptive_update a c) = a\<lparr>ad_low := l, ad_medium := m, ad_high := h\<rparr>"
  | l m h hi lo cl where "leaf_update (ad_low a) c = Inr l" "leaf_update (ad_medium a) c = Inr m"
      "leaf_update (ad_high a) c = Inr h"
      "fst (adaptive_update a c) = adaptive_observe (a\<lparr>ad_low := l, ad_medium := m, ad_high := h\<rparr>) hi lo cl"
  unfolding adaptive_update_def Let_def
  by (cases "leaf_update (ad_low a) c"; cases "leaf_update (ad_medium a) c";
      cases "leaf_update (ad_high a) c"; cases "candle_prices c") auto

lemma adaptive_observe_frame [frame_simps]:
  "ad_low (adaptive_observe a hi lo cl) = ad_low a"
  "ad_medium (adaptive_observe a hi lo cl) = ad_medium a"
  "ad_high (adaptive_observe a hi lo cl) = ad_high a"
  by (simp_all add: adaptive_observe_def Let_def)

lemma adaptive_reset_observe:
  "provider_reset (Adaptive (adaptive_observe a hi lo cl)) = provider_reset (Adaptive a)"
  by (simp add: adaptive_observe_def Let_def)

lemma adaptive_update_ready:
  "provider_ready (Adaptive a) \<Longrightarrow> provider_ready (Adaptive (fst (adaptive_update a c)))"
  by (cases rule: adaptive_update_cases [of a c]) (auto simp: frame_simps dest: leaf_update_ready)

lemma adaptive_reset_update:
  "provider_reset (Adaptive (fst (adaptive_update a c))) = provider_reset (Adaptive a)"
proof (cases rule: adaptive_update_cases [of a c])
  case (5 l m h hi lo cl)
  show ?thesis
    unfolding 5(4) adaptive_reset_observe using 5(1-3) by (simp add: leaf_reset_update)
qed (simp_all add: leaf_reset_update)

lemma provider_update_Adaptive [simp]:
  "fst (provider_update (Adaptive a) c) = Adaptive (fst (adaptive_update a c))"
  by (simp split: prod.split)

declare provider_update.simps(2) [simp del]

interpretation prov: persistent_provider provider_update provider_ready provider_size
  provider_reset wf_provider provider_export provider_import
proof
  show "wf_provider (fst (provider_update s c))" if "wf_provider s" for s c
    using that by (rule wf_provider_update)
  show "wf_provider (provider_reset s)" if "wf_provider s" for s
    using that by (rule wf_provider_reset)
  show "\<exists>x. provider_size s = Inr x" if "provider_ready s" for s
    using that by (cases s) (auto simp: leaf_size_iff select_provider_def split: option.split regime.split)
  show "provider_size s = Inl RuntimeError" if "\<not> provider_ready s" for s
    using that by (cases s) (auto simp: leaf_size_iff)
  show "provider_ready (fst (provider_update s c))" if "provider_ready s" for s c
    using that adaptive_update_ready
    by (cases s) (auto simp: leaf_update_ready split: sum.split)
  show "provider_reset (fst (provider_update s c)) = provider_reset s" for s c
    using adaptive_reset_update
    by (cases s) (auto simp: leaf_reset_update split: sum.split)
  show "provider_import (provider_reset s) (provider_export s) = s" if "wf_provider s" for s
  proof (cases s)
    case (Leaf l)
    then show ?thesis
      using that leaf_import_export [of l] by (cases l) auto
  next
    case (Adaptive a)
    then show ?thesis
      using that leaf_import_export
      by (auto simp: adaptive_import_def import_child_def wf_adaptive_def)
  qed
qed

section \<open>Properties of the providers\<close>

lemma fresh_leaves:
  "new_fixed s = Inr l \<Longrightarrow> leaf_reset l = l"
  "new_atr n m = Inr l \<Longrightarrow> leaf_reset l = l"
  "new_pct p st r mode mn = Inr l \<Longrightarrow> leaf_reset l = l"
  by (auto simp: new_fixed_def new_atr_def new_pct_def rbind_Inr_iff split: if_splits option.splits)

lemma fresh_from_configuration:
  "atr_from_configuration c = Inr l \<Longrightarrow> leaf_reset l = l"
  "pct_from_configuration c = Inr l \<Longrightarrow> leaf_reset l = l"
  by (auto simp: atr_from_configuration_def pct_from_configuration_def rbind_Inr_iff dest: fresh_leaves)

lemma fresh_adaptive:
  "new_adaptive l m h w ts hy = Inr p \<Longrightarrow> leaf_reset l = l \<Longrightarrow> leaf_reset m = m \<Longrightarrow>
     leaf_reset h = h \<Longrightarrow> provider_reset p = p"
  by (auto simp: new_adaptive_def split: list.splits if_splits)

lemma created_provider_fresh: "create_provider c = Inr p \<Longrightarrow> provider_reset p = p"
  by (cases rule: create_provider_cases)
    (auto dest: fresh_leaves fresh_from_configuration intro: fresh_adaptive)

text \<open>Saving the rolling state of any provider built from a configuration, after any candles,
  and loading it into a fresh provider of the same configuration, makes no difference to what
  follows: both go through the same states, so they size the same bricks.\<close>

theorem provider_resume:
  assumes "create_provider cfg = Inr p"
  shows "feed provider_update (provider_import p (provider_export (feed provider_update p cs))) ds
       = feed provider_update p (cs @ ds)"
  using assms by (intro prov.resume create_provider_wf created_provider_fresh)

definition demo_configuration :: brick_configuration where
  "demo_configuration = (default_configuration BT_TRADITIONAL 1)
     \<lparr>cfg_provider := Some ''adaptive'', cfg_percentage := Some 50, cfg_atr_period := Some 2,
     cfg_adaptive_window := Some 3\<rparr>"

definition demo_provider :: provider where
  "demo_provider = (case create_provider demo_configuration of Inr p \<Rightarrow> p | Inl _ \<Rightarrow> Leaf (FixedProvider 1))"

lemma demo_provider: "create_provider demo_configuration = Inr demo_provider"
  by code_simp

theorem provider_resume_witness:
  "let cs = [full_candle 0 100 101 99 100]; ds = [full_candle 1 100 103 99 102] in
   feed provider_update (provider_import demo_provider (provider_export (feed provider_update demo_provider cs))) ds
     = feed provider_update demo_provider (cs @ ds) \<and>
   provider_ready (feed provider_update demo_provider (cs @ ds))"
  unfolding Let_def
  by (intro conjI provider_resume [OF demo_provider]) code_simp

text \<open>Resetting a provider forgets every candle it saw: replaying a tape after a reset gives
  exactly the provider that a first run over the tape from a reset provider gives, whatever came before.\<close>

theorem provider_replay_deterministic:
  "feed provider_update (provider_reset (feed provider_update p cs)) ds
     = feed provider_update (provider_reset p) ds"
  by (rule prov.replay_after_reset)

text \<open>After \<open>k\<close> candles of an ATR provider: the count stops at the period, where the ATR appears.\<close>

definition atr_after :: "int \<Rightarrow> int \<Rightarrow> atr_provider \<Rightarrow> bool" where
  "atr_after n k a \<longleftrightarrow> atr_period a = n \<and> (atr_value a = None \<longrightarrow> atr_count a = k) \<and>
     (atr_value a \<noteq> None \<longleftrightarrow> n \<le> k)"

lemma atr_after_step: "atr_after n k a \<Longrightarrow> atr_after n (k + 1) (atr_step a hi lo cl)"
  by (auto simp: atr_after_def atr_step_def Let_def split: option.splits)

lemma atr_feed_after:
  assumes "atr_after n k a" "\<forall>c\<in>set cs. \<exists>x. candle_prices c = Inr x"
  shows "\<exists>a'. feed provider_update (Leaf (AtrProvider a)) cs = Leaf (AtrProvider a') \<and>
     atr_after n (k + int (length cs)) a'"
  using assms
proof (induction cs arbitrary: a k)
  case (Cons c cs)
  from Cons.prems(2) obtain hi lo cl where c: "candle_prices c = Inr (hi, lo, cl)"
    by (metis list.set_intros(1) prod_cases3)
  have step: "fst (provider_update (Leaf (AtrProvider a)) c) = Leaf (AtrProvider (atr_step a hi lo cl))"
    by (simp add: atr_update_def c)
  show ?case
    using Cons.IH [OF atr_after_step [OF Cons.prems(1), of hi lo cl]] Cons.prems(2)
    unfolding feed_simps(2) step by (simp add: algebra_simps)
qed simp

text \<open>A fresh ATR provider becomes ready exactly with its \<open>period\<close>-th candle: after any tape of
  priced candles it is ready iff the tape is at least \<open>period\<close> long.\<close>

theorem atr_ready_after_period:
  assumes "new_atr (Some n) (Some m) = Inr l" and "\<forall>c\<in>set cs. \<exists>x. candle_prices c = Inr x"
  shows "provider_ready (feed provider_update (Leaf l) cs) \<longleftrightarrow> n \<le> int (length cs)"
proof -
  obtain a where "l = AtrProvider a" "atr_after n 0 a"
    using assms(1) by (auto simp: new_atr_def atr_after_def split: if_splits)
  with atr_feed_after [of n 0 a cs] assms(2) show ?thesis
    by (auto simp: atr_after_def)
qed

definition demo_atr :: leaf_provider where
  "demo_atr = AtrProvider \<lparr>atr_period = 2, atr_multiplier = 1, atr_prev_close = None,
     atr_warmup_sum = 0, atr_count = 0, atr_value = None\<rparr>"

lemma demo_atr: "new_atr (Some 2) (Some 1) = Inr demo_atr"
  by (simp add: new_atr_def demo_atr_def)

theorem atr_ready_after_period_witness:
  "provider_ready (feed provider_update (Leaf demo_atr) [full_candle 0 1 2 1 2, full_candle 1 1 2 1 2]) \<and>
   \<not> provider_ready (feed provider_update (Leaf demo_atr) [full_candle 0 1 2 1 2])"
  using atr_ready_after_period [OF demo_atr, of "[full_candle 0 1 2 1 2]"]
    atr_ready_after_period [OF demo_atr, of "[full_candle 0 1 2 1 2, full_candle 1 1 2 1 2]"]
  by simp

text \<open>A candle with its low at most its high; its prices are readable.\<close>

definition sane_candle :: "candle \<Rightarrow> bool" where
  "sane_candle c \<longleftrightarrow> (case candle_prices c of Inl _ \<Rightarrow> True | Inr (hi, lo, cl) \<Rightarrow> lo \<le> hi)"

definition atr_nonneg :: "leaf_provider \<Rightarrow> bool" where
  "atr_nonneg l \<longleftrightarrow> (case l of AtrProvider a \<Rightarrow> 0 \<le> atr_warmup_sum a \<and>
     (case atr_value a of None \<Rightarrow> True | Some v \<Rightarrow> 0 \<le> v) | _ \<Rightarrow> True)"

lemma atr_nonneg_update:
  assumes "wf_leaf l" "atr_nonneg l" "sane_candle c" "leaf_update l c = Inr l'"
  shows "atr_nonneg l'"
proof (cases l)
  case (AtrProvider a)
  then obtain hi lo cl where l': "l' = AtrProvider (atr_step a hi lo cl)"
    and "candle_prices c = Inr (hi, lo, cl)"
    using assms(4) by (auto simp: atr_update_def rbind_Inr_iff map_sum_def split: sum.splits)
  with assms(3) have "lo \<le> hi" by (simp add: sane_candle_def)
  then have tr: "0 \<le> true_range hi lo (atr_prev_close a)" by (rule true_range_nonneg)
  show ?thesis
    using assms(1,2) tr unfolding l' AtrProvider
    by (auto simp: atr_nonneg_def atr_step_def Let_def wf_atr_def split: option.splits
        intro!: fl_sign_intros b64.rnd_nonneg)
qed (use assms in \<open>auto simp: atr_nonneg_def map_sum_def split: sum.splits\<close>)

fun atrs_nonneg :: "provider \<Rightarrow> bool" where
  "atrs_nonneg (Leaf l) = atr_nonneg l"
| "atrs_nonneg (Adaptive a) = (atr_nonneg (ad_low a) \<and> atr_nonneg (ad_medium a) \<and> atr_nonneg (ad_high a))"

lemma atrs_nonneg_update:
  assumes "wf_provider p" "atrs_nonneg p" "sane_candle c"
  shows "atrs_nonneg (fst (provider_update p c))"
proof (cases p)
  case (Leaf l)
  with assms show ?thesis by (auto intro: atr_nonneg_update split: sum.split)
next
  case (Adaptive a)
  have wf: "wf_leaf (ad_low a)" "wf_leaf (ad_medium a)" "wf_leaf (ad_high a)"
    using assms(1) Adaptive wf_adaptive_leaves by auto
  show ?thesis
    unfolding Adaptive provider_update_Adaptive using assms(2,3) wf Adaptive
    by (cases rule: adaptive_update_cases [of a c])
      (auto simp: frame_simps intro: atr_nonneg_update)
qed

lemma atr_nonneg_simps [simp]:
  "atr_nonneg (FixedProvider s)" "atr_nonneg (PctProvider q)"
  "atr_nonneg (AtrProvider \<lparr>atr_period = n, atr_multiplier = m, atr_prev_close = c,
     atr_warmup_sum = 0, atr_count = k, atr_value = None\<rparr>)"
  by (simp_all add: atr_nonneg_def)

lemma new_pct_is_pct: "new_pct p st r mode mn = Inr l \<Longrightarrow> \<exists>q. l = PctProvider q"
  by (auto simp: new_pct_def rbind_Inr_iff split: option.splits if_splits)

lemma new_leaf_atr_nonneg:
  "new_fixed s = Inr l \<Longrightarrow> atr_nonneg l" "new_atr n m = Inr l \<Longrightarrow> atr_nonneg l"
  "atr_from_configuration c = Inr l \<Longrightarrow> atr_nonneg l"
  "pct_from_configuration c = Inr l \<Longrightarrow> atr_nonneg l"
  by (auto simp: new_fixed_def new_atr_def atr_from_configuration_def pct_from_configuration_def
      rbind_Inr_iff dest!: new_pct_is_pct split: if_splits option.splits)

lemma new_adaptive_atrs_nonneg:
  "new_adaptive l m h w ts hy = Inr p \<Longrightarrow> atr_nonneg l \<Longrightarrow> atr_nonneg m \<Longrightarrow> atr_nonneg h \<Longrightarrow>
     atrs_nonneg p"
  by (auto simp: new_adaptive_def split: list.splits if_splits)

lemma created_atrs_nonneg:
  assumes "create_provider c = Inr p"
  shows "atrs_nonneg p"
  using assms
proof (cases rule: create_provider_cases)
  case (leaf l)
  with new_leaf_atr_nonneg(1,3,4) show ?thesis by fastforce
next
  case (adaptive l m h w ts hy)
  then show ?thesis
    using new_adaptive_atrs_nonneg [OF adaptive(4)] new_leaf_atr_nonneg(1,3,4) by blast
qed

fun uses_atr :: "provider \<Rightarrow> bool" where
  "uses_atr (Leaf (AtrProvider a)) = True"
| "uses_atr (Leaf l) = False"
| "uses_atr (Adaptive a) = True"

lemma leaf_size_nonneg:
  assumes "wf_leaf l" "atr_nonneg l" "leaf_size l = Inr s"
  shows "0 \<le> s" "\<not> uses_atr (Leaf l) \<Longrightarrow> 0 < s"
  using assms by (cases l; auto simp: atr_nonneg_def wf_atr_def wf_pct_def fmul_nonneg split: option.splits)+

text \<open>Whatever provider a configuration builds, over any tape whose candles have low at most high,
  the brick size it reports is never negative; when the provider holds no ATR it is strictly positive.\<close>

theorem created_size_sign:
  assumes "create_provider cfg = Inr p" and "\<forall>c\<in>set cs. sane_candle c"
    and "provider_size (feed provider_update p cs) = Inr s"
  shows "0 \<le> s \<and> (\<not> uses_atr p \<longrightarrow> 0 < s)"
proof -
  let ?q = "feed provider_update p cs"
  have inv: "wf_provider ?q \<and> atrs_nonneg ?q \<and> uses_atr ?q = uses_atr p"
  proof (rule feed_invariant)
    show "wf_provider p \<and> atrs_nonneg p \<and> uses_atr p = uses_atr p"
      using create_provider_wf [OF assms(1)] created_atrs_nonneg [OF assms(1)] by simp
    show "wf_provider (fst (provider_update q c)) \<and> atrs_nonneg (fst (provider_update q c)) \<and>
        uses_atr (fst (provider_update q c)) = uses_atr p"
      if "c \<in> set cs" "wf_provider q \<and> atrs_nonneg q \<and> uses_atr q = uses_atr p" for q c
    proof -
      have "uses_atr (fst (provider_update q c)) = uses_atr q"
        by (cases q rule: uses_atr.cases) (auto simp: map_sum_def split: sum.split)
      with that assms(2) show ?thesis
        using wf_provider_update atrs_nonneg_update by auto
    qed
  qed
  show ?thesis
  proof (cases ?q)
    case (Leaf l)
    with inv assms(3) leaf_size_nonneg [of l s] show ?thesis by auto
  next
    case (Adaptive a)
    have "leaf_size (select_provider a) = Inr s"
      using assms(3) Adaptive by (auto split: if_splits)
    moreover have "wf_leaf (select_provider a)" "atr_nonneg (select_provider a)"
      using inv Adaptive wf_adaptive_leaves [of a]
      by (auto simp: select_provider_def split: option.split regime.split)
    ultimately show ?thesis
      using inv leaf_size_nonneg [of "select_provider a" s] Adaptive by auto
  qed
qed

theorem created_size_sign_witness:
  "provider_size (feed provider_update demo_provider [full_candle 0 8 9 7 8, full_candle 1 8 9 7 8]) = Inr 2 \<and> 0 \<le> (2::rat)"
proof -
  have s: "provider_size (feed provider_update demo_provider [full_candle 0 8 9 7 8, full_candle 1 8 9 7 8]) = Inr 2"
    by code_simp
  have "\<forall>c\<in>set [full_candle 0 8 9 7 8, full_candle 1 8 9 7 8]. sane_candle c"
    by (simp add: sane_candle_def)
  from created_size_sign [OF demo_provider this s] s show ?thesis by blast
qed

text \<open>Flat candles (open, high, low and close all equal) give the ATR provider a size of zero as soon
  as its warm-up ends: the engine then divides by it.\<close>

theorem atr_flat_size_zero:
  assumes "new_atr (Some n) (Some m) = Inr l" and "n \<le> int k"
  shows "provider_size (feed provider_update (Leaf l) (replicate k (full_candle t p p p p))) = Inr 0"
proof -
  obtain a where l: "l = AtrProvider a" "atr_after n 0 a" "wf_atr a"
      and a0: "atr_warmup_sum a = 0" "atr_value a = None" "atr_prev_close a = None"
    using assms(1) new_atr_wf [OF assms(1)] by (auto simp: new_atr_def atr_after_def split: if_splits)
  let ?flat = "\<lambda>b. atr_warmup_sum b = 0 \<and> (atr_value b = None \<or> atr_value b = Some 0) \<and>
      (atr_prev_close b = None \<or> atr_prev_close b = Some (b64 p))"
  have "\<exists>b. feed provider_update (Leaf l) (replicate k (full_candle t p p p p)) = Leaf (AtrProvider b) \<and> ?flat b"
  proof (rule feed_invariant [where P = "\<lambda>q. \<exists>b. q = Leaf (AtrProvider b) \<and> ?flat b"])
    fix q c
    assume "c \<in> set (replicate k (full_candle t p p p p))" "\<exists>b. q = Leaf (AtrProvider b) \<and> ?flat b"
    then obtain b where "q = Leaf (AtrProvider b)" "?flat b" "c = full_candle t p p p p"
      by auto
    then show "\<exists>b. fst (provider_update q c) = Leaf (AtrProvider b) \<and> ?flat b"
      by (auto simp: atr_update_def atr_step_def Let_def true_range_flat fadd_def fdiv_def fmul_def)
  qed (use l a0 in simp)
  moreover obtain b where "feed provider_update (Leaf (AtrProvider a)) (replicate k (full_candle t p p p p)) =
      Leaf (AtrProvider b)" "atr_after n (int k) b"
    using atr_feed_after [OF l(2), of "replicate k (full_candle t p p p p)"] by auto
  ultimately show ?thesis
    using assms(2) l(1) by (auto simp: atr_after_def fmul_def)
qed

theorem atr_flat_size_zero_witness:
  "provider_size (feed provider_update (Leaf demo_atr) (replicate 3 (full_candle 0 5 5 5 5))) = Inr 0"
  by (rule atr_flat_size_zero [OF demo_atr]) simp

text \<open>The regime classifier is stable: a regime it has just chosen, it chooses again for the same
  statistic, whatever the regime before; hysteresis never makes it flap.\<close>

theorem detect_regime_stable:
  assumes "wf_provider (Adaptive a)"
  shows "detect_regime stat (ad_t1 a) (ad_t2 a) (ad_hysteresis a)
      (Some (detect_regime stat (ad_t1 a) (ad_t2 a) (ad_hysteresis a) cur))
    = detect_regime stat (ad_t1 a) (ad_t2 a) (ad_hysteresis a) cur"
proof -
  have wf: "0 \<le> ad_hysteresis a" "ad_t1 a < ad_t2 a" "isfl (ad_t1 a)" "isfl (ad_t2 a)"
    using assms by (auto simp: wf_adaptive_def)
  then have b: "ad_t1 a \<le> fadd (ad_t1 a) (ad_hysteresis a)" "ad_t2 a \<le> fadd (ad_t2 a) (ad_hysteresis a)"
    "fsub (ad_t1 a) (ad_hysteresis a) \<le> ad_t1 a" "fsub (ad_t2 a) (ad_hysteresis a) \<le> ad_t2 a"
    by (simp_all add: fadd_ge fsub_le)
  have m: "fsub (ad_t1 a) (ad_hysteresis a) \<le> fsub (ad_t2 a) (ad_hysteresis a)"
    "fadd (ad_t1 a) (ad_hysteresis a) \<le> fadd (ad_t2 a) (ad_hysteresis a)"
    using wf(2) unfolding fsub_def fadd_def by (auto intro!: b64.rnd_mono)
  show ?thesis
    using b m wf(2) unfolding detect_regime_def Let_def
    by (cases cur; cases "the cur") (auto split: if_splits)
qed

theorem detect_regime_stable_witness:
  "(case demo_provider of Adaptive a \<Rightarrow>
      detect_regime (Some 1) (ad_t1 a) (ad_t2 a) (ad_hysteresis a)
        (Some (detect_regime (Some 1) (ad_t1 a) (ad_t2 a) (ad_hysteresis a) (Some LOW))) =
      detect_regime (Some 1) (ad_t1 a) (ad_t2 a) (ad_hysteresis a) (Some LOW)
    | Leaf l \<Rightarrow> False)"
proof -
  obtain a where a: "demo_provider = Adaptive a"
    using fresh_adaptive by (cases demo_provider) (use demo_provider in \<open>code_simp, blast\<close>)+
  have "wf_provider (Adaptive a)"
    using create_provider_wf [OF demo_provider] unfolding a .
  from detect_regime_stable [OF this, of "Some 1" "Some LOW"] show ?thesis
    by (simp add: a)
qed

text \<open>The reference price selection kept from before the strategies agrees with the strategy that
  replaced it, on every reference price and every candle, errors included.\<close>

theorem select_reference_price_strategy:
  assumes "is_reference_price r"
  shows "select_reference_price c r = rbind (strategy_for_reference_price r) (\<lambda>s. reference_price_of s c)"
proof (cases "close_or_any c")
  case (Inl e)
  with assms show ?thesis
    by (cases r) (auto simp: select_reference_price_def strategy_for_reference_price_def
        builtin_strategies_def reference_price_of_def ohlc_def)
next
  case (Inr cl)
  then show ?thesis
    using assms float_get_cases [of c F_HIGH cl] float_get_cases [of c F_LOW cl] float_get_cases [of c F_OPEN cl]
    by (cases r) (auto simp: select_reference_price_def strategy_for_reference_price_def
        builtin_strategies_def reference_price_of_def ohlc_def)
qed

theorem select_reference_price_strategy_witness:
  "select_reference_price (full_candle 0 1 4 2 3) REF_TYPICAL
     = rbind (strategy_for_reference_price REF_TYPICAL) (\<lambda>s. reference_price_of s (full_candle 0 1 4 2 3))"
  by (rule select_reference_price_strategy) simp

end
