(* ===== verification/RenkoEngine.thy ===== *)
theory RenkoEngine imports RenkoProviders begin

text \<open>
  The brick builders (\<open>chart/renko/builder.py\<close>) and the engine
  (\<open>TraditionalRenkoEngine\<close> of \<open>chart/renko/engine.py\<close>). An operation that can raise
  returns the engine it leaves behind and the result, so a state that is changed before an
  exception is visible. Wall-clock readings (\<open>datetime.utcnow()\<close>) are arguments; the publishing
  of an event on the bus appends it to the engine's event log.
\<close>

section \<open>Brick builders\<close>

datatype brick_event = OPENED | EXTENDED | REVERSED

text \<open>The dictionary the engine hands to a builder; a builder fills in absent highs and lows.\<close>

record brick_data =
  bd_direction :: brick_direction
  bd_open :: rat
  bd_close :: rat
  bd_high :: "rat option"
  bd_low :: "rat option"
  bd_volume :: "rat option"
  bd_time :: time
  bd_event :: brick_event

definition price_code :: "rat \<Rightarrow> int" where
  "price_code p = py_trunc (fmul p 100000)"

definition traditional_build :: "brick_data \<Rightarrow> brick_configuration \<Rightarrow> brick" where
  "traditional_build d cfg =
     (let opn = b64 (bd_open d); cl = b64 (bd_close d) in
      \<lparr>br_id = BrickId (bd_direction d) (bd_time d) (price_code opn) (price_code cl),
       br_direction = bd_direction d, br_open = opn, br_close = cl,
       br_high = (case bd_high d of Some h \<Rightarrow> b64 h | None \<Rightarrow> max opn cl),
       br_low = (case bd_low d of Some l \<Rightarrow> b64 l | None \<Rightarrow> min opn cl),
       br_volume = (case bd_volume d of Some v \<Rightarrow> b64 v | None \<Rightarrow> 0),
       br_created_at = bd_time d, br_meta_size = cfg_brick_size cfg,
       br_meta_source = cfg_price_source cfg, br_meta_hybrid = None\<rparr>)"

text \<open>The hybrid builder keeps a sequence number.\<close>

datatype builder = TraditionalBuilder | HybridBuilder int

fun build_brick :: "builder \<Rightarrow> brick_data \<Rightarrow> brick_configuration \<Rightarrow> builder \<times> brick" where
  "build_brick TraditionalBuilder d cfg = (TraditionalBuilder, traditional_build d cfg)"
| "build_brick (HybridBuilder n) d cfg =
     (let b = traditional_build d cfg in
      (HybridBuilder (n + 1), b\<lparr>br_id := HybridId (n + 1) (br_id b), br_meta_hybrid := Some (n + 1)\<rparr>))"

text \<open>\<open>export_state\<close> / \<open>import_state\<close>: the sequence, or an empty dictionary.\<close>

fun builder_export :: "builder \<Rightarrow> int option" where
  "builder_export TraditionalBuilder = None"
| "builder_export (HybridBuilder n) = Some n"

fun builder_import :: "builder \<Rightarrow> int option \<Rightarrow> builder" where
  "builder_import TraditionalBuilder st = TraditionalBuilder"
| "builder_import (HybridBuilder n) st = HybridBuilder (case st of None \<Rightarrow> 0 | Some k \<Rightarrow> k)"

fun builder_name :: "builder \<Rightarrow> pystr" where
  "builder_name TraditionalBuilder = ''traditional''"
| "builder_name (HybridBuilder n) = ''hybrid''"

text \<open>\<open>default_builder_registry().create(configuration)\<close>.\<close>

definition create_builder :: "brick_configuration \<Rightarrow> builder result" where
  "create_builder cfg =
     (if resolved_builder cfg = ''traditional'' then Inr TraditionalBuilder
      else if resolved_builder cfg = ''hybrid'' then Inr (HybridBuilder 0)
      else Inl KeyError)"

section \<open>The engine's state\<close>

datatype renko_event =
    BrickOpened brick_configuration brick_state nat
  | BrickExtended brick_configuration brick_state nat brick
  | BrickReversed brick_configuration brick_state nat brick
  | BrickSizeUpdated brick_configuration pystr rat

text \<open>
  \<open>en_bus\<close>: an event bus is attached. \<open>en_injected\<close>: \<open>_injected_provider\<close> is set; it is then the
  very object \<open>_provider\<close>, so one field holds both.
\<close>

record engine =
  en_bus :: bool
  en_config :: "brick_configuration option"
  en_state :: "brick_state option"
  en_builder :: builder
  en_history :: "brick list"
  en_pending :: "rat option"
  en_boundary :: "rat option"
  en_injected :: bool
  en_provider :: "provider option"
  en_published :: "rat option"
  en_events :: "renko_event list"

definition new_engine :: "bool \<Rightarrow> provider option \<Rightarrow> builder option \<Rightarrow> engine" where
  "new_engine bus p b = \<lparr>en_bus = bus, en_config = None, en_state = None,
     en_builder = (case b of None \<Rightarrow> TraditionalBuilder | Some b' \<Rightarrow> b'),
     en_history = [], en_pending = None, en_boundary = None, en_injected = (p \<noteq> None),
     en_provider = p, en_published = None, en_events = []\<rparr>"

definition set_brick_builder :: "builder \<Rightarrow> engine \<Rightarrow> engine" where
  "set_brick_builder b e = e\<lparr>en_builder := b\<rparr>"

definition set_brick_size_provider :: "provider \<Rightarrow> engine \<Rightarrow> engine" where
  "set_brick_size_provider p e = e\<lparr>en_injected := True, en_provider := Some p\<rparr>"

definition configure :: "brick_configuration \<Rightarrow> engine \<Rightarrow> engine \<times> unit result" where
  "configure cfg e =
     (let e1 = e\<lparr>en_config := Some cfg\<rparr>;
          st = \<lparr>bs_direction = NEUTRAL, bs_last_price = 0, bs_brick_size = cfg_brick_size cfg,
                bs_is_open = False, bs_meta = MetaEmpty\<rparr>;
          finish = (\<lambda>e'. (e'\<lparr>en_published := None, en_state := Some st\<rparr>, Inr ()))
      in if en_injected e then finish e1
         else case new_fixed (cfg_brick_size cfg) of
           Inl er \<Rightarrow> (e1, Inl er)
         | Inr l \<Rightarrow> finish (e1\<lparr>en_provider := Some (Leaf l)\<rparr>))"

definition engine_start :: "time \<Rightarrow> engine \<Rightarrow> engine \<times> unit result" where
  "engine_start now e = (case en_config e of
       None \<Rightarrow> (e, Inl RuntimeError)
     | Some cfg \<Rightarrow> (e\<lparr>en_state := Some \<lparr>bs_direction = NEUTRAL, bs_last_price = 0,
         bs_brick_size = cfg_brick_size cfg, bs_is_open = True, bs_meta = MetaStarted now\<rparr>\<rparr>, Inr ()))"

definition engine_stop :: "time \<Rightarrow> engine \<Rightarrow> engine" where
  "engine_stop now e = (case en_state e of
       None \<Rightarrow> e
     | Some st \<Rightarrow> e\<lparr>en_state := Some (st\<lparr>bs_is_open := False, bs_meta := MetaStopped (bs_meta st) now\<rparr>)\<rparr>)"

definition engine_reset :: "engine \<Rightarrow> engine" where
  "engine_reset e = e\<lparr>en_config := None, en_state := None, en_history := [], en_pending := None,
     en_boundary := None, en_published := None, en_provider := map_option provider_reset (en_provider e)\<rparr>"

section \<open>From a price to brick movements\<close>

text \<open>\<open>market_data[key]\<close>, which raises on an absent key, and \<open>None\<close> used as a number.\<close>

definition item_get :: "candle \<Rightarrow> price_field \<Rightarrow> rat option result" where
  "item_get c f = (case prices c f of None \<Rightarrow> Inl KeyError | Some v \<Rightarrow> Inr v)"

definition as_number :: "rat option \<Rightarrow> rat result" where
  "as_number v = (case v of None \<Rightarrow> Inl TypeError | Some x \<Rightarrow> Inr (b64 x))"

definition select_price :: "candle \<Rightarrow> price_source \<Rightarrow> rat result" where
  "select_price c src = (case src of
       SRC_OPEN \<Rightarrow> rbind (item_get c F_OPEN) as_number
     | SRC_HIGH \<Rightarrow> rbind (item_get c F_HIGH) as_number
     | SRC_LOW \<Rightarrow> rbind (item_get c F_LOW) as_number
     | SRC_CLOSE \<Rightarrow> rbind (item_get c F_CLOSE) as_number
     | SRC_TYPICAL \<Rightarrow>
         rbind (item_get c F_HIGH) (\<lambda>h. rbind (item_get c F_LOW) (\<lambda>l.
         rbind (as_number h) (\<lambda>hi. rbind (as_number l) (\<lambda>lo.
         rbind (item_get c F_CLOSE) (\<lambda>k. rbind (as_number k) (\<lambda>cl.
           Inr (fdiv (fadd (fadd hi lo) cl) 3)))))))
     | SRC_OTHER _ \<Rightarrow> Inl ValueError)"

definition derive_initial_direction :: "rat \<Rightarrow> rat \<Rightarrow> rat \<Rightarrow> brick_direction option" where
  "derive_initial_direction price prev sz =
     (if sz \<le> fsub price prev then Some UP
      else if sz \<le> fsub prev price then Some DOWN
      else None)"

text \<open>
  The loop that \<open>_create_continuation_bricks\<close> and \<open>_create_reversal_bricks\<close> share: one brick per
  step, each opening at the close of the one before. Only the event of the first one differs.
\<close>

fun brick_run :: "brick_direction \<Rightarrow> rat \<Rightarrow> time \<Rightarrow> rat \<Rightarrow> brick_event \<Rightarrow> nat \<Rightarrow> brick_data list" where
  "brick_run d sz t opn ev 0 = []"
| "brick_run d sz t opn ev (Suc n) =
     (let cl = (if d = UP then fadd opn sz else fsub opn sz) in
      \<lparr>bd_direction = d, bd_open = opn, bd_close = cl, bd_high = Some (max opn cl),
       bd_low = Some (min opn cl), bd_volume = Some 0, bd_time = t, bd_event = ev\<rparr>
      # brick_run d sz t cl EXTENDED n)"

definition continuation_bricks :: "engine \<Rightarrow> brick_state \<Rightarrow> time \<Rightarrow> rat \<Rightarrow> brick_direction \<Rightarrow> int
    \<Rightarrow> brick_data list" where
  "continuation_bricks e st t sz d steps =
     brick_run d sz t (bs_last_price st) (if en_history e = [] then OPENED else EXTENDED) (nat steps)"

definition reversal_bricks :: "brick_state \<Rightarrow> time \<Rightarrow> rat \<Rightarrow> brick_direction \<Rightarrow> int \<Rightarrow> brick_data list" where
  "reversal_bricks st t sz d steps = brick_run d sz t (bs_last_price st) REVERSED (nat steps)"

text \<open>\<open>_generate_bricks_from_price\<close>.\<close>

definition generate_bricks :: "rat \<Rightarrow> time \<Rightarrow> rat \<Rightarrow> engine \<Rightarrow> engine \<times> brick_data list result" where
  "generate_bricks price t sz e = (case (en_pending e, en_state e) of
       (Some _, Some st) \<Rightarrow>
         (let prev = bs_last_price st;
              settle = (\<lambda>d. e\<lparr>en_state := Some \<lparr>bs_direction = d, bs_last_price = price,
                 bs_brick_size = sz, bs_is_open = True, bs_meta = bs_meta st\<rparr>\<rparr>)
          in case (if bs_direction st = NEUTRAL then derive_initial_direction price prev sz
                   else Some (bs_direction st)) of
            None \<Rightarrow> (settle NEUTRAL, Inr [])
          | Some d \<Rightarrow>
              (let movement = fsub price prev in
               case ffloordiv \<bar>movement\<bar> sz of
                 Inl er \<Rightarrow> (e, Inl er)
               | Inr q \<Rightarrow>
                 (let steps = py_trunc q in
                  if steps = 0 then (settle d, Inr [])
                  else
                    (let trend = (if 0 < movement then UP else DOWN) in
                     if d \<noteq> trend \<and> fmul 2 sz \<le> \<bar>movement\<bar>
                     then (e, Inr (reversal_bricks st t sz trend steps))
                     else if d = trend then (e, Inr (continuation_bricks e st t sz d steps))
                     else (settle d, Inr [])))))
     | _ \<Rightarrow> (e, Inl RuntimeError))"

section \<open>Appending bricks\<close>

definition after_brick :: "brick \<Rightarrow> rat \<Rightarrow> brick_state" where
  "after_brick b sz = \<lparr>bs_direction = br_direction b, bs_last_price = br_close b, bs_brick_size = sz,
     bs_is_open = True, bs_meta = MetaLastBrick (br_id b)\<rparr>"

text \<open>\<open>_append_traditional_bricks_fast\<close>: a brick is built in line, without the builder.\<close>

definition fast_brick :: "brick_data \<Rightarrow> brick_configuration \<Rightarrow> brick result" where
  "fast_brick d cfg = (case (bd_high d, bd_low d) of
       (Some h, Some l) \<Rightarrow>
         (let opn = b64 (bd_open d); cl = b64 (bd_close d) in
          Inr \<lparr>br_id = BrickId (bd_direction d) (bd_time d) (price_code opn) (price_code cl),
            br_direction = bd_direction d, br_open = opn, br_close = cl, br_high = b64 h, br_low = b64 l,
            br_volume = (case bd_volume d of Some v \<Rightarrow> b64 v | None \<Rightarrow> 0),
            br_created_at = bd_time d, br_meta_size = cfg_brick_size cfg,
            br_meta_source = cfg_price_source cfg, br_meta_hybrid = None\<rparr>)
     | _ \<Rightarrow> Inl KeyError)"

fun fast_loop :: "brick_configuration \<Rightarrow> rat \<Rightarrow> engine \<Rightarrow> brick option \<Rightarrow> brick_data list \<Rightarrow> engine \<times> unit result" where
  "fast_loop cfg sz e prev [] = (case prev of
       None \<Rightarrow> (e, Inr ())
     | Some b \<Rightarrow> (e\<lparr>en_state := Some (after_brick b sz)\<rparr>, Inr ()))"
| "fast_loop cfg sz e prev (d # ds) = (case fast_brick d cfg of
       Inl er \<Rightarrow> (e, Inl er)
     | Inr b \<Rightarrow> fast_loop cfg sz (e\<lparr>en_history := en_history e @ [b]\<rparr>) (Some b) ds)"

definition append_fast :: "brick_data list \<Rightarrow> rat \<Rightarrow> engine \<Rightarrow> engine \<times> unit result" where
  "append_fast ds sz e = (case en_config e of
       None \<Rightarrow> (e, Inl RuntimeError)
     | Some cfg \<Rightarrow> fast_loop cfg sz e None ds)"

text \<open>\<open>_publish_brick_event\<close>: the event carries the snapshot of the engine as it stands.\<close>

definition publish_brick_event :: "brick_event \<Rightarrow> brick \<Rightarrow> engine \<Rightarrow> engine \<times> unit result" where
  "publish_brick_event ev b e = (if \<not> en_bus e then (e, Inr ()) else
     case (en_config e, en_state e) of
       (Some cfg, Some st) \<Rightarrow>
         (let n = length (en_history e);
              event = (case ev of
                  OPENED \<Rightarrow> BrickOpened cfg st n
                | EXTENDED \<Rightarrow> BrickExtended cfg st n b
                | REVERSED \<Rightarrow> BrickReversed cfg st n b)
          in (e\<lparr>en_events := en_events e @ [event]\<rparr>, Inr ()))
     | _ \<Rightarrow> (e, Inl RuntimeError))"

fun build_loop :: "brick_configuration \<Rightarrow> rat \<Rightarrow> engine \<Rightarrow> brick option \<Rightarrow> brick_data list \<Rightarrow> engine \<times> unit result" where
  "build_loop cfg sz e prev [] = (case prev of
       Some b \<Rightarrow> if en_bus e then (e, Inr ()) else (e\<lparr>en_state := Some (after_brick b sz)\<rparr>, Inr ())
     | None \<Rightarrow> (e, Inr ()))"
| "build_loop cfg sz e prev (d # ds) =
     (let (bu, b) = build_brick (en_builder e) d cfg;
          e1 = e\<lparr>en_builder := bu, en_history := en_history e @ [b]\<rparr>
      in if en_bus e1
         then case publish_brick_event (bd_event d) b e1 of
             (e2, Inl er) \<Rightarrow> (e2, Inl er)
           | (e2, Inr _) \<Rightarrow> build_loop cfg sz (e2\<lparr>en_state := Some (after_brick b sz)\<rparr>) (Some b) ds
         else build_loop cfg sz e1 (Some b) ds)"

section \<open>Processing a candle\<close>

definition maybe_publish_size :: "brick_configuration \<Rightarrow> rat \<Rightarrow> engine \<Rightarrow> engine" where
  "maybe_publish_size cfg sz e =
     (if \<not> en_bus e \<or> en_published e = Some sz then e
      else e\<lparr>en_published := Some sz,
             en_events := en_events e @ [BrickSizeUpdated cfg (resolved_provider cfg) sz]\<rparr>)"

definition initialize_first_brick :: "rat \<Rightarrow> rat \<Rightarrow> engine \<Rightarrow> engine" where
  "initialize_first_brick price sz e = e\<lparr>en_pending := Some price, en_boundary := Some price,
     en_state := Some \<lparr>bs_direction = NEUTRAL, bs_last_price = price, bs_brick_size = sz,
       bs_is_open = True, bs_meta = MetaAnchor price\<rparr>\<rparr>"

definition emit_bricks :: "brick_configuration \<Rightarrow> rat \<Rightarrow> brick_data list \<Rightarrow> engine \<Rightarrow> engine \<times> unit result" where
  "emit_bricks cfg sz ds e =
     (if ds = [] then (e, Inr ())
      else if \<not> en_bus e \<and> en_builder e = TraditionalBuilder then append_fast ds sz e
      else build_loop cfg sz e None ds)"

text \<open>The part of \<open>process_market_data\<close> after the provider has given a size.\<close>

definition engine_advance :: "brick_configuration \<Rightarrow> rat \<Rightarrow> candle \<Rightarrow> engine \<Rightarrow> engine \<times> unit result" where
  "engine_advance cfg sz c e = (case select_price c (cfg_price_source cfg) of
       Inl er \<Rightarrow> (e, Inl er)
     | Inr price \<Rightarrow> (case stamp c of
         None \<Rightarrow> (e, Inl KeyError)
       | Some t \<Rightarrow>
           if en_pending e = None then (initialize_first_brick price sz e, Inr ())
           else case generate_bricks price t sz e of
             (e1, Inl er) \<Rightarrow> (e1, Inl er)
           | (e1, Inr ds) \<Rightarrow> emit_bricks cfg sz ds e1))"

definition is_running :: "engine \<Rightarrow> bool" where
  "is_running e \<longleftrightarrow> (case en_state e of None \<Rightarrow> False | Some st \<Rightarrow> bs_is_open st)"

definition process_market_data :: "time \<Rightarrow> engine \<Rightarrow> candle \<Rightarrow> engine \<times> unit result" where
  "process_market_data now e c = (case en_config e of
       None \<Rightarrow> (e, Inl RuntimeError)
     | Some cfg \<Rightarrow> (case en_provider e of
         None \<Rightarrow> (e, Inl RuntimeError)
       | Some p \<Rightarrow>
           (let e1 = (if is_running e then e else fst (engine_start now e));
                (p', r) = provider_update p c;
                e2 = e1\<lparr>en_provider := Some p'\<rparr>
            in case r of
                 Inl er \<Rightarrow> (e2, Inl er)
               | Inr _ \<Rightarrow>
                   if \<not> provider_ready p' then (e2, Inr ())
                   else (case provider_size p' of
                       Inl er \<Rightarrow> (e2, Inl er)
                     | Inr sz \<Rightarrow> engine_advance cfg sz c (maybe_publish_size cfg sz e2)))))"

text \<open>\<open>get_snapshot\<close>: configuration, state, brick count.\<close>

definition get_snapshot :: "engine \<Rightarrow> (brick_configuration \<times> brick_state \<times> nat) result" where
  "get_snapshot e = (case (en_config e, en_state e) of
       (Some cfg, Some st) \<Rightarrow> Inr (cfg, st, length (en_history e))
     | _ \<Rightarrow> Inl RuntimeError)"

section \<open>What the operations leave alone\<close>

lemma generate_bricks_frame [frame_simps]:
  "en_config (fst (generate_bricks price t sz e)) = en_config e"
  "en_bus (fst (generate_bricks price t sz e)) = en_bus e"
  "en_injected (fst (generate_bricks price t sz e)) = en_injected e"
  "en_provider (fst (generate_bricks price t sz e)) = en_provider e"
  "en_builder (fst (generate_bricks price t sz e)) = en_builder e"
  by (auto simp: generate_bricks_def Let_def split: option.split sum.split)

lemma fast_loop_frame [frame_simps]:
  "en_config (fst (fast_loop cfg sz e prev ds)) = en_config e"
  "en_bus (fst (fast_loop cfg sz e prev ds)) = en_bus e"
  "en_injected (fst (fast_loop cfg sz e prev ds)) = en_injected e"
  "en_provider (fst (fast_loop cfg sz e prev ds)) = en_provider e"
  "en_builder (fst (fast_loop cfg sz e prev ds)) = en_builder e"
  by (induction cfg sz e prev ds rule: fast_loop.induct) (auto split: option.split sum.split)

lemma publish_brick_event_frame [frame_simps]:
  "en_config (fst (publish_brick_event ev b e)) = en_config e"
  "en_bus (fst (publish_brick_event ev b e)) = en_bus e"
  "en_injected (fst (publish_brick_event ev b e)) = en_injected e"
  "en_provider (fst (publish_brick_event ev b e)) = en_provider e"
  "en_builder (fst (publish_brick_event ev b e)) = en_builder e"
  by (auto simp: publish_brick_event_def Let_def split: option.split)

definition same_wiring :: "engine \<Rightarrow> engine \<Rightarrow> bool" where
  "same_wiring e e' \<longleftrightarrow> en_config e' = en_config e \<and> en_bus e' = en_bus e \<and>
     en_injected e' = en_injected e \<and> en_provider e' = en_provider e \<and>
     builder_name (en_builder e') = builder_name (en_builder e)"

lemma build_brick_name: "build_brick u d cfg = (u', b) \<Longrightarrow> builder_name u' = builder_name u"
  by (cases u) (auto simp: Let_def)

lemma build_loop_wiring: "same_wiring e (fst (build_loop cfg sz e prev ds))"
proof (induction ds arbitrary: e prev)
  case Nil
  then show ?case by (simp add: same_wiring_def split: option.split)
next
  case (Cons d ds)
  obtain u b where b: "build_brick (en_builder e) d cfg = (u, b)" by (cases "build_brick (en_builder e) d cfg")
  define e1 where "e1 = e\<lparr>en_builder := u, en_history := en_history e @ [b]\<rparr>"
  obtain e2 r where p: "publish_brick_event (bd_event d) b e1 = (e2, r)" by fastforce
  have fr: "en_config e2 = en_config e" "en_bus e2 = en_bus e" "en_injected e2 = en_injected e" "en_provider e2 = en_provider e"
    "builder_name (en_builder e2) = builder_name (en_builder e)"
    using build_brick_name [OF b] publish_brick_event_frame [of "bd_event d" b e1] p by (simp_all add: e1_def)
  have step: "build_loop cfg sz e prev (d # ds) = (if en_bus e
     then (case r of Inl er \<Rightarrow> (e2, Inl er)
         | Inr _ \<Rightarrow> build_loop cfg sz (e2\<lparr>en_state := Some (after_brick b sz)\<rparr>) (Some b) ds)
     else build_loop cfg sz e1 (Some b) ds)"
    using b p by (simp add: Let_def e1_def [symmetric] split: sum.split)
  show ?case
    unfolding step using Cons.IH [of "e2\<lparr>en_state := Some (after_brick b sz)\<rparr>" "Some b"] Cons.IH [of e1 "Some b"] fr build_brick_name [OF b]
    by (simp add: same_wiring_def e1_def split: sum.split)
qed

lemma build_loop_frame [frame_simps]:
  "en_config (fst (build_loop cfg sz e prev ds)) = en_config e"
  "en_bus (fst (build_loop cfg sz e prev ds)) = en_bus e"
  "en_injected (fst (build_loop cfg sz e prev ds)) = en_injected e"
  "en_provider (fst (build_loop cfg sz e prev ds)) = en_provider e"
  "builder_name (en_builder (fst (build_loop cfg sz e prev ds))) = builder_name (en_builder e)"
  using build_loop_wiring [of e cfg sz prev ds] by (simp_all add: same_wiring_def)

lemma emit_bricks_frame [frame_simps]:
  "en_config (fst (emit_bricks cfg sz ds e)) = en_config e" "en_bus (fst (emit_bricks cfg sz ds e)) = en_bus e"
  "en_injected (fst (emit_bricks cfg sz ds e)) = en_injected e" "en_provider (fst (emit_bricks cfg sz ds e)) = en_provider e"
  "builder_name (en_builder (fst (emit_bricks cfg sz ds e))) = builder_name (en_builder e)"
  by (simp_all add: emit_bricks_def append_fast_def frame_simps split: option.split)

lemma engine_advance_wiring: "same_wiring e (fst (engine_advance cfg sz c e))"
proof -
  have "same_wiring e (fst (case generate_bricks price t sz e of
      (e1, Inl er) \<Rightarrow> (e1, Inl er) | (e1, Inr ds) \<Rightarrow> emit_bricks cfg sz ds e1))" for price t
    using generate_bricks_frame [of price t sz e]
    by (cases "generate_bricks price t sz e") (auto simp: same_wiring_def frame_simps split: sum.split)
  then show ?thesis
    by (auto simp: engine_advance_def initialize_first_brick_def same_wiring_def split: sum.split option.split)
qed

lemma engine_advance_frame [frame_simps]:
  "en_config (fst (engine_advance cfg sz c e)) = en_config e" "en_bus (fst (engine_advance cfg sz c e)) = en_bus e"
  "en_injected (fst (engine_advance cfg sz c e)) = en_injected e"
  "en_provider (fst (engine_advance cfg sz c e)) = en_provider e"
  "builder_name (en_builder (fst (engine_advance cfg sz c e))) = builder_name (en_builder e)"
  using engine_advance_wiring [of e cfg sz c] by (simp_all add: same_wiring_def)

lemma maybe_publish_size_frame [frame_simps]:
  "en_bus (maybe_publish_size cfg sz e) = en_bus e" "en_config (maybe_publish_size cfg sz e) = en_config e"
  "en_state (maybe_publish_size cfg sz e) = en_state e" "en_builder (maybe_publish_size cfg sz e) = en_builder e"
  "en_history (maybe_publish_size cfg sz e) = en_history e" "en_pending (maybe_publish_size cfg sz e) = en_pending e"
  "en_provider (maybe_publish_size cfg sz e) = en_provider e" "en_injected (maybe_publish_size cfg sz e) = en_injected e"
  "en_boundary (maybe_publish_size cfg sz e) = en_boundary e"
  by (simp_all add: maybe_publish_size_def)

lemma engine_start_frame [frame_simps]:
  "en_config (fst (engine_start now e)) = en_config e" "en_bus (fst (engine_start now e)) = en_bus e"
  "en_injected (fst (engine_start now e)) = en_injected e" "en_provider (fst (engine_start now e)) = en_provider e"
  "en_history (fst (engine_start now e)) = en_history e" "en_builder (fst (engine_start now e)) = en_builder e"
  "en_pending (fst (engine_start now e)) = en_pending e"
  by (simp_all add: engine_start_def split: option.split)

lemma engine_stop_frame [frame_simps]:
  "en_config (engine_stop now e) = en_config e" "\<not> is_running (engine_stop now e)"
  "en_history (engine_stop now e) = en_history e" "en_provider (engine_stop now e) = en_provider e"
  by (simp_all add: engine_stop_def is_running_def split: option.split)

lemma process_frame [frame_simps]:
  "en_config (fst (process_market_data now e c)) = en_config e" "en_bus (fst (process_market_data now e c)) = en_bus e"
  "en_injected (fst (process_market_data now e c)) = en_injected e"
  "builder_name (en_builder (fst (process_market_data now e c))) = builder_name (en_builder e)"
  by (auto simp: process_market_data_def Let_def frame_simps split: option.split sum.split prod.split)

text \<open>The provider after a candle is the provider updated with it.\<close>

lemma process_provider:
  "en_config e \<noteq> None \<Longrightarrow> en_provider e = Some p \<Longrightarrow>
     en_provider (fst (process_market_data now e c)) = Some (fst (provider_update p c))"
  by (auto simp: process_market_data_def Let_def frame_simps split: option.split sum.split prod.split)

end
