(* ===== verification/Registry.thy ===== *)
theory Registry imports Prelude begin

text \<open>
  The name-keyed registries. \<open>BrickSizeProviderRegistry\<close>, \<open>PriceReferenceStrategyRegistry\<close>,
  \<open>BrickBuilderRegistry\<close>, \<open>RenkoRegistry\<close> and \<open>ChartRegistry\<close> have the same four operations over
  one insertion-ordered dictionary: registering a taken name raises \<open>ValueError\<close>, reading an
  unknown one \<open>KeyError\<close>. Their contract is the locale \<open>name_registry\<close>.
\<close>

definition register :: "'k \<Rightarrow> 'v \<Rightarrow> ('k, 'v) dict \<Rightarrow> ('k, 'v) dict result" where
  "register k v r = (if dget r k \<noteq> None then Inl ValueError else Inr (dset k v r))"

definition registry_get :: "('k, 'v) dict \<Rightarrow> 'k \<Rightarrow> 'v result" where
  "registry_get r k = (case dget r k of None \<Rightarrow> Inl KeyError | Some v \<Rightarrow> Inr v)"

definition registry_exists :: "('k, 'v) dict \<Rightarrow> 'k \<Rightarrow> bool" where
  "registry_exists r k \<longleftrightarrow> dget r k \<noteq> None"

definition registry_names :: "('k, 'v) dict \<Rightarrow> 'k list" where
  "registry_names r = dkeys r"

definition registry_all :: "('k, 'v) dict \<Rightarrow> 'v list" where
  "registry_all r = dvals r"

fun register_all :: "('k \<times> 'v) list \<Rightarrow> ('k, 'v) dict \<Rightarrow> ('k, 'v) dict result" where
  "register_all [] r = Inr r"
| "register_all ((k, v) # kvs) r = rbind (register k v r) (register_all kvs)"

locale name_registry =
  fixes reg :: "'k \<Rightarrow> 'v \<Rightarrow> 'r \<Rightarrow> 'r result"
    and find :: "'r \<Rightarrow> 'k \<Rightarrow> 'v result"
    and known :: "'r \<Rightarrow> 'k \<Rightarrow> bool"
    and names :: "'r \<Rightarrow> 'k list"
  assumes known_iff: "known r k \<longleftrightarrow> (\<exists>v. find r k = Inr v)"
    and find_unknown: "\<not> known r k \<Longrightarrow> find r k = Inl KeyError"
    and reg_taken: "known r k \<Longrightarrow> reg k v r = Inl ValueError"
    and reg_free: "\<not> known r k \<Longrightarrow> \<exists>r'. reg k v r = Inr r'"
    and find_reg: "reg k v r = Inr r' \<Longrightarrow> find r' k' = (if k' = k then Inr v else find r k')"
    and names_reg: "reg k v r = Inr r' \<Longrightarrow> names r' = names r @ [k]"
begin

lemma reg_Inr_iff: "(\<exists>r'. reg k v r = Inr r') \<longleftrightarrow> \<not> known r k"
  using reg_taken [of r k v] reg_free [of r k v] by fastforce

lemma known_reg: "reg k v r = Inr r' \<Longrightarrow> known r' k' \<longleftrightarrow> k' = k \<or> known r k'"
  by (simp add: known_iff find_reg)

text \<open>A registered component is never replaced.\<close>

lemma find_stable: "reg k v r = Inr r' \<Longrightarrow> find r k' = Inr w \<Longrightarrow> find r' k' = Inr w"
  using find_reg [of k v r r' k'] reg_taken [of r k v] known_iff [of r k] by (cases "k' = k") auto

end

interpretation regs: name_registry register registry_get registry_exists registry_names
  by unfold_locales
    (auto simp: register_def registry_get_def registry_exists_def registry_names_def dget_dset
      dset_new split: option.splits if_splits)

lemma register_all_distinct:
  "distinct (map fst kvs) \<Longrightarrow> (\<forall>k\<in>set (map fst kvs). dget r k = None) \<Longrightarrow> register_all kvs r = Inr (r @ kvs)"
proof (induction kvs arbitrary: r)
  case (Cons kv kvs)
  obtain k v where kv: "kv = (k, v)" by (cases kv)
  have "register k v r = Inr (r @ [(k, v)])"
    using Cons.prems by (simp add: kv register_def dset_new)
  moreover have "\<forall>k'\<in>set (map fst kvs). dget (r @ [(k, v)]) k' = None"
    using Cons.prems by (auto simp: kv)
  ultimately show ?case using Cons by (simp add: kv)
qed simp

text \<open>Registering a list of components under distinct, unused names succeeds and keeps them in order,
  each found under its name: this is how every default registry of the repository is built.\<close>

theorem register_all_finds:
  assumes "distinct (map fst kvs)" and "\<forall>k\<in>set (map fst kvs). \<not> registry_exists r k"
  shows "\<exists>r'. register_all kvs r = Inr r' \<and> registry_names r' = registry_names r @ map fst kvs \<and>
    list_all (\<lambda>(k, v). registry_get r' k = Inr v) kvs \<and>
    (\<forall>k. k \<notin> set (map fst kvs) \<longrightarrow> registry_get r' k = registry_get r k)"
proof -
  have "register_all kvs r = Inr (r @ kvs)"
    using assms by (intro register_all_distinct) (auto simp: registry_exists_def)
  moreover have "registry_get (r @ kvs) k = Inr v" if "(k, v) \<in> set kvs" for k v
  proof -
    have "dget r k = None"
      using assms(2) that unfolding registry_exists_def by (metis fst_conv image_eqI list.set_map)
    moreover have "dget kvs k = Some v" using assms(1) that by simp
    ultimately show ?thesis by (simp add: registry_get_def map_add_def)
  qed
  moreover have "registry_get (r @ kvs) k = registry_get r k" if "k \<notin> set (map fst kvs)" for k
  proof -
    have "dget kvs k = None" using that by (simp add: map_of_eq_None_iff)
    then show ?thesis by (simp add: registry_get_def map_add_def split: option.split)
  qed
  ultimately show ?thesis
    by (intro exI [of _ "r @ kvs"]) (auto simp: registry_names_def list_all_iff)
qed

theorem register_all_finds_witness:
  "\<exists>r'. register_all [(''a'', 1 :: int), (''b'', 2)] [] = Inr r' \<and> registry_names r' = [''a'', ''b'']"
proof -
  have "distinct (map fst [(''a'', 1 :: int), (''b'', 2)])"
    "\<forall>k\<in>set (map fst [(''a'', 1 :: int), (''b'', 2)]). \<not> registry_exists ([] :: (pystr, int) dict) k"
    "registry_names ([] :: (pystr, int) dict) = []"
    by (simp_all add: registry_exists_def registry_names_def)
  from register_all_finds [OF this(1,2)] this(3) show ?thesis
    by (elim exE conjE) (intro exI conjI, assumption, simp)
qed

end
