(* ===== verification/RenkoFactory.thy ===== *)
theory RenkoFactory imports RenkoEngine Registry begin

text \<open>
  Wiring a Renko engine: the default registries, the factory (\<open>chart/renko/factory.py\<close>), the
  validator (\<open>chart/renko/validator.py\<close>) and the pipeline stage (\<open>chart/renko/pipeline.py\<close>).
  A registry argument that may be \<open>None\<close> is an option.
\<close>

section \<open>The default registries\<close>

type_synonym provider_factory = "brick_configuration \<Rightarrow> provider result"
type_synonym strategy_factory = "brick_configuration \<Rightarrow> price_strategy"
type_synonym builder_factory = "brick_configuration \<Rightarrow> builder"

definition fixed_from_configuration :: "brick_configuration \<Rightarrow> leaf_provider result" where
  "fixed_from_configuration c = new_fixed (cfg_brick_size c)"

definition default_provider_registry :: "(pystr, provider_factory) dict result" where
  "default_provider_registry = register_all
     [(''fixed'', \<lambda>c. map_sum id Leaf (fixed_from_configuration c)),
      (''atr'', \<lambda>c. map_sum id Leaf (atr_from_configuration c)),
      (''percentage'', \<lambda>c. map_sum id Leaf (pct_from_configuration c)),
      (''adaptive'', adaptive_from_configuration)] []"

definition default_strategy_registry :: "(pystr, strategy_factory) dict result" where
  "default_strategy_registry = register_all (map (\<lambda>(n, s). (n, \<lambda>c. s)) builtin_strategies) []"

definition default_builder_registry :: "(pystr, builder_factory) dict result" where
  "default_builder_registry = register_all
     [(''traditional'', \<lambda>c. TraditionalBuilder), (''hybrid'', \<lambda>c. HybridBuilder 0)] []"

definition provider_registry_create :: "(pystr, provider_factory) dict \<Rightarrow> brick_configuration \<Rightarrow> provider result" where
  "provider_registry_create r c = rbind (registry_get r (resolved_provider c)) (\<lambda>f. f c)"

definition strategy_registry_create :: "(pystr, strategy_factory) dict \<Rightarrow> brick_configuration \<Rightarrow> price_strategy result" where
  "strategy_registry_create r c = rbind (resolved_reference_strategy c) (\<lambda>n.
     if \<not> registry_exists r n then Inl RenkoConfigurationError
     else rbind (registry_get r n) (\<lambda>f. Inr (f c)))"

definition builder_registry_create :: "(pystr, builder_factory) dict \<Rightarrow> brick_configuration \<Rightarrow> builder result" where
  "builder_registry_create r c = rbind (registry_get r (resolved_builder c)) (\<lambda>f. Inr (f c))"

text \<open>\<open>RenkoRegistry.lookup\<close>: engines by the value of the brick type.\<close>

fun brick_type_value :: "brick_type \<Rightarrow> pystr" where
  "brick_type_value BT_TRADITIONAL = ''traditional''"
| "brick_type_value BT_ATR = ''atr''"
| "brick_type_value BT_PERCENTAGE = ''percentage''"
| "brick_type_value BT_MEAN = ''mean''"
| "brick_type_value BT_MEDIAN = ''median''"
| "brick_type_value BT_HYBRID = ''hybrid''"
| "brick_type_value BT_AI = ''ai''"

definition engine_lookup :: "(pystr, engine) dict \<Rightarrow> brick_configuration \<Rightarrow> engine result" where
  "engine_lookup r c = registry_get r (brick_type_value (cfg_brick_type c))"

section \<open>The factory\<close>

text \<open>\<open>set_price_reference_strategy\<close>: only the percentage provider has it.\<close>

fun inject_strategy :: "price_strategy \<Rightarrow> provider \<Rightarrow> provider" where
  "inject_strategy s (Leaf (PctProvider p)) = Leaf (PctProvider (p\<lparr>pct_strategy := s\<rparr>))"
| "inject_strategy s p = p"

fun takes_strategy :: "provider \<Rightarrow> bool" where
  "takes_strategy (Leaf (PctProvider p)) = True"
| "takes_strategy p = False"

definition leaf_child :: "(pystr, provider_factory) dict \<Rightarrow> brick_configuration \<Rightarrow> pystr \<Rightarrow> leaf_provider result" where
  "leaf_child r c name = rbind (rbind (registry_get r name) (\<lambda>f. f c)) (\<lambda>p.
     case p of Leaf l \<Rightarrow> Inr l | Adaptive a \<Rightarrow> Inl RenkoConfigurationError)"

text \<open>
  \<open>_inject_sub_providers\<close>: the three children of the adaptive provider are built again from the
  registry, in the order low, medium, high, and replace the ones it built itself.
\<close>

fun inject_sub_providers :: "(pystr, provider_factory) dict \<Rightarrow> brick_configuration \<Rightarrow> provider \<Rightarrow> provider result" where
  "inject_sub_providers r c (Leaf l) = Inr (Leaf l)"
| "inject_sub_providers r c (Adaptive a) =
     rbind (leaf_child r c ''fixed'') (\<lambda>low.
     rbind (leaf_child r c ''percentage'') (\<lambda>medium.
     rbind (leaf_child r c ''atr'') (\<lambda>high.
       Inr (Adaptive (a\<lparr>ad_low := low, ad_medium := medium, ad_high := high\<rparr>)))))"

definition build_provider :: "(pystr, provider_factory) dict \<Rightarrow> (pystr, strategy_factory) dict option
    \<Rightarrow> brick_configuration \<Rightarrow> provider result" where
  "build_provider pr sr c = rbind (provider_registry_create pr c) (\<lambda>p.
     rbind (case sr of
         None \<Rightarrow> Inr p
       | Some s \<Rightarrow> if takes_strategy p
           then rbind (strategy_registry_create s c) (\<lambda>st. Inr (inject_strategy st p)) else Inr p)
       (inject_sub_providers pr c))"

text \<open>\<open>RenkoFactory.create\<close>: the registered engine itself is rewired and returned.\<close>

definition factory_create :: "(pystr, engine) dict \<Rightarrow> (pystr, provider_factory) dict option
    \<Rightarrow> (pystr, strategy_factory) dict option \<Rightarrow> (pystr, builder_factory) dict option
    \<Rightarrow> brick_configuration \<Rightarrow> (pystr, engine) dict \<times> engine result" where
  "factory_create er pr sr br c = (case engine_lookup er c of
       Inl x \<Rightarrow> (er, Inl x)
     | Inr e \<Rightarrow>
        (let name = brick_type_value (cfg_brick_type c);
             r1 = (case pr of
                 None \<Rightarrow> Inr e
               | Some p \<Rightarrow> rbind (build_provider p sr c) (\<lambda>q. Inr (set_brick_size_provider q e)))
         in case r1 of
              Inl x \<Rightarrow> (er, Inl x)
            | Inr e1 \<Rightarrow>
               (case br of
                  None \<Rightarrow> (dset name e1 er, Inr e1)
                | Some b \<Rightarrow> (case builder_registry_create b c of
                    Inl x \<Rightarrow> (dset name e1 er, Inl x)
                  | Inr u \<Rightarrow> (dset name (set_brick_builder u e1) er, Inr (set_brick_builder u e1))))))"

section \<open>The validator\<close>

definition validate_adaptive :: "brick_configuration \<Rightarrow> unit result" where
  "validate_adaptive c =
     rbind (require (0 < cfg_brick_size c) RenkoConfigurationError) (\<lambda>_.
     rbind (require (case cfg_percentage c of None \<Rightarrow> False | Some p \<Rightarrow> 0 < p) RenkoConfigurationError) (\<lambda>_.
     rbind (require (case cfg_atr_period c of None \<Rightarrow> False | Some n \<Rightarrow> 0 < n) RenkoConfigurationError) (\<lambda>_.
     rbind (require (case cfg_adaptive_window c of None \<Rightarrow> True | Some n \<Rightarrow> 0 < n) RenkoConfigurationError) (\<lambda>_.
     rbind (require (case cfg_adaptive_hysteresis c of None \<Rightarrow> True | Some h \<Rightarrow> 0 \<le> h) RenkoConfigurationError) (\<lambda>_.
       case cfg_adaptive_thresholds c of
         None \<Rightarrow> Inr ()
       | Some [t1, t2] \<Rightarrow> require (t1 < t2 \<and> 0 < t1) RenkoConfigurationError
       | Some _ \<Rightarrow> Inl RenkoConfigurationError)))))"

definition positive_percentage :: "brick_configuration \<Rightarrow> unit result" where
  "positive_percentage c = require (case cfg_percentage c of None \<Rightarrow> False | Some p \<Rightarrow> 0 < p) RenkoConfigurationError"

definition validate_brick_type :: "brick_configuration \<Rightarrow> unit result" where
  "validate_brick_type c = (case cfg_brick_type c of
       BT_MEAN \<Rightarrow> require (case cfg_mean_lookback c of None \<Rightarrow> False | Some n \<Rightarrow> 0 < n) RenkoConfigurationError
     | BT_MEDIAN \<Rightarrow> require (case cfg_median_lookback c of None \<Rightarrow> False | Some n \<Rightarrow> 0 < n) RenkoConfigurationError
     | BT_HYBRID \<Rightarrow> require (case cfg_hybrid_weight c of None \<Rightarrow> False | Some w \<Rightarrow> 0 \<le> w \<and> w \<le> 1) RenkoConfigurationError
     | BT_AI \<Rightarrow> require (truthy (cfg_ai_model c)) RenkoConfigurationError
     | _ \<Rightarrow> Inr ())"

definition validate_sizing :: "brick_configuration \<Rightarrow> unit result" where
  "validate_sizing c =
     rbind (if cfg_brick_type c = BT_ATR then
        rbind (require (case cfg_atr_period c of None \<Rightarrow> False | Some n \<Rightarrow> 0 < n) RenkoConfigurationError) (\<lambda>_.
        require (case cfg_atr_multiplier c of None \<Rightarrow> True | Some m \<Rightarrow> 0 < m) RenkoConfigurationError)
      else Inr ()) (\<lambda>_.
     rbind (if cfg_brick_type c = BT_PERCENTAGE then positive_percentage c else Inr ()) (\<lambda>_.
     if resolved_provider c = ''percentage'' then
        rbind (positive_percentage c) (\<lambda>_.
        rbind (require (the (cfg_percentage c) \<le> 100) RenkoConfigurationError) (\<lambda>_.
        rbind (require (case cfg_minimum_brick_size c of None \<Rightarrow> True | Some m \<Rightarrow> 0 < m) RenkoConfigurationError) (\<lambda>_.
        rbind (require (case cfg_reference_price c of None \<Rightarrow> False | Some r \<Rightarrow> is_reference_price r) RenkoConfigurationError) (\<lambda>_.
        require (is_rounding_mode (cfg_rounding_mode c)) RenkoConfigurationError))))
     else Inr ()))"

definition validate_configuration :: "(pystr, provider_factory) dict option
    \<Rightarrow> (pystr, strategy_factory) dict option \<Rightarrow> (pystr, builder_factory) dict option
    \<Rightarrow> brick_configuration \<Rightarrow> unit result" where
  "validate_configuration pr sr br c =
     rbind (require (0 < cfg_brick_size c) InvalidBrickSize) (\<lambda>_.
     rbind (require (is_price_source (cfg_price_source c)) RenkoConfigurationError) (\<lambda>_.
     rbind (require (is_renko_mode (cfg_mode c)) UnsupportedRenkoMode) (\<lambda>_.
     rbind (validate_sizing c) (\<lambda>_.
     rbind (validate_brick_type c) (\<lambda>_.
     rbind (case pr of None \<Rightarrow> Inr ()
       | Some r \<Rightarrow> require (registry_exists r (resolved_provider c)) RenkoConfigurationError) (\<lambda>_.
     rbind (case sr of None \<Rightarrow> Inr ()
       | Some r \<Rightarrow> rbind (resolved_reference_strategy c) (\<lambda>n.
           require (registry_exists r n) RenkoConfigurationError)) (\<lambda>_.
     rbind (case br of None \<Rightarrow> Inr ()
       | Some r \<Rightarrow> require (registry_exists r (resolved_builder c)) RenkoConfigurationError) (\<lambda>_.
     if resolved_provider c = ''adaptive'' then validate_adaptive c else Inr ()))))))))"

text \<open>\<open>validate_data\<close> on the candle mapping (\<open>None\<close>: no market data), and \<open>validate_transition\<close>.\<close>

definition validate_data :: "candle option \<Rightarrow> unit result" where
  "validate_data m = (case m of
       None \<Rightarrow> Inl ValidationFailed
     | Some c \<Rightarrow>
         rbind (require (stamp c \<noteq> None) ValidationFailed) (\<lambda>_.
         require (list_ex (\<lambda>f. prices c f \<noteq> None) [F_OPEN, F_HIGH, F_LOW, F_CLOSE]) ValidationFailed))"

definition validate_transition :: "brick_state option \<Rightarrow> brick_state option \<Rightarrow> unit result" where
  "validate_transition s t = (case (s, t) of
       (Some a, Some b) \<Rightarrow> require (bs_brick_size a = bs_brick_size b) ValidationFailed
     | _ \<Rightarrow> Inl ValidationFailed)"

section \<open>The pipeline stage\<close>

datatype stage_status = SUCCESS | FAILED | SKIPPED

datatype stage_event = ValidationFailedEvent brick_configuration py_error
  | EngineStarted brick_configuration | EngineStopped brick_configuration

text \<open>
  \<open>RenkoPipelineStage.execute\<close>. An exception of the engine propagates out of the stage (the
  pipeline's retry loop catches it); the events published until then stay published. The registry of
  engines the factory leaves is not returned.
\<close>

definition stage_execute :: "time \<Rightarrow> (pystr, engine) dict \<Rightarrow> (pystr, provider_factory) dict option
    \<Rightarrow> (pystr, strategy_factory) dict option \<Rightarrow> (pystr, builder_factory) dict option
    \<Rightarrow> brick_configuration option \<Rightarrow> candle option \<Rightarrow> stage_event list \<times> (stage_status \<times> engine option) result" where
  "stage_execute now er pr sr br config data = (case (config, data) of
       (Some c, Some m) \<Rightarrow>
         (case rbind (validate_configuration pr sr br c) (\<lambda>_. validate_data (Some m)) of
            Inl x \<Rightarrow> ([ValidationFailedEvent c x], Inr (FAILED, None))
          | Inr _ \<Rightarrow>
             (case snd (factory_create er pr sr br c) of
                Inl x \<Rightarrow> ([], Inl x)
              | Inr e \<Rightarrow> (case configure c e of
                  (_, Inl x) \<Rightarrow> ([], Inl x)
                | (e1, Inr _) \<Rightarrow>
                    (case process_market_data now (fst (engine_start now e1)) m of
                       (_, Inl x) \<Rightarrow> ([EngineStarted c], Inl x)
                     | (e2, Inr _) \<Rightarrow> ([EngineStarted c, EngineStopped c],
                         Inr (SUCCESS, Some (engine_stop now e2)))))))
     | _ \<Rightarrow> ([], Inr (SKIPPED, None)))"

section \<open>Properties\<close>

definition default_providers :: "(pystr, provider_factory) dict" where
  "default_providers = [(''fixed'', \<lambda>c. map_sum id Leaf (fixed_from_configuration c)),
      (''atr'', \<lambda>c. map_sum id Leaf (atr_from_configuration c)),
      (''percentage'', \<lambda>c. map_sum id Leaf (pct_from_configuration c)),
      (''adaptive'', adaptive_from_configuration)]"

definition default_strategies :: "(pystr, strategy_factory) dict" where
  "default_strategies = map (\<lambda>(n, s). (n, \<lambda>c. s)) builtin_strategies"

definition default_builders :: "(pystr, builder_factory) dict" where
  "default_builders = [(''traditional'', \<lambda>c. TraditionalBuilder), (''hybrid'', \<lambda>c. HybridBuilder 0)]"

lemma default_registries:
  "default_provider_registry = Inr default_providers"
  "default_strategy_registry = Inr default_strategies"
  "default_builder_registry = Inr default_builders"
  by (simp_all add: default_provider_registry_def default_providers_def default_strategy_registry_def
      default_strategies_def default_builder_registry_def default_builders_def builtin_strategies_def
      register_def dset_new)

lemma provider_registry_create_default:
  "provider_registry_create default_providers c = create_provider c"
  by (simp add: provider_registry_create_def registry_get_def default_providers_def create_provider_def
      fixed_from_configuration_def)

lemma builder_registry_create_default:
  "builder_registry_create default_builders c = create_builder c"
  by (simp add: builder_registry_create_def registry_get_def default_builders_def create_builder_def)

lemma default_strategies_get: "dget default_strategies n = map_option (\<lambda>s c. s) (dget builtin_strategies n)"
  by (simp add: default_strategies_def map_of_map [of "\<lambda>s c. s"])

lemma strategy_registry_create_default:
  "strategy_registry_create default_strategies c = create_strategy c"
  by (auto simp: strategy_registry_create_def create_strategy_def registry_exists_def registry_get_def
      default_strategies_get intro!: rbind_cong split: option.split)

lemma leaf_child_default:
  "leaf_child default_providers c ''fixed'' = new_fixed (cfg_brick_size c)"
  "leaf_child default_providers c ''percentage'' = pct_from_configuration c"
  "leaf_child default_providers c ''atr'' = atr_from_configuration c"
  by (simp_all add: leaf_child_def registry_get_def default_providers_def fixed_from_configuration_def
      map_sum_def split: sum.split)

lemma new_pct_strategy: "new_pct pc (Some s) None mode mn = Inr (PctProvider p) \<Longrightarrow> pct_strategy p = s"
  by (cases pc) (auto simp: new_pct_def rbind_Inr_iff split: if_splits)

lemma pct_strategy_created:
  "pct_from_configuration c = Inr (PctProvider p) \<Longrightarrow> create_strategy c = Inr (pct_strategy p)"
  by (auto simp: pct_from_configuration_def rbind_Inr_iff dest: new_pct_strategy)

lemma fixed_atr_kind:
  "new_fixed s = Inr l \<Longrightarrow> \<exists>x. l = FixedProvider x"
  "atr_from_configuration c = Inr l \<Longrightarrow> \<exists>x. l = AtrProvider x"
  by (auto simp: new_fixed_def atr_from_configuration_def new_atr_def split: if_splits option.splits)

lemma new_adaptive_children:
  "new_adaptive l m h w ts hy = Inr p \<Longrightarrow> \<exists>a. p = Adaptive a \<and> ad_low a = l \<and> ad_medium a = m \<and> ad_high a = h"
  by (auto simp: new_adaptive_def split: list.splits if_splits)

text \<open>Injecting the strategy and the adaptive children through the factory is redundant with the default
  registries: the provider the factory builds is the provider the registry creates, errors included.\<close>

theorem factory_provider_is_registry_provider:
  "build_provider default_providers (Some default_strategies) c = create_provider c"
proof (cases "create_provider c")
  case (Inl e)
  then show ?thesis by (simp add: build_provider_def provider_registry_create_default)
next
  case (Inr p)
  then show ?thesis
  proof (cases rule: create_provider_cases)
    case (leaf l)
    show ?thesis
    proof (cases l)
      case (PctProvider q)
      then have "pct_from_configuration c = Inr (PctProvider q)" using leaf fixed_atr_kind by blast
      with PctProvider Inr leaf pct_strategy_created [of c q] show ?thesis
        by (simp add: build_provider_def provider_registry_create_default strategy_registry_create_default)
    qed (use leaf Inr in \<open>simp_all add: build_provider_def provider_registry_create_default\<close>)
  next
    case (adaptive l m h w ts hy)
    then obtain a where "p = Adaptive a" "ad_low a = l" "ad_medium a = m" "ad_high a = h"
      using new_adaptive_children by blast
    with Inr adaptive show ?thesis
      by (auto simp: build_provider_def provider_registry_create_default leaf_child_default)
  qed
qed

text \<open>A configuration the validator accepts (with the default registries) can be built, for the providers
  it checks the parameters of: the registry creates a well-formed provider and a builder. An ATR provider is
  checked only under the ATR brick type.\<close>

theorem validated_configuration_builds:
  assumes "validate_configuration (Some default_providers) (Some default_strategies) (Some default_builders) c = Inr ()"
    and "resolved_provider c = ''atr'' \<Longrightarrow> cfg_brick_type c = BT_ATR" and "resolved_provider c \<noteq> ''adaptive''"
  shows "(\<exists>p. create_provider c = Inr p \<and> wf_provider p) \<and> (\<exists>u. create_builder c = Inr u)"
proof -
  have v: "0 < cfg_brick_size c" "validate_sizing c = Inr ()"
    "registry_exists default_providers (resolved_provider c)" "registry_exists default_builders (resolved_builder c)"
    "\<exists>n. resolved_reference_strategy c = Inr n \<and> registry_exists default_strategies n"
    using assms(1) by (auto simp: validate_configuration_def rbind_Inr_iff split: if_splits)
  have u: "\<exists>u. create_builder c = Inr u"
    using v(4) by (auto simp: create_builder_def registry_exists_def default_builders_def split: if_splits)
  obtain s where s: "create_strategy c = Inr s"
    using v(5) by (auto simp: create_strategy_def registry_exists_def default_strategies_get)
  consider "resolved_provider c = ''fixed''" | "resolved_provider c = ''atr''" | "resolved_provider c = ''percentage''"
    using v(3) assms(3) by (auto simp: registry_exists_def default_providers_def split: if_splits)
  then have "\<exists>p. create_provider c = Inr p"
  proof cases
    case 1
    with v(1) show ?thesis by (simp add: create_provider_def new_fixed_def)
  next
    case 2
    with v(2) assms(2) show ?thesis
      by (auto simp: create_provider_def validate_sizing_def rbind_Inr_iff atr_from_configuration_def new_atr_def
          split: option.splits if_splits)
  next
    case 3
    with v(2) have "positive_percentage c = Inr ()" "the (cfg_percentage c) \<le> 100"
      "case cfg_minimum_brick_size c of None \<Rightarrow> True | Some m \<Rightarrow> 0 < m" "is_rounding_mode (cfg_rounding_mode c)"
      by (auto simp: validate_sizing_def rbind_Inr_iff)
    with 3 s show ?thesis
      by (auto simp: create_provider_def pct_from_configuration_def new_pct_def positive_percentage_def
          coerce_rounding_mode_def split: option.splits)
  qed
  with u create_provider_wf show ?thesis by blast
qed

definition demo_atr_configuration :: brick_configuration where
  "demo_atr_configuration = (default_configuration BT_ATR 1)\<lparr>cfg_atr_period := Some 2\<rparr>"

theorem validated_configuration_builds_witness:
  "(\<exists>p. create_provider demo_atr_configuration = Inr p \<and> wf_provider p) \<and> (\<exists>u. create_builder demo_atr_configuration = Inr u)"
proof (rule validated_configuration_builds)
  show "validate_configuration (Some default_providers) (Some default_strategies) (Some default_builders)
      demo_atr_configuration = Inr ()"
    by (simp add: demo_atr_configuration_def validate_configuration_def default_configuration_def resolved_provider_def
        validate_sizing_def validate_brick_type_def registry_exists_def default_providers_def
        resolved_reference_strategy_def default_strategies_get builtin_strategies_def default_builders_def resolved_builder_def)
qed (simp_all add: demo_atr_configuration_def default_configuration_def resolved_provider_def)

text \<open>The validator accepts a configuration that names the ATR provider under another brick type without
  any ATR period, and building it raises.\<close>

theorem validator_misses_atr_period:
  "let c = (default_configuration BT_TRADITIONAL 1)\<lparr>cfg_provider := Some ''atr''\<rparr> in
   validate_configuration (Some default_providers) (Some default_strategies) (Some default_builders) c = Inr () \<and>
   create_provider c = Inl RenkoConfigurationError"
  by (simp add: Let_def validate_configuration_def default_configuration_def resolved_provider_def
      validate_sizing_def validate_brick_type_def registry_exists_def default_providers_def
      resolved_reference_strategy_def default_strategies_get builtin_strategies_def default_builders_def resolved_builder_def
      create_provider_def atr_from_configuration_def new_atr_def)

text \<open>The pipeline stage runs an engine only on validated input and always hands it back stopped: it is
  skipped exactly when the configuration or the data is missing, failed exactly when validation raised
  (announcing the error, without an engine), and on success it announced start and stop in that order.\<close>

theorem stage_outcomes:
  assumes "stage_execute now er pr sr br config data = (evs, Inr (status, eng))"
  shows "(status = SKIPPED \<longleftrightarrow> config = None \<or> data = None) \<and>
    (status = FAILED \<longrightarrow> eng = None \<and> (\<exists>c x. evs = [ValidationFailedEvent c x] \<and>
       (validate_configuration pr sr br c = Inl x \<or> validate_data data = Inl x))) \<and>
    (status = SUCCESS \<longrightarrow> (\<exists>c e. config = Some c \<and> eng = Some e \<and> \<not> is_running e \<and> en_config e = Some c \<and>
       evs = [EngineStarted c, EngineStopped c] \<and> validate_configuration pr sr br c = Inr ()))"
proof -
  consider (skip) "config = None \<or> data = None" "status = SKIPPED"
    | (run) c m where "config = Some c" "data = Some m" "status \<noteq> SKIPPED"
        "status = FAILED \<longrightarrow> eng = None \<and> (\<exists>x. evs = [ValidationFailedEvent c x] \<and>
           rbind (validate_configuration pr sr br c) (\<lambda>_. validate_data (Some m)) = Inl x)"
        "status = SUCCESS \<longrightarrow> evs = [EngineStarted c, EngineStopped c] \<and> validate_configuration pr sr br c = Inr () \<and>
           (\<exists>e e1 e2. configure c e = (e1, Inr ()) \<and> e2 = fst (process_market_data now (fst (engine_start now e1)) m) \<and>
             eng = Some (engine_stop now e2))"
    using assms
    by (cases config; cases data)
      (auto simp: stage_execute_def rbind_Inr_iff split: sum.splits prod.splits, metis fst_conv)
  then show ?thesis
  proof cases
    case skip
    then show ?thesis by auto
  next
    case run
    have conf: "en_config e1 = Some c" if "configure c e = (e1, Inr ())" for e e1
      using that by (auto simp: configure_def Let_def split: if_splits sum.splits)
    show ?thesis
      using run conf by (auto simp: rbind_Inl_iff frame_simps)
  qed
qed

definition demo_registry :: "(pystr, engine) dict" where
  "demo_registry = [(''traditional'', new_engine False None None)]"

theorem stage_outcomes_witness:
  "\<exists>evs e. stage_execute 0 demo_registry (Some default_providers) None None (Some (default_configuration BT_TRADITIONAL 1))
     (Some (full_candle 1 5 5 5 5)) = (evs, Inr (SUCCESS, Some e)) \<and> \<not> is_running e"
proof -
  let ?x = "stage_execute 0 demo_registry (Some default_providers) None None (Some (default_configuration BT_TRADITIONAL 1))
     (Some (full_candle 1 5 5 5 5))"
  have h: "map_sum id fst (snd ?x) = Inr SUCCESS"
    by code_simp
  obtain evs r where x: "?x = (evs, r)" by fastforce
  with h obtain eng where "r = Inr (SUCCESS, eng)" by (cases r) auto
  with x have x: "?x = (evs, Inr (SUCCESS, eng))" by simp
  from stage_outcomes [OF x] show ?thesis using x by auto
qed

end
