(* ===== verification/RenkoEngineFacts.thy ===== *)
theory RenkoEngineFacts imports RenkoEngine begin

text \<open>
  What the Renko engine guarantees: the geometry of the bricks it appends, that its three ways of
  appending agree, when bricks appear and when they do not, and what an exception leaves behind.
\<close>

section \<open>The geometry of a run of bricks\<close>

text \<open>
  The abstract view of a brick: direction, open, close, high, low. A chain starts at a price, goes
  one size at a time in one direction, and every brick opens where the one before it closed.
\<close>

fun brick_chain :: "brick_direction \<Rightarrow> rat \<Rightarrow> rat \<Rightarrow> brick list \<Rightarrow> bool" where
  "brick_chain d sz start [] = True"
| "brick_chain d sz start (b # bs) \<longleftrightarrow>
     br_direction b = d \<and> br_open b = start \<and>
     br_close b = (if d = UP then fadd start sz else fsub start sz) \<and>
     br_high b = max (br_open b) (br_close b) \<and> br_low b = min (br_open b) (br_close b) \<and>
     br_volume b = 0 \<and> brick_chain d sz (br_close b) bs"

lemma brick_run_length [simp]: "length (brick_run d sz t opn ev n) = n"
  by (induction n arbitrary: opn ev) (simp_all add: Let_def)

lemma brick_run_eq_Nil [simp]: "brick_run d sz t opn ev n = [] \<longleftrightarrow> n = 0"
  by (cases n) (simp_all add: Let_def)

lemma brick_run_complete:
  "x \<in> set (brick_run d sz t opn ev n) \<Longrightarrow>
     bd_high x = Some (max (bd_open x) (bd_close x)) \<and> bd_low x = Some (min (bd_open x) (bd_close x))"
  by (induction n arbitrary: opn ev) (auto simp: Let_def)

lemma brick_run_events:
  "n \<noteq> 0 \<Longrightarrow> map bd_event (brick_run d sz t opn ev n) = ev # replicate (n - 1) EXTENDED"
  "n \<noteq> 0 \<Longrightarrow> bd_direction (hd (brick_run d sz t opn ev n)) = d"
proof -
  have ext: "map bd_event (brick_run d sz t opn EXTENDED n) = replicate n EXTENDED" for opn n
    by (induction n arbitrary: opn) (simp_all add: Let_def)
  show "n \<noteq> 0 \<Longrightarrow> map bd_event (brick_run d sz t opn ev n) = ev # replicate (n - 1) EXTENDED"
    "n \<noteq> 0 \<Longrightarrow> bd_direction (hd (brick_run d sz t opn ev n)) = d"
    by (cases n; simp add: Let_def ext)+
qed

text \<open>On complete data the in-line construction is the traditional builder's.\<close>

lemma fast_brick_traditional:
  "bd_high d = Some h \<Longrightarrow> bd_low d = Some l \<Longrightarrow> fast_brick d cfg = Inr (traditional_build d cfg)"
  by (simp add: fast_brick_def traditional_build_def Let_def)

text \<open>Building a whole run, and the engine once its bricks are appended.\<close>

fun build_all :: "builder \<Rightarrow> brick_configuration \<Rightarrow> brick_data list \<Rightarrow> builder \<times> brick list" where
  "build_all u cfg [] = (u, [])"
| "build_all u cfg (d # ds) =
     (let (u1, b) = build_brick u d cfg; (u2, bs) = build_all u1 cfg ds in (u2, b # bs))"

lemma build_all_length [simp]: "length (snd (build_all u cfg ds)) = length ds"
  by (induction ds arbitrary: u) (simp_all add: Let_def case_prod_beta)

lemma build_all_traditional:
  "build_all TraditionalBuilder cfg ds = (TraditionalBuilder, map (\<lambda>d. traditional_build d cfg) ds)"
  by (induction ds) simp_all

lemma build_brick_fields:
  "br_direction (snd (build_brick u d cfg)) = bd_direction d"
  "br_open (snd (build_brick u d cfg)) = b64 (bd_open d)"
  "br_close (snd (build_brick u d cfg)) = b64 (bd_close d)"
  "br_high (snd (build_brick u d cfg)) = (case bd_high d of Some h \<Rightarrow> b64 h
     | None \<Rightarrow> max (b64 (bd_open d)) (b64 (bd_close d)))"
  "br_low (snd (build_brick u d cfg)) = (case bd_low d of Some l \<Rightarrow> b64 l
     | None \<Rightarrow> min (b64 (bd_open d)) (b64 (bd_close d)))"
  "br_volume (snd (build_brick u d cfg)) = (case bd_volume d of Some v \<Rightarrow> b64 v | None \<Rightarrow> 0)"
  by (cases u; simp add: traditional_build_def Let_def)+

lemma build_all_chain:
  assumes "isfl opn"
  shows "brick_chain d sz opn (snd (build_all u cfg (brick_run d sz t opn ev n)))"
  using assms
proof (induction n arbitrary: opn ev u)
  case (Suc n)
  let ?cl = "if d = UP then fadd opn sz else fsub opn sz"
  let ?d = "hd (brick_run d sz t opn ev (Suc n))"
  obtain u1 b where b: "build_brick u ?d cfg = (u1, b)" by (cases "build_brick u ?d cfg")
  have cl: "isfl ?cl" by simp
  have fields: "br_direction b = d" "br_open b = opn" "br_close b = ?cl" "br_volume b = 0"
    "br_high b = max opn ?cl" "br_low b = min opn ?cl"
    using build_brick_fields [of u ?d cfg] Suc.prems cl unfolding b
    by (simp_all add: Let_def split: if_splits)
  have "brick_run d sz t opn ev (Suc n) = ?d # brick_run d sz t ?cl EXTENDED n"
    by (simp add: Let_def)
  then have "snd (build_all u cfg (brick_run d sz t opn ev (Suc n))) =
      b # snd (build_all u1 cfg (brick_run d sz t ?cl EXTENDED n))"
    using b by (simp add: Let_def split: prod.split)
  with fields Suc.IH [OF cl, of u1 EXTENDED] show ?case by simp
qed simp

definition with_bricks :: "engine \<Rightarrow> rat \<Rightarrow> builder \<Rightarrow> brick list \<Rightarrow> engine" where
  "with_bricks e sz u bs = e\<lparr>en_builder := u, en_history := en_history e @ bs,
     en_state := (if bs = [] then en_state e else Some (after_brick (last bs) sz))\<rparr>"

lemma with_bricks_simps [simp]:
  "en_bus (with_bricks e sz u bs) = en_bus e" "en_config (with_bricks e sz u bs) = en_config e"
  "en_builder (with_bricks e sz u bs) = u" "en_history (with_bricks e sz u bs) = en_history e @ bs"
  "en_pending (with_bricks e sz u bs) = en_pending e" "en_boundary (with_bricks e sz u bs) = en_boundary e"
  "en_injected (with_bricks e sz u bs) = en_injected e" "en_provider (with_bricks e sz u bs) = en_provider e"
  "en_published (with_bricks e sz u bs) = en_published e" "en_events (with_bricks e sz u bs) = en_events e"
  "en_state (with_bricks e sz u bs) = (if bs = [] then en_state e else Some (after_brick (last bs) sz))"
  by (simp_all add: with_bricks_def)

section \<open>The three ways of appending agree\<close>

definition complete_data :: "brick_data list \<Rightarrow> bool" where
  "complete_data ds \<longleftrightarrow> (\<forall>x\<in>set ds. bd_high x \<noteq> None \<and> bd_low x \<noteq> None)"

lemma complete_data_run [simp]: "complete_data (brick_run d sz t opn ev n)"
  by (auto simp: complete_data_def dest: brick_run_complete)

lemma fast_loop_eq:
  assumes "complete_data ds"
  shows "fast_loop cfg sz e prev ds = (e\<lparr>en_history := en_history e @ map (\<lambda>d. traditional_build d cfg) ds,
     en_state := (if ds = [] then (case prev of None \<Rightarrow> en_state e | Some b \<Rightarrow> Some (after_brick b sz))
       else Some (after_brick (traditional_build (last ds) cfg) sz))\<rparr>, Inr ())"
  using assms
proof (induction ds arbitrary: e prev)
  case Nil
  then show ?case by (simp split: option.split)
next
  case (Cons d ds)
  from Cons.prems obtain h l where "bd_high d = Some h" "bd_low d = Some l"
    by (auto simp: complete_data_def)
  with Cons show ?case
    by (simp add: fast_brick_traditional complete_data_def)
qed

lemma build_loop_quiet:
  assumes "\<not> en_bus e"
  shows "build_loop cfg sz e prev ds =
    (let (u, bs) = build_all (en_builder e) cfg ds in
     (e\<lparr>en_builder := u, en_history := en_history e @ bs,
        en_state := (if ds = [] then (case prev of None \<Rightarrow> en_state e | Some b \<Rightarrow> Some (after_brick b sz))
          else Some (after_brick (last bs) sz))\<rparr>, Inr ()))"
  using assms
proof (induction ds arbitrary: e prev)
  case Nil
  then show ?case by (simp split: option.split)
next
  case (Cons d ds)
  obtain u1 b where b: "build_brick (en_builder e) d cfg = (u1, b)"
    by (cases "build_brick (en_builder e) d cfg")
  obtain u2 bs where bs: "build_all u1 cfg ds = (u2, bs)" by (cases "build_all u1 cfg ds")
  have "length bs = length ds" using build_all_length [of u1 cfg ds] bs by simp
  then have "bs = [] \<longleftrightarrow> ds = []" by auto
  with Cons b bs show ?case by simp
qed

definition brick_event_of :: "brick_event \<Rightarrow> brick_configuration \<Rightarrow> brick_state \<Rightarrow> nat \<Rightarrow> brick \<Rightarrow> renko_event" where
  "brick_event_of ev cfg st n b = (case ev of
       OPENED \<Rightarrow> BrickOpened cfg st n
     | EXTENDED \<Rightarrow> BrickExtended cfg st n b
     | REVERSED \<Rightarrow> BrickReversed cfg st n b)"

text \<open>The events of a run: each carries the state the engine had before its brick.\<close>

fun run_events :: "brick_configuration \<Rightarrow> rat \<Rightarrow> brick_state \<Rightarrow> nat \<Rightarrow> brick_event list \<Rightarrow> brick list \<Rightarrow> renko_event list" where
  "run_events cfg sz st n (v # evs) (b # bs) =
     brick_event_of v cfg st (Suc n) b # run_events cfg sz (after_brick b sz) (Suc n) evs bs"
| "run_events cfg sz st n evs bs = []"

lemma run_events_length [simp]: "length evs = length bs \<Longrightarrow> length (run_events cfg sz st n evs bs) = length bs"
  by (induction cfg sz st n evs bs rule: run_events.induct) auto

lemma build_loop_publishing:
  assumes "en_bus e" "en_config e = Some cfg" "en_state e = Some st"
  shows "build_loop cfg sz e prev ds =
    (let (u, bs) = build_all (en_builder e) cfg ds in
     ((with_bricks e sz u bs)\<lparr>en_events := en_events e @
        run_events cfg sz st (length (en_history e)) (map bd_event ds) bs\<rparr>, Inr ()))"
  using assms
proof (induction ds arbitrary: e prev st)
  case Nil
  then show ?case by (simp add: with_bricks_def split: option.split)
next
  case (Cons d ds)
  obtain u1 b where b: "build_brick (en_builder e) d cfg = (u1, b)"
    by (cases "build_brick (en_builder e) d cfg")
  obtain u2 bs where bs: "build_all u1 cfg ds = (u2, bs)" by (cases "build_all u1 cfg ds")
  let ?e = "e\<lparr>en_builder := u1, en_history := en_history e @ [b],
      en_events := en_events e @ [brick_event_of (bd_event d) cfg st (Suc (length (en_history e))) b],
      en_state := Some (after_brick b sz)\<rparr>"
  have "build_loop cfg sz e prev (d # ds) = build_loop cfg sz ?e (Some b) ds"
    using Cons.prems b by (simp add: publish_brick_event_def Let_def brick_event_of_def)
  also have "\<dots> = ((with_bricks ?e sz u2 bs)\<lparr>en_events := en_events ?e @
        run_events cfg sz (after_brick b sz) (length (en_history ?e)) (map bd_event ds) bs\<rparr>, Inr ())"
    using Cons.IH [of ?e "after_brick b sz"] Cons.prems bs by simp
  finally show ?case
    using b bs by (simp add: with_bricks_def)
qed

lemma emit_bricks_eq:
  assumes "en_config e = Some cfg" "en_state e = Some st" "complete_data ds"
  shows "emit_bricks cfg sz ds e =
    (let (u, bs) = build_all (en_builder e) cfg ds in
     ((with_bricks e sz u bs)\<lparr>en_events := en_events e @ (if en_bus e
        then run_events cfg sz st (length (en_history e)) (map bd_event ds) bs else [])\<rparr>, Inr ()))"
proof -
  obtain u bs where bs: "build_all (en_builder e) cfg ds = (u, bs)"
    by (cases "build_all (en_builder e) cfg ds")
  have "length bs = length ds" using build_all_length [of "en_builder e" cfg ds] bs by simp
  then have ne: "bs = [] \<longleftrightarrow> ds = []" by auto
  consider "ds = []" | "ds \<noteq> []" "en_bus e" | "ds \<noteq> []" "\<not> en_bus e" "en_builder e = TraditionalBuilder"
    | "ds \<noteq> []" "\<not> en_bus e" "en_builder e \<noteq> TraditionalBuilder" by blast
  then show ?thesis
  proof cases
    case 1
    with bs show ?thesis by (simp add: emit_bricks_def with_bricks_def)
  next
    case 2
    with build_loop_publishing [of e cfg st sz None ds] assms bs show ?thesis
      by (simp add: emit_bricks_def)
  next
    case 3
    with bs have "u = TraditionalBuilder" "bs = map (\<lambda>d. traditional_build d cfg) ds"
      by (simp_all add: build_all_traditional)
    with 3 fast_loop_eq [OF assms(3), of cfg sz e None] assms(1) bs show ?thesis
      by (simp add: emit_bricks_def append_fast_def with_bricks_def last_map)
  next
    case 4
    with build_loop_quiet [of e cfg sz None ds] bs ne show ?thesis
      by (simp add: emit_bricks_def with_bricks_def)
  qed
qed

text \<open>C4: The hot path that skips the builder when no bus is attached is the builder path: on the
  movements the engine generates, appending in line and running the traditional builder brick by brick
  leave the same engine.\<close>

theorem fast_path_equals_builder_path:
  assumes "en_builder e = TraditionalBuilder" "\<not> en_bus e" "en_config e = Some cfg"
    and "generate_bricks price t sz e = (e1, Inr ds)" "ds \<noteq> []"
  shows "append_fast ds sz e1 = build_loop cfg sz e1 None ds"
proof -
  have ds: "e1 = e" "complete_data ds"
    using assms(4,5) by (auto simp: generate_bricks_def Let_def reversal_bricks_def continuation_bricks_def
        split: option.splits sum.splits if_splits)
  show ?thesis
    using assms(1-3,5) ds fast_loop_eq [OF ds(2), of cfg sz e None] build_loop_quiet [of e cfg sz None ds]
    by (simp add: append_fast_def build_all_traditional last_map)
qed

section \<open>What a price produces\<close>

definition settled :: "engine \<Rightarrow> brick_state \<Rightarrow> brick_direction \<Rightarrow> rat \<Rightarrow> rat \<Rightarrow> engine" where
  "settled e st d price sz = e\<lparr>en_state := Some \<lparr>bs_direction = d, bs_last_price = price,
     bs_brick_size = sz, bs_is_open = True, bs_meta = bs_meta st\<rparr>\<rparr>"

lemma generate_bricks_cases:
  assumes "generate_bricks price t sz e = (e1, r)"
  obtains (error) er where "r = Inl er" "e1 = e"
  | (settle) st d where "r = Inr []" "en_state e = Some st" "e1 = settled e st d price sz"
  | (bricks) st d ev n where "r = Inr (brick_run d sz t (bs_last_price st) ev n)" "en_state e = Some st" "e1 = e"
      "d = UP \<or> d = DOWN" "ev = REVERSED \<longleftrightarrow> bs_direction st = opposite d"
      "n \<noteq> 0 \<longrightarrow> 0 < sz \<and> sz \<le> \<bar>fsub price (bs_last_price st)\<bar>"
      "bs_direction st = opposite d \<longrightarrow> fmul 2 sz \<le> \<bar>fsub price (bs_last_price st)\<bar>"
      "d = UP \<longleftrightarrow> bs_last_price st < price"
      "ev \<noteq> REVERSED \<longrightarrow> ev = (if en_history e = [] then OPENED else EXTENDED)"
proof (cases "en_pending e = None \<or> en_state e = None")
  case True
  with assms show thesis by (intro error) (auto simp: generate_bricks_def split: option.splits)
next
  case False
  then obtain st where st: "en_state e = Some st" "en_pending e \<noteq> None" by auto
  define m where "m = fsub price (bs_last_price st)"
  define trend where "trend = (if 0 < m then UP else DOWN)"
  define dir where "dir = (if bs_direction st = NEUTRAL then derive_initial_direction price (bs_last_price st) sz
      else Some (bs_direction st))"
  have trend: "trend = UP \<longleftrightarrow> bs_last_price st < price" "trend = UP \<or> trend = DOWN"
    by (auto simp: trend_def m_def fsub_sign)
  show thesis
  proof (cases dir)
    case None
    with assms st show thesis
      by (intro settle [of st NEUTRAL]) (auto simp: generate_bricks_def Let_def settled_def dir_def split: option.splits if_splits)
  next
    case (Some d)
    show thesis
    proof (cases "ffloordiv \<bar>m\<bar> sz")
      case (Inl er)
      with assms st Some show thesis
        by (intro error) (auto simp: generate_bricks_def Let_def dir_def m_def split: option.splits if_splits)
    next
      case (Inr q)
      have g: "generate_bricks price t sz e = (if py_trunc q = 0 then (settled e st d price sz, Inr [])
          else if d \<noteq> trend \<and> fmul 2 sz \<le> \<bar>m\<bar> then (e, Inr (reversal_bricks st t sz trend (py_trunc q)))
          else if d = trend then (e, Inr (continuation_bricks e st t sz d (py_trunc q)))
          else (settled e st d price sz, Inr []))"
        using st Some Inr by (auto simp: generate_bricks_def Let_def dir_def m_def trend_def settled_def)
      have n: "nat (py_trunc q) \<noteq> 0 \<longrightarrow> 0 < sz \<and> sz \<le> \<bar>m\<bar>"
        using ffloordiv_pos [OF Inr] by auto
      consider (a) "py_trunc q \<noteq> 0" "d \<noteq> trend" "fmul 2 sz \<le> \<bar>m\<bar>"
        | (b) "py_trunc q \<noteq> 0" "d = trend"
        | (c) "e1 = settled e st d price sz" "r = Inr []"
        using g assms by (auto split: if_splits)
      then show thesis
      proof cases
        case a
        show thesis
        proof (cases "bs_direction st = NEUTRAL")
          case True
          have m: "fsub (bs_last_price st) price = - m"
            unfolding m_def fsub_def by (metis b64.rnd_minus minus_diff_eq)
          from True have "d = UP \<and> sz \<le> m \<or> d = DOWN \<and> sz \<le> - m"
            using Some m by (auto simp: dir_def derive_initial_direction_def m_def split: if_splits)
          with a n have "nat (py_trunc q) = 0" by (auto simp: trend_def)
          with a g assms trend st True show thesis
            by (intro bricks [of trend st "if en_history e = [] then OPENED else EXTENDED" 0]) (auto simp: reversal_bricks_def)
        next
          case False
          then have "bs_direction st = opposite trend"
            using a Some trend(2) by (cases d) (auto simp: dir_def)
          with a g assms n trend st show thesis
            by (intro bricks [of trend st REVERSED "nat (py_trunc q)"])
              (auto simp: reversal_bricks_def m_def)
        qed
      next
        case b
        with g assms n trend st Some show thesis
          by (intro bricks [of trend st "if en_history e = [] then OPENED else EXTENDED" "nat (py_trunc q)"])
            (auto simp: continuation_bricks_def m_def dir_def split: if_splits)
      next
        case c
        with st show thesis by (intro settle)
      qed
    qed
  qed
qed

text \<open>A run that is not empty and its first event.\<close>

lemma generated_run:
  assumes "generate_bricks price t sz e = (e1, Inr ds)" "en_state e = Some st" "ds \<noteq> []"
  shows "\<exists>d n. n \<noteq> 0 \<and> ds = brick_run d sz t (bs_last_price st)
    (if bs_direction st = opposite d then REVERSED else if en_history e = [] then OPENED else EXTENDED) n"
  using assms(1)
proof (cases rule: generate_bricks_cases)
  case (bricks st' d ev n)
  have st': "st' = st" using bricks(2) assms(2) by simp
  have n: "n \<noteq> 0" using assms(3) bricks(1) by auto
  with bricks n st' show ?thesis by (intro exI [of _ d] exI [of _ n]) auto
qed (use assms in simp_all)

section \<open>One candle\<close>

text \<open>The providers hold well-formed rolling state and the price to build on is a float.\<close>

definition engine_ok :: "engine \<Rightarrow> bool" where
  "engine_ok e \<longleftrightarrow> (case en_provider e of None \<Rightarrow> True | Some p \<Rightarrow> wf_provider p) \<and>
     (case en_state e of None \<Rightarrow> True | Some st \<Rightarrow> isfl (bs_last_price st))"

lemma as_number_isfl: "as_number v = Inr x \<Longrightarrow> isfl x"
  by (auto simp: as_number_def split: option.splits)

lemma select_price_isfl: "select_price c src = Inr x \<Longrightarrow> isfl x"
  by (cases src) (auto simp: select_price_def rbind_Inr_iff dest: as_number_isfl)

lemma build_all_isfl: "b \<in> set (snd (build_all u cfg ds)) \<Longrightarrow> isfl (br_close b)"
proof (induction ds arbitrary: u)
  case (Cons d ds)
  obtain u1 b1 where b: "build_brick u d cfg = (u1, b1)" by (cases "build_brick u d cfg")
  have "isfl (br_close b1)" using build_brick_fields(3) [of u d cfg] b by simp
  with Cons b show ?case by (auto simp: Let_def case_prod_beta)
qed simp

text \<open>The outcome of a price: bricks \<open>bs\<close> of one direction, or none.\<close>

definition brick_outcome :: "engine \<Rightarrow> engine \<Rightarrow> rat \<Rightarrow> rat \<Rightarrow> brick list \<Rightarrow> bool" where
  "brick_outcome e e' sz price bs \<longleftrightarrow> (\<exists>st d. en_state e = Some st \<and> d \<noteq> NEUTRAL \<and> 0 < sz \<and>
     brick_chain d sz (bs_last_price st) bs \<and> en_state e' = Some (after_brick (last bs) sz) \<and>
     (d = UP \<longleftrightarrow> bs_last_price st < price) \<and> sz \<le> \<bar>fsub price (bs_last_price st)\<bar> \<and>
     (bs_direction st = opposite d \<longrightarrow> fmul 2 sz \<le> \<bar>fsub price (bs_last_price st)\<bar>))"

lemma emit_generated:
  assumes "en_config e = Some cfg" "en_state e = Some st"
    and "emit_bricks cfg sz (brick_run d sz t (bs_last_price st) ev n) e = (e', r)"
  obtains bs u evs where "r = Inr ()" "e' = (with_bricks e sz u bs)\<lparr>en_events := en_events e @ evs\<rparr>"
    "length bs = n" "bs = snd (build_all (en_builder e) cfg (brick_run d sz t (bs_last_price st) ev n))"
    "length evs = (if en_bus e then n else 0)"
proof -
  let ?ds = "brick_run d sz t (bs_last_price st) ev n"
  obtain u bs where bs: "build_all (en_builder e) cfg ?ds = (u, bs)"
    by (cases "build_all (en_builder e) cfg ?ds")
  then have len: "length bs = n" using build_all_length [of "en_builder e" cfg ?ds] by simp
  from emit_bricks_eq [OF assms(1,2) complete_data_run, of sz d sz t "bs_last_price st" ev n] assms(3) bs len
  show thesis
    by (intro that [where bs = bs and u = u and evs = "if en_bus e
        then run_events cfg sz st (length (en_history e)) (map bd_event ?ds) bs else []"]) auto
qed

lemma engine_advance_outcome:
  assumes ok: "engine_ok e" and cfg: "en_config e = Some cfg" and st: "en_state e = Some st"
    and adv: "engine_advance cfg sz c e = (e', r)"
  shows "engine_ok e' \<and> en_provider e' = en_provider e \<and> en_config e' = Some cfg \<and> en_bus e' = en_bus e \<and>
    en_injected e' = en_injected e \<and>
    (\<exists>bs. en_history e' = en_history e @ bs \<and> (bs \<noteq> [] \<longrightarrow> r = Inr () \<and>
      (\<exists>price. select_price c (cfg_price_source cfg) = Inr price \<and> brick_outcome e e' sz price bs)))"
proof (cases "\<exists>price t. select_price c (cfg_price_source cfg) = Inr price \<and> stamp c = Some t \<and> en_pending e \<noteq> None")
  case False
  consider er where "e' = e" "r = Inl er"
    | price where "e' = initialize_first_brick price sz e" "r = Inr ()" "isfl price"
    using adv False select_price_isfl by (fastforce simp: engine_advance_def split: sum.splits option.splits if_splits)
  then show ?thesis
    using ok cfg by cases (simp_all add: initialize_first_brick_def engine_ok_def)
next
  case True
  then obtain price t where c: "select_price c (cfg_price_source cfg) = Inr price" "stamp c = Some t"
    "en_pending e \<noteq> None" by blast
  obtain e1 g where g: "generate_bricks price t sz e = (e1, g)" by fastforce
  have start: "isfl (bs_last_price st)" using ok st by (simp add: engine_ok_def)
  from g show ?thesis
  proof (cases rule: generate_bricks_cases)
    case (error er)
    with adv c g ok cfg show ?thesis by (auto simp: engine_advance_def)
  next
    case (settle st' d)
    with adv c g ok cfg select_price_isfl [OF c(1)] show ?thesis
      by (auto simp: engine_advance_def emit_bricks_def settled_def engine_ok_def)
  next
    case (bricks st' d ev n)
    with st have st': "st' = st" by simp
    with bricks adv c g have em: "emit_bricks cfg sz (brick_run d sz t (bs_last_price st) ev n) e = (e', r)"
      by (simp add: engine_advance_def)
    from emit_generated [OF cfg st em] obtain bs u evs where
      e': "r = Inr ()" "e' = (with_bricks e sz u bs)\<lparr>en_events := en_events e @ evs\<rparr>" "length bs = n"
      and bs: "bs = snd (build_all (en_builder e) cfg (brick_run d sz t (bs_last_price st) ev n))"
      by metis
    have "brick_chain d sz (bs_last_price st) bs"
      unfolding bs by (rule build_all_chain [OF start])
    moreover have "bs \<noteq> [] \<longrightarrow> n \<noteq> 0" using e'(3) by auto
    ultimately have out: "bs \<noteq> [] \<longrightarrow> brick_outcome e e' sz price bs"
      using bricks st st' e'(2) by (auto simp: brick_outcome_def)
    have "bs \<noteq> [] \<longrightarrow> isfl (br_close (last bs))"
      using build_all_isfl [of "last bs"] last_in_set [of bs] unfolding bs [symmetric] by (metis bs)
    then have "engine_ok e'"
      using ok e'(2) by (auto simp: engine_ok_def after_brick_def)
    with e' out c(1) cfg show ?thesis
      by (auto simp: with_bricks_def)
  qed
qed

text \<open>The price the next brick of an engine opens at; a stopped engine is started first.\<close>

definition running_state :: "engine \<Rightarrow> brick_direction \<times> rat" where
  "running_state e = (if is_running e then (bs_direction (the (en_state e)), bs_last_price (the (en_state e)))
     else (NEUTRAL, 0))"

lemma process_reaches_advance:
  assumes ok: "engine_ok e" and p: "process_market_data now e c = (e', r)"
  obtains "en_history e' = en_history e" "engine_ok e'" "en_bus e' = en_bus e"
  | cfg sz e2 where "en_config e = Some cfg" "engine_advance cfg sz c e2 = (e', r)" "engine_ok e2"
      "en_history e2 = en_history e" "en_config e2 = Some cfg" "en_bus e2 = en_bus e"
      "\<exists>q. en_provider e2 = Some q \<and> provider_size q = Inr sz"
      "\<exists>st. en_state e2 = Some st \<and> (bs_direction st, bs_last_price st) = running_state e"
proof (cases "en_config e = None \<or> en_provider e = None")
  case True
  with p ok show thesis by (intro that(1)) (auto simp: process_market_data_def split: option.splits)
next
  case False
  then obtain cfg q where cq: "en_config e = Some cfg" "en_provider e = Some q" by auto
  define e1 where "e1 = (if is_running e then e else fst (engine_start now e))"
  define q' where "q' = fst (provider_update q c)"
  define e2 where "e2 = e1\<lparr>en_provider := Some q'\<rparr>"
  have e1: "en_history e1 = en_history e" "en_config e1 = Some cfg" "en_bus e1 = en_bus e"
    "\<exists>st. en_state e1 = Some st \<and> (bs_direction st, bs_last_price st) = running_state e \<and> isfl (bs_last_price st)"
    using cq ok by (auto simp: e1_def engine_start_def running_state_def is_running_def engine_ok_def split: option.splits)
  have wf: "wf_provider q'"
    using cq ok prov.upd_wf by (auto simp: engine_ok_def q'_def)
  have ok2: "engine_ok e2" using e1(4) wf by (auto simp: e2_def engine_ok_def)
  consider "e' = e2" | sz where "provider_size q' = Inr sz" "engine_advance cfg sz c (maybe_publish_size cfg sz e2) = (e', r)"
    using p cq unfolding process_market_data_def e1_def [symmetric] e2_def q'_def
    by (auto simp: Let_def split: sum.splits if_splits prod.splits)
  then show thesis
  proof cases
    case 1
    with ok2 e1 show thesis by (intro that(1)) (auto simp: e2_def)
  next
    case 2
    show thesis
      by (rule that(2) [of cfg sz "maybe_publish_size cfg sz e2"])
        (use 2 cq e1 ok2 in \<open>auto simp: e2_def maybe_publish_size_def engine_ok_def\<close>)
  qed
qed

text \<open>C2: One candle only ever appends bricks. Whatever happens (warm-up, no move, an exception) the
  bricks already in the history stay; and when bricks are appended they all have one direction, that of the
  move, each opens where the one before it closed (the first at the engine's last price), closes one brick
  size further, has the larger and the smaller of its open and close as high and low, the move is at least
  one size, and at least two when it turns against the engine's direction; the engine's new state is that
  of the last brick.\<close>

theorem candle_appends_chain:
  assumes "engine_ok e" "process_market_data now e c = (e', r)"
  shows "\<exists>bs. en_history e' = en_history e @ bs \<and> (bs \<noteq> [] \<longrightarrow> r = Inr () \<and>
    (\<exists>cfg q sz price d. en_config e = Some cfg \<and> en_provider e' = Some q \<and> provider_size q = Inr sz \<and> 0 < sz \<and>
       select_price c (cfg_price_source cfg) = Inr price \<and>
       brick_chain d sz (snd (running_state e)) bs \<and>
       (d = UP \<and> snd (running_state e) < price \<or> d = DOWN \<and> price < snd (running_state e)) \<and>
       sz \<le> \<bar>fsub price (snd (running_state e))\<bar> \<and>
       (fst (running_state e) = opposite d \<longrightarrow> fmul 2 sz \<le> \<bar>fsub price (snd (running_state e))\<bar>) \<and>
       en_state e' = Some (after_brick (last bs) sz)))"
  using assms
proof (cases rule: process_reaches_advance)
  case 1
  then show ?thesis by (intro exI [of _ "[]"]) simp
next
  case (2 cfg sz e2)
  from 2(8) obtain st where st: "en_state e2 = Some st" "(bs_direction st, bs_last_price st) = running_state e"
    by blast
  then have rs: "fst (running_state e) = bs_direction st" "snd (running_state e) = bs_last_price st"
    by (metis fst_conv snd_conv)+
  from 2(7) obtain q where q: "en_provider e2 = Some q" "provider_size q = Inr sz" by blast
  from engine_advance_outcome [OF 2(3,5) st(1) 2(2)] obtain bs where
    out: "en_provider e' = en_provider e2" "en_history e' = en_history e2 @ bs" and
    bs: "bs \<noteq> [] \<Longrightarrow> r = Inr () \<and> (\<exists>price. select_price c (cfg_price_source cfg) = Inr price \<and> brick_outcome e2 e' sz price bs)"
    by blast
  show ?thesis
  proof (intro exI [of _ bs] conjI impI)
    show "en_history e' = en_history e @ bs" using out 2(4) by simp
    assume ne: "bs \<noteq> []"
    from bs [OF ne] obtain price d where b: "select_price c (cfg_price_source cfg) = Inr price"
      "d \<noteq> NEUTRAL" "0 < sz" "brick_chain d sz (bs_last_price st) bs" "en_state e' = Some (after_brick (last bs) sz)"
      "d = UP \<longleftrightarrow> bs_last_price st < price" "sz \<le> \<bar>fsub price (bs_last_price st)\<bar>"
      "bs_direction st = opposite d \<longrightarrow> fmul 2 sz \<le> \<bar>fsub price (bs_last_price st)\<bar>"
      using st(1) by (auto simp: brick_outcome_def)
    have "d = UP \<and> bs_last_price st < price \<or> d = DOWN \<and> price < bs_last_price st"
      using b(2,3,6,7) fsub_sign(3) [of price "bs_last_price st"] by (cases d) (auto simp: not_less)
    with b q out 2(1) rs
    show "\<exists>cfg q sz price d. en_config e = Some cfg \<and> en_provider e' = Some q \<and> provider_size q = Inr sz \<and> 0 < sz \<and>
       select_price c (cfg_price_source cfg) = Inr price \<and>
       brick_chain d sz (snd (running_state e)) bs \<and>
       (d = UP \<and> snd (running_state e) < price \<or> d = DOWN \<and> price < snd (running_state e)) \<and>
       sz \<le> \<bar>fsub price (snd (running_state e))\<bar> \<and>
       (fst (running_state e) = opposite d \<longrightarrow> fmul 2 sz \<le> \<bar>fsub price (snd (running_state e))\<bar>) \<and>
       en_state e' = Some (after_brick (last bs) sz)"
      by (intro exI [of _ cfg] exI [of _ q] exI [of _ sz] exI [of _ price] exI [of _ d]) simp
    show "r = Inr ()" using bs [OF ne] by blast
  qed
qed

definition fixed_configuration :: brick_configuration where
  "fixed_configuration = default_configuration BT_TRADITIONAL 1"

definition demo_engine :: engine where
  "demo_engine = fst (configure fixed_configuration (new_engine True None None))"

definition flat_candle :: "time \<Rightarrow> rat \<Rightarrow> candle" where
  "flat_candle t p = full_candle t p p p p"

definition demo_run :: engine where
  "demo_run = feed (process_market_data 0) demo_engine [flat_candle 1 10, flat_candle 2 13]"

theorem candle_appends_chain_witness:
  "engine_ok demo_run \<and> map br_direction (en_history demo_run) = [UP, UP, UP] \<and>
   (\<exists>bs. en_history (fst (process_market_data 0 demo_run (flat_candle 3 11))) = en_history demo_run @ bs \<and> length bs = 2)"
proof -
  have ok: "engine_ok demo_run" by code_simp
  have n: "length (en_history (fst (process_market_data 0 demo_run (flat_candle 3 11)))) = 5"
    "map br_direction (en_history demo_run) = [UP, UP, UP]" by code_simp+
  obtain e' r where p: "process_market_data 0 demo_run (flat_candle 3 11) = (e', r)" by fastforce
  from candle_appends_chain [OF ok p] obtain bs where "en_history e' = en_history demo_run @ bs" by blast
  moreover have "length (en_history demo_run) = 3"
    using arg_cong [OF n(2), of length] by simp
  ultimately show ?thesis using n ok p by auto
qed

section \<open>How many bricks\<close>

text \<open>
  The number of bricks a move \<open>m\<close> is worth at size \<open>sz\<close> to an engine going in direction \<open>d\<close>: the whole
  sizes in the move, none of them if the move turns against \<open>d\<close> by less than two sizes.
\<close>

definition expected_steps :: "brick_direction \<Rightarrow> rat \<Rightarrow> rat \<Rightarrow> int" where
  "expected_steps d m sz =
     (if d = NEUTRAL \<or> d = (if 0 < m then UP else DOWN) \<or> 2 * sz \<le> \<bar>m\<bar> then \<lfloor>\<bar>m\<bar> / sz\<rfloor> else 0)"

lemma generate_bricks_count:
  assumes "en_pending e \<noteq> None" "en_state e = Some st" "0 < sz" "isfl sz"
    and "\<lfloor>\<bar>fsub price (bs_last_price st)\<bar> / sz\<rfloor> \<le> 2 ^ 49"
  defines "m \<equiv> fsub price (bs_last_price st)"
  shows "\<exists>e1 ds. generate_bricks price t sz e = (e1, Inr ds) \<and>
    int (length ds) = expected_steps (bs_direction st) m sz \<and> (ds \<noteq> [] \<longrightarrow> e1 = e)"
proof -
  define n where "n = \<lfloor>\<bar>m\<bar> / sz\<rfloor>"
  have q: "ffloordiv \<bar>m\<bar> sz = Inr (of_int n)" "0 \<le> n" "py_trunc (of_int n) = n"
    using assms unfolding n_def by (auto simp: py_trunc_def intro: ffloordiv_exact)
  have n0: "n = 0 \<longleftrightarrow> \<bar>m\<bar> < sz"
    using assms(3) q(2) by (auto simp: n_def floor_eq_iff)
  have two: "fmul 2 sz = 2 * sz" using isfl_double [OF assms(4)] by (simp add: fmul_def)
  have neg: "fsub (bs_last_price st) price = - m"
    unfolding m_def fsub_def by (metis b64.rnd_minus minus_diff_eq)
  have der: "derive_initial_direction price (bs_last_price st) sz =
      (if n = 0 then None else Some (if 0 < m then UP else DOWN))"
    unfolding n0 using assms(3) neg by (auto simp: derive_initial_direction_def m_def abs_if)
  obtain p where p: "en_pending e = Some p" using assms(1) by auto
  have steps: "expected_steps (bs_direction st) m sz =
      (if bs_direction st = NEUTRAL \<or> bs_direction st = (if 0 < m then UP else DOWN) \<or> 2 * sz \<le> \<bar>m\<bar> then n else 0)"
    by (simp add: expected_steps_def n_def)
  show ?thesis
    unfolding steps using assms(2) q p der
    by (cases "n = 0") (auto simp: generate_bricks_def Let_def m_def [symmetric] two
        continuation_bricks_def reversal_bricks_def)
qed

text \<open>C3: The number of bricks of a candle is exact: an anchored, running engine whose provider gives the
  size \<open>sz\<close> appends as many bricks as whole sizes fit into the move from its last price (none when the
  move turns against its direction by less than two sizes), for every move of up to \<open>2 ^ 49\<close> sizes.\<close>

theorem candle_brick_count:
  assumes "en_config e = Some cfg" "en_pending e \<noteq> None" "en_state e = Some st"
    and "select_price c (cfg_price_source cfg) = Inr price" "stamp c = Some t" "0 < sz" "isfl sz"
    and "\<lfloor>\<bar>fsub price (bs_last_price st)\<bar> / sz\<rfloor> \<le> 2 ^ 49"
  shows "int (length (en_history (fst (engine_advance cfg sz c e)))) =
    int (length (en_history e)) + expected_steps (bs_direction st) (fsub price (bs_last_price st)) sz"
proof -
  from generate_bricks_count [OF assms(2,3,6-8), of t] obtain e1 ds where
    g: "generate_bricks price t sz e = (e1, Inr ds)" and
    n: "int (length ds) = expected_steps (bs_direction st) (fsub price (bs_last_price st)) sz" and
    e1: "ds \<noteq> [] \<longrightarrow> e1 = e" by blast
  have adv: "engine_advance cfg sz c e = emit_bricks cfg sz ds e1"
    using assms(2,4,5) g by (auto simp: engine_advance_def)
  have "length (en_history (fst (emit_bricks cfg sz ds e1))) = length (en_history e) + length ds"
    using g
  proof (cases rule: generate_bricks_cases)
    case (settle st' d)
    then show ?thesis by (simp add: emit_bricks_def settled_def)
  next
    case (bricks st' d ev k)
    obtain e' r where em: "emit_bricks cfg sz (brick_run d sz t (bs_last_price st') ev k) e = (e', r)" by fastforce
    from emit_generated [OF assms(1) bricks(2) em] obtain bs u evs where
      "e' = (with_bricks e sz u bs)\<lparr>en_events := en_events e @ evs\<rparr>" "length bs = k" by metis
    with bricks em show ?thesis by simp
  qed simp
  with adv n show ?thesis by simp
qed

theorem candle_brick_count_witness:
  "expected_steps UP (- 2) 1 = 2 \<and>
   int (length (en_history (fst (engine_advance fixed_configuration 1 (flat_candle 3 11) demo_run)))) =
     int (length (en_history demo_run)) + expected_steps UP (- 2) 1"
proof -
  let ?st = "the (en_state demo_run)"
  have h: "en_config demo_run = Some fixed_configuration" "en_pending demo_run \<noteq> None" by code_simp+
  have st: "en_state demo_run = Some ?st" "bs_direction ?st = UP" "bs_last_price ?st = 13" by code_simp+
  have d: "fsub 11 13 = - 2" by (simp add: fsub_def)
  from candle_brick_count [OF h st(1), of "flat_candle 3 11" 11 3 1] st d show ?thesis
    by (simp add: flat_candle_def full_candle_def select_price_def item_get_def as_number_def
        fixed_configuration_def default_configuration_def expected_steps_def)
qed

section \<open>Observing does not disturb\<close>

text \<open>The engine as it would be without a bus.\<close>

definition quiet :: "engine \<Rightarrow> engine" where
  "quiet e = e\<lparr>en_bus := False, en_published := None, en_events := []\<rparr>"

lemma quiet_simps [simp]:
  "en_bus (quiet e) = False" "en_config (quiet e) = en_config e" "en_state (quiet e) = en_state e"
  "en_builder (quiet e) = en_builder e" "en_history (quiet e) = en_history e"
  "en_pending (quiet e) = en_pending e" "en_boundary (quiet e) = en_boundary e"
  "en_injected (quiet e) = en_injected e" "en_provider (quiet e) = en_provider e"
  "quiet (quiet e) = quiet e"
  by (simp_all add: quiet_def)

lemma quiet_upd [simp]:
  "(quiet e)\<lparr>en_state := s\<rparr> = quiet (e\<lparr>en_state := s\<rparr>)"
  "(quiet e)\<lparr>en_provider := q\<rparr> = quiet (e\<lparr>en_provider := q\<rparr>)"
  "quiet (e\<lparr>en_events := v\<rparr>) = quiet e" "quiet (e\<lparr>en_published := s'\<rparr>) = quiet e"
  by (simp_all add: quiet_def)

lemma quiet_with_bricks [simp]: "quiet (with_bricks e sz u bs) = with_bricks (quiet e) sz u bs"
  by (simp add: quiet_def with_bricks_def)

lemma quiet_generate:
  "generate_bricks price t sz (quiet e) = map_prod quiet id (generate_bricks price t sz e)"
  by (auto simp: generate_bricks_def Let_def continuation_bricks_def split: option.split sum.split)

lemma quiet_emit:
  assumes "en_config e = Some cfg" "en_state e = Some st" "complete_data ds"
  shows "emit_bricks cfg sz ds (quiet e) = map_prod quiet id (emit_bricks cfg sz ds e)"
  using emit_bricks_eq [OF assms, of sz] emit_bricks_eq [of "quiet e" cfg st ds sz] assms
  by (simp add: Let_def split: prod.split)

lemma quiet_advance:
  assumes "en_config e = Some cfg" "en_state e = Some st"
  shows "engine_advance cfg sz c (quiet e) = map_prod quiet id (engine_advance cfg sz c e)"
proof (cases "\<exists>price t. select_price c (cfg_price_source cfg) = Inr price \<and> stamp c = Some t \<and> en_pending e \<noteq> None")
  case False
  then show ?thesis
    by (auto simp: engine_advance_def initialize_first_brick_def quiet_def split: sum.split option.split)
next
  case True
  then obtain price t where c: "select_price c (cfg_price_source cfg) = Inr price" "stamp c = Some t"
    "en_pending e \<noteq> None" by blast
  obtain e1 g where g: "generate_bricks price t sz e = (e1, g)" by fastforce
  then have gq: "generate_bricks price t sz (quiet e) = (quiet e1, g)" by (simp add: quiet_generate)
  have e1: "en_config e1 = Some cfg \<and> (\<exists>st1. en_state e1 = Some st1) \<and> (\<forall>ds. g = Inr ds \<longrightarrow> complete_data ds)"
    using g by (cases rule: generate_bricks_cases) (use assms in \<open>auto simp: settled_def complete_data_def [of "[]"]\<close>)
  show ?thesis
    using c g gq e1 quiet_emit [of e1 cfg _ _ sz] by (cases g) (auto simp: engine_advance_def)
qed

lemma quiet_process:
  "process_market_data now (quiet e) c = map_prod quiet id (process_market_data now e c)"
proof (cases "en_config e = None \<or> en_provider e = None")
  case True
  then show ?thesis by (auto simp: process_market_data_def split: option.split)
next
  case False
  then obtain cfg p where cp: "en_config e = Some cfg" "en_provider e = Some p" by auto
  obtain p' r where u: "provider_update p c = (p', r)" by fastforce
  define e2 where "e2 = (if is_running e then e else fst (engine_start now e))\<lparr>en_provider := Some p'\<rparr>"
  have q2: "(if is_running (quiet e) then quiet e else fst (engine_start now (quiet e)))\<lparr>en_provider := Some p'\<rparr> = quiet e2"
    using cp by (auto simp: e2_def is_running_def engine_start_def)
  have e2: "en_config e2 = Some cfg" "\<exists>st. en_state e2 = Some st"
    using cp by (auto simp: e2_def is_running_def engine_start_def split: option.splits)
  have pub: "quiet (maybe_publish_size cfg sz e2) = quiet e2" "maybe_publish_size cfg sz (quiet e2) = quiet e2"
    "en_config (maybe_publish_size cfg sz e2) = Some cfg" "en_state (maybe_publish_size cfg sz e2) = en_state e2" for sz
    using e2 by (simp_all add: maybe_publish_size_def)
  have adv: "engine_advance cfg sz c (quiet e2) = map_prod quiet id (engine_advance cfg sz c (maybe_publish_size cfg sz e2))" for sz
    using quiet_advance [OF pub(3)] pub(1,4) e2(2) by metis
  have P: "process_market_data now x c = (case r of Inl er \<Rightarrow> (y, Inl er) | Inr _ \<Rightarrow>
      if \<not> provider_ready p' then (y, Inr ()) else (case provider_size p' of Inl er \<Rightarrow> (y, Inl er)
        | Inr sz \<Rightarrow> engine_advance cfg sz c (maybe_publish_size cfg sz y)))"
    if "en_config x = Some cfg" "en_provider x = Some p"
      "y = (if is_running x then x else fst (engine_start now x))\<lparr>en_provider := Some p'\<rparr>" for x y
    by (simp only: process_market_data_def Let_def option.simps u that(1,2) prod.case that(3) [symmetric])
  show ?thesis
    unfolding P [OF cp e2_def] P [of "quiet e" "quiet e2", unfolded quiet_simps, OF cp q2 [symmetric]]
    by (auto simp: adv pub(2) split: sum.split)
qed

lemma bus_observes:
  "quiet (feed (process_market_data now) e cs) = feed (process_market_data now) (quiet e) cs"
  by (induction cs arbitrary: e) (simp_all add: quiet_process)

text \<open>Attaching an event bus only observes: with or without it, over any tape of candles, the engine
  goes through the same bricks, states, builder and provider states and results; the per-brick publishing
  loop, the batched loop and the in-line hot path are interchangeable.\<close>

theorem bus_only_observes:
  "quiet (feed (process_market_data now) e cs) = feed (process_market_data now) (quiet e) cs \<and>
   snd (process_market_data now (feed (process_market_data now) e cs) c) =
     snd (process_market_data now (feed (process_market_data now) (quiet e) cs) c)"
  using quiet_process [of now "feed (process_market_data now) e cs" c]
  by (simp add: bus_observes map_prod_def split: prod.splits)

definition anchored_engine :: engine where
  "anchored_engine = fst (process_market_data 0 demo_engine (flat_candle 1 10))"

definition quiet_anchored_engine :: engine where
  "quiet_anchored_engine = quiet anchored_engine"

theorem fast_path_equals_builder_path_witness:
  "append_fast (brick_run UP 1 2 10 OPENED 2) 1 quiet_anchored_engine =
     build_loop fixed_configuration 1 quiet_anchored_engine None (brick_run UP 1 2 10 OPENED 2)"
proof -
  have h: "en_builder quiet_anchored_engine = TraditionalBuilder" "\<not> en_bus quiet_anchored_engine"
    "en_config quiet_anchored_engine = Some fixed_configuration"
    "generate_bricks 12 2 1 quiet_anchored_engine = (quiet_anchored_engine, Inr (brick_run UP 1 2 10 OPENED 2))"
    "brick_run UP 1 2 10 OPENED 2 \<noteq> []"
    by code_simp+
  from fast_path_equals_builder_path [OF h] show ?thesis .
qed

section \<open>Events\<close>

text \<open>C5: With a bus attached every appended brick is announced by exactly one event, in order, of the kind
  its movement calls for; the snapshot in the event counts the brick but carries the state the engine had
  before it.\<close>

theorem one_event_per_brick:
  assumes "en_bus e" "en_config e = Some cfg" "en_state e = Some st"
    and "generate_bricks price t sz e = (e1, Inr ds)" "ds \<noteq> []" "emit_bricks cfg sz ds e1 = (e', r)"
  shows "\<exists>bs. en_history e' = en_history e @ bs \<and> length bs = length ds \<and>
    en_events e' = en_events e @ run_events cfg sz st (length (en_history e)) (map bd_event ds) bs \<and>
    hd (map bd_event ds) = (if bs_direction st = opposite (bd_direction (hd ds)) then REVERSED
      else if en_history e = [] then OPENED else EXTENDED) \<and>
    set (tl (map bd_event ds)) \<subseteq> {EXTENDED}"
proof -
  have e1: "e1 = e" "complete_data ds"
    using assms(4,5) by (auto simp: generate_bricks_def Let_def reversal_bricks_def continuation_bricks_def
        split: option.splits sum.splits if_splits)
  obtain u bs where b: "build_all (en_builder e) cfg ds = (u, bs)" by (cases "build_all (en_builder e) cfg ds")
  then have len: "length bs = length ds" using build_all_length [of "en_builder e" cfg ds] by simp
  have e': "en_history e' = en_history e @ bs"
    "en_events e' = en_events e @ run_events cfg sz st (length (en_history e)) (map bd_event ds) bs"
    using emit_bricks_eq [OF assms(2,3) e1(2), of sz] assms(1,6) b e1(1) by auto
  have "hd (map bd_event ds) = (if bs_direction st = opposite (bd_direction (hd ds)) then REVERSED
      else if en_history e = [] then OPENED else EXTENDED) \<and> set (tl (map bd_event ds)) \<subseteq> {EXTENDED}"
  proof -
    obtain d n where "n \<noteq> 0" "ds = brick_run d sz t (bs_last_price st)
        (if bs_direction st = opposite d then REVERSED else if en_history e = [] then OPENED else EXTENDED) n"
      using generated_run [OF assms(4,3,5)] by blast
    moreover from this have "map bd_event ds = (if bs_direction st = opposite d then REVERSED
        else if en_history e = [] then OPENED else EXTENDED) # replicate (n - 1) EXTENDED" "bd_direction (hd ds) = d"
      by (simp_all add: brick_run_events)
    ultimately show ?thesis by (auto simp: hd_map)
  qed
  with e' len show ?thesis by blast
qed

theorem one_event_per_brick_witness:
  "\<exists>bs. en_history (fst (emit_bricks fixed_configuration 1 (brick_run UP 1 2 10 OPENED 2) anchored_engine)) = bs \<and>
     length bs = 2 \<and> [OPENED, EXTENDED] = map bd_event (brick_run UP 1 2 10 OPENED 2)"
proof -
  let ?ds = "brick_run UP 1 2 10 OPENED 2" and ?e = anchored_engine
  have h: "en_bus ?e" "en_config ?e = Some fixed_configuration" "en_state ?e = Some (the (en_state ?e))"
    "generate_bricks 12 2 1 ?e = (?e, Inr ?ds)" "?ds \<noteq> []" "en_history ?e = []"
    "length ?ds = 2" "map bd_event ?ds = [OPENED, EXTENDED]"
    by code_simp+
  obtain e' r where em: "emit_bricks fixed_configuration 1 ?ds ?e = (e', r)" by fastforce
  from one_event_per_brick [OF h(1-5) em] show ?thesis
    using em h(6-8) by auto
qed

section \<open>When no brick appears\<close>

text \<open>A tape on which the price never moves a whole size from one candle to the next.\<close>

fun slow_tape :: "brick_configuration \<Rightarrow> rat \<Rightarrow> rat \<Rightarrow> candle list \<Rightarrow> bool" where
  "slow_tape cfg sz prev [] = True"
| "slow_tape cfg sz prev (c # cs) = (case select_price c (cfg_price_source cfg) of
       Inl _ \<Rightarrow> False
     | Inr p \<Rightarrow> stamp c \<noteq> None \<and> \<bar>fsub p prev\<bar> < sz \<and> slow_tape cfg sz p cs)"

lemma generate_small_move:
  assumes "en_pending e \<noteq> None" "en_state e = Some st" "\<bar>fsub price (bs_last_price st)\<bar> < sz"
  shows "generate_bricks price t sz e = (settled e st (bs_direction st) price sz, Inr [])"
proof -
  have neg: "fsub (bs_last_price st) price = - fsub price (bs_last_price st)"
    unfolding fsub_def by (metis b64.rnd_minus minus_diff_eq)
  have "derive_initial_direction price (bs_last_price st) sz = None"
    using assms(3) neg by (auto simp: derive_initial_direction_def abs_if split: if_splits)
  moreover have "ffloordiv \<bar>fsub price (bs_last_price st)\<bar> sz = Inr 0"
    using assms(3) by (intro ffloordiv_small) auto
  ultimately show ?thesis
    using assms by (auto simp: generate_bricks_def Let_def settled_def py_trunc_def)
qed

text \<open>The engine measures every move from the price of the previous candle, not from the last brick: on
  a tape whose candle-to-candle moves are each below the brick size it never prints a brick, however far the
  price travels in all.\<close>

theorem slow_drift_prints_nothing:
  assumes "en_config e = Some cfg" "en_provider e = Some (Leaf (FixedProvider sz))" "en_pending e \<noteq> None"
    and "en_state e = Some st" "bs_is_open st" "slow_tape cfg sz (bs_last_price st) cs"
  shows "en_history (feed (process_market_data now) e cs) = en_history e"
  using assms
proof (induction cs arbitrary: e st)
  case (Cons c cs)
  from Cons.prems(6) obtain p t where c: "select_price c (cfg_price_source cfg) = Inr p" "stamp c = Some t"
    "\<bar>fsub p (bs_last_price st)\<bar> < sz" "slow_tape cfg sz p cs"
    by (auto split: sum.splits)
  let ?e = "settled (maybe_publish_size cfg sz (e\<lparr>en_provider := Some (Leaf (FixedProvider sz))\<rparr>)) st (bs_direction st) p sz"
  have e: "e\<lparr>en_provider := Some (Leaf (FixedProvider sz))\<rparr> = e" using Cons.prems(2) by simp
  have "fst (process_market_data now e c) = ?e"
    using Cons.prems c generate_small_move [of "maybe_publish_size cfg sz e" st p sz t]
    by (auto simp: process_market_data_def is_running_def engine_advance_def emit_bricks_def e frame_simps)
  moreover have "en_history (feed (process_market_data now) ?e cs) = en_history ?e"
    by (rule Cons.IH [where st = "\<lparr>bs_direction = bs_direction st, bs_last_price = p, bs_brick_size = sz,
          bs_is_open = True, bs_meta = bs_meta st\<rparr>"]) (use Cons.prems c in \<open>simp_all add: settled_def frame_simps\<close>)
  ultimately show ?case by (simp add: settled_def frame_simps)
qed simp

theorem slow_drift_prints_nothing_witness:
  "en_history (feed (process_market_data 0) anchored_engine
     [flat_candle 2 (21/2), flat_candle 3 11, flat_candle 4 (23/2), flat_candle 5 12, flat_candle 6 (25/2)]) = [] \<and>
   en_history (feed (process_market_data 0) anchored_engine [flat_candle 6 (25/2)]) \<noteq> []"
proof -
  have h: "en_config anchored_engine = Some fixed_configuration"
    "en_provider anchored_engine = Some (Leaf (FixedProvider 1))" "en_pending anchored_engine \<noteq> None"
    "en_state anchored_engine = Some (the (en_state anchored_engine))" "bs_is_open (the (en_state anchored_engine))"
    "slow_tape fixed_configuration 1 (bs_last_price (the (en_state anchored_engine)))
      [flat_candle 2 (21/2), flat_candle 3 11, flat_candle 4 (23/2), flat_candle 5 12, flat_candle 6 (25/2)]"
    "en_history anchored_engine = []"
    "en_history (feed (process_market_data 0) anchored_engine [flat_candle 6 (25/2)]) \<noteq> []"
    by code_simp+
  from slow_drift_prints_nothing [OF h(1-6), of 0] h(7,8) show ?thesis by simp
qed

definition atr_configuration :: brick_configuration where
  "atr_configuration = (default_configuration BT_ATR 1)\<lparr>cfg_atr_period := Some 2, cfg_atr_multiplier := Some 1\<rparr>"

definition flat_atr_engine :: engine where
  "flat_atr_engine = feed (process_market_data 0)
     (fst (configure atr_configuration (new_engine False (Some (Leaf demo_atr)) None)))
     [flat_candle 1 5, flat_candle 2 5]"

text \<open>An ATR engine whose warm-up sees only flat candles gets the brick size zero, and from then on every
  further flat candle makes it raise \<open>ZeroDivisionError\<close>.\<close>

theorem flat_warmup_divides_by_zero:
  "snd (process_market_data now flat_atr_engine (flat_candle t 5)) = Inl ZeroDivisionError"
proof -
  let ?p = "\<lambda>n. Leaf (AtrProvider \<lparr>atr_period = 2, atr_multiplier = 1, atr_prev_close = Some 5,
      atr_warmup_sum = 0, atr_count = n, atr_value = Some 0\<rparr>)"
  have h: "en_config flat_atr_engine = Some atr_configuration" "en_provider flat_atr_engine = Some (?p 2)"
    "en_pending flat_atr_engine = Some 5" "is_running flat_atr_engine" "\<not> en_bus flat_atr_engine"
    "en_state flat_atr_engine = Some \<lparr>bs_direction = NEUTRAL, bs_last_price = 5, bs_brick_size = 0,
        bs_is_open = True, bs_meta = MetaAnchor 5\<rparr>"
    by code_simp+
  have u: "provider_update (?p 2) (flat_candle t 5) = (?p 2, Inr ())"
    by (simp add: atr_update_def flat_candle_def atr_step_def Let_def true_range_flat fmul_def fadd_def fdiv_def)
  have c: "select_price (flat_candle t 5) (cfg_price_source atr_configuration) = Inr 5" "stamp (flat_candle t 5) = Some t"
    by (simp_all add: select_price_def atr_configuration_def default_configuration_def flat_candle_def
        full_candle_def item_get_def as_number_def)
  have "snd (generate_bricks 5 t 0 (flat_atr_engine\<lparr>en_provider := Some (?p 2)\<rparr>)) = Inl ZeroDivisionError"
    by (simp add: generate_bricks_def h Let_def derive_initial_direction_def fsub_def ffloordiv_def)
  then show ?thesis
    using h u c by (auto simp: process_market_data_def maybe_publish_size_def engine_advance_def fmul_def
        split: prod.split sum.split)
qed

text \<open>Stopping does not clear the anchor: the candle after a stop restarts the engine at the price zero
  and prints bricks all the way from zero to the market.\<close>

theorem restart_prints_from_zero:
  "map br_open (en_history (fst (process_market_data 0 (engine_stop 9 anchored_engine) (flat_candle 2 3)))) = [0, 1, 2] \<and>
   en_history anchored_engine = []"
  by code_simp

end
