(* ===== verification/RenkoSnapshot.thy ===== *)
theory RenkoSnapshot imports RenkoFactory RenkoEngineFacts begin

text \<open>
  Saving and restoring an engine (\<open>chart/renko/snapshot.py\<close>, \<open>serialization.py\<close>,
  \<open>TraditionalRenkoEngine.snapshot\<close> / \<open>restore\<close>). A snapshot holds the plain dictionaries the
  models are encoded into; a dictionary is modelled by the values it encodes, with an enumeration's
  string that is not a member as the \<open>OTHER\<close> constructor. The JSON text is left to Python's
  \<open>json\<close>.
\<close>

section \<open>The snapshot\<close>

record engine_runtime =
  rt_state :: "brick_state option"
  rt_pending :: "rat option"
  rt_boundary :: "rat option"
  rt_published :: "rat option"

record engine_state =
  es_version :: int
  es_engine_type :: pystr
  es_config :: brick_configuration
  es_builder :: "int option"
  es_history :: "brick list"
  es_provider :: provider_state
  es_brick_count :: nat
  es_runtime :: engine_runtime

definition schema_version :: int where
  "schema_version = 1"

text \<open>
  \<open>to_dict\<close> / \<open>from_dict\<close>: the dictionary by required key; a payload that is not an object is
  \<open>None\<close>. The strategy state is always empty; the key must be present all the same.
\<close>

record snapshot_dict =
  sd_version :: "int option"
  sd_engine_type :: "pystr option"
  sd_config :: "brick_configuration option"
  sd_builder :: "int option option"
  sd_history :: "brick list option"
  sd_provider :: "provider_state option"
  sd_strategy :: "unit option"
  sd_metadata :: "(nat \<times> engine_runtime) option"

definition to_dict :: "engine_state \<Rightarrow> snapshot_dict" where
  "to_dict s = \<lparr>sd_version = Some (es_version s), sd_engine_type = Some (es_engine_type s),
     sd_config = Some (es_config s), sd_builder = Some (es_builder s), sd_history = Some (es_history s),
     sd_provider = Some (es_provider s), sd_strategy = Some (),
     sd_metadata = Some (es_brick_count s, es_runtime s)\<rparr>"

definition from_dict :: "snapshot_dict option \<Rightarrow> engine_state result" where
  "from_dict payload = (case payload of
       None \<Rightarrow> Inl CorruptedSnapshotError
     | Some d \<Rightarrow>
        (case (sd_version d, sd_engine_type d, sd_config d, sd_builder d, sd_history d, sd_provider d,
               sd_strategy d, sd_metadata d) of
           (Some v, Some t, Some c, Some b, Some h, Some p, Some _, Some (n, rt)) \<Rightarrow>
             Inr \<lparr>es_version = v, es_engine_type = t, es_config = c, es_builder = b, es_history = h,
               es_provider = p, es_brick_count = n, es_runtime = rt\<rparr>
         | _ \<Rightarrow> Inl CorruptedSnapshotError))"

text \<open>\<open>configuration_from_dict\<close>: every enumeration is looked up by its string.\<close>

definition configuration_from_dict :: "brick_configuration \<Rightarrow> brick_configuration result" where
  "configuration_from_dict c =
     (if is_price_source (cfg_price_source c) \<and> is_renko_mode (cfg_mode c) \<and>
         (case cfg_reference_price c of None \<Rightarrow> True | Some r \<Rightarrow> is_reference_price r) \<and>
         is_rounding_mode (cfg_rounding_mode c)
      then Inr c else Inl ValueError)"

section \<open>Taking and restoring a snapshot\<close>

definition snapshot :: "engine \<Rightarrow> engine_state result" where
  "snapshot e = (case en_config e of
       None \<Rightarrow> Inl RuntimeError
     | Some cfg \<Rightarrow> Inr \<lparr>es_version = schema_version, es_engine_type = ''traditional'', es_config = cfg,
         es_builder = builder_export (en_builder e), es_history = en_history e,
         es_provider = (case en_provider e of None \<Rightarrow> EmptyState | Some p \<Rightarrow> provider_export p),
         es_brick_count = length (en_history e),
         es_runtime = \<lparr>rt_state = en_state e, rt_pending = en_pending e, rt_boundary = en_boundary e,
           rt_published = en_published e\<rparr>\<rparr>)"

definition validate_snapshot :: "pystr list option \<Rightarrow> (pystr, provider_factory) dict option
    \<Rightarrow> (pystr, strategy_factory) dict option \<Rightarrow> (pystr, builder_factory) dict option
    \<Rightarrow> engine_state \<Rightarrow> brick_configuration result" where
  "validate_snapshot types pr sr br s =
     (if es_version s \<noteq> schema_version then Inl SnapshotVersionError
      else if (case types of None \<Rightarrow> False | Some ts \<Rightarrow> es_engine_type s \<notin> set ts)
        then Inl IncompatibleSnapshotError
      else case configuration_from_dict (es_config s) of
        Inl _ \<Rightarrow> Inl CorruptedSnapshotError
      | Inr c \<Rightarrow>
          rbind (case pr of None \<Rightarrow> Inr ()
            | Some r \<Rightarrow> require (registry_exists r (resolved_provider c)) IncompatibleSnapshotError) (\<lambda>_.
          rbind (case sr of None \<Rightarrow> Inr ()
            | Some r \<Rightarrow> rbind (resolved_reference_strategy c) (\<lambda>n.
                require (registry_exists r n) IncompatibleSnapshotError)) (\<lambda>_.
          rbind (case br of None \<Rightarrow> Inr ()
            | Some r \<Rightarrow> require (registry_exists r (resolved_builder c)) IncompatibleSnapshotError) (\<lambda>_.
          Inr c))))"

fun provider_name :: "provider \<Rightarrow> pystr" where
  "provider_name (Leaf (FixedProvider s)) = ''fixed''"
| "provider_name (Leaf (AtrProvider a)) = ''atr''"
| "provider_name (Leaf (PctProvider p)) = ''percentage''"
| "provider_name (Adaptive a) = ''adaptive''"

fun live_strategy :: "provider option \<Rightarrow> price_strategy option" where
  "live_strategy (Some (Leaf (PctProvider p))) = Some (pct_strategy p)"
| "live_strategy _ = None"

text \<open>\<open>_assert_component_compatible\<close>: only a live component with a name is compared.\<close>

definition assert_compatible :: "pystr option \<Rightarrow> pystr \<Rightarrow> unit result" where
  "assert_compatible live expected =
     (case live of None \<Rightarrow> Inr () | Some n \<Rightarrow> require (n = expected) IncompatibleSnapshotError)"

definition engine_restore :: "engine_state \<Rightarrow> engine \<Rightarrow> engine \<times> unit result" where
  "engine_restore s e =
     (case rbind (validate_snapshot (Some [''traditional'']) None None None s) (\<lambda>c.
           rbind (assert_compatible (map_option provider_name (en_provider e)) (resolved_provider c)) (\<lambda>_.
           rbind (assert_compatible (Some (builder_name (en_builder e))) (resolved_builder c)) (\<lambda>_.
           rbind (case live_strategy (en_provider e) of None \<Rightarrow> Inr ()
               | Some st \<Rightarrow> rbind (resolved_reference_strategy c) (assert_compatible (Some (strategy_name st)))) (\<lambda>_.
           Inr c)))) of
        Inl x \<Rightarrow> (e, Inl x)
      | Inr c \<Rightarrow>
          (e\<lparr>en_config := Some c,
             en_provider := map_option (\<lambda>p. provider_import p (es_provider s)) (en_provider e),
             en_builder := builder_import (en_builder e) (es_builder s),
             en_history := es_history s, en_state := rt_state (es_runtime s),
             en_pending := rt_pending (es_runtime s), en_boundary := rt_boundary (es_runtime s),
             en_published := rt_published (es_runtime s)\<rparr>, Inr ()))"

text \<open>\<open>SnapshotManager.restore\<close> with the registries it was given.\<close>

definition manager_restore :: "(pystr, provider_factory) dict \<Rightarrow> (pystr, strategy_factory) dict
    \<Rightarrow> (pystr, builder_factory) dict \<Rightarrow> bool \<Rightarrow> engine_state \<Rightarrow> engine result" where
  "manager_restore pr sr br bus s =
     rbind (validate_snapshot (Some [''traditional'']) (Some pr) (Some sr) (Some br) s) (\<lambda>c.
     rbind (provider_registry_create pr c) (\<lambda>p0.
     rbind (if takes_strategy p0 then rbind (strategy_registry_create sr c) (\<lambda>st. Inr (inject_strategy st p0))
            else Inr p0) (\<lambda>p.
     rbind (builder_registry_create br c) (\<lambda>u.
     case engine_restore s (new_engine bus (Some p) (Some u)) of
       (_, Inl x) \<Rightarrow> Inl x
     | (e, Inr _) \<Rightarrow> Inr e))))"

section \<open>Properties\<close>

lemma from_dict_Inr_iff: "from_dict payload = Inr s \<longleftrightarrow> payload = Some (to_dict s)"
  by (cases payload) (auto simp: from_dict_def to_dict_def split: option.splits)

text \<open>A snapshot survives its dictionary form: \<open>from_dict\<close> reads back exactly what \<open>to_dict\<close>
  writes, and every other payload (no object, or a required key missing) is rejected as corrupted.\<close>

theorem snapshot_dict_roundtrip:
  "(from_dict payload = Inr s \<longleftrightarrow> payload = Some (to_dict s)) \<and>
   (from_dict payload = Inl CorruptedSnapshotError \<longleftrightarrow> (\<nexists>s'. payload = Some (to_dict s')))"
proof -
  have "\<exists>s'. from_dict payload = Inr s'" if "from_dict payload \<noteq> Inl CorruptedSnapshotError"
    using that by (auto simp: from_dict_def split: option.splits prod.splits)
  then show ?thesis by (auto simp: from_dict_Inr_iff) (metis from_dict_Inr_iff sum.distinct(1))
qed

text \<open>The engine a configuration is wired into, before its first candle.\<close>

definition wired_engine :: "bool \<Rightarrow> provider \<Rightarrow> builder \<Rightarrow> brick_configuration \<Rightarrow> engine" where
  "wired_engine bus p u cfg = fst (configure cfg (new_engine bus (Some p) (Some u)))"

lemma wired_engine_simps [simp]:
  "en_config (wired_engine bus p u cfg) = Some cfg" "en_provider (wired_engine bus p u cfg) = Some p"
  "en_builder (wired_engine bus p u cfg) = u" "en_injected (wired_engine bus p u cfg)"
  by (simp_all add: wired_engine_def configure_def new_engine_def)

definition wired_inv :: "provider \<Rightarrow> builder \<Rightarrow> brick_configuration \<Rightarrow> engine \<Rightarrow> bool" where
  "wired_inv p u cfg e \<longleftrightarrow> en_config e = Some cfg \<and> en_injected e \<and>
     builder_name (en_builder e) = builder_name u \<and>
     (\<exists>q. en_provider e = Some q \<and> wf_provider q \<and> provider_reset q = provider_reset p)"

lemma wired_inv_feed:
  assumes "wf_provider p"
  shows "wired_inv p u cfg (feed (process_market_data now) (wired_engine bus p u cfg) cs)"
proof (rule feed_invariant)
  show "wired_inv p u cfg (wired_engine bus p u cfg)"
    using assms by (simp add: wired_inv_def)
  show "wired_inv p u cfg (fst (process_market_data now e c))" if "wired_inv p u cfg e" for e c
  proof -
    from that obtain q where q: "en_config e = Some cfg" "en_provider e = Some q" "wf_provider q"
      "provider_reset q = provider_reset p" by (auto simp: wired_inv_def)
    then have "en_provider (fst (process_market_data now e c)) = Some (fst (provider_update q c))"
      by (intro process_provider) auto
    with q that prov.rst_upd [of q c] prov.upd_wf [of q c] show ?thesis
      by (simp add: wired_inv_def frame_simps)
  qed
qed

lemma provider_name_reset: "provider_name (provider_reset p) = provider_name p"
  by (cases p rule: provider_name.cases) simp_all

lemma live_strategy_reset: "live_strategy (Some (provider_reset p)) = live_strategy (Some p)"
  by (cases p rule: provider_name.cases) simp_all

lemma created_provider_name: "create_provider c = Inr p \<Longrightarrow> provider_name p = resolved_provider c"
proof -
  assume p: "create_provider c = Inr p"
  have k: "resolved_provider c = ''fixed'' \<and> map_sum id Leaf (new_fixed (cfg_brick_size c)) = Inr p \<or>
    resolved_provider c = ''atr'' \<and> map_sum id Leaf (atr_from_configuration c) = Inr p \<or>
    resolved_provider c = ''percentage'' \<and> map_sum id Leaf (pct_from_configuration c) = Inr p \<or>
    resolved_provider c = ''adaptive'' \<and> adaptive_from_configuration c = Inr p"
    using p by (auto simp: create_provider_def split: if_splits)
  have pct: "pct_from_configuration c = Inr l \<Longrightarrow> \<exists>q. l = PctProvider q" for l
    using new_pct_is_pct by (fastforce simp: pct_from_configuration_def rbind_Inr_iff)
  show ?thesis
    using k by (auto simp: map_sum_def adaptive_from_configuration_def rbind_Inr_iff
        dest!: fixed_atr_kind pct new_adaptive_children split: sum.splits)
qed

lemma created_live_strategy:
  assumes "create_provider c = Inr p" "create_strategy c = Inr st"
  shows "case live_strategy (Some p) of None \<Rightarrow> True | Some s \<Rightarrow> s = st"
proof (cases p rule: provider_name.cases)
  case (3 q)
  with assms(1) have "pct_from_configuration c = Inr (PctProvider q)"
    using fixed_atr_kind by (cases rule: create_provider_cases) (fastforce dest: new_adaptive_children)+
  from pct_strategy_created [OF this] assms(2) 3 show ?thesis by simp
qed simp_all

lemma created_builder_name: "create_builder c = Inr u \<Longrightarrow> builder_name u = resolved_builder c"
  by (auto simp: create_builder_def split: if_splits)

lemma create_strategy_name: "create_strategy c = Inr st \<Longrightarrow> resolved_reference_strategy c = Inr (strategy_name st)"
  by (auto simp: create_strategy_def rbind_Inr_iff builtin_strategies_def split: option.splits if_splits)

lemma builder_roundtrip: "builder_name u = builder_name u' \<Longrightarrow> builder_import u' (builder_export u) = u"
  by (cases u; cases u') simp_all

lemma restore_same_engine:
  assumes p: "create_provider cfg = Inr p" and u: "create_builder cfg = Inr u" and st: "create_strategy cfg = Inr st"
    and valid: "configuration_from_dict cfg = Inr cfg"
    and e: "e = feed (process_market_data now) (wired_engine bus p u cfg) cs"
  shows "\<exists>s. snapshot e = Inr s \<and>
    manager_restore default_providers default_strategies default_builders bus' s =
      Inr (e\<lparr>en_bus := bus', en_events := []\<rparr>)"
proof -
  from wired_inv_feed [OF create_provider_wf [OF p], of u cfg now bus cs] obtain q where
    q: "en_config e = Some cfg" "en_injected e" "builder_name (en_builder e) = builder_name u"
    "en_provider e = Some q" "wf_provider q" "provider_reset q = provider_reset p"
    unfolding e [symmetric] by (auto simp: wired_inv_def)
  define s where "s = (case snapshot e of Inr x \<Rightarrow> x)"
  have s: "snapshot e = Inr s" "es_config s = cfg" "es_version s = schema_version" "es_engine_type s = ''traditional''"
    "es_builder s = builder_export (en_builder e)" "es_history s = en_history e" "es_provider s = provider_export q"
    "es_runtime s = \<lparr>rt_state = en_state e, rt_pending = en_pending e, rt_boundary = en_boundary e, rt_published = en_published e\<rparr>"
    using q by (simp_all add: s_def snapshot_def)
  have fresh: "provider_reset q = p" using q(6) created_provider_fresh [OF p] by simp
  have imp: "provider_import p (provider_export q) = q"
    using prov.impt_expt [OF q(5)] fresh by simp
  have known: "registry_exists default_providers (resolved_provider cfg)"
    "registry_exists default_builders (resolved_builder cfg)"
    "registry_exists default_strategies (strategy_name st)"
    using p u st by (auto simp: registry_exists_def default_providers_def default_builders_def create_provider_def
        create_builder_def default_strategies_get split: if_splits)
  have val: "validate_snapshot (Some [''traditional'']) (Some default_providers) (Some default_strategies) (Some default_builders) s = Inr cfg"
    "validate_snapshot (Some [''traditional'']) None None None s = Inr cfg"
    using s known valid create_strategy_name [OF st] by (simp_all add: validate_snapshot_def)
  have inj: "takes_strategy p \<Longrightarrow> inject_strategy st p = p"
    using created_live_strategy [OF p st] by (cases p rule: provider_name.cases) auto
  have compat: "assert_compatible (Some (provider_name p)) (resolved_provider cfg) = Inr ()"
    "assert_compatible (Some (builder_name u)) (resolved_builder cfg) = Inr ()"
    "(case live_strategy (Some p) of None \<Rightarrow> Inr ()
       | Some x \<Rightarrow> rbind (resolved_reference_strategy cfg) (assert_compatible (Some (strategy_name x)))) = Inr ()"
    using created_provider_name [OF p] created_builder_name [OF u] created_live_strategy [OF p st] create_strategy_name [OF st]
    by (auto simp: assert_compatible_def split: option.split)
  have "engine_restore s (new_engine bus' (Some p) (Some u)) = (e\<lparr>en_bus := bus', en_events := []\<rparr>, Inr ())"
    using val compat s imp q builder_roundtrip [OF q(3)]
    by (simp add: engine_restore_def new_engine_def)
  then show ?thesis
    using s(1) val p u st inj
    by (auto simp: manager_restore_def provider_registry_create_default builder_registry_create_default
        strategy_registry_create_default)
qed

text \<open>C1: Snapshot and restore lose nothing: an engine wired from a valid configuration (any provider and
  builder of the default registries), snapshotted after any tape of candles and restored by the snapshot
  manager with or without a bus, is the same engine, bus and past events apart.\<close>

theorem restore_gives_same_engine:
  assumes "create_provider cfg = Inr p" "create_builder cfg = Inr u" "create_strategy cfg = Inr st"
    "configuration_from_dict cfg = Inr cfg"
    and "e = feed (process_market_data now) (wired_engine bus p u cfg) cs"
  shows "\<exists>s. snapshot e = Inr s \<and>
    manager_restore default_providers default_strategies default_builders bus' s =
      Inr (e\<lparr>en_bus := bus', en_events := []\<rparr>)"
  using assms by (rule restore_same_engine)

definition snapshot_configuration :: brick_configuration where
  "snapshot_configuration = (default_configuration BT_HYBRID 1)\<lparr>cfg_builder := Some ''hybrid'',
     cfg_provider := Some ''percentage'', cfg_percentage := Some 50\<rparr>"

definition snapshot_provider :: provider where
  "snapshot_provider = Leaf (PctProvider \<lparr>pct_percentage = 50, pct_strategy = CloseStrategy, pct_reference = None,
     pct_rounding = RND_NONE, pct_minimum = None, pct_size = None\<rparr>)"

lemma snapshot_demo:
  "create_provider snapshot_configuration = Inr snapshot_provider"
  "create_builder snapshot_configuration = Inr (HybridBuilder 0)"
  "create_strategy snapshot_configuration = Inr CloseStrategy"
  "configuration_from_dict snapshot_configuration = Inr snapshot_configuration"
  by code_simp+

theorem restore_gives_same_engine_witness:
  "\<exists>s. snapshot (feed (process_market_data 0) (wired_engine True snapshot_provider (HybridBuilder 0) snapshot_configuration)
       [flat_candle 1 2, flat_candle 2 4]) = Inr s \<and>
     manager_restore default_providers default_strategies default_builders False s =
       Inr ((feed (process_market_data 0) (wired_engine True snapshot_provider (HybridBuilder 0) snapshot_configuration)
         [flat_candle 1 2, flat_candle 2 4])\<lparr>en_bus := False, en_events := []\<rparr>)"
  by (rule restore_gives_same_engine [OF snapshot_demo refl])

text \<open>So a restored engine resumes: over any further candles it prints the very bricks, and reaches the
  very state, that the original engine does (what a bus observes apart).\<close>

theorem restored_engine_resumes:
  assumes "create_provider cfg = Inr p" "create_builder cfg = Inr u" "create_strategy cfg = Inr st"
    "configuration_from_dict cfg = Inr cfg"
    and "e = feed (process_market_data now) (wired_engine bus p u cfg) cs" "snapshot e = Inr s"
    "manager_restore default_providers default_strategies default_builders bus' s = Inr e'"
  shows "quiet (feed (process_market_data now) e' ds) =
    quiet (feed (process_market_data now) (wired_engine bus p u cfg) (cs @ ds))"
proof -
  have e': "e' = e\<lparr>en_bus := bus', en_events := []\<rparr>"
    using restore_same_engine [OF assms(1-5), of bus'] assms(6,7) by auto
  have "quiet e' = quiet e" by (simp add: e' quiet_def)
  then show ?thesis
    using bus_observes [of now e' ds] bus_observes [of now e ds] assms(5) by simp
qed

theorem restored_engine_resumes_witness:
  "let e = feed (process_market_data 0) (wired_engine True snapshot_provider (HybridBuilder 0) snapshot_configuration)
       [flat_candle 1 2, flat_candle 2 4];
     e' = e\<lparr>en_bus := False, en_events := []\<rparr>
   in quiet (feed (process_market_data 0) e' [flat_candle 3 8]) =
     quiet (feed (process_market_data 0) (wired_engine True snapshot_provider (HybridBuilder 0) snapshot_configuration)
       ([flat_candle 1 2, flat_candle 2 4] @ [flat_candle 3 8]))"
proof -
  let ?e = "feed (process_market_data 0) (wired_engine True snapshot_provider (HybridBuilder 0) snapshot_configuration)
      [flat_candle 1 2, flat_candle 2 4]"
  obtain s where "snapshot ?e = Inr s"
    "manager_restore default_providers default_strategies default_builders False s = Inr (?e\<lparr>en_bus := False, en_events := []\<rparr>)"
    using restore_same_engine [OF snapshot_demo refl] by blast
  from restored_engine_resumes [OF snapshot_demo refl this] show ?thesis
    unfolding Let_def .
qed

lemma provider_name_import: "provider_name (provider_import p st) = provider_name p"
  by (cases p rule: provider_name.cases) (auto split: option.split)

lemma builder_name_import: "builder_name (builder_import u st) = builder_name u"
  by (cases u) simp_all

text \<open>The manager never resumes into the wrong components: whatever registries it is given, a restored
  engine comes from a snapshot of the current version and a supported engine type, whose provider and builder
  are registered, runs the snapshot's configuration and history, and holds a provider and a builder of the
  kinds that configuration names.\<close>

theorem restore_is_compatible:
  assumes "manager_restore pr sr br bus s = Inr e"
  shows "es_version s = schema_version \<and> es_engine_type s = ''traditional'' \<and>
    registry_exists pr (resolved_provider (es_config s)) \<and> registry_exists br (resolved_builder (es_config s)) \<and>
    en_config e = Some (es_config s) \<and> en_history e = es_history s \<and>
    map_option provider_name (en_provider e) = Some (resolved_provider (es_config s)) \<and>
    builder_name (en_builder e) = resolved_builder (es_config s)"
proof -
  have cfg: "configuration_from_dict c = Inr c' \<Longrightarrow> c' = c" for c c'
    by (auto simp: configuration_from_dict_def)
  from assms obtain c p u where
    v: "validate_snapshot (Some [''traditional'']) (Some pr) (Some sr) (Some br) s = Inr c" and
    r: "engine_restore s (new_engine bus (Some p) (Some u)) = (e, Inr ())"
  proof -
    from assms obtain c p u where v: "validate_snapshot (Some [''traditional'']) (Some pr) (Some sr) (Some br) s = Inr c"
      and k: "(case engine_restore s (new_engine bus (Some p) (Some u)) of (_, Inl x) \<Rightarrow> Inl x | (e, Inr _) \<Rightarrow> Inr e) = Inr e"
      unfolding manager_restore_def rbind_Inr_iff by blast
    obtain e1 r where er: "engine_restore s (new_engine bus (Some p) (Some u)) = (e1, r)" by fastforce
    with k have "e1 = e" "r = Inr ()" by (auto split: sum.splits)
    with v er show ?thesis by (intro that) simp_all
  qed
  from v have v': "es_version s = schema_version" "es_engine_type s = ''traditional''" "es_config s = c"
    "registry_exists pr (resolved_provider c)" "registry_exists br (resolved_builder c)"
    by (auto simp: validate_snapshot_def rbind_Inr_iff dest: cfg split: sum.splits)
  from r v'(3) show ?thesis
    by (auto simp: engine_restore_def new_engine_def validate_snapshot_def rbind_Inr_iff assert_compatible_def v'
        provider_name_import builder_name_import dest: cfg split: sum.splits)
qed

theorem restore_is_compatible_witness:
  "\<exists>s e. manager_restore default_providers default_strategies default_builders False s = Inr e \<and>
     builder_name (en_builder e) = resolved_builder (es_config s)"
proof -
  obtain s where "manager_restore default_providers default_strategies default_builders False s =
      Inr ((feed (process_market_data 0) (wired_engine True snapshot_provider (HybridBuilder 0) snapshot_configuration)
         [flat_candle 1 2])\<lparr>en_bus := False, en_events := []\<rparr>)"
    using restore_same_engine [OF snapshot_demo refl] by blast
  with restore_is_compatible [OF this] show ?thesis by blast
qed

end
