(* ===== verification/Strategies.thy ===== *)
theory Strategies imports RenkoModels Floats begin

text \<open>
  Signals (\<open>trading/signals/models.py\<close>), the streaming indicators (\<open>trading/indicators\<close>) and the four
  built-in strategies (\<open>trading/strategy/renko_trend.py\<close>, \<open>ema_crossover.py\<close>, \<open>ema_trend.py\<close>,
  \<open>pdh_pdl_breakout.py\<close>). A strategy sees a completed brick through the attributes it reads.
\<close>

section \<open>Signals\<close>

text \<open>\<open>EXIT_LONG\<close> and \<open>EXIT_SHORT\<close> are aliases of \<open>EXIT\<close>.\<close>

datatype signal_type = SigBuy | SigSell | SigExit | SigHold

record signal =
  sg_type :: signal_type
  sg_brick :: "pystr option"
  sg_price :: "rat option"
  sg_reference :: "rat option"
  sg_metadata :: metadata

definition is_actionable :: "signal \<Rightarrow> bool" where
  "is_actionable s \<longleftrightarrow> sg_type s \<noteq> SigHold"

definition is_entry :: "signal \<Rightarrow> bool" where
  "is_entry s \<longleftrightarrow> sg_type s = SigBuy \<or> sg_type s = SigSell"

definition is_exit :: "signal \<Rightarrow> bool" where
  "is_exit s \<longleftrightarrow> sg_type s = SigExit"

definition hold_signal :: signal where
  "hold_signal = \<lparr>sg_type = SigHold, sg_brick = None, sg_price = None, sg_reference = None, sg_metadata = []\<rparr>"

section \<open>Indicators\<close>

record ema =
  em_period :: int
  em_alpha :: rat
  em_value :: "rat option"
  em_seed :: "rat list"
  em_count :: int

definition new_ema :: "int \<Rightarrow> ema result" where
  "new_ema n = (if n \<le> 0 then Inl ValueError
     else Inr \<lparr>em_period = n, em_alpha = fdiv 2 (b64 (of_int (n + 1))), em_value = None, em_seed = [], em_count = 0\<rparr>)"

definition ema_update :: "rat \<Rightarrow> ema \<Rightarrow> ema" where
  "ema_update x e =
     (let v = b64 x; e1 = e\<lparr>em_count := em_count e + 1\<rparr> in
      case em_value e of
        None \<Rightarrow>
          (let e2 = e1\<lparr>em_seed := em_seed e @ [v]\<rparr> in
           if int (length (em_seed e2)) = em_period e
           then e2\<lparr>em_value := Some (fdiv (py_sum (em_seed e2)) (b64 (of_int (em_period e))))\<rparr> else e2)
      | Some y \<Rightarrow> e1\<lparr>em_value := Some (fadd (fmul (em_alpha e) v) (fmul (fsub 1 (em_alpha e)) y))\<rparr>)"

definition ema_ready :: "ema \<Rightarrow> bool" where
  "ema_ready e \<longleftrightarrow> em_value e \<noteq> None"

definition ema_reset :: "ema \<Rightarrow> ema" where
  "ema_reset e = e\<lparr>em_value := None, em_seed := [], em_count := 0\<rparr>"

record sma =
  sm_period :: int
  sm_window :: "rat list"
  sm_sum :: rat

definition new_sma :: "int \<Rightarrow> sma result" where
  "new_sma n = (if n \<le> 0 then Inl ValueError else Inr \<lparr>sm_period = n, sm_window = [], sm_sum = 0\<rparr>)"

definition sma_ready :: "sma \<Rightarrow> bool" where
  "sma_ready s \<longleftrightarrow> int (length (sm_window s)) = sm_period s"

definition sma_value :: "sma \<Rightarrow> rat option" where
  "sma_value s = (if sma_ready s then Some (fdiv (sm_sum s) (b64 (of_int (sm_period s)))) else None)"

definition sma_update :: "rat \<Rightarrow> sma \<Rightarrow> sma" where
  "sma_update x s =
     (let v = b64 x; s1 = s\<lparr>sm_window := sm_window s @ [v], sm_sum := fadd (sm_sum s) v\<rparr> in
      if sm_period s < int (length (sm_window s1))
      then s1\<lparr>sm_sum := fsub (sm_sum s1) (hd (sm_window s1)), sm_window := tl (sm_window s1)\<rparr> else s1)"

definition sma_reset :: "sma \<Rightarrow> sma" where
  "sma_reset s = s\<lparr>sm_window := [], sm_sum := 0\<rparr>"

section \<open>What a strategy sees\<close>

record seen_brick =
  sb_id :: pystr
  sb_direction :: brick_direction
  sb_close :: rat
  sb_created :: time
  sb_pdh :: "rat option"
  sb_pdl :: "rat option"
  sb_symbol :: "pystr option"

record market_bar =
  mb_symbol :: pystr
  mb_time :: time
  mb_open :: rat
  mb_high :: rat
  mb_low :: rat
  mb_close :: rat
  mb_volume :: rat

text \<open>The validation of \<open>MarketBar\<close> for a timestamp in UTC; \<open>MalformedData\<close> is a \<open>ValidationFailed\<close> here.\<close>

definition new_market_bar :: "pystr \<Rightarrow> time \<Rightarrow> rat \<Rightarrow> rat \<Rightarrow> rat \<Rightarrow> rat \<Rightarrow> rat \<Rightarrow> market_bar result" where
  "new_market_bar name t o1 h l c v =
     (if o1 < 0 \<or> h < 0 \<or> l < 0 \<or> c < 0 then Inl ValidationFailed
      else if v < 0 then Inl ValidationFailed
      else if \<not> (l \<le> o1 \<and> o1 \<le> h \<and> l \<le> c \<and> c \<le> h) then Inl ValidationFailed
      else Inr \<lparr>mb_symbol = name, mb_time = t, mb_open = o1, mb_high = h, mb_low = l, mb_close = c, mb_volume = v\<rparr>)"

datatype strat_position = Flat | Long | Short

definition position_value :: "strat_position \<Rightarrow> pystr" where
  "position_value p = (case p of Flat \<Rightarrow> ''flat'' | Long \<Rightarrow> ''long'' | Short \<Rightarrow> ''short'')"

section \<open>The strategies\<close>

subsection \<open>Renko trend\<close>

record renko_trend =
  rt_length :: int
  rt_direction :: "brick_direction option"
  rt_streak :: int
  rt_position :: strat_position
  rt_brick :: "seen_brick option"
  rt_signal :: signal

definition new_renko_trend :: "int \<Rightarrow> renko_trend result" where
  "new_renko_trend n = (if n \<le> 0 then Inl ValueError
     else Inr \<lparr>rt_length = n, rt_direction = None, rt_streak = 0, rt_position = Flat, rt_brick = None, rt_signal = hold_signal\<rparr>)"

definition renko_trend_reset :: "renko_trend \<Rightarrow> renko_trend" where
  "renko_trend_reset s = s\<lparr>rt_direction := None, rt_streak := 0, rt_position := Flat, rt_brick := None, rt_signal := hold_signal\<rparr>"

definition direction_value :: "brick_direction \<Rightarrow> pystr" where
  "direction_value d = (case d of UP \<Rightarrow> ''up'' | DOWN \<Rightarrow> ''down'' | NEUTRAL \<Rightarrow> ''neutral'')"

definition renko_trend_signal :: "signal_type \<Rightarrow> renko_trend \<Rightarrow> signal" where
  "renko_trend_signal ty s = \<lparr>sg_type = ty, sg_brick = map_option sb_id (rt_brick s), sg_price = map_option sb_close (rt_brick s),
     sg_reference = Some (b64 (of_int (rt_streak s))),
     sg_metadata = [(''strategy'', PStr ''renko_trend''), (''position'', PStr (position_value (rt_position s))),
       (''trend_length'', PInt (rt_length s)), (''streak'', PInt (rt_streak s)),
       (''direction'', case rt_direction s of None \<Rightarrow> PNone | Some d \<Rightarrow> PStr (direction_value d))]\<rparr>"

definition renko_trend_decide :: "brick_direction \<Rightarrow> renko_trend \<Rightarrow> renko_trend \<times> signal_type" where
  "renko_trend_decide d s =
     (if d = UP then
        (if rt_position s = Short then (s\<lparr>rt_position := Flat\<rparr>, SigExit)
         else if rt_position s = Flat \<and> rt_length s \<le> rt_streak s then (s\<lparr>rt_position := Long\<rparr>, SigBuy)
         else (s, SigHold))
      else
        (if rt_position s = Long then (s\<lparr>rt_position := Flat\<rparr>, SigExit)
         else if rt_position s = Flat \<and> rt_length s \<le> rt_streak s then (s\<lparr>rt_position := Short\<rparr>, SigSell)
         else (s, SigHold)))"

definition renko_trend_on_brick :: "seen_brick \<Rightarrow> renko_trend \<Rightarrow> renko_trend" where
  "renko_trend_on_brick b s0 =
     (let s = s0\<lparr>rt_brick := Some b\<rparr>; d = sb_direction b in
      if d = NEUTRAL then s\<lparr>rt_signal := renko_trend_signal SigHold s\<rparr>
      else
        (let s1 = (if rt_direction s = Some d then s\<lparr>rt_streak := rt_streak s + 1\<rparr> else s\<lparr>rt_direction := Some d, rt_streak := 1\<rparr>);
             (s2, ty) = renko_trend_decide d s1
         in s2\<lparr>rt_signal := renko_trend_signal ty s2\<rparr>))"

subsection \<open>Trading against a reference value\<close>

text \<open>
  The decision the three breakout strategies share in their code: with \<open>hi\<close> and \<open>lo\<close> the levels for
  a bullish and a bearish price, the next position and the signal.
\<close>

definition breakout_decide :: "rat \<Rightarrow> rat \<Rightarrow> rat \<Rightarrow> strat_position \<Rightarrow> strat_position \<times> signal_type" where
  "breakout_decide price hi lo p =
     (if hi < price then
        (case p of Short \<Rightarrow> (Flat, SigExit) | Flat \<Rightarrow> (Long, SigBuy) | Long \<Rightarrow> (p, SigHold))
      else if price < lo then
        (case p of Long \<Rightarrow> (Flat, SigExit) | Flat \<Rightarrow> (Short, SigSell) | Short \<Rightarrow> (p, SigHold))
      else (p, SigHold))"

subsection \<open>EMA crossover\<close>

record ema_crossover =
  xc_period :: int
  xc_ema :: ema
  xc_brick :: "seen_brick option"
  xc_position :: strat_position

definition new_ema_crossover :: "int \<Rightarrow> ema_crossover result" where
  "new_ema_crossover n = rbind (new_ema n) (\<lambda>e. Inr \<lparr>xc_period = n, xc_ema = e, xc_brick = None, xc_position = Flat\<rparr>)"

definition ema_crossover_reset :: "ema_crossover \<Rightarrow> ema_crossover" where
  "ema_crossover_reset s = s\<lparr>xc_ema := ema_reset (xc_ema s), xc_brick := None, xc_position := Flat\<rparr>"

definition ema_crossover_on_brick :: "seen_brick \<Rightarrow> ema_crossover \<Rightarrow> ema_crossover" where
  "ema_crossover_on_brick b s = s\<lparr>xc_brick := Some b, xc_ema := ema_update (sb_close b) (xc_ema s)\<rparr>"

definition ema_crossover_signal :: "signal_type \<Rightarrow> ema_crossover \<Rightarrow> signal" where
  "ema_crossover_signal ty s = \<lparr>sg_type = ty, sg_brick = map_option sb_id (xc_brick s),
     sg_price = map_option sb_close (xc_brick s), sg_reference = em_value (xc_ema s),
     sg_metadata = [(''position'', PStr (position_value (xc_position s))), (''period'', PInt (xc_period s))]\<rparr>"

text \<open>\<open>generate_signal\<close>, which moves the position.\<close>

definition ema_crossover_generate :: "ema_crossover \<Rightarrow> ema_crossover \<times> signal" where
  "ema_crossover_generate s = (case (xc_brick s, em_value (xc_ema s)) of
       (Some b, Some e) \<Rightarrow>
         (let (p, ty) = breakout_decide (sb_close b) e e (xc_position s); s' = s\<lparr>xc_position := p\<rparr>
          in (s', ema_crossover_signal ty s'))
     | _ \<Rightarrow> (s, ema_crossover_signal SigHold s))"

subsection \<open>EMA trend\<close>

record ema_trend =
  et_period :: int
  et_ema :: ema
  et_price :: "rat option"
  et_brick :: "seen_brick option"
  et_position :: strat_position
  et_signal :: signal

definition new_ema_trend :: "int \<Rightarrow> ema_trend result" where
  "new_ema_trend n = (if n \<le> 0 then Inl ValueError else rbind (new_ema n) (\<lambda>e. Inr \<lparr>et_period = n, et_ema = e,
     et_price = None, et_brick = None, et_position = Flat, et_signal = hold_signal\<rparr>))"

definition ema_trend_reset :: "ema_trend \<Rightarrow> ema_trend" where
  "ema_trend_reset s = s\<lparr>et_ema := ema_reset (et_ema s), et_price := None, et_brick := None, et_position := Flat, et_signal := hold_signal\<rparr>"

definition ema_trend_decide :: "rat \<Rightarrow> seen_brick option \<Rightarrow> ema_trend \<Rightarrow> ema_trend" where
  "ema_trend_decide price b s =
     (let (p, ty) = (case em_value (et_ema s) of None \<Rightarrow> (et_position s, SigHold) | Some e \<Rightarrow> breakout_decide price e e (et_position s));
          s' = s\<lparr>et_position := p\<rparr>
      in s'\<lparr>et_signal := \<lparr>sg_type = ty, sg_brick = map_option sb_id b, sg_price = Some price, sg_reference = em_value (et_ema s),
            sg_metadata = [(''strategy'', PStr ''ema_trend''), (''position'', PStr (position_value p)), (''period'', PInt (et_period s))]\<rparr>\<rparr>)"

definition ema_trend_on_brick :: "seen_brick \<Rightarrow> ema_trend \<Rightarrow> ema_trend" where
  "ema_trend_on_brick b s = (let x = b64 (sb_close b) in
     ema_trend_decide x (Some b) (s\<lparr>et_brick := Some b, et_price := Some x, et_ema := ema_update x (et_ema s)\<rparr>))"

definition ema_trend_on_bar :: "market_bar \<Rightarrow> ema_trend \<Rightarrow> ema_trend" where
  "ema_trend_on_bar m s = (let x = b64 (mb_close m) in
     ema_trend_decide x None (s\<lparr>et_brick := None, et_price := Some x, et_ema := ema_update x (et_ema s)\<rparr>))"

subsection \<open>Previous-day breakout\<close>

record session_range =
  sr_day :: int
  sr_high :: rat
  sr_low :: rat

definition extend_range :: "rat \<Rightarrow> rat \<Rightarrow> session_range \<Rightarrow> session_range" where
  "extend_range h l r = r\<lparr>sr_high := max (sr_high r) h, sr_low := min (sr_low r) l\<rparr>"

record pdh_breakout =
  pb_buffer :: rat
  pb_previous :: "session_range option"
  pb_current :: "session_range option"
  pb_position :: strat_position
  pb_signal :: signal
  pb_price :: "rat option"
  pb_brick :: "seen_brick option"

definition new_pdh :: "rat \<Rightarrow> pdh_breakout result" where
  "new_pdh buffer = (if buffer < 0 then Inl ValueError else Inr \<lparr>pb_buffer = b64 buffer, pb_previous = None, pb_current = None,
     pb_position = Flat, pb_signal = hold_signal, pb_price = None, pb_brick = None\<rparr>)"

definition pdh_reset :: "pdh_breakout \<Rightarrow> pdh_breakout" where
  "pdh_reset s = s\<lparr>pb_previous := None, pb_current := None, pb_position := Flat, pb_signal := hold_signal, pb_price := None, pb_brick := None\<rparr>"

definition update_session :: "int \<Rightarrow> rat \<Rightarrow> rat \<Rightarrow> pdh_breakout \<Rightarrow> pdh_breakout" where
  "update_session day h l s = (case pb_current s of
       None \<Rightarrow> s\<lparr>pb_current := Some \<lparr>sr_day = day, sr_high = h, sr_low = l\<rparr>\<rparr>
     | Some r \<Rightarrow>
         if sr_day r = day then s\<lparr>pb_current := Some (extend_range h l r)\<rparr>
         else s\<lparr>pb_previous := Some r, pb_current := Some \<lparr>sr_day = day, sr_high = h, sr_low = l\<rparr>\<rparr>)"

definition pdh_decide :: "rat \<Rightarrow> seen_brick option \<Rightarrow> pdh_breakout \<Rightarrow> pdh_breakout" where
  "pdh_decide price b s =
     (let (p, ty, ref) = (case pb_previous s of None \<Rightarrow> (pb_position s, SigHold, None)
            | Some r \<Rightarrow>
                (let hi = fadd (sr_high r) (pb_buffer s); lo = fsub (sr_low r) (pb_buffer s);
                     (p, ty) = breakout_decide price hi lo (pb_position s)
                 in (p, ty, if hi < price then Some hi else if price < lo then Some lo else None)))
      in s\<lparr>pb_position := p, pb_signal := \<lparr>sg_type = ty, sg_brick = map_option sb_id b, sg_price = Some price, sg_reference = ref,
            sg_metadata = [(''strategy'', PStr ''pdh_pdl_breakout''), (''position'', PStr (position_value p)),
              (''buffer'', PFloat (pb_buffer s)),
              (''previous_day_high'', case pb_previous s of None \<Rightarrow> PNone | Some r \<Rightarrow> PFloat (sr_high r)),
              (''previous_day_low'', case pb_previous s of None \<Rightarrow> PNone | Some r \<Rightarrow> PFloat (sr_low r))]\<rparr>\<rparr>)"

definition pdh_on_bar :: "market_bar \<Rightarrow> pdh_breakout \<Rightarrow> pdh_breakout" where
  "pdh_on_bar m s = pdh_decide (b64 (mb_close m)) None
     (update_session (day_of (mb_time m)) (b64 (mb_high m)) (b64 (mb_low m)) (s\<lparr>pb_brick := None, pb_price := Some (b64 (mb_close m))\<rparr>))"

definition pdh_on_brick :: "seen_brick \<Rightarrow> pdh_breakout \<Rightarrow> pdh_breakout" where
  "pdh_on_brick b s =
     (let s1 = s\<lparr>pb_brick := Some b, pb_price := Some (b64 (sb_close b))\<rparr>;
          s2 = (case (sb_pdh b, sb_pdl b) of
             (Some h, Some l) \<Rightarrow> s1\<lparr>pb_previous := Some \<lparr>sr_day = day_of (sb_created b), sr_high = b64 h, sr_low = b64 l\<rparr>\<rparr>
           | _ \<Rightarrow> s1)
      in pdh_decide (b64 (sb_close b)) (Some b) s2)"

section \<open>The contract of a strategy\<close>

text \<open>
  Entries are made from flat only, an exit ends a position, a hold keeps it: the moves a signal
  may make. \<open>None\<close> marks a move that no strategy may make.
\<close>

fun next_position :: "strat_position \<Rightarrow> signal_type \<Rightarrow> strat_position option" where
  "next_position Flat SigBuy = Some Long"
| "next_position Flat SigSell = Some Short"
| "next_position Flat SigExit = None"
| "next_position p SigHold = Some p"
| "next_position p SigExit = Some Flat"
| "next_position p t = None"

fun legal_run :: "strat_position \<Rightarrow> signal_type list \<Rightarrow> bool" where
  "legal_run p [] = True"
| "legal_run p (t # ts) = (case next_position p t of None \<Rightarrow> False | Some q \<Rightarrow> legal_run q ts)"

fun run_signals :: "('s \<Rightarrow> 'i \<Rightarrow> 's \<times> signal) \<Rightarrow> 's \<Rightarrow> 'i list \<Rightarrow> 's \<times> signal list" where
  "run_signals f s [] = (s, [])"
| "run_signals f s (x # xs) = (let (s1, g) = f s x; (s2, gs) = run_signals f s1 xs in (s2, g # gs))"

definition entries :: "signal list \<Rightarrow> nat" where
  "entries gs = length (filter is_entry gs)"

definition exits :: "signal list \<Rightarrow> nat" where
  "exits gs = length (filter is_exit gs)"

locale signal_strategy =
  fixes observe :: "'s \<Rightarrow> 'i \<Rightarrow> 's \<times> signal" and position :: "'s \<Rightarrow> strat_position"
  assumes legal: "next_position (position s) (sg_type (snd (observe s x))) = Some (position (fst (observe s x)))"
begin

lemma run_is_legal: "legal_run (position s) (map sg_type (snd (run_signals observe s xs)))"
proof (induction xs arbitrary: s)
  case (Cons x xs)
  obtain s1 g where 1: "observe s x = (s1, g)" by (cases "observe s x")
  with legal [of s x] Cons.IH [of s1] show ?case
    by (auto split: prod.split simp: Let_def)
qed simp

text \<open>Entries and exits alternate: there is at most one entry more, exactly when a position is held.\<close>

lemma run_alternates:
  "int (entries (snd (run_signals observe s xs))) + of_bool (position s \<noteq> Flat) =
   int (exits (snd (run_signals observe s xs))) + of_bool (position (fst (run_signals observe s xs)) \<noteq> Flat)"
proof (induction xs arbitrary: s)
  case (Cons x xs)
  obtain s1 g where 1: "observe s x = (s1, g)" by (cases "observe s x")
  obtain s2 gs where 2: "run_signals observe s1 xs = (s2, gs)" by (cases "run_signals observe s1 xs")
  from Cons.IH [of s1] legal [of s x] 1 2 show ?case
    by (cases "position s"; cases "sg_type g") (auto simp: entries_def exits_def is_entry_def is_exit_def)
qed (simp add: entries_def exits_def)

lemma alternates_from_flat:
  assumes "position s = Flat"
  shows "entries (snd (run_signals observe s xs)) =
    exits (snd (run_signals observe s xs)) + of_bool (position (fst (run_signals observe s xs)) \<noteq> Flat)"
  using run_alternates [of s xs] assms
  by (cases "position (fst (run_signals observe s xs)) = Flat") simp_all

end

definition renko_trend_observe :: "renko_trend \<Rightarrow> seen_brick \<Rightarrow> renko_trend \<times> signal" where
  "renko_trend_observe s b = (let s' = renko_trend_on_brick b s in (s', rt_signal s'))"

definition ema_crossover_observe :: "ema_crossover \<Rightarrow> seen_brick \<Rightarrow> ema_crossover \<times> signal" where
  "ema_crossover_observe s b = ema_crossover_generate (ema_crossover_on_brick b s)"

definition ema_trend_observe :: "ema_trend \<Rightarrow> seen_brick \<Rightarrow> ema_trend \<times> signal" where
  "ema_trend_observe s b = (let s' = ema_trend_on_brick b s in (s', et_signal s'))"

definition pdh_observe :: "pdh_breakout \<Rightarrow> seen_brick \<Rightarrow> pdh_breakout \<times> signal" where
  "pdh_observe s b = (let s' = pdh_on_brick b s in (s', pb_signal s'))"

lemma breakout_decide_legal:
  "breakout_decide price hi low p = (p', ty) \<Longrightarrow> next_position p ty = Some p'"
  by (cases p) (auto simp: breakout_decide_def split: if_splits)

lemma next_position_hold [simp]: "next_position p SigHold = Some p"
  by (cases p) simp_all

lemma breakout_decide_next:
  "next_position p (snd (breakout_decide price hi low p)) = Some (fst (breakout_decide price hi low p))"
  by (rule breakout_decide_legal) simp

lemma ema_trend_decide_next:
  "next_position (et_position s) (sg_type (et_signal (ema_trend_decide x b s))) = Some (et_position (ema_trend_decide x b s))"
  by (cases "em_value (et_ema s)") (simp_all add: ema_trend_decide_def case_prod_beta breakout_decide_next Let_def)

lemma pdh_decide_next:
  "next_position (pb_position s) (sg_type (pb_signal (pdh_decide x b s))) = Some (pb_position (pdh_decide x b s))"
  by (cases "pb_previous s") (simp_all add: pdh_decide_def case_prod_beta breakout_decide_next Let_def)

interpretation renko: signal_strategy renko_trend_observe rt_position
proof
  show "next_position (rt_position s) (sg_type (snd (renko_trend_observe s b))) = Some (rt_position (fst (renko_trend_observe s b)))"
    for s b
    by (cases "rt_position s") (auto simp: renko_trend_observe_def renko_trend_on_brick_def renko_trend_decide_def
        renko_trend_signal_def Let_def split: if_splits)
qed

interpretation crossover: signal_strategy ema_crossover_observe xc_position
proof
  show "next_position (xc_position s) (sg_type (snd (ema_crossover_observe s b))) = Some (xc_position (fst (ema_crossover_observe s b)))"
    for s b
    by (simp add: ema_crossover_observe_def ema_crossover_on_brick_def ema_crossover_generate_def
        ema_crossover_signal_def Let_def case_prod_beta breakout_decide_next split: option.split)
qed

interpretation trend: signal_strategy ema_trend_observe et_position
proof
  show "next_position (et_position s) (sg_type (snd (ema_trend_observe s b))) = Some (et_position (fst (ema_trend_observe s b)))"
    for s b
    by (simp add: ema_trend_observe_def ema_trend_on_brick_def Let_def)
      (rule trans [OF arg_cong2 [where f = next_position, OF _ refl] ema_trend_decide_next], simp)
qed

interpretation breakout: signal_strategy pdh_observe pb_position
proof
  show "next_position (pb_position s) (sg_type (snd (pdh_observe s b))) = Some (pb_position (fst (pdh_observe s b)))"
    for s b
    by (simp add: pdh_observe_def pdh_on_brick_def Let_def)
      (rule trans [OF arg_cong2 [where f = next_position, OF _ refl] pdh_decide_next], simp split: option.split)
qed

text \<open>Bars drive the EMA trend and the breakout strategy through the same decision.\<close>

definition ema_trend_observe_bar :: "ema_trend \<Rightarrow> market_bar \<Rightarrow> ema_trend \<times> signal" where
  "ema_trend_observe_bar s m = (let s' = ema_trend_on_bar m s in (s', et_signal s'))"

definition pdh_observe_bar :: "pdh_breakout \<Rightarrow> market_bar \<Rightarrow> pdh_breakout \<times> signal" where
  "pdh_observe_bar s m = (let s' = pdh_on_bar m s in (s', pb_signal s'))"

lemma update_session_position [simp]: "pb_position (update_session d h l s) = pb_position s"
  by (simp add: update_session_def split: option.split)

interpretation trend_bars: signal_strategy ema_trend_observe_bar et_position
proof
  show "next_position (et_position s) (sg_type (snd (ema_trend_observe_bar s b))) = Some (et_position (fst (ema_trend_observe_bar s b)))"
    for s b
    by (simp add: ema_trend_observe_bar_def ema_trend_on_bar_def Let_def)
      (rule trans [OF arg_cong2 [where f = next_position, OF _ refl] ema_trend_decide_next], simp)
qed

interpretation breakout_bars: signal_strategy pdh_observe_bar pb_position
proof
  show "next_position (pb_position s) (sg_type (snd (pdh_observe_bar s b))) = Some (pb_position (fst (pdh_observe_bar s b)))"
    for s b
    by (simp add: pdh_observe_bar_def pdh_on_bar_def Let_def)
      (rule trans [OF arg_cong2 [where f = next_position, OF _ refl] pdh_decide_next], simp)
qed

section \<open>The indicators against their definitions\<close>

text \<open>The EMA by its definition: the mean of the first \<open>n\<close> values, then the recurrence over the others.\<close>

definition ema_reference :: "int \<Rightarrow> rat list \<Rightarrow> rat option" where
  "ema_reference n xs = (if int (length xs) < n then None
     else Some (foldl (\<lambda>y v. fadd (fmul (fdiv 2 (b64 (of_int (n + 1)))) v) (fmul (fsub 1 (fdiv 2 (b64 (of_int (n + 1))))) y))
       (fdiv (py_sum (take (nat n) xs)) (b64 (of_int n))) (drop (nat n) xs)))"

definition ema_feed :: "ema \<Rightarrow> rat list \<Rightarrow> ema" where
  "ema_feed e xs = foldl (\<lambda>e x. ema_update x e) e xs"

lemma ema_seeding:
  assumes "new_ema n = Inr e" "int (length xs) < n"
  shows "ema_feed e xs = e\<lparr>em_seed := map b64 xs, em_count := int (length xs)\<rparr>"
  using assms(2)
proof (induction xs rule: rev_induct)
  case Nil
  with assms(1) show ?case by (auto simp: ema_feed_def new_ema_def)
next
  case (snoc x xs)
  with assms(1) show ?case by (auto simp: ema_feed_def ema_update_def new_ema_def Let_def)
qed

lemma ema_seeded:
  assumes "new_ema n = Inr e" "int (length xs) = n"
  shows "ema_feed e xs = e\<lparr>em_seed := map b64 xs, em_count := n,
    em_value := Some (fdiv (py_sum (map b64 xs)) (b64 (of_int n)))\<rparr>"
proof -
  have "0 < n" using assms(1) by (auto simp: new_ema_def)
  then obtain ys y where xs: "xs = ys @ [y]" using assms(2) by (cases xs rule: rev_cases) auto
  then have "ema_feed e ys = e\<lparr>em_seed := map b64 ys, em_count := int (length ys)\<rparr>"
    using assms by (intro ema_seeding) auto
  then show ?thesis using assms xs by (auto simp: ema_feed_def ema_update_def new_ema_def Let_def)
qed

lemma ema_tracking:
  assumes "em_value e = Some y"
  shows "em_value (ema_feed e xs) =
    Some (foldl (\<lambda>y v. fadd (fmul (em_alpha e) v) (fmul (fsub 1 (em_alpha e)) y)) y (map b64 xs))"
  using assms
proof (induction xs arbitrary: e y)
  case (Cons x xs)
  have "em_value (ema_update x e) = Some (fadd (fmul (em_alpha e) (b64 x)) (fmul (fsub 1 (em_alpha e)) y))"
    "em_alpha (ema_update x e) = em_alpha e"
    using Cons.prems by (simp_all add: ema_update_def Let_def)
  from Cons.IH [OF this(1)] this(2) show ?case by (simp add: ema_feed_def)
qed (simp add: ema_feed_def)

lemma sma_step_whole:
  assumes "sm_period s = n" "0 < n" "sm_sum s = sum_list (sm_window s)" "\<forall>v\<in>set (sm_window s). v \<in> \<int> \<and> \<bar>v\<bar> \<le> M"
    and "x \<in> \<int>" "\<bar>x\<bar> \<le> M" "int (length (sm_window s)) \<le> n" "of_int (n + 1) * M \<le> 9007199254740992"
  shows "sm_window (sma_update x s) = drop (Suc (length (sm_window s)) - nat n) (sm_window s @ [x])"
    and "sm_sum (sma_update x s) = sum_list (sm_window (sma_update x s))" "sm_period (sma_update x s) = n"
proof -
  have M: "0 \<le> M" using assms(6) by linarith
  have sum_bound: "\<bar>sum_list w\<bar> \<le> of_nat (length w) * M" if "\<forall>v\<in>set w. \<bar>v\<bar> \<le> M" for w
    using that by (induction w) (auto simp: distrib_right abs_le_iff)
  have le: "of_nat k * M \<le> 9007199254740992" if "int k \<le> n + 1" for k
  proof -
    have "(of_nat k :: rat) = of_int (int k)" by simp
    also have "\<dots> * M \<le> of_int (n + 1) * M" using that M by (intro mult_right_mono) (simp_all only: of_int_le_iff)
    finally show ?thesis using assms(8) by linarith
  qed
  have x: "b64 x = x" using le [of 1] assms(2,5,6) by (intro b64_Ints) auto
  let ?w = "sm_window s @ [x]"
  have w: "\<forall>v\<in>set ?w. v \<in> \<int> \<and> \<bar>v\<bar> \<le> M" using assms(4-6) by auto
  have ints: "\<forall>v\<in>set u. v \<in> \<int> \<Longrightarrow> sum_list u \<in> \<int>" for u :: "rat list" by (induction u) auto
  have bnd: "\<bar>sum_list u\<bar> \<le> 9007199254740992" if "set u \<subseteq> set ?w" "length u \<le> length ?w" for u
  proof -
    have "\<bar>sum_list u\<bar> \<le> of_nat (length u) * M" using that(1) w by (intro sum_bound) auto
    also have "\<dots> \<le> 9007199254740992" using that(2) assms(7) by (intro le) auto
    finally show ?thesis .
  qed
  have f1: "fadd (sm_sum s) x = sum_list ?w"
    using bnd [of ?w] ints [of ?w] w assms(3) by (simp add: fadd_def b64_Ints)
  have f2: "fsub (sum_list ?w) (hd ?w) = sum_list (tl ?w)"
  proof -
    obtain v u where vu: "?w = v # u" by (cases ?w) auto
    then have "set u \<subseteq> set ?w" "length u \<le> length ?w" by auto
    from bnd [OF this] have "\<bar>sum_list u\<bar> \<le> 9007199254740992" .
    moreover have "sum_list u \<in> \<int>" using ints [of u] w vu by auto
    ultimately show ?thesis unfolding vu by (simp add: fsub_def b64_Ints)
  qed
  have "sma_update x s = (if int (length (sm_window s)) = n then s\<lparr>sm_window := tl ?w, sm_sum := sum_list (tl ?w)\<rparr>
      else s\<lparr>sm_window := ?w, sm_sum := sum_list ?w\<rparr>)"
    unfolding sma_update_def Let_def x using assms(1,7) f1 f2 by simp
  moreover have "drop (Suc (length (sm_window s)) - nat n) ?w = (if int (length (sm_window s)) = n then tl ?w else ?w)"
    using assms(2,7) by (auto simp: drop_Suc)
  ultimately show "sm_window (sma_update x s) = drop (Suc (length (sm_window s)) - nat n) ?w"
    "sm_sum (sma_update x s) = sum_list (sm_window (sma_update x s))" "sm_period (sma_update x s) = n"
    using assms(1) by simp_all
qed

section \<open>Properties\<close>

text \<open>The streaming EMA is the textbook one: after any values it is not ready while fewer than its
  period have been seen, and from then on equals the mean of the first period values advanced by the
  recurrence over the rest, operation for operation.\<close>

theorem ema_matches_reference:
  assumes "new_ema n = Inr e"
  shows "em_value (ema_feed e xs) = ema_reference n (map b64 xs)"
proof (cases "int (length xs) < n")
  case True
  from ema_seeding [OF assms this] assms True show ?thesis by (auto simp: ema_reference_def new_ema_def)
next
  case False
  have n: "0 < n" "em_alpha e = fdiv 2 (b64 (of_int (n + 1)))" using assms by (auto simp: new_ema_def)
  define ys where "ys = take (nat n) xs"
  have "int (length ys) = n" using False n(1) by (simp add: ys_def)
  note seed = ema_seeded [OF assms this]
  have feed: "ema_feed e xs = ema_feed (ema_feed e ys) (drop (nat n) xs)"
    unfolding ema_feed_def ys_def foldl_append [symmetric] by simp
  have "em_value (ema_feed e ys) = Some (fdiv (py_sum (map b64 ys)) (b64 (of_int n)))" "em_alpha (ema_feed e ys) = em_alpha e"
    unfolding seed by simp_all
  from ema_tracking [OF this(1), of "drop (nat n) xs"] this(2) show ?thesis
    using False n by (simp add: feed ema_reference_def ys_def take_map drop_map)
qed

theorem ema_matches_reference_witness:
  "em_value (ema_feed \<lparr>em_period = 3, em_alpha = fdiv 2 4, em_value = None, em_seed = [], em_count = 0\<rparr> [1, 2, 6, 5]) =
     ema_reference 3 (map b64 [1, 2, 6, 5])"
  by (rule ema_matches_reference) (simp add: new_ema_def)

text \<open>On whole numbers the running-sum SMA never drifts: after any number of updates its window is
  the last period values, its sum is exactly their sum, and its value, once a full window has been seen, is
  their mean.\<close>

theorem sma_matches_window:
  assumes "new_sma n = Inr s" "\<forall>x\<in>set xs. x \<in> \<int> \<and> \<bar>x\<bar> \<le> M" "of_int (n + 1) * M \<le> 9007199254740992"
  shows "sm_window (foldl (\<lambda>s x. sma_update x s) s xs) = drop (length xs - nat n) xs \<and>
    sm_sum (foldl (\<lambda>s x. sma_update x s) s xs) = sum_list (drop (length xs - nat n) xs) \<and>
    sma_value (foldl (\<lambda>s x. sma_update x s) s xs) =
      (if int (length xs) < n then None else Some (fdiv (sum_list (drop (length xs - nat n) xs)) (b64 (of_int n))))"
proof -
  have n: "0 < n" using assms(1) by (auto simp: new_sma_def)
  have "sm_window (foldl (\<lambda>s x. sma_update x s) s xs) = drop (length xs - nat n) xs \<and>
    sm_sum (foldl (\<lambda>s x. sma_update x s) s xs) = sum_list (drop (length xs - nat n) xs) \<and>
    sm_period (foldl (\<lambda>s x. sma_update x s) s xs) = n"
    using assms(2)
  proof (induction xs rule: rev_induct)
    case Nil
    with assms(1) show ?case by (auto simp: new_sma_def)
  next
    case (snoc x xs)
    define t where "t = foldl (\<lambda>s x. sma_update x s) s xs"
    have t: "sm_window t = drop (length xs - nat n) xs" "sm_sum t = sum_list (sm_window t)" "sm_period t = n"
      using snoc by (simp_all add: t_def)
    have "\<forall>v\<in>set (sm_window t). v \<in> \<int> \<and> \<bar>v\<bar> \<le> M"
      using snoc.prems set_drop_subset [of "length xs - nat n" xs] by (auto simp: t(1))
    moreover have "int (length (sm_window t)) \<le> n" using n by (simp add: t(1))
    ultimately have u: "sm_window (sma_update x t) = drop (Suc (length (sm_window t)) - nat n) (sm_window t @ [x])"
      "sm_sum (sma_update x t) = sum_list (sm_window (sma_update x t))" "sm_period (sma_update x t) = n"
      using sma_step_whole [OF t(3) n t(2), of M x] snoc.prems assms(3) by simp_all
    have "sm_window (sma_update x t) = drop (length (xs @ [x]) - nat n) (xs @ [x])"
      unfolding u(1) t(1) using n by (cases "nat n \<le> length xs") (auto simp: Suc_diff_le)
    then show ?case using u(2,3) by (simp add: t_def)
  qed
  then show ?thesis using n by (auto simp: sma_value_def sma_ready_def)
qed

theorem sma_matches_window_witness:
  "sm_window (foldl (\<lambda>s x. sma_update x s) \<lparr>sm_period = 2, sm_window = [], sm_sum = 0\<rparr> [4, 6, 8]) = [6, 8]"
  using sma_matches_window [of 2 "\<lparr>sm_period = 2, sm_window = [], sm_sum = 0\<rparr>" "[4, 6, 8]" 8]
  by (simp add: new_sma_def)

text \<open>C12: Every strategy trades in legal sequences: starting flat, whatever bricks (or bars) it
  sees, its signals enter only from flat, exit only what is held, and after every prefix the entries
  exceed the exits by one exactly when it believes to hold a position, else not at all.\<close>

theorem signals_alternate:
  "rt_position s1 = Flat \<Longrightarrow> xc_position s2 = Flat \<Longrightarrow> et_position s3 = Flat \<Longrightarrow> pb_position s4 = Flat \<Longrightarrow>
   legal_run Flat (map sg_type (snd (run_signals renko_trend_observe s1 bs))) \<and>
   legal_run Flat (map sg_type (snd (run_signals ema_crossover_observe s2 bs))) \<and>
   legal_run Flat (map sg_type (snd (run_signals ema_trend_observe s3 bs))) \<and>
   legal_run Flat (map sg_type (snd (run_signals pdh_observe s4 bs))) \<and>
   legal_run Flat (map sg_type (snd (run_signals ema_trend_observe_bar s3 ms))) \<and>
   legal_run Flat (map sg_type (snd (run_signals pdh_observe_bar s4 ms))) \<and>
   entries (snd (run_signals ema_crossover_observe s2 bs)) = exits (snd (run_signals ema_crossover_observe s2 bs)) +
     of_bool (xc_position (fst (run_signals ema_crossover_observe s2 bs)) \<noteq> Flat) \<and>
   entries (snd (run_signals renko_trend_observe s1 bs)) = exits (snd (run_signals renko_trend_observe s1 bs)) +
     of_bool (rt_position (fst (run_signals renko_trend_observe s1 bs)) \<noteq> Flat)"
  using renko.run_is_legal [of s1 bs] crossover.run_is_legal [of s2 bs] trend.run_is_legal [of s3 bs]
    breakout.run_is_legal [of s4 bs] trend_bars.run_is_legal [of s3 ms] breakout_bars.run_is_legal [of s4 ms]
    crossover.alternates_from_flat [of s2 bs] renko.alternates_from_flat [of s1 bs]
  by simp

definition demo_brick :: "brick_direction \<Rightarrow> rat \<Rightarrow> time \<Rightarrow> seen_brick" where
  "demo_brick d x t = \<lparr>sb_id = [], sb_direction = d, sb_close = x, sb_created = t, sb_pdh = Some 100, sb_pdl = Some 90, sb_symbol = None\<rparr>"

definition demo_bricks :: "seen_brick list" where
  "demo_bricks = [demo_brick UP 100 1, demo_brick UP 102 2, demo_brick DOWN 98 3, demo_brick DOWN 88 4]"

definition demo_trend :: renko_trend where
  "demo_trend = \<lparr>rt_length = 2, rt_direction = None, rt_streak = 0, rt_position = Flat, rt_brick = None, rt_signal = hold_signal\<rparr>"

theorem signals_alternate_witness:
  "legal_run Flat (map sg_type (snd (run_signals renko_trend_observe demo_trend demo_bricks)))"
  using signals_alternate [of demo_trend "\<lparr>xc_period = 1, xc_ema = \<lparr>em_period = 1, em_alpha = 1, em_value = None, em_seed = [], em_count = 0\<rparr>,
      xc_brick = None, xc_position = Flat\<rparr>" "\<lparr>et_period = 1, et_ema = \<lparr>em_period = 1, em_alpha = 1, em_value = None, em_seed = [], em_count = 0\<rparr>,
      et_price = None, et_brick = None, et_position = Flat, et_signal = hold_signal\<rparr>" "\<lparr>pb_buffer = 0, pb_previous = None, pb_current = None,
      pb_position = Flat, pb_signal = hold_signal, pb_price = None, pb_brick = None\<rparr>" demo_bricks]
  by (simp add: demo_trend_def)

end
