(* ===== verification/Execution.thy ===== *)
theory Execution imports Floats begin

text \<open>
  The execution core shared by backtests, paper and live trading: orders and fills
  (\<open>trading/execution/order.py\<close>), positions and trades (\<open>position.py\<close>), the cost models
  (\<open>trading/costs\<close>), the simulated and the paper executor with its latency
  (\<open>execution/executor.py\<close>, \<open>paper/executor.py\<close>, \<open>paper/latency.py\<close>) and the portfolio
  (\<open>portfolio/portfolio.py\<close>). Orders are mutable objects: an operation that changes an order
  returns it, and the portfolio refers to the orders it recorded by their ids. Times count microseconds.
\<close>

section \<open>Orders and fills\<close>

datatype order_side = BUY | SELL
datatype order_intent = ENTRY | EXIT
datatype order_status = CREATED | PENDING | FILLED | REJECTED | CANCELLED

record fill =
  fl_price :: rat
  fl_quantity :: rat
  fl_cost :: rat
  fl_reference :: rat
  fl_side :: order_side
  fl_time :: time
  fl_id :: "pystr option"

definition slippage :: "fill \<Rightarrow> rat" where
  "slippage f = fmul \<bar>fsub (fl_price f) (fl_reference f)\<bar> \<bar>fl_quantity f\<bar>"

record order =
  or_id :: int
  or_side :: order_side
  or_intent :: order_intent
  or_quantity :: rat
  or_reference :: rat
  or_created :: time
  or_symbol :: pystr
  or_status :: order_status
  or_fill :: "fill option"
  or_reject_reason :: "pystr option"
  or_reserved :: rat
  or_broker_id :: "pystr option"
  or_client_id :: "pystr option"

definition new_order :: "int \<Rightarrow> order_side \<Rightarrow> order_intent \<Rightarrow> rat \<Rightarrow> rat \<Rightarrow> time \<Rightarrow> order" where
  "new_order i side intent q ref t = \<lparr>or_id = i, or_side = side, or_intent = intent, or_quantity = q,
     or_reference = ref, or_created = t, or_symbol = ''UNKNOWN'', or_status = CREATED, or_fill = None,
     or_reject_reason = None, or_reserved = 0, or_broker_id = None, or_client_id = None\<rparr>"

definition submit_order :: "order \<Rightarrow> order" where
  "submit_order o1 = o1\<lparr>or_status := PENDING\<rparr>"

definition complete_order :: "fill \<Rightarrow> order \<Rightarrow> order" where
  "complete_order f o1 = o1\<lparr>or_fill := Some f, or_status := FILLED\<rparr>"

definition reject_order :: "pystr \<Rightarrow> order \<Rightarrow> order" where
  "reject_order reason o1 = o1\<lparr>or_reject_reason := Some reason, or_status := REJECTED\<rparr>"

definition cancel_order :: "order \<Rightarrow> order" where
  "cancel_order o1 = o1\<lparr>or_status := CANCELLED\<rparr>"

definition is_filled :: "order \<Rightarrow> bool" where
  "is_filled o1 \<longleftrightarrow> or_status o1 = FILLED"

section \<open>Cost models\<close>

datatype brokerage = ZeroBrokerage | FixedBrokerage rat | PercentageBrokerage rat | PerShareBrokerage rat

definition new_fixed_brokerage :: "rat \<Rightarrow> brokerage result" where
  "new_fixed_brokerage x = (if x < 0 then Inl ValueError else Inr (FixedBrokerage (b64 x)))"

definition new_percentage_brokerage :: "rat \<Rightarrow> brokerage result" where
  "new_percentage_brokerage x = (if x < 0 then Inl ValueError else Inr (PercentageBrokerage (b64 x)))"

definition new_per_share_brokerage :: "rat \<Rightarrow> brokerage result" where
  "new_per_share_brokerage x = (if x < 0 then Inl ValueError else Inr (PerShareBrokerage (b64 x)))"

fun brokerage_cost :: "brokerage \<Rightarrow> rat \<Rightarrow> rat \<Rightarrow> rat" where
  "brokerage_cost ZeroBrokerage q p = 0"
| "brokerage_cost (FixedBrokerage a) q p = a"
| "brokerage_cost (PercentageBrokerage r) q p = fmul (fmul \<bar>q\<bar> \<bar>p\<bar>) r"
| "brokerage_cost (PerShareBrokerage c) q p = fmul \<bar>q\<bar> c"

datatype slippage_model = ZeroSlippage | FixedSlippage rat | PercentageSlippage rat

definition new_fixed_slippage :: "rat \<Rightarrow> slippage_model result" where
  "new_fixed_slippage x = (if x < 0 then Inl ValueError else Inr (FixedSlippage (b64 x)))"

definition new_percentage_slippage :: "rat \<Rightarrow> slippage_model result" where
  "new_percentage_slippage x = (if x < 0 then Inl ValueError else Inr (PercentageSlippage (b64 x)))"

fun slippage_adjust :: "slippage_model \<Rightarrow> rat \<Rightarrow> order_side \<Rightarrow> rat" where
  "slippage_adjust ZeroSlippage p side = b64 p"
| "slippage_adjust (FixedSlippage a) p side = (if side = BUY then fadd (b64 p) a else fsub (b64 p) a)"
| "slippage_adjust (PercentageSlippage r) p side =
     fmul (b64 p) (if side = BUY then fadd 1 r else fsub 1 r)"

text \<open>
  What the executors rely on: a commission is never negative, and a fill is never better than the
  reference price (buys at or above it, sells at or below it).
\<close>

locale fill_costs =
  fixes cost :: "'b \<Rightarrow> rat \<Rightarrow> rat \<Rightarrow> rat" and adjust :: "'s \<Rightarrow> rat \<Rightarrow> order_side \<Rightarrow> rat"
    and wf_cost :: "'b \<Rightarrow> bool" and wf_adjust :: "'s \<Rightarrow> bool"
  assumes cost_nonneg: "wf_cost b \<Longrightarrow> 0 \<le> cost b q p"
    and buy_not_better: "wf_adjust s \<Longrightarrow> isfl p \<Longrightarrow> 0 \<le> p \<Longrightarrow> p \<le> adjust s p BUY"
    and sell_not_better: "wf_adjust s \<Longrightarrow> isfl p \<Longrightarrow> 0 \<le> p \<Longrightarrow> adjust s p SELL \<le> p"
begin

text \<open>Buying and selling back at one reference price never makes money.\<close>

lemma round_trip_loses:
  assumes "wf_adjust s" "wf_cost b" "isfl p" "0 \<le> p" "0 \<le> q"
  shows "adjust s p SELL * q - cost b q (adjust s p SELL) \<le> adjust s p BUY * q + cost b q (adjust s p BUY)"
proof -
  have "adjust s p SELL \<le> adjust s p BUY"
    using buy_not_better [OF assms(1,3,4)] sell_not_better [OF assms(1,3,4)] by linarith
  then have "adjust s p SELL * q \<le> adjust s p BUY * q" using assms(5) by (rule mult_right_mono)
  with cost_nonneg [OF assms(2), of q "adjust s p SELL"] cost_nonneg [OF assms(2), of q "adjust s p BUY"]
  show ?thesis by linarith
qed

end

fun wf_brokerage :: "brokerage \<Rightarrow> bool" where
  "wf_brokerage ZeroBrokerage = True"
| "wf_brokerage (FixedBrokerage a) = (0 \<le> a \<and> isfl a)"
| "wf_brokerage (PercentageBrokerage r) = (0 \<le> r \<and> isfl r)"
| "wf_brokerage (PerShareBrokerage c) = (0 \<le> c \<and> isfl c)"

fun wf_slippage :: "slippage_model \<Rightarrow> bool" where
  "wf_slippage ZeroSlippage = True"
| "wf_slippage (FixedSlippage a) = (0 \<le> a \<and> isfl a)"
| "wf_slippage (PercentageSlippage r) = (0 \<le> r \<and> isfl r)"

lemma new_costs_wf:
  "new_fixed_brokerage x = Inr b \<Longrightarrow> wf_brokerage b" "new_percentage_brokerage x = Inr b \<Longrightarrow> wf_brokerage b"
  "new_per_share_brokerage x = Inr b \<Longrightarrow> wf_brokerage b"
  "new_fixed_slippage x = Inr s \<Longrightarrow> wf_slippage s" "new_percentage_slippage x = Inr s \<Longrightarrow> wf_slippage s"
  by (auto simp: new_fixed_brokerage_def new_percentage_brokerage_def new_per_share_brokerage_def
      new_fixed_slippage_def new_percentage_slippage_def b64.rnd_nonneg)

lemma slippage_percentage_bounds:
  assumes "0 \<le> r" "isfl p" "0 \<le> p"
  shows "p \<le> fmul p (fadd 1 r)" "fmul p (fsub 1 r) \<le> p"
proof -
  have "1 \<le> fadd 1 r" "fsub 1 r \<le> 1" using assms(1) by (simp_all add: fadd_ge fsub_le)
  then have "p \<le> p * fadd 1 r" "p * fsub 1 r \<le> p"
    using assms(3) mult_left_mono [of 1 "fadd 1 r" p] mult_left_mono [of "fsub 1 r" 1 p] by simp_all
  then show "p \<le> fmul p (fadd 1 r)" "fmul p (fsub 1 r) \<le> p"
    using assms(2) unfolding fmul_def by (auto intro: b64.rnd_ge b64.rnd_le)
qed

interpretation costs: fill_costs brokerage_cost slippage_adjust wf_brokerage wf_slippage
proof
  show "0 \<le> brokerage_cost b q p" if "wf_brokerage b" for b q p
    using that by (cases b) (simp_all add: fmul_nonneg)
  show "p \<le> slippage_adjust s p BUY" if "wf_slippage s" "isfl p" "0 \<le> p" for s p
    using that by (cases s) (simp_all add: fadd_ge slippage_percentage_bounds)
  show "slippage_adjust s p SELL \<le> p" if "wf_slippage s" "isfl p" "0 \<le> p" for s p
    using that by (cases s) (simp_all add: fsub_le slippage_percentage_bounds)
qed

section \<open>Executors\<close>

text \<open>\<open>timedelta(milliseconds=x)\<close> in microseconds: whole milliseconds exactly, the rest rounded half to even.\<close>

definition ms_delta :: "rat \<Rightarrow> int" where
  "ms_delta ms = py_trunc ms * 1000 + rne (fmul 1000 (ms - of_int (py_trunc ms)))"

text \<open>
  A random latency draws from its generator: \<open>draws\<close> is the stream of \<open>random()\<close> values in
  \<open>[0, 1)\<close> the seeded generator yields, and the counter the next one to use.
\<close>

datatype latency = ZeroLatency | FixedLatency int | RandomLatency rat rat "nat \<Rightarrow> rat" nat

definition new_fixed_latency :: "rat \<Rightarrow> latency result" where
  "new_fixed_latency ms = (if ms < 0 then Inl ValueError else Inr (FixedLatency (ms_delta (b64 ms))))"

definition new_random_latency :: "rat \<Rightarrow> rat \<Rightarrow> (nat \<Rightarrow> rat) \<Rightarrow> latency result" where
  "new_random_latency lo hi draws = (if lo < 0 \<or> hi < 0 then Inl ValueError
     else if hi < lo then Inl ValueError else Inr (RandomLatency (b64 lo) (b64 hi) draws 0))"

fun latency_apply :: "latency \<Rightarrow> time \<Rightarrow> latency \<times> time" where
  "latency_apply ZeroLatency t = (ZeroLatency, t)"
| "latency_apply (FixedLatency d) t = (FixedLatency d, t + d)"
| "latency_apply (RandomLatency lo hi draws n) t =
     (RandomLatency lo hi draws (n + 1), t + ms_delta (fadd lo (fmul (fsub hi lo) (draws n))))"

record executor =
  ex_slippage :: slippage_model
  ex_brokerage :: brokerage
  ex_latency :: latency

text \<open>\<open>SimulatedExecutor.execute\<close>.\<close>

definition simulated_execute :: "slippage_model \<Rightarrow> brokerage \<Rightarrow> order \<Rightarrow> rat option \<Rightarrow> time \<Rightarrow> order" where
  "simulated_execute s b o1 ref t =
     (let o2 = submit_order o1 in
      case ref of
        None \<Rightarrow> reject_order ''no valid reference price'' o2
      | Some r \<Rightarrow>
          if r \<le> 0 then reject_order ''no valid reference price'' o2
          else let p = slippage_adjust s (b64 r) (or_side o2) in
            complete_order \<lparr>fl_price = p, fl_quantity = or_quantity o2,
              fl_cost = brokerage_cost b (or_quantity o2) p, fl_reference = b64 r, fl_side = or_side o2,
              fl_time = t, fl_id = None\<rparr> o2)"

text \<open>\<open>PaperExecutor.execute\<close>: the latency is drawn only for an order that fills.\<close>

definition paper_execute :: "executor \<Rightarrow> order \<Rightarrow> rat option \<Rightarrow> time \<Rightarrow> executor \<times> order" where
  "paper_execute x o1 ref t =
     (let o2 = submit_order o1 in
      case ref of
        None \<Rightarrow> (x, reject_order ''no valid reference price'' o2)
      | Some r \<Rightarrow>
          if r \<le> 0 then (x, reject_order ''no valid reference price'' o2)
          else let p = slippage_adjust (ex_slippage x) (b64 r) (or_side o2);
                   c = brokerage_cost (ex_brokerage x) (or_quantity o2) p;
                   (l, t') = latency_apply (ex_latency x) t
               in (x\<lparr>ex_latency := l\<rparr>,
                   complete_order \<lparr>fl_price = p, fl_quantity = or_quantity o2, fl_cost = c,
                     fl_reference = b64 r, fl_side = or_side o2, fl_time = t', fl_id = None\<rparr> o2))"

lemma paper_execute_status:
  "or_status (snd (paper_execute x o1 ref t)) = FILLED \<or> or_status (snd (paper_execute x o1 ref t)) = REJECTED"
  "or_id (snd (paper_execute x o1 ref t)) = or_id o1" "or_side (snd (paper_execute x o1 ref t)) = or_side o1"
  "or_reserved (snd (paper_execute x o1 ref t)) = or_reserved o1"
  by (auto simp: paper_execute_def Let_def submit_order_def reject_order_def complete_order_def
      split: option.split prod.split)

section \<open>Positions and trades\<close>

datatype position_direction = FLAT | LONG

record attribution =
  at_symbol :: pystr
  at_strategy :: pystr
  at_brick_type :: pystr
  at_brick_size :: rat
  at_timeframe :: pystr

definition default_attribution :: attribution where
  "default_attribution = \<lparr>at_symbol = ''UNKNOWN'', at_strategy = ''unknown'', at_brick_type = ''unknown'',
     at_brick_size = 0, at_timeframe = ''unknown''\<rparr>"

record trade =
  tr_attribution :: attribution
  tr_quantity :: rat
  tr_entry_price :: rat
  tr_exit_price :: rat
  tr_entry_time :: "time option"
  tr_exit_time :: time
  tr_entry_cost :: rat
  tr_exit_cost :: rat
  tr_gross :: rat
  tr_net :: rat
  tr_return :: rat
  tr_bars :: int

definition is_win :: "trade \<Rightarrow> bool" where
  "is_win tr \<longleftrightarrow> 0 < tr_net tr"

record position =
  po_attribution :: attribution
  po_direction :: position_direction
  po_quantity :: rat
  po_average :: rat
  po_realized :: rat
  po_entry_cost :: rat
  po_entry_time :: "time option"
  po_entry_bar :: "int option"

definition new_position :: "attribution option \<Rightarrow> position" where
  "new_position a = \<lparr>po_attribution = (case a of None \<Rightarrow> default_attribution | Some x \<Rightarrow> x),
     po_direction = FLAT, po_quantity = 0, po_average = 0, po_realized = 0, po_entry_cost = 0,
     po_entry_time = None, po_entry_bar = None\<rparr>"

definition position_is_open :: "position \<Rightarrow> bool" where
  "position_is_open p \<longleftrightarrow> po_direction p = LONG \<and> 0 < po_quantity p"

definition market_value :: "position \<Rightarrow> rat \<Rightarrow> rat" where
  "market_value p mark = (if position_is_open p then fmul (po_quantity p) (b64 mark) else 0)"

definition unrealized_pnl :: "position \<Rightarrow> rat \<Rightarrow> rat" where
  "unrealized_pnl p mark =
     (if \<not> position_is_open p then 0 else fmul (fsub (b64 mark) (po_average p)) (po_quantity p))"

definition open_long :: "rat \<Rightarrow> rat \<Rightarrow> rat \<Rightarrow> time \<Rightarrow> int \<Rightarrow> position \<Rightarrow> position result" where
  "open_long price q cost t bar p =
     (if q \<le> 0 then Inl ValueError
      else if \<not> position_is_open p then
        Inr (p\<lparr>po_direction := LONG, po_quantity := b64 q, po_average := b64 price, po_entry_cost := b64 cost,
               po_entry_time := Some t, po_entry_bar := Some bar\<rparr>)
      else let n = fadd (po_quantity p) (b64 q) in
        Inr (p\<lparr>po_average := fdiv (fadd (fmul (po_average p) (po_quantity p)) (fmul (b64 price) (b64 q))) n,
               po_quantity := n, po_entry_cost := fadd (po_entry_cost p) (b64 cost)\<rparr>))"

definition reset_flat :: "position \<Rightarrow> position" where
  "reset_flat p = p\<lparr>po_direction := FLAT, po_quantity := 0, po_average := 0, po_entry_cost := 0,
     po_entry_time := None, po_entry_bar := None\<rparr>"

definition close_trade :: "rat \<Rightarrow> rat \<Rightarrow> time \<Rightarrow> int \<Rightarrow> position \<Rightarrow> trade" where
  "close_trade price cost t bar p =
     (let q = po_quantity p; entry = po_average p;
          gross = fmul (fsub (b64 price) entry) q;
          net = fsub (fsub gross (po_entry_cost p)) (b64 cost);
          notional = fmul entry q
      in \<lparr>tr_attribution = po_attribution p, tr_quantity = q, tr_entry_price = entry, tr_exit_price = b64 price,
          tr_entry_time = po_entry_time p, tr_exit_time = t, tr_entry_cost = po_entry_cost p,
          tr_exit_cost = b64 cost, tr_gross = gross, tr_net = net,
          tr_return = (if notional \<noteq> 0 then fdiv net notional else 0),
          tr_bars = (case po_entry_bar p of None \<Rightarrow> 0 | Some e \<Rightarrow> bar - e)\<rparr>)"

definition close_position :: "rat \<Rightarrow> rat \<Rightarrow> time \<Rightarrow> int \<Rightarrow> position \<Rightarrow> position \<times> trade option" where
  "close_position price cost t bar p =
     (if \<not> position_is_open p then (p, None)
      else let tr = close_trade price cost t bar p in
        (reset_flat (p\<lparr>po_realized := fadd (po_realized p) (tr_net tr)\<rparr>), Some tr))"

section \<open>The portfolio\<close>

record portfolio =
  pf_starting :: rat
  pf_cash :: rat
  pf_reserved :: rat
  pf_leverage :: rat
  pf_position :: position
  pf_trades :: "trade list"
  pf_orders :: "int list"
  pf_equity :: "(time \<times> rat) list"
  pf_brokerage :: rat
  pf_slippage :: rat

definition new_portfolio :: "rat \<Rightarrow> attribution option \<Rightarrow> rat \<Rightarrow> portfolio result" where
  "new_portfolio capital a leverage =
     (if capital \<le> 0 then Inl ValueError
      else if leverage \<le> 0 then Inl ValueError
      else Inr \<lparr>pf_starting = b64 capital, pf_cash = b64 capital, pf_reserved = 0, pf_leverage = b64 leverage,
             pf_position = new_position a, pf_trades = [], pf_orders = [], pf_equity = [],
             pf_brokerage = 0, pf_slippage = 0\<rparr>)"

definition available_capital :: "portfolio \<Rightarrow> rat" where
  "available_capital p = fsub (pf_cash p) (pf_reserved p)"

definition buying_power :: "portfolio \<Rightarrow> rat" where
  "buying_power p = fmul (available_capital p) (pf_leverage p)"

definition reserve :: "rat \<Rightarrow> portfolio \<Rightarrow> portfolio" where
  "reserve x p = p\<lparr>pf_reserved := fadd (pf_reserved p) (max 0 (b64 x))\<rparr>"

definition release :: "rat \<Rightarrow> portfolio \<Rightarrow> portfolio" where
  "release x p = p\<lparr>pf_reserved := max 0 (fsub (pf_reserved p) (max 0 (b64 x)))\<rparr>"

definition record_order :: "order \<Rightarrow> portfolio \<Rightarrow> portfolio" where
  "record_order o1 p = p\<lparr>pf_orders := pf_orders p @ [or_id o1]\<rparr>"

definition apply_buy :: "order \<Rightarrow> fill \<Rightarrow> int \<Rightarrow> portfolio \<Rightarrow> portfolio \<times> order \<times> trade option result" where
  "apply_buy o1 f bar p =
     (let total = fadd (fmul (fl_price f) (fl_quantity f)) (fl_cost f) in
      if fadd (pf_cash p) (b64 (1 / 1000000000)) < total then (p, reject_order ''insufficient cash'' o1, Inr None)
      else
        let p1 = p\<lparr>pf_cash := fsub (pf_cash p) total, pf_brokerage := fadd (pf_brokerage p) (fl_cost f),
                   pf_slippage := fadd (pf_slippage p) (slippage f)\<rparr>
        in case open_long (fl_price f) (fl_quantity f) (fl_cost f) (fl_time f) bar (pf_position p1) of
             Inl e \<Rightarrow> (p1, o1, Inl e)
           | Inr q \<Rightarrow> (p1\<lparr>pf_position := q\<rparr>, o1, Inr None))"

definition apply_sell :: "fill \<Rightarrow> int \<Rightarrow> portfolio \<Rightarrow> portfolio \<times> trade option" where
  "apply_sell f bar p =
     (let proceeds = fsub (fmul (fl_price f) (fl_quantity f)) (fl_cost f);
          (q, tr) = close_position (fl_price f) (fl_cost f) (fl_time f) bar (pf_position p)
      in (p\<lparr>pf_cash := fadd (pf_cash p) proceeds, pf_brokerage := fadd (pf_brokerage p) (fl_cost f),
            pf_slippage := fadd (pf_slippage p) (slippage f), pf_position := q,
            pf_trades := pf_trades p @ (case tr of None \<Rightarrow> [] | Some x \<Rightarrow> [x])\<rparr>, tr))"

definition apply_order :: "order \<Rightarrow> int \<Rightarrow> portfolio \<Rightarrow> portfolio \<times> order \<times> trade option result" where
  "apply_order o1 bar p =
     (let p1 = (if or_side o1 = BUY then release (or_reserved o1) p else p) in
      case or_fill o1 of
        None \<Rightarrow> (p1, o1, Inr None)
      | Some f \<Rightarrow>
          if or_side o1 = BUY then apply_buy o1 f bar p1
          else let (p2, tr) = apply_sell f bar p1 in (p2, o1, Inr tr))"

definition equity :: "rat \<Rightarrow> portfolio \<Rightarrow> rat" where
  "equity price p = fadd (pf_cash p) (market_value (pf_position p) price)"

definition mark :: "time \<Rightarrow> rat \<Rightarrow> portfolio \<Rightarrow> portfolio" where
  "mark t price p = p\<lparr>pf_equity := pf_equity p @ [(t, equity price p)]\<rparr>"

section \<open>What a portfolio keeps\<close>

text \<open>The calls a portfolio receives.\<close>

datatype portfolio_call = Reserve rat | Release rat | Record order | Apply order int | Mark time rat

fun portfolio_step :: "portfolio \<Rightarrow> portfolio_call \<Rightarrow> portfolio \<times> trade option result" where
  "portfolio_step p (Reserve x) = (reserve x p, Inr None)"
| "portfolio_step p (Release x) = (release x p, Inr None)"
| "portfolio_step p (Record o1) = (record_order o1 p, Inr None)"
| "portfolio_step p (Apply o1 bar) = (let (p', o2, r) = apply_order o1 bar p in (p', r))"
| "portfolio_step p (Mark t x) = (mark t x p, Inr None)"

definition wf_position :: "position \<Rightarrow> bool" where
  "wf_position q \<longleftrightarrow> (case po_direction q of
       FLAT \<Rightarrow> po_quantity q = 0 \<and> po_average q = 0 \<and> po_entry_cost q = 0 \<and>
               po_entry_time q = None \<and> po_entry_bar q = None
     | LONG \<Rightarrow> 0 < po_quantity q \<and> po_entry_time q \<noteq> None \<and> po_entry_bar q \<noteq> None)"

text \<open>
  The position is flat and empty or long and dated, its realised profit is the sum of the
  trades' profits in the order they closed, trades have a positive size, and reservations
  are never negative.
\<close>

definition portfolio_inv :: "portfolio \<Rightarrow> bool" where
  "portfolio_inv p \<longleftrightarrow> 0 \<le> pf_reserved p \<and> wf_position (pf_position p) \<and>
     po_realized (pf_position p) = foldl fadd 0 (map tr_net (pf_trades p)) \<and>
     (\<forall>tr\<in>set (pf_trades p). 0 < tr_quantity tr \<and> tr_entry_time tr \<noteq> None)"

lemma wf_position_is_open: "wf_position q \<Longrightarrow> position_is_open q \<longleftrightarrow> po_direction q = LONG"
  by (auto simp: wf_position_def position_is_open_def split: position_direction.splits)

lemma new_position_wf [simp]: "wf_position (new_position a)" "\<not> position_is_open (new_position a)"
  by (simp_all add: new_position_def wf_position_def position_is_open_def)

lemma reset_flat_simps [simp]:
  "wf_position (reset_flat q)" "po_realized (reset_flat q) = po_realized q" "\<not> position_is_open (reset_flat q)"
  "po_average (reset_flat q) = 0" "po_quantity (reset_flat q) = 0" "po_entry_cost (reset_flat q) = 0"
  by (simp_all add: reset_flat_def wf_position_def position_is_open_def)

lemma open_long_wf:
  assumes "open_long price n cost t bar q = Inr q'" "wf_position q"
  shows "wf_position q'" "po_realized q' = po_realized q" "position_is_open q'"
proof -
  have n: "0 < n" using assms(1) by (auto simp: open_long_def split: if_splits)
  then have b: "0 < b64 n" by (simp add: b64.rnd_pos)
  have "0 < fadd (po_quantity q) (b64 n)" if "position_is_open q"
    using that b by (auto simp: position_is_open_def fadd_def intro!: b64.rnd_pos add_pos_pos)
  then show "wf_position q'" "po_realized q' = po_realized q" "position_is_open q'"
    using assms n b wf_position_is_open [OF assms(2)]
    by (auto simp: open_long_def wf_position_def position_is_open_def Let_def split: if_splits position_direction.splits)
qed

lemma apply_buy_inv:
  assumes "portfolio_inv p" "apply_buy o1 f bar p = (p', o2, r)"
  shows "portfolio_inv p'"
proof -
  have "wf_position (pf_position p)" using assms(1) by (simp add: portfolio_inv_def)
  from open_long_wf [OF _ this] assms show ?thesis
    by (auto simp: apply_buy_def portfolio_inv_def Let_def split: if_splits sum.splits)
qed

lemma close_trade_simps [simp]:
  "tr_quantity (close_trade price cost t bar q) = po_quantity q"
  "tr_entry_time (close_trade price cost t bar q) = po_entry_time q"
  "tr_net (close_trade price cost t bar q) =
     fsub (fsub (fmul (fsub (b64 price) (po_average q)) (po_quantity q)) (po_entry_cost q)) (b64 cost)"
  by (simp_all add: close_trade_def Let_def)

lemma apply_sell_inv:
  assumes "portfolio_inv p" "apply_sell f bar p = (p', tr)"
  shows "portfolio_inv p'"
proof (cases "position_is_open (pf_position p)")
  case True
  then have "0 < po_quantity (pf_position p)" "po_entry_time (pf_position p) \<noteq> None"
    using assms(1) by (auto simp: portfolio_inv_def wf_position_def position_is_open_def)
  with True assms show ?thesis
    by (auto simp: apply_sell_def close_position_def portfolio_inv_def Let_def)
next
  case False
  with assms show ?thesis
    by (auto simp: apply_sell_def close_position_def portfolio_inv_def Let_def)
qed

lemma release_inv: "portfolio_inv p \<Longrightarrow> portfolio_inv (release x p)"
  by (simp add: release_def portfolio_inv_def)

lemma apply_order_inv:
  assumes "portfolio_inv p" "apply_order o1 bar p = (p', o2, r)"
  shows "portfolio_inv p'"
proof -
  have "portfolio_inv (if or_side o1 = BUY then release (or_reserved o1) p else p)"
    using assms(1) release_inv by simp
  with assms(2) show ?thesis
    by (auto simp: apply_order_def Let_def split: option.splits if_splits prod.splits
        intro: apply_buy_inv apply_sell_inv)
qed

lemma portfolio_step_inv [inv_intros]: "portfolio_inv p \<Longrightarrow> portfolio_inv (fst (portfolio_step p c))"
proof (cases c)
  case (Apply o1 bar)
  assume "portfolio_inv p"
  then show ?thesis using apply_order_inv [of p o1 bar] Apply by (auto split: prod.splits)
qed (simp_all add: portfolio_inv_def reserve_def release_def record_order_def mark_def fadd_nonneg)

lemma new_portfolio_inv: "new_portfolio capital a leverage = Inr p \<Longrightarrow> portfolio_inv p"
  by (auto simp: new_portfolio_def portfolio_inv_def new_position_def wf_position_def split: if_splits)

end
