(* ===== verification/Portfolio.thy ===== *)
theory Portfolio imports Execution begin

text \<open>
  What holds of a portfolio over a whole run: the accounts balance, fills never beat the market,
  latency only delays, and the synchroniser (\<open>portfolio/synchronizer.py\<close>,
  \<open>portfolio/live_snapshot.py\<close>) applies every fill once.
\<close>

section \<open>The books balance\<close>

text \<open>
  On whole amounts (prices, sizes and commissions counted in units) no step rounds, and the
  cash can be read off the trades. A call is regular when a buy meets a flat position and a sell
  has the size of the open one, and no single fill moves more than \<open>A\<close>.
\<close>

lemma rat_Ints_floor [code_unfold]: "(x::rat) \<in> \<int> \<longleftrightarrow> of_int \<lfloor>x\<rfloor> = x"
  by (metis Ints_cases Ints_of_int floor_of_int)

definition whole_fill :: "rat \<Rightarrow> fill \<Rightarrow> bool" where
  "whole_fill A f \<longleftrightarrow> fl_price f \<in> \<int> \<and> fl_quantity f \<in> \<int> \<and> fl_cost f \<in> \<int> \<and>
     0 \<le> fl_price f \<and> 0 < fl_quantity f \<and> 0 \<le> fl_cost f \<and> fl_quantity f \<le> A \<and> fl_price f \<le> A \<and>
     fl_price f * fl_quantity f + fl_cost f \<le> A"

fun regular_call :: "rat \<Rightarrow> portfolio \<Rightarrow> portfolio_call \<Rightarrow> bool" where
  "regular_call A p (Apply o1 bar) = (case or_fill o1 of None \<Rightarrow> True | Some f \<Rightarrow> whole_fill A f \<and>
     (if or_side o1 = BUY then \<not> position_is_open (pf_position p)
      else position_is_open (pf_position p) \<and> fl_quantity f = po_quantity (pf_position p)))"
| "regular_call A p c = True"

fun regular_run :: "rat \<Rightarrow> portfolio \<Rightarrow> portfolio_call list \<Rightarrow> bool" where
  "regular_run A p [] = True"
| "regular_run A p (c # cs) = (regular_call A p c \<and> regular_run A (fst (portfolio_step p c)) cs)"

text \<open>The capital, the closed trades' profits and the money tied up in the open position make up the cash.\<close>

definition invested :: "position \<Rightarrow> rat" where
  "invested q = po_average q * po_quantity q + po_entry_cost q"

definition ledger :: "rat \<Rightarrow> rat \<Rightarrow> portfolio \<Rightarrow> bool" where
  "ledger A K p \<longleftrightarrow> pf_cash p = pf_starting p + (\<Sum>tr\<leftarrow>pf_trades p. tr_net tr) - invested (pf_position p) \<and>
     pf_cash p \<in> \<int> \<and> \<bar>pf_cash p\<bar> \<le> K \<and> po_average (pf_position p) \<in> \<int> \<and> po_quantity (pf_position p) \<in> \<int> \<and>
     po_entry_cost (pf_position p) \<in> \<int> \<and> 0 \<le> po_average (pf_position p) \<and> 0 \<le> po_quantity (pf_position p) \<and>
     0 \<le> po_entry_cost (pf_position p) \<and> invested (pf_position p) \<le> A \<and> wf_position (pf_position p)"

lemma ledger_mono: "ledger A K p \<Longrightarrow> K \<le> K' \<Longrightarrow> ledger A K' p"
  by (auto simp: ledger_def)

lemma ledger_reserved [simp]:
  "ledger A K (release x p) = ledger A K p" "ledger A K (reserve x p) = ledger A K p"
  "ledger A K (record_order o1 p) = ledger A K p" "ledger A K (mark t y p) = ledger A K p"
  by (simp_all add: ledger_def release_def reserve_def record_order_def mark_def)

lemma whole_ops:
  "x \<in> \<int> \<Longrightarrow> y \<in> \<int> \<Longrightarrow> \<bar>x + y\<bar> \<le> 9007199254740992 \<Longrightarrow> fadd x y = x + y"
  "x \<in> \<int> \<Longrightarrow> y \<in> \<int> \<Longrightarrow> \<bar>x - y\<bar> \<le> 9007199254740992 \<Longrightarrow> fsub x y = x - y"
  "x \<in> \<int> \<Longrightarrow> y \<in> \<int> \<Longrightarrow> \<bar>x * y\<bar> \<le> 9007199254740992 \<Longrightarrow> fmul x y = x * y"
  by (simp_all add: fadd_def fsub_def fmul_def b64_Ints)

lemma whole_fill_total:
  assumes "whole_fill A f" "2 * A \<le> 9007199254740992"
  shows "fmul (fl_price f) (fl_quantity f) = fl_price f * fl_quantity f"
    and "fadd (fmul (fl_price f) (fl_quantity f)) (fl_cost f) = fl_price f * fl_quantity f + fl_cost f"
    and "fsub (fmul (fl_price f) (fl_quantity f)) (fl_cost f) = fl_price f * fl_quantity f - fl_cost f"
    and "0 \<le> fl_price f * fl_quantity f" "fl_price f * fl_quantity f + fl_cost f \<le> A"
proof -
  show nn: "0 \<le> fl_price f * fl_quantity f" "fl_price f * fl_quantity f + fl_cost f \<le> A"
    using assms(1) by (auto simp: whole_fill_def)
  show m: "fmul (fl_price f) (fl_quantity f) = fl_price f * fl_quantity f"
    using assms nn by (intro whole_ops) (auto simp: whole_fill_def)
  have i: "fl_price f * fl_quantity f \<in> \<int>" "fl_cost f \<in> \<int>" "0 \<le> fl_cost f"
    using assms(1) by (auto simp: whole_fill_def)
  have "\<bar>fl_price f * fl_quantity f + fl_cost f\<bar> \<le> 9007199254740992"
    "\<bar>fl_price f * fl_quantity f - fl_cost f\<bar> \<le> 9007199254740992"
    using i(3) nn assms(2) by linarith+
  then show "fadd (fmul (fl_price f) (fl_quantity f)) (fl_cost f) = fl_price f * fl_quantity f + fl_cost f"
    "fsub (fmul (fl_price f) (fl_quantity f)) (fl_cost f) = fl_price f * fl_quantity f - fl_cost f"
    unfolding m using i by (simp_all add: whole_ops)
qed

lemma ledger_buy:
  assumes "ledger A K p" "whole_fill A f" "\<not> position_is_open (pf_position p)"
    and "apply_buy o1 f bar p = (p', o2, r)" "K + A \<le> 9007199254740992" "A \<le> K"
  shows "ledger A (K + A) p'" "pf_starting p' = pf_starting p"
proof -
  note w = whole_fill_total [OF assms(2)]
  have A: "2 * A \<le> 9007199254740992" using assms(5,6) by simp
  have flat: "po_direction (pf_position p) = FLAT" "invested (pf_position p) = 0"
    using assms(1,3) wf_position_is_open [of "pf_position p"]
    by (cases "po_direction (pf_position p)"; simp add: ledger_def wf_position_def invested_def)+
  have c: "fsub (pf_cash p) (fl_price f * fl_quantity f + fl_cost f) =
      pf_cash p - (fl_price f * fl_quantity f + fl_cost f)"
  proof (rule whole_ops)
    show "pf_cash p \<in> \<int>" "fl_price f * fl_quantity f + fl_cost f \<in> \<int>"
      using assms(1,2) by (auto simp: ledger_def whole_fill_def)
    have "\<bar>pf_cash p\<bar> \<le> K" "0 \<le> fl_cost f" using assms(1,2) unfolding ledger_def whole_fill_def by blast+
    with assms(5) w(4,5) [OF A] show "\<bar>pf_cash p - (fl_price f * fl_quantity f + fl_cost f)\<bar> \<le> 9007199254740992"
      by linarith
  qed
  have fx: "b64 (fl_price f) = fl_price f" "b64 (fl_quantity f) = fl_quantity f" "b64 (fl_cost f) = fl_cost f"
  proof -
    have "fl_price f \<in> \<int> \<and> fl_quantity f \<in> \<int> \<and> fl_cost f \<in> \<int>" "0 \<le> fl_price f" "0 < fl_quantity f" "0 \<le> fl_cost f"
      "fl_price f \<le> A" "fl_quantity f \<le> A"
      using assms(2) by (auto simp: whole_fill_def)
    moreover from this have "\<bar>fl_price f\<bar> \<le> 9007199254740992" "\<bar>fl_quantity f\<bar> \<le> 9007199254740992"
      "\<bar>fl_cost f\<bar> \<le> 9007199254740992" using A w(4,5) [OF A] by linarith+
    ultimately show "b64 (fl_price f) = fl_price f" "b64 (fl_quantity f) = fl_quantity f" "b64 (fl_cost f) = fl_cost f"
      by (simp_all only: b64_Ints)
  qed
  show "pf_starting p' = pf_starting p" using assms(4)
    by (auto simp: apply_buy_def Let_def split: if_splits sum.splits)
  show "ledger A (K + A) p'"
  proof (cases "p' = p")
    case True
    with assms(1,6) w(4,5) [OF A] assms(2) show ?thesis
      by (auto simp: whole_fill_def intro!: ledger_mono [of A K])
  next
    case False
    define q where "q = pf_position p\<lparr>po_direction := LONG, po_quantity := fl_quantity f,
      po_average := fl_price f, po_entry_cost := fl_cost f, po_entry_time := Some (fl_time f), po_entry_bar := Some bar\<rparr>"
    have f: "fl_price f \<in> \<int>" "fl_quantity f \<in> \<int>" "fl_cost f \<in> \<int>" "0 \<le> fl_price f" "0 < fl_quantity f" "0 \<le> fl_cost f"
      using assms(2) by (simp_all add: whole_fill_def)
    have "p' = p\<lparr>pf_cash := pf_cash p - (fl_price f * fl_quantity f + fl_cost f),
      pf_brokerage := fadd (pf_brokerage p) (fl_cost f), pf_slippage := fadd (pf_slippage p) (slippage f), pf_position := q\<rparr>"
      using False assms(3,4) f(5) by (auto simp: apply_buy_def Let_def w(2) [OF A] c fx open_long_def q_def split: if_splits)
    then have p': "pf_cash p' = pf_cash p - (fl_price f * fl_quantity f + fl_cost f)" "pf_trades p' = pf_trades p"
      "pf_position p' = q" "pf_starting p' = pf_starting p" by simp_all
    have L: "pf_cash p = pf_starting p + (\<Sum>tr\<leftarrow>pf_trades p. tr_net tr)" "pf_cash p \<in> \<int>" "\<bar>pf_cash p\<bar> \<le> K"
      using assms(1) flat(2) unfolding ledger_def by auto
    have "\<bar>pf_cash p'\<bar> \<le> K + A" unfolding p'(1) using L(3) w(4,5) [OF A] f(6) by linarith
    moreover have "pf_cash p' \<in> \<int>" unfolding p'(1) using L(2) f by auto
    moreover have "invested q = fl_price f * fl_quantity f + fl_cost f" by (simp add: invested_def q_def)
    moreover from this have "pf_cash p' = pf_starting p' + (\<Sum>tr\<leftarrow>pf_trades p'. tr_net tr) - invested (pf_position p')"
      unfolding p' using L(1) by simp
    ultimately show ?thesis
      using p' f w(5) [OF A] by (simp add: ledger_def) (simp add: q_def wf_position_def)
  qed
qed

lemma ledger_sell:
  assumes "ledger A K p" "whole_fill A f" "position_is_open (pf_position p)"
    and "fl_quantity f = po_quantity (pf_position p)"
    and "apply_sell f bar p = (p', tr)" "K + A \<le> 9007199254740992" "A \<le> K"
  shows "ledger A (K + A) p'" "pf_starting p' = pf_starting p"
proof -
  define q where "q = pf_position p"
  have A: "2 * A \<le> 9007199254740992" using assms(6,7) by simp
  note w = whole_fill_total [OF assms(2) A]
  have q: "po_average q \<in> \<int>" "po_quantity q \<in> \<int>" "po_entry_cost q \<in> \<int>" "0 \<le> po_average q"
    "0 < po_quantity q" "0 \<le> po_entry_cost q" "po_average q * po_quantity q + po_entry_cost q \<le> A"
    using assms(1,2,4) by (auto simp: ledger_def invested_def whole_fill_def q_def)
  then have e: "0 \<le> po_average q * po_quantity q" by simp
  have f: "fl_price f \<in> \<int>" "fl_cost f \<in> \<int>" "0 \<le> fl_price f" "0 \<le> fl_cost f" "fl_price f \<le> A"
    using assms(2) by (auto simp: whole_fill_def)
  have w': "0 \<le> fl_price f * po_quantity q" "fl_price f * po_quantity q + fl_cost f \<le> A"
    using w(4,5) assms(4) by (simp_all add: q_def)
  have le: "po_average q \<le> po_average q * po_quantity q"
    using q by (metis Ints_cases mult_left_mono mult.right_neutral of_int_0_less_iff of_int_1_le_iff
        int_one_le_iff_zero_less)
  have g1: "fsub (fl_price f) (po_average q) = fl_price f - po_average q"
    using q f le A by (intro whole_ops) auto
  have d: "(fl_price f - po_average q) * po_quantity q = fl_price f * po_quantity q - po_average q * po_quantity q"
    by (rule left_diff_distrib)
  have b: "\<bar>(fl_price f - po_average q) * po_quantity q\<bar> \<le> 9007199254740992"
    "\<bar>(fl_price f - po_average q) * po_quantity q - po_entry_cost q\<bar> \<le> 9007199254740992"
    "\<bar>(fl_price f - po_average q) * po_quantity q - po_entry_cost q - fl_cost f\<bar> \<le> 9007199254740992"
    unfolding d using q(6,7) f(4) e w' A by linarith+
  have g2: "fmul (fl_price f - po_average q) (po_quantity q) = (fl_price f - po_average q) * po_quantity q"
    using q f b(1) by (intro whole_ops) auto
  have g3: "fsub ((fl_price f - po_average q) * po_quantity q) (po_entry_cost q) =
      (fl_price f - po_average q) * po_quantity q - po_entry_cost q"
    using q f b(2) by (intro whole_ops) auto
  have g4: "fsub ((fl_price f - po_average q) * po_quantity q - po_entry_cost q) (fl_cost f) =
      (fl_price f - po_average q) * po_quantity q - po_entry_cost q - fl_cost f"
    using q f b(3) by (intro whole_ops) auto
  have fx: "b64 (fl_price f) = fl_price f" "b64 (fl_cost f) = fl_cost f"
    using f w' A by (auto intro!: b64_Ints)
  have net: "tr_net (close_trade (fl_price f) (fl_cost f) (fl_time f) bar q) =
      fl_price f * po_quantity q - fl_cost f - invested q"
    by (simp only: close_trade_simps fx g1 g2 g3 g4) (simp add: invested_def left_diff_distrib)
  have c: "fadd (pf_cash p) (fl_price f * po_quantity q - fl_cost f) =
      pf_cash p + (fl_price f * po_quantity q - fl_cost f)"
  proof (rule whole_ops)
    show "pf_cash p \<in> \<int>" "fl_price f * po_quantity q - fl_cost f \<in> \<int>"
      using assms(1) q f by (auto simp: ledger_def)
    have "\<bar>pf_cash p\<bar> \<le> K" using assms(1) unfolding ledger_def by blast
    with assms(6) w' f(4) show "\<bar>pf_cash p + (fl_price f * po_quantity q - fl_cost f)\<bar> \<le> 9007199254740992"
      by linarith
  qed
  have "p' = p\<lparr>pf_cash := pf_cash p + (fl_price f * po_quantity q - fl_cost f),
      pf_brokerage := fadd (pf_brokerage p) (fl_cost f), pf_slippage := fadd (pf_slippage p) (slippage f),
      pf_position := reset_flat (q\<lparr>po_realized := fadd (po_realized q)
        (tr_net (close_trade (fl_price f) (fl_cost f) (fl_time f) bar q))\<rparr>),
      pf_trades := pf_trades p @ [close_trade (fl_price f) (fl_cost f) (fl_time f) bar q]\<rparr>"
    using assms(3-5) w(3) c by (auto simp: apply_sell_def close_position_def Let_def q_def)
  then have p': "pf_cash p' = pf_cash p + (fl_price f * po_quantity q - fl_cost f)"
    "pf_trades p' = pf_trades p @ [close_trade (fl_price f) (fl_cost f) (fl_time f) bar q]"
    "wf_position (pf_position p')" "po_average (pf_position p') = 0" "po_quantity (pf_position p') = 0"
    "po_entry_cost (pf_position p') = 0" "invested (pf_position p') = 0" "pf_starting p' = pf_starting p"
    by (simp_all add: invested_def)
  have L: "pf_cash p = pf_starting p + (\<Sum>tr\<leftarrow>pf_trades p. tr_net tr) - invested q" "pf_cash p \<in> \<int>" "\<bar>pf_cash p\<bar> \<le> K"
    using assms(1) unfolding ledger_def q_def by blast+
  have "\<bar>pf_cash p'\<bar> \<le> K + A" unfolding p'(1) using L(3) w' f(4) by linarith
  moreover have "pf_cash p' \<in> \<int>" unfolding p'(1) using L(2) q f by auto
  moreover have "pf_cash p' = pf_starting p' + (\<Sum>tr\<leftarrow>pf_trades p'. tr_net tr) - invested (pf_position p')"
    unfolding p'(1,2,7,8) using L(1) net by simp
  ultimately show "ledger A (K + A) p'" "pf_starting p' = pf_starting p"
    using p' A q(6,7) e by (simp_all add: ledger_def)
qed

lemma ledger_step:
  assumes "ledger A K p" "regular_call A p c" "K + A \<le> 9007199254740992" "A \<le> K" "0 \<le> A"
  shows "ledger A (K + A) (fst (portfolio_step p c)) \<and> pf_starting (fst (portfolio_step p c)) = pf_starting p"
proof (cases c)
  case (Apply o1 bar)
  define p1 where "p1 = (if or_side o1 = BUY then release (or_reserved o1) p else p)"
  have p1: "ledger A K p1" "pf_position p1 = pf_position p" "pf_starting p1 = pf_starting p"
    using assms(1) by (simp_all add: p1_def) (simp_all add: release_def)
  have K: "K \<le> K + A" using assms(5) by simp
  show ?thesis
  proof (cases "or_fill o1")
    case None
    with Apply p1 ledger_mono [OF p1(1) K] show ?thesis
      by (simp add: apply_order_def p1_def [symmetric] Let_def)
  next
    case (Some f)
    obtain p2 o2 r where b: "apply_buy o1 f bar p1 = (p2, o2, r)" by (cases "apply_buy o1 f bar p1")
    obtain p3 tr where s: "apply_sell f bar p1 = (p3, tr)" by (cases "apply_sell f bar p1")
    from Some Apply assms(2) p1 ledger_buy [OF p1(1) _ _ b assms(3,4)] ledger_sell [OF p1(1) _ _ _ s assms(3,4)]
    show ?thesis by (auto simp: apply_order_def p1_def [symmetric] Let_def b s split: if_splits)
  qed
qed (use assms ledger_mono [OF assms(1), of "K + A"] in
    \<open>simp_all add: reserve_def release_def record_order_def mark_def ledger_def\<close>)

lemma ledger_run:
  assumes "ledger A K p" "regular_run A p cs" "K + of_nat (length cs) * A \<le> 9007199254740992" "A \<le> K" "0 \<le> A"
  shows "ledger A (K + of_nat (length cs) * A) (feed portfolio_step p cs) \<and>
    pf_starting (feed portfolio_step p cs) = pf_starting p"
  using assms
proof (induction cs arbitrary: p K)
  case (Cons c cs)
  have "0 \<le> of_nat (length cs) * A" using Cons.prems(5) by simp
  with Cons.prems(3) have "K + A \<le> 9007199254740992"
    by (simp add: distrib_right)
  then have "ledger A (K + A) (fst (portfolio_step p c)) \<and> pf_starting (fst (portfolio_step p c)) = pf_starting p"
    using Cons.prems by (intro ledger_step) (auto simp: distrib_right)
  moreover from this have "ledger A (K + A + of_nat (length cs) * A) (feed portfolio_step (fst (portfolio_step p c)) cs) \<and>
    pf_starting (feed portfolio_step (fst (portfolio_step p c)) cs) = pf_starting (fst (portfolio_step p c))"
    using Cons.prems by (intro Cons.IH) (auto simp: distrib_right add.assoc)
  ultimately show ?case by (simp add: distrib_right add.assoc)
qed simp

section \<open>Applying fills exactly once\<close>

record live_snapshot =
  ls_id :: pystr
  ls_time :: time
  ls_cash :: rat
  ls_reserved :: rat
  ls_available :: rat
  ls_buying_power :: rat
  ls_equity :: rat
  ls_quantity :: rat
  ls_market_value :: rat
  ls_trades :: nat
  ls_orders :: nat
  ls_metadata :: "(pystr, pystr) dict"

definition from_portfolio :: "pystr \<Rightarrow> portfolio \<Rightarrow> time \<Rightarrow> rat \<Rightarrow> (pystr, pystr) dict option \<Rightarrow> live_snapshot" where
  "from_portfolio i p t price m = \<lparr>ls_id = i, ls_time = t, ls_cash = pf_cash p, ls_reserved = pf_reserved p,
     ls_available = available_capital p, ls_buying_power = buying_power p, ls_equity = equity price p,
     ls_quantity = (if position_is_open (pf_position p) then po_quantity (pf_position p) else 0),
     ls_market_value = market_value (pf_position p) price, ls_trades = length (pf_trades p),
     ls_orders = length (pf_orders p), ls_metadata = (case m of None \<Rightarrow> [] | Some d \<Rightarrow> d)\<rparr>"

record synchronizer =
  sy_portfolio :: portfolio
  sy_id :: pystr
  sy_keys :: "pystr set"
  sy_recorded :: "int set"
  sy_last :: "live_snapshot option"

definition new_synchronizer :: "portfolio \<Rightarrow> pystr \<Rightarrow> synchronizer" where
  "new_synchronizer p i = \<lparr>sy_portfolio = p, sy_id = i, sy_keys = {}, sy_recorded = {}, sy_last = None\<rparr>"

definition side_value :: "order_side \<Rightarrow> pystr" where
  "side_value x = (case x of BUY \<Rightarrow> ''buy'' | SELL \<Rightarrow> ''sell'')"

text \<open>
  \<open>_fill_key\<close>. The texts of a float and of a timestamp (\<open>repr\<close> and \<open>isoformat\<close>) are the
  parameters \<open>fs\<close> and \<open>ts\<close>; an empty id counts as missing.
\<close>

definition fill_key :: "(rat \<Rightarrow> pystr) \<Rightarrow> (time \<Rightarrow> pystr) \<Rightarrow> order \<Rightarrow> pystr" where
  "fill_key fs ts o1 = (case or_fill o1 of
       None \<Rightarrow> ''order:'' @ str_int (or_id o1) @ '':empty''
     | Some f \<Rightarrow>
         if fl_id f \<noteq> None \<and> fl_id f \<noteq> Some [] then the (fl_id f)
         else (case or_broker_id o1 of None \<Rightarrow> ''local'' | Some b \<Rightarrow> if b = [] then ''local'' else b)
              @ '':'' @ str_int (or_id o1) @ '':'' @ side_value (fl_side f) @ '':'' @ ts (fl_time f)
              @ '':'' @ fs (fl_price f) @ '':'' @ fs (fl_quantity f))"

definition sync_record :: "order \<Rightarrow> synchronizer \<Rightarrow> synchronizer" where
  "sync_record o1 y = (if or_id o1 \<in> sy_recorded y then y
     else y\<lparr>sy_portfolio := record_order o1 (sy_portfolio y), sy_recorded := insert (or_id o1) (sy_recorded y)\<rparr>)"

definition sync_snapshot :: "rat \<Rightarrow> time \<Rightarrow> synchronizer \<Rightarrow> synchronizer \<times> live_snapshot" where
  "sync_snapshot price t y = (let z = from_portfolio (sy_id y) (sy_portfolio y) t price None in (y\<lparr>sy_last := Some z\<rparr>, z))"

record sync_result =
  sr_order :: order
  sr_applied :: bool
  sr_trade :: "trade option"
  sr_snapshot :: live_snapshot

record sync_call =
  sc_order :: order
  sc_bar :: int
  sc_price :: rat
  sc_time :: time

definition sync_apply ::
    "(rat \<Rightarrow> pystr) \<Rightarrow> (time \<Rightarrow> pystr) \<Rightarrow> synchronizer \<Rightarrow> sync_call \<Rightarrow> synchronizer \<times> sync_result result" where
  "sync_apply fs ts y0 c =
     (let o1 = sc_order c; y = sync_record o1 y0; key = fill_key fs ts o1 in
      if \<not> is_filled o1 \<or> or_fill o1 = None \<or> key \<in> sy_keys y then
        (let (y', z) = sync_snapshot (sc_price c) (sc_time c) y in
         (y', Inr \<lparr>sr_order = o1, sr_applied = False, sr_trade = None, sr_snapshot = z\<rparr>))
      else
        (case apply_order o1 (sc_bar c) (sy_portfolio y) of
           (p, o2, Inl e) \<Rightarrow> (y\<lparr>sy_portfolio := p\<rparr>, Inl e)
         | (p, o2, Inr tr) \<Rightarrow>
             (let (y', z) = sync_snapshot (sc_price c) (sc_time c)
                    (y\<lparr>sy_portfolio := p, sy_keys := insert key (sy_keys y)\<rparr>)
              in (y', Inr \<lparr>sr_order = o2, sr_applied = True, sr_trade = tr, sr_snapshot = z\<rparr>))))"

text \<open>\<open>apply_orders\<close>: an error leaves the loop with what was applied so far.\<close>

fun sync_apply_orders ::
    "(rat \<Rightarrow> pystr) \<Rightarrow> (time \<Rightarrow> pystr) \<Rightarrow> synchronizer \<Rightarrow> sync_call list \<Rightarrow> synchronizer \<times> sync_result list result" where
  "sync_apply_orders fs ts y [] = (y, Inr [])"
| "sync_apply_orders fs ts y (c # cs) = (case sync_apply fs ts y c of
       (y', Inl e) \<Rightarrow> (y', Inl e)
     | (y', Inr r) \<Rightarrow> (case sync_apply_orders fs ts y' cs of (y'', rs) \<Rightarrow> (y'', rbind rs (\<lambda>rs. Inr (r # rs)))))"

lemma sync_snapshot_simps [simp]:
  "sy_portfolio (fst (sync_snapshot x t y)) = sy_portfolio y" "sy_keys (fst (sync_snapshot x t y)) = sy_keys y"
  "sy_recorded (fst (sync_snapshot x t y)) = sy_recorded y"
  by (simp_all add: sync_snapshot_def Let_def)

text \<open>What a synchroniser has already seen: the order is recorded and its fill applied, or it has none.\<close>

definition seen :: "(rat \<Rightarrow> pystr) \<Rightarrow> (time \<Rightarrow> pystr) \<Rightarrow> synchronizer \<Rightarrow> sync_call \<Rightarrow> bool" where
  "seen fs ts y c \<longleftrightarrow> or_id (sc_order c) \<in> sy_recorded y \<and>
     (\<not> is_filled (sc_order c) \<or> or_fill (sc_order c) = None \<or> fill_key fs ts (sc_order c) \<in> sy_keys y)"

lemma sync_apply_keeps:
  "sy_recorded y \<subseteq> sy_recorded (fst (sync_apply fs ts y c))"
  "sy_keys y \<subseteq> sy_keys (fst (sync_apply fs ts y c))"
  "snd (sync_apply fs ts y c) = Inr r \<Longrightarrow> seen fs ts (fst (sync_apply fs ts y c)) c"
  by (auto simp: sync_apply_def sync_record_def sync_snapshot_def seen_def Let_def split: prod.splits sum.splits if_splits)

lemma sync_apply_seen:
  assumes "seen fs ts y c"
  shows "sy_portfolio (fst (sync_apply fs ts y c)) = sy_portfolio y" "sy_keys (fst (sync_apply fs ts y c)) = sy_keys y"
    "sy_recorded (fst (sync_apply fs ts y c)) = sy_recorded y" "\<exists>r. snd (sync_apply fs ts y c) = Inr r \<and> \<not> sr_applied r"
  using assms by (auto simp: seen_def sync_apply_def sync_record_def sync_snapshot_def Let_def)

lemma seen_mono:
  "seen fs ts y c \<Longrightarrow> sy_recorded y \<subseteq> sy_recorded z \<Longrightarrow> sy_keys y \<subseteq> sy_keys z \<Longrightarrow> seen fs ts z c"
  by (auto simp: seen_def)

lemma sync_apply_orders_keeps:
  "sy_recorded y \<subseteq> sy_recorded (fst (sync_apply_orders fs ts y cs)) \<and>
   sy_keys y \<subseteq> sy_keys (fst (sync_apply_orders fs ts y cs))"
proof (induction cs arbitrary: y)
  case (Cons c cs)
  obtain y' r where r: "sync_apply fs ts y c = (y', r)" by (cases "sync_apply fs ts y c")
  from sync_apply_keeps(1,2) [of y fs ts c] Cons.IH [of y'] r show ?case
    by (cases r) (auto split: prod.splits)
qed simp

lemma sync_apply_orders_seen:
  assumes "sync_apply_orders fs ts y cs = (y', Inr rs)" "c \<in> set cs"
  shows "seen fs ts y' c"
  using assms
proof (induction cs arbitrary: y rs)
  case (Cons b cs)
  from Cons.prems(1) obtain y1 r rs' where
    b: "sync_apply fs ts y b = (y1, Inr r)" and cs: "sync_apply_orders fs ts y1 cs = (y', Inr rs')"
    by (auto split: prod.splits sum.splits simp: rbind_Inr_iff)
  show ?case
  proof (cases "c = b")
    case True
    have "seen fs ts y1 b" using sync_apply_keeps(3) [of fs ts y b r] b by simp
    with sync_apply_orders_keeps [of y1 fs ts cs] cs True show ?thesis by (auto intro: seen_mono)
  next
    case False
    with Cons cs show ?thesis by auto
  qed
qed simp

lemma sync_apply_orders_again:
  assumes "\<forall>c\<in>set cs. seen fs ts y c"
  shows "sy_portfolio (fst (sync_apply_orders fs ts y cs)) = sy_portfolio y \<and>
    (\<exists>rs. snd (sync_apply_orders fs ts y cs) = Inr rs \<and> (\<forall>r\<in>set rs. \<not> sr_applied r))"
  using assms
proof (induction cs arbitrary: y)
  case (Cons c cs)
  obtain y' r where c: "sync_apply fs ts y c = (y', r)" by (cases "sync_apply fs ts y c")
  have y': "sy_portfolio y' = sy_portfolio y" "sy_keys y' = sy_keys y" "sy_recorded y' = sy_recorded y"
    "\<exists>z. r = Inr z \<and> \<not> sr_applied z"
    using sync_apply_seen [of fs ts y c] Cons.prems c by auto
  with Cons.prems have "\<forall>c\<in>set cs. seen fs ts y' c" by (auto simp: seen_def)
  from Cons.IH [OF this] y' c show ?case by (auto split: prod.splits)
qed simp

section \<open>Properties\<close>

text \<open>A buy that the cash covers passes the check; whole amounts are computed exactly.\<close>

lemma isfl_numeral [simp]: "(numeral n :: int) \<le> 9007199254740992 \<Longrightarrow> isfl (numeral n)"
  by (simp add: isfl_def)

lemma affordable: "isfl c \<Longrightarrow> x \<le> c \<Longrightarrow> \<not> b64 (c + b64 (1 / 1000000000)) < x"
  using fadd_ge [of c "b64 (1 / 1000000000)"] b64.rnd_nonneg [of "1 / 1000000000"] by (simp add: fadd_def)

lemmas demo_simps = fadd_def fsub_def fmul_def fdiv_def affordable Let_def
  apply_order_def apply_buy_def apply_sell_def open_long_def close_position_def close_trade_def reset_flat_def
  position_is_open_def release_def reserve_def record_order_def mark_def equity_def market_value_def slippage_def
  simulated_execute_def submit_order_def complete_order_def reject_order_def is_filled_def new_order_def
  new_portfolio_def new_position_def

text \<open>C6: A portfolio is sound after any sequence of calls, failed ones included: the reservation is
  never negative, the position is either flat and empty or long with a positive size and an entry,
  and the realised profit is the sum, in order, of the trades that were closed.\<close>

theorem portfolio_stays_sound:
  assumes "new_portfolio capital a leverage = Inr p"
  shows "portfolio_inv (feed portfolio_step p cs)"
  by (rule feed_invariant) (auto intro: new_portfolio_inv [OF assms] portfolio_step_inv)

definition demo_fill :: "order_side \<Rightarrow> rat \<Rightarrow> rat \<Rightarrow> time \<Rightarrow> fill" where
  "demo_fill side price q t = \<lparr>fl_price = price, fl_quantity = q, fl_cost = 1, fl_reference = price,
     fl_side = side, fl_time = t, fl_id = None\<rparr>"

definition demo_order :: "int \<Rightarrow> order_side \<Rightarrow> rat \<Rightarrow> rat \<Rightarrow> time \<Rightarrow> order" where
  "demo_order i side price q t = complete_order (demo_fill side price q t) (new_order i side ENTRY q price t)"

definition demo_calls :: "portfolio_call list" where
  "demo_calls = [Reserve 200, Record (demo_order 1 BUY 100 2 0), Apply (demo_order 1 BUY 100 2 0) 0, Mark 0 100,
     Record (demo_order 2 SELL 110 2 5), Apply (demo_order 2 SELL 110 2 5) 3, Mark 5 110]"

definition demo_portfolio :: portfolio where
  "demo_portfolio = (case new_portfolio 1000 None 1 of Inr p \<Rightarrow> p)"

lemma demo_portfolio: "new_portfolio 1000 None 1 = Inr demo_portfolio"
  by (simp add: demo_portfolio_def new_portfolio_def)

theorem portfolio_stays_sound_witness:
  "portfolio_inv (feed portfolio_step demo_portfolio demo_calls)"
  using portfolio_stays_sound [OF demo_portfolio] .

text \<open>C7: On whole amounts the books balance exactly: after any regular run of a new portfolio
  (buys meet a flat position, sells close the open size, no fill moves more than A, and the total
  turnover stays below \<open>2 ^ 53\<close>) the cash is the starting capital plus the net profits of the closed
  trades, less what is invested in the open position, rejected buys included.\<close>

theorem accounts_balance:
  assumes "new_portfolio capital a leverage = Inr p" "capital \<in> \<int>" "0 \<le> A" "A \<le> capital"
    and "regular_run A p cs" "capital + of_nat (length cs) * A \<le> 9007199254740992"
  shows "pf_cash (feed portfolio_step p cs) =
    capital + (\<Sum>tr\<leftarrow>pf_trades (feed portfolio_step p cs). tr_net tr) - invested (pf_position (feed portfolio_step p cs))"
proof -
  have "0 \<le> of_nat (length cs) * A" using assms(3) by simp
  then have le: "\<bar>capital\<bar> \<le> 9007199254740992" using assms(3,4,6) by linarith
  with assms(1-4) have "ledger A capital p" and p: "pf_starting p = capital"
    by (auto simp: new_portfolio_def ledger_def new_position_def invested_def wf_position_def b64_Ints split: if_splits)
  from ledger_run [OF this(1) assms(5,6,4,3)] p show ?thesis by (simp add: ledger_def)
qed

theorem accounts_balance_witness:
  "pf_cash (feed portfolio_step demo_portfolio demo_calls) =
    1000 + (\<Sum>tr\<leftarrow>pf_trades (feed portfolio_step demo_portfolio demo_calls). tr_net tr)
      - invested (pf_position (feed portfolio_step demo_portfolio demo_calls))"
proof (rule accounts_balance [OF demo_portfolio, of 221])
  show "regular_run 221 demo_portfolio demo_calls"
    by (simp add: demo_calls_def demo_portfolio_def demo_order_def demo_fill_def whole_fill_def demo_simps)
  show "(1000::rat) + of_nat (length demo_calls) * 221 \<le> 9007199254740992" by (simp add: demo_calls_def)
qed simp_all

text \<open>C8: Buying and selling back at an unchanged market never pays: when a buy executed at some
  reference price opens a position and a sell of the same quantity executed at the same reference closes
  it, under any slippage and commission model, the closed trade is not a win and its net profit is at
  most zero, whatever the rounding does.\<close>

theorem round_trip_never_gains:
  assumes "wf_slippage s" "wf_brokerage b" "0 < r" "\<not> position_is_open (pf_position p)"
    and "or_side ob = BUY" "or_side os = SELL" "or_quantity os = or_quantity ob"
    and "apply_order (simulated_execute s b ob (Some r) t) bar p = (p1, ob', Inr None)" "is_filled ob'"
    and "apply_order (simulated_execute s b os (Some r) t') bar' p1 = (p2, os', Inr (Some tr))"
  shows "tr_net tr \<le> 0 \<and> \<not> is_win tr"
proof -
  define pb where "pb = slippage_adjust s (b64 r) BUY"
  define ps where "ps = slippage_adjust s (b64 r) SELL"
  define q where "q = or_quantity ob"
  have r: "isfl (b64 r)" "0 \<le> b64 r" using assms(3) by (simp_all add: b64.rnd_nonneg)
  have le: "ps \<le> pb" unfolding pb_def ps_def
    using costs.buy_not_better [OF assms(1) r] costs.sell_not_better [OF assms(1) r] by linarith
  have c: "0 \<le> brokerage_cost b q x" for x by (rule costs.cost_nonneg [OF assms(2)])
  have p1: "po_average (pf_position p1) = b64 pb \<and> po_entry_cost (pf_position p1) = b64 (brokerage_cost b q pb)"
    using assms(3-5,8,9)
    by (auto simp: simulated_execute_def submit_order_def complete_order_def apply_order_def apply_buy_def Let_def
        open_long_def release_def pb_def q_def is_filled_def reject_order_def position_is_open_def split: if_splits sum.splits)
  from assms(3,6,7,10) have "position_is_open (pf_position p1)" and
    "tr = close_trade ps (brokerage_cost b q ps) t' bar' (pf_position p1)"
    by (auto simp: simulated_execute_def submit_order_def complete_order_def apply_order_def apply_sell_def Let_def
        close_position_def ps_def q_def split: if_splits)
  with p1 have "tr_net tr = fsub (fsub (fmul (fsub (b64 ps) (b64 pb)) (po_quantity (pf_position p1))) (b64 (brokerage_cost b q pb)))
      (b64 (brokerage_cost b q ps))" and n: "0 \<le> po_quantity (pf_position p1)"
    by (auto simp: position_is_open_def)
  moreover have "fsub (b64 ps) (b64 pb) \<le> 0"
    using b64.rnd_mono [OF le] by (simp add: fsub_def b64.rnd_nonpos_iff)
  then have "fmul (fsub (b64 ps) (b64 pb)) (po_quantity (pf_position p1)) \<le> 0"
    using n by (simp add: fmul_def b64.rnd_nonpos_iff mult_nonpos_nonneg)
  then have "fsub (fmul (fsub (b64 ps) (b64 pb)) (po_quantity (pf_position p1))) (b64 (brokerage_cost b q pb)) \<le> 0"
    using b64.rnd_nonneg [OF c, of pb] by (auto simp: fsub_def intro!: b64.rnd_nonpos)
  then have "fsub (fsub (fmul (fsub (b64 ps) (b64 pb)) (po_quantity (pf_position p1))) (b64 (brokerage_cost b q pb)))
      (b64 (brokerage_cost b q ps)) \<le> 0"
    using b64.rnd_nonneg [OF c, of ps] by (auto simp: fsub_def intro!: b64.rnd_nonpos)
  ultimately show ?thesis by (simp add: is_win_def)
qed

definition demo_ticket :: "int \<Rightarrow> order_side \<Rightarrow> order" where
  "demo_ticket i side = new_order i side ENTRY 2 100 0"

definition demo_bought :: portfolio where
  "demo_bought = fst (apply_order (simulated_execute (FixedSlippage 1) (FixedBrokerage 1) (demo_ticket 1 BUY) (Some 100) 0) 0
     demo_portfolio)"

definition demo_trade :: trade where
  "demo_trade = close_trade 99 1 7 4 (pf_position demo_bought)"

theorem round_trip_never_gains_witness:
  "tr_net demo_trade \<le> 0 \<and> \<not> is_win demo_trade"
proof (rule round_trip_never_gains [where s = "FixedSlippage 1" and b = "FixedBrokerage 1" and r = 100
      and p = demo_portfolio and ob = "demo_ticket 1 BUY" and os = "demo_ticket 2 SELL"])
  show "apply_order (simulated_execute (FixedSlippage 1) (FixedBrokerage 1) (demo_ticket 1 BUY) (Some 100) 0) 0 demo_portfolio
      = (demo_bought, simulated_execute (FixedSlippage 1) (FixedBrokerage 1) (demo_ticket 1 BUY) (Some 100) 0, Inr None)"
    by (simp add: demo_bought_def demo_portfolio_def demo_ticket_def demo_simps)
  show "apply_order (simulated_execute (FixedSlippage 1) (FixedBrokerage 1) (demo_ticket 2 SELL) (Some 100) 7) 4 demo_bought
      = (fst (apply_order (simulated_execute (FixedSlippage 1) (FixedBrokerage 1) (demo_ticket 2 SELL) (Some 100) 7) 4 demo_bought),
         simulated_execute (FixedSlippage 1) (FixedBrokerage 1) (demo_ticket 2 SELL) (Some 100) 7, Inr (Some demo_trade))"
    by (simp add: demo_trade_def demo_bought_def demo_portfolio_def demo_ticket_def demo_simps)
qed (simp_all add: demo_ticket_def demo_portfolio_def demo_simps)

definition delay_fill :: "time \<Rightarrow> order \<Rightarrow> order" where
  "delay_fill t o1 = o1\<lparr>or_fill := map_option (\<lambda>f. f\<lparr>fl_time := t\<rparr>) (or_fill o1)\<rparr>"

text \<open>The paper venue differs from the backtest executor in time only: for every order, reference
  and latency model, executing on paper gives the order the simulated executor gives, with the fill's
  time taken from the latency model, which is consulted exactly when the order fills.\<close>

theorem latency_only_delays:
  "or_fill o1 = None \<Longrightarrow> paper_execute x o1 ref t =
     (let o2 = simulated_execute (ex_slippage x) (ex_brokerage x) o1 ref t in
      if is_filled o2 then (x\<lparr>ex_latency := fst (latency_apply (ex_latency x) t)\<rparr>,
                            delay_fill (snd (latency_apply (ex_latency x) t)) o2)
      else (x, o2))"
  by (auto simp: paper_execute_def simulated_execute_def submit_order_def reject_order_def complete_order_def
      is_filled_def delay_fill_def Let_def split: option.split prod.split)

theorem latency_only_delays_witness:
  "paper_execute \<lparr>ex_slippage = ZeroSlippage, ex_brokerage = ZeroBrokerage, ex_latency = FixedLatency 5\<rparr>
     (demo_ticket 1 BUY) (Some 100) 0 =
   (let o2 = simulated_execute ZeroSlippage ZeroBrokerage (demo_ticket 1 BUY) (Some 100) 0 in
    if is_filled o2 then (\<lparr>ex_slippage = ZeroSlippage, ex_brokerage = ZeroBrokerage, ex_latency = FixedLatency 5\<rparr>,
                          delay_fill 5 o2)
    else (\<lparr>ex_slippage = ZeroSlippage, ex_brokerage = ZeroBrokerage, ex_latency = FixedLatency 5\<rparr>, o2))"
  using latency_only_delays [of "demo_ticket 1 BUY"
      "\<lparr>ex_slippage = ZeroSlippage, ex_brokerage = ZeroBrokerage, ex_latency = FixedLatency 5\<rparr>" "Some 100" 0]
  by (simp add: demo_ticket_def new_order_def Let_def)

text \<open>Replaying orders into the synchroniser is harmless: once a batch has been applied without an
  error, applying the same batch again (or any part of it, in any order) changes nothing in the portfolio,
  fails nowhere and reports every order as not applied.\<close>

theorem synchroniser_is_idempotent:
  assumes "sync_apply_orders fs ts y cs = (y', Inr rs)" "set ds \<subseteq> set cs"
  shows "sy_portfolio (fst (sync_apply_orders fs ts y' ds)) = sy_portfolio y' \<and>
    (\<exists>rs'. snd (sync_apply_orders fs ts y' ds) = Inr rs' \<and> (\<forall>r\<in>set rs'. \<not> sr_applied r))"
  using sync_apply_orders_seen [OF assms(1)] assms(2) by (intro sync_apply_orders_again) blast

definition demo_sync :: synchronizer where
  "demo_sync = new_synchronizer demo_portfolio ''live_portfolio''"

definition demo_batch :: "sync_call list" where
  "demo_batch = [\<lparr>sc_order = demo_order 1 BUY 100 2 0, sc_bar = 0, sc_price = 100, sc_time = 0\<rparr>,
     \<lparr>sc_order = demo_order 2 SELL 110 2 5, sc_bar = 3, sc_price = 110, sc_time = 5\<rparr>]"

definition demo_synced :: synchronizer where
  "demo_synced = fst (sync_apply_orders (\<lambda>x. []) str_int demo_sync demo_batch)"

lemma demo_synced:
  "sync_apply_orders (\<lambda>x. []) str_int demo_sync demo_batch =
    (demo_synced, snd (sync_apply_orders (\<lambda>x. []) str_int demo_sync demo_batch))"
  "isl (snd (sync_apply_orders (\<lambda>x. []) str_int demo_sync demo_batch)) = False"
  by (simp add: demo_synced_def)
    (simp add: demo_sync_def demo_batch_def demo_order_def demo_fill_def demo_portfolio_def new_synchronizer_def
      sync_apply_def sync_record_def sync_snapshot_def from_portfolio_def fill_key_def side_value_def demo_simps str_int_def)

theorem synchroniser_is_idempotent_witness:
  "sy_portfolio (fst (sync_apply_orders (\<lambda>x. []) str_int demo_synced demo_batch)) = sy_portfolio demo_synced"
proof -
  obtain rs where "sync_apply_orders (\<lambda>x. []) str_int demo_sync demo_batch = (demo_synced, Inr rs)"
    using demo_synced by (cases "snd (sync_apply_orders (\<lambda>x. []) str_int demo_sync demo_batch)") auto
  from synchroniser_is_idempotent [OF this order_refl] show ?thesis by blast
qed

text \<open>A sell on a flat position creates money: it opens no position and records no trade, but its
  proceeds are credited to the cash.\<close>

theorem sell_from_flat_credits_cash:
  "\<not> position_is_open (pf_position p) \<Longrightarrow> or_side o1 = SELL \<Longrightarrow> or_fill o1 = Some f \<Longrightarrow>
   \<exists>p'. apply_order o1 bar p = (p', o1, Inr None) \<and> pf_position p' = pf_position p \<and> pf_trades p' = pf_trades p \<and>
     pf_cash p' = fadd (pf_cash p) (fsub (fmul (fl_price f) (fl_quantity f)) (fl_cost f))"
  by (simp add: apply_order_def apply_sell_def close_position_def Let_def)

theorem sell_from_flat_credits_cash_witness:
  "\<exists>p'. apply_order (demo_order 2 SELL 110 2 5) 3 demo_portfolio = (p', demo_order 2 SELL 110 2 5, Inr None) \<and>
     pf_position p' = pf_position demo_portfolio \<and> pf_trades p' = pf_trades demo_portfolio \<and>
     pf_cash p' = fadd (pf_cash demo_portfolio) (fsub (fmul 110 2) 1)"
  using sell_from_flat_credits_cash [of demo_portfolio "demo_order 2 SELL 110 2 5" "demo_fill SELL 110 2 5" 3]
  by (simp add: demo_portfolio_def new_portfolio_def demo_order_def demo_fill_def new_order_def complete_order_def)

end
