(* ===== verification/Paper.thy ===== *)
theory Paper imports Portfolio begin

text \<open>
  The paper venue: tickets and quotes (\<open>trading/paper/enums.py\<close>, \<open>ticket.py\<close>, \<open>quote.py\<close>), the
  book of resting orders and its trigger rules (\<open>pending.py\<close>), the exchange simulator
  (\<open>simulator.py\<close>) and the session and its manager (\<open>session.py\<close>). An \<open>Order\<close> object is shared by its
  ticket, the portfolio and the events, so the simulator keeps a store of the orders it created, and
  tickets and events name an order by its id.
\<close>

section \<open>Tickets, quotes and the book\<close>

datatype order_type = MARKET | LIMIT | STOP
datatype time_in_force = GTC | IOC

record quote =
  qu_symbol :: pystr
  qu_time :: time
  qu_price :: rat
  qu_high :: rat
  qu_low :: rat

definition quote_from_tick :: "pystr \<Rightarrow> time \<Rightarrow> rat \<Rightarrow> quote" where
  "quote_from_tick name t price = \<lparr>qu_symbol = name, qu_time = t, qu_price = b64 price, qu_high = b64 price, qu_low = b64 price\<rparr>"

definition quote_from_candle :: "pystr \<Rightarrow> time \<Rightarrow> rat \<Rightarrow> rat \<Rightarrow> rat \<Rightarrow> quote" where
  "quote_from_candle name t close high low =
     \<lparr>qu_symbol = name, qu_time = t, qu_price = b64 close, qu_high = b64 high, qu_low = b64 low\<rparr>"

record ticket =
  tk_order :: int
  tk_type :: order_type
  tk_tif :: time_in_force
  tk_limit :: "rat option"
  tk_stop :: "rat option"

definition new_ticket :: "int \<Rightarrow> order_type \<Rightarrow> time_in_force \<Rightarrow> rat option \<Rightarrow> rat option \<Rightarrow> ticket result" where
  "new_ticket i ty tif limp stopp =
     (if ty = LIMIT \<and> limp = None then Inl ValueError
      else if ty = STOP \<and> stopp = None then Inl ValueError
      else if (case limp of None \<Rightarrow> False | Some x \<Rightarrow> x \<le> 0) then Inl ValueError
      else if (case stopp of None \<Rightarrow> False | Some x \<Rightarrow> x \<le> 0) then Inl ValueError
      else Inr \<lparr>tk_order = i, tk_type = ty, tk_tif = tif, tk_limit = limp, tk_stop = stopp\<rparr>)"

definition is_resting :: "ticket \<Rightarrow> bool" where
  "is_resting tk \<longleftrightarrow> tk_type tk = LIMIT \<or> tk_type tk = STOP"

text \<open>
  \<open>_trigger_reference\<close>; the side is that of the ticket's order. A limit ticket without a limit price
  (or a stop ticket without a stop price) cannot be built, the source asserts it.
\<close>

definition trigger_reference :: "order_side \<Rightarrow> ticket \<Rightarrow> quote \<Rightarrow> rat option" where
  "trigger_reference side tk q = (case tk_type tk of
       LIMIT \<Rightarrow> (case tk_limit tk of None \<Rightarrow> None | Some l \<Rightarrow>
          if side = BUY \<and> qu_low q \<le> l then Some l
          else if side = SELL \<and> l \<le> qu_high q then Some l else None)
     | STOP \<Rightarrow> (case tk_stop tk of None \<Rightarrow> None | Some x \<Rightarrow>
          if side = BUY \<and> x \<le> qu_high q then Some x
          else if side = SELL \<and> qu_low q \<le> x then Some x else None)
     | MARKET \<Rightarrow> None)"

type_synonym book = "(int, ticket) dict"

definition book_add :: "ticket \<Rightarrow> book \<Rightarrow> book" where
  "book_add tk b = dset (tk_order tk) tk b"

definition book_remove :: "int \<Rightarrow> book \<Rightarrow> book \<times> ticket option" where
  "book_remove i b = (ddel i b, dget b i)"

text \<open>\<open>match\<close>: what triggers, in ascending order of the ids, leaves the book.\<close>

definition triggered_on :: "(int \<Rightarrow> order_side) \<Rightarrow> quote \<Rightarrow> book \<Rightarrow> (ticket \<times> rat) list" where
  "triggered_on side q b = List.map_filter (\<lambda>i. case dget b i of None \<Rightarrow> None
     | Some tk \<Rightarrow> map_option (Pair tk) (trigger_reference (side i) tk q)) (sort (dkeys b))"

definition book_match :: "(int \<Rightarrow> order_side) \<Rightarrow> quote \<Rightarrow> book \<Rightarrow> book \<times> (ticket \<times> rat) list" where
  "book_match side q b = (let xs = triggered_on side q b in (foldl (\<lambda>b x. ddel (tk_order (fst x)) b) b xs, xs))"

section \<open>The exchange simulator\<close>

datatype event_kind = Accepted | Triggered | Filled | Rejected | Cancelled

record order_event =
  oe_kind :: event_kind
  oe_order :: int
  oe_reference :: "rat option"

record simulator =
  si_portfolio :: portfolio
  si_executor :: executor
  si_orders :: "(int, order) dict"
  si_pending :: book
  si_queue :: book
  si_next :: int
  si_sequence :: int
  si_last :: "quote option"

definition new_simulator :: "portfolio \<Rightarrow> executor \<Rightarrow> simulator" where
  "new_simulator p x = \<lparr>si_portfolio = p, si_executor = x, si_orders = [], si_pending = [], si_queue = [],
     si_next = 0, si_sequence = -1, si_last = None\<rparr>"

definition order_of :: "simulator \<Rightarrow> int \<Rightarrow> order" where
  "order_of s i = the (dget (si_orders s) i)"

definition open_orders :: "simulator \<Rightarrow> ticket list" where
  "open_orders s = dvals (si_queue s) @ dvals (si_pending s)"

definition last_price :: "simulator \<Rightarrow> rat option" where
  "last_price s = map_option qu_price (si_last s)"

record order_request =
  rq_side :: order_side
  rq_intent :: order_intent
  rq_quantity :: rat
  rq_type :: order_type
  rq_limit :: "rat option"
  rq_stop :: "rat option"
  rq_tif :: time_in_force
  rq_time :: "time option"

definition reference_estimate :: "order_type \<Rightarrow> rat option \<Rightarrow> rat option \<Rightarrow> simulator \<Rightarrow> rat" where
  "reference_estimate ty limp stopp s =
     (if ty = LIMIT \<and> limp \<noteq> None then b64 (the limp)
      else if ty = STOP \<and> stopp \<noteq> None then b64 (the stopp)
      else case si_last s of Some q \<Rightarrow> qu_price q | None \<Rightarrow> 0)"

text \<open>\<open>submit\<close>; \<open>now\<close> is the clock, read when neither the caller nor a quote gives a time.\<close>

definition sim_submit :: "order_request \<Rightarrow> time \<Rightarrow> simulator \<Rightarrow> simulator \<times> order_event result" where
  "sim_submit r now s =
     (let t = (case rq_time r of Some t \<Rightarrow> t | None \<Rightarrow> (case si_last s of Some q \<Rightarrow> qu_time q | None \<Rightarrow> now));
          ref = reference_estimate (rq_type r) (rq_limit r) (rq_stop r) s;
          i = si_next s + 1; s1 = s\<lparr>si_next := i\<rparr>;
          o1 = new_order i (rq_side r) (rq_intent r) (b64 (rq_quantity r)) ref t
      in if rq_quantity r \<le> 0 then
           (s1\<lparr>si_orders := dset i (reject_order ''quantity must be positive'' o1) (si_orders s)\<rparr>,
            Inr \<lparr>oe_kind = Rejected, oe_order = i, oe_reference = None\<rparr>)
         else case new_ticket i (rq_type r) (rq_tif r) (rq_limit r) (rq_stop r) of
           Inl e \<Rightarrow> (s1, Inl e)
         | Inr tk \<Rightarrow>
             (let x = fmul (b64 (rq_quantity r)) ref;
                  (o2, p) = (if rq_side r = BUY \<and> 0 < ref then (o1\<lparr>or_reserved := x\<rparr>, reserve x (si_portfolio s))
                             else (o1, si_portfolio s));
                  s2 = s1\<lparr>si_orders := dset i o2 (si_orders s), si_portfolio := record_order o2 p\<rparr>
              in (if is_resting tk then s2\<lparr>si_pending := book_add tk (si_pending s)\<rparr>
                  else s2\<lparr>si_queue := dset i tk (si_queue s)\<rparr>,
                  Inr \<lparr>oe_kind = Accepted, oe_order = i, oe_reference = None\<rparr>)))"

definition set_order :: "order \<Rightarrow> simulator \<Rightarrow> simulator" where
  "set_order o1 s = s\<lparr>si_orders := dset (or_id o1) o1 (si_orders s)\<rparr>"

definition sim_cancel :: "int \<Rightarrow> simulator \<Rightarrow> simulator \<times> order_event option" where
  "sim_cancel i s =
     (let (s1, tk) = (case dget (si_queue s) i of
            Some tk \<Rightarrow> (s\<lparr>si_queue := ddel i (si_queue s)\<rparr>, Some tk)
          | None \<Rightarrow> (let (b, tk) = book_remove i (si_pending s) in (s\<lparr>si_pending := b\<rparr>, tk)))
      in case tk of
           None \<Rightarrow> (s1, None)
         | Some tk \<Rightarrow>
             (let o1 = order_of s1 (tk_order tk);
                  s2 = (if or_side o1 = BUY then s1\<lparr>si_portfolio := release (or_reserved o1) (si_portfolio s1)\<rparr> else s1)
              in (set_order (cancel_order o1) s2,
                  Some \<lparr>oe_kind = Cancelled, oe_order = tk_order tk, oe_reference = None\<rparr>)))"

text \<open>\<open>_fill\<close>: execute, settle, report.\<close>

definition fill_ticket :: "ticket \<Rightarrow> rat \<Rightarrow> time \<Rightarrow> simulator \<Rightarrow> simulator \<times> order_event result" where
  "fill_ticket tk ref t s =
     (let (x, o1) = paper_execute (si_executor s) (order_of s (tk_order tk)) (Some ref) t;
          (p, o2, r) = apply_order o1 (si_sequence s) (si_portfolio s);
          s' = set_order o2 (s\<lparr>si_executor := x, si_portfolio := p\<rparr>)
      in case r of
           Inl e \<Rightarrow> (s', Inl e)
         | Inr _ \<Rightarrow> (s', Inr \<lparr>oe_kind = (if or_status o2 = FILLED then Filled else Rejected), oe_order = or_id o2,
                            oe_reference = Some ref\<rparr>))"

fun fill_loop :: "bool \<Rightarrow> time \<Rightarrow> (ticket \<times> rat) list \<Rightarrow> simulator \<Rightarrow> simulator \<times> order_event list result" where
  "fill_loop announce t [] s = (s, Inr [])"
| "fill_loop announce t ((tk, ref) # xs) s = (case fill_ticket tk ref t s of
       (s', Inl e) \<Rightarrow> (s', Inl e)
     | (s', Inr ev) \<Rightarrow> (case fill_loop announce t xs s' of (s'', evs) \<Rightarrow>
         (s'', rbind evs (\<lambda>evs. Inr ((if announce then [\<lparr>oe_kind = Triggered, oe_order = tk_order tk,
            oe_reference = Some ref\<rparr>] else []) @ ev # evs)))))"

fun cancel_ioc :: "ticket list \<Rightarrow> simulator \<Rightarrow> simulator \<times> order_event list" where
  "cancel_ioc [] s = (s, [])"
| "cancel_ioc (tk # tks) s =
     (if tk_tif tk = IOC then
        (let (s1, ev) = sim_cancel (tk_order tk) s; (s2, evs) = cancel_ioc tks s1 in
         (s2, (case ev of None \<Rightarrow> [] | Some e \<Rightarrow> [e]) @ evs))
      else cancel_ioc tks s)"

definition on_market_data :: "quote \<Rightarrow> simulator \<Rightarrow> simulator \<times> order_event list result" where
  "on_market_data q s0 =
     (let s = s0\<lparr>si_sequence := si_sequence s0 + 1, si_last := Some q\<rparr> in
      case fill_loop False (qu_time q) (map (\<lambda>i. (the (dget (si_queue s) i), qu_price q)) (sort (dkeys (si_queue s)))) s of
        (s1, Inl e) \<Rightarrow> (s1, Inl e)
      | (s1, Inr ev1) \<Rightarrow>
          (let (b, xs) = book_match (\<lambda>i. or_side (order_of s1 i)) q (si_pending s1);
               s2 = s1\<lparr>si_queue := [], si_pending := b\<rparr> in
           case fill_loop True (qu_time q) xs s2 of
             (s3, Inl e) \<Rightarrow> (s3, Inl e)
           | (s3, Inr ev2) \<Rightarrow>
               (let (s4, ev3) = cancel_ioc (dvals (si_pending s3)) s3 in
                (s4\<lparr>si_portfolio := mark (qu_time q) (qu_price q) (si_portfolio s4)\<rparr>, Inr (ev1 @ ev2 @ ev3)))))"

section \<open>What the simulator keeps\<close>

datatype sim_call = Submit order_request time | Cancel int | Quote quote

fun sim_step :: "simulator \<Rightarrow> sim_call \<Rightarrow> simulator \<times> order_event list result" where
  "sim_step s (Submit r now) = (case sim_submit r now s of (s', e) \<Rightarrow> (s', rbind e (\<lambda>e. Inr [e])))"
| "sim_step s (Cancel i) = (case sim_cancel i s of (s', e) \<Rightarrow> (s', Inr (case e of None \<Rightarrow> [] | Some e \<Rightarrow> [e])))"
| "sim_step s (Quote q) = on_market_data q s"

definition live_order :: "order \<Rightarrow> bool" where
  "live_order o1 \<longleftrightarrow> or_status o1 = CREATED \<and> or_fill o1 = None \<and> 0 < or_quantity o1"

definition terminal_order :: "order \<Rightarrow> bool" where
  "terminal_order o1 \<longleftrightarrow> or_status o1 \<in> {FILLED, REJECTED, CANCELLED}"

text \<open>
  With \<open>L\<close> the ids still open: the orders of the store have the ids they are stored under, given out in
  increasing order; those in \<open>L\<close> are live, all others have ended; the portfolio is sound.
\<close>

definition orders_ok :: "int set \<Rightarrow> simulator \<Rightarrow> bool" where
  "orders_ok L s \<longleftrightarrow> L \<subseteq> set (dkeys (si_orders s)) \<and> wf_dict (si_orders s) \<and> 0 \<le> si_next s \<and>
     (\<forall>i o1. dget (si_orders s) i = Some o1 \<longrightarrow> or_id o1 = i \<and> 1 \<le> i \<and> i \<le> si_next s \<and>
        (if i \<in> L then live_order o1 else terminal_order o1)) \<and>
     portfolio_inv (si_portfolio s)"

definition wf_ticket :: "ticket \<Rightarrow> bool" where
  "wf_ticket tk \<longleftrightarrow> (tk_type tk = LIMIT \<longrightarrow> tk_limit tk \<noteq> None) \<and> (tk_type tk = STOP \<longrightarrow> tk_stop tk \<noteq> None)"

definition wf_book :: "bool \<Rightarrow> book \<Rightarrow> bool" where
  "wf_book resting b \<longleftrightarrow> wf_dict b \<and>
     (\<forall>i tk. dget b i = Some tk \<longrightarrow> tk_order tk = i \<and> is_resting tk = resting \<and> wf_ticket tk)"

abbreviation open_ids :: "simulator \<Rightarrow> int set" where
  "open_ids s \<equiv> set (dkeys (si_queue s)) \<union> set (dkeys (si_pending s))"

text \<open>Every accepted order is in exactly one place: the market queue, the book, or ended.\<close>

definition paper_inv :: "simulator \<Rightarrow> bool" where
  "paper_inv s \<longleftrightarrow> orders_ok (open_ids s) s \<and> wf_book False (si_queue s) \<and> wf_book True (si_pending s) \<and>
     set (dkeys (si_queue s)) \<inter> set (dkeys (si_pending s)) = {}"

lemma wf_book_simps [simp]: "wf_book z []"
  by (simp add: wf_book_def)

lemma wf_book_ddel [intro]: "wf_book z b \<Longrightarrow> wf_book z (ddel i b)"
  by (auto simp: wf_book_def dget_ddel)

lemma wf_book_dset [intro]:
  "wf_book z b \<Longrightarrow> tk_order tk = i \<Longrightarrow> is_resting tk = z \<Longrightarrow> wf_ticket tk \<Longrightarrow> wf_book z (dset i tk b)"
  by (auto simp: wf_book_def dget_dset)

lemma dkeys_dset [simp]: "fst ` set (dset k v d) = insert k (fst ` set d)"
proof (rule set_eqI)
  show "j \<in> fst ` set (dset k v d) \<longleftrightarrow> j \<in> insert k (fst ` set d)" for j
    using dget_None_iff [of "dset k v d" j] dget_None_iff [of d j] dget_dset [of k v d j] by (auto split: if_splits)
qed

lemma dkeys_ddel [simp]: "fst ` set (ddel k d) = fst ` set d - {k}"
proof (rule set_eqI)
  show "j \<in> fst ` set (ddel k d) \<longleftrightarrow> j \<in> fst ` set d - {k}" for j
    using dget_None_iff [of "ddel k d" j] dget_None_iff [of d j] dget_ddel [of k d j] by (auto split: if_splits)
qed

lemma dget_keys: "k \<in> fst ` set d \<Longrightarrow> \<exists>v. dget d k = Some v"
  by (metis dget_None_iff list.set_map option.exhaust)

lemma orders_ok_order_of:
  assumes "orders_ok L s" "i \<in> L"
  shows "dget (si_orders s) i = Some (order_of s i)" "live_order (order_of s i)" "or_id (order_of s i) = i"
proof -
  have "i \<in> fst ` set (si_orders s)" using assms by (auto simp: orders_ok_def)
  from dget_keys [OF this] show e: "dget (si_orders s) i = Some (order_of s i)" by (auto simp: order_of_def)
  with assms show "live_order (order_of s i)" "or_id (order_of s i) = i" by (auto simp: orders_ok_def)
qed

lemma orders_ok_frame:
  "si_orders s' = si_orders s \<Longrightarrow> si_next s' = si_next s \<Longrightarrow> portfolio_inv (si_portfolio s') \<Longrightarrow>
   orders_ok L s \<Longrightarrow> orders_ok L s'"
  by (simp add: orders_ok_def)

lemma orders_ok_end:
  assumes "orders_ok L s" "i \<in> L" "or_id o1 = i" "terminal_order o1" "portfolio_inv p"
  shows "orders_ok (L - {i}) (set_order o1 (s\<lparr>si_executor := x, si_portfolio := p\<rparr>))"
  using assms dget_keys [of i "si_orders s"] by (auto simp: orders_ok_def set_order_def dget_dset)

lemma new_ticket_wf:
  "new_ticket i ty tif limp stopp = Inr tk \<Longrightarrow> tk_order tk = i \<and> tk_type tk = ty \<and> tk_tif tk = tif \<and>
     tk_limit tk = limp \<and> tk_stop tk = stopp \<and> wf_ticket tk"
  by (auto simp: new_ticket_def wf_ticket_def)

lemma reserve_inv: "portfolio_inv p \<Longrightarrow> portfolio_inv (reserve x p)"
  using portfolio_step_inv [of p "Reserve x"] by simp

lemma record_order_inv: "portfolio_inv p \<Longrightarrow> portfolio_inv (record_order o1 p)"
  using portfolio_step_inv [of p "Record o1"] by simp

lemma mark_inv: "portfolio_inv p \<Longrightarrow> portfolio_inv (mark t x p)"
  using portfolio_step_inv [of p "Mark t x"] by simp

lemmas portfolio_invs = reserve_inv record_order_inv mark_inv release_inv

lemma fresh_id: "orders_ok L s \<Longrightarrow> si_next s + 1 \<notin> set (dkeys (si_orders s)) \<and> si_next s + 1 \<notin> L"
  using dget_keys [of "si_next s + 1" "si_orders s"] by (fastforce simp: orders_ok_def)

lemma orders_ok_new:
  assumes "orders_ok L s" "or_id o1 = si_next s + 1" "portfolio_inv p"
    and "if live then live_order o1 else terminal_order o1"
  shows "orders_ok (if live then insert (si_next s + 1) L else L)
    (s\<lparr>si_next := si_next s + 1, si_orders := dset (si_next s + 1) o1 (si_orders s), si_portfolio := p\<rparr>)"
  using assms fresh_id [OF assms(1)] by (fastforce simp: orders_ok_def dget_dset)

lemma sim_submit_inv:
  assumes "paper_inv s"
  shows "paper_inv (fst (sim_submit r now s))"
proof -
  have ok: "orders_ok (open_ids s) s" and p: "portfolio_inv (si_portfolio s)"
    using assms by (auto simp: paper_inv_def orders_ok_def)
  have fresh: "si_next s + 1 \<notin> set (dkeys (si_queue s))" "si_next s + 1 \<notin> set (dkeys (si_pending s))"
    using fresh_id [OF ok] by auto
  define ref where "ref = reference_estimate (rq_type r) (rq_limit r) (rq_stop r) s"
  define t where "t = (case rq_time r of Some t \<Rightarrow> t | None \<Rightarrow> (case si_last s of Some q \<Rightarrow> qu_time q | None \<Rightarrow> now))"
  define o1 where "o1 = new_order (si_next s + 1) (rq_side r) (rq_intent r) (b64 (rq_quantity r)) ref t"
  define x where "x = fmul (b64 (rq_quantity r)) ref"
  define o2 where "o2 = (if rq_side r = BUY \<and> 0 < ref then o1\<lparr>or_reserved := x\<rparr> else o1)"
  define p' where "p' = (if rq_side r = BUY \<and> 0 < ref then reserve x (si_portfolio s) else si_portfolio s)"
  define s2 where "s2 = s\<lparr>si_next := si_next s + 1, si_orders := dset (si_next s + 1) o2 (si_orders s),
    si_portfolio := record_order o2 p'\<rparr>"
  have eq: "sim_submit r now s =
     (if rq_quantity r \<le> 0 then
        (s\<lparr>si_next := si_next s + 1, si_orders := dset (si_next s + 1) (reject_order ''quantity must be positive'' o1) (si_orders s)\<rparr>,
         Inr \<lparr>oe_kind = Rejected, oe_order = si_next s + 1, oe_reference = None\<rparr>)
      else case new_ticket (si_next s + 1) (rq_type r) (rq_tif r) (rq_limit r) (rq_stop r) of
        Inl e \<Rightarrow> (s\<lparr>si_next := si_next s + 1\<rparr>, Inl e)
      | Inr tk \<Rightarrow> (if is_resting tk then s2\<lparr>si_pending := book_add tk (si_pending s)\<rparr>
                  else s2\<lparr>si_queue := dset (si_next s + 1) tk (si_queue s)\<rparr>,
                  Inr \<lparr>oe_kind = Accepted, oe_order = si_next s + 1, oe_reference = None\<rparr>))"
    unfolding sim_submit_def Let_def ref_def [symmetric] t_def [symmetric] o1_def [symmetric] x_def [symmetric]
    by (cases "rq_side r = BUY \<and> 0 < ref") (auto simp: o2_def p'_def s2_def split: sum.split)
  consider "rq_quantity r \<le> 0" | e where "\<not> rq_quantity r \<le> 0" "new_ticket (si_next s + 1) (rq_type r) (rq_tif r) (rq_limit r) (rq_stop r) = Inl e"
    | tk where "0 < rq_quantity r" "new_ticket (si_next s + 1) (rq_type r) (rq_tif r) (rq_limit r) (rq_stop r) = Inr tk"
    by (metis not_le sum.exhaust)
  then show ?thesis
  proof cases
    case 1
    with orders_ok_new [OF ok, of "reject_order ''quantity must be positive'' o1" "si_portfolio s" False] p assms
    show ?thesis by (simp add: eq paper_inv_def o1_def new_order_def reject_order_def terminal_order_def)
  next
    case 2
    with assms show ?thesis by (force simp: eq paper_inv_def orders_ok_def)
  next
    case 3
    have "portfolio_inv (record_order o2 p')" using p by (simp add: p'_def portfolio_invs)
    moreover have "or_id o2 = si_next s + 1" "live_order o2"
      using 3(1) by (simp_all add: o2_def o1_def new_order_def live_order_def b64.rnd_pos)
    ultimately have s2: "orders_ok (insert (si_next s + 1) (open_ids s)) s2"
      using orders_ok_new [OF ok, of o2 "record_order o2 p'" True] by (simp add: s2_def)
    from new_ticket_wf [OF 3(2)] assms fresh have
      "is_resting tk \<Longrightarrow> wf_book True (book_add tk (si_pending s))"
      "\<not> is_resting tk \<Longrightarrow> wf_book False (dset (si_next s + 1) tk (si_queue s))"
      by (auto simp: paper_inv_def book_add_def)
    moreover have "si_queue s2 = si_queue s" "si_pending s2 = si_pending s" by (simp_all add: s2_def)
    moreover have "orders_ok (insert (si_next s + 1) (open_ids s)) (s2\<lparr>si_pending := b\<rparr>)"
      "orders_ok (insert (si_next s + 1) (open_ids s)) (s2\<lparr>si_queue := b\<rparr>)" for b
      using s2 by (simp_all add: orders_ok_def)
    ultimately show ?thesis
      using 3 new_ticket_wf [OF 3(2)] assms fresh
      by (auto simp: eq paper_inv_def book_add_def)
  qed
qed

lemma paper_execute_fill:
  "or_fill (snd (paper_execute x o1 (Some ref) t)) = Some f \<Longrightarrow> or_fill o1 = None \<Longrightarrow>
     or_status (snd (paper_execute x o1 (Some ref) t)) = FILLED \<and> fl_quantity f = or_quantity o1 \<and>
     fl_side f = or_side o1 \<and> fl_reference f = b64 ref \<and> fl_price f = slippage_adjust (ex_slippage x) (b64 ref) (or_side o1) \<and>
     fl_cost f = brokerage_cost (ex_brokerage x) (or_quantity o1) (fl_price f) \<and> 0 < ref"
  by (auto simp: paper_execute_def Let_def submit_order_def reject_order_def complete_order_def
      split: option.splits prod.splits if_splits)

lemma apply_order_order:
  assumes "apply_order o1 bar p = (p', o2, r)"
  shows "or_id o2 = or_id o1" "or_status o2 = or_status o1 \<or> or_status o2 = REJECTED" "or_fill o2 = or_fill o1"
    "o2 = o1 \<or> o2 = reject_order ''insufficient cash'' o1"
    "(\<And>f. or_fill o1 = Some f \<Longrightarrow> 0 < fl_quantity f) \<Longrightarrow> \<exists>tr. r = Inr tr"
  using assms
  by (auto simp: apply_order_def apply_buy_def reject_order_def open_long_def Let_def
      split: option.splits if_splits prod.splits sum.splits)

lemma fill_ticket_ok:
  assumes "orders_ok L s" "tk_order tk \<in> L"
  obtains s' ev where "fill_ticket tk ref t s = (s', Inr ev)" "orders_ok (L - {tk_order tk}) s'"
    "si_queue s' = si_queue s" "si_pending s' = si_pending s" "si_next s' = si_next s"
    "si_sequence s' = si_sequence s" "si_last s' = si_last s" "oe_order ev = tk_order tk"
    "\<And>i. i \<noteq> tk_order tk \<Longrightarrow> dget (si_orders s') i = dget (si_orders s) i"
proof -
  define i where "i = tk_order tk"
  obtain x o1 where x: "paper_execute (si_executor s) (order_of s i) (Some ref) t = (x, o1)"
    by (cases "paper_execute (si_executor s) (order_of s i) (Some ref) t")
  obtain p o2 r where p: "apply_order o1 (si_sequence s) (si_portfolio s) = (p, o2, r)"
    by (cases "apply_order o1 (si_sequence s) (si_portfolio s)")
  note ord = orders_ok_order_of [OF assms [folded i_def]]
  have o1: "or_status o1 = FILLED \<or> or_status o1 = REJECTED" "or_id o1 = i"
    using paper_execute_status [of "si_executor s" "order_of s i" "Some ref" t] x ord(3) by simp_all
  note o2 = apply_order_order [OF p]
  have q: "0 < or_quantity (order_of s i)" "or_fill (order_of s i) = None"
    using ord(2) by (auto simp: live_order_def)
  have "\<exists>tr. r = Inr tr"
  proof (rule o2(5))
    show "0 < fl_quantity f" if "or_fill o1 = Some f" for f
      using paper_execute_fill [of "si_executor s" "order_of s i" ref t f] that q x by simp
  qed
  then obtain tr where r: "r = Inr tr" by blast
  have "portfolio_inv p" using assms(1) apply_order_inv [OF _ p] by (simp add: orders_ok_def)
  moreover have "terminal_order o2" using o1(1) o2(2) by (auto simp: terminal_order_def)
  ultimately have "orders_ok (L - {i}) (set_order o2 (s\<lparr>si_executor := x, si_portfolio := p\<rparr>))"
    using assms o1(2) o2(1) by (intro orders_ok_end) (simp_all add: i_def)
  moreover have "fill_ticket tk ref t s = (set_order o2 (s\<lparr>si_executor := x, si_portfolio := p\<rparr>),
      Inr \<lparr>oe_kind = (if or_status o2 = FILLED then Filled else Rejected), oe_order = or_id o2, oe_reference = Some ref\<rparr>)"
    using x p r by (simp add: fill_ticket_def i_def)
  ultimately show thesis using that o1(2) o2(1) by (simp add: set_order_def i_def dget_dset)
qed

abbreviation batch_ids :: "(ticket \<times> rat) list \<Rightarrow> int list" where
  "batch_ids xs \<equiv> map (\<lambda>x. tk_order (fst x)) xs"

text \<open>The outcome of filling a batch of open tickets: it never raises and ends exactly their orders.\<close>

definition filled_batch :: "int set \<Rightarrow> (ticket \<times> rat) list \<Rightarrow> simulator \<Rightarrow> simulator \<Rightarrow> order_event list \<Rightarrow> bool" where
  "filled_batch L xs s s' evs \<longleftrightarrow> orders_ok (L - set (batch_ids xs)) s' \<and>
    si_queue s' = si_queue s \<and> si_pending s' = si_pending s \<and> si_next s' = si_next s \<and>
    si_sequence s' = si_sequence s \<and> si_last s' = si_last s \<and>
    (\<forall>i. i \<notin> set (batch_ids xs) \<longrightarrow> dget (si_orders s') i = dget (si_orders s) i) \<and>
    set (batch_ids xs) = oe_order ` set evs"

lemma fill_loop_ok:
  assumes "orders_ok L s" "distinct (batch_ids xs)" "set (batch_ids xs) \<subseteq> L"
  shows "\<exists>s' evs. fill_loop z t xs s = (s', Inr evs) \<and> filled_batch L xs s s' evs"
  using assms
proof (induction xs arbitrary: s L)
  case Nil
  then show ?case by (simp add: filled_batch_def)
next
  case (Cons y xs)
  obtain tk ref where y: "y = (tk, ref)" by (cases y)
  from Cons.prems(3) y have "tk_order tk \<in> L" by simp
  then obtain s1 ev where 1: "fill_ticket tk ref t s = (s1, Inr ev)" "orders_ok (L - {tk_order tk}) s1"
    "si_queue s1 = si_queue s" "si_pending s1 = si_pending s" "si_next s1 = si_next s"
    "si_sequence s1 = si_sequence s" "si_last s1 = si_last s" "oe_order ev = tk_order tk"
    "\<And>i. i \<noteq> tk_order tk \<Longrightarrow> dget (si_orders s1) i = dget (si_orders s) i"
    using fill_ticket_ok [OF Cons.prems(1)] by blast
  have "tk_order tk \<notin> set (batch_ids xs)" and d: "distinct (batch_ids xs)" using Cons.prems(2) y by simp_all
  with Cons.prems(3) have "set (batch_ids xs) \<subseteq> L - {tk_order tk}" by (simp add: subset_Diff_insert)
  from Cons.IH [OF 1(2) d this] obtain s2 evs where
    2: "fill_loop z t xs s1 = (s2, Inr evs)" "filled_batch (L - {tk_order tk}) xs s1 s2 evs" by blast
  let ?evs = "(if z then [\<lparr>oe_kind = Triggered, oe_order = tk_order tk, oe_reference = Some ref\<rparr>] else []) @ ev # evs"
  have "fill_loop z t (y # xs) s = (s2, Inr ?evs)" using 1(1) 2(1) by (simp add: y)
  moreover have "set (batch_ids xs) = oe_order ` set evs" using 2(2) unfolding filled_batch_def by blast
  then have "set (batch_ids (y # xs)) = oe_order ` set ?evs" using 1(8) by (cases z) (simp_all add: y)
  moreover have "L - {tk_order tk} - set (batch_ids xs) = L - set (batch_ids (y # xs))"
    by (auto simp: y)
  moreover have "\<forall>i. i \<notin> set (batch_ids (y # xs)) \<longrightarrow> dget (si_orders s2) i = dget (si_orders s) i"
    using 1(9) 2(2) by (simp add: filled_batch_def y)
  ultimately have "fill_loop z t (y # xs) s = (s2, Inr ?evs) \<and> filled_batch L (y # xs) s s2 ?evs"
    using 1 2(2) by (simp only: filled_batch_def simp_thms)
  then show ?case by blast
qed

lemma sim_cancel_ok:
  assumes "orders_ok L s" "i \<in> L" "dget (si_queue s) i = None" "dget (si_pending s) i = Some tk" "tk_order tk = i"
  obtains s' ev where "sim_cancel i s = (s', Some ev)" "orders_ok (L - {i}) s'" "si_queue s' = si_queue s"
    "si_pending s' = ddel i (si_pending s)" "si_next s' = si_next s" "oe_order ev = i" "oe_kind ev = Cancelled"
    "\<And>j. j \<noteq> i \<Longrightarrow> dget (si_orders s') j = dget (si_orders s) j"
    "dget (si_orders s') i = Some (cancel_order (order_of s i))"
proof -
  define p where "p = (if or_side (order_of s i) = BUY then release (or_reserved (order_of s i)) (si_portfolio s) else si_portfolio s)"
  note ord = orders_ok_order_of [OF assms(1,2)]
  have p: "portfolio_inv p" using assms(1) by (simp add: p_def orders_ok_def release_inv)
  have "or_id (cancel_order (order_of s i)) = i" using ord(3) by (simp add: cancel_order_def)
  moreover have "terminal_order (cancel_order (order_of s i))" by (simp add: cancel_order_def terminal_order_def)
  ultimately have "orders_ok (L - {i}) (set_order (cancel_order (order_of s i)) (s\<lparr>si_executor := si_executor s, si_portfolio := p\<rparr>))"
    using assms(1,2) p by (intro orders_ok_end)
  then have "orders_ok (L - {i}) (set_order (cancel_order (order_of s i)) (s\<lparr>si_pending := ddel i (si_pending s), si_portfolio := p\<rparr>))"
    by (rule orders_ok_frame [rotated -1]) (simp_all add: set_order_def p)
  moreover have "sim_cancel i s = (set_order (cancel_order (order_of s i)) (s\<lparr>si_pending := ddel i (si_pending s), si_portfolio := p\<rparr>),
      Some \<lparr>oe_kind = Cancelled, oe_order = i, oe_reference = None\<rparr>)"
    using assms(3-5) by (simp add: sim_cancel_def book_remove_def Let_def p_def order_of_def)
  ultimately show thesis using that ord(3) by (simp add: set_order_def cancel_order_def dget_dset)
qed

section \<open>One quote\<close>

lemma foldl_ddel:
  "dget (foldl (\<lambda>b x. ddel (f x) b) b xs) i = (if i \<in> f ` set xs then None else dget b i)"
  "fst ` set (foldl (\<lambda>b x. ddel (f x) b) b xs) = fst ` set b - f ` set xs"
  by (induction xs arbitrary: b) (auto simp: dget_ddel)

lemma wf_book_foldl_ddel: "wf_book z b \<Longrightarrow> wf_book z (foldl (\<lambda>b x. ddel (f x) b) b xs)"
  by (induction xs arbitrary: b) (simp_all add: wf_book_ddel)

definition triggers :: "(int \<Rightarrow> order_side) \<Rightarrow> quote \<Rightarrow> book \<Rightarrow> int \<Rightarrow> bool" where
  "triggers side q b i \<longleftrightarrow> (case dget b i of None \<Rightarrow> False | Some tk \<Rightarrow> trigger_reference (side i) tk q \<noteq> None)"

lemma triggered_on_ids:
  assumes "wf_book True b"
  shows "batch_ids (triggered_on side q b) = filter (triggers side q b) (sort (dkeys b))"
proof -
  have "batch_ids (List.map_filter (\<lambda>i. case dget b i of None \<Rightarrow> None | Some tk \<Rightarrow>
      map_option (Pair tk) (trigger_reference (side i) tk q)) is) = filter (triggers side q b) is" for "is"
    using assms by (induction "is") (auto simp: map_filter_simps triggers_def wf_book_def split: option.splits)
  then show ?thesis by (simp add: triggered_on_def)
qed

lemma triggered_on_mem:
  assumes "wf_book True b" "(tk, r) \<in> set (triggered_on side q b)"
  shows "dget b (tk_order tk) = Some tk" "trigger_reference (side (tk_order tk)) tk q = Some r"
  using assms by (auto simp: triggered_on_def List.map_filter_def wf_book_def split: option.splits)

lemma book_match_spec:
  assumes "wf_book True b" "book_match side q b = (b', xs)"
  shows "wf_book True b'" "fst ` set b' = {i \<in> fst ` set b. \<not> triggers side q b i}"
    "distinct (batch_ids xs)" "sorted (batch_ids xs)" "set (batch_ids xs) = {i. triggers side q b i}"
    "dget b' i = (if triggers side q b i then None else dget b i)" "xs = triggered_on side q b"
proof -
  have xs: "xs = triggered_on side q b" "b' = foldl (\<lambda>b x. ddel (tk_order (fst x)) b) b xs"
    using assms(2) by (auto simp: book_match_def Let_def)
  then show "xs = triggered_on side q b" by simp
  have ids: "batch_ids xs = filter (triggers side q b) (sort (dkeys b))"
    using triggered_on_ids [OF assms(1)] xs(1) by simp
  have k: "triggers side q b j \<Longrightarrow> j \<in> fst ` set b" for j
    by (auto simp: triggers_def split: option.splits dest: map_of_SomeD) (metis fst_conv image_eqI map_of_SomeD)
  show set_ids: "set (batch_ids xs) = {i. triggers side q b i}"
    unfolding ids using k by auto
  then have im: "(\<lambda>x. tk_order (fst x)) ` set xs = {i. triggers side q b i}" by simp
  show "distinct (batch_ids xs)" "sorted (batch_ids xs)"
    unfolding ids using assms(1) by (simp_all add: wf_book_def wf_dict_def sorted_wrt_filter)
  show "wf_book True b'" unfolding xs(2) by (rule wf_book_foldl_ddel [OF assms(1)])
  show "fst ` set b' = {i \<in> fst ` set b. \<not> triggers side q b i}"
    unfolding xs(2) foldl_ddel(2) im by auto
  show "dget b' i = (if triggers side q b i then None else dget b i)"
    unfolding xs(2) foldl_ddel(1) im by simp
qed

definition ioc_ids :: "ticket list \<Rightarrow> int set" where
  "ioc_ids tks = tk_order ` {tk \<in> set tks. tk_tif tk = IOC}"

lemma ioc_ids_simps [simp]:
  "ioc_ids [] = {}" "ioc_ids (tk # tks) = (if tk_tif tk = IOC then insert (tk_order tk) (ioc_ids tks) else ioc_ids tks)"
  by (auto simp: ioc_ids_def)

definition ioc_done :: "ticket list \<Rightarrow> simulator \<Rightarrow> simulator \<Rightarrow> bool" where
  "ioc_done tks s s' \<longleftrightarrow> orders_ok (fst ` set (si_pending s')) s' \<and> si_queue s' = [] \<and>
    wf_book True (si_pending s') \<and> si_next s' = si_next s \<and>
    (\<forall>i. dget (si_pending s') i = (if i \<in> ioc_ids tks then None else dget (si_pending s) i)) \<and>
    (\<forall>i. i \<notin> ioc_ids tks \<longrightarrow> dget (si_orders s') i = dget (si_orders s) i)"

lemma cancel_ioc_ok:
  assumes "orders_ok (fst ` set (si_pending s)) s" "si_queue s = []" "wf_book True (si_pending s)"
    and "distinct (map tk_order tks)" "\<forall>tk\<in>set tks. dget (si_pending s) (tk_order tk) = Some tk"
  shows "\<exists>s' evs. cancel_ioc tks s = (s', evs) \<and> ioc_done tks s s'"
  using assms
proof (induction tks arbitrary: s)
  case Nil
  then show ?case by (simp add: ioc_done_def)
next
  case (Cons tk tks)
  show ?case
  proof (cases "tk_tif tk = IOC")
    case False
    then have "cancel_ioc (tk # tks) s = cancel_ioc tks s" "\<And>s'. ioc_done (tk # tks) s s' = ioc_done tks s s'"
      by (simp_all add: ioc_done_def)
    moreover have "distinct (map tk_order tks)" "\<forall>t\<in>set tks. dget (si_pending s) (tk_order t) = Some t"
      using Cons.prems(4,5) by simp_all
    note Cons.IH [OF Cons.prems(1-3) this]
    ultimately show ?thesis by (simp only:)
  next
    case True
    have tk: "dget (si_pending s) (tk_order tk) = Some tk" using Cons.prems(5) by simp
    then have "tk_order tk \<in> fst ` set (si_pending s)" by (metis fst_conv image_eqI map_of_SomeD)
    then obtain s1 ev where 1: "sim_cancel (tk_order tk) s = (s1, Some ev)"
      "orders_ok (fst ` set (si_pending s) - {tk_order tk}) s1" "si_queue s1 = si_queue s"
      "si_pending s1 = ddel (tk_order tk) (si_pending s)" "si_next s1 = si_next s"
      "\<And>j. j \<noteq> tk_order tk \<Longrightarrow> dget (si_orders s1) j = dget (si_orders s) j"
      using sim_cancel_ok [OF Cons.prems(1) _ _ tk refl] Cons.prems(2) by (metis map_of.simps(1))
    have nin: "tk_order tk \<notin> ioc_ids tks" using Cons.prems(4) by (auto simp: ioc_ids_def)
    have p5: "\<forall>t\<in>set tks. dget (si_pending s1) (tk_order t) = Some t"
    proof
      fix t assume t: "t \<in> set tks"
      then have "tk_order t \<in> set (map tk_order tks)" by simp
      with Cons.prems(4) have "tk_order t \<noteq> tk_order tk" by (metis distinct.simps(2) list.simps(9))
      with Cons.prems(5) t show "dget (si_pending s1) (tk_order t) = Some t" by (simp add: 1(4) dget_ddel)
    qed
    have p3: "wf_book True (si_pending s1)" using Cons.prems(3) 1(4) by auto
    have p1: "orders_ok (fst ` set (si_pending s1)) s1" using 1(2,4) by simp
    have p2: "si_queue s1 = []" using 1(3) Cons.prems(2) by simp
    have p4: "distinct (map tk_order tks)" using Cons.prems(4) by simp
    from Cons.IH [OF p1 p2 p3 p4 p5] obtain s2 evs where 2: "cancel_ioc tks s1 = (s2, evs)" "ioc_done tks s1 s2"
      by blast
    note d = 2(2) [unfolded ioc_done_def]
    have "cancel_ioc (tk # tks) s = (s2, ev # evs)" using True 1(1) 2(1) by simp
    moreover have "\<forall>i. dget (si_pending s2) i = (if i \<in> ioc_ids (tk # tks) then None else dget (si_pending s) i)"
      using d True by (simp add: 1(4) dget_ddel)
    moreover have "\<forall>i. i \<notin> ioc_ids (tk # tks) \<longrightarrow> dget (si_orders s2) i = dget (si_orders s) i"
      using d 1(6) True by simp
    ultimately have "cancel_ioc (tk # tks) s = (s2, ev # evs) \<and> ioc_done (tk # tks) s s2"
      using d 1(5) by (simp only: ioc_done_def simp_thms)
    then show ?thesis by blast
  qed
qed

lemma queue_batch:
  assumes "wf_book False b"
  shows "batch_ids (map (\<lambda>i. (the (dget b i), x)) (sort (dkeys b))) = sort (dkeys b)"
proof -
  have "set is \<subseteq> fst ` set b \<Longrightarrow> batch_ids (map (\<lambda>i. (the (dget b i), x)) is) = is" for "is"
  proof (induction "is")
    case (Cons i "is")
    then obtain tk where "dget b i = Some tk" using dget_keys [of i b] by auto
    with Cons assms show ?case by (simp add: wf_book_def)
  qed simp
  then show ?thesis by simp
qed

lemma trigger_reference_cong: "side = side' \<Longrightarrow> trigger_reference side tk q = trigger_reference side' tk q"
  by simp

lemma book_tickets:
  assumes "wf_book z b"
  shows "distinct (map tk_order (dvals b))" "\<forall>tk\<in>set (dvals b). dget b (tk_order tk) = Some tk"
proof -
  have "wf_dict b" using assms by (simp add: wf_book_def)
  then have v: "\<And>i tk. (i, tk) \<in> set b \<Longrightarrow> dget b i = Some tk" by (simp add: wf_dict_def)
  then have o: "\<And>i tk. (i, tk) \<in> set b \<Longrightarrow> tk_order tk = i" using assms by (auto simp: wf_book_def)
  then have "map tk_order (dvals b) = dkeys b" by auto
  with \<open>wf_dict b\<close> show "distinct (map tk_order (dvals b))" by (simp only: wf_dict_def)
  show "\<forall>tk\<in>set (dvals b). dget b (tk_order tk) = Some tk" using v o by auto
qed

lemma ioc_ids_book:
  assumes "wf_book z b"
  shows "i \<in> ioc_ids (dvals b) \<longleftrightarrow> (\<exists>tk. dget b i = Some tk \<and> tk_tif tk = IOC)"
proof
  assume "i \<in> ioc_ids (dvals b)"
  then obtain tk where "tk \<in> set (dvals b)" "tk_tif tk = IOC" "i = tk_order tk" unfolding ioc_ids_def by blast
  with book_tickets(2) [OF assms] show "\<exists>tk. dget b i = Some tk \<and> tk_tif tk = IOC" by blast
next
  assume "\<exists>tk. dget b i = Some tk \<and> tk_tif tk = IOC"
  then obtain tk where tk: "dget b i = Some tk" "tk_tif tk = IOC" by blast
  then have "tk_order tk = i" using assms by (simp add: wf_book_def)
  moreover have "tk \<in> set (dvals b)" using map_of_SomeD [OF tk(1)] by force
  ultimately show "i \<in> ioc_ids (dvals b)" using tk(2) unfolding ioc_ids_def by blast
qed

text \<open>
  What a quote leaves on the book: the orders of before, without those it triggers and those
  that were good for one quote only.
\<close>

definition leaves_book :: "quote \<Rightarrow> simulator \<Rightarrow> int \<Rightarrow> bool" where
  "leaves_book q s i \<longleftrightarrow> (case dget (si_pending s) i of None \<Rightarrow> False | Some tk \<Rightarrow>
     trigger_reference (or_side (order_of s i)) tk q \<noteq> None \<or> tk_tif tk = IOC)"

definition after_quote :: "quote \<Rightarrow> simulator \<Rightarrow> simulator \<Rightarrow> bool" where
  "after_quote q s s' \<longleftrightarrow> paper_inv s' \<and> si_queue s' = [] \<and>
     (\<forall>i. dget (si_pending s') i = (if leaves_book q s i then None else dget (si_pending s) i)) \<and>
     (\<forall>i. i \<notin> open_ids s \<longrightarrow> dget (si_orders s') i = dget (si_orders s) i)"

lemma on_market_data_ok:
  assumes "paper_inv s"
  shows "\<exists>s' evs. on_market_data q s = (s', Inr evs) \<and> after_quote q s s'"
proof -
  define s0 where "s0 = s\<lparr>si_sequence := si_sequence s + 1, si_last := Some q\<rparr>"
  define xs where "xs = map (\<lambda>i. (the (dget (si_queue s) i), qu_price q)) (sort (dkeys (si_queue s)))"
  have inv: "orders_ok (open_ids s) s" "wf_book False (si_queue s)" "wf_book True (si_pending s)"
    "fst ` set (si_queue s) \<inter> fst ` set (si_pending s) = {}"
    using assms by (simp_all add: paper_inv_def)
  have xs: "batch_ids xs = sort (dkeys (si_queue s))" unfolding xs_def by (rule queue_batch [OF inv(2)])
  have "orders_ok (open_ids s) s0"
    by (rule orders_ok_frame [rotated -1, OF inv(1)]) (use inv(1) in \<open>simp_all add: s0_def orders_ok_def\<close>)
  moreover have "distinct (batch_ids xs)" unfolding xs using inv(2) by (simp add: wf_book_def wf_dict_def)
  moreover have "set (batch_ids xs) \<subseteq> open_ids s" unfolding xs by simp
  ultimately obtain s1 ev1 where 1: "fill_loop False (qu_time q) xs s0 = (s1, Inr ev1)" "filled_batch (open_ids s) xs s0 s1 ev1"
    using fill_loop_ok by blast
  note d1 = 1(2) [unfolded filled_batch_def xs]
  have p1: "si_pending s1 = si_pending s" "si_queue s1 = si_queue s" using d1 by (simp_all add: s0_def)
  have ok1: "orders_ok (fst ` set (si_pending s)) s1"
  proof -
    have "open_ids s - set (sort (dkeys (si_queue s))) = fst ` set (si_pending s)" using inv(4) by auto
    moreover have "orders_ok (open_ids s - set (sort (dkeys (si_queue s)))) s1" using d1 by blast
    ultimately show ?thesis by (simp only:)
  qed
  have side: "or_side (order_of s1 i) = or_side (order_of s i)" if "i \<in> fst ` set (si_pending s)" for i
  proof -
    have "i \<notin> set (sort (dkeys (si_queue s)))" using that inv(4) by auto
    then have "dget (si_orders s1) i = dget (si_orders s) i" using d1 by (simp add: s0_def)
    then show ?thesis by (simp add: order_of_def)
  qed
  obtain b ys where m: "book_match (\<lambda>i. or_side (order_of s1 i)) q (si_pending s1) = (b, ys)"
    by (cases "book_match (\<lambda>i. or_side (order_of s1 i)) q (si_pending s1)")
  let ?tr = "triggers (\<lambda>i. or_side (order_of s1 i)) q (si_pending s)"
  note bm = book_match_spec [OF inv(3) m [unfolded p1]]
  have tr: "?tr i \<longleftrightarrow> (case dget (si_pending s) i of None \<Rightarrow> False | Some tk \<Rightarrow>
      trigger_reference (or_side (order_of s i)) tk q \<noteq> None)" for i
  proof (cases "dget (si_pending s) i")
    case (Some tk)
    then have "i \<in> fst ` set (si_pending s)" by (metis fst_conv image_eqI map_of_SomeD)
    from side [OF this] Some show ?thesis by (simp add: triggers_def)
  qed (simp add: triggers_def)
  have sub: "{i. ?tr i} \<subseteq> fst ` set (si_pending s)"
    by (auto simp: tr split: option.splits) (metis fst_conv image_eqI map_of_SomeD)
  define s2 where "s2 = s1\<lparr>si_queue := [], si_pending := b\<rparr>"
  have "orders_ok (fst ` set (si_pending s)) s2"
    by (rule orders_ok_frame [rotated -1, OF ok1]) (use ok1 in \<open>simp_all add: s2_def orders_ok_def\<close>)
  moreover have "distinct (batch_ids ys)" by (rule bm(3))
  moreover have "set (batch_ids ys) \<subseteq> fst ` set (si_pending s)" unfolding bm(5) by (rule sub)
  ultimately obtain s3 ev2 where 3: "fill_loop True (qu_time q) ys s2 = (s3, Inr ev2)"
    "filled_batch (fst ` set (si_pending s)) ys s2 s3 ev2"
    using fill_loop_ok by blast
  note d3 = 3(2) [unfolded filled_batch_def bm(5)]
  have p3: "si_pending s3 = b" "si_queue s3 = []" using d3 by (simp_all add: s2_def)
  have "fst ` set (si_pending s) - {i. ?tr i} = fst ` set b" unfolding bm(2) by auto
  moreover have "orders_ok (fst ` set (si_pending s) - {i. ?tr i}) s3" using d3 by blast
  ultimately have ok3: "orders_ok (fst ` set (si_pending s3)) s3" unfolding p3 by (simp only:)
  have wb: "wf_book True (si_pending s3)" unfolding p3 by (rule bm(1))
  from cancel_ioc_ok [OF ok3 p3(2) wb, of "dvals b"] book_tickets [OF bm(1)] obtain s4 ev3 where
    4: "cancel_ioc (dvals b) s3 = (s4, ev3)" "ioc_done (dvals b) s3 s4" unfolding p3 by blast
  note d4 = 4(2) [unfolded ioc_done_def p3]
  define s5 where "s5 = s4\<lparr>si_portfolio := mark (qu_time q) (qu_price q) (si_portfolio s4)\<rparr>"
  have run: "on_market_data q s = (s5, Inr (ev1 @ ev2 @ ev3))"
    using 1(1) 3(1) 4(1) m p3(1)
    by (simp add: on_market_data_def s0_def [symmetric] s2_def [symmetric] s5_def Let_def)
      (simp add: xs_def s0_def s5_def s2_def)
  have "orders_ok (fst ` set (si_pending s4)) s5"
    by (rule orders_ok_frame [rotated -1, OF conjunct1 [OF d4]])
      (use d4 in \<open>simp_all add: s5_def orders_ok_def mark_inv\<close>)
  moreover have "si_pending s5 = si_pending s4" "si_queue s5 = []" "si_orders s5 = si_orders s4" "wf_book True (si_pending s4)"
    using d4 by (simp_all add: s5_def)
  moreover from this have "paper_inv s5" using calculation(1) by (simp add: paper_inv_def)
  moreover have "dget (si_pending s4) i = (if leaves_book q s i then None else dget (si_pending s) i)" for i
  proof -
    show ?thesis using d4 bm(6) [of i] tr [of i] ioc_ids_book [OF bm(1), of i]
      by (cases "dget (si_pending s) i") (auto simp: leaves_book_def)
  qed
  moreover have "dget (si_orders s4) i = dget (si_orders s) i" if "i \<notin> open_ids s" for i
  proof -
    have n: "i \<notin> fst ` set (si_queue s)" "i \<notin> fst ` set (si_pending s)" using that by auto
    then have "\<not> ?tr i" using sub by auto
    moreover have "i \<notin> ioc_ids (dvals b)"
      using ioc_ids_book [OF bm(1), of i] bm(6) [of i] n(2) by (metis dget_None_iff list.set_map option.distinct(1))
    ultimately show ?thesis using d4 d3 d1 n(1) by (simp add: s2_def s0_def)
  qed
  ultimately have "after_quote q s s5" unfolding after_quote_def by simp
  with run show ?thesis by blast
qed

text \<open>Cancelling takes the ticket from wherever it is; an unknown id changes nothing.\<close>

lemma ddel_absent: "dget d k = None \<Longrightarrow> ddel k d = d"
  unfolding dget_None_iff by (induction d) auto

lemma sim_cancel_unknown:
  assumes "i \<notin> open_ids s"
  shows "sim_cancel i s = (s, None)"
proof -
  have "dget (si_queue s) i = None" "dget (si_pending s) i = None"
    using assms by (simp_all add: dget_None_iff)
  then show ?thesis by (simp add: sim_cancel_def book_remove_def Let_def ddel_absent)
qed

lemma sim_cancel_open:
  assumes "paper_inv s" "i \<in> open_ids s"
  obtains s' where "sim_cancel i s = (s', Some \<lparr>oe_kind = Cancelled, oe_order = i, oe_reference = None\<rparr>)"
    "paper_inv s'" "i \<notin> open_ids s'" "dget (si_orders s') i = Some (cancel_order (order_of s i))"
    "\<And>j. j \<noteq> i \<Longrightarrow> dget (si_orders s') j = dget (si_orders s) j"
proof -
  have ok: "orders_ok (open_ids s) s" and wb: "wf_book False (si_queue s)" "wf_book True (si_pending s)"
    and disj: "fst ` set (si_queue s) \<inter> fst ` set (si_pending s) = {}"
    using assms(1) by (simp_all add: paper_inv_def)
  define p where "p = (if or_side (order_of s i) = BUY then release (or_reserved (order_of s i)) (si_portfolio s) else si_portfolio s)"
  define s' where "s' = set_order (cancel_order (order_of s i))
    (s\<lparr>si_queue := ddel i (si_queue s), si_pending := ddel i (si_pending s), si_portfolio := p\<rparr>)"
  have tk: "tk_order tk = i" if "dget (si_queue s) i = Some tk \<or> dget (si_pending s) i = Some tk" for tk
    using that wb by (auto simp: wf_book_def)
  have run: "sim_cancel i s = (s', Some \<lparr>oe_kind = Cancelled, oe_order = i, oe_reference = None\<rparr>)"
  proof (cases "dget (si_queue s) i")
    case None
    then obtain tk' where tk': "dget (si_pending s) i = Some tk'"
      using assms(2) dget_keys [of i "si_pending s"] by (auto simp: dget_None_iff)
    have "ddel i (si_queue s) = si_queue s" by (rule ddel_absent [OF None])
    with None tk' tk show ?thesis
      by (simp add: sim_cancel_def book_remove_def Let_def p_def order_of_def s'_def)
  next
    case (Some tk')
    then have "i \<in> fst ` set (si_queue s)" by (metis fst_conv image_eqI map_of_SomeD)
    then have "dget (si_pending s) i = None" using disj by (auto simp: dget_None_iff)
    then have "ddel i (si_pending s) = si_pending s" by (rule ddel_absent)
    with Some tk show ?thesis
      by (simp add: sim_cancel_def book_remove_def Let_def p_def order_of_def s'_def)
  qed
  have p: "portfolio_inv p" using ok by (simp add: p_def orders_ok_def release_inv)
  have id: "or_id (cancel_order (order_of s i)) = i"
    using orders_ok_order_of(3) [OF ok assms(2)] by (simp add: cancel_order_def)
  have "orders_ok (open_ids s - {i}) (set_order (cancel_order (order_of s i)) (s\<lparr>si_executor := si_executor s, si_portfolio := p\<rparr>))"
    by (rule orders_ok_end [OF ok assms(2) id _ p]) (simp add: cancel_order_def terminal_order_def)
  then have "orders_ok (open_ids s - {i}) s'"
    by (rule orders_ok_frame [rotated -1]) (simp_all add: s'_def set_order_def p)
  moreover have q': "si_queue s' = ddel i (si_queue s)" "si_pending s' = ddel i (si_pending s)"
    by (simp_all add: s'_def set_order_def)
  moreover from this have open': "open_ids s' = open_ids s - {i}" by auto
  moreover have "fst ` set (si_queue s') \<inter> fst ` set (si_pending s') = {}"
    using disj q' by auto
  ultimately have "paper_inv s'" using wb wf_book_ddel by (simp only: paper_inv_def list.set_map)
  moreover have "i \<notin> open_ids s'" unfolding open' by simp
  moreover have "dget (si_orders s') j = (if j = i then Some (cancel_order (order_of s i)) else dget (si_orders s) j)" for j
    using id by (simp add: s'_def set_order_def dget_dset)
  ultimately show thesis using that [OF run] by simp
qed

lemma sim_step_inv: "paper_inv s \<Longrightarrow> paper_inv (fst (sim_step s c))"
proof (cases c)
  case (Submit r now)
  then show "paper_inv s \<Longrightarrow> ?thesis" using sim_submit_inv [of s r now] by (cases "sim_submit r now s") simp
next
  case (Cancel i)
  assume s: "paper_inv s"
  show ?thesis
  proof (cases "i \<in> open_ids s")
    case True
    then obtain s' where "sim_cancel i s = (s', Some \<lparr>oe_kind = Cancelled, oe_order = i, oe_reference = None\<rparr>)" "paper_inv s'"
      using sim_cancel_open [OF s] by metis
    with Cancel show ?thesis by simp
  next
    case False
    from sim_cancel_unknown [OF this] Cancel s show ?thesis by simp
  qed
next
  case (Quote q)
  assume "paper_inv s"
  with Quote on_market_data_ok [of s q] show ?thesis by (auto simp: after_quote_def)
qed

lemma sim_submit_orders:
  "j \<noteq> si_next s + 1 \<Longrightarrow> dget (si_orders (fst (sim_submit r now s))) j = dget (si_orders s) j"
  by (auto simp: sim_submit_def Let_def dget_dset split: sum.splits if_splits)

lemma sim_step_ended:
  assumes "paper_inv s" "dget (si_orders s) i = Some o1" "terminal_order o1"
  shows "dget (si_orders (fst (sim_step s c))) i = Some o1"
proof -
  have closed: "i \<notin> open_ids s"
  proof
    assume "i \<in> open_ids s"
    from orders_ok_order_of(1,2) [OF _ this] assms show False
      by (auto simp: paper_inv_def live_order_def terminal_order_def)
  qed
  have "i \<noteq> si_next s + 1" using assms(1,2) fresh_id [of "open_ids s" s]
    by (auto simp: paper_inv_def) (metis fst_conv image_eqI map_of_SomeD)
  show ?thesis
  proof (cases c)
    case (Submit r now)
    with sim_submit_orders [OF \<open>i \<noteq> si_next s + 1\<close>, of r now] assms(2) show ?thesis by (cases "sim_submit r now s") simp
  next
    case (Cancel j)
    show ?thesis
    proof (cases "j \<in> open_ids s")
      case True
      then obtain s' where "sim_cancel j s = (s', Some \<lparr>oe_kind = Cancelled, oe_order = j, oe_reference = None\<rparr>)"
        "\<And>k. k \<noteq> j \<Longrightarrow> dget (si_orders s') k = dget (si_orders s) k"
        using sim_cancel_open [OF assms(1)] by metis
      moreover have "i \<noteq> j" using True closed by blast
      ultimately show ?thesis using Cancel assms(2) by simp
    next
      case False
      from sim_cancel_unknown [OF this] Cancel assms(2) show ?thesis by simp
    qed
  next
    case (Quote q)
    with on_market_data_ok [OF assms(1), of q] closed assms(2) show ?thesis by (auto simp: after_quote_def)
  qed
qed

lemma new_simulator_inv: "portfolio_inv p \<Longrightarrow> paper_inv (new_simulator p x)"
  by (simp add: new_simulator_def paper_inv_def orders_ok_def)

lemma sim_run_inv:
  "new_portfolio capital a leverage = Inr p \<Longrightarrow> paper_inv (feed sim_step (new_simulator p x) cs)"
  by (rule feed_invariant) (auto intro: new_simulator_inv new_portfolio_inv sim_step_inv)

section \<open>The session and its manager\<close>

text \<open>
  A session publishes one event per simulator event; the payload is taken from the order when the
  event is published, after the simulator has finished its step. The log is what the bus received.
\<close>

record published =
  pb_kind :: event_kind
  pb_symbol :: pystr
  pb_order :: order
  pb_reference :: "rat option"

datatype session_state = SessionCreated | SessionRunning | SessionStopped

record session =
  ss_symbol :: pystr
  ss_sim :: simulator
  ss_state :: session_state
  ss_log :: "published list"

definition new_session :: "pystr \<Rightarrow> portfolio \<Rightarrow> executor \<Rightarrow> session" where
  "new_session name p x = \<lparr>ss_symbol = name, ss_sim = new_simulator p x, ss_state = SessionCreated, ss_log = []\<rparr>"

definition session_start :: "session \<Rightarrow> session" where
  "session_start z = z\<lparr>ss_state := SessionRunning\<rparr>"

definition session_stop :: "session \<Rightarrow> session" where
  "session_stop z = z\<lparr>ss_state := SessionStopped\<rparr>"

definition session_publish :: "order_event list \<Rightarrow> session \<Rightarrow> session" where
  "session_publish evs z = z\<lparr>ss_log := ss_log z @ map (\<lambda>e. \<lparr>pb_kind = oe_kind e, pb_symbol = ss_symbol z,
     pb_order = order_of (ss_sim z) (oe_order e), pb_reference = oe_reference e\<rparr>) evs\<rparr>"

definition session_submit :: "order_request \<Rightarrow> time \<Rightarrow> session \<Rightarrow> session \<times> order result" where
  "session_submit r now z = (case sim_submit r now (ss_sim z) of
       (s', Inl e) \<Rightarrow> (z\<lparr>ss_sim := s'\<rparr>, Inl e)
     | (s', Inr ev) \<Rightarrow> (session_publish [ev] (z\<lparr>ss_sim := s'\<rparr>), Inr (order_of s' (oe_order ev))))"

definition submit_market :: "order_side \<Rightarrow> rat \<Rightarrow> order_intent \<Rightarrow> time_in_force \<Rightarrow> time \<Rightarrow> session \<Rightarrow> session \<times> order result" where
  "submit_market side q intent tif now = session_submit \<lparr>rq_side = side, rq_intent = intent, rq_quantity = q,
     rq_type = MARKET, rq_limit = None, rq_stop = None, rq_tif = tif, rq_time = None\<rparr> now"

definition submit_limit :: "order_side \<Rightarrow> rat \<Rightarrow> rat \<Rightarrow> order_intent \<Rightarrow> time_in_force \<Rightarrow> time \<Rightarrow> session \<Rightarrow> session \<times> order result" where
  "submit_limit side q price intent tif now = session_submit \<lparr>rq_side = side, rq_intent = intent, rq_quantity = q,
     rq_type = LIMIT, rq_limit = Some price, rq_stop = None, rq_tif = tif, rq_time = None\<rparr> now"

definition submit_stop :: "order_side \<Rightarrow> rat \<Rightarrow> rat \<Rightarrow> order_intent \<Rightarrow> time_in_force \<Rightarrow> time \<Rightarrow> session \<Rightarrow> session \<times> order result" where
  "submit_stop side q price intent tif now = session_submit \<lparr>rq_side = side, rq_intent = intent, rq_quantity = q,
     rq_type = STOP, rq_limit = None, rq_stop = Some price, rq_tif = tif, rq_time = None\<rparr> now"

definition session_cancel :: "int \<Rightarrow> session \<Rightarrow> session \<times> bool" where
  "session_cancel i z = (case sim_cancel i (ss_sim z) of
       (s', None) \<Rightarrow> (z\<lparr>ss_sim := s'\<rparr>, False)
     | (s', Some ev) \<Rightarrow> (session_publish [ev] (z\<lparr>ss_sim := s'\<rparr>), True))"

definition feed_quote :: "quote \<Rightarrow> session \<Rightarrow> session \<times> order_event list result" where
  "feed_quote q z = (case on_market_data q (ss_sim z) of
       (s', Inl e) \<Rightarrow> (z\<lparr>ss_sim := s'\<rparr>, Inl e)
     | (s', Inr evs) \<Rightarrow> (session_publish evs (z\<lparr>ss_sim := s'\<rparr>), Inr evs))"

type_synonym session_manager = "(pystr, session) dict"

definition create_session :: "pystr \<Rightarrow> pystr \<Rightarrow> portfolio \<Rightarrow> executor \<Rightarrow> session_manager \<Rightarrow> session_manager \<times> session result" where
  "create_session name symb p x m = (if dget m name \<noteq> None then (m, Inl ValueError)
     else let z = new_session symb p x in (dset name z m, Inr z))"

definition get_session :: "pystr \<Rightarrow> session_manager \<Rightarrow> session option" where
  "get_session name m = dget m name"

definition close_session :: "pystr \<Rightarrow> session_manager \<Rightarrow> session_manager \<times> session option" where
  "close_session name m = (ddel name m, map_option session_stop (dget m name))"

definition session_names :: "session_manager \<Rightarrow> pystr list" where
  "session_names m = dkeys m"

section \<open>Properties\<close>

text \<open>C10: After any sequence of orders, cancellations and quotes the paper venue is consistent: order
  ids are unique and increasing, every order it ever accepted is either waiting in the market queue, or
  resting on the book, or has ended, never two of these; the waiting ones are unfilled with a positive
  size, market tickets never rest, and the portfolio is sound.\<close>

theorem venue_stays_consistent:
  assumes "new_portfolio capital a leverage = Inr p"
  shows "paper_inv (feed sim_step (new_simulator p x) cs)"
  by (rule sim_run_inv [OF assms])

definition demo_executor :: executor where
  "demo_executor = \<lparr>ex_slippage = ZeroSlippage, ex_brokerage = FixedBrokerage 1, ex_latency = ZeroLatency\<rparr>"

definition demo_request :: "order_side \<Rightarrow> order_type \<Rightarrow> rat option \<Rightarrow> order_request" where
  "demo_request side ty x = \<lparr>rq_side = side, rq_intent = ENTRY, rq_quantity = 2, rq_type = ty,
     rq_limit = (if ty = LIMIT then x else None), rq_stop = (if ty = STOP then x else None), rq_tif = GTC, rq_time = None\<rparr>"

definition demo_quote :: "time \<Rightarrow> rat \<Rightarrow> quote" where
  "demo_quote t x = \<lparr>qu_symbol = ''X'', qu_time = t, qu_price = x, qu_high = x + 1, qu_low = x - 1\<rparr>"

definition demo_run :: "sim_call list" where
  "demo_run = [Submit (demo_request BUY LIMIT (Some 99)) 0, Submit (demo_request SELL STOP (Some 90)) 0,
     Quote (demo_quote 1 100), Submit (demo_request BUY MARKET None) 2, Cancel 2, Quote (demo_quote 3 101)]"

theorem venue_stays_consistent_witness:
  "paper_inv (feed sim_step (new_simulator demo_portfolio demo_executor) demo_run)"
  by (rule venue_stays_consistent [OF demo_portfolio])

text \<open>C9: A quote settles the book completely and never fails: from every reachable state it raises
  nothing, leaves no market order waiting, and leaves on the book exactly the orders that were there, do
  not trigger on the quote (limit and stop rules on its high and low) and are not immediate-or-cancel;
  orders that were not open are untouched.\<close>

theorem quote_settles_book:
  assumes "new_portfolio capital a leverage = Inr p" "s = feed sim_step (new_simulator p x) cs"
  shows "\<exists>s' evs. on_market_data q s = (s', Inr evs) \<and> si_queue s' = [] \<and>
    (\<forall>i. dget (si_pending s') i = (case dget (si_pending s) i of None \<Rightarrow> None | Some tk \<Rightarrow>
       if trigger_reference (or_side (order_of s i)) tk q = None \<and> tk_tif tk = GTC then Some tk else None)) \<and>
    (\<forall>i. i \<notin> open_ids s \<longrightarrow> dget (si_orders s') i = dget (si_orders s) i)"
proof -
  have "paper_inv s" unfolding assms(2) by (rule sim_run_inv [OF assms(1)])
  then obtain s' evs where r: "on_market_data q s = (s', Inr evs)" "after_quote q s s'"
    using on_market_data_ok by blast
  have "dget (si_pending s') i = (case dget (si_pending s) i of None \<Rightarrow> None | Some tk \<Rightarrow>
      if trigger_reference (or_side (order_of s i)) tk q = None \<and> tk_tif tk = GTC then Some tk else None)" for i
  proof (cases "dget (si_pending s) i")
    case (Some tk)
    with r(2) show ?thesis by (cases "tk_tif tk") (auto simp: after_quote_def leaves_book_def)
  qed (use r(2) in \<open>auto simp: after_quote_def leaves_book_def\<close>)
  with r show ?thesis unfolding after_quote_def by blast
qed

theorem quote_settles_book_witness:
  "\<exists>s' evs. on_market_data (demo_quote 7 100) (feed sim_step (new_simulator demo_portfolio demo_executor) demo_run) = (s', Inr evs) \<and>
     si_queue s' = []"
  using quote_settles_book [OF demo_portfolio refl] by blast

text \<open>C11: What has ended stays ended: once an order is filled, rejected or cancelled, no later call of the
  venue changes it, so no order is filled twice, and none is filled after its cancellation.\<close>

theorem ended_orders_stay:
  assumes "new_portfolio capital a leverage = Inr p"
    and "dget (si_orders (feed sim_step (new_simulator p x) cs)) i = Some o1" "terminal_order o1"
  shows "dget (si_orders (feed sim_step (new_simulator p x) (cs @ ds))) i = Some o1"
proof -
  have "paper_inv (feed sim_step (new_simulator p x) (cs @ ds)) \<and>
    dget (si_orders (feed sim_step (new_simulator p x) (cs @ ds))) i = Some o1"
    unfolding feed_simps(3)
    by (rule feed_invariant [where P = "\<lambda>s. paper_inv s \<and> dget (si_orders s) i = Some o1"])
      (use assms sim_run_inv [OF assms(1)] sim_step_inv sim_step_ended in blast)+
  then show ?thesis by simp
qed

definition demo_reject :: order where
  "demo_reject = reject_order ''quantity must be positive'' (new_order 1 BUY ENTRY 0 0 4)"

theorem ended_orders_stay_witness:
  "dget (si_orders (feed sim_step (new_simulator demo_portfolio demo_executor)
     ([Submit ((demo_request BUY MARKET None)\<lparr>rq_quantity := 0\<rparr>) 4] @ demo_run))) 1 = Some demo_reject"
  by (rule ended_orders_stay [OF demo_portfolio])
    (simp_all add: demo_reject_def sim_submit_def new_simulator_def demo_request_def reference_estimate_def
      terminal_order_def reject_order_def new_order_def Let_def)

text \<open>A triggered order fills at its own price, adjusted only against the trader: when a resting order
  triggers on a quote whose range contains its level, a filled buy pays at least the level and a filled sell
  receives at most it, and the recorded reference price is the level itself, also when the market has
  gapped through it.\<close>

theorem triggered_fill_at_level:
  assumes "wf_slippage (ex_slippage x)" "trigger_reference (or_side o1) tk q = Some r" "or_fill o1 = None"
    and "isfl r" "or_fill (snd (paper_execute x o1 (Some r) t)) = Some f"
  shows "(tk_limit tk = Some r \<or> tk_stop tk = Some r) \<and> fl_reference f = r \<and>
    (if or_side o1 = BUY then r \<le> fl_price f else fl_price f \<le> r)"
proof -
  note f = paper_execute_fill [OF assms(5,3)]
  have "tk_limit tk = Some r \<or> tk_stop tk = Some r"
    using assms(2) by (auto simp: trigger_reference_def split: order_type.splits option.splits if_splits)
  moreover have "0 \<le> r" "fl_reference f = r" using f assms(4) by auto
  moreover have "if or_side o1 = BUY then r \<le> fl_price f else fl_price f \<le> r"
    using f assms(4) costs.buy_not_better [OF assms(1,4)] costs.sell_not_better [OF assms(1,4)]
    by (cases "or_side o1") auto
  ultimately show ?thesis by blast
qed

definition demo_limit :: ticket where
  "demo_limit = \<lparr>tk_order = 1, tk_type = LIMIT, tk_tif = GTC, tk_limit = Some 99, tk_stop = None\<rparr>"

definition demo_limit_fill :: fill where
  "demo_limit_fill = \<lparr>fl_price = 99, fl_quantity = 2, fl_cost = 1, fl_reference = 99, fl_side = BUY, fl_time = 5, fl_id = None\<rparr>"

theorem triggered_fill_at_level_witness:
  "(tk_limit demo_limit = Some 99 \<or> tk_stop demo_limit = Some 99) \<and> fl_reference demo_limit_fill = 99 \<and>
    (if or_side (demo_ticket 1 BUY) = BUY then 99 \<le> fl_price demo_limit_fill else fl_price demo_limit_fill \<le> 99)"
proof (rule triggered_fill_at_level)
  show "trigger_reference (or_side (demo_ticket 1 BUY)) demo_limit (demo_quote 5 99) = Some 99"
    by (simp add: trigger_reference_def demo_limit_def demo_ticket_def new_order_def demo_quote_def)
  show "or_fill (snd (paper_execute demo_executor (demo_ticket 1 BUY) (Some 99) 5)) = Some demo_limit_fill"
    by (simp add: paper_execute_def demo_executor_def demo_ticket_def demo_limit_fill_def demo_simps)
qed (simp_all add: demo_executor_def demo_ticket_def new_order_def)

text \<open>Stopping a session does not stop trading: its state is never consulted, so submitting, cancelling
  and feeding quotes do exactly the same in a stopped session as in a running one.\<close>

theorem stopped_session_trades:
  "feed_quote q (session_stop z) = (session_stop (fst (feed_quote q z)), snd (feed_quote q z)) \<and>
   session_submit r now (session_stop z) = (session_stop (fst (session_submit r now z)), snd (session_submit r now z)) \<and>
   session_cancel i (session_stop z) = (session_stop (fst (session_cancel i z)), snd (session_cancel i z))"
  by (simp add: feed_quote_def session_submit_def session_cancel_def session_stop_def session_publish_def
      split: prod.split sum.split option.split)

end
