(* ===== verification/StrategyRuntime.thy ===== *)
theory StrategyRuntime imports Strategies Paper begin

text \<open>
  What runs a strategy: the context it is given (\<open>trading/strategy/interfaces.py\<close>), the risk rules
  (\<open>risk.py\<close>), position sizing (\<open>sizing.py\<close>), the strategy engine (\<open>engine.py\<close>) and the bridge to a
  paper session (\<open>paper_bridge.py\<close>). A validation error of a model is \<open>ValidationFailed\<close>; the wall-clock
  stamps of results are not kept.
\<close>

section \<open>Contexts\<close>

text \<open>Of the metadata only \<open>daily_pnl\<close> is read.\<close>

record strategy_context =
  cx_symbol :: pystr
  cx_price :: "rat option"
  cx_cash :: "rat option"
  cx_equity :: "rat option"
  cx_quantity :: rat
  cx_open :: int
  cx_daily_pnl :: "rat option"

definition negative :: "rat option \<Rightarrow> bool" where
  "negative x \<longleftrightarrow> (case x of None \<Rightarrow> False | Some y \<Rightarrow> y < 0)"

definition first_some :: "rat option list \<Rightarrow> rat option" where
  "first_some xs = (case List.map_filter id xs of [] \<Rightarrow> None | x # _ \<Rightarrow> Some x)"

text \<open>The arguments \<open>brick\<close>, \<open>bar\<close> and \<open>tick\<close> are the prices of the brick, bar and tick given.\<close>

definition new_context :: "pystr \<Rightarrow> rat option \<Rightarrow> rat option \<Rightarrow> rat option \<Rightarrow> rat option \<Rightarrow> rat option \<Rightarrow> rat option
    \<Rightarrow> rat \<Rightarrow> int \<Rightarrow> rat option \<Rightarrow> strategy_context result" where
  "new_context name price brick bar tick cash eq q n pnl =
     (if str_strip name = [] then Inl ValidationFailed
      else if negative price \<or> negative cash \<or> negative eq then Inl ValidationFailed
      else if q < 0 then Inl ValidationFailed
      else if n < 0 then Inl ValidationFailed
      else Inr \<lparr>cx_symbol = str_upper (str_strip name),
             cx_price = (case price of Some x \<Rightarrow> Some x | None \<Rightarrow> map_option b64 (first_some [brick, bar, tick])),
             cx_cash = cash, cx_equity = eq, cx_quantity = q, cx_open = n, cx_daily_pnl = pnl\<rparr>)"

definition has_open_position :: "strategy_context \<Rightarrow> bool" where
  "has_open_position c \<longleftrightarrow> 0 < cx_quantity c \<or> 0 < cx_open c"

section \<open>Risk rules\<close>

datatype risk_rule = StopLoss rat | TakeProfit rat | TrailingStop "rat option" "rat option" "rat option"
  | MaxDailyLoss rat | MaxOpenPositions int

definition new_stop_loss :: "rat \<Rightarrow> risk_rule result" where
  "new_stop_loss x = (if x \<le> 0 then Inl ValueError else Inr (StopLoss x))"

definition new_take_profit :: "rat \<Rightarrow> risk_rule result" where
  "new_take_profit x = (if x \<le> 0 then Inl ValueError else Inr (TakeProfit x))"

definition new_trailing_stop :: "rat option \<Rightarrow> rat option \<Rightarrow> rat option \<Rightarrow> risk_rule result" where
  "new_trailing_stop amount percent high =
     (if amount = None \<and> percent = None then Inl ValueError
      else if (case amount of None \<Rightarrow> False | Some a \<Rightarrow> a \<le> 0) then Inl ValueError
      else if (case percent of None \<Rightarrow> False | Some p \<Rightarrow> \<not> (0 < p \<and> p < 1)) then Inl ValueError
      else Inr (TrailingStop amount percent high))"

definition new_max_daily_loss :: "rat \<Rightarrow> risk_rule result" where
  "new_max_daily_loss x = (if x < 0 then Inl ValueError else Inr (MaxDailyLoss x))"

definition new_max_open_positions :: "int \<Rightarrow> risk_rule result" where
  "new_max_open_positions n = (if n < 0 then Inl ValueError else Inr (MaxOpenPositions n))"

definition risk_signal :: "signal_type \<Rightarrow> rat option \<Rightarrow> rat option \<Rightarrow> pystr \<Rightarrow> signal" where
  "risk_signal ty price ref rule = \<lparr>sg_type = ty, sg_brick = None, sg_price = price, sg_reference = ref,
     sg_metadata = [(''risk_rule'', PStr rule)]\<rparr>"

definition trailing_stop_price :: "rat option \<Rightarrow> rat option \<Rightarrow> rat option \<Rightarrow> rat" where
  "trailing_stop_price amount percent high =
     (let h = (case high of None \<Rightarrow> 0 | Some x \<Rightarrow> x) in
      case amount of Some a \<Rightarrow> fsub h a | None \<Rightarrow> fmul h (fsub 1 (case percent of None \<Rightarrow> 0 | Some p \<Rightarrow> b64 p)))"

fun rule_evaluate :: "risk_rule \<Rightarrow> signal \<Rightarrow> strategy_context \<Rightarrow> risk_rule \<times> signal" where
  "rule_evaluate (StopLoss x) g c = (StopLoss x,
     (case cx_price c of None \<Rightarrow> g | Some p \<Rightarrow>
        if has_open_position c \<and> p \<le> x then risk_signal SigExit (Some p) (Some x) ''stop_loss'' else g))"
| "rule_evaluate (TakeProfit x) g c = (TakeProfit x,
     (case cx_price c of None \<Rightarrow> g | Some p \<Rightarrow>
        if has_open_position c \<and> x \<le> p then risk_signal SigExit (Some p) (Some x) ''take_profit'' else g))"
| "rule_evaluate (TrailingStop a r h) g c =
     (case cx_price c of None \<Rightarrow> (TrailingStop a r h, g) | Some p \<Rightarrow>
        if \<not> has_open_position c then (TrailingStop a r None, g)
        else
          (let h' = (case h of None \<Rightarrow> p | Some x \<Rightarrow> max x p); stop = trailing_stop_price a r (Some h')
           in (TrailingStop a r (Some h'), if p \<le> stop then risk_signal SigExit (Some p) (Some stop) ''trailing_stop'' else g)))"
| "rule_evaluate (MaxDailyLoss x) g c = (MaxDailyLoss x,
     (let pnl = (case cx_daily_pnl c of None \<Rightarrow> 0 | Some y \<Rightarrow> b64 y) in
      if - \<bar>x\<bar> < pnl then g
      else if has_open_position c then risk_signal SigExit (cx_price c) None ''max_daily_loss''
      else if is_entry g then risk_signal SigHold (sg_price g) (sg_reference g) ''max_daily_loss'' else g))"
| "rule_evaluate (MaxOpenPositions n) g c = (MaxOpenPositions n,
     (if is_entry g \<and> n \<le> cx_open c then risk_signal SigHold (sg_price g) (sg_reference g) ''max_open_positions'' else g))"

fun risk_evaluate :: "risk_rule list \<Rightarrow> signal \<Rightarrow> strategy_context \<Rightarrow> risk_rule list \<times> signal" where
  "risk_evaluate [] g c = ([], g)"
| "risk_evaluate (r # rs) g c = (let (r', g1) = rule_evaluate r g c; (rs', g2) = risk_evaluate rs g1 c in (r' # rs', g2))"

section \<open>Position sizing\<close>

record sizing_context =
  sz_equity :: rat
  sz_price :: rat
  sz_stop :: "rat option"
  sz_atr :: "rat option"
  sz_win_rate :: "rat option"
  sz_payoff :: "rat option"

definition not_positive :: "rat option \<Rightarrow> bool" where
  "not_positive x \<longleftrightarrow> (case x of None \<Rightarrow> False | Some y \<Rightarrow> y \<le> 0)"

definition new_sizing_context :: "rat \<Rightarrow> rat \<Rightarrow> rat option \<Rightarrow> rat option \<Rightarrow> rat option \<Rightarrow> rat option \<Rightarrow> sizing_context result" where
  "new_sizing_context eq price stop atr win payoff =
     (if eq < 0 then Inl ValueError
      else if price \<le> 0 then Inl ValueError
      else if not_positive stop then Inl ValueError
      else if not_positive atr then Inl ValueError
      else if (case win of None \<Rightarrow> False | Some w \<Rightarrow> \<not> (0 \<le> w \<and> w \<le> 1)) then Inl ValueError
      else if not_positive payoff then Inl ValueError
      else Inr \<lparr>sz_equity = eq, sz_price = price, sz_stop = stop, sz_atr = atr, sz_win_rate = win, sz_payoff = payoff\<rparr>)"

datatype sizer = FixedQuantity rat | FixedRiskPercent rat bool | ATRSizer rat rat bool | Kelly rat rat

definition unit_interval :: "rat \<Rightarrow> bool" where
  "unit_interval x \<longleftrightarrow> 0 \<le> x \<and> x \<le> 1"

definition new_fixed_quantity :: "rat \<Rightarrow> sizer result" where
  "new_fixed_quantity q = (if q < 0 then Inl ValueError else Inr (FixedQuantity q))"

definition new_fixed_risk :: "rat \<Rightarrow> bool \<Rightarrow> sizer result" where
  "new_fixed_risk r down = (if unit_interval r then Inr (FixedRiskPercent r down) else Inl ValueError)"

definition new_atr_sizer :: "rat \<Rightarrow> rat \<Rightarrow> bool \<Rightarrow> sizer result" where
  "new_atr_sizer r m down = (if \<not> unit_interval r then Inl ValueError else if m \<le> 0 then Inl ValueError else Inr (ATRSizer r m down))"

definition new_kelly :: "rat \<Rightarrow> rat \<Rightarrow> sizer result" where
  "new_kelly m f = (if \<not> unit_interval m then Inl ValueError else if \<not> unit_interval f then Inl ValueError else Inr (Kelly m f))"

definition risk_quantity :: "rat \<Rightarrow> rat \<Rightarrow> bool \<Rightarrow> rat \<Rightarrow> rat" where
  "risk_quantity eq r down unit =
     (if unit \<le> 0 then 0 else let q = fdiv (fmul eq r) unit in if down then b64 (of_int \<lfloor>q\<rfloor>) else q)"

fun size_of :: "sizer \<Rightarrow> sizing_context \<Rightarrow> rat result" where
  "size_of (FixedQuantity q) c = Inr (b64 q)"
| "size_of (FixedRiskPercent r down) c = (case sz_stop c of None \<Rightarrow> Inl ValueError
     | Some s \<Rightarrow> Inr (risk_quantity (sz_equity c) r down \<bar>fsub (sz_price c) s\<bar>))"
| "size_of (ATRSizer r m down) c = (case sz_atr c of None \<Rightarrow> Inl ValueError
     | Some a \<Rightarrow> Inr (risk_quantity (sz_equity c) r down (fmul a m)))"
| "size_of (Kelly m f) c = (case (sz_win_rate c, sz_payoff c) of
       (Some w, Some p) \<Rightarrow>
         (let raw = fsub w (fdiv (fsub 1 w) p); k = max 0 (min (fmul raw f) m)
          in Inr (fdiv (fmul (sz_equity c) k) (sz_price c)))
     | _ \<Rightarrow> Inl ValueError)"

text \<open>\<open>PositionSizerFactory.create\<close> on numeric keyword arguments.\<close>

definition kwarg :: "pystr \<Rightarrow> rat \<Rightarrow> (pystr, rat) dict \<Rightarrow> rat" where
  "kwarg k d kw = (case dget kw k of None \<Rightarrow> d | Some x \<Rightarrow> b64 x)"

definition create_sizer :: "pystr \<Rightarrow> (pystr, rat) dict \<Rightarrow> sizer result" where
  "create_sizer m kw =
     (if m = ''fixed_quantity'' then new_fixed_quantity (kwarg ''quantity'' 0 kw)
      else if m = ''fixed_risk_percent'' then new_fixed_risk (kwarg ''risk_percent'' (b64 (1 / 100)) kw) (kwarg ''round_down'' 0 kw \<noteq> 0)
      else if m = ''atr'' then new_atr_sizer (kwarg ''risk_percent'' (b64 (1 / 100)) kw) (kwarg ''atr_multiple'' 1 kw) (kwarg ''round_down'' 0 kw \<noteq> 0)
      else if m = ''kelly'' then new_kelly (kwarg ''max_fraction'' 1 kw) (kwarg ''fraction'' 1 kw)
      else Inl ValueError)"

section \<open>The strategy engine\<close>

datatype strategy = RenkoTrend renko_trend | EmaCrossover ema_crossover | EmaTrend ema_trend | PdhBreakout pdh_breakout

fun strat_reset :: "strategy \<Rightarrow> strategy" where
  "strat_reset (RenkoTrend s) = RenkoTrend (renko_trend_reset s)"
| "strat_reset (EmaCrossover s) = EmaCrossover (ema_crossover_reset s)"
| "strat_reset (EmaTrend s) = EmaTrend (ema_trend_reset s)"
| "strat_reset (PdhBreakout s) = PdhBreakout (pdh_reset s)"

text \<open>\<open>on_brick\<close> followed by \<open>generate_signal\<close>.\<close>

fun strat_observe :: "strategy \<Rightarrow> seen_brick \<Rightarrow> strategy \<times> signal" where
  "strat_observe (RenkoTrend s) b = map_prod RenkoTrend id (renko_trend_observe s b)"
| "strat_observe (EmaCrossover s) b = map_prod EmaCrossover id (ema_crossover_observe s b)"
| "strat_observe (EmaTrend s) b = map_prod EmaTrend id (ema_trend_observe s b)"
| "strat_observe (PdhBreakout s) b = map_prod PdhBreakout id (pdh_observe s b)"

text \<open>\<open>on_market_data\<close>: the strategies that do not define it inherit a hold.\<close>

fun strat_on_bar :: "strategy \<Rightarrow> market_bar \<Rightarrow> strategy \<times> signal" where
  "strat_on_bar (EmaTrend s) m = map_prod EmaTrend id (ema_trend_observe_bar s m)"
| "strat_on_bar (PdhBreakout s) m = map_prod PdhBreakout id (pdh_observe_bar s m)"
| "strat_on_bar s m = (s, hold_signal)"

fun strat_held :: "strategy \<Rightarrow> strat_position" where
  "strat_held (RenkoTrend s) = rt_position s"
| "strat_held (EmaCrossover s) = xc_position s"
| "strat_held (EmaTrend s) = et_position s"
| "strat_held (PdhBreakout s) = pb_position s"

record strategy_result =
  rs_signal :: signal
  rs_context :: "strategy_context option"

record strategy_engine =
  se_strategy :: strategy
  se_rules :: "risk_rule list"
  se_signals :: "signal list"
  se_results :: "strategy_result list"
  se_started :: bool

definition new_strategy_engine :: "strategy \<Rightarrow> risk_rule list \<Rightarrow> strategy_engine" where
  "new_strategy_engine s rs = \<lparr>se_strategy = s, se_rules = rs, se_signals = [], se_results = [], se_started = False\<rparr>"

definition se_start :: "strategy_engine \<Rightarrow> strategy_engine" where
  "se_start e = e\<lparr>se_strategy := strat_reset (se_strategy e), se_signals := [], se_results := [], se_started := True\<rparr>"

definition se_ensure :: "strategy_engine \<Rightarrow> strategy_engine" where
  "se_ensure e = (if se_started e then e else se_start e)"

definition se_record :: "strategy_result \<Rightarrow> strategy_engine \<Rightarrow> strategy_engine" where
  "se_record r e = e\<lparr>se_results := se_results e @ [r], se_signals := se_signals e @ [rs_signal r]\<rparr>"

definition context_from_brick :: "seen_brick \<Rightarrow> rat option \<Rightarrow> strategy_context" where
  "context_from_brick b pnl = \<lparr>cx_symbol = (case sb_symbol b of None \<Rightarrow> ''UNKNOWN'' | Some s \<Rightarrow> s),
     cx_price = Some (b64 (sb_close b)), cx_cash = None, cx_equity = None, cx_quantity = 0, cx_open = 0, cx_daily_pnl = pnl\<rparr>"

text \<open>\<open>process_brick\<close>; \<open>pnl\<close> is the \<open>daily_pnl\<close> in the brick's own metadata, which becomes that of a derived context.\<close>

definition process_brick :: "seen_brick \<Rightarrow> rat option \<Rightarrow> strategy_context option \<Rightarrow> strategy_engine \<Rightarrow> strategy_engine \<times> signal" where
  "process_brick b pnl ctx e0 =
     (let e = se_ensure e0; (s, g) = strat_observe (se_strategy e) b; e1 = e\<lparr>se_strategy := s\<rparr> in
      if se_rules e1 = [] then (se_record \<lparr>rs_signal = g, rs_context = ctx\<rparr> e1, g)
      else
        (let c = (case ctx of Some c \<Rightarrow> c | None \<Rightarrow> context_from_brick b pnl);
             (rs, g') = risk_evaluate (se_rules e1) g c
         in (se_record \<lparr>rs_signal = g', rs_context = Some c\<rparr> (e1\<lparr>se_rules := rs\<rparr>), g')))"

fun process_bricks :: "(seen_brick \<times> rat option) list \<Rightarrow> strategy_engine \<Rightarrow> strategy_engine \<times> signal list" where
  "process_bricks [] e = (e, [])"
| "process_bricks ((b, pnl) # bs) e =
     (let (e1, g) = process_brick b pnl None e; (e2, gs) = process_bricks bs e1 in (e2, g # gs))"

definition process_bar :: "market_bar \<Rightarrow> strategy_context option \<Rightarrow> strategy_engine \<Rightarrow> strategy_engine \<times> strategy_result result" where
  "process_bar m ctx e0 =
     (let e = se_ensure e0 in
      case (case ctx of Some c \<Rightarrow> Inr c
            | None \<Rightarrow> new_context (mb_symbol m) None None (Some (mb_close m)) None None None 0 0 None) of
        Inl x \<Rightarrow> (e, Inl x)
      | Inr c \<Rightarrow>
          (let (s, g) = strat_on_bar (se_strategy e) m; (rs, g') = risk_evaluate (se_rules e) g c;
               r = \<lparr>rs_signal = g', rs_context = Some c\<rparr>
           in (se_record r (e\<lparr>se_strategy := s, se_rules := rs\<rparr>), Inr r)))"

text \<open>Ticks, fills and closed positions reach hooks that no built-in strategy overrides; only ticks are passed to the risk rules.\<close>

definition process_tick :: "strategy_context \<Rightarrow> strategy_engine \<Rightarrow> strategy_engine \<times> strategy_result" where
  "process_tick c e0 =
     (let e = se_ensure e0; (rs, g) = risk_evaluate (se_rules e) hold_signal c; r = \<lparr>rs_signal = g, rs_context = Some c\<rparr>
      in (se_record r (e\<lparr>se_rules := rs\<rparr>), r))"

definition se_notify :: "strategy_context option \<Rightarrow> strategy_engine \<Rightarrow> strategy_engine \<times> strategy_result" where
  "se_notify ctx e = (let r = \<lparr>rs_signal = hold_signal, rs_context = ctx\<rparr> in (se_record r (se_ensure e), r))"

definition se_reset :: "strategy_engine \<Rightarrow> strategy_engine" where
  "se_reset e = e\<lparr>se_strategy := strat_reset (se_strategy e), se_signals := [], se_results := [], se_started := False\<rparr>"

definition se_shutdown :: "strategy_engine \<Rightarrow> strategy_engine" where
  "se_shutdown e = e\<lparr>se_strategy := strat_reset (se_strategy e), se_started := False\<rparr>"

section \<open>The bridge to a paper session\<close>

record fed_candle =
  cn_symbol :: pystr
  cn_time :: time
  cn_open :: rat
  cn_high :: rat
  cn_low :: rat
  cn_close :: rat
  cn_volume :: rat

record bridge =
  bg_strategy :: strategy
  bg_session :: session
  bg_sizer :: sizer

definition new_bridge :: "strategy \<Rightarrow> session \<Rightarrow> sizer \<Rightarrow> bridge" where
  "new_bridge s z k = \<lparr>bg_strategy = strat_reset s, bg_session = z, bg_sizer = k\<rparr>"

abbreviation bg_portfolio :: "bridge \<Rightarrow> portfolio" where
  "bg_portfolio b \<equiv> si_portfolio (ss_sim (bg_session b))"

definition bridge_order :: "order_side \<Rightarrow> rat \<Rightarrow> order_intent \<Rightarrow> time \<Rightarrow> bridge \<Rightarrow> bridge \<times> order option result" where
  "bridge_order side q intent now b =
     (case submit_market side q intent GTC now (bg_session b) of (z, r) \<Rightarrow>
        (b\<lparr>bg_session := z\<rparr>, rbind r (\<lambda>o1. Inr (Some o1))))"

definition bridge_route :: "signal \<Rightarrow> strategy_context \<Rightarrow> time \<Rightarrow> bridge \<Rightarrow> bridge \<times> order option result" where
  "bridge_route g c now b =
     (if sg_type g = SigHold then (b, Inr None)
      else case (cx_price c, cx_equity c) of
        (Some price, Some eq) \<Rightarrow>
          if sg_type g = SigBuy \<and> \<not> position_is_open (pf_position (bg_portfolio b)) then
            (case rbind (new_sizing_context eq price None None None None) (size_of (bg_sizer b)) of
               Inl e \<Rightarrow> (b, Inl e)
             | Inr q \<Rightarrow> if q \<le> 0 then (b, Inr None) else bridge_order BUY q ENTRY now b)
          else if sg_type g = SigExit \<and> position_is_open (pf_position (bg_portfolio b)) then
            (let q = po_quantity (pf_position (bg_portfolio b)) in
             if q \<le> 0 then (b, Inr None) else bridge_order SELL q EXIT now b)
          else (b, Inr None)
      | _ \<Rightarrow> (b, Inr None))"

definition bridge_context :: "pystr \<Rightarrow> rat \<Rightarrow> bridge \<Rightarrow> strategy_context result" where
  "bridge_context name price b =
     (let p = bg_portfolio b in
      new_context name (Some price) None None None (Some (pf_cash p)) (Some (equity price p)) (po_quantity (pf_position p))
        (if position_is_open (pf_position p) then 1 else 0) None)"

definition bridge_on_candle :: "fed_candle \<Rightarrow> time \<Rightarrow> bridge \<Rightarrow> bridge \<times> (signal \<times> order option) result" where
  "bridge_on_candle c now b =
     (case feed_quote (quote_from_candle (cn_symbol c) (cn_time c) (cn_close c) (cn_high c) (cn_low c)) (bg_session b) of
        (z, Inl e) \<Rightarrow> (b\<lparr>bg_session := z\<rparr>, Inl e)
      | (z, Inr evs) \<Rightarrow>
          (let b1 = b\<lparr>bg_session := z\<rparr> in
           case rbind (bridge_context (cn_symbol c) (b64 (cn_close c)) b1) (\<lambda>x.
                  rbind (new_market_bar (cn_symbol c) (cn_time c) (b64 (cn_open c)) (b64 (cn_high c)) (b64 (cn_low c))
                    (b64 (cn_close c)) (b64 (cn_volume c))) (\<lambda>m. Inr (x, m))) of
             Inl e \<Rightarrow> (b1, Inl e)
           | Inr (x, m) \<Rightarrow>
               (let (s, g) = strat_on_bar (bg_strategy b1) m; (b2, r) = bridge_route g x now (b1\<lparr>bg_strategy := s\<rparr>)
                in (b2, rbind r (\<lambda>o1. Inr (g, o1))))))"

definition bridge_on_tick :: "pystr \<Rightarrow> time \<Rightarrow> rat \<Rightarrow> time \<Rightarrow> bridge \<Rightarrow> bridge \<times> (signal \<times> order option) result" where
  "bridge_on_tick name t price now b =
     (case feed_quote (quote_from_tick name t price) (bg_session b) of
        (z, Inl e) \<Rightarrow> (b\<lparr>bg_session := z\<rparr>, Inl e)
      | (z, Inr evs) \<Rightarrow>
          (let b1 = b\<lparr>bg_session := z\<rparr> in
           case bridge_context name (b64 price) b1 of
             Inl e \<Rightarrow> (b1, Inl e)
           | Inr x \<Rightarrow> (let (b2, r) = bridge_route hold_signal x now b1 in (b2, rbind r (\<lambda>o1. Inr (hold_signal, o1))))))"

section \<open>Lemmas\<close>

interpretation strategies: signal_strategy strat_observe strat_held
proof
  show "next_position (strat_held s) (sg_type (snd (strat_observe s b))) = Some (strat_held (fst (strat_observe s b)))" for s b
    by (cases s) (simp_all add: renko.legal crossover.legal trend.legal breakout.legal)
qed

interpretation strategies_on_bars: signal_strategy strat_on_bar strat_held
proof
  show "next_position (strat_held s) (sg_type (snd (strat_on_bar s m))) = Some (strat_held (fst (strat_on_bar s m)))" for s m
    by (cases s) (simp_all add: trend_bars.legal breakout_bars.legal hold_signal_def)
qed

lemma rule_exit_stays: "sg_type g = SigExit \<Longrightarrow> sg_type (snd (rule_evaluate r g c)) = SigExit"
  by (cases r) (auto simp: risk_signal_def Let_def is_entry_def split: option.splits)

lemma risk_exit_stays: "sg_type g = SigExit \<Longrightarrow> sg_type (snd (risk_evaluate rs g c)) = SigExit"
proof (induction rs arbitrary: g)
  case (Cons r rs)
  with rule_exit_stays [of g r c] show ?case by (simp add: case_prod_beta Let_def)
qed simp

lemma rule_never_opens: "is_entry (snd (rule_evaluate r g c)) \<Longrightarrow> snd (rule_evaluate r g c) = g"
  by (cases r) (auto simp: risk_signal_def Let_def is_entry_def split: option.splits if_splits)

lemma rule_exits_open:
  "sg_type (snd (rule_evaluate r g c)) = SigExit \<Longrightarrow> sg_type g = SigExit \<or> has_open_position c"
  by (cases r) (auto simp: risk_signal_def Let_def split: option.splits if_splits)

lemma risk_never_opens:
  "is_entry (snd (risk_evaluate rs g c)) \<Longrightarrow> snd (risk_evaluate rs g c) = g"
proof (induction rs arbitrary: g)
  case (Cons r rs)
  let ?g = "snd (rule_evaluate r g c)"
  from Cons.prems have "is_entry (snd (risk_evaluate rs ?g c))" by (simp add: case_prod_beta Let_def)
  from Cons.IH [OF this] this rule_never_opens [of r g c] show ?case by (simp add: case_prod_beta Let_def)
qed simp

lemma risk_exits_open:
  "sg_type (snd (risk_evaluate rs g c)) = SigExit \<Longrightarrow> sg_type g = SigExit \<or> has_open_position c"
proof (induction rs arbitrary: g)
  case (Cons r rs)
  from Cons.prems have "sg_type (snd (risk_evaluate rs (snd (rule_evaluate r g c)) c)) = SigExit"
    by (simp add: case_prod_beta Let_def)
  from Cons.IH [OF this] rule_exits_open [of r g c] show ?case by blast
qed simp

lemma ema_reset_update [simp]: "ema_reset (ema_update x e) = ema_reset e"
  by (simp add: ema_reset_def ema_update_def Let_def split: option.split)

lemma strat_reset_observe [simp]: "strat_reset (fst (strat_observe s b)) = strat_reset s"
  by (cases s)
    (auto simp: renko_trend_observe_def renko_trend_on_brick_def renko_trend_decide_def renko_trend_reset_def
      ema_crossover_observe_def ema_crossover_on_brick_def ema_crossover_generate_def ema_crossover_reset_def
      ema_trend_observe_def ema_trend_on_brick_def ema_trend_decide_def ema_trend_reset_def
      pdh_observe_def pdh_on_brick_def pdh_decide_def pdh_reset_def Let_def case_prod_beta split: option.splits)

lemma strat_reset_on_bar [simp]: "strat_reset (fst (strat_on_bar s m)) = strat_reset s"
  by (cases s)
    (auto simp: ema_trend_observe_bar_def ema_trend_on_bar_def ema_trend_decide_def ema_trend_reset_def
      pdh_observe_bar_def pdh_on_bar_def pdh_decide_def pdh_reset_def update_session_def Let_def case_prod_beta split: option.splits)

lemma strat_reset_reset [simp]: "strat_reset (strat_reset s) = strat_reset s"
  by (cases s) (simp_all add: renko_trend_reset_def ema_crossover_reset_def ema_trend_reset_def pdh_reset_def ema_reset_def)

text \<open>Every reading of an engine: bricks, bars, ticks, notifications.\<close>

datatype engine_input = InBrick seen_brick "rat option" "strategy_context option" | InBar market_bar "strategy_context option"
  | InTick strategy_context | InNotify "strategy_context option"

fun se_step :: "strategy_engine \<Rightarrow> engine_input \<Rightarrow> strategy_engine \<times> unit" where
  "se_step e (InBrick b pnl c) = (fst (process_brick b pnl c e), ())"
| "se_step e (InBar m c) = (fst (process_bar m c e), ())"
| "se_step e (InTick c) = (fst (process_tick c e), ())"
| "se_step e (InNotify c) = (fst (se_notify c e), ())"

lemma risk_evaluate_Nil_rules: "rs = [] \<Longrightarrow> risk_evaluate rs g c = ([], g)"
  by simp

lemma se_step_reset:
  "strat_reset (se_strategy (fst (se_step e x))) = strat_reset (se_strategy e) \<and>
   (se_rules e = [] \<longrightarrow> se_rules (fst (se_step e x)) = [])"
  by (cases x)
    (auto simp: process_brick_def process_bar_def process_tick_def se_notify_def se_record_def se_ensure_def se_start_def
      Let_def case_prod_beta split: sum.splits option.splits)

section \<open>Properties\<close>

text \<open>C13: Risk rules only ever reduce exposure, in any number and order: an entry that comes out of
  the risk manager is the very signal that went in, an exit comes out only if one went in or a position is
  open, and a breached stop loss on an open position always comes out as an exit, whatever rules precede or
  follow it.\<close>

theorem risk_only_reduces:
  "(is_entry (snd (risk_evaluate rs g c)) \<longrightarrow> snd (risk_evaluate rs g c) = g) \<and>
   (sg_type (snd (risk_evaluate rs g c)) = SigExit \<longrightarrow> sg_type g = SigExit \<or> has_open_position c) \<and>
   (StopLoss x \<in> set rs \<and> has_open_position c \<and> cx_price c = Some p \<and> p \<le> x \<longrightarrow>
     sg_type (snd (risk_evaluate rs g c)) = SigExit)"
proof (intro conjI impI)
  show "snd (risk_evaluate rs g c) = g" if "is_entry (snd (risk_evaluate rs g c))"
    using risk_never_opens [OF that] .
  show "sg_type g = SigExit \<or> has_open_position c" if "sg_type (snd (risk_evaluate rs g c)) = SigExit"
    using risk_exits_open [OF that] .
  show "sg_type (snd (risk_evaluate rs g c)) = SigExit"
    if "StopLoss x \<in> set rs \<and> has_open_position c \<and> cx_price c = Some p \<and> p \<le> x"
    using that
  proof (induction rs arbitrary: g)
    case (Cons r rs)
    show ?case
    proof (cases "r = StopLoss x")
      case True
      then have "sg_type (snd (rule_evaluate r g c)) = SigExit" using Cons.prems by (simp add: risk_signal_def)
      from risk_exit_stays [OF this, of rs c] show ?thesis by (simp add: case_prod_beta Let_def)
    next
      case False
      with Cons show ?thesis by (simp add: case_prod_beta Let_def)
    qed
  qed simp
qed

definition demo_context :: strategy_context where
  "demo_context = \<lparr>cx_symbol = ''X'', cx_price = Some 90, cx_cash = None, cx_equity = None, cx_quantity = 2, cx_open = 1, cx_daily_pnl = None\<rparr>"

theorem risk_only_reduces_witness:
  "sg_type (snd (risk_evaluate [TakeProfit 120, StopLoss 95, MaxOpenPositions 1] (hold_signal\<lparr>sg_type := SigBuy\<rparr>) demo_context)) = SigExit"
  using risk_only_reduces [of "[TakeProfit 120, StopLoss 95, MaxOpenPositions 1]" "hold_signal\<lparr>sg_type := SigBuy\<rparr>" demo_context 95 90]
  by (simp add: demo_context_def has_open_position_def del: risk_evaluate.simps)

text \<open>A trailing stop follows the highest price of the open position: fed with the contexts of one
  position (open throughout, with prices), it remembers exactly the maximum of the prices since it was armed,
  and signals an exit on a price exactly when that price is at or below the stop computed from the maximum
  including it.\<close>

theorem trailing_stop_tracks_high:
  assumes "\<forall>c\<in>set (cs @ [c]). has_open_position c \<and> cx_price c \<noteq> None" "ps = map (\<lambda>c. the (cx_price c)) (cs @ [c])"
  shows "rule_evaluate (foldl (\<lambda>r c. fst (rule_evaluate r g c)) (TrailingStop a q None) cs) g c =
    (TrailingStop a q (Some (Max (set ps))),
     if last ps \<le> trailing_stop_price a q (Some (Max (set ps)))
     then risk_signal SigExit (Some (last ps)) (Some (trailing_stop_price a q (Some (Max (set ps))))) ''trailing_stop'' else g)"
proof -
  define r where "r = foldl (\<lambda>r c. fst (rule_evaluate r g c)) (TrailingStop a q None) cs"
  have "foldl (\<lambda>r c. fst (rule_evaluate r g c)) (TrailingStop a q None) ds =
      TrailingStop a q (if ds = [] then None else Some (Max (set (map (\<lambda>c. the (cx_price c)) ds))))"
    if "\<forall>c\<in>set ds. has_open_position c \<and> cx_price c \<noteq> None" for ds
    using that
  proof (induction ds rule: rev_induct)
    case (snoc d ds)
    then show ?case by (cases "ds = []") (auto simp: Let_def max.commute)
  qed simp
  from this [of cs] assms(1) have r: "r = TrailingStop a q (if cs = [] then None else Some (Max (set (map (\<lambda>c. the (cx_price c)) cs))))"
    by (simp add: r_def)
  obtain p where p: "cx_price c = Some p" using assms(1) by auto
  have "Max (set ps) = (if cs = [] then p else max (Max (set (map (\<lambda>c. the (cx_price c)) cs))) p)"
    by (auto simp: assms(2) p max.commute)
  with r p assms show ?thesis by (auto simp: Let_def r_def [symmetric])
qed

theorem trailing_stop_tracks_high_witness:
  "rule_evaluate (foldl (\<lambda>r c. fst (rule_evaluate r hold_signal c)) (TrailingStop (Some 5) None None)
       [demo_context\<lparr>cx_price := Some 100\<rparr>, demo_context\<lparr>cx_price := Some 104\<rparr>]) hold_signal demo_context =
     (TrailingStop (Some 5) None (Some 104), risk_signal SigExit (Some 90) (Some 99) ''trailing_stop'')"
  using trailing_stop_tracks_high [of "[demo_context\<lparr>cx_price := Some 100\<rparr>, demo_context\<lparr>cx_price := Some 104\<rparr>]"
      demo_context "[100, 104, 90]" hold_signal "Some 5" None]
  by (simp add: demo_context_def has_open_position_def trailing_stop_price_def fsub_def del: rule_evaluate.simps)

text \<open>Sizes are sane: in a valid sizing context every policy returns a quantity that is never negative,
  the Kelly policy never asks for more than its maximal fraction of the equity, and a risk-based policy with no
  distance to the stop trades nothing.\<close>

theorem sizes_bounded:
  assumes "new_sizing_context eq price stop atr win payoff = Inr c" "size_of k c = Inr q"
    and "case k of FixedQuantity x \<Rightarrow> 0 \<le> x | FixedRiskPercent r d \<Rightarrow> unit_interval r | ATRSizer r m d \<Rightarrow> unit_interval r
         | Kelly m f \<Rightarrow> unit_interval m \<and> unit_interval f"
  shows "0 \<le> q \<and> (case k of Kelly m f \<Rightarrow> q \<le> fdiv (fmul eq m) price
    | FixedRiskPercent r d \<Rightarrow> (stop = Some price \<longrightarrow> q = 0) | _ \<Rightarrow> True)"
proof -
  have c: "sz_equity c = eq" "sz_price c = price" "sz_stop c = stop" "0 \<le> eq" "0 < price"
    using assms(1) by (auto simp: new_sizing_context_def)
  have rq: "0 \<le> risk_quantity eq r d u" if "unit_interval r" for r d u
  proof -
    have "0 \<le> fdiv (fmul eq r) u" if "0 < u"
      using c(4) \<open>unit_interval r\<close> that by (simp add: unit_interval_def fmul_nonneg fdiv_nonneg)
    then show ?thesis by (auto simp: risk_quantity_def Let_def b64.rnd_nonneg)
  qed
  show ?thesis
  proof (cases k)
    case (FixedQuantity x)
    with assms(2,3) show ?thesis by (auto simp: b64.rnd_nonneg)
  next
    case (FixedRiskPercent r d)
    then obtain x where x: "stop = Some x" "q = risk_quantity eq r d \<bar>fsub price x\<bar>"
      using assms(2) by (auto simp: c split: option.splits)
    have "risk_quantity eq r d \<bar>fsub price price\<bar> = 0" by (simp add: risk_quantity_def fsub_def)
    with x rq [of r d] assms(3) FixedRiskPercent show ?thesis by auto
  next
    case (ATRSizer r m d)
    with assms(2,3) rq show ?thesis by (auto simp: c split: option.splits)
  next
    case (Kelly m f)
    then obtain w p where wp: "sz_win_rate c = Some w" "sz_payoff c = Some p"
      using assms(2) by (auto split: option.splits)
    define kk where "kk = max 0 (min (fmul (fsub w (fdiv (fsub 1 w) p)) f) m)"
    have kk: "0 \<le> kk" "kk \<le> m" using assms(3) Kelly by (auto simp: kk_def unit_interval_def)
    have q: "q = fdiv (fmul eq kk) price" using assms(2) wp Kelly by (simp add: c kk_def Let_def)
    have "eq * kk \<le> eq * m" by (rule mult_left_mono [OF kk(2) c(4)])
    then have "fmul eq kk \<le> fmul eq m" unfolding fmul_def by (rule b64.rnd_mono)
    then have "fmul eq kk / price \<le> fmul eq m / price" using c(5) by (simp add: divide_right_mono)
    then have "q \<le> fdiv (fmul eq m) price" unfolding q fdiv_def by (rule b64.rnd_mono)
    moreover have "0 \<le> q" unfolding q using c kk by (simp add: fmul_nonneg fdiv_nonneg)
    ultimately show ?thesis using Kelly by simp
  qed
qed

definition demo_sizing :: sizing_context where
  "demo_sizing = \<lparr>sz_equity = 1000, sz_price = 100, sz_stop = None, sz_atr = None, sz_win_rate = Some 1, sz_payoff = Some 2\<rparr>"

theorem sizes_bounded_witness:
  "(5::rat) \<le> fdiv (fmul 1000 1) 100"
proof -
  have "(0::rat) \<le> 5 \<and> (case Kelly 1 (1 / 2) of Kelly m f \<Rightarrow> 5 \<le> fdiv (fmul 1000 m) 100
    | FixedRiskPercent r d \<Rightarrow> ((None :: rat option) = Some 100 \<longrightarrow> (5::rat) = 0) | _ \<Rightarrow> True)"
  proof (rule sizes_bounded)
    show "new_sizing_context 1000 100 None None (Some 1) (Some 2) = Inr demo_sizing"
      by (simp add: new_sizing_context_def not_positive_def demo_sizing_def)
    show "size_of (Kelly 1 (1 / 2)) demo_sizing = Inr 5" by code_simp
  qed (simp add: unit_interval_def)
  then show ?thesis by simp
qed

text \<open>A restart forgets everything: after any inputs, starting an engine without risk rules gives the
  state that starting it before them would have given, so a replay of the same bricks produces the same
  signals.\<close>

theorem restart_forgets:
  "se_rules e = [] \<Longrightarrow> se_start (feed se_step e xs) = se_start e \<and>
   process_bricks bs (se_start (feed se_step e xs)) = process_bricks bs (se_start e)"
proof -
  assume "se_rules e = []"
  have "strat_reset (se_strategy (feed se_step e xs)) = strat_reset (se_strategy e) \<and> se_rules (feed se_step e xs) = []"
  proof (rule feed_invariant [where P = "\<lambda>z::strategy_engine. strat_reset (se_strategy z) = strat_reset (se_strategy e) \<and> se_rules z = []"])
    show "strat_reset (se_strategy e) = strat_reset (se_strategy e) \<and> se_rules e = []" using \<open>se_rules e = []\<close> by simp
  next
    fix z :: strategy_engine and x assume "strat_reset (se_strategy z) = strat_reset (se_strategy e) \<and> se_rules z = []"
    with se_step_reset [of z x]
    show "strat_reset (se_strategy (fst (se_step z x))) = strat_reset (se_strategy e) \<and> se_rules (fst (se_step z x)) = []"
      by simp
  qed
  with \<open>se_rules e = []\<close> have "se_start (feed se_step e xs) = se_start e" by (simp add: se_start_def)
  then show ?thesis by simp
qed

theorem restart_forgets_witness:
  "process_bricks [(demo_brick UP 100 1, None)]
     (se_start (feed se_step (new_strategy_engine (RenkoTrend demo_trend) []) [InBrick (demo_brick UP 100 1) None None])) =
   process_bricks [(demo_brick UP 100 1, None)] (se_start (new_strategy_engine (RenkoTrend demo_trend) []))"
proof -
  have "se_rules (new_strategy_engine (RenkoTrend demo_trend) []) = []" by (simp add: new_strategy_engine_def)
  from conjunct2 [OF restart_forgets [OF this]] show ?thesis .
qed

text \<open>Without an explicit context the protective rules are inert: the context derived from a brick
  shows no open position, so no list of stop-loss, take-profit and trailing-stop rules ever changes the
  signal of the strategy.\<close>

theorem brick_context_disables_stops:
  assumes "\<forall>r\<in>set (se_rules e). \<exists>x a q h. r = StopLoss x \<or> r = TakeProfit x \<or> r = TrailingStop a q h" "se_started e"
  shows "snd (process_brick b pnl None e) = snd (strat_observe (se_strategy e) b)"
proof -
  have "snd (risk_evaluate rs g (context_from_brick b pnl)) = g"
    if "\<forall>r\<in>set rs. \<exists>x a q h. r = StopLoss x \<or> r = TakeProfit x \<or> r = TrailingStop a q h" for rs g
    using that
    by (induction rs arbitrary: g) (auto simp: Let_def case_prod_beta context_from_brick_def has_open_position_def)
  from this [OF assms(1)] assms(2) show ?thesis
    by (simp add: process_brick_def se_ensure_def Let_def case_prod_beta)
qed

theorem brick_context_disables_stops_witness:
  "snd (process_brick (demo_brick UP 100 1) None None ((new_strategy_engine (RenkoTrend demo_trend) [StopLoss 200])\<lparr>se_started := True\<rparr>)) =
     snd (strat_observe (RenkoTrend demo_trend) (demo_brick UP 100 1))"
  using brick_context_disables_stops [of "(new_strategy_engine (RenkoTrend demo_trend) [StopLoss 200])\<lparr>se_started := True\<rparr>"
      "demo_brick UP 100 1" None] by (simp add: new_strategy_engine_def)

text \<open>The bridge trades long only and never doubles up: an order it submits for a candle is either an
  entry buy of a positive quantity while the position is flat, or an exit sell of exactly the open quantity.\<close>

theorem bridge_trades_long_only:
  assumes "bridge_route g c now b = (b', Inr (Some o1))" "isfl (po_quantity (pf_position (bg_portfolio b)))"
  shows "(sg_type g = SigBuy \<and> \<not> position_is_open (pf_position (bg_portfolio b)) \<and> or_side o1 = BUY \<and> 0 < or_quantity o1) \<or>
    (sg_type g = SigExit \<and> position_is_open (pf_position (bg_portfolio b)) \<and> or_side o1 = SELL \<and>
     or_quantity o1 = po_quantity (pf_position (bg_portfolio b)))"
proof -
  have sub: "or_side o1 = side \<and> or_quantity o1 = b64 q"
    if "bridge_order side q intent now b = (b', Inr (Some o1))" "0 < q" for side q intent
    using that
    by (auto simp: bridge_order_def submit_market_def session_submit_def sim_submit_def new_ticket_def new_order_def
        order_of_def is_resting_def Let_def dget_dset rbind_Inr_iff split: prod.splits if_splits)
  show ?thesis
    using assms sub
    by (auto simp: bridge_route_def Let_def b64.rnd_pos split: option.splits if_splits sum.splits)
qed

definition demo_bridge :: "sizer \<Rightarrow> bridge" where
  "demo_bridge k = new_bridge (RenkoTrend demo_trend) (new_session ''X'' demo_portfolio demo_executor) k"

definition demo_buy :: signal where
  "demo_buy = hold_signal\<lparr>sg_type := SigBuy\<rparr>"

definition demo_flat :: strategy_context where
  "demo_flat = \<lparr>cx_symbol = ''X'', cx_price = Some 90, cx_cash = Some 1000, cx_equity = Some 1000, cx_quantity = 0, cx_open = 0,
     cx_daily_pnl = None\<rparr>"

lemma demo_bridge_flat: "\<not> position_is_open (pf_position (bg_portfolio (demo_bridge k)))"
  "po_quantity (pf_position (bg_portfolio (demo_bridge k))) = 0"
  by (simp_all add: demo_bridge_def new_bridge_def new_session_def new_simulator_def demo_portfolio_def demo_simps)

theorem bridge_trades_long_only_witness:
  "\<exists>b' o1. bridge_route demo_buy demo_flat 7 (demo_bridge (FixedQuantity 2)) = (b', Inr (Some o1)) \<and> or_side o1 = BUY"
proof -
  have "\<exists>b' o1. bridge_route demo_buy demo_flat 7 (demo_bridge (FixedQuantity 2)) = (b', Inr (Some o1))"
    using demo_bridge_flat [of "FixedQuantity 2"]
    by (simp add: bridge_route_def demo_buy_def hold_signal_def demo_flat_def new_sizing_context_def not_positive_def)
      (simp add: demo_bridge_def new_bridge_def bridge_order_def submit_market_def session_submit_def sim_submit_def new_ticket_def
        new_session_def new_simulator_def Let_def split: prod.splits)
  then obtain b' o1 where r: "bridge_route demo_buy demo_flat 7 (demo_bridge (FixedQuantity 2)) = (b', Inr (Some o1))" by blast
  from bridge_trades_long_only [OF r] demo_bridge_flat have "or_side o1 = BUY" by auto
  with r show ?thesis by blast
qed

text \<open>The bridge works with fixed-quantity sizing only: it gives a sizer neither a stop nor an ATR nor win
  statistics, so with any other policy the first buy signal raises an error instead of an order.\<close>

theorem bridge_needs_fixed_quantity:
  assumes "sg_type g = SigBuy" "\<not> position_is_open (pf_position (bg_portfolio b))"
    and "cx_price c = Some price" "cx_equity c = Some eq" "\<forall>q. bg_sizer b \<noteq> FixedQuantity q"
  shows "bridge_route g c now b = (b, Inl ValueError)"
proof -
  have "rbind (new_sizing_context eq price None None None None) (size_of (bg_sizer b)) = Inl ValueError"
    using assms(5) by (cases "bg_sizer b") (auto simp: new_sizing_context_def)
  with assms(1-4) show ?thesis by (simp add: bridge_route_def)
qed


theorem bridge_needs_fixed_quantity_witness:
  "bridge_route demo_buy demo_flat 7 (demo_bridge (Kelly 1 1)) = (demo_bridge (Kelly 1 1), Inl ValueError)"
proof (rule bridge_needs_fixed_quantity)
  show "\<not> position_is_open (pf_position (bg_portfolio (demo_bridge (Kelly 1 1))))" by (rule demo_bridge_flat)
qed (simp_all add: demo_buy_def demo_flat_def demo_bridge_def new_bridge_def)

end
