(* ===== verification/Backtest.thy ===== *)
theory Backtest imports StrategyRuntime begin

text \<open>
  The backtest (\<open>trading/backtesting/engine.py\<close>): a strategy over completed bricks with execution on the
  next brick, and the metrics of its equity curve and trades (\<open>metrics.py\<close>). The executor is the simulated
  one the engine builds by default. Orders are kept in a store by id, as in the paper venue.
\<close>

section \<open>The engine\<close>

record backtest =
  bt_engine :: strategy_engine
  bt_slippage :: slippage_model
  bt_brokerage :: brokerage
  bt_portfolio :: portfolio
  bt_fraction :: rat
  bt_fixed :: "rat option"
  bt_force :: bool
  bt_next :: int
  bt_orders :: "(int, order) dict"

definition strat_name :: "strategy \<Rightarrow> pystr" where
  "strat_name s = (case s of RenkoTrend _ \<Rightarrow> ''renko_trend'' | EmaCrossover _ \<Rightarrow> ''ema_crossover''
     | EmaTrend _ \<Rightarrow> ''ema_trend'' | PdhBreakout _ \<Rightarrow> ''pdh_pdl_breakout'')"

definition new_backtest :: "strategy \<Rightarrow> rat \<Rightarrow> attribution option \<Rightarrow> slippage_model \<Rightarrow> brokerage \<Rightarrow> rat \<Rightarrow> rat option
    \<Rightarrow> rat \<Rightarrow> bool \<Rightarrow> risk_rule list \<Rightarrow> backtest result" where
  "new_backtest s capital a slip brok fraction fixed leverage force rules =
     rbind (new_portfolio capital (Some (case a of Some x \<Rightarrow> x | None \<Rightarrow> default_attribution\<lparr>at_strategy := strat_name s\<rparr>)) leverage)
       (\<lambda>p. Inr \<lparr>bt_engine = new_strategy_engine s rules, bt_slippage = slip, bt_brokerage = brok, bt_portfolio = p,
          bt_fraction = b64 fraction, bt_fixed = fixed, bt_force = force, bt_next = 0, bt_orders = []\<rparr>)"

definition entry_quantity :: "rat \<Rightarrow> backtest \<Rightarrow> rat" where
  "entry_quantity ref t = (case bt_fixed t of Some q \<Rightarrow> b64 q
     | None \<Rightarrow> if ref \<le> 0 then 0 else fdiv (fmul (buying_power (bt_portfolio t)) (bt_fraction t)) ref)"

definition bt_save :: "order \<Rightarrow> backtest \<Rightarrow> backtest" where
  "bt_save o1 t = t\<lparr>bt_orders := dset (or_id o1) o1 (bt_orders t)\<rparr>"

definition order_from_signal :: "signal_type \<Rightarrow> seen_brick \<Rightarrow> backtest \<Rightarrow> backtest \<times> order option" where
  "order_from_signal ty b t =
     (let ref = b64 (sb_close b); i = bt_next t + 1; p = bt_portfolio t in
      if ty = SigBuy \<and> \<not> position_is_open (pf_position p) then
        (let q = entry_quantity ref t in
         if q \<le> 0 then (t, None)
         else let o1 = (new_order i BUY ENTRY q ref (sb_created b))\<lparr>or_reserved := fmul q ref\<rparr> in
           (bt_save o1 (t\<lparr>bt_next := i, bt_portfolio := record_order o1 (reserve (or_reserved o1) p)\<rparr>), Some o1))
      else if ty = SigExit \<and> position_is_open (pf_position p) then
        (let o1 = new_order i SELL EXIT (po_quantity (pf_position p)) ref (sb_created b) in
         (bt_save o1 (t\<lparr>bt_next := i, bt_portfolio := record_order o1 p\<rparr>), Some o1))
      else (t, None))"

definition bt_context :: "seen_brick \<Rightarrow> backtest \<Rightarrow> strategy_context" where
  "bt_context b t =
     (let p = bt_portfolio t; x = b64 (sb_close b); open' = position_is_open (pf_position p) in
      \<lparr>cx_symbol = (case sb_symbol b of None \<Rightarrow> ''UNKNOWN'' | Some s \<Rightarrow> s), cx_price = Some x, cx_cash = Some (pf_cash p),
       cx_equity = Some (equity x p), cx_quantity = (if open' then po_quantity (pf_position p) else 0),
       cx_open = (if open' then 1 else 0), cx_daily_pnl = Some (po_realized (pf_position p))\<rparr>)"

definition bt_execute :: "order \<Rightarrow> seen_brick \<Rightarrow> int \<Rightarrow> backtest \<Rightarrow> backtest \<times> unit result" where
  "bt_execute o1 b i t =
     (let o2 = simulated_execute (bt_slippage t) (bt_brokerage t) o1 (Some (b64 (sb_close b))) (sb_created b);
          (p, o3, r) = apply_order o2 i (bt_portfolio t)
      in (bt_save o3 (t\<lparr>bt_portfolio := p\<rparr>), rbind r (\<lambda>_. Inr ())))"

text \<open>One brick: fill what is pending, mark, ask the strategy for the next order.\<close>

definition bt_fill :: "order option \<Rightarrow> seen_brick \<Rightarrow> int \<Rightarrow> backtest \<Rightarrow> backtest \<times> unit result" where
  "bt_fill pending b i t = (case pending of None \<Rightarrow> (t, Inr ()) | Some o1 \<Rightarrow> bt_execute o1 b i t)"

definition bt_signal :: "seen_brick \<Rightarrow> backtest \<Rightarrow> backtest \<times> signal" where
  "bt_signal b t =
     (let (e, g) = process_brick b None (if se_rules (bt_engine t) \<noteq> [] then Some (bt_context b t) else None) (bt_engine t)
      in (t\<lparr>bt_engine := e\<rparr>, g))"

definition bt_step :: "order option \<Rightarrow> seen_brick \<Rightarrow> int \<Rightarrow> backtest \<Rightarrow> backtest \<times> order option result" where
  "bt_step pending b i t =
     (case bt_fill pending b i t of
        (t1, Inl e) \<Rightarrow> (t1, Inl e)
      | (t1, Inr _) \<Rightarrow>
          (let t2 = t1\<lparr>bt_portfolio := mark (sb_created b) (b64 (sb_close b)) (bt_portfolio t1)\<rparr>;
               (t3, g) = bt_signal b t2; (t4, pending') = order_from_signal (sg_type g) b t3
           in (t4, Inr pending')))"

fun bt_loop :: "order option \<Rightarrow> int \<Rightarrow> seen_brick list \<Rightarrow> backtest \<Rightarrow> backtest \<times> order option result" where
  "bt_loop pending i [] t = (t, Inr pending)"
| "bt_loop pending i (b # bs) t = (case bt_step pending b i t of
       (t', Inl e) \<Rightarrow> (t', Inl e)
     | (t', Inr pending') \<Rightarrow> bt_loop pending' (i + 1) bs t')"

definition bt_cancel_pending :: "order option \<Rightarrow> backtest \<Rightarrow> backtest" where
  "bt_cancel_pending pending t = (case pending of None \<Rightarrow> t
     | Some o1 \<Rightarrow> bt_save (cancel_order o1) (t\<lparr>bt_portfolio := release (or_reserved o1) (bt_portfolio t)\<rparr>))"

definition bt_force_close :: "seen_brick list \<Rightarrow> backtest \<Rightarrow> backtest \<times> unit result" where
  "bt_force_close bs t =
     (if bt_force t \<and> bs \<noteq> [] \<and> position_is_open (pf_position (bt_portfolio t)) then
        (let b = last bs; x = b64 (sb_close b); i = bt_next t + 1;
             o1 = new_order i SELL EXIT (po_quantity (pf_position (bt_portfolio t))) x (sb_created b);
             t1 = bt_save o1 (t\<lparr>bt_next := i, bt_portfolio := record_order o1 (bt_portfolio t)\<rparr>)
         in case bt_execute o1 b (int (length bs) - 1) t1 of
              (t2, Inl e) \<Rightarrow> (t2, Inl e)
            | (t2, Inr _) \<Rightarrow> (t2\<lparr>bt_portfolio := mark (sb_created b) x (bt_portfolio t2)\<rparr>, Inr ()))
      else (t, Inr ()))"

definition bt_run :: "seen_brick list \<Rightarrow> backtest \<Rightarrow> backtest \<times> unit result" where
  "bt_run bs t =
     (case bt_loop None 0 bs (t\<lparr>bt_engine := se_start (bt_engine t)\<rparr>) of
        (t1, Inl e) \<Rightarrow> (t1, Inl e)
      | (t1, Inr pending) \<Rightarrow> bt_force_close bs (bt_cancel_pending pending t1))"

section \<open>What holds between two bricks\<close>

text \<open>
  The pending order is fresh; a pending buy meets a flat position and is what is reserved, a pending
  sell has the size of the open position and nothing is reserved.
\<close>

definition pending_ok :: "order option \<Rightarrow> portfolio \<Rightarrow> bool" where
  "pending_ok pending p \<longleftrightarrow> (case pending of
       None \<Rightarrow> pf_reserved p = 0
     | Some o1 \<Rightarrow> or_status o1 = CREATED \<and> or_fill o1 = None \<and> 0 < or_quantity o1 \<and>
         (if or_side o1 = BUY then \<not> position_is_open (pf_position p) \<and> isfl (or_reserved o1) \<and> pf_reserved p = max 0 (or_reserved o1)
          else position_is_open (pf_position p) \<and> or_quantity o1 = po_quantity (pf_position p) \<and> pf_reserved p = 0))"

lemma apply_sell_flat:
  "apply_sell f bar p = (p', tr) \<Longrightarrow> \<not> position_is_open (pf_position p')"
  by (auto simp: apply_sell_def close_position_def Let_def split: if_splits)

lemma apply_order_reserved:
  assumes "apply_order o1 bar p = (p', o2, r)"
  shows "pf_reserved p' = (if or_side o1 = BUY then pf_reserved (release (or_reserved o1) p) else pf_reserved p)"
    "pf_equity p' = pf_equity p"
  using assms
  by (auto simp: apply_order_def apply_buy_def apply_sell_def release_def Let_def
      split: option.splits if_splits prod.splits sum.splits)

lemma simulated_execute_frame:
  "or_side (simulated_execute s b o1 ref t) = or_side o1" "or_reserved (simulated_execute s b o1 ref t) = or_reserved o1"
  "or_fill o1 = None \<Longrightarrow> or_fill (simulated_execute s b o1 ref t) = Some f \<Longrightarrow> fl_quantity f = or_quantity o1"
  "0 < x \<Longrightarrow> \<exists>f. or_fill (simulated_execute s b o1 (Some x) t) = Some f"
  by (auto simp: simulated_execute_def submit_order_def reject_order_def complete_order_def Let_def split: option.splits if_splits)

lemma bt_execute_ok:
  assumes "portfolio_inv (bt_portfolio t)" "pending_ok (Some o1) (bt_portfolio t)"
  obtains t' where "bt_execute o1 b i t = (t', Inr ())" "portfolio_inv (bt_portfolio t')" "pf_reserved (bt_portfolio t') = 0"
    "pf_equity (bt_portfolio t') = pf_equity (bt_portfolio t)" "bt_engine t' = bt_engine t" "bt_force t' = bt_force t"
    "or_side o1 = SELL \<Longrightarrow> 0 < sb_close b \<Longrightarrow> \<not> position_is_open (pf_position (bt_portfolio t'))"
proof -
  define o2 where "o2 = simulated_execute (bt_slippage t) (bt_brokerage t) o1 (Some (b64 (sb_close b))) (sb_created b)"
  obtain p o3 r where p: "apply_order o2 i (bt_portfolio t) = (p, o3, r)" by (cases "apply_order o2 i (bt_portfolio t)")
  have o2: "or_side o2 = or_side o1" "or_reserved o2 = or_reserved o1" "\<And>f. or_fill o2 = Some f \<Longrightarrow> 0 < fl_quantity f"
    using assms(2) simulated_execute_frame(3) [of o1]
    by (auto simp: o2_def simulated_execute_frame(1,2) pending_ok_def)
  obtain tr where r: "r = Inr tr" using apply_order_order(5) [OF p o2(3)] by blast
  have "pf_reserved p = 0"
    using apply_order_reserved(1) [OF p] assms(2) o2(1,2)
    by (auto simp: pending_ok_def release_def fsub_def max_def split: if_splits)
  moreover have "\<not> position_is_open (pf_position p)" if "or_side o1 = SELL" "0 < sb_close b"
  proof -
    have "\<exists>f. or_fill o2 = Some f"
      using that(2) unfolding o2_def by (intro simulated_execute_frame(4)) (simp add: b64.rnd_pos)
    with p that(1) o2(1) show ?thesis
      by (auto simp: apply_order_def Let_def split: prod.splits dest: apply_sell_flat)
  qed
  moreover have "bt_execute o1 b i t = (bt_save o3 (t\<lparr>bt_portfolio := p\<rparr>), Inr ())"
    using p r by (simp add: bt_execute_def o2_def Let_def)
  ultimately show thesis
    using that apply_order_inv [OF assms(1) p] apply_order_reserved(2) [OF p] by (simp add: bt_save_def)
qed

lemma order_from_signal_ok:
  assumes "portfolio_inv (bt_portfolio t)" "pf_reserved (bt_portfolio t) = 0" "order_from_signal ty b t = (t', pending)"
  shows "portfolio_inv (bt_portfolio t')" "pending_ok pending (bt_portfolio t')" "pf_equity (bt_portfolio t') = pf_equity (bt_portfolio t)"
    "pf_cash (bt_portfolio t') = pf_cash (bt_portfolio t)" "pf_position (bt_portfolio t') = pf_position (bt_portfolio t)"
    "pf_trades (bt_portfolio t') = pf_trades (bt_portfolio t)" "bt_force t' = bt_force t"
  using assms
  by (auto simp: order_from_signal_def bt_save_def pending_ok_def portfolio_invs new_order_def Let_def reserve_def record_order_def
      fadd_def position_is_open_def split: if_splits)
    (auto simp: portfolio_inv_def)

definition between_bricks :: "nat \<Rightarrow> order option \<Rightarrow> backtest \<Rightarrow> bool" where
  "between_bricks n pending t \<longleftrightarrow> portfolio_inv (bt_portfolio t) \<and> pending_ok pending (bt_portfolio t) \<and>
     length (pf_equity (bt_portfolio t)) = n"

lemma bt_signal_frame [simp]:
  "bt_portfolio (fst (bt_signal b t)) = bt_portfolio t" "bt_force (fst (bt_signal b t)) = bt_force t"
  by (simp_all add: bt_signal_def case_prod_beta Let_def)

lemma bt_fill_ok:
  assumes "portfolio_inv (bt_portfolio t)" "pending_ok pending (bt_portfolio t)"
  obtains t' where "bt_fill pending b i t = (t', Inr ())" "portfolio_inv (bt_portfolio t')" "pf_reserved (bt_portfolio t') = 0"
    "pf_equity (bt_portfolio t') = pf_equity (bt_portfolio t)" "bt_force t' = bt_force t"
proof (cases pending)
  case None
  with assms that show thesis by (simp add: bt_fill_def pending_ok_def)
next
  case (Some o1)
  with bt_execute_ok [OF assms(1) assms(2) [unfolded Some], of b i] that show thesis by (metis bt_fill_def option.case(2))
qed

lemma bt_step_ok:
  assumes "between_bricks n pending t"
  obtains t' pending' where "bt_step pending b i t = (t', Inr pending')" "between_bricks (Suc n) pending' t'" "bt_force t' = bt_force t"
proof -
  obtain t1 where 1: "bt_fill pending b i t = (t1, Inr ())" "portfolio_inv (bt_portfolio t1)" "pf_reserved (bt_portfolio t1) = 0"
    "pf_equity (bt_portfolio t1) = pf_equity (bt_portfolio t)" "bt_force t1 = bt_force t"
    using assms bt_fill_ok [of t pending b i] by (auto simp: between_bricks_def)
  define t2 where "t2 = t1\<lparr>bt_portfolio := mark (sb_created b) (b64 (sb_close b)) (bt_portfolio t1)\<rparr>"
  obtain t3 g where 3: "bt_signal b t2 = (t3, g)" by (cases "bt_signal b t2")
  obtain t4 pending' where 4: "order_from_signal (sg_type g) b t3 = (t4, pending')" by (cases "order_from_signal (sg_type g) b t3")
  have p3: "bt_portfolio t3 = bt_portfolio t2" "bt_force t3 = bt_force t2" using bt_signal_frame [of b t2] 3 by simp_all
  have p2: "portfolio_inv (bt_portfolio t2)" "pf_reserved (bt_portfolio t2) = 0"
    "length (pf_equity (bt_portfolio t2)) = Suc n" "bt_force t2 = bt_force t"
    using 1 assms by (simp_all add: t2_def mark_inv) (simp_all add: mark_def between_bricks_def)
  note ok = order_from_signal_ok [OF _ _ 4]
  have "bt_step pending b i t = (t4, Inr pending')"
    using 1(1) 3 4 by (simp add: bt_step_def t2_def [symmetric])
  moreover have "between_bricks (Suc n) pending' t4" "bt_force t4 = bt_force t"
    using ok p2 p3 by (simp_all add: between_bricks_def)
  ultimately show thesis using that by blast
qed

lemma bt_loop_ok:
  assumes "between_bricks n pending t"
  shows "\<exists>t' pending'. bt_loop pending i bs t = (t', Inr pending') \<and> between_bricks (n + length bs) pending' t' \<and> bt_force t' = bt_force t"
  using assms
proof (induction bs arbitrary: n pending i t)
  case (Cons b bs)
  obtain t1 pending1 where 1: "bt_step pending b i t = (t1, Inr pending1)" "between_bricks (Suc n) pending1 t1" "bt_force t1 = bt_force t"
    using bt_step_ok [OF Cons.prems] by blast
  from Cons.IH [OF this(2), of "i + 1"] 1 show ?case by auto
qed simp

section \<open>Metrics\<close>

definition drawdown_step :: "rat option \<times> rat \<times> rat \<Rightarrow> rat \<Rightarrow> rat option \<times> rat \<times> rat" where
  "drawdown_step s v = (case s of (peak, dd, pct) \<Rightarrow>
     (let peak' = (case peak of None \<Rightarrow> v | Some p \<Rightarrow> if p < v then v else p); d = fsub peak' v in
      if dd < d then (Some peak', d, if peak' \<noteq> 0 then fdiv d peak' else 0) else (Some peak', dd, pct)))"

definition max_drawdown :: "rat list \<Rightarrow> rat \<times> rat" where
  "max_drawdown vs = snd (foldl drawdown_step (None, 0, 0) vs)"

definition step_returns :: "rat list \<Rightarrow> rat list" where
  "step_returns vs = List.map_filter (\<lambda>(a, b). if a \<noteq> 0 then Some (fdiv (fsub b a) a) else None) (zip vs (tl vs))"

definition mean_of :: "rat list \<Rightarrow> rat" where
  "mean_of xs = (if xs = [] then 0 else fdiv (py_sum xs) (b64 (of_nat (length xs))))"

text \<open>A mean of integers: the sum is exact and the division of two integers is rounded once.\<close>

definition mean_of_ints :: "int list \<Rightarrow> rat" where
  "mean_of_ints xs = (if xs = [] then 0 else b64 (of_int (sum_list xs) / of_nat (length xs)))"

text \<open>The square and the square rt of the C library are the parameters \<open>sq\<close> and \<open>rt\<close>.\<close>

definition std_of :: "(rat \<Rightarrow> rat) \<Rightarrow> (rat \<Rightarrow> rat) \<Rightarrow> rat list \<Rightarrow> rat" where
  "std_of sq rt xs = (if length xs < 2 then 0
     else rt (fdiv (py_sum (map (\<lambda>x. sq (fsub x (mean_of xs))) xs)) (b64 (of_nat (length xs - 1)))))"

record performance =
  pm_starting :: rat
  pm_ending :: rat
  pm_total_return :: rat
  pm_total_pnl :: rat
  pm_max_drawdown :: rat
  pm_max_drawdown_pct :: rat
  pm_trades :: nat
  pm_wins :: nat
  pm_losses :: nat
  pm_win_rate :: rat
  pm_avg_win :: rat
  pm_avg_loss :: rat
  pm_profit_factor :: "rat option"
  pm_expectancy :: rat
  pm_avg_bars :: rat
  pm_largest_win :: rat
  pm_largest_loss :: rat
  pm_gross :: rat
  pm_net :: rat
  pm_brokerage :: rat
  pm_slippage :: rat
  pm_sharpe :: rat
  pm_sortino :: rat

definition compute_metrics :: "(rat \<Rightarrow> rat) \<Rightarrow> (rat \<Rightarrow> rat) \<Rightarrow> (time \<times> rat) list \<Rightarrow> trade list \<Rightarrow> rat \<Rightarrow> rat \<Rightarrow> rat \<Rightarrow> performance" where
  "compute_metrics sq rt curve trades capital brok slip =
     (let vs = map snd curve; start = b64 capital; end' = (if vs = [] then start else last vs);
          pnl = fsub end' start; dd = max_drawdown vs; nets = map tr_net trades;
          wins = filter (\<lambda>n. 0 < n) nets; losses = filter (\<lambda>n. n < 0) nets; n = length trades;
          gross_loss = \<bar>py_sum losses\<bar>; rets = step_returns vs; mean = mean_of rets;
          std = std_of sq rt rets; dstd = std_of sq rt (filter (\<lambda>r. r < 0) rets)
      in \<lparr>pm_starting = start, pm_ending = end', pm_total_return = (if start \<noteq> 0 then fdiv pnl start else 0), pm_total_pnl = pnl,
          pm_max_drawdown = fst dd, pm_max_drawdown_pct = snd dd, pm_trades = n, pm_wins = length wins, pm_losses = length losses,
          pm_win_rate = (if n \<noteq> 0 then b64 (of_nat (length wins) / of_nat n) else 0),
          pm_avg_win = mean_of wins, pm_avg_loss = mean_of losses,
          pm_profit_factor = (if 0 < gross_loss then Some (fdiv (py_sum wins) gross_loss) else None),
          pm_expectancy = mean_of nets, pm_avg_bars = mean_of_ints (map tr_bars trades),
          pm_largest_win = (if nets = [] then 0 else Max (set nets)), pm_largest_loss = (if nets = [] then 0 else Min (set nets)),
          pm_gross = py_sum (map tr_gross trades), pm_net = py_sum nets, pm_brokerage = b64 brok, pm_slippage = b64 slip,
          pm_sharpe = (if 0 < std then fdiv mean std else 0), pm_sortino = (if 0 < dstd then fdiv mean dstd else 0)\<rparr>)"

definition backtest_metrics :: "(rat \<Rightarrow> rat) \<Rightarrow> (rat \<Rightarrow> rat) \<Rightarrow> backtest \<Rightarrow> performance" where
  "backtest_metrics sq rt t = (let p = bt_portfolio t in
     compute_metrics sq rt (pf_equity p) (pf_trades p) (pf_starting p) (pf_brokerage p) (pf_slippage p))"

text \<open>The running peak and the largest fall so far, against all pairs of earlier and later values.\<close>

definition falls :: "rat list \<Rightarrow> rat set" where
  "falls vs = {fsub (vs ! i) (vs ! j) | i j. i \<le> j \<and> j < length vs}"

lemma falls_snoc: "falls (vs @ [v]) = falls vs \<union> {fsub u v | u. u \<in> set (vs @ [v])}"
proof -
  have "\<exists>i j. x = fsub ((vs @ [v]) ! i) ((vs @ [v]) ! j) \<and> i \<le> j \<and> j < length (vs @ [v])"
    if x: "x = fsub u v" and u: "u \<in> set (vs @ [v])" for x u
  proof -
    obtain i where "i < length (vs @ [v])" "(vs @ [v]) ! i = u" using u by (metis in_set_conv_nth)
    with x show ?thesis by (intro exI [of _ i] exI [of _ "length vs"]) auto
  qed
  then have 1: "x \<in> falls (vs @ [v])" if "x = fsub u v" "u \<in> set (vs @ [v])" for x u
    using that unfolding falls_def by simp
  have 2: "x \<in> falls (vs @ [v])" if "x \<in> falls vs" for x
    using that unfolding falls_def by (clarsimp simp: nth_append) (metis le_less_trans less_Suc_eq nth_append)
  have 3: "x \<in> falls vs \<or> (\<exists>u. x = fsub u v \<and> u \<in> set (vs @ [v]))" if "x \<in> falls (vs @ [v])" for x
  proof -
    from that obtain i j where ij: "x = fsub ((vs @ [v]) ! i) ((vs @ [v]) ! j)" "i \<le> j" "j \<le> length vs"
      by (auto simp: falls_def less_Suc_eq_le)
    show ?thesis
    proof (cases "j = length vs")
      case True
      with ij show ?thesis by (intro disjI2 exI [of _ "(vs @ [v]) ! i"]) (auto simp: nth_append)
    next
      case False
      with ij show ?thesis unfolding falls_def by (intro disjI1 CollectI exI [of _ i] exI [of _ j]) (auto simp: nth_append)
    qed
  qed
  show ?thesis
  proof (intro equalityI subsetI)
    show "x \<in> falls vs \<union> {fsub u v | u. u \<in> set (vs @ [v])}" if "x \<in> falls (vs @ [v])" for x using 3 [OF that] by blast
    show "x \<in> falls (vs @ [v])" if "x \<in> falls vs \<union> {fsub u v | u. u \<in> set (vs @ [v])}" for x using that 1 2 by blast
  qed
qed

lemma finite_falls: "finite (falls vs)"
proof -
  have "falls vs \<subseteq> (\<lambda>(i, j). fsub (vs ! i) (vs ! j)) ` ({..<length vs} \<times> {..<length vs})"
    unfolding falls_def by force
  then show ?thesis by (rule finite_subset) simp
qed

lemma drawdown_loop:
  "\<exists>pct. foldl drawdown_step (None, 0, 0) vs = (if vs = [] then None else Some (Max (set vs)), Max (insert 0 (falls vs)), pct)"
proof (induction vs rule: rev_induct)
  case Nil
  show ?case by (simp add: falls_def)
next
  case (snoc v vs)
  then obtain pct where IH: "foldl drawdown_step (None, 0, 0) vs =
      (if vs = [] then None else Some (Max (set vs)), Max (insert 0 (falls vs)), pct)" by blast
  define pk where "pk = Max (set (vs @ [v]))"
  have pk: "(case (if vs = [] then None else Some (Max (set vs))) of None \<Rightarrow> v | Some p \<Rightarrow> if p < v then v else p) = pk"
  proof -
    define m where "m = Max (set vs)"
    have "pk = (if vs = [] then v else max v m)" by (simp add: pk_def m_def)
    then show ?thesis unfolding m_def [symmetric] by (auto simp: max_def)
  qed
  have pkm: "pk \<in> set (vs @ [v])" "\<And>u. u \<in> set (vs @ [v]) \<Longrightarrow> u \<le> pk"
    unfolding pk_def by (intro Max_in Max_ge; simp)+
  have "Max (insert 0 (falls (vs @ [v]))) = max (Max (insert 0 (falls vs))) (fsub pk v)"
  proof (rule Max_eqI)
    show "finite (insert 0 (falls (vs @ [v])))" by (simp add: finite_falls)
  next
    fix y assume "y \<in> insert 0 (falls (vs @ [v]))"
    then consider "y \<in> insert 0 (falls vs)" | u where "y = fsub u v" "u \<in> set (vs @ [v])" unfolding falls_snoc by blast
    then show "y \<le> max (Max (insert 0 (falls vs))) (fsub pk v)"
    proof cases
      case 1
      then have "y \<le> Max (insert 0 (falls vs))" by (intro Max_ge) (simp_all add: finite_falls)
      then show ?thesis by simp
    next
      case 2
      then have "y \<le> fsub pk v" using pkm(2) [OF 2(2)] unfolding 2(1) fsub_def by (intro b64.rnd_mono) simp
      then show ?thesis by simp
    qed
  next
    have "Max (insert 0 (falls vs)) \<in> insert 0 (falls vs)" by (intro Max_in) (simp_all add: finite_falls)
    moreover have "fsub pk v \<in> falls (vs @ [v])" unfolding falls_snoc using pkm(1) by blast
    ultimately show "max (Max (insert 0 (falls vs))) (fsub pk v) \<in> insert 0 (falls (vs @ [v]))"
      unfolding falls_snoc max_def by auto
  qed
  moreover define m where "m = Max (insert 0 (falls vs))"
  moreover have "foldl drawdown_step (None, 0, 0) (vs @ [v]) =
      (if m < fsub pk v then (Some pk, fsub pk v, if pk \<noteq> 0 then fdiv (fsub pk v) pk else 0) else (Some pk, m, pct))"
    by (simp only: foldl_append foldl_Cons foldl_Nil IH drawdown_step_def prod.case Let_def pk m_def)
  ultimately have "foldl drawdown_step (None, 0, 0) (vs @ [v]) = (Some pk, Max (insert 0 (falls (vs @ [v]))),
      if m < fsub pk v then if pk \<noteq> 0 then fdiv (fsub pk v) pk else 0 else pct)"
    by (simp add: max_def)
  then show ?case unfolding pk_def by auto
qed

lemma order_from_signal_frame:
  assumes "order_from_signal ty b t = (t', pending)"
  shows "pf_equity (bt_portfolio t') = pf_equity (bt_portfolio t)" "pf_cash (bt_portfolio t') = pf_cash (bt_portfolio t)"
    "pf_position (bt_portfolio t') = pf_position (bt_portfolio t)" "pf_trades (bt_portfolio t') = pf_trades (bt_portfolio t)"
  using assms
  by (auto simp: order_from_signal_def bt_save_def Let_def reserve_def record_order_def split: if_splits)

lemma bt_step_split:
  assumes "bt_step pending b i t = (t', Inr pending')"
  obtains t1 g t3 where "bt_fill pending b i t = (t1, Inr ())" "order_from_signal g b t3 = (t', pending')"
    "bt_portfolio t3 = mark (sb_created b) (b64 (sb_close b)) (bt_portfolio t1)"
proof -
  obtain t1 where 1: "bt_fill pending b i t = (t1, Inr ())"
    using assms by (auto simp: bt_step_def split: prod.splits sum.splits)
  define t2 where "t2 = t1\<lparr>bt_portfolio := mark (sb_created b) (b64 (sb_close b)) (bt_portfolio t1)\<rparr>"
  obtain t3 g where 3: "bt_signal b t2 = (t3, g)" by (cases "bt_signal b t2")
  have "order_from_signal (sg_type g) b t3 = (t', pending')"
    using assms 1 3 by (auto simp: bt_step_def t2_def [symmetric] split: prod.splits)
  moreover have "bt_portfolio t3 = bt_portfolio t2" using bt_signal_frame(1) [of b t2] 3 by simp
  ultimately show thesis using that 1 by (simp add: t2_def)
qed

lemma bt_cancel_pending_ok:
  assumes "portfolio_inv (bt_portfolio t)" "pending_ok pending (bt_portfolio t)"
  shows "portfolio_inv (bt_portfolio (bt_cancel_pending pending t))" "pf_reserved (bt_portfolio (bt_cancel_pending pending t)) = 0"
    "pf_equity (bt_portfolio (bt_cancel_pending pending t)) = pf_equity (bt_portfolio t)"
    "bt_force (bt_cancel_pending pending t) = bt_force t"
  using assms
  by (auto simp: bt_cancel_pending_def bt_save_def pending_ok_def release_def portfolio_inv_def fsub_def max_def
      b64.rnd_nonpos split: option.splits if_splits)

section \<open>Properties\<close>

lemma bt_run_ok:
  assumes "new_backtest s capital a slip brok fraction fixed leverage force rules = Inr t"
  shows "\<exists>t'. bt_run bs t = (t', Inr ()) \<and> portfolio_inv (bt_portfolio t') \<and> pf_reserved (bt_portfolio t') = 0 \<and>
    length bs \<le> length (pf_equity (bt_portfolio t')) \<and> length (pf_equity (bt_portfolio t')) \<le> length bs + of_bool force \<and>
    (force \<and> bs \<noteq> [] \<and> 0 < sb_close (last bs) \<longrightarrow> \<not> position_is_open (pf_position (bt_portfolio t')))"
proof -
  obtain p where p: "new_portfolio capital (Some (case a of Some x \<Rightarrow> x | None \<Rightarrow> default_attribution\<lparr>at_strategy := strat_name s\<rparr>)) leverage = Inr p"
    "bt_portfolio t = p" "bt_force t = force"
    using assms by (auto simp: new_backtest_def rbind_Inr_iff)
  have "portfolio_inv p \<and> pf_reserved p = 0 \<and> pf_equity p = []"
    using new_portfolio_inv [OF p(1)] p(1) by (auto simp: new_portfolio_def split: if_splits)
  then have "between_bricks 0 None (t\<lparr>bt_engine := se_start (bt_engine t)\<rparr>)"
    using p(2) by (simp add: between_bricks_def pending_ok_def)
  from bt_loop_ok [OF this, of 0 bs] p(3) obtain t1 pending where
    1: "bt_loop None 0 bs (t\<lparr>bt_engine := se_start (bt_engine t)\<rparr>) = (t1, Inr pending)" "between_bricks (length bs) pending t1" "bt_force t1 = force"
    by auto
  define t2 where "t2 = bt_cancel_pending pending t1"
  have t2: "portfolio_inv (bt_portfolio t2)" "pf_reserved (bt_portfolio t2) = 0" "length (pf_equity (bt_portfolio t2)) = length bs" "bt_force t2 = force"
    using bt_cancel_pending_ok [of t1 pending] 1(2,3) by (auto simp: t2_def between_bricks_def)
  have run: "bt_run bs t = bt_force_close bs t2" using 1(1) by (simp add: bt_run_def t2_def)
  show ?thesis
  proof (cases "force \<and> bs \<noteq> [] \<and> position_is_open (pf_position (bt_portfolio t2))")
    case False
    then show ?thesis using run t2 by (auto simp: bt_force_close_def)
  next
    case True
    define o1 where "o1 = new_order (bt_next t2 + 1) SELL EXIT (po_quantity (pf_position (bt_portfolio t2))) (b64 (sb_close (last bs))) (sb_created (last bs))"
    define t3 where "t3 = bt_save o1 (t2\<lparr>bt_next := bt_next t2 + 1, bt_portfolio := record_order o1 (bt_portfolio t2)\<rparr>)"
    have "portfolio_inv (bt_portfolio t3)" "pending_ok (Some o1) (bt_portfolio t3)" "pf_equity (bt_portfolio t3) = pf_equity (bt_portfolio t2)"
      using t2 True by (auto simp: t3_def bt_save_def record_order_inv pending_ok_def o1_def new_order_def position_is_open_def)
        (simp_all add: record_order_def)
    then obtain t4 where 4: "bt_execute o1 (last bs) (int (length bs) - 1) t3 = (t4, Inr ())" "portfolio_inv (bt_portfolio t4)"
      "pf_reserved (bt_portfolio t4) = 0" "pf_equity (bt_portfolio t4) = pf_equity (bt_portfolio t2)"
      "or_side o1 = SELL \<Longrightarrow> 0 < sb_close (last bs) \<Longrightarrow> \<not> position_is_open (pf_position (bt_portfolio t4))"
      by (metis bt_execute_ok)
    have "bt_run bs t = (t4\<lparr>bt_portfolio := mark (sb_created (last bs)) (b64 (sb_close (last bs))) (bt_portfolio t4)\<rparr>, Inr ())"
      using True t2(4) 4(1) by (simp add: run bt_force_close_def Let_def o1_def [symmetric] t3_def [symmetric])
    moreover have "or_side o1 = SELL" by (simp add: o1_def new_order_def)
    moreover have "portfolio_inv (mark (sb_created (last bs)) (b64 (sb_close (last bs))) (bt_portfolio t4))"
      using 4(2) by (rule mark_inv)
    ultimately show ?thesis using 4(3-5) t2(3) True by (simp add: mark_def)
  qed
qed

text \<open>C14: A backtest always completes and settles: whatever the strategy, rules and bricks, a run raises
  nothing, keeps the portfolio sound, releases every reservation, has one equity point per brick (and one
  more for a forced close), and with a forced close and a positive last price ends flat.\<close>

theorem backtest_run_sound:
  assumes "new_backtest s capital a slip brok fraction fixed leverage force rules = Inr t"
  shows "\<exists>t'. bt_run bs t = (t', Inr ()) \<and> portfolio_inv (bt_portfolio t') \<and> pf_reserved (bt_portfolio t') = 0 \<and>
    length bs \<le> length (pf_equity (bt_portfolio t')) \<and> length (pf_equity (bt_portfolio t')) \<le> length bs + of_bool force \<and>
    (force \<and> bs \<noteq> [] \<and> 0 < sb_close (last bs) \<longrightarrow> \<not> position_is_open (pf_position (bt_portfolio t')))"
  by (rule bt_run_ok [OF assms])

definition demo_backtest :: backtest where
  "demo_backtest = (case new_backtest (RenkoTrend demo_trend) 1000 None ZeroSlippage ZeroBrokerage 1 (Some 2) 1 True [] of Inr t \<Rightarrow> t)"

lemma demo_backtest: "new_backtest (RenkoTrend demo_trend) 1000 None ZeroSlippage ZeroBrokerage 1 (Some 2) 1 True [] = Inr demo_backtest"
  by (simp add: demo_backtest_def new_backtest_def new_portfolio_def)

theorem backtest_run_sound_witness:
  "\<not> position_is_open (pf_position (bt_portfolio (fst (bt_run demo_bricks demo_backtest))))"
  using backtest_run_sound [OF demo_backtest, of demo_bricks] by (auto simp: demo_bricks_def demo_brick_def)

text \<open>C15: No signal is executed on the brick it comes from: processing a brick changes cash, position, trades
  and equity only by the order that was already pending, so two backtests with the same portfolio and costs but
  any strategies, rules and sizing agree on all of them after the brick.\<close>

theorem next_brick_execution:
  assumes "bt_portfolio x = bt_portfolio y" "bt_slippage x = bt_slippage y" "bt_brokerage x = bt_brokerage y"
    and "bt_step pending b i x = (x', Inr px)" "bt_step pending b i y = (y', Inr py)"
  shows "pf_cash (bt_portfolio x') = pf_cash (bt_portfolio y') \<and> pf_position (bt_portfolio x') = pf_position (bt_portfolio y') \<and>
    pf_trades (bt_portfolio x') = pf_trades (bt_portfolio y') \<and> pf_equity (bt_portfolio x') = pf_equity (bt_portfolio y')"
proof -
  obtain x1 gx x3 where x: "bt_fill pending b i x = (x1, Inr ())" "order_from_signal gx b x3 = (x', px)"
    "bt_portfolio x3 = mark (sb_created b) (b64 (sb_close b)) (bt_portfolio x1)" by (rule bt_step_split [OF assms(4)])
  obtain y1 gy y3 where y: "bt_fill pending b i y = (y1, Inr ())" "order_from_signal gy b y3 = (y', py)"
    "bt_portfolio y3 = mark (sb_created b) (b64 (sb_close b)) (bt_portfolio y1)" by (rule bt_step_split [OF assms(5)])
  have "bt_portfolio x1 = bt_portfolio y1"
    using x(1) y(1) assms(1-3)
    by (auto simp: bt_fill_def bt_execute_def bt_save_def Let_def split: option.splits prod.splits)
  then have "bt_portfolio x3 = bt_portfolio y3" using x(3) y(3) by simp
  with order_from_signal_frame [OF x(2)] order_from_signal_frame [OF y(2)] show ?thesis by simp
qed

lemma demo_step:
  "\<exists>t' p. bt_step None (demo_brick UP 100 1) 0 demo_backtest = (t', Inr p)"
  by (simp add: bt_step_def bt_fill_def case_prod_beta Let_def)

theorem next_brick_execution_witness:
  "\<exists>x' px. bt_step None (demo_brick UP 100 1) 0 demo_backtest = (x', Inr px) \<and>
     pf_cash (bt_portfolio x') = pf_cash (bt_portfolio (fst (bt_step None (demo_brick UP 100 1) 0 (demo_backtest\<lparr>bt_fixed := None\<rparr>))))"
proof -
  obtain x' px where x: "bt_step None (demo_brick UP 100 1) 0 demo_backtest = (x', Inr px)" using demo_step by blast
  obtain y' py where y: "bt_step None (demo_brick UP 100 1) 0 (demo_backtest\<lparr>bt_fixed := None\<rparr>) = (y', Inr py)"
    by (simp add: bt_step_def bt_fill_def case_prod_beta Let_def)
  from next_brick_execution [OF _ _ _ x y] x y show ?thesis by simp
qed

text \<open>The reported maximum drawdown is the largest fall of the equity curve: it equals the greatest
  difference between an equity value and any later one, zero for a curve that never falls.\<close>

theorem drawdown_is_largest_fall:
  "fst (max_drawdown vs) = Max (insert 0 {fsub (vs ! i) (vs ! j) | i j. i \<le> j \<and> j < length vs})"
  using drawdown_loop [of vs] by (auto simp: max_drawdown_def falls_def)

text \<open>The drawdown percentage belongs to the largest absolute fall, not to the largest percentage: on a
  curve that first halves and later loses more money but only six percent, it reports the six percent.\<close>

theorem drawdown_pct_understates:
  "snd (max_drawdown [100, 50, 1000, 940]) = fdiv 60 1000 \<and> fdiv (fsub 100 50) 100 = 1 / 2"
  by (simp add: max_drawdown_def drawdown_step_def fsub_def fdiv_def Let_def) (simp add: b64_exact [of 1 "- 1", simplified])

end
