(* ===== verification/Scenarios.thy ===== *)
theory Scenarios imports Backtest Registry "HOL-Library.List_Lexorder" "HOL-Library.Char_ord" "HOL-Library.Sublist"
  "HOL-Library.Multiset" begin

text \<open>
  Validation (\<open>trading/validation\<close>) and the strategy registry and factory (\<open>trading/strategy/registry.py\<close>,
  \<open>factory.py\<close>): scenarios are expanded from declared axes, run one by one through the backtest, and ranked.
  A metric is a number or undefined (\<open>None\<close>); an integer metric is the rational it denotes. The hash that
  gives a scenario its id is the parameter \<open>digest\<close>, applied to the fields it covers. An error is recorded
  by its class, not its text. The square and square root of the metrics are \<open>sq\<close> and \<open>rt\<close>.
\<close>

section \<open>Numbers from arguments\<close>

definition is_digit :: "char \<Rightarrow> bool" where
  "is_digit c \<longleftrightarrow> (let n = of_char c :: nat in 48 \<le> n \<and> n \<le> 57)"

text \<open>Digits, single underscores between them; the flag says that the last character was a digit.\<close>

fun scan_digits :: "int \<Rightarrow> bool \<Rightarrow> pystr \<Rightarrow> int option" where
  "scan_digits n ok [] = (if ok then Some n else None)"
| "scan_digits n ok (c # cs) =
     (if is_digit c then scan_digits (10 * n + (of_char c - 48)) True cs
      else if c = CHR ''_'' \<and> ok then scan_digits n False cs else None)"

definition signed :: "(pystr \<Rightarrow> 'a::uminus option) \<Rightarrow> pystr \<Rightarrow> 'a option" where
  "signed f s = (case s of [] \<Rightarrow> f [] | c # cs \<Rightarrow>
     if c = CHR ''-'' then map_option uminus (f cs) else if c = CHR ''+'' then f cs else f s)"

definition int_of_text :: "pystr \<Rightarrow> int option" where
  "int_of_text s = signed (scan_digits 0 False) (str_strip s)"

text \<open>A decimal literal with optional fraction and exponent; \<open>inf\<close> and \<open>nan\<close> are outside the model.\<close>

definition mantissa_of_text :: "pystr \<Rightarrow> rat option" where
  "mantissa_of_text s =
     (let i = takeWhile (\<lambda>c. c \<noteq> CHR ''.'') s; f = drop (length i + 1) s;
          n = (if i = [] then if f = [] then None else Some 0 else scan_digits 0 False i);
          m = (if f = [] then Some 0 else scan_digits 0 False f);
          k = length (filter is_digit f)
      in case (n, m) of (Some n, Some m) \<Rightarrow> Some (of_int n + of_int m / 10 ^ k) | _ \<Rightarrow> None)"

definition number_of_text :: "pystr \<Rightarrow> rat option" where
  "number_of_text s =
     (let m = takeWhile (\<lambda>c. c \<noteq> CHR ''e'' \<and> c \<noteq> CHR ''E'') s; e = drop (length m) s
      in case mantissa_of_text m of
           None \<Rightarrow> None
         | Some x \<Rightarrow> (if e = [] then Some x else map_option (\<lambda>k. x * 10 powi k) (signed (scan_digits 0 False) (tl e))))"

definition float_of_text :: "pystr \<Rightarrow> rat option" where
  "float_of_text s = map_option b64 (signed number_of_text (str_strip s))"

text \<open>The number an argument is in a comparison, and \<open>int(x)\<close>.\<close>

definition as_number :: "py_value \<Rightarrow> rat result" where
  "as_number v = (case v of PFloat x \<Rightarrow> Inr x | PInt n \<Rightarrow> Inr (of_int n) | PBool b \<Rightarrow> Inr (of_bool b)
     | PStr _ \<Rightarrow> Inl TypeError | PNone \<Rightarrow> Inl TypeError)"

definition py_int :: "py_value \<Rightarrow> int result" where
  "py_int v = (case v of PInt n \<Rightarrow> Inr n | PFloat x \<Rightarrow> Inr (py_trunc x) | PBool b \<Rightarrow> Inr (of_bool b)
     | PStr s \<Rightarrow> (case int_of_text s of Some n \<Rightarrow> Inr n | None \<Rightarrow> Inl ValueError) | PNone \<Rightarrow> Inl TypeError)"

section \<open>Strategy registry\<close>

type_synonym kwargs = "(pystr, py_value) dict"

datatype strategy_class = EmaCrossoverClass | EmaTrendClass | PdhBreakoutClass | RenkoTrendClass

fun class_name :: "strategy_class \<Rightarrow> pystr" where
  "class_name EmaCrossoverClass = ''ema_crossover''"
| "class_name EmaTrendClass = ''ema_trend''"
| "class_name PdhBreakoutClass = ''pdh_pdl_breakout''"
| "class_name RenkoTrendClass = ''renko_trend''"

text \<open>The one parameter of each constructor and its default.\<close>

fun class_parameter :: "strategy_class \<Rightarrow> pystr \<times> py_value" where
  "class_parameter EmaCrossoverClass = (''period'', PInt 10)"
| "class_parameter EmaTrendClass = (''period'', PInt 20)"
| "class_parameter PdhBreakoutClass = (''buffer'', PFloat 0)"
| "class_parameter RenkoTrendClass = (''trend_length'', PInt 3)"

fun construct :: "strategy_class \<Rightarrow> py_value \<Rightarrow> strategy result" where
  "construct EmaCrossoverClass v = rbind (py_int v) (\<lambda>n. rbind (new_ema_crossover n) (\<lambda>s. Inr (EmaCrossover s)))"
| "construct EmaTrendClass v = rbind (as_number v) (\<lambda>x. if x \<le> 0 then Inl ValueError
     else rbind (new_ema_trend (py_trunc x)) (\<lambda>s. Inr (EmaTrend s)))"
| "construct PdhBreakoutClass v = rbind (as_number v) (\<lambda>x. rbind (new_pdh x) (\<lambda>s. Inr (PdhBreakout s)))"
| "construct RenkoTrendClass v = rbind (as_number v) (\<lambda>x. if x \<le> 0 then Inl ValueError
     else rbind (new_renko_trend 1) (\<lambda>s. Inr (RenkoTrend (s\<lparr>rt_length := py_trunc x\<rparr>))))"

definition instantiate :: "strategy_class \<Rightarrow> kwargs \<Rightarrow> strategy result" where
  "instantiate c kw = (let (p, d) = class_parameter c in
     if \<exists>k\<in>set (dkeys kw). k \<noteq> p then Inl TypeError
     else construct c (case dget kw p of None \<Rightarrow> d | Some v \<Rightarrow> v))"

record strategy_registry =
  sr_factories :: "(pystr, kwargs \<Rightarrow> strategy result) dict"
  sr_classes :: "(pystr, strategy_class) dict"

definition new_strategy_registry :: strategy_registry where
  "new_strategy_registry = \<lparr>sr_factories = [], sr_classes = []\<rparr>"

definition normalize_name :: "pystr \<Rightarrow> pystr result" where
  "normalize_name s = (let n = str_strip s in if n = [] then Inl ValueError else Inr n)"

definition register_strategy :: "pystr \<Rightarrow> (kwargs \<Rightarrow> strategy result) \<Rightarrow> strategy_registry \<Rightarrow> strategy_registry result" where
  "register_strategy name f r = rbind (normalize_name name) (\<lambda>n. Inr (r\<lparr>sr_factories := dset n f (sr_factories r)\<rparr>))"

definition register_class :: "strategy_class \<Rightarrow> pystr option \<Rightarrow> strategy_registry \<Rightarrow> strategy_registry result" where
  "register_class c name r =
     rbind (normalize_name (case name of None \<Rightarrow> class_name c | Some s \<Rightarrow> if s = [] then class_name c else s))
       (\<lambda>n. register_strategy n (instantiate c) (r\<lparr>sr_classes := dset n c (sr_classes r)\<rparr>))"

definition strategy_factory :: "strategy_registry \<Rightarrow> pystr \<Rightarrow> (kwargs \<Rightarrow> strategy result) result" where
  "strategy_factory r name = rbind (normalize_name name) (registry_get (sr_factories r))"

definition strategy_exists :: "strategy_registry \<Rightarrow> pystr \<Rightarrow> bool result" where
  "strategy_exists r name = rbind (normalize_name name) (\<lambda>n. Inr (registry_exists (sr_factories r) n))"

definition strategy_names :: "strategy_registry \<Rightarrow> pystr list" where
  "strategy_names r = sort (dkeys (sr_factories r))"

text \<open>Keyword arguments called \<open>self\<close> or \<open>name\<close> clash with those of \<open>create\<close> itself.\<close>

definition create_strategy :: "strategy_registry \<Rightarrow> pystr \<Rightarrow> kwargs \<Rightarrow> strategy result" where
  "create_strategy r name kw = (if ''self'' \<in> set (dkeys kw) \<or> ''name'' \<in> set (dkeys kw) then Inl TypeError
     else rbind (strategy_factory r name) (\<lambda>f. f kw))"

definition dupdate :: "('k, 'v) dict \<Rightarrow> ('k, 'v) dict \<Rightarrow> ('k, 'v) dict" where
  "dupdate d e = foldl (\<lambda>d (k, v). dset k v d) d e"

fun merge_names :: "pystr list \<Rightarrow> strategy_registry \<Rightarrow> strategy_registry \<Rightarrow> strategy_registry result" where
  "merge_names [] q r = Inr r"
| "merge_names (n # ns) q r = rbind (strategy_factory q n) (\<lambda>f. rbind (register_strategy n f r) (merge_names ns q))"

definition merge_registry :: "strategy_registry \<Rightarrow> strategy_registry \<Rightarrow> strategy_registry result" where
  "merge_registry q r = rbind (merge_names (strategy_names q) q r)
     (\<lambda>r'. Inr (r'\<lparr>sr_classes := dupdate (sr_classes r') (sr_classes q)\<rparr>))"

fun register_classes :: "strategy_class list \<Rightarrow> strategy_registry \<Rightarrow> strategy_registry result" where
  "register_classes [] r = Inr r"
| "register_classes (c # cs) r = rbind (register_class c None r) (register_classes cs)"

definition register_builtin :: "strategy_registry \<Rightarrow> strategy_registry result" where
  "register_builtin = register_classes [EmaCrossoverClass, EmaTrendClass, PdhBreakoutClass, RenkoTrendClass]"

definition build_registry :: "strategy_class list \<Rightarrow> strategy_registry result" where
  "build_registry cs = rbind (register_builtin new_strategy_registry) (register_classes cs)"

text \<open>The registry of the process is built on first use and on demand.\<close>

definition default_registry :: "bool \<Rightarrow> strategy_registry option \<Rightarrow> strategy_registry option \<times> strategy_registry result" where
  "default_registry reload g = (case (reload, g) of (False, Some r) \<Rightarrow> (g, Inr r)
     | _ \<Rightarrow> (case register_builtin new_strategy_registry of Inl e \<Rightarrow> (g, Inl e) | Inr r \<Rightarrow> (Some r, Inr r)))"

section \<open>Scenarios\<close>

datatype scenario_status = ScCreated | ScRunning | ScCompleted | ScFailed

record brick_spec =
  bs_type :: pystr
  bs_size :: rat
  bs_timeframe :: pystr

definition default_brick_spec :: brick_spec where
  "default_brick_spec = \<lparr>bs_type = ''traditional'', bs_size = 1, bs_timeframe = ''renko''\<rparr>"

record risk_settings =
  rk_capital :: rat
  rk_fraction :: rat
  rk_fixed :: "rat option"
  rk_leverage :: rat
  rk_brokerage :: pystr
  rk_brokerage_value :: rat
  rk_slippage :: pystr
  rk_slippage_value :: rat

definition default_risk_settings :: risk_settings where
  "default_risk_settings = \<lparr>rk_capital = 100000, rk_fraction = b64 (95 / 100), rk_fixed = None, rk_leverage = 1,
     rk_brokerage = ''zero'', rk_brokerage_value = 0, rk_slippage = ''zero'', rk_slippage_value = 0\<rparr>"

record market_info =
  mk_exchange :: pystr
  mk_market :: pystr
  mk_currency :: pystr

definition default_market_info :: market_info where
  "default_market_info = \<lparr>mk_exchange = ''UNKNOWN'', mk_market = ''UNKNOWN'', mk_currency = ''UNKNOWN''\<rparr>"

type_synonym date_range = "pystr option \<times> pystr option"

record scenario =
  sc_strategy :: pystr
  sc_params :: kwargs
  sc_brick :: brick_spec
  sc_symbol :: pystr
  sc_dataset :: pystr
  sc_range :: date_range
  sc_risk :: risk_settings
  sc_market :: market_info
  sc_id :: pystr

text \<open>The id hashes every field but itself.\<close>

definition compute_id :: "(scenario \<Rightarrow> pystr) \<Rightarrow> scenario \<Rightarrow> pystr" where
  "compute_id digest s = digest (s\<lparr>sc_id := []\<rparr>)"

definition sorted_items :: "(pystr, 'v) dict \<Rightarrow> (pystr, 'v) dict" where
  "sorted_items d = sort_key fst d"

definition create_scenario :: "(scenario \<Rightarrow> pystr) \<Rightarrow> pystr \<Rightarrow> kwargs \<Rightarrow> brick_spec \<Rightarrow> pystr \<Rightarrow> pystr \<Rightarrow> date_range
    \<Rightarrow> risk_settings \<Rightarrow> market_info \<Rightarrow> scenario" where
  "create_scenario digest name kw b sy ds dr risk m =
     (let s = \<lparr>sc_strategy = name, sc_params = sorted_items kw, sc_brick = b, sc_symbol = sy, sc_dataset = ds,
               sc_range = dr, sc_risk = risk, sc_market = m, sc_id = []\<rparr>
      in s\<lparr>sc_id := compute_id digest s\<rparr>)"

section \<open>The matrix\<close>

definition make_dict :: "('k \<times> 'v) list \<Rightarrow> ('k, 'v) dict" where
  "make_dict = dupdate []"

definition expand_grid :: "(pystr, py_value list) dict \<Rightarrow> kwargs list" where
  "expand_grid grid = (if grid = [] then [[]]
     else (let items = sorted_items grid in map (\<lambda>vs. make_dict (zip (map fst items) vs)) (product_lists (map snd items))))"

record matrix =
  mx_strategies :: "(pystr \<times> (pystr, py_value list) dict) list"
  mx_bricks :: "brick_spec list"
  mx_symbols :: "pystr list"
  mx_datasets :: "pystr list"
  mx_ranges :: "date_range list"
  mx_risks :: "risk_settings list"
  mx_markets :: "market_info list"
  mx_filter :: "(scenario \<Rightarrow> bool) option"

definition new_matrix :: matrix where
  "new_matrix = \<lparr>mx_strategies = [], mx_bricks = [], mx_symbols = [], mx_datasets = [], mx_ranges = [(None, None)],
     mx_risks = [default_risk_settings], mx_markets = [default_market_info], mx_filter = None\<rparr>"

definition add_strategy :: "pystr \<Rightarrow> (pystr, py_value list) dict \<Rightarrow> matrix \<Rightarrow> matrix" where
  "add_strategy name grid m = m\<lparr>mx_strategies := mx_strategies m @ [(name, grid)]\<rparr>"

definition with_bricks :: "brick_spec list \<Rightarrow> matrix \<Rightarrow> matrix" where
  "with_bricks bs m = m\<lparr>mx_bricks := bs\<rparr>"

definition with_symbols :: "pystr list \<Rightarrow> matrix \<Rightarrow> matrix" where
  "with_symbols xs m = m\<lparr>mx_symbols := xs\<rparr>"

definition with_datasets :: "pystr list \<Rightarrow> matrix \<Rightarrow> matrix" where
  "with_datasets xs m = m\<lparr>mx_datasets := xs\<rparr>"

definition with_date_ranges :: "date_range list \<Rightarrow> matrix \<Rightarrow> matrix" where
  "with_date_ranges xs m = m\<lparr>mx_ranges := (if xs = [] then [(None, None)] else xs)\<rparr>"

definition with_risk :: "risk_settings list \<Rightarrow> matrix \<Rightarrow> matrix" where
  "with_risk xs m = m\<lparr>mx_risks := (if xs = [] then [default_risk_settings] else xs)\<rparr>"

definition with_markets :: "market_info list \<Rightarrow> matrix \<Rightarrow> matrix" where
  "with_markets xs m = m\<lparr>mx_markets := (if xs = [] then [default_market_info] else xs)\<rparr>"

definition with_filter :: "(scenario \<Rightarrow> bool) \<Rightarrow> matrix \<Rightarrow> matrix" where
  "with_filter p m = m\<lparr>mx_filter := Some p\<rparr>"

definition all_scenarios :: "(scenario \<Rightarrow> pystr) \<Rightarrow> matrix \<Rightarrow> scenario list" where
  "all_scenarios digest m =
     [create_scenario digest name kw b sy ds dr risk mk.
        (name, kw) \<leftarrow> [(name, kw). (name, grid) \<leftarrow> mx_strategies m, kw \<leftarrow> expand_grid grid],
        b \<leftarrow> mx_bricks m, sy \<leftarrow> mx_symbols m, ds \<leftarrow> mx_datasets m, dr \<leftarrow> mx_ranges m, risk \<leftarrow> mx_risks m, mk \<leftarrow> mx_markets m]"

fun keep_new :: "('a \<Rightarrow> 'k) \<Rightarrow> ('a \<Rightarrow> bool) \<Rightarrow> 'k set \<Rightarrow> 'a list \<Rightarrow> 'a list" where
  "keep_new key p seen' [] = []"
| "keep_new key p seen' (x # xs) =
     (if \<not> p x then keep_new key p seen' xs
      else if key x \<in> seen' then keep_new key p seen' xs
      else x # keep_new key p (insert (key x) seen') xs)"

definition passes :: "matrix \<Rightarrow> scenario \<Rightarrow> bool" where
  "passes m s \<longleftrightarrow> (case mx_filter m of None \<Rightarrow> True | Some p \<Rightarrow> p s)"

definition scenarios :: "(scenario \<Rightarrow> pystr) \<Rightarrow> matrix \<Rightarrow> scenario list" where
  "scenarios digest m = keep_new sc_id (passes m) {} (all_scenarios digest m)"

definition matrix_count :: "(scenario \<Rightarrow> pystr) \<Rightarrow> matrix \<Rightarrow> nat" where
  "matrix_count digest m = length (scenarios digest m)"

section \<open>Results\<close>

type_synonym metric_map = "(pystr, rat option) dict"

definition metric_keys :: "pystr list" where
  "metric_keys = [''net_profit'', ''win_rate'', ''profit_factor'', ''expectancy'', ''sharpe'', ''sortino'', ''max_drawdown'',
     ''max_drawdown_pct'', ''total_trades'', ''average_trade'', ''largest_win'', ''largest_loss'', ''total_return'', ''total_pnl'']"

definition metrics_from_performance :: "performance \<Rightarrow> metric_map" where
  "metrics_from_performance m =
     [(''net_profit'', Some (pm_net m)), (''win_rate'', Some (pm_win_rate m)), (''profit_factor'', pm_profit_factor m),
      (''expectancy'', Some (pm_expectancy m)), (''sharpe'', Some (pm_sharpe m)), (''sortino'', Some (pm_sortino m)),
      (''max_drawdown'', Some (pm_max_drawdown m)), (''max_drawdown_pct'', Some (pm_max_drawdown_pct m)),
      (''total_trades'', Some (of_nat (pm_trades m))), (''average_trade'', Some (pm_expectancy m)),
      (''largest_win'', Some (pm_largest_win m)), (''largest_loss'', Some (pm_largest_loss m)),
      (''total_return'', Some (pm_total_return m)), (''total_pnl'', Some (pm_total_pnl m))]"

record scenario_result =
  rs_scenario :: scenario
  rs_status :: scenario_status
  rs_metrics :: metric_map
  rs_error :: "py_error option"
  rs_duration :: rat

definition rs_completed :: "scenario_result \<Rightarrow> bool" where
  "rs_completed r \<longleftrightarrow> rs_status r = ScCompleted"

text \<open>\<open>metrics.get(name)\<close>: an unknown metric is undefined.\<close>

definition rs_metric :: "pystr \<Rightarrow> scenario_result \<Rightarrow> rat option" where
  "rs_metric name r = (case dget (rs_metrics r) name of None \<Rightarrow> None | Some v \<Rightarrow> v)"

fun status_value :: "scenario_status \<Rightarrow> pystr" where
  "status_value ScCreated = ''created''"
| "status_value ScRunning = ''running''"
| "status_value ScCompleted = ''completed''"
| "status_value ScFailed = ''failed''"

datatype cell = TextCell "pystr option" | NumberCell "rat option" | ParamsCell kwargs | ErrorCell "py_error option"

definition to_record :: "scenario_result \<Rightarrow> (pystr, cell) dict" where
  "to_record r = (let s = rs_scenario r in
     [(''scenario_id'', TextCell (Some (sc_id s))), (''strategy'', TextCell (Some (sc_strategy s))),
      (''strategy_params'', ParamsCell (make_dict (sc_params s))), (''brick_type'', TextCell (Some (bs_type (sc_brick s)))),
      (''brick_size'', NumberCell (Some (bs_size (sc_brick s)))), (''timeframe'', TextCell (Some (bs_timeframe (sc_brick s)))),
      (''symbol'', TextCell (Some (sc_symbol s))), (''dataset_id'', TextCell (Some (sc_dataset s))),
      (''date_start'', TextCell (fst (sc_range s))), (''date_end'', TextCell (snd (sc_range s))),
      (''exchange'', TextCell (Some (mk_exchange (sc_market s)))), (''market'', TextCell (Some (mk_market (sc_market s)))),
      (''currency'', TextCell (Some (mk_currency (sc_market s)))), (''status'', TextCell (Some (status_value (rs_status r)))),
      (''error'', ErrorCell (rs_error r))]
     @ map (\<lambda>k. (k, NumberCell (rs_metric k r))) metric_keys)"

text \<open>A result set is the list of its results.\<close>

type_synonym result_set = "scenario_result list"

definition add_result :: "scenario_result \<Rightarrow> result_set \<Rightarrow> result_set" where
  "add_result r rs = rs @ [r]"

definition completed :: "result_set \<Rightarrow> result_set" where
  "completed rs = filter rs_completed rs"

definition failed :: "result_set \<Rightarrow> result_set" where
  "failed rs = filter (\<lambda>r. rs_status r = ScFailed) rs"

definition to_records :: "result_set \<Rightarrow> (pystr, cell) dict list" where
  "to_records rs = map to_record rs"

section \<open>Brick sources\<close>

record source_key =
  ky_symbol :: pystr
  ky_dataset :: pystr
  ky_brick :: brick_spec
  ky_start :: "pystr option"
  ky_end :: "pystr option"

definition make_key :: "pystr \<Rightarrow> pystr \<Rightarrow> brick_spec \<Rightarrow> date_range \<Rightarrow> source_key" where
  "make_key sy ds b dr = \<lparr>ky_symbol = sy, ky_dataset = ds, ky_brick = b, ky_start = fst dr, ky_end = snd dr\<rparr>"

type_synonym brick_store = "(source_key, seen_brick list) dict"

definition store_register :: "pystr \<Rightarrow> pystr \<Rightarrow> seen_brick list \<Rightarrow> brick_spec option \<Rightarrow> date_range \<Rightarrow> brick_store \<Rightarrow> brick_store" where
  "store_register sy ds bs b dr st =
     dset (make_key sy ds (case b of None \<Rightarrow> default_brick_spec | Some x \<Rightarrow> x) dr) bs st"

definition store_get :: "brick_store \<Rightarrow> source_key \<Rightarrow> brick_store \<times> seen_brick list result" where
  "store_get st k = (st, registry_get st k)"

text \<open>The caching source asks its loader once per key. What the loader answers may change over time: it
  is asked with the number of the load.\<close>

record brick_cache =
  ca_cache :: brick_store
  ca_loads :: nat

definition new_cache :: brick_cache where
  "new_cache = \<lparr>ca_cache = [], ca_loads = 0\<rparr>"

definition cache_get :: "(nat \<Rightarrow> source_key \<Rightarrow> seen_brick list result) \<Rightarrow> brick_cache \<Rightarrow> source_key \<Rightarrow> brick_cache \<times> seen_brick list result" where
  "cache_get loader c k =
     (case dget (ca_cache c) k of
        Some bs \<Rightarrow> (c, Inr bs)
      | None \<Rightarrow> (let c1 = c\<lparr>ca_loads := ca_loads c + 1\<rparr> in
          case loader (ca_loads c1) k of
            Inl e \<Rightarrow> (c1, Inl e)
          | Inr bs \<Rightarrow> (c1\<lparr>ca_cache := dset k bs (ca_cache c1)\<rparr>, Inr bs)))"

section \<open>Running scenarios\<close>

definition build_brokerage :: "risk_settings \<Rightarrow> brokerage result" where
  "build_brokerage r = (let x = rk_brokerage_value r in
     if rk_brokerage r = ''fixed'' then new_fixed_brokerage x
     else if rk_brokerage r = ''percentage'' then new_percentage_brokerage x
     else if rk_brokerage r = ''per_share'' then new_per_share_brokerage x
     else Inr ZeroBrokerage)"

definition build_slippage :: "risk_settings \<Rightarrow> slippage_model result" where
  "build_slippage r = (let x = rk_slippage_value r in
     if rk_slippage r = ''fixed'' then new_fixed_slippage x
     else if rk_slippage r = ''percentage'' then new_percentage_slippage x
     else Inr ZeroSlippage)"

definition scenario_attribution :: "scenario \<Rightarrow> attribution" where
  "scenario_attribution s = \<lparr>at_symbol = sc_symbol s, at_strategy = sc_strategy s, at_brick_type = bs_type (sc_brick s),
     at_brick_size = bs_size (sc_brick s), at_timeframe = bs_timeframe (sc_brick s)\<rparr>"

definition scenario_key :: "scenario \<Rightarrow> source_key" where
  "scenario_key s = make_key (sc_symbol s) (sc_dataset s) (sc_brick s) (sc_range s)"

text \<open>Running the backtest of a scenario and taking its metrics.\<close>

definition measure_backtest :: "(rat \<Rightarrow> rat) \<Rightarrow> (rat \<Rightarrow> rat) \<Rightarrow> seen_brick list \<Rightarrow> backtest \<Rightarrow> metric_map result" where
  "measure_backtest sq rt bs t = (case bt_run bs t of
     (t', Inl e) \<Rightarrow> Inl e | (t', Inr _) \<Rightarrow> Inr (metrics_from_performance (backtest_metrics sq rt t')))"

definition scenario_backtest :: "(rat \<Rightarrow> rat) \<Rightarrow> (rat \<Rightarrow> rat) \<Rightarrow> strategy \<Rightarrow> scenario \<Rightarrow> seen_brick list \<Rightarrow> metric_map result" where
  "scenario_backtest sq rt st s bs = (let r = sc_risk s in
     rbind (build_slippage r) (\<lambda>sl. rbind (build_brokerage r) (\<lambda>br.
       rbind (new_backtest st (rk_capital r) (Some (scenario_attribution s)) sl br (rk_fraction r) (rk_fixed r) (rk_leverage r) True [])
         (measure_backtest sq rt bs))))"

definition scenario_outcome :: "scenario \<Rightarrow> metric_map result \<Rightarrow> rat \<Rightarrow> scenario_result" where
  "scenario_outcome s r d = (case r of
     Inr m \<Rightarrow> \<lparr>rs_scenario = s, rs_status = ScCompleted, rs_metrics = m, rs_error = None, rs_duration = d\<rparr>
   | Inl e \<Rightarrow> \<lparr>rs_scenario = s, rs_status = ScFailed, rs_metrics = [], rs_error = Some e, rs_duration = d\<rparr>)"

definition scenario_metrics :: "(rat \<Rightarrow> rat) \<Rightarrow> (rat \<Rightarrow> rat) \<Rightarrow> strategy_registry \<Rightarrow> ('s \<Rightarrow> source_key \<Rightarrow> 's \<times> seen_brick list result)
    \<Rightarrow> 's \<Rightarrow> scenario \<Rightarrow> 's \<times> metric_map result" where
  "scenario_metrics sq rt reg get src s =
     (case create_strategy reg (sc_strategy s) (make_dict (sc_params s)) of
        Inl e \<Rightarrow> (src, Inl e)
      | Inr st \<Rightarrow> (case get src (scenario_key s) of (src', r) \<Rightarrow> (src', rbind r (scenario_backtest sq rt st s))))"

text \<open>The two readings of the clock are arguments.\<close>

definition run_one :: "(rat \<Rightarrow> rat) \<Rightarrow> (rat \<Rightarrow> rat) \<Rightarrow> strategy_registry \<Rightarrow> ('s \<Rightarrow> source_key \<Rightarrow> 's \<times> seen_brick list result)
    \<Rightarrow> (nat \<Rightarrow> rat) \<Rightarrow> nat \<Rightarrow> 's \<Rightarrow> scenario \<Rightarrow> 's \<times> scenario_result" where
  "run_one sq rt reg get clock i src s =
     (let (src', r) = scenario_metrics sq rt reg get src s
      in (src', scenario_outcome s r (fsub (clock (2 * i + 1)) (clock (2 * i)))))"

fun run_scenarios :: "(rat \<Rightarrow> rat) \<Rightarrow> (rat \<Rightarrow> rat) \<Rightarrow> strategy_registry \<Rightarrow> ('s \<Rightarrow> source_key \<Rightarrow> 's \<times> seen_brick list result)
    \<Rightarrow> (nat \<Rightarrow> rat) \<Rightarrow> nat \<Rightarrow> 's \<Rightarrow> scenario list \<Rightarrow> 's \<times> result_set" where
  "run_scenarios sq rt reg get clock i src [] = (src, [])"
| "run_scenarios sq rt reg get clock i src (s # ss) =
     (let (src1, r) = run_one sq rt reg get clock i src s; (src2, rs) = run_scenarios sq rt reg get clock (i + 1) src1 ss
      in (src2, r # rs))"

section \<open>Ranking\<close>

text \<open>The key of a ranking: undefined last, then the value, then the id.\<close>

datatype rank_key = RankKey bool rat pystr

instantiation rank_key :: linorder
begin

fun less_eq_rank_key :: "rank_key \<Rightarrow> rank_key \<Rightarrow> bool" where
  "less_eq_rank_key (RankKey a x s) (RankKey b y t) \<longleftrightarrow> a < b \<or> a = b \<and> (x < y \<or> x = y \<and> s \<le> t)"

definition less_rank_key :: "rank_key \<Rightarrow> rank_key \<Rightarrow> bool" where
  "less_rank_key k l \<longleftrightarrow> k \<le> l \<and> \<not> l \<le> k"

instance
proof
  fix k l m :: rank_key
  show "k < l \<longleftrightarrow> k \<le> l \<and> \<not> l \<le> k" by (simp add: less_rank_key_def)
  show "k \<le> k" by (cases k) simp
  show "k \<le> l \<Longrightarrow> l \<le> m \<Longrightarrow> k \<le> m" by (cases k; cases l; cases m) auto
  show "k \<le> l \<Longrightarrow> l \<le> k \<Longrightarrow> k = l" by (cases k; cases l) auto
  show "k \<le> l \<or> l \<le> k" by (cases k; cases l) auto
qed

end

definition metric_directions :: "(pystr, int) dict" where
  "metric_directions =
     [(''net_profit'', 1), (''win_rate'', 1), (''profit_factor'', 1), (''expectancy'', 1), (''sharpe'', 1), (''sortino'', 1),
      (''average_trade'', 1), (''largest_win'', 1), (''largest_loss'', 1), (''total_return'', 1), (''total_pnl'', 1),
      (''max_drawdown'', - 1), (''max_drawdown_pct'', - 1), (''total_trades'', 0)]"

definition direction_of :: "pystr \<Rightarrow> int" where
  "direction_of m = (case dget metric_directions m of None \<Rightarrow> 1 | Some d \<Rightarrow> d)"

record ranked_entry =
  re_rank :: nat
  re_result :: scenario_result
  re_value :: "rat option"

definition sort_value :: "bool \<Rightarrow> pystr \<Rightarrow> scenario_result \<Rightarrow> rank_key" where
  "sort_value higher metric r = (case rs_metric metric r of
     None \<Rightarrow> RankKey True 0 (sc_id (rs_scenario r))
   | Some v \<Rightarrow> RankKey False (if higher then - v else v) (sc_id (rs_scenario r)))"

definition rank_by :: "pystr \<Rightarrow> bool option \<Rightarrow> result_set \<Rightarrow> ranked_entry list" where
  "rank_by metric higher rs =
     (let h = (case higher of Some b \<Rightarrow> b | None \<Rightarrow> 0 \<le> direction_of metric)
      in map (\<lambda>(i, r). \<lparr>re_rank = i + 1, re_result = r, re_value = rs_metric metric r\<rparr>)
           (enumerate 0 (sort_key (sort_value h metric) (completed rs))))"

text \<open>The least and the largest of a list that is not empty.\<close>

definition lo_of :: "rat list \<Rightarrow> rat" where "lo_of vs = Min (set vs)"
definition hi_of :: "rat list \<Rightarrow> rat" where "hi_of vs = Max (set vs)"

definition normalized :: "int \<Rightarrow> rat list \<Rightarrow> rat list" where
  "normalized d vs =
     (let lo = lo_of vs; span = fsub (hi_of vs) lo in
      if span = 0 then map (\<lambda>_. 0) vs
      else (let ns = map (\<lambda>v. fdiv (fsub v lo) span) vs in if d < 0 then map (\<lambda>n. fsub 1 n) ns else ns))"

definition clean_column :: "pystr \<Rightarrow> result_set \<Rightarrow> rat list" where
  "clean_column metric rs =
     (let raw = map (rs_metric metric) rs; valid = List.map_filter id raw;
          worst = (if valid = [] then 0 else if 0 \<le> direction_of metric then lo_of valid else hi_of valid)
      in map (\<lambda>v. case v of None \<Rightarrow> worst | Some x \<Rightarrow> x) raw)"

definition add_column :: "result_set \<Rightarrow> pystr \<times> rat \<Rightarrow> rat list \<Rightarrow> rat list" where
  "add_column rs mw scores = map2 (\<lambda>s n. fadd s (fmul (b64 (snd mw)) n)) scores
     (normalized (direction_of (fst mw)) (clean_column (fst mw) rs))"

definition composite_scores :: "(pystr, rat) dict \<Rightarrow> result_set \<Rightarrow> rat list" where
  "composite_scores weights rs = foldl (\<lambda>sc mw. add_column rs mw sc) (replicate (length rs) 0) weights"

definition composite_score :: "(pystr, rat) dict \<Rightarrow> result_set \<Rightarrow> ranked_entry list" where
  "composite_score weights rs =
     (let done' = completed rs in
      if done' = [] \<or> weights = [] then map (\<lambda>(i, r). \<lparr>re_rank = i + 1, re_result = r, re_value = Some 0\<rparr>) (enumerate 0 done')
      else (let pairs = zip done' (composite_scores weights done');
                ordered = sort_key (\<lambda>(r, x). RankKey False (- x) (sc_id (rs_scenario r))) pairs
            in map (\<lambda>(i, (r, x)). \<lparr>re_rank = i + 1, re_result = r, re_value = Some x\<rparr>) (enumerate 0 ordered)))"

section \<open>Stores that keep the last value under a key\<close>

text \<open>The contract of a store that replaces: the strategy registry and the in-memory sources have it.\<close>

locale replacing_store =
  fixes put :: "'k \<Rightarrow> 'v \<Rightarrow> 's \<Rightarrow> 's"
    and find :: "'s \<Rightarrow> 'k \<Rightarrow> 'v result"
  assumes find_put: "find (put k v s) k' = (if k' = k then Inr v else find s k')"
begin

definition put_all :: "('k \<times> 'v) list \<Rightarrow> 's \<Rightarrow> 's" where
  "put_all kvs s = foldl (\<lambda>s (k, v). put k v s) s kvs"

lemma find_put_all:
  "find (put_all kvs s) k = (case map_of (rev kvs) k of Some v \<Rightarrow> Inr v | None \<Rightarrow> find s k)"
proof (induction kvs rule: rev_induct)
  case (snoc kv kvs)
  obtain k' v where "kv = (k', v)" by (cases kv)
  with snoc show ?case by (simp add: put_all_def find_put)
qed (simp add: put_all_def)

lemma put_twice: "find (put k v (put k w s)) k' = find (put k v s) k'"
  by (simp add: find_put)

end

definition put_factory :: "pystr \<Rightarrow> (kwargs \<Rightarrow> strategy result) \<Rightarrow> strategy_registry \<Rightarrow> strategy_registry" where
  "put_factory n f r = r\<lparr>sr_factories := dset n f (sr_factories r)\<rparr>"

lemma registry_get_dset: "registry_get (dset k v d) k' = (if k' = k then Inr v else registry_get d k')"
  by (simp add: registry_get_def dget_dset)

interpretation strats: replacing_store put_factory "\<lambda>r. registry_get (sr_factories r)"
  by unfold_locales (simp add: put_factory_def registry_get_dset)

interpretation bricks: replacing_store "\<lambda>k v. dset k v" "registry_get :: brick_store \<Rightarrow> source_key \<Rightarrow> seen_brick list result"
  by unfold_locales (rule registry_get_dset)

lemma normalize_name_iff: "normalize_name s = Inr n \<longleftrightarrow> n = str_strip s \<and> n \<noteq> []"
  by (auto simp: normalize_name_def Let_def)

lemma dropWhile_idem: "dropWhile P (dropWhile P xs) = dropWhile P xs"
  by (induction xs) auto

lemma str_strip_idem [simp]: "str_strip (str_strip s) = str_strip s"
proof -
  let ?t = "dropWhile is_space s"
  have "dropWhile is_space (rev (dropWhile is_space (rev ?t))) = rev (dropWhile is_space (rev ?t))"
  proof (cases "?t = []")
    case False
    then have h: "\<not> is_space (hd ?t)" by (rule hd_dropWhile)
    show ?thesis
    proof (cases "dropWhile is_space (rev ?t) = []")
      case False
      then obtain a b where ab: "rev ?t = a @ b" "b = dropWhile is_space (rev ?t)" "b \<noteq> []"
        by (metis takeWhile_dropWhile_id)
      then have "?t = rev b @ rev a" by (metis rev_append rev_rev_ident)
      then have "hd (rev b) = hd ?t" using ab(3) by simp
      with h ab show ?thesis by (metis dropWhile_eq_self_iff)
    next
      case True
      show ?thesis unfolding True by simp
    qed
  next
    case True
    show ?thesis unfolding True by simp
  qed
  then show ?thesis by (simp add: str_strip_def dropWhile_idem)
qed

lemma strategy_factory_register:
  assumes "register_strategy name f r = Inr r'"
  shows "strategy_factory r' s = (if str_strip s = str_strip name then Inr f else strategy_factory r s)"
proof -
  have "r' = put_factory (str_strip name) f r" "str_strip name \<noteq> []"
    using assms by (auto simp: register_strategy_def rbind_Inr_iff normalize_name_iff put_factory_def)
  then show ?thesis
    using strats.find_put [of "str_strip name" f r "str_strip s"]
    by (auto simp: strategy_factory_def normalize_name_def Let_def)
qed

lemma strategy_factory_classes [simp]: "strategy_factory (r\<lparr>sr_classes := x\<rparr>) s = strategy_factory r s"
  by (simp add: strategy_factory_def)

text \<open>A class is found under its name with its own factory, a later registration replaces an earlier one,
  and the names are those of the four classes.\<close>

lemma builtin_registry:
  "\<exists>r. build_registry [] = Inr r \<and> strategy_names r = [''ema_crossover'', ''ema_trend'', ''pdh_pdl_breakout'', ''renko_trend''] \<and>
     create_strategy r (class_name c) kw = instantiate c kw"
proof -
  have n: "normalize_name (class_name d) = Inr (class_name d)" for d
    by (cases d) (simp_all add: normalize_name_def str_strip_def is_space_def Let_def)
  have clash: "instantiate c kw = Inl TypeError" if "''self'' \<in> set (dkeys kw) \<or> ''name'' \<in> set (dkeys kw)"
    using that by (cases c) (auto simp: instantiate_def)
  show ?thesis
    by (cases c; cases "''self'' \<in> set (dkeys kw) \<or> ''name'' \<in> set (dkeys kw)")
      (use clash in \<open>simp_all add: build_registry_def register_builtin_def register_class_def register_strategy_def n
        n [of EmaCrossoverClass, simplified] n [of EmaTrendClass, simplified] n [of PdhBreakoutClass, simplified] n [of RenkoTrendClass, simplified]
        new_strategy_registry_def strategy_names_def create_strategy_def strategy_factory_def registry_get_def less_char_def\<close>)
qed

text \<open>Merging takes every registration of the other registry and keeps the rest.\<close>

lemma merge_names_factory:
  assumes "merge_names ns q r = Inr r'"
  shows "strategy_factory r' s = (if str_strip s \<in> str_strip ` set ns then strategy_factory q s else strategy_factory r s)"
  using assms
proof (induction ns arbitrary: r)
  case (Cons n ns)
  then obtain f r1 where f: "strategy_factory q n = Inr f" "register_strategy n f r = Inr r1" "merge_names ns q r1 = Inr r'"
    by (auto simp: rbind_Inr_iff)
  have "strategy_factory q s = strategy_factory q n" if "str_strip s = str_strip n"
    using that by (simp add: strategy_factory_def normalize_name_def Let_def)
  then show ?case using Cons.IH [OF f(3)] strategy_factory_register [OF f(2), of s] f(1) by auto
qed simp

lemma merge_registry_factory:
  assumes "merge_registry q r = Inr r'" "list_all (\<lambda>n. str_strip n = n) (dkeys (sr_factories q))"
  shows "strategy_factory r' s = (if strategy_exists q s = Inr True then strategy_factory q s else strategy_factory r s)"
proof -
  obtain r1 where r1: "merge_names (strategy_names q) q r = Inr r1" "r' = r1\<lparr>sr_classes := dupdate (sr_classes r1) (sr_classes q)\<rparr>"
    using assms(1) by (auto simp: merge_registry_def rbind_Inr_iff)
  have "str_strip ` set (strategy_names q) = set (dkeys (sr_factories q))"
    using assms(2) by (force simp: strategy_names_def list_all_iff image_iff)
  then show ?thesis
    using merge_names_factory [OF r1(1), of s] r1(2)
    by (cases "str_strip s = []")
      (auto simp: strategy_exists_def normalize_name_def registry_exists_def dget_None_iff Let_def strategy_factory_def)
qed

section \<open>Expansion\<close>

lemma keep_new_spec:
  "distinct (map key (keep_new key p S xs))"
  "key ` set (keep_new key p S xs) = key ` {x \<in> set xs. p x} - S"
  "subseq (keep_new key p S xs) (filter p xs)"
  by (induction xs arbitrary: S) (auto intro: subseq_Cons')

lemma keep_new_set: "set (keep_new key p S xs) \<subseteq> set xs"
  by (induction xs arbitrary: S) auto

text \<open>The matrix lists, in the order of its axes, one scenario for each id that an accepted
  combination of the axes has, and no id twice.\<close>

theorem matrix_covers_axes:
  "distinct (map sc_id (scenarios digest m)) \<and>
   set (map sc_id (scenarios digest m)) = sc_id ` set (filter (passes m) (all_scenarios digest m)) \<and>
   subseq (scenarios digest m) (filter (passes m) (all_scenarios digest m))"
  by (simp add: scenarios_def keep_new_spec)

lemma sorted_items_keys: "map fst (sorted_items d) = sort (dkeys d)"
proof -
  have "mset (map fst (sorted_items d)) = mset (dkeys d)" by (simp add: sorted_items_def)
  then show ?thesis by (metis sorted_items_def sorted_sort_key properties_for_sort)
qed

lemma dupdate_new: "distinct (dkeys d @ dkeys e) \<Longrightarrow> dupdate d e = d @ e"
proof (induction e arbitrary: d)
  case (Cons kv e)
  obtain k v where kv: "kv = (k, v)" by (cases kv)
  have "dset k v d = d @ [(k, v)]" using Cons.prems by (intro dset_new) (auto simp: kv dget_None_iff)
  moreover have "dupdate (d @ [(k, v)]) e = (d @ [(k, v)]) @ e" using Cons.prems by (intro Cons.IH) (auto simp: kv)
  ultimately show ?case by (simp add: dupdate_def kv)
qed (simp add: dupdate_def)

lemma make_dict_distinct: "distinct (dkeys d) \<Longrightarrow> make_dict d = d"
  using dupdate_new [of "[]" d] by (simp add: make_dict_def)

lemma make_dict_zip:
  "distinct ks \<Longrightarrow> length vs = length ks \<Longrightarrow> make_dict (zip ks vs) = zip ks vs"
  by (intro make_dict_distinct) simp

text \<open>A grid expands to exactly the assignments that give every name one of its values.\<close>

lemma sorted_items_wf: "wf_dict d \<Longrightarrow> distinct (map fst (sorted_items d))"
  by (simp add: sorted_items_keys wf_dict_def)

lemma expand_grid_items:
  assumes "wf_dict grid"
  shows "expand_grid grid = map (zip (sort (dkeys grid))) (product_lists (map snd (sorted_items grid)))"
proof (cases "grid = []")
  case False
  have "make_dict (zip (map fst (sorted_items grid)) vs) = zip (sort (dkeys grid)) vs"
    if "vs \<in> set (product_lists (map snd (sorted_items grid)))" for vs
    using in_set_product_lists_length [OF that] make_dict_zip [OF sorted_items_wf [OF assms], of vs]
    unfolding sorted_items_keys [symmetric] by simp
  then show ?thesis using False by (simp add: expand_grid_def Let_def)
qed (simp add: expand_grid_def sorted_items_def)

lemma expand_grid_set:
  assumes "wf_dict grid"
  shows "kw \<in> set (expand_grid grid) \<longleftrightarrow>
    list_all2 (\<lambda>(k, v) (l, vs). k = l \<and> v \<in> set vs) kw (sorted_items grid)"
proof -
  let ?ks = "map fst (sorted_items grid)" and ?vs = "map snd (sorted_items grid)"
  have "kw \<in> set (expand_grid grid) \<longleftrightarrow> (\<exists>ws. kw = zip ?ks ws \<and> list_all2 (\<lambda>x ys. x \<in> set ys) ws ?vs)"
    by (auto simp: expand_grid_items [OF assms] product_lists_set sorted_items_keys)
  also have "\<dots> \<longleftrightarrow> list_all2 (\<lambda>(k, v) (l, vs). k = l \<and> v \<in> set vs) kw (sorted_items grid)"
    (is "_ \<longleftrightarrow> list_all2 ?R kw _")
  proof
    assume "\<exists>ws. kw = zip ?ks ws \<and> list_all2 (\<lambda>x ys. x \<in> set ys) ws ?vs"
    then show "list_all2 ?R kw (sorted_items grid)"
      by (auto simp: list_all2_conv_all_nth split: prod.splits)
  next
    assume a: "list_all2 ?R kw (sorted_items grid)"
    then have "map fst kw = ?ks" "list_all2 (\<lambda>x ys. x \<in> set ys) (map snd kw) ?vs"
      by (auto simp: list_all2_conv_all_nth case_prod_beta intro: nth_equalityI)
    then show "\<exists>ws. kw = zip ?ks ws \<and> list_all2 (\<lambda>x ys. x \<in> set ys) ws ?vs"
      by (metis zip_map_fst_snd)
  qed
  finally show ?thesis .
qed

lemma length_product_lists: "length (product_lists xss) = prod_list (map length xss)"
  by (induction xss) (simp_all add: length_concat o_def sum_list_triv)

lemma expand_grid_length:
  assumes "wf_dict grid"
  shows "length (expand_grid grid) = prod_list (map length (dvals grid))"
proof -
  have "mset (map (length \<circ> snd) (sorted_items grid)) = mset (map (length \<circ> snd) grid)" by (simp add: sorted_items_def)
  then have "prod_list (map (length \<circ> snd) (sorted_items grid)) = prod_list (map (length \<circ> snd) grid)"
    by (metis prod_mset_prod_list)
  then show ?thesis by (simp add: expand_grid_items [OF assms] length_product_lists o_def)
qed

section \<open>Batches\<close>

text \<open>What a source must promise for a batch to be reproducible: bricks once handed out for a key stay
  the bricks of that key.\<close>

locale brick_source =
  fixes get :: "'s \<Rightarrow> source_key \<Rightarrow> 's \<times> seen_brick list result"
    and holds :: "'s \<Rightarrow> source_key \<Rightarrow> seen_brick list \<Rightarrow> bool"
  assumes get_holds: "get s k = (s', Inr bs) \<Longrightarrow> holds s' k bs"
    and holds_get: "holds s k bs \<Longrightarrow> snd (get s k) = Inr bs"
    and holds_keep: "holds s k bs \<Longrightarrow> holds (fst (get s k')) k bs"
begin

lemma holds_feed: "holds s k bs \<Longrightarrow> holds (feed get s ks) k bs"
  by (rule feed_invariant) (auto intro: holds_keep)

lemma handed_out_stays: "get s k = (s', Inr bs) \<Longrightarrow> snd (get (feed get s' ks) k) = Inr bs"
  by (blast intro: holds_get holds_feed get_holds)

end

interpretation stored: brick_source store_get "\<lambda>st k bs. dget st k = Some bs"
  by unfold_locales (auto simp: store_get_def registry_get_def split: option.splits)

interpretation cached: brick_source "cache_get loader" "\<lambda>c k bs. dget (ca_cache c) k = Some bs"
  by unfold_locales (auto simp: cache_get_def dget_dset Let_def split: option.splits sum.splits if_splits)

text \<open>The caching source hands out the bricks it loaded first for a key from then on, whatever its
  loader would answer later and whatever else is requested in between.\<close>

theorem cached_bricks_stay:
  assumes "cache_get loader c k = (c', Inr bs)"
  shows "cache_get loader (feed (cache_get loader) c' ks) k = (feed (cache_get loader) c' ks, Inr bs)"
proof -
  have "dget (ca_cache (feed (cache_get loader) c' ks)) k = Some bs"
    by (rule cached.holds_feed [OF cached.get_holds [OF assms]])
  then show ?thesis by (simp add: cache_get_def)
qed

text \<open>The number of loads of keys that load without error is the number of keys in the cache.\<close>

lemma cache_loads_step:
  assumes "\<And>n k. \<exists>bs. loader n k = Inr bs" "ca_loads c = length (ca_cache c)"
  shows "ca_loads (fst (cache_get loader c k)) = length (ca_cache (fst (cache_get loader c k)))"
proof -
  obtain bs where "loader (ca_loads c + 1) k = Inr bs" using assms(1) by blast
  then show ?thesis using assms(2) by (auto simp: cache_get_def dset_new split: option.split)
qed

lemma cache_loads_once:
  assumes "\<And>n k. \<exists>bs. loader n k = Inr bs"
  shows "ca_loads (feed (cache_get loader) new_cache ks) = length (ca_cache (feed (cache_get loader) new_cache ks))"
  by (rule feed_invariant) (auto simp: new_cache_def intro: cache_loads_step [OF assms])

lemma metrics_keys: "dkeys (metrics_from_performance m) = metric_keys"
  by (simp add: metrics_from_performance_def metric_keys_def)

lemma measure_backtest_keys: "measure_backtest sq rt bs t = Inr m \<Longrightarrow> dkeys m = metric_keys"
  by (auto simp: measure_backtest_def metrics_keys split: prod.splits sum.splits)

lemma scenario_metrics_keys: "scenario_metrics sq rt reg get src s = (src', Inr m) \<Longrightarrow> dkeys m = metric_keys"
  by (auto simp: scenario_metrics_def scenario_backtest_def rbind_Inr_iff Let_def split: sum.splits prod.splits
      dest!: measure_backtest_keys)

definition outcome_ok :: "scenario_result \<Rightarrow> bool" where
  "outcome_ok r \<longleftrightarrow> (case rs_status r of
       ScCompleted \<Rightarrow> rs_error r = None \<and> dkeys (rs_metrics r) = metric_keys
     | ScFailed \<Rightarrow> rs_error r \<noteq> None \<and> rs_metrics r = []
     | _ \<Rightarrow> False)"

lemma run_one_ok: "run_one sq rt reg get clock i src s = (src', r) \<Longrightarrow> rs_scenario r = s \<and> outcome_ok r"
  by (auto simp: run_one_def scenario_outcome_def outcome_ok_def split: prod.splits sum.splits dest: scenario_metrics_keys)

text \<open>A batch answers every scenario, in order, whatever fails: each result is of its scenario and either
  completed with all metrics or failed with its error and none.\<close>

theorem batch_answers_every_scenario:
  "map rs_scenario (snd (run_scenarios sq rt reg get clock i src ss)) = ss \<and>
   list_all outcome_ok (snd (run_scenarios sq rt reg get clock i src ss))"
proof (induction ss arbitrary: i src)
  case (Cons s ss)
  obtain src1 r where r: "run_one sq rt reg get clock i src s = (src1, r)" by fastforce
  obtain src2 rs where rs: "run_scenarios sq rt reg get clock (i + 1) src1 ss = (src2, rs)" by fastforce
  with Cons.IH [of "i + 1" src1] r run_one_ok [OF r] show ?case by simp
qed simp

text \<open>Scenarios over the in-memory source do not influence one another.\<close>

lemma store_batch_is_isolated:
  "run_scenarios sq rt reg store_get clock i st ss =
     (st, map (\<lambda>(j, s). snd (run_one sq rt reg store_get clock j st s)) (enumerate i ss))"
proof (induction ss arbitrary: i)
  case (Cons s ss)
  have "fst (run_one sq rt reg store_get clock i st s) = st"
    by (auto simp: run_one_def scenario_metrics_def store_get_def split: sum.splits)
  with Cons [of "Suc i"] show ?case by (auto simp: split: prod.splits)
qed simp

definition costs_ok :: "risk_settings \<Rightarrow> bool" where
  "costs_ok r \<longleftrightarrow> (rk_brokerage r \<in> {''fixed'', ''percentage'', ''per_share''} \<longrightarrow> 0 \<le> rk_brokerage_value r) \<and>
     (rk_slippage r \<in> {''fixed'', ''percentage''} \<longrightarrow> 0 \<le> rk_slippage_value r)"

lemma build_costs_iff: "(\<exists>sl. build_slippage r = Inr sl) \<and> (\<exists>br. build_brokerage r = Inr br) \<longleftrightarrow> costs_ok r"
  by (auto simp: build_slippage_def build_brokerage_def costs_ok_def Let_def new_fixed_slippage_def new_percentage_slippage_def
      new_fixed_brokerage_def new_percentage_brokerage_def new_per_share_brokerage_def)

lemma new_backtest_iff: "(\<exists>t. new_backtest s capital a sl br fraction fixed leverage force rules = Inr t) \<longleftrightarrow> 0 < capital \<and> 0 < leverage"
  by (auto simp: new_backtest_def new_portfolio_def)

lemma measure_backtest_ok:
  assumes "new_backtest s capital a sl br fraction fixed leverage force rules = Inr t"
  shows "\<exists>m. measure_backtest sq rt bs t = Inr m"
  using bt_run_ok [OF assms, of bs] by (auto simp: measure_backtest_def)

lemma scenario_backtest_iff:
  "(\<exists>m. scenario_backtest sq rt st s bs = Inr m) \<longleftrightarrow> costs_ok (sc_risk s) \<and> 0 < rk_capital (sc_risk s) \<and> 0 < rk_leverage (sc_risk s)"
proof -
  have "(\<exists>m. scenario_backtest sq rt st s bs = Inr m) \<longleftrightarrow>
     (\<exists>sl br t. build_slippage (sc_risk s) = Inr sl \<and> build_brokerage (sc_risk s) = Inr br \<and>
        new_backtest st (rk_capital (sc_risk s)) (Some (scenario_attribution s)) sl br (rk_fraction (sc_risk s)) (rk_fixed (sc_risk s))
          (rk_leverage (sc_risk s)) True [] = Inr t)"
    by (auto simp: scenario_backtest_def rbind_Inr_iff Let_def dest: measure_backtest_ok [of _ _ _ _ _ _ _ _ _ _ _ sq rt bs])
  then show ?thesis using build_costs_iff [of "sc_risk s"] new_backtest_iff by blast
qed

text \<open>C27: A scenario completes exactly if its strategy can be created from its parameters, its bricks are
  found, its costs are not negative and its capital and leverage are positive: the backtest itself never fails.\<close>

theorem scenario_completes_iff:
  "rs_completed (snd (run_one sq rt reg get clock i src s)) \<longleftrightarrow>
     (\<exists>st. create_strategy reg (sc_strategy s) (make_dict (sc_params s)) = Inr st) \<and>
     (\<exists>bs. snd (get src (scenario_key s)) = Inr bs) \<and>
     costs_ok (sc_risk s) \<and> 0 < rk_capital (sc_risk s) \<and> 0 < rk_leverage (sc_risk s)"
proof -
  have "rs_completed (snd (run_one sq rt reg get clock i src s)) \<longleftrightarrow> (\<exists>m. snd (scenario_metrics sq rt reg get src s) = Inr m)"
    by (auto simp: run_one_def scenario_outcome_def rs_completed_def split: prod.splits sum.splits)
  also have "\<dots> \<longleftrightarrow> (\<exists>st bs m. create_strategy reg (sc_strategy s) (make_dict (sc_params s)) = Inr st \<and>
      snd (get src (scenario_key s)) = Inr bs \<and> scenario_backtest sq rt st s bs = Inr m)"
    by (auto simp: scenario_metrics_def rbind_Inr_iff case_prod_beta split: sum.splits)
  finally show ?thesis using scenario_backtest_iff [of sq rt _ s] by blast
qed

definition demo_cache :: brick_cache where
  "demo_cache = fst (cache_get (\<lambda>n k. Inr (replicate n (demo_brick UP 100 1))) new_cache (make_key ''A'' ''d'' default_brick_spec (None, None)))"

lemma cached_bricks_stay_witness:
  "cache_get (\<lambda>n k. Inr (replicate n (demo_brick UP 100 1))) demo_cache (make_key ''A'' ''d'' default_brick_spec (None, None)) =
     (demo_cache, Inr [demo_brick UP 100 1])"
proof -
  let ?k = "make_key ''A'' ''d'' default_brick_spec (None, None)" and ?l = "\<lambda>n k. Inr (replicate n (demo_brick UP 100 1))"
  have "cache_get ?l new_cache ?k = (demo_cache, Inr [demo_brick UP 100 1])"
    by (simp add: demo_cache_def cache_get_def new_cache_def Let_def)
  from cached_bricks_stay [OF this, of "[]"] show ?thesis by simp
qed

section \<open>Rankings\<close>

definition ranked_before :: "bool \<Rightarrow> ranked_entry \<Rightarrow> ranked_entry \<Rightarrow> bool" where
  "ranked_before higher a b \<longleftrightarrow> (case (re_value a, re_value b) of
       (Some x, Some y) \<Rightarrow> if x = y then sc_id (rs_scenario (re_result a)) \<le> sc_id (rs_scenario (re_result b))
         else (y < x \<longleftrightarrow> higher)
     | (None, None) \<Rightarrow> sc_id (rs_scenario (re_result a)) \<le> sc_id (rs_scenario (re_result b))
     | (Some _, None) \<Rightarrow> True
     | (None, Some _) \<Rightarrow> False)"

lemma sort_value_le:
  "sort_value h metric r \<le> sort_value h metric q \<Longrightarrow>
     ranked_before h \<lparr>re_rank = i, re_result = r, re_value = rs_metric metric r\<rparr> \<lparr>re_rank = j, re_result = q, re_value = rs_metric metric q\<rparr>"
  by (auto simp: sort_value_def ranked_before_def split: option.splits if_splits)

lemma sorted_wrt_key: "sorted_wrt (\<lambda>x y. f x \<le> f y) (sort_key f xs)"
  using sorted_sort_key [of f xs] by (simp add: sorted_wrt_map)

text \<open>C28: A ranking lists exactly the completed results, numbered from one, better values first, undefined
  values last and equal ones by the id of their scenario.\<close>

theorem ranking_is_ordered:
  "let e = rank_by metric higher rs in map re_rank e = [1..<Suc (length (completed rs))] \<and>
    mset (map re_result e) = mset (completed rs) \<and>
    map re_value e = map (rs_metric metric \<circ> re_result) e \<and>
    sorted_wrt (ranked_before (case higher of Some b \<Rightarrow> b | None \<Rightarrow> 0 \<le> direction_of metric)) e"
proof -
  define e where "e = rank_by metric higher rs"
  define h where "h = (case higher of Some b \<Rightarrow> b | None \<Rightarrow> 0 \<le> direction_of metric)"
  define rs' where "rs' = sort_key (sort_value h metric) (completed rs)"
  have e: "e = map (\<lambda>(i, r). \<lparr>re_rank = i + 1, re_result = r, re_value = rs_metric metric r\<rparr>) (enumerate 0 rs')"
    by (simp add: e_def rank_by_def h_def rs'_def)
  have "map re_rank e = map Suc (map fst (enumerate 0 rs'))"
    by (simp add: e o_def case_prod_beta del: map_fst_enumerate)
  then have "map re_rank e = map Suc [0..<length (completed rs)]" by (simp only: map_fst_enumerate) (simp add: rs'_def)
  moreover have "map re_result e = map snd (enumerate 0 rs')"
    by (simp add: e o_def case_prod_beta del: map_snd_enumerate)
  then have "mset (map re_result e) = mset (completed rs)" by (simp only: map_snd_enumerate) (simp add: rs'_def)
  moreover have "sorted_wrt (ranked_before h) e"
    using sorted_wrt_key [of "sort_value h metric" "completed rs"]
    by (auto simp: e rs'_def [symmetric] sorted_wrt_iff_nth_less nth_enumerate_eq intro: sort_value_le)
  moreover have "map re_value e = map (rs_metric metric \<circ> re_result) e" by (simp add: e o_def case_prod_beta)
  ultimately show ?thesis by (simp add: h_def rs'_def map_Suc_upt e_def Let_def)
qed

lemma normalized_unit:
  assumes "n \<in> set (normalized d vs)"
  shows "0 \<le> n \<and> n \<le> 1"
proof -
  let ?lo = "lo_of vs" and ?span = "fsub (hi_of vs) (lo_of vs)"
  have b: "?lo \<le> v" "v \<le> hi_of vs" if "v \<in> set vs" for v using that by (simp_all add: lo_of_def hi_of_def)
  have u: "0 \<le> fdiv (fsub v ?lo) ?span \<and> fdiv (fsub v ?lo) ?span \<le> 1" if v: "v \<in> set vs" "?span \<noteq> 0" for v
  proof -
    have 0: "0 \<le> fsub v ?lo" using b [OF v(1)] by (simp add: fsub_def b64.rnd_nonneg)
    have 1: "fsub v ?lo \<le> ?span" using b [OF v(1)] by (simp add: fsub_def b64.rnd_mono)
    have "0 < ?span" using 0 1 v(2) by linarith
    then have "0 \<le> fsub v ?lo / ?span" "fsub v ?lo / ?span \<le> 1" using 0 1 by (simp_all add: field_simps)
    then show ?thesis unfolding fdiv_def using b64.rnd_nonneg b64.rnd_le [of 1] by fastforce
  qed
  have c: "0 \<le> fsub 1 x \<and> fsub 1 x \<le> 1" if "0 \<le> x" "x \<le> 1" for x
    using that b64.rnd_le [of 1 "1 - x"] by (auto simp: fsub_def b64.rnd_nonneg)
  show ?thesis using assms u c by (auto simp: normalized_def Let_def split: if_splits)
qed

definition total_weight :: "(pystr, rat) dict \<Rightarrow> rat" where
  "total_weight weights = foldl (\<lambda>b mw. fadd b (b64 (snd mw))) 0 weights"

lemma weighted_step:
  assumes "0 \<le> s" "s \<le> b" "0 \<le> w" "0 \<le> n" "n \<le> 1"
  shows "0 \<le> fadd s (fmul (b64 w) n) \<and> fadd s (fmul (b64 w) n) \<le> fadd b (b64 w)"
proof -
  have w: "0 \<le> b64 w" using assms(3) by (rule b64.rnd_nonneg)
  have "b64 w * n \<le> b64 w" using assms(5) w by (rule mult_left_le)
  then have "fmul (b64 w) n \<le> b64 w" unfolding fmul_def by (rule b64.rnd_le [rotated]) (simp add: b64.rnd_idem)
  then have "s + fmul (b64 w) n \<le> b + b64 w" using assms(2) by simp
  moreover have "0 \<le> fmul (b64 w) n" using w assms(4) by (rule fmul_nonneg)
  ultimately show ?thesis using assms(1) by (simp add: fadd_def b64.rnd_mono b64.rnd_nonneg)
qed

lemma add_column_bounds:
  assumes "list_all (\<lambda>s. 0 \<le> s \<and> s \<le> b) scores" "0 \<le> snd mw"
  shows "list_all (\<lambda>s. 0 \<le> s \<and> s \<le> fadd b (b64 (snd mw))) (add_column rs mw scores)"
proof -
  have "0 \<le> x \<and> x \<le> fadd b (b64 (snd mw))" if x: "x \<in> set (add_column rs mw scores)" for x
  proof -
    obtain s n where "(s, n) \<in> set (zip scores (normalized (direction_of (fst mw)) (clean_column (fst mw) rs)))"
      "x = fadd s (fmul (b64 (snd mw)) n)"
      using x by (auto simp: add_column_def)
    with assms show ?thesis
      using normalized_unit weighted_step unfolding list_all_iff by (metis set_zip_leftD set_zip_rightD)
  qed
  then show ?thesis by (simp add: list_all_iff)
qed

lemma composite_scores_bounds:
  assumes "list_all (\<lambda>mw. 0 \<le> snd mw) weights"
  shows "list_all (\<lambda>s. 0 \<le> s \<and> s \<le> total_weight weights) (composite_scores weights rs)"
  using assms
proof (induction weights rule: rev_induct)
  case Nil
  show ?case by (simp add: composite_scores_def total_weight_def list_all_iff)
next
  case (snoc mw weights)
  then show ?case by (simp add: composite_scores_def total_weight_def add_column_bounds)
qed

text \<open>With weights that are not negative every composite score lies between zero and the total weight.\<close>

theorem composite_score_bounded:
  assumes "list_all (\<lambda>(m, w). 0 \<le> w) weights"
  shows "list_all (\<lambda>e. case re_value e of Some x \<Rightarrow> 0 \<le> x \<and> x \<le> total_weight weights | None \<Rightarrow> False) (composite_score weights rs)"
proof -
  have w: "list_all (\<lambda>mw. 0 \<le> snd mw) weights" using assms by (simp add: case_prod_beta')
  have b: "list_all (\<lambda>s. 0 \<le> s \<and> s \<le> total_weight weights) (composite_scores weights (completed rs))"
    by (rule composite_scores_bounds [OF w])
  have t: "0 \<le> total_weight weights"
    using w by (induction weights rule: rev_induct) (auto simp: total_weight_def fadd_nonneg b64.rnd_nonneg)
  show ?thesis using b t
    by (auto simp: composite_score_def Let_def list_all_iff enumerate_eq_zip dest!: set_zip_leftD set_zip_rightD)
qed

definition demo_scenario :: scenario where
  "demo_scenario = create_scenario (\<lambda>s. sc_symbol s) ''renko_trend'' [] default_brick_spec ''A'' ''d'' (None, None)
     default_risk_settings default_market_info"

definition demo_result :: "rat \<Rightarrow> rat \<Rightarrow> scenario_result" where
  "demo_result p d = scenario_outcome demo_scenario (Inr [(''net_profit'', Some p), (''max_drawdown'', Some d)]) 0"

lemma composite_score_bounded_witness:
  "list_all (\<lambda>e. case re_value e of Some x \<Rightarrow> 0 \<le> x \<and> x \<le> total_weight [(''net_profit'', 1), (''max_drawdown'', 2)] | None \<Rightarrow> False)
     (composite_score [(''net_profit'', 1), (''max_drawdown'', 2)] [demo_result 5 2, demo_result 7 3])"
  by (rule composite_score_bounded) simp

end
