(* ===== verification/Money.thy ===== *)
theory Money imports Scenarios begin

text \<open>
  The value objects of analytics (\<open>analytics/domain/value_objects.py\<close>). A decimal is the rational it
  denotes; every operation rounds to the 28 digits of the default context (\<open>d28\<close>), and an amount of money
  is quantised to cents. A percentage is its decimal fraction. The square root of the decimal module is the
  parameter \<open>rt\<close>. A validation error is a \<open>ValueError\<close>; quantising a number of more than 28 digits raises
  \<open>InvalidOperation\<close>.
\<close>

section \<open>Decimals\<close>

definition d28 :: "rat \<Rightarrow> rat" where
  "d28 x = fl 10 28 x"

definition half_up :: "rat \<Rightarrow> int" where
  "half_up x = (if 0 \<le> x then \<lfloor>x + 1 / 2\<rfloor> else - \<lfloor>1 / 2 - x\<rfloor>)"

definition quantize_cents :: "(rat \<Rightarrow> int) \<Rightarrow> rat \<Rightarrow> rat result" where
  "quantize_cents rnd x = (let n = rnd (x * 100) in if 10 ^ 28 \<le> \<bar>n\<bar> then Inl InvalidOperation else Inr (of_int n / 100))"

section \<open>Money\<close>

record money =
  my_amount :: rat
  my_currency :: pystr

definition is_alpha :: "char \<Rightarrow> bool" where
  "is_alpha c \<longleftrightarrow> (let n = of_char c :: nat in 65 \<le> n \<and> n \<le> 90 \<or> 97 \<le> n \<and> n \<le> 122)"

definition new_money :: "rat \<Rightarrow> pystr \<Rightarrow> money result" where
  "new_money x cur = rbind (quantize_cents half_up x) (\<lambda>a. let c = str_upper (str_strip cur) in
     if length c \<noteq> 3 \<or> \<not> list_all is_alpha c then Inl ValueError else Inr \<lparr>my_amount = a, my_currency = c\<rparr>)"

definition zero_money :: "pystr \<Rightarrow> money result" where
  "zero_money cur = new_money 0 cur"

definition same_currency :: "money \<Rightarrow> money \<Rightarrow> unit result" where
  "same_currency a b = require (my_currency a = my_currency b) ValueError"

definition money_add :: "money \<Rightarrow> money \<Rightarrow> money result" where
  "money_add a b = rbind (same_currency a b) (\<lambda>_. new_money (d28 (my_amount a + my_amount b)) (my_currency a))"

definition money_sub :: "money \<Rightarrow> money \<Rightarrow> money result" where
  "money_sub a b = rbind (same_currency a b) (\<lambda>_. new_money (d28 (my_amount a - my_amount b)) (my_currency a))"

text \<open>The scalar is the decimal the argument is turned into.\<close>

definition money_mul :: "money \<Rightarrow> rat \<Rightarrow> money result" where
  "money_mul a x = new_money (d28 (my_amount a * x)) (my_currency a)"

definition money_div :: "money \<Rightarrow> rat \<Rightarrow> money result" where
  "money_div a x = (if x = 0 then Inl ValueError else new_money (d28 (my_amount a / x)) (my_currency a))"

definition money_neg :: "money \<Rightarrow> money result" where
  "money_neg a = new_money (- my_amount a) (my_currency a)"

definition money_abs :: "money \<Rightarrow> money result" where
  "money_abs a = new_money \<bar>my_amount a\<bar> (my_currency a)"

definition money_lt :: "money \<Rightarrow> money \<Rightarrow> bool result" where
  "money_lt a b = rbind (same_currency a b) (\<lambda>_. Inr (my_amount a < my_amount b))"

definition money_le :: "money \<Rightarrow> money \<Rightarrow> bool result" where
  "money_le a b = rbind (same_currency a b) (\<lambda>_. Inr (my_amount a \<le> my_amount b))"

definition is_zero_money :: "money \<Rightarrow> bool" where "is_zero_money a \<longleftrightarrow> my_amount a = 0"
definition is_positive_money :: "money \<Rightarrow> bool" where "is_positive_money a \<longleftrightarrow> 0 < my_amount a"
definition is_negative_money :: "money \<Rightarrow> bool" where "is_negative_money a \<longleftrightarrow> my_amount a < 0"

section \<open>Percentages\<close>

type_synonym percentage = rat

definition pct_from_fraction :: "rat \<Rightarrow> rat \<Rightarrow> percentage result" where
  "pct_from_fraction n d = (if d = 0 then Inl ValueError else Inr (d28 (n / d)))"

definition pct_from_percent :: "rat \<Rightarrow> percentage" where
  "pct_from_percent p = d28 (p / 100)"

text \<open>Here quantising uses the rounding of the context, half to even.\<close>

definition to_percent :: "percentage \<Rightarrow> rat result" where
  "to_percent p = quantize_cents rne (d28 (p * 100))"

definition pct_add :: "percentage \<Rightarrow> percentage \<Rightarrow> percentage" where "pct_add p q = d28 (p + q)"
definition pct_sub :: "percentage \<Rightarrow> percentage \<Rightarrow> percentage" where "pct_sub p q = d28 (p - q)"
definition pct_neg :: "percentage \<Rightarrow> percentage" where "pct_neg p = d28 (- p)"
definition pct_abs :: "percentage \<Rightarrow> percentage" where "pct_abs p = d28 \<bar>p\<bar>"

section \<open>Curves and series\<close>

record a_point =
  ap_time :: time
  ap_equity :: money
  ap_realized :: money
  ap_unrealized :: money

definition new_a_point :: "time \<Rightarrow> money \<Rightarrow> money \<Rightarrow> money \<Rightarrow> a_point result" where
  "new_a_point t e r u = (if my_currency r \<noteq> my_currency e \<or> my_currency u \<noteq> my_currency e then Inl ValueError
     else Inr \<lparr>ap_time = t, ap_equity = e, ap_realized = r, ap_unrealized = u\<rparr>)"

definition ap_total :: "a_point \<Rightarrow> money result" where
  "ap_total p = money_add (ap_realized p) (ap_unrealized p)"

record dd_point =
  dp_time :: time
  dp_drawdown :: percentage
  dp_peak :: money
  dp_current :: money
  dp_peak_time :: time

definition new_dd_point :: "time \<Rightarrow> percentage \<Rightarrow> money \<Rightarrow> money \<Rightarrow> time \<Rightarrow> dd_point result" where
  "new_dd_point t d peak cur pt =
     (if 0 < d then Inl ValueError
      else if t < pt then Inl ValueError
      else if my_currency peak \<noteq> my_currency cur then Inl ValueError
      else rbind (money_lt peak cur) (\<lambda>above. if above then Inl ValueError
        else Inr \<lparr>dp_time = t, dp_drawdown = d, dp_peak = peak, dp_current = cur, dp_peak_time = pt\<rparr>))"

definition dp_amount :: "dd_point \<Rightarrow> money result" where
  "dp_amount p = money_sub (dp_peak p) (dp_current p)"

definition dp_days :: "dd_point \<Rightarrow> int" where
  "dp_days p = (dp_time p - dp_peak_time p) div 86400000000"

datatype return_period = Daily | Weekly | Monthly | Annual

record return_series =
  rn_period :: return_period
  rn_returns :: "percentage list"
  rn_start :: time
  rn_end :: time

definition new_return_series :: "return_period \<Rightarrow> percentage list \<Rightarrow> time \<Rightarrow> time \<Rightarrow> return_series result" where
  "new_return_series p rs s e = (if e < s then Inl ValueError else Inr \<lparr>rn_period = p, rn_returns = rs, rn_start = s, rn_end = e\<rparr>)"

definition decimal_sum :: "rat list \<Rightarrow> rat" where
  "decimal_sum xs = foldl (\<lambda>a x. d28 (a + x)) 0 xs"

definition rn_mean :: "return_series \<Rightarrow> percentage" where
  "rn_mean s = (if rn_returns s = [] then 0 else d28 (decimal_sum (rn_returns s) / of_nat (length (rn_returns s))))"

definition rn_std :: "(rat \<Rightarrow> rat) \<Rightarrow> return_series \<Rightarrow> percentage" where
  "rn_std rt s = (let xs = rn_returns s; m = rn_mean s in if length xs < 2 then 0
     else rt (d28 (decimal_sum (map (\<lambda>x. d28 ((d28 (x - m))\<^sup>2)) xs) / of_nat (length xs - 1))))"

definition rn_cumulative :: "return_series \<Rightarrow> percentage" where
  "rn_cumulative s = (if rn_returns s = [] then 0
     else d28 (foldl (\<lambda>c x. d28 (c * d28 (1 + x))) 1 (rn_returns s) - 1))"

definition rn_positive :: "return_series \<Rightarrow> percentage list" where "rn_positive s = filter (\<lambda>x. 0 < x) (rn_returns s)"
definition rn_negative :: "return_series \<Rightarrow> percentage list" where "rn_negative s = filter (\<lambda>x. x < 0) (rn_returns s)"

fun periods_per_year :: "return_period \<Rightarrow> int" where
  "periods_per_year Daily = 252"
| "periods_per_year Weekly = 52"
| "periods_per_year Monthly = 12"
| "periods_per_year Annual = 1"

text \<open>Value at risk and expected shortfall are validated alike.\<close>

record value_at_risk =
  vr_value :: percentage
  vr_level :: percentage
  vr_days :: int

definition new_value_at_risk :: "percentage \<Rightarrow> percentage \<Rightarrow> int \<Rightarrow> value_at_risk result" where
  "new_value_at_risk v l n =
     (if l \<le> 0 \<or> 1 \<le> l then Inl ValueError else if 0 < v then Inl ValueError else if n \<le> 0 then Inl ValueError
      else Inr \<lparr>vr_value = v, vr_level = l, vr_days = n\<rparr>)"

definition vr_loss :: "value_at_risk \<Rightarrow> percentage" where
  "vr_loss v = \<bar>vr_value v\<bar>"

section \<open>Metric groups\<close>

record return_metrics =
  tm_total :: percentage
  tm_daily :: percentage
  tm_weekly :: percentage
  tm_monthly :: percentage
  tm_annual :: percentage
  tm_cagr :: percentage
  tm_roi :: percentage

record risk_metrics =
  km_sharpe :: rat
  km_sortino :: rat
  km_calmar :: rat
  km_treynor :: "rat option"
  km_information :: "rat option"
  km_max_drawdown :: percentage
  km_avg_drawdown :: percentage
  km_duration :: int
  km_volatility :: percentage
  km_beta :: "rat option"
  km_alpha :: "percentage option"
  km_ulcer :: percentage
  km_mar :: rat
  km_var :: "value_at_risk option"
  km_cvar :: "value_at_risk option"

definition check_risk_metrics :: "risk_metrics \<Rightarrow> risk_metrics result" where
  "check_risk_metrics m =
     (if 0 < km_max_drawdown m \<or> 0 < km_avg_drawdown m \<or> km_duration m < 0 \<or> km_volatility m < 0 \<or> km_ulcer m < 0
      then Inl ValueError else Inr m)"

record trade_metrics =
  xm_profit_factor :: rat
  xm_recovery :: rat
  xm_payoff :: rat
  xm_expectancy :: money
  xm_win_rate :: percentage
  xm_loss_rate :: percentage
  xm_gross_profit :: money
  xm_gross_loss :: money
  xm_net :: money
  xm_realized :: money
  xm_unrealized :: money
  xm_avg_win :: money
  xm_avg_loss :: money
  xm_largest_win :: money
  xm_largest_loss :: money
  xm_wins_run :: int
  xm_losses_run :: int
  xm_max_wins_run :: int
  xm_max_losses_run :: int
  xm_holding :: rat
  xm_exposure :: percentage
  xm_count :: int
  xm_long :: int
  xm_short :: int
  xm_commission :: money
  xm_slippage :: money

definition counts_ok :: "trade_metrics \<Rightarrow> bool" where
  "counts_ok m \<longleftrightarrow> 0 \<le> xm_count m \<and> 0 \<le> xm_long m \<and> 0 \<le> xm_short m \<and> xm_long m + xm_short m = xm_count m"

definition currencies_ok :: "trade_metrics \<Rightarrow> bool" where
  "currencies_ok m \<longleftrightarrow> list_all (\<lambda>x. my_currency x = my_currency (xm_expectancy m))
     [xm_gross_profit m, xm_gross_loss m, xm_net m, xm_realized m, xm_unrealized m, xm_avg_win m, xm_avg_loss m,
      xm_largest_win m, xm_largest_loss m, xm_commission m, xm_slippage m]"

definition pnl_signs_ok :: "trade_metrics \<Rightarrow> bool" where
  "pnl_signs_ok m \<longleftrightarrow> \<not> is_negative_money (xm_gross_profit m) \<and> \<not> is_positive_money (xm_gross_loss m) \<and>
     \<not> is_negative_money (xm_avg_win m) \<and> \<not> is_positive_money (xm_avg_loss m) \<and>
     \<not> is_negative_money (xm_largest_win m) \<and> \<not> is_positive_money (xm_largest_loss m) \<and>
     \<not> is_negative_money (xm_commission m) \<and> \<not> is_negative_money (xm_slippage m)"

definition check_pnl :: "trade_metrics \<Rightarrow> unit result" where
  "check_pnl m = rbind (money_add (xm_gross_profit m) (xm_gross_loss m)) (\<lambda>a. rbind (money_sub a (xm_commission m)) (\<lambda>b.
     rbind (money_sub b (xm_slippage m)) (\<lambda>net.
       require (d28 \<bar>d28 (my_amount net - my_amount (xm_net m))\<bar> \<le> 1 / 100) ValueError)))"

definition rates_ok :: "trade_metrics \<Rightarrow> bool" where
  "rates_ok m \<longleftrightarrow> 0 \<le> xm_win_rate m \<and> 0 \<le> xm_loss_rate m \<and> 0 \<le> xm_exposure m \<and> xm_win_rate m \<le> 1 \<and> xm_loss_rate m \<le> 1 \<and>
     d28 (xm_win_rate m + xm_loss_rate m) \<le> 1"

definition streaks_ok :: "trade_metrics \<Rightarrow> bool" where
  "streaks_ok m \<longleftrightarrow> 0 \<le> xm_wins_run m \<and> 0 \<le> xm_losses_run m \<and> xm_wins_run m \<le> xm_max_wins_run m \<and> xm_losses_run m \<le> xm_max_losses_run m"

definition check_trade_metrics :: "trade_metrics \<Rightarrow> trade_metrics result" where
  "check_trade_metrics m =
     (if \<not> counts_ok m then Inl ValueError
      else if \<not> currencies_ok m then Inl ValueError
      else if \<not> pnl_signs_ok m then Inl ValueError
      else rbind (check_pnl m) (\<lambda>_.
        if \<not> rates_ok m then Inl ValueError
        else if \<not> streaks_ok m then Inl ValueError
        else if xm_holding m < 0 then Inl ValueError
        else Inr m))"

definition xm_costs :: "trade_metrics \<Rightarrow> money result" where
  "xm_costs m = money_add (xm_commission m) (xm_slippage m)"

record perf_snapshot =
  ps_time :: time
  ps_returns :: return_metrics
  ps_risk :: risk_metrics
  ps_trades :: trade_metrics

definition ps_profitable :: "perf_snapshot \<Rightarrow> bool" where
  "ps_profitable s \<longleftrightarrow> is_positive_money (xm_net (ps_trades s))"

definition ps_in_drawdown :: "perf_snapshot \<Rightarrow> bool" where
  "ps_in_drawdown s \<longleftrightarrow> km_max_drawdown (ps_risk s) < 0"

end
