(* ===== verification/ResearchMetrics.thy ===== *)
theory ResearchMetrics imports Scenarios begin

text \<open>
  The measuring part of the research engine (\<open>trading/backtesting/research\<close>): institutional metrics
  (\<open>metrics.py\<close>), the Monte Carlo simulation of trade sequences (\<open>monte_carlo.py\<close>) and the portfolio
  optimiser (\<open>portfolio_optimizer.py\<close>). The square, square root and power of the C library are the
  parameters \<open>sq\<close>, \<open>rt\<close> and \<open>pw\<close>; a power of a negative base, which Python makes complex, is outside
  the model. The random generator is the sequence of its draws: \<open>rb k n\<close> is the \<open>k\<close>-th one, below \<open>n\<close>.
\<close>

section \<open>Statistics\<close>

definition r_mean :: "rat list \<Rightarrow> rat" where
  "r_mean xs = (if xs \<noteq> [] then fdiv (py_sum xs) (of_nat (length xs)) else 0)"

definition r_std :: "(rat \<Rightarrow> rat) \<Rightarrow> (rat \<Rightarrow> rat) \<Rightarrow> bool \<Rightarrow> rat list \<Rightarrow> rat" where
  "r_std sq rt sample xs = (if length xs < 2 then 0
     else (let m = r_mean xs; d = (if sample then length xs - 1 else length xs)
           in rt (fdiv (py_sum (map (\<lambda>x. sq (fsub x m)) xs)) (of_nat d))))"

definition safe_div :: "rat \<Rightarrow> rat \<Rightarrow> rat" where
  "safe_div a b = (if b = 0 then 0 else fdiv a b)"

definition equity_values :: "(time \<times> rat) list \<Rightarrow> rat list" where
  "equity_values curve = map (b64 \<circ> snd) curve"

definition returns_from_equity :: "(time \<times> rat) list \<Rightarrow> rat list" where
  "returns_from_equity curve = (let vs = equity_values curve in
     List.map_filter (\<lambda>(p, c). if p \<noteq> 0 then Some (fdiv (fsub c p) p) else None) (zip vs (tl vs)))"

fun drawdowns_from :: "rat \<Rightarrow> rat list \<Rightarrow> rat list" where
  "drawdowns_from peak [] = []"
| "drawdowns_from peak (v # vs) = (let p = max peak v in (if p = 0 then 0 else fdiv (fsub v p) p) # drawdowns_from p vs)"

definition drawdown_series :: "rat list \<Rightarrow> rat list" where
  "drawdown_series vs = (case vs of [] \<Rightarrow> [] | v # _ \<Rightarrow> drawdowns_from v vs)"

record drawdown =
  dw_peak :: rat
  dw_amount :: rat
  dw_pct :: rat
  dw_current :: nat
  dw_longest :: nat

definition drawdown_next :: "drawdown \<Rightarrow> rat \<Rightarrow> drawdown" where
  "drawdown_next d v =
     (if dw_peak d \<le> v then d\<lparr>dw_peak := v, dw_current := 0\<rparr>
      else (let a = fsub (dw_peak d) v; pct = (if dw_peak d \<noteq> 0 then fdiv a (dw_peak d) else 0); n = dw_current d + 1;
                d1 = (if dw_amount d < a then d\<lparr>dw_amount := a, dw_pct := pct\<rparr> else d)
            in d1\<lparr>dw_current := n, dw_longest := max (dw_longest d) n\<rparr>))"

definition research_drawdown :: "rat list \<Rightarrow> rat \<times> rat \<times> nat" where
  "research_drawdown vs = (case vs of [] \<Rightarrow> (0, 0, 0) | v # _ \<Rightarrow>
     (let d = foldl drawdown_next \<lparr>dw_peak = v, dw_amount = 0, dw_pct = 0, dw_current = 0, dw_longest = 0\<rparr> vs
      in (dw_amount d, dw_pct d, dw_longest d)))"

definition percentile :: "rat list \<Rightarrow> rat \<Rightarrow> rat" where
  "percentile vs q = (if vs = [] then 0
     else (let s = sort vs in
       if length s = 1 then s ! 0
       else (let x = fmul (of_nat (length s - 1)) q; l = nat \<lfloor>x\<rfloor>; u = nat \<lceil>x\<rceil> in
         if l = u then s ! l
         else (let w = fsub x (of_nat l) in fadd (fmul (s ! l) (fsub 1 w)) (fmul (s ! u) w)))))"

definition rolling :: "rat list \<Rightarrow> int \<Rightarrow> (rat list \<Rightarrow> rat) \<Rightarrow> (nat \<times> rat) list result" where
  "rolling vs window f = (if window \<le> 0 then Inl ValueError
     else (let w = nat window in
       if length vs < w then Inr [] else Inr (map (\<lambda>i. (i, f (take w (drop (i - w) vs)))) [w..<length vs + 1])))"

section \<open>Institutional metrics\<close>

text \<open>Without losing returns the omega ratio is infinite as soon as there is a winning one.\<close>

datatype ratio = Finite rat | Infinite

record institutional =
  im_sharpe :: rat
  im_sortino :: rat
  im_calmar :: rat
  im_omega :: ratio
  im_mar :: rat
  im_ulcer :: rat
  im_profit_factor :: "rat option"
  im_expectancy :: rat
  im_sqn :: rat
  im_alpha :: "rat option"
  im_beta :: "rat option"
  im_tracking :: "rat option"
  im_information :: "rat option"
  im_treynor :: "rat option"
  im_var :: rat
  im_cvar :: rat
  im_exposure :: rat
  im_recovery :: rat
  im_drawdown :: rat
  im_drawdown_pct :: rat
  im_duration :: nat
  im_rolling_cagr :: "(nat \<times> rat) list"
  im_rolling_sharpe :: "(nat \<times> rat) list"
  im_rolling_volatility :: "(nat \<times> rat) list"

record benchmark_metrics =
  bm_alpha :: "rat option"
  bm_beta :: "rat option"
  bm_tracking :: "rat option"
  bm_information :: "rat option"
  bm_treynor :: "rat option"

definition no_benchmark :: benchmark_metrics where
  "no_benchmark = \<lparr>bm_alpha = None, bm_beta = None, bm_tracking = None, bm_information = None, bm_treynor = None\<rparr>"

definition compare_benchmark :: "(rat \<Rightarrow> rat) \<Rightarrow> (rat \<Rightarrow> rat) \<Rightarrow> rat \<Rightarrow> rat \<Rightarrow> rat list \<Rightarrow> rat list \<Rightarrow> benchmark_metrics" where
  "compare_benchmark sq rt periods annual returns bench =
     (let n = min (length returns) (length bench) in
      if bench = [] \<or> n \<le> 1 then no_benchmark
      else (let asset = take n returns; bs = take n bench; bm = r_mean bs; am = r_mean asset; d = of_nat (n - 1);
                variance = fdiv (py_sum (map (\<lambda>v. sq (fsub v bm)) bs)) d;
                covariance = fdiv (py_sum (map2 (\<lambda>a b. fmul (fsub a am) (fsub b bm)) asset bs)) d;
                beta = (if variance \<noteq> 0 then fdiv covariance variance else 0);
                active = map2 fsub asset bs; tracking = fmul (r_std sq rt True active) (rt periods)
            in \<lparr>bm_alpha = Some (fmul (fsub am (fmul beta bm)) periods), bm_beta = Some beta, bm_tracking = Some tracking,
                bm_information = Some (safe_div (fmul (r_mean active) periods) tracking),
                bm_treynor = (if beta \<noteq> 0 then Some (safe_div annual beta) else None)\<rparr>))"

definition omega_ratio :: "rat list \<Rightarrow> ratio" where
  "omega_ratio returns = (let gains = filter (\<lambda>v. 0 < v) returns; losses = map uminus (filter (\<lambda>v. v < 0) returns) in
     if losses \<noteq> [] then Finite (safe_div (py_sum gains) (py_sum losses)) else if gains \<noteq> [] then Infinite else Finite 0)"

definition compute_institutional :: "(rat \<Rightarrow> rat) \<Rightarrow> (rat \<Rightarrow> rat) \<Rightarrow> (rat \<Rightarrow> rat \<Rightarrow> rat) \<Rightarrow> (time \<times> rat) list \<Rightarrow> trade list
    \<Rightarrow> rat \<Rightarrow> rat list \<Rightarrow> int \<Rightarrow> int \<Rightarrow> institutional result" where
  "compute_institutional sq rt pw curve trades capital bench periods window =
     (if capital \<le> 0 then Inl ValueError
      else if periods \<le> 0 then Inl ValueError
      else
       (let ppy = of_int periods; vs = equity_values curve; rets = returns_from_equity curve;
            end' = (if vs \<noteq> [] then last vs else capital); total = safe_div (fsub end' capital) capital;
            annual = (if rets \<noteq> [] then fsub (pw (fadd 1 total) (safe_div ppy (of_nat (max (length rets) 1)))) 1 else 0);
            mean = r_mean rets; down = map (min 0) rets; dd = research_drawdown vs; series = drawdown_series vs;
            nets = map (b64 \<circ> tr_net) trades; wins = filter (\<lambda>v. 0 < v) nets; losses = filter (\<lambda>v. v < 0) nets;
            gross_loss = \<bar>py_sum losses\<bar>; expectancy = r_mean nets;
            bm = compare_benchmark sq rt ppy annual rets bench;
            var = (if rets \<noteq> [] then percentile rets (b64 (5 / 100)) else 0); tail = filter (\<lambda>v. v \<le> var) rets;
            roll = (\<lambda>f. if rets \<noteq> [] then rolling rets window f else Inr [])
        in rbind (roll (\<lambda>ws. fsub (pw (fadd 1 (py_sum ws)) (safe_div ppy (of_nat (length ws)))) 1)) (\<lambda>cagr.
           rbind (roll (\<lambda>ws. fmul (safe_div (r_mean ws) (r_std sq rt True ws)) (rt ppy))) (\<lambda>sharpes.
           rbind (roll (\<lambda>ws. fmul (r_std sq rt True ws) (rt ppy))) (\<lambda>vols.
             Inr \<lparr>im_sharpe = (if rets \<noteq> [] then fmul (safe_div mean (r_std sq rt True rets)) (rt ppy) else 0),
               im_sortino = (if down \<noteq> [] then fmul (safe_div mean (r_std sq rt True down)) (rt ppy) else 0),
               im_calmar = safe_div annual (fst (snd dd)), im_omega = omega_ratio rets, im_mar = safe_div annual (fst (snd dd)),
               im_ulcer = (if series \<noteq> [] then rt (r_mean (map (\<lambda>v. fmul v v) series)) else 0),
               im_profit_factor = (if gross_loss = 0 then None else Some (fdiv (py_sum wins) gross_loss)),
               im_expectancy = expectancy,
               im_sqn = (if nets \<noteq> [] then fmul (rt (of_nat (length nets))) (safe_div expectancy (r_std sq rt True nets)) else 0),
               im_alpha = bm_alpha bm, im_beta = bm_beta bm, im_tracking = bm_tracking bm, im_information = bm_information bm,
               im_treynor = bm_treynor bm, im_var = var, im_cvar = (if tail \<noteq> [] then r_mean tail else var),
               im_exposure = (if vs \<noteq> [] then b64 (of_nat (length (filter (\<lambda>v. v \<noteq> capital) vs)) / of_nat (length vs)) else 0),
               im_recovery = safe_div (fsub end' capital) (fst dd), im_drawdown = fst dd, im_drawdown_pct = fst (snd dd),
               im_duration = snd (snd dd), im_rolling_cagr = cagr, im_rolling_sharpe = sharpes, im_rolling_volatility = vols\<rparr>)))))"

definition institutional_mapping :: "institutional \<Rightarrow> (pystr, ratio option) dict" where
  "institutional_mapping m = (let f = (\<lambda>x. Some (Finite x)); g = map_option Finite in
     [(''sharpe'', f (im_sharpe m)), (''sortino'', f (im_sortino m)), (''calmar'', f (im_calmar m)), (''omega'', Some (im_omega m)),
      (''mar'', f (im_mar m)), (''ulcer_index'', f (im_ulcer m)), (''profit_factor'', g (im_profit_factor m)),
      (''expectancy'', f (im_expectancy m)), (''sqn'', f (im_sqn m)), (''alpha'', g (im_alpha m)), (''beta'', g (im_beta m)),
      (''tracking_error'', g (im_tracking m)), (''information_ratio'', g (im_information m)), (''treynor'', g (im_treynor m)),
      (''var'', f (im_var m)), (''cvar'', f (im_cvar m)), (''exposure'', f (im_exposure m)), (''recovery_factor'', f (im_recovery m)),
      (''max_drawdown'', f (im_drawdown m)), (''max_drawdown_pct'', f (im_drawdown_pct m)),
      (''drawdown_duration'', f (of_nat (im_duration m)))])"

section \<open>Monte Carlo simulation\<close>

datatype mc_method = RandomTradeOrder | Bootstrap

record mc_config =
  mc_iterations :: int
  mc_method :: mc_method
  mc_seed :: int
  mc_start :: rat
  mc_ruin :: rat
  mc_levels :: "rat list"

definition default_mc_config :: mc_config where
  "default_mc_config = \<lparr>mc_iterations = 1000, mc_method = RandomTradeOrder, mc_seed = 42, mc_start = 100000, mc_ruin = b64 (7 / 10),
     mc_levels = [b64 (5 / 100), 1 / 2, b64 (95 / 100)]\<rparr>"

definition new_mc_config :: "mc_config \<Rightarrow> mc_config result" where
  "new_mc_config c =
     (if mc_iterations c \<le> 0 then Inl ValueError
      else if mc_start c \<le> 0 then Inl ValueError
      else if \<not> (0 < mc_ruin c \<and> mc_ruin c < 1) then Inl ValueError
      else if \<exists>l\<in>set (mc_levels c). l \<le> 0 \<or> 1 \<le> l then Inl ValueError
      else Inr c)"

record mc_path =
  mp_index :: nat
  mp_ending :: rat
  mp_drawdown :: rat
  mp_drawdown_pct :: rat
  mp_ruined :: bool

record mc_result =
  mr_config :: mc_config
  mr_paths :: "mc_path list"
  mr_confidence :: "(pystr, rat) dict"
  mr_ruin :: rat
  mr_drawdowns :: "rat list"

text \<open>\<open>random.shuffle\<close>: from the last place down, each place is exchanged with a drawn one not above it.\<close>

fun shuffle_down :: "(nat \<Rightarrow> nat \<Rightarrow> nat) \<Rightarrow> nat \<Rightarrow> nat \<Rightarrow> 'a list \<Rightarrow> nat \<times> 'a list" where
  "shuffle_down rb k 0 xs = (k, xs)"
| "shuffle_down rb k (Suc i) xs = (let j = rb k (i + 2) in shuffle_down rb (k + 1) i (xs[j := xs ! Suc i, Suc i := xs ! j]))"

fun draw_choices :: "(nat \<Rightarrow> nat \<Rightarrow> nat) \<Rightarrow> nat \<Rightarrow> nat \<Rightarrow> 'a list \<Rightarrow> nat \<times> 'a list" where
  "draw_choices rb k 0 xs = (k, [])"
| "draw_choices rb k (Suc n) xs = (let (k', ys) = draw_choices rb (k + 1) n xs in (k', xs ! rb k (length xs) # ys))"

definition sample_trades :: "(nat \<Rightarrow> nat \<Rightarrow> nat) \<Rightarrow> nat \<Rightarrow> mc_method \<Rightarrow> rat list \<Rightarrow> nat \<times> rat list" where
  "sample_trades rb k m pnls = (if pnls = [] then (k, [])
     else case m of Bootstrap \<Rightarrow> draw_choices rb k (length pnls) pnls | RandomTradeOrder \<Rightarrow> shuffle_down rb k (length pnls - 1) pnls)"

fun curve_from :: "rat \<Rightarrow> rat list \<Rightarrow> rat list" where
  "curve_from e [] = [e]"
| "curve_from e (p # ps) = e # curve_from (fadd e p) ps"

definition simulate_path :: "mc_config \<Rightarrow> nat \<Rightarrow> rat list \<Rightarrow> mc_path" where
  "simulate_path c i sampled = (let curve = curve_from (mc_start c) sampled; dd = research_drawdown curve in
     \<lparr>mp_index = i, mp_ending = (if curve \<noteq> [] then last curve else mc_start c), mp_drawdown = fst dd, mp_drawdown_pct = fst (snd dd),
      mp_ruined = list_ex (\<lambda>v. v \<le> fmul (mc_start c) (mc_ruin c)) curve\<rparr>)"

fun simulate_paths :: "(nat \<Rightarrow> nat \<Rightarrow> nat) \<Rightarrow> mc_config \<Rightarrow> rat list \<Rightarrow> nat \<Rightarrow> nat \<Rightarrow> nat \<Rightarrow> mc_path list" where
  "simulate_paths rb c pnls 0 i k = []"
| "simulate_paths rb c pnls (Suc n) i k =
     (let (k', sampled) = sample_trades rb k (mc_method c) pnls in simulate_path c i sampled # simulate_paths rb c pnls n (i + 1) k')"

definition level_name :: "rat \<Rightarrow> pystr" where
  "level_name l = ''p'' @ str_int (py_trunc (fmul l 100))"

definition simulate_trades :: "(nat \<Rightarrow> nat \<Rightarrow> nat) \<Rightarrow> trade list \<Rightarrow> mc_config \<Rightarrow> mc_result" where
  "simulate_trades rb trades c =
     (let paths = simulate_paths rb c (map (b64 \<circ> tr_net) trades) (nat (mc_iterations c)) 0 0; ends = map mp_ending paths in
      \<lparr>mr_config = c, mr_paths = paths, mr_confidence = make_dict (map (\<lambda>l. (level_name l, percentile ends l)) (sort (mc_levels c))),
       mr_ruin = (if paths \<noteq> [] then b64 (of_nat (length (filter mp_ruined paths)) / of_nat (length paths)) else 0),
       mr_drawdowns = map mp_drawdown_pct paths\<rparr>)"

section \<open>Portfolio optimisation\<close>

datatype pf_method = EqualWeight | RiskParity | MaximumSharpe | MinimumVariance

record allocation =
  al_name :: pystr
  al_weight :: rat
  al_capital :: rat

definition new_allocation :: "pystr \<Rightarrow> rat \<Rightarrow> rat \<Rightarrow> allocation result" where
  "new_allocation name w c = (if name = [] then Inl ValueError else if w < 0 then Inl ValueError
     else Inr \<lparr>al_name = name, al_weight = w, al_capital = c\<rparr>)"

record optimized =
  op_method :: pf_method
  op_allocations :: "allocation list"
  op_return :: rat
  op_volatility :: rat
  op_sharpe :: rat
  op_correlation :: "(pystr, (pystr, rat) dict) dict"

definition normalize_weights :: "(pystr, rat) dict \<Rightarrow> (pystr, rat) dict" where
  "normalize_weights ws = (let total = py_sum (map (\<lambda>(n, v). max 0 v) ws) in
     if total \<le> 0 then map (\<lambda>(n, v). (n, fdiv 1 (of_nat (length ws)))) ws
     else map (\<lambda>(n, v). (n, fdiv (max 0 v) total)) ws)"

definition correlation :: "(rat \<Rightarrow> rat) \<Rightarrow> (rat \<Rightarrow> rat) \<Rightarrow> rat list \<Rightarrow> rat list \<Rightarrow> rat" where
  "correlation sq rt left right =
     (let n = min (length left) (length right) in
      if n < 2 then 0
      else (let a = take n left; b = take n right; ma = r_mean a; mb = r_mean b; sa = r_std sq rt True a; sb = r_std sq rt True b in
        if sa = 0 \<or> sb = 0 then 0
        else fdiv (fdiv (py_sum (map2 (\<lambda>x y. fmul (fsub x ma) (fsub y mb)) a b)) (of_nat (n - 1))) (fmul sa sb)))"

definition tiny :: rat where "tiny = b64 (1 / 1000000000000)"

definition raw_weight :: "(rat \<Rightarrow> rat) \<Rightarrow> (rat \<Rightarrow> rat) \<Rightarrow> pf_method \<Rightarrow> rat list \<Rightarrow> rat" where
  "raw_weight sq rt m xs = (let vol = r_std sq rt True xs in case m of
       EqualWeight \<Rightarrow> 1
     | MinimumVariance \<Rightarrow> fdiv 1 (max (sq vol) tiny)
     | MaximumSharpe \<Rightarrow> fdiv (max 0 (r_mean xs)) (max (sq vol) tiny)
     | RiskParity \<Rightarrow> fdiv 1 (max vol tiny))"

fun allocate :: "rat \<Rightarrow> (pystr, rat) dict \<Rightarrow> allocation list result" where
  "allocate capital [] = Inr []"
| "allocate capital ((n, w) # ws) = rbind (new_allocation n w (fmul capital w)) (\<lambda>a. rbind (allocate capital ws) (\<lambda>as. Inr (a # as)))"

definition correlation_matrix :: "(rat \<Rightarrow> rat) \<Rightarrow> (rat \<Rightarrow> rat) \<Rightarrow> (pystr, rat list) dict \<Rightarrow> (pystr, (pystr, rat) dict) dict" where
  "correlation_matrix sq rt clean =
     map (\<lambda>(l, xs). (l, map (\<lambda>(r, ys). (r, if l = r then 1 else correlation sq rt xs ys)) clean)) clean"

definition portfolio_variance :: "(rat \<Rightarrow> rat) \<Rightarrow> (rat \<Rightarrow> rat) \<Rightarrow> (pystr, rat list) dict \<Rightarrow> (pystr, rat) dict \<Rightarrow> rat" where
  "portfolio_variance sq rt clean ws =
     (let cell = (\<lambda>(l, xs) (r, ys). fmul (fmul (fmul (fmul (the (dget ws l)) (the (dget ws r))) (r_std sq rt True xs)) (r_std sq rt True ys))
                (if l = r then 1 else correlation sq rt xs ys))
      in foldl (\<lambda>v lx. foldl (\<lambda>v ry. fadd v (cell lx ry)) v clean) 0 clean)"

definition optimize_portfolio :: "(rat \<Rightarrow> rat) \<Rightarrow> (rat \<Rightarrow> rat) \<Rightarrow> (pystr, rat list) dict \<Rightarrow> pf_method \<Rightarrow> rat \<Rightarrow> optimized result" where
  "optimize_portfolio sq rt returns m capital =
     (if capital \<le> 0 then Inl ValueError
      else (let clean = map (\<lambda>(n, xs). (n, map b64 xs)) (sorted_items returns) in
        if clean = [] then Inl ValueError
        else (let ws = normalize_weights (map (\<lambda>(n, xs). (n, raw_weight sq rt m xs)) clean) in
          rbind (allocate capital ws) (\<lambda>as.
            (let ret = py_sum (map (\<lambda>(n, xs). fmul (the (dget ws n)) (r_mean xs)) clean);
                 vol = rt (max 0 (portfolio_variance sq rt clean ws))
             in Inr \<lparr>op_method = m, op_allocations = as, op_return = ret, op_volatility = vol,
                  op_sharpe = (if vol \<noteq> 0 then fdiv ret vol else 0), op_correlation = correlation_matrix sq rt clean\<rparr>)))))"

definition total_allocation :: "optimized \<Rightarrow> rat" where
  "total_allocation r = py_sum (map al_weight (op_allocations r))"

section \<open>Drawdowns\<close>

text \<open>The state of the research loop and that of \<open>compute_metrics\<close> agree.\<close>

definition same_drawdown :: "drawdown \<Rightarrow> rat option \<times> rat \<times> rat \<Rightarrow> bool" where
  "same_drawdown d s \<longleftrightarrow> s = (Some (dw_peak d), dw_amount d, dw_pct d) \<and> 0 \<le> dw_amount d"

lemma drawdown_next_same: "same_drawdown d s \<Longrightarrow> same_drawdown (drawdown_next d v) (drawdown_step s v)"
  by (auto simp: same_drawdown_def drawdown_next_def drawdown_step_def fsub_def Let_def)

lemma drawdown_fold_same:
  "same_drawdown d s \<Longrightarrow> same_drawdown (foldl drawdown_next d vs) (foldl drawdown_step s vs)"
  by (induction vs arbitrary: d s) (simp_all add: drawdown_next_same)

lemma drawdown_duration:
  "dw_current (foldl drawdown_next d vs) \<le> dw_current d + length vs \<and>
   dw_longest (foldl drawdown_next d vs) \<le> max (dw_longest d) (dw_current d + length vs)"
proof (induction vs arbitrary: d)
  case (Cons v vs)
  from Cons [of "drawdown_next d v"] show ?case by (auto simp: drawdown_next_def Let_def split: if_splits)
qed simp

text \<open>The drawdown of the research metrics, amount and percentage, is that of the backtest metrics, and
  its duration is shorter than the curve.\<close>

theorem drawdowns_agree:
  "let (amount, pct, duration) = research_drawdown vs in max_drawdown vs = (amount, pct) \<and> duration \<le> length vs - 1"
proof (cases vs)
  case Nil
  then show ?thesis by (simp add: research_drawdown_def max_drawdown_def)
next
  case (Cons v us)
  let ?d = "\<lparr>dw_peak = v, dw_amount = 0, dw_pct = 0, dw_current = 0, dw_longest = 0\<rparr>"
  have 1: "drawdown_next ?d v = ?d" by (simp add: drawdown_next_def)
  have 2: "drawdown_step (None, 0, 0) v = (Some v, 0, 0)" by (simp add: drawdown_step_def fsub_def)
  have "same_drawdown (foldl drawdown_next ?d us) (foldl drawdown_step (Some v, 0, 0) us)"
    by (rule drawdown_fold_same) (simp add: same_drawdown_def)
  then show ?thesis
    using drawdown_duration [of ?d us] by (simp add: Cons research_drawdown_def max_drawdown_def 1 2 same_drawdown_def Let_def)
qed

section \<open>Samples\<close>

definition draws_below :: "(nat \<Rightarrow> nat \<Rightarrow> nat) \<Rightarrow> bool" where
  "draws_below rb \<longleftrightarrow> (\<forall>k n. 0 < n \<longrightarrow> rb k n < n)"

lemma shuffle_down_mset:
  assumes "draws_below rb"
  shows "i < length xs \<Longrightarrow> mset (snd (shuffle_down rb k i xs)) = mset xs"
proof (induction i arbitrary: k xs)
  case (Suc i)
  have "rb k (i + 2) < i + 2" using assms by (simp add: draws_below_def)
  then have "rb k (i + 2) < length xs" using Suc.prems by simp
  then show ?case using Suc by (simp add: Let_def mset_swap)
qed simp

lemma draw_choices_set:
  assumes "draws_below rb" "xs \<noteq> []"
  shows "length (snd (draw_choices rb k n xs)) = n \<and> set (snd (draw_choices rb k n xs)) \<subseteq> set xs"
proof (induction n arbitrary: k)
  case (Suc n)
  have "rb k (length xs) < length xs" using assms by (simp add: draws_below_def)
  with Suc [of "k + 1"] show ?case by (auto simp: case_prod_beta)
qed simp

lemma sample_shuffled:
  "draws_below rb \<Longrightarrow> mset (snd (sample_trades rb k RandomTradeOrder pnls)) = mset pnls"
  by (simp add: sample_trades_def shuffle_down_mset)

lemma sample_bootstrap:
  "draws_below rb \<Longrightarrow> length (snd (sample_trades rb k Bootstrap pnls)) = length pnls \<and> set (snd (sample_trades rb k Bootstrap pnls)) \<subseteq> set pnls"
  using draw_choices_set [of rb pnls k "length pnls"] by (cases "pnls = []") (simp_all add: sample_trades_def)

lemma curve_from_neq [simp]: "curve_from e ps \<noteq> []"
  by (cases ps) simp_all

lemma curve_from_length [simp]: "length (curve_from e ps) = length ps + 1"
  by (induction ps arbitrary: e) simp_all

lemma curve_from_whole:
  assumes "e \<in> \<int>" "\<forall>p\<in>set ps. p \<in> \<int>" "\<bar>e\<bar> + (\<Sum>p\<leftarrow>ps. \<bar>p\<bar>) \<le> 9007199254740992"
  shows "last (curve_from e ps) = e + sum_list ps"
  using assms
proof (induction ps arbitrary: e)
  case (Cons p ps)
  have n: "0 \<le> (\<Sum>p\<leftarrow>ps. \<bar>p\<bar>)" by (intro sum_list_nonneg) auto
  have "fadd e p = e + p" unfolding fadd_def using Cons.prems n by (intro b64_Ints) auto
  moreover have "last (curve_from (e + p) ps) = e + p + sum_list ps"
    using Cons.prems n by (intro Cons.IH) auto
  ultimately show ?case by simp
qed simp

lemma simulate_paths_all:
  assumes "\<And>i k. P (simulate_path c i (snd (sample_trades rb k (mc_method c) pnls)))"
  shows "list_all P (simulate_paths rb c pnls n i k)"
proof (induction n arbitrary: i k)
  case (Suc n)
  with assms [of i k] show ?case by (simp add: case_prod_beta)
qed simp

lemma simulate_paths_length [simp]: "length (simulate_paths rb c pnls n i k) = n"
  by (induction n arbitrary: i k) (simp_all add: case_prod_beta)

lemma whole_sum_mset:
  assumes "mset xs = mset ys"
  shows "sum_list xs = (sum_list ys :: rat)" "(\<Sum>x\<leftarrow>xs. \<bar>x\<bar>) = (\<Sum>y\<leftarrow>ys. \<bar>y\<bar>)" "set xs = set ys"
proof -
  show "sum_list xs = sum_list ys" using assms by (metis sum_mset_sum_list)
  show "(\<Sum>x\<leftarrow>xs. \<bar>x\<bar>) = (\<Sum>y\<leftarrow>ys. \<bar>y\<bar>)" using assms by (metis mset_map sum_mset_sum_list)
  show "set xs = set ys" using assms by (rule mset_eq_setD)
qed

text \<open>Reordering trades cannot change where a path ends: in the mode that shuffles the trades every
  path ends with the same equity (for whole results, which floats add without loss), so the confidence
  levels of the ending equity are taken over equal values.\<close>

theorem shuffled_paths_end_alike:
  assumes "draws_below rb" "mc_method c = RandomTradeOrder"
    and "mc_start c \<in> \<int>" "\<forall>t\<in>set trades. tr_net t \<in> \<int>"
    and "\<bar>mc_start c\<bar> + (\<Sum>t\<leftarrow>trades. \<bar>tr_net t\<bar>) \<le> 9007199254740992"
  shows "list_all (\<lambda>p. mp_ending p = mc_start c + (\<Sum>t\<leftarrow>trades. tr_net t)) (mr_paths (simulate_trades rb trades c))"
proof -
  have "\<bar>tr_net t\<bar> \<le> 9007199254740992" if "t \<in> set trades" for t
    using member_le_sum_list [of "\<bar>tr_net t\<bar>" "map (\<lambda>t. \<bar>tr_net t\<bar>) trades"] assms(5) that by fastforce
  then have b: "map (b64 \<circ> tr_net) trades = map tr_net trades" using assms(4) by (auto intro: b64_Ints)
  have "mp_ending (simulate_path c i s) = mc_start c + (\<Sum>t\<leftarrow>trades. tr_net t)" if s: "mset s = mset (map tr_net trades)" for i s
  proof -
    note m = whole_sum_mset [OF s]
    have "last (curve_from (mc_start c) s) = mc_start c + sum_list s"
      using assms(3-5) m by (intro curve_from_whole) (auto simp: o_def)
    then show ?thesis using m(1) by (simp add: simulate_path_def Let_def)
  qed
  then show ?thesis
    by (simp add: simulate_trades_def Let_def b simulate_paths_all sample_shuffled [OF assms(1)] assms(2))
qed

definition demo_pnl :: "rat \<Rightarrow> trade" where
  "demo_pnl x = demo_trade\<lparr>tr_net := x\<rparr>"

lemma shuffled_paths_end_alike_witness:
  "list_all (\<lambda>p. mp_ending p = 100020) (mr_paths (simulate_trades (\<lambda>k n. k mod n) [demo_pnl 30, demo_pnl (- 10)] default_mc_config))"
proof -
  have "list_all (\<lambda>p. mp_ending p = mc_start default_mc_config + (\<Sum>t\<leftarrow>[demo_pnl 30, demo_pnl (- 10)]. tr_net t))
    (mr_paths (simulate_trades (\<lambda>k n. k mod n) [demo_pnl 30, demo_pnl (- 10)] default_mc_config))"
    by (rule shuffled_paths_end_alike) (simp_all add: draws_below_def default_mc_config_def demo_pnl_def)
  then show ?thesis by (simp add: default_mc_config_def demo_pnl_def)
qed

section \<open>Allocations\<close>

lemma tiny_pos [simp]: "0 < tiny"
  unfolding tiny_def by (rule b64.rnd_pos) simp

lemma normalize_weights_keys [simp]: "dkeys (normalize_weights ws) = dkeys ws"
  by (simp add: normalize_weights_def Let_def o_def case_prod_beta)

lemma normalize_weights_nonneg: "(n, w) \<in> set (normalize_weights ws) \<Longrightarrow> 0 \<le> w"
  by (auto simp: normalize_weights_def Let_def fdiv_nonneg split: if_splits)

lemma sum_list_fdiv_near:
  assumes "\<forall>x\<in>set xs. 0 \<le> x" "0 < y"
  shows "\<bar>sum_list (map (\<lambda>x. fdiv x y) xs) - sum_list xs / y\<bar> \<le> b64_eps * (sum_list xs / y)"
  using assms
proof (induction xs)
  case (Cons x xs)
  have "\<bar>fdiv x y - x / y\<bar> \<le> b64_eps * (x / y)" using fdiv_near [of x y] Cons.prems by simp
  moreover have "\<bar>sum_list (map (\<lambda>x. fdiv x y) xs) - sum_list xs / y\<bar> \<le> b64_eps * (sum_list xs / y)" using Cons by simp
  ultimately show ?case by (simp add: add_divide_distrib distrib_left abs_le_iff)
qed simp

text \<open>Normalised weights add up to one, up to the rounding of the sum and of the quotients.\<close>

lemma normalize_weights_total:
  assumes "ws \<noteq> []" "length ws \<le> 1000000000"
  shows "\<bar>sum_list (dvals (normalize_weights ws)) - 1\<bar> \<le> 64 * of_nat (length ws + 1) * b64_eps"
proof -
  let ?n = "length ws" and ?vs = "map (\<lambda>(n, v). max 0 v) ws" and ?u = b64_eps
  have n: "(0 :: rat) < of_nat ?n" using assms(1) by simp
  show ?thesis
  proof (cases "py_sum ?vs \<le> 0")
    case True
    then have "dvals (normalize_weights ws) = map (\<lambda>x. fdiv x (of_nat ?n)) (replicate ?n 1)"
      by (simp add: normalize_weights_def Let_def map_replicate_const o_def case_prod_beta)
    then have "\<bar>sum_list (dvals (normalize_weights ws)) - sum_list (replicate ?n 1) / of_nat ?n\<bar> \<le> ?u * (sum_list (replicate ?n 1) / of_nat ?n)"
      using sum_list_fdiv_near [of "replicate ?n 1" "of_nat ?n"] n by simp
    then have "\<bar>sum_list (dvals (normalize_weights ws)) - 1\<bar> \<le> ?u" using n by (simp add: sum_list_replicate)
    moreover have "?u \<le> 64 * of_nat (?n + 1) * ?u" using eps_bounds(1) by (simp add: b64_eps_def)
    ultimately show ?thesis by linarith
  next
    case False
    define t where "t = py_sum ?vs"
    define s where "s = sum_list ?vs"
    define h where "h = 12 * of_nat (?n + 1) * ?u"
    have t: "0 < t" using False by (simp add: t_def)
    have v: "\<forall>x\<in>set ?vs. 0 \<le> x" by auto
    have s0: "0 \<le> s" unfolding s_def using v by (intro sum_list_nonneg) auto
    have ts: "\<bar>t - s\<bar> \<le> h * s" using py_sum_near [OF v] assms(2) by (simp add: t_def s_def h_def)
    have "of_nat ?n \<le> (1000000000 :: rat)" using assms(2) by (metis of_nat_le_iff of_nat_numeral)
    then have h: "0 \<le> h" "h \<le> 1 / 1000" by (simp_all add: h_def b64_eps_def)
    have hs: "h * s \<le> 1 / 1000 * s" using mult_right_mono [OF h(2) s0] .
    have "s \<le> 1001 / 1000 * s" using s0 by simp
    have le: "s \<le> 2 * t" using ts hs t by linarith
    have "h * s \<le> h * (2 * t)" using le h(1) by (intro mult_left_mono)
    then have st: "\<bar>s - t\<bar> \<le> 2 * h * t" using ts by linarith
    have q: "\<bar>s / t - 1\<bar> \<le> 2 * h" "0 \<le> s / t" "s / t \<le> 2"
    proof -
      have "s / t - 1 = (s - t) / t" using t by (simp add: diff_divide_distrib)
      then show "\<bar>s / t - 1\<bar> \<le> 2 * h" using st t by (simp add: divide_le_eq)
      show "0 \<le> s / t" "s / t \<le> 2" using s0 t le by (simp_all add: divide_le_eq)
    qed
    have "dvals (normalize_weights ws) = map (\<lambda>x. fdiv x t) ?vs"
      using False by (simp add: normalize_weights_def Let_def t_def o_def case_prod_beta)
    then have "\<bar>sum_list (dvals (normalize_weights ws)) - s / t\<bar> \<le> ?u * (s / t)"
      using sum_list_fdiv_near [OF v t] by (simp add: s_def)
    moreover have "?u * (s / t) \<le> ?u * 2" using q(3) eps_bounds(1) by (intro mult_left_mono) auto
    ultimately have "\<bar>sum_list (dvals (normalize_weights ws)) - 1\<bar> \<le> 2 * h + 2 * ?u" using q(1) by linarith
    moreover have "2 * ?u \<le> 2 * of_nat (?n + 1) * ?u" "0 \<le> of_nat (?n + 1) * ?u" by (simp_all add: b64_eps_def)
    ultimately show ?thesis unfolding h_def by linarith
  qed
qed

lemma allocate_ok:
  assumes "list_all (\<lambda>(n, w). n \<noteq> [] \<and> 0 \<le> w) ws"
  shows "\<exists>as. allocate capital ws = Inr as \<and> map al_name as = dkeys ws \<and> map al_weight as = dvals ws \<and>
    list_all (\<lambda>a. al_capital a = fmul capital (al_weight a)) as"
  using assms
proof (induction ws)
  case (Cons nw ws)
  obtain n w where nw: "nw = (n, w)" by (cases nw)
  with Cons obtain as where "allocate capital ws = Inr as" "map al_name as = dkeys ws" "map al_weight as = dvals ws"
    "list_all (\<lambda>a. al_capital a = fmul capital (al_weight a)) as" by auto
  then show ?case using Cons.prems by (simp add: nw new_allocation_def)
qed simp

lemma correlation_commute: "correlation sq rt xs ys = correlation sq rt ys xs"
proof -
  have "map2 (\<lambda>x y. fmul (fsub x ma) (fsub y mb)) a b = map2 (\<lambda>x y. fmul (fsub x mb) (fsub y ma)) b a" for ma mb a b
    by (simp add: zip_commute [of a b] fmul_def mult.commute case_prod_beta)
  moreover have "fmul a b = fmul b a" for a b by (simp add: fmul_def mult.commute)
  ultimately show ?thesis unfolding correlation_def Let_def by (simp add: min.commute disj_commute)
qed

definition symmetric_matrix :: "(pystr, (pystr, rat) dict) dict \<Rightarrow> bool" where
  "symmetric_matrix m \<longleftrightarrow> (\<forall>l r. (case (dget m l, dget m r) of (Some row, Some row') \<Rightarrow> dget row r = dget row' l | _ \<Rightarrow> True))"

lemma dget_map_val: "dget (map (\<lambda>(k, v). (k, f k v)) d) k = map_option (f k) (dget d k)"
  by (induction d) auto

lemma correlation_matrix_symmetric: "symmetric_matrix (correlation_matrix sq rt clean)"
  by (auto simp: symmetric_matrix_def correlation_matrix_def dget_map_val correlation_commute split: option.splits)

text \<open>C29: With positive capital and named return streams, at most a billion, the optimiser succeeds for every method: one allocation per
  stream in the order of the names, each with its share of the capital. The weight of a stream is the share its method
  gives it divided by the sum of all shares, or equal for all when no share is positive; so the weights are not negative
  and add up to one but for the rounding. The correlations are symmetric.\<close>

theorem allocations_are_valid:
  assumes "0 < capital" "returns \<noteq> []" "wf_dict returns" "\<forall>n\<in>set (dkeys returns). n \<noteq> []" "length returns \<le> 1000000000"
  shows "let names = sort (dkeys returns);
      samples = (\<lambda>n. map b64 (the (dget returns n)));
      vol = (\<lambda>n. r_std sq rt True (samples n));
      share = (\<lambda>n. case m of EqualWeight \<Rightarrow> 1 | RiskParity \<Rightarrow> fdiv 1 (max (vol n) tiny)
        | MinimumVariance \<Rightarrow> fdiv 1 (max (sq (vol n)) tiny)
        | MaximumSharpe \<Rightarrow> fdiv (max 0 (r_mean (samples n))) (max (sq (vol n)) tiny));
      total = py_sum (map share names)
    in \<exists>r. optimize_portfolio sq rt returns m capital = Inr r \<and> op_method r = m \<and>
      map al_name (op_allocations r) = names \<and>
      map al_weight (op_allocations r) = map (\<lambda>n. if total \<le> 0 then fdiv 1 (of_nat (length names)) else fdiv (share n) total) names \<and>
      list_all (\<lambda>a. 0 \<le> al_weight a \<and> al_capital a = fmul capital (al_weight a)) (op_allocations r) \<and>
      \<bar>sum_list (map al_weight (op_allocations r)) - 1\<bar> \<le> 64 * of_nat (length returns + 1) * b64_eps \<and>
      symmetric_matrix (op_correlation r)"
proof -
  define names where "names = sort (dkeys returns)"
  define samples where "samples n = map b64 (the (dget returns n))" for n
  define share where "share n = raw_weight sq rt m (samples n)" for n
  define clean where "clean = map (\<lambda>(n, xs). (n, map b64 xs)) (sorted_items returns)"
  have k: "dkeys clean = names"
    by (simp add: clean_def names_def o_def case_prod_beta' sorted_items_keys [symmetric])
  have "set (sorted_items returns) = set returns" by (simp add: sorted_items_def)
  then have "snd e = samples (fst e)" if "e \<in> set clean" for e
    using that assms(3) by (auto simp: clean_def samples_def wf_dict_def)
  then have "map (\<lambda>e. (fst e, samples (fst e))) clean = map (\<lambda>e. e) clean" by (intro map_cong) (auto simp: prod_eq_iff)
  then have clean: "clean = map (\<lambda>n. (n, samples n)) names" by (simp add: k [symmetric] o_def)
  define ws where "ws = normalize_weights (map (\<lambda>n. (n, share n)) names)"
  have ws: "normalize_weights (map (\<lambda>(n, xs). (n, raw_weight sq rt m xs)) clean) = ws" by (simp add: ws_def clean share_def o_def)
  have mx: "0 \<le> max x tiny" for x by (simp add: le_max_iff_disj order_less_imp_le)
  have nonneg: "0 \<le> share n" for n
    by (cases m) (simp_all add: share_def raw_weight_def Let_def fdiv_nonneg mx)
  have len: "length names = length returns" by (simp add: names_def)
  have ne: "names \<noteq> []" using assms(2) len by auto
  have wk: "dkeys ws = names" by (simp add: ws_def o_def)
  have vals: "dvals ws = map (\<lambda>n. if py_sum (map share names) \<le> 0 then fdiv 1 (of_nat (length names)) else fdiv (share n) (py_sum (map share names))) names"
    using nonneg by (simp add: ws_def normalize_weights_def Let_def o_def max_absorb2)
  have "list_all (\<lambda>(n, w). n \<noteq> [] \<and> 0 \<le> w) ws"
  proof -
    have "n \<noteq> []" if "(n, w) \<in> set ws" for n w
    proof -
      have "n \<in> set (dkeys ws)" using that by force
      then have "n \<in> set (dkeys returns)" unfolding wk names_def by (simp only: set_sort)
      with assms(4) show ?thesis by blast
    qed
    then show ?thesis using normalize_weights_nonneg unfolding list_all_iff ws_def by fast
  qed
  from allocate_ok [OF this, of capital] obtain as where as: "allocate capital ws = Inr as" "map al_name as = dkeys ws"
    "map al_weight as = dvals ws" "list_all (\<lambda>a. al_capital a = fmul capital (al_weight a)) as" by blast
  have "0 \<le> al_weight a" if "a \<in> set as" for a
  proof -
    have "al_weight a \<in> set (dvals ws)" using that as(3) by (metis image_eqI list.set_map)
    then show ?thesis using normalize_weights_nonneg unfolding ws_def by force
  qed
  then have la: "list_all (\<lambda>a. 0 \<le> al_weight a \<and> al_capital a = fmul capital (al_weight a)) as" using as(4) by (simp add: list_all_iff)
  have total: "\<bar>sum_list (map al_weight as) - 1\<bar> \<le> 64 * of_nat (length returns + 1) * b64_eps"
    unfolding as(3) ws_def using normalize_weights_total [of "map (\<lambda>n. (n, share n)) names"] ne assms(5) len by simp
  have share: "share = (\<lambda>n. case m of EqualWeight \<Rightarrow> 1 | RiskParity \<Rightarrow> fdiv 1 (max (r_std sq rt True (samples n)) tiny)
      | MinimumVariance \<Rightarrow> fdiv 1 (max (sq (r_std sq rt True (samples n))) tiny)
      | MaximumSharpe \<Rightarrow> fdiv (max 0 (r_mean (samples n))) (max (sq (r_std sq rt True (samples n))) tiny))"
    by (rule ext) (cases m; simp add: share_def raw_weight_def)
  have "clean \<noteq> []" using ne by (simp add: clean)
  then have "\<exists>r. optimize_portfolio sq rt returns m capital = Inr r \<and> op_method r = m \<and> op_allocations r = as \<and> symmetric_matrix (op_correlation r)"
    using assms(1) as(1) correlation_matrix_symmetric by (auto simp: optimize_portfolio_def Let_def clean_def [symmetric] ws)
  then obtain r where r: "optimize_portfolio sq rt returns m capital = Inr r" "op_method r = m" "op_allocations r = as"
    "symmetric_matrix (op_correlation r)" by blast
  show ?thesis
    unfolding Let_def names_def [symmetric] samples_def [symmetric] share [symmetric]
    using r as(2) la total vals unfolding wk as(3) [symmetric] by (intro exI [of _ r]) (simp flip: fun_cong [OF share])
qed

lemma allocations_are_valid_witness:
  "\<exists>r. optimize_portfolio (\<lambda>x. fmul x x) (\<lambda>x. x) [(''b'', [1, 2]), (''a'', [2, 1])] EqualWeight 1000 = Inr r \<and>
     map al_name (op_allocations r) = [''a'', ''b''] \<and> map al_weight (op_allocations r) = [1 / 2, 1 / 2]"
proof -
  have s: "sort [''b'', ''a''] = [''a'', ''b'']" by (simp add: less_char_def)
  have p: "py_sum [1, 1] = 2" by (simp add: py_sum_whole)
  have "fdiv 1 2 = 1 / 2" using b64_exact [of 1 "- 1"] by (simp add: fdiv_def power_int_minus)
  then show ?thesis using allocations_are_valid [of 1000 "[(''b'', [1, 2]), (''a'', [2, 1])]" "\<lambda>x. fmul x x" "\<lambda>x. x" EqualWeight]
    by (auto simp: Let_def s p wf_dict_def)
qed

text \<open>Equal weights are one part in the number of the streams.\<close>

lemma equal_weights:
  assumes "list_all (\<lambda>(n, v). v = 1) ws" "length ws \<le> 9007199254740992" "(n, w) \<in> set (normalize_weights ws)"
  shows "w = fdiv 1 (of_nat (length ws))"
proof -
  have e: "map (\<lambda>(n, v). max 0 v) ws = replicate (length ws) 1"
    using assms(1) by (induction ws) auto
  have "py_sum (replicate (length ws) 1) = sum_list (replicate (length ws) (1 :: rat))"
    using assms(2) by (intro py_sum_whole) (auto simp: sum_list_replicate)
  then have "py_sum (map (\<lambda>(n, v). max 0 v) ws) = of_nat (length ws)" by (simp add: e sum_list_replicate)
  then show ?thesis using assms(1,3) by (auto simp: normalize_weights_def Let_def list_all_iff split: if_splits)
qed

end
