(* ===== verification/Research.thy ===== *)
theory Research imports ResearchMetrics begin

text \<open>
  The research engine (\<open>trading/backtesting/research\<close>): objectives, tasks and results (\<open>models.py\<close>), parameter
  spaces (\<open>parameter_space.py\<close>), the grid search (\<open>optimizer.py\<close>), walk-forward analysis (\<open>walk_forward.py\<close>)
  and the historical data source (\<open>engine.py\<close>). Trials run one after another, as with one worker; the
  thread pool keeps their order. A validation error of a model is a \<open>ValueError\<close>, which it is in Python.
\<close>

section \<open>Models\<close>

datatype opt_direction = Maximize | Minimize

record objective =
  ob_metric :: pystr
  ob_direction :: opt_direction

definition new_objective :: "pystr \<Rightarrow> opt_direction \<Rightarrow> objective result" where
  "new_objective m d = (if m = [] then Inl ValueError
     else (let n = str_strip m in if n = [] then Inl ValueError else Inr \<lparr>ob_metric = n, ob_direction = d\<rparr>))"

definition objective_score :: "objective \<Rightarrow> metric_map \<Rightarrow> rat option" where
  "objective_score ob m = (case dget m (ob_metric ob) of None \<Rightarrow> None | Some v \<Rightarrow> map_option b64 v)"

record dataset =
  da_id :: pystr
  da_symbol :: pystr
  da_rows :: int

definition new_dataset :: "pystr \<Rightarrow> pystr \<Rightarrow> int \<Rightarrow> dataset result" where
  "new_dataset i s n = (if str_strip i = [] \<or> str_strip s = [] then Inl ValueError else if n < 0 then Inl ValueError
     else Inr \<lparr>da_id = str_strip i, da_symbol = str_strip s, da_rows = n\<rparr>)"

record task =
  ta_id :: pystr
  ta_strategies :: "pystr list"
  ta_symbols :: "pystr list"
  ta_datasets :: "pystr list"
  ta_bricks :: "brick_spec list"
  ta_ranges :: "date_range list"
  ta_risks :: "risk_settings list"
  ta_objective :: objective
  ta_workers :: int

definition normalize_texts :: "pystr list \<Rightarrow> pystr list" where
  "normalize_texts xs = filter (\<lambda>x. x \<noteq> []) (map str_strip xs)"

definition new_task :: "task \<Rightarrow> task result" where
  "new_task t =
     (let t' = t\<lparr>ta_id := str_strip (ta_id t), ta_strategies := normalize_texts (ta_strategies t),
                ta_symbols := normalize_texts (ta_symbols t), ta_datasets := normalize_texts (ta_datasets t)\<rparr> in
      if ta_id t' = [] then Inl ValueError
      else if ta_workers t' < 1 then Inl ValueError
      else if ta_strategies t' = [] \<or> ta_symbols t' = [] \<or> ta_datasets t' = [] then Inl ValueError
      else if ta_bricks t' = [] \<or> ta_ranges t' = [] \<or> ta_risks t' = [] then Inl ValueError
      else Inr t')"

record trial =
  tl_scenario :: scenario
  tl_result :: scenario_result
  tl_parameters :: kwargs
  tl_objective :: "rat option"

definition trial_completed :: "trial \<Rightarrow> bool" where
  "trial_completed t \<longleftrightarrow> rs_completed (tl_result t)"

record optimization =
  oz_objective :: objective
  oz_trials :: "trial list"
  oz_results :: result_set
  oz_started :: time
  oz_completed :: time

text \<open>Sorting in reverse keeps equal trials in their order, as sorting by the negated value does.\<close>

definition scored_trials :: "optimization \<Rightarrow> trial list" where
  "scored_trials r = filter (\<lambda>t. trial_completed t \<and> tl_objective t \<noteq> None) (oz_trials r)"

definition trial_key :: "opt_direction \<Rightarrow> trial \<Rightarrow> rat" where
  "trial_key d t = (let x = the (tl_objective t) in if d = Maximize then - x else x)"

definition best_trial :: "optimization \<Rightarrow> trial option" where
  "best_trial r = (let scored = scored_trials r in
     if scored = [] then None else Some (hd (sort_key (trial_key (ob_direction (oz_objective r))) scored)))"

definition best_result :: "optimization \<Rightarrow> scenario_result option" where
  "best_result r = map_option tl_result (best_trial r)"

definition duration_seconds :: "optimization \<Rightarrow> rat" where
  "duration_seconds r = fdiv (of_int (oz_completed r - oz_started r)) 1000000"

record window =
  wi_index :: int
  wi_training :: date_range
  wi_validation :: date_range
  wi_forward :: date_range

definition new_window :: "int \<Rightarrow> date_range \<Rightarrow> date_range \<Rightarrow> date_range \<Rightarrow> window result" where
  "new_window i t v f = (if i < 0 then Inl ValueError else Inr \<lparr>wi_index = i, wi_training = t, wi_validation = v, wi_forward = f\<rparr>)"

record wf_step =
  wf_window :: window
  wf_training :: optimization
  wf_validation :: "optimization option"
  wf_forward :: "optimization option"

record wf_result =
  wr_objective :: objective
  wr_steps :: "wf_step list"
  wr_metrics :: metric_map

definition step_count :: "wf_result \<Rightarrow> nat" where
  "step_count r = length (wr_steps r)"

section \<open>Parameter spaces\<close>

definition reserved_keys :: "pystr list" where
  "reserved_keys = [''atr'', ''atr_multiple'', ''brick_size'', ''brick_type'', ''fixed_quantity'', ''leverage'', ''max_open_positions'',
     ''position_fraction'', ''risk_percent'', ''stop_loss'', ''take_profit'', ''timeframe'', ''trailing_stop'', ''trailing_stop_percent'']"

record axis =
  ax_name :: pystr
  ax_values :: "py_value list"

definition new_axis :: "pystr \<Rightarrow> py_value list \<Rightarrow> axis result" where
  "new_axis name vs = (if name = [] then Inl ValueError
     else (let n = str_strip name in if n = [] then Inl ValueError else if vs = [] then Inl ValueError
       else Inr \<lparr>ax_name = n, ax_values = vs\<rparr>))"

text \<open>A parameter set is its dictionary in the order of the names.\<close>

definition parameter_set :: "kwargs \<Rightarrow> kwargs" where
  "parameter_set d = sorted_items d"

definition strategy_values :: "kwargs \<Rightarrow> kwargs" where
  "strategy_values p = filter (\<lambda>(k, v). k \<notin> set reserved_keys) p"

definition infrastructure_values :: "kwargs \<Rightarrow> kwargs" where
  "infrastructure_values p = filter (\<lambda>(k, v). k \<in> set reserved_keys) p"

type_synonym parameter_space = "axis list"

fun make_axes :: "(pystr \<times> py_value list) list \<Rightarrow> parameter_space result" where
  "make_axes [] = Inr []"
| "make_axes ((n, vs) # m) = rbind (new_axis n vs) (\<lambda>a. rbind (make_axes m) (\<lambda>as. Inr (a # as)))"

definition space_from_mapping :: "(pystr, py_value list) dict \<Rightarrow> parameter_space result" where
  "space_from_mapping m = make_axes (sorted_items m)"

definition single_space :: "kwargs \<Rightarrow> parameter_space result" where
  "single_space d = (if d = [] then Inr [] else space_from_mapping (map (\<lambda>(k, v). (k, [v])) d))"

definition standard_grid :: "int list \<Rightarrow> int list \<Rightarrow> rat list \<Rightarrow> rat list \<Rightarrow> rat list \<Rightarrow> rat list \<Rightarrow> rat list \<Rightarrow> parameter_space result" where
  "standard_grid ema atr sizes risks stops takes trails =
     (let ints = map PInt; floats = map (PFloat \<circ> b64) in
      space_from_mapping (filter (\<lambda>(n, vs). vs \<noteq> [])
        [(''period'', ints ema), (''atr_period'', ints atr), (''brick_size'', floats sizes), (''risk_percent'', floats risks),
         (''stop_loss'', floats stops), (''take_profit'', floats takes), (''trailing_stop'', floats trails)]))"

definition combinations :: "parameter_space \<Rightarrow> kwargs list" where
  "combinations axes = (if axes = [] then [parameter_set []]
     else map (\<lambda>vs. parameter_set (make_dict (zip (map ax_name axes) vs))) (product_lists (map ax_values axes)))"

definition extend_space :: "axis list \<Rightarrow> parameter_space \<Rightarrow> parameter_space" where
  "extend_space new axes = map snd (sorted_items (dupdate (make_dict (map (\<lambda>a. (ax_name a, a)) axes)) (map (\<lambda>a. (ax_name a, a)) new)))"

definition coerce_float :: "py_value option \<Rightarrow> rat option \<Rightarrow> rat option" where
  "coerce_float v d = (case v of None \<Rightarrow> d | Some PNone \<Rightarrow> d | Some (PBool _) \<Rightarrow> d | Some (PInt n) \<Rightarrow> Some (b64 (of_int n))
     | Some (PFloat x) \<Rightarrow> Some x | Some (PStr s) \<Rightarrow> (case float_of_text s of Some x \<Rightarrow> Some x | None \<Rightarrow> d))"

section \<open>Grid search\<close>

definition accepted_kwargs :: "strategy_registry \<Rightarrow> pystr \<Rightarrow> kwargs \<Rightarrow> kwargs" where
  "accepted_kwargs reg name p = (case dget (sr_classes reg) name of
     None \<Rightarrow> strategy_values p
   | Some c \<Rightarrow> filter (\<lambda>(k, v). k = fst (class_parameter c)) (strategy_values p))"

text \<open>\<open>str(infra.get(key) or default)\<close>; \<open>fs\<close> prints a float.\<close>

definition truthy :: "py_value \<Rightarrow> bool" where
  "truthy v = (case v of PNone \<Rightarrow> False | PStr s \<Rightarrow> s \<noteq> [] | PFloat x \<Rightarrow> x \<noteq> 0 | PInt n \<Rightarrow> n \<noteq> 0 | PBool b \<Rightarrow> b)"

definition value_text :: "(rat \<Rightarrow> pystr) \<Rightarrow> py_value \<Rightarrow> pystr" where
  "value_text fs v = (case v of PNone \<Rightarrow> ''None'' | PStr s \<Rightarrow> s | PFloat x \<Rightarrow> fs x | PInt n \<Rightarrow> str_int n
     | PBool b \<Rightarrow> if b then ''True'' else ''False'')"

definition text_or :: "(rat \<Rightarrow> pystr) \<Rightarrow> py_value option \<Rightarrow> pystr \<Rightarrow> pystr" where
  "text_or fs v d = (case v of None \<Rightarrow> d | Some x \<Rightarrow> if truthy x then value_text fs x else d)"

definition or_else :: "rat option \<Rightarrow> rat \<Rightarrow> rat" where
  "or_else x d = (case x of None \<Rightarrow> d | Some y \<Rightarrow> if y = 0 then d else y)"

definition override_brick :: "(rat \<Rightarrow> pystr) \<Rightarrow> kwargs \<Rightarrow> brick_spec \<Rightarrow> brick_spec" where
  "override_brick fs p b = (let infra = infrastructure_values p in
     \<lparr>bs_type = text_or fs (dget infra ''brick_type'') (bs_type b),
      bs_size = b64 (or_else (coerce_float (dget infra ''brick_size'') (Some (bs_size b))) (bs_size b)),
      bs_timeframe = text_or fs (dget infra ''timeframe'') (bs_timeframe b)\<rparr>)"

definition override_risk :: "kwargs \<Rightarrow> risk_settings \<Rightarrow> risk_settings" where
  "override_risk p r = (let infra = infrastructure_values p; percent = coerce_float (dget infra ''risk_percent'') None;
       fraction = coerce_float (dget infra ''position_fraction'') (Some (rk_fraction r)) in
     r\<lparr>rk_fraction := b64 (case percent of Some x \<Rightarrow> x | None \<Rightarrow> the fraction),
       rk_fixed := coerce_float (dget infra ''fixed_quantity'') (rk_fixed r),
       rk_leverage := b64 (or_else (coerce_float (dget infra ''leverage'') (Some (rk_leverage r))) (rk_leverage r))\<rparr>)"

definition risk_rules_of :: "kwargs \<Rightarrow> risk_rule list result" where
  "risk_rules_of p =
     (let get = (\<lambda>k. coerce_float (dget (infrastructure_values p) k) None) in
      collect (
        (case get ''stop_loss'' of Some x \<Rightarrow> if 0 < x then [new_stop_loss x] else [] | None \<Rightarrow> []) @
        (case get ''take_profit'' of Some x \<Rightarrow> if 0 < x then [new_take_profit x] else [] | None \<Rightarrow> []) @
        (let percent = (case get ''trailing_stop_percent'' of
             Some x \<Rightarrow> if 0 < x \<and> x < 1 then [new_trailing_stop None (Some x) None] else [] | None \<Rightarrow> []) in
         case get ''trailing_stop'' of Some x \<Rightarrow> if 0 < x then [new_trailing_stop (Some x) None None] else percent | None \<Rightarrow> percent) @
        (case get ''max_open_positions'' of Some x \<Rightarrow> if 0 \<le> x then [new_max_open_positions (py_trunc x)] else [] | None \<Rightarrow> [])))"

record planned =
  pn_scenario :: scenario
  pn_parameters :: kwargs

definition plan_trial :: "(scenario \<Rightarrow> pystr) \<Rightarrow> (rat \<Rightarrow> pystr) \<Rightarrow> strategy_registry \<Rightarrow> pystr \<Rightarrow> pystr \<Rightarrow> pystr \<Rightarrow> brick_spec
    \<Rightarrow> date_range \<Rightarrow> risk_settings \<Rightarrow> kwargs \<Rightarrow> planned" where
  "plan_trial digest fs reg name sy ds b dr r p =
     \<lparr>pn_scenario = create_scenario digest name (accepted_kwargs reg name p) (override_brick fs p b) sy ds dr (override_risk p r) default_market_info,
      pn_parameters = p\<rparr>"

text \<open>Numbers that are equal in Python (\<open>1\<close>, \<open>1.0\<close>, \<open>True\<close>) are the same in a set of keys.\<close>

definition key_value :: "py_value \<Rightarrow> py_value" where
  "key_value v = (case v of PInt n \<Rightarrow> PFloat (of_int n) | PBool b \<Rightarrow> PFloat (of_bool b) | _ \<Rightarrow> v)"

definition planned_key :: "planned \<Rightarrow> pystr \<times> kwargs" where
  "planned_key t = (sc_id (pn_scenario t), map (\<lambda>(k, v). (k, key_value v)) (sorted_items (pn_parameters t)))"

definition build_trials :: "(scenario \<Rightarrow> pystr) \<Rightarrow> (rat \<Rightarrow> pystr) \<Rightarrow> strategy_registry \<Rightarrow> task \<Rightarrow> parameter_space \<Rightarrow> planned list" where
  "build_trials digest fs reg t axes = keep_new planned_key (\<lambda>_. True) {}
     [plan_trial digest fs reg name sy ds b dr r p. name \<leftarrow> ta_strategies t, sy \<leftarrow> ta_symbols t, ds \<leftarrow> ta_datasets t,
        b \<leftarrow> ta_bricks t, dr \<leftarrow> ta_ranges t, r \<leftarrow> ta_risks t, p \<leftarrow> combinations axes]"

text \<open>The backtest of a trial is built without costs.\<close>

definition trial_backtest :: "(rat \<Rightarrow> rat) \<Rightarrow> (rat \<Rightarrow> rat) \<Rightarrow> strategy \<Rightarrow> planned \<Rightarrow> seen_brick list \<Rightarrow> metric_map result" where
  "trial_backtest sq rt st t bs = (let s = pn_scenario t; r = sc_risk s in
     rbind (risk_rules_of (pn_parameters t)) (\<lambda>rules.
       rbind (new_backtest st (rk_capital r) (Some (scenario_attribution s)) ZeroSlippage ZeroBrokerage (rk_fraction r) (rk_fixed r)
           (rk_leverage r) True rules) (measure_backtest sq rt bs)))"

definition trial_metrics :: "(rat \<Rightarrow> rat) \<Rightarrow> (rat \<Rightarrow> rat) \<Rightarrow> strategy_registry \<Rightarrow> ('s \<Rightarrow> source_key \<Rightarrow> 's \<times> seen_brick list result)
    \<Rightarrow> 's \<Rightarrow> planned \<Rightarrow> 's \<times> metric_map result" where
  "trial_metrics sq rt reg get src t =
     (case create_strategy reg (sc_strategy (pn_scenario t)) (make_dict (sc_params (pn_scenario t))) of
        Inl e \<Rightarrow> (src, Inl e)
      | Inr st \<Rightarrow> (case get src (scenario_key (pn_scenario t)) of (src', r) \<Rightarrow> (src', rbind r (trial_backtest sq rt st t))))"

definition run_trial :: "(rat \<Rightarrow> rat) \<Rightarrow> (rat \<Rightarrow> rat) \<Rightarrow> strategy_registry \<Rightarrow> ('s \<Rightarrow> source_key \<Rightarrow> 's \<times> seen_brick list result)
    \<Rightarrow> (nat \<Rightarrow> time) \<Rightarrow> objective \<Rightarrow> nat \<Rightarrow> 's \<Rightarrow> planned \<Rightarrow> 's \<times> trial" where
  "run_trial sq rt reg get clock ob i src t =
     (let (src', r) = trial_metrics sq rt reg get src t;
          q = scenario_outcome (pn_scenario t) r (fdiv (of_int (clock (2 * i + 1) - clock (2 * i))) 1000000)
      in (src', \<lparr>tl_scenario = pn_scenario t, tl_result = q, tl_parameters = pn_parameters t,
             tl_objective = objective_score ob (rs_metrics q)\<rparr>))"

fun run_trials :: "(rat \<Rightarrow> rat) \<Rightarrow> (rat \<Rightarrow> rat) \<Rightarrow> strategy_registry \<Rightarrow> ('s \<Rightarrow> source_key \<Rightarrow> 's \<times> seen_brick list result)
    \<Rightarrow> (nat \<Rightarrow> time) \<Rightarrow> objective \<Rightarrow> nat \<Rightarrow> 's \<Rightarrow> planned list \<Rightarrow> 's \<times> trial list" where
  "run_trials sq rt reg get clock ob i src [] = (src, [])"
| "run_trials sq rt reg get clock ob i src (t # ts) =
     (let (src1, r) = run_trial sq rt reg get clock ob i src t; (src2, rs) = run_trials sq rt reg get clock ob (i + 1) src1 ts
      in (src2, r # rs))"

text \<open>What the optimiser is built with, and its clock: readings of the trials and of the whole run.\<close>

record 's optimizer =
  op_registry :: strategy_registry
  op_get :: "'s \<Rightarrow> source_key \<Rightarrow> 's \<times> seen_brick list result"
  op_sq :: "rat \<Rightarrow> rat"
  op_rt :: "rat \<Rightarrow> rat"
  op_digest :: "scenario \<Rightarrow> pystr"
  op_fs :: "rat \<Rightarrow> pystr"
  op_clock :: "nat \<Rightarrow> time"

definition optimize :: "'s optimizer \<Rightarrow> task \<Rightarrow> parameter_space \<Rightarrow> 's \<Rightarrow> 's \<times> optimization" where
  "optimize o1 t axes src =
     (let plans = build_trials (op_digest o1) (op_fs o1) (op_registry o1) t axes; n = length plans;
          (src', trials) = run_trials (op_sq o1) (op_rt o1) (op_registry o1) (op_get o1) (\<lambda>i. op_clock o1 (i + 1)) (ta_objective t) 0 src plans
      in (src', \<lparr>oz_objective = ta_objective t, oz_trials = trials, oz_results = map tl_result trials,
             oz_started = op_clock o1 0, oz_completed = op_clock o1 (2 * n + 1)\<rparr>))"

definition lower_is_better :: "pystr list" where
  "lower_is_better = [''max_drawdown'', ''max_drawdown_pct'', ''var'', ''cvar'', ''volatility'']"

definition infer_objective :: "pystr \<Rightarrow> objective result" where
  "infer_objective m = new_objective m (if m \<in> set lower_is_better then Minimize else Maximize)"

section \<open>Walk-forward analysis\<close>

definition with_date_range :: "task \<Rightarrow> date_range \<Rightarrow> task result" where
  "with_date_range t dr = new_task (t\<lparr>ta_ranges := [dr]\<rparr>)"

definition optimize_on :: "'s optimizer \<Rightarrow> task \<Rightarrow> date_range \<Rightarrow> parameter_space \<Rightarrow> 's \<Rightarrow> 's \<times> optimization result" where
  "optimize_on o1 t dr axes src = (case with_date_range t dr of Inl e \<Rightarrow> (src, Inl e)
     | Inr t' \<Rightarrow> (case optimize o1 t' axes src of (src', r) \<Rightarrow> (src', Inr r)))"

definition walk_step :: "'s optimizer \<Rightarrow> task \<Rightarrow> parameter_space \<Rightarrow> window \<Rightarrow> 's \<Rightarrow> 's \<times> wf_step result" where
  "walk_step o1 t axes w src =
     (case optimize_on o1 t (wi_training w) axes src of
        (src1, Inl e) \<Rightarrow> (src1, Inl e)
      | (src1, Inr training) \<Rightarrow>
          (case best_trial training of
             None \<Rightarrow> (src1, Inr \<lparr>wf_window = w, wf_training = training, wf_validation = None, wf_forward = None\<rparr>)
           | Some best \<Rightarrow>
               (case single_space (tl_parameters best) of
                  Inl e \<Rightarrow> (src1, Inl e)
                | Inr space \<Rightarrow>
                    (case optimize_on o1 t (wi_validation w) space src1 of
                       (src2, Inl e) \<Rightarrow> (src2, Inl e)
                     | (src2, Inr v) \<Rightarrow>
                         (case optimize_on o1 t (wi_forward w) space src2 of
                            (src3, Inl e) \<Rightarrow> (src3, Inl e)
                          | (src3, Inr f) \<Rightarrow>
                              (src3, Inr \<lparr>wf_window = w, wf_training = training, wf_validation = Some v, wf_forward = Some f\<rparr>))))))"

fun walk_steps :: "'s optimizer \<Rightarrow> task \<Rightarrow> parameter_space \<Rightarrow> window list \<Rightarrow> 's \<Rightarrow> 's \<times> wf_step list result" where
  "walk_steps o1 t axes [] src = (src, Inr [])"
| "walk_steps o1 t axes (w # ws) src =
     (case walk_step o1 t axes w src of
        (src1, Inl e) \<Rightarrow> (src1, Inl e)
      | (src1, Inr s) \<Rightarrow> (case walk_steps o1 t axes ws src1 of (src2, r) \<Rightarrow> (src2, rbind r (\<lambda>ss. Inr (s # ss)))))"

definition forward_score :: "wf_step \<Rightarrow> rat option" where
  "forward_score s = (case wf_forward s of None \<Rightarrow> None
     | Some f \<Rightarrow> (case best_trial f of None \<Rightarrow> None | Some b \<Rightarrow> tl_objective b))"

definition walk_metrics :: "wf_step list \<Rightarrow> metric_map" where
  "walk_metrics ss = (let fs = List.map_filter forward_score ss in
     [(''windows'', Some (of_nat (length ss))),
      (''forward_mean_objective'', if fs \<noteq> [] then Some (fdiv (py_sum fs) (of_nat (length fs))) else None),
      (''forward_completed_windows'', Some (of_nat (length fs)))])"

definition analyze :: "'s optimizer \<Rightarrow> task \<Rightarrow> parameter_space \<Rightarrow> window list \<Rightarrow> 's \<Rightarrow> 's \<times> wf_result result" where
  "analyze o1 t axes ws src =
     (if ws = [] then (src, Inl ValueError)
      else (case walk_steps o1 t axes ws src of (src', r) \<Rightarrow>
        (src', rbind r (\<lambda>ss. Inr \<lparr>wr_objective = ta_objective t, wr_steps = ss, wr_metrics = walk_metrics ss\<rparr>))))"

section \<open>Historical data\<close>

record bars_key =
  bk_symbol :: pystr
  bk_dataset :: pystr

definition bars_key_of :: "pystr \<Rightarrow> pystr \<Rightarrow> bars_key" where
  "bars_key_of sy ds = \<lparr>bk_symbol = str_upper (str_strip sy), bk_dataset = str_strip ds\<rparr>"

type_synonym bar_store = "(bars_key, market_bar list) dict"

text \<open>The bars are stored before the description is validated.\<close>

definition register_bars :: "pystr \<Rightarrow> pystr \<Rightarrow> market_bar list \<Rightarrow> bar_store \<Rightarrow> bar_store \<times> dataset result" where
  "register_bars sy ds bars st = (let bs = sort_key mb_time bars in
     (dset (bars_key_of sy ds) bs st, new_dataset ds sy (int (length bs))))"

text \<open>\<open>ts\<close> prints a timestamp; the bounds of the range are compared with that text.\<close>

definition in_range :: "(time \<Rightarrow> pystr) \<Rightarrow> date_range \<Rightarrow> market_bar \<Rightarrow> bool" where
  "in_range ts dr b \<longleftrightarrow> (case fst dr of None \<Rightarrow> True | Some s \<Rightarrow> s \<le> ts (mb_time b)) \<and> (case snd dr of None \<Rightarrow> True | Some e \<Rightarrow> ts (mb_time b) \<le> e)"

definition load_bars :: "(time \<Rightarrow> pystr) \<Rightarrow> pystr \<Rightarrow> pystr \<Rightarrow> date_range \<Rightarrow> bar_store \<Rightarrow> market_bar list result" where
  "load_bars ts sy ds dr st = rbind (registry_get st (bars_key_of sy ds))
     (\<lambda>bars. Inr (if fst dr = None \<and> snd dr = None then bars else filter (in_range ts dr) bars))"

interpretation bars: replacing_store "\<lambda>k v. dset k v" "registry_get :: bar_store \<Rightarrow> bars_key \<Rightarrow> market_bar list result"
  by unfold_locales (rule registry_get_dset)

lemma load_registered:
  "load_bars ts sy ds dr (fst (register_bars sy ds bars st)) = Inr (filter (in_range ts dr) (sort_key mb_time bars))"
  by (cases dr) (auto simp: load_bars_def register_bars_def Let_def bars.find_put in_range_def)

text \<open>A day as the end of a range excludes that day: the text of every later instant of the day is longer.\<close>

lemma end_day_is_excluded:
  assumes "ts (mb_time b) = day @ rest" "rest \<noteq> []"
  shows "\<not> in_range ts (s, Some day) b"
proof -
  have "\<not> day @ rest \<le> day" using assms(2) by (induction day) (cases rest; auto)+
  then show ?thesis by (simp add: in_range_def assms(1))
qed

section \<open>The facade\<close>

definition research_optimize :: "'s optimizer \<Rightarrow> pystr list option \<Rightarrow> task \<Rightarrow> parameter_space \<Rightarrow> 's \<Rightarrow> 's \<times> optimization result" where
  "research_optimize o1 names t axes src =
     (case new_task (t\<lparr>ta_strategies := (case names of Some ns \<Rightarrow> ns | None \<Rightarrow> strategy_names (op_registry o1))\<rparr>) of
        Inl e \<Rightarrow> (src, Inl e)
      | Inr t' \<Rightarrow> (case optimize o1 t' axes src of (src', r) \<Rightarrow> (src', Inr r)))"

record report =
  rp_id :: pystr
  rp_title :: pystr
  rp_time :: time
  rp_optimization :: "optimization option"
  rp_walk_forward :: "wf_result option"
  rp_monte_carlo :: "mc_result option"
  rp_portfolio :: "optimized option"

definition build_report :: "time \<Rightarrow> pystr \<Rightarrow> pystr \<Rightarrow> optimization option \<Rightarrow> wf_result option \<Rightarrow> mc_result option \<Rightarrow> optimized option \<Rightarrow> report result" where
  "build_report now i title oz wfr mc pf = (if i = [] \<or> title = [] then Inl ValueError
     else Inr \<lparr>rp_id = i, rp_title = title, rp_time = now, rp_optimization = oz, rp_walk_forward = wfr, rp_monte_carlo = mc, rp_portfolio = pf\<rparr>)"

section \<open>The best trial\<close>

lemma hd_sort_key_min:
  assumes "xs \<noteq> []"
  shows "hd (sort_key f xs) \<in> set xs" "x \<in> set xs \<Longrightarrow> f (hd (sort_key f xs)) \<le> f x"
proof -
  have n: "sort_key f xs \<noteq> []" using assms by (metis length_0_conv length_sort)
  then show "hd (sort_key f xs) \<in> set xs" by (metis hd_in_set set_sort)
  have "sorted_wrt (\<lambda>x y. f x \<le> f y) (hd (sort_key f xs) # tl (sort_key f xs))"
    using sorted_wrt_key [of f xs] n by simp
  then show "f (hd (sort_key f xs)) \<le> f x" if "x \<in> set xs"
    using that n by (metis hd_Cons_tl list.set_cases order_refl set_ConsD set_sort sorted_wrt.simps(2))
qed

definition beats :: "opt_direction \<Rightarrow> trial \<Rightarrow> trial \<Rightarrow> bool" where
  "beats d a b \<longleftrightarrow> (case (tl_objective a, tl_objective b) of
     (Some x, Some y) \<Rightarrow> (if d = Maximize then y < x else x < y) | _ \<Rightarrow> False)"

text \<open>The best trial is a completed one with a score that no other completed trial beats in the direction of
  the objective; there is none exactly if no trial completed with a score.\<close>

theorem best_trial_is_best:
  "case best_trial r of
     Some t \<Rightarrow> t \<in> set (oz_trials r) \<and> trial_completed t \<and> tl_objective t \<noteq> None \<and>
       \<not> list_ex (\<lambda>u. trial_completed u \<and> beats (ob_direction (oz_objective r)) u t) (oz_trials r)
   | None \<Rightarrow> \<not> list_ex (\<lambda>u. trial_completed u \<and> tl_objective u \<noteq> None) (oz_trials r)"
proof (cases "scored_trials r = []")
  case True
  then show ?thesis by (auto simp: best_trial_def scored_trials_def filter_empty_conv list_ex_iff)
next
  case False
  define d where "d = ob_direction (oz_objective r)"
  define t where "t = hd (sort_key (trial_key d) (scored_trials r))"
  have t: "t \<in> set (scored_trials r)" "\<And>u. u \<in> set (scored_trials r) \<Longrightarrow> trial_key d t \<le> trial_key d u"
    using hd_sort_key_min [OF False, where f = "trial_key d"] by (simp_all add: t_def)
  have "\<not> beats d u t" if u: "u \<in> set (oz_trials r)" "trial_completed u" for u
  proof (cases "tl_objective u")
    case (Some y)
    then have "trial_key d t \<le> trial_key d u" using u by (intro t(2)) (simp add: scored_trials_def)
    then show ?thesis using Some t(1) by (auto simp: trial_key_def beats_def scored_trials_def split: if_splits option.splits)
  qed (simp add: beats_def)
  then show ?thesis using False t(1)
    by (simp add: best_trial_def Let_def d_def [symmetric] t_def [symmetric]) (auto simp: scored_trials_def list_ex_iff)
qed

section \<open>Trials\<close>

lemma risk_rules_total: "\<exists>rules. risk_rules_of p = Inr rules"
proof -
  have c: "\<exists>xs. collect rs = Inr xs" if "list_all (\<lambda>r. \<exists>x. r = Inr x) rs" for rs :: "risk_rule result list"
    using that by (induction rs) auto
  have 0: "0 \<le> py_trunc x" if "0 \<le> x" for x using that by (simp add: py_trunc_def)
  show ?thesis unfolding risk_rules_of_def Let_def
    by (rule c) (auto simp: new_stop_loss_def new_take_profit_def new_trailing_stop_def new_max_open_positions_def dest: 0 split: option.split)
qed

text \<open>The grid search ignores costs: brokerage and slippage of the risk settings do not change the metrics
  of a trial.\<close>

theorem optimizer_ignores_costs:
  fixes br sl :: pystr and x y :: rat
  shows "trial_metrics sq rt reg get src (t\<lparr>pn_scenario := (pn_scenario t)\<lparr>sc_risk := (sc_risk (pn_scenario t))
      \<lparr>rk_brokerage := br, rk_brokerage_value := x, rk_slippage := sl, rk_slippage_value := y\<rparr>\<rparr>\<rparr>) =
    trial_metrics sq rt reg get src t"
proof -
  let ?t = "t\<lparr>pn_scenario := (pn_scenario t)\<lparr>sc_risk := (sc_risk (pn_scenario t))
      \<lparr>rk_brokerage := br, rk_brokerage_value := x, rk_slippage := sl, rk_slippage_value := y\<rparr>\<rparr>\<rparr>"
  have "trial_backtest sq rt st ?t = trial_backtest sq rt st t" for st
    by (rule ext) (simp add: trial_backtest_def scenario_attribution_def Let_def)
  moreover have "scenario_key (pn_scenario ?t) = scenario_key (pn_scenario t)" by (simp add: scenario_key_def)
  ultimately show ?thesis by (simp add: trial_metrics_def split: sum.split)
qed

text \<open>The id of a scenario does not cover the risk rules: trials with different stops share it.\<close>

lemma stops_are_not_in_id:
  assumes "strategy_values p = strategy_values q"
    and "\<And>k. k \<notin> {''stop_loss'', ''take_profit'', ''trailing_stop'', ''trailing_stop_percent'', ''max_open_positions''} \<Longrightarrow>
      dget (infrastructure_values p) k = dget (infrastructure_values q) k"
  shows "sc_id (pn_scenario (plan_trial digest fs reg name sy ds b dr r p)) = sc_id (pn_scenario (plan_trial digest fs reg name sy ds b dr r q))"
proof -
  have k: "dget (infrastructure_values p) k = dget (infrastructure_values q) k"
    if "k \<in> {''brick_type'', ''brick_size'', ''timeframe'', ''risk_percent'', ''position_fraction'', ''fixed_quantity'', ''leverage''}" for k
    using that by (intro assms(2)) auto
  have "override_brick fs p b = override_brick fs q b" by (simp add: override_brick_def k Let_def)
  moreover have "override_risk p r = override_risk q r" by (simp add: override_risk_def k Let_def split: option.split)
  moreover have "accepted_kwargs reg name p = accepted_kwargs reg name q" by (simp only: accepted_kwargs_def assms(1))
  ultimately show ?thesis by (simp add: plan_trial_def)
qed

lemma run_trials_map:
  "map tl_scenario (snd (run_trials sq rt reg get clock ob i src ts)) = map pn_scenario ts \<and>
   map tl_parameters (snd (run_trials sq rt reg get clock ob i src ts)) = map pn_parameters ts \<and>
   list_all (\<lambda>t. rs_scenario (tl_result t) = tl_scenario t \<and> outcome_ok (tl_result t)) (snd (run_trials sq rt reg get clock ob i src ts))"
proof (induction ts arbitrary: i src)
  case (Cons t ts)
  have "dkeys m = metric_keys" if "trial_metrics sq rt reg get src t = (src', Inr m)" for src' m
    using that by (auto simp: trial_metrics_def trial_backtest_def rbind_Inr_iff Let_def split: sum.splits prod.splits dest!: measure_backtest_keys)
  then have "outcome_ok (tl_result (snd (run_trial sq rt reg get clock ob i src t)))"
    by (auto simp: run_trial_def scenario_outcome_def outcome_ok_def Let_def case_prod_beta split: sum.splits) (metis prod.collapse)
  moreover have "rs_scenario (tl_result (snd (run_trial sq rt reg get clock ob i src t))) = pn_scenario t"
    "tl_scenario (snd (run_trial sq rt reg get clock ob i src t)) = pn_scenario t"
    "tl_parameters (snd (run_trial sq rt reg get clock ob i src t)) = pn_parameters t"
    by (simp_all add: run_trial_def scenario_outcome_def case_prod_beta Let_def split: sum.split)
  ultimately show ?case using Cons [of "i + 1"] by (simp add: case_prod_beta)
qed simp

lemma optimize_trials:
  assumes "optimize o1 t axes src = (src', r)"
  shows "map tl_scenario (oz_trials r) = map pn_scenario (build_trials (op_digest o1) (op_fs o1) (op_registry o1) t axes)"
    "map tl_parameters (oz_trials r) = map pn_parameters (build_trials (op_digest o1) (op_fs o1) (op_registry o1) t axes)"
proof -
  let ?plans = "build_trials (op_digest o1) (op_fs o1) (op_registry o1) t axes"
  have "oz_trials r = snd (run_trials (op_sq o1) (op_rt o1) (op_registry o1) (op_get o1) (\<lambda>i. op_clock o1 (i + 1)) (ta_objective t) 0 src ?plans)"
    using assms by (auto simp: optimize_def Let_def split: prod.splits)
  then show "map tl_scenario (oz_trials r) = map pn_scenario ?plans" "map tl_parameters (oz_trials r) = map pn_parameters ?plans"
    by (simp_all add: run_trials_map)
qed

lemma build_trials_mem:
  assumes "p \<in> set (build_trials digest fs reg t axes)"
  shows "sc_range (pn_scenario p) \<in> set (ta_ranges t)" "pn_parameters p \<in> set (combinations axes)"
    "sc_strategy (pn_scenario p) \<in> set (ta_strategies t)" "sc_symbol (pn_scenario p) \<in> set (ta_symbols t)"
proof -
  have "p \<in> set (concat (map (\<lambda>name. concat (map (\<lambda>sy. concat (map (\<lambda>ds. concat (map (\<lambda>b. concat (map (\<lambda>dr. concat (map (\<lambda>r.
      map (plan_trial digest fs reg name sy ds b dr r) (combinations axes)) (ta_risks t))) (ta_ranges t))) (ta_bricks t))) (ta_datasets t)))
      (ta_symbols t))) (ta_strategies t)))"
    using assms set_mp [OF keep_new_set] unfolding build_trials_def by fastforce
  then show "sc_range (pn_scenario p) \<in> set (ta_ranges t)" "pn_parameters p \<in> set (combinations axes)"
    "sc_strategy (pn_scenario p) \<in> set (ta_strategies t)" "sc_symbol (pn_scenario p) \<in> set (ta_symbols t)"
    by (auto simp: plan_trial_def create_scenario_def Let_def)
qed

text \<open>Every trial of an optimisation is over the ranges of its task and with a combination of its space.\<close>

lemma optimize_ranges:
  assumes "optimize o1 t axes src = (src', r)" "u \<in> set (oz_trials r)"
  shows "sc_range (tl_scenario u) \<in> set (ta_ranges t)" "tl_parameters u \<in> set (combinations axes)"
proof -
  note b = optimize_trials [OF assms(1)]
  have "tl_scenario u \<in> set (map tl_scenario (oz_trials r))" "tl_parameters u \<in> set (map tl_parameters (oz_trials r))"
    using assms(2) by simp_all
  then show "sc_range (tl_scenario u) \<in> set (ta_ranges t)" "tl_parameters u \<in> set (combinations axes)"
    unfolding b using build_trials_mem(1,2) by fastforce+
qed

section \<open>Walk-forward\<close>

text \<open>A space built from a mapping has names without outer blanks, and so have its combinations, which are
  sorted and name each parameter once.\<close>

definition wf_parameters :: "kwargs \<Rightarrow> bool" where
  "wf_parameters p \<longleftrightarrow> distinct (dkeys p) \<and> sorted (dkeys p) \<and> list_all (\<lambda>n. n \<noteq> [] \<and> str_strip n = n) (dkeys p)"

lemma sorted_items_sorted: "sorted (dkeys d) \<Longrightarrow> sorted_items d = d"
  by (simp add: sorted_items_def sort_key_id_if_sorted)

lemma make_axes_names:
  "make_axes m = Inr axes \<Longrightarrow> list_all (\<lambda>a. ax_name a \<noteq> [] \<and> str_strip (ax_name a) = ax_name a) axes"
proof (induction m arbitrary: axes)
  case (Cons nv m)
  then show ?case by (cases nv) (auto simp: rbind_Inr_iff new_axis_def Let_def split: if_splits)
qed simp

lemma make_dict_keys: "distinct (dkeys (make_dict d)) \<and> set (dkeys (make_dict d)) = set (dkeys d)"
proof (induction d rule: rev_induct)
  case (snoc kv d)
  obtain k v where "kv = (k, v)" by (cases kv)
  then have "make_dict (d @ [kv]) = dset k v (make_dict d)" by (simp add: make_dict_def dupdate_def)
  with snoc show ?case by (auto simp: distinct_update dom_map_of_conv_image_fst [symmetric] update_conv' \<open>kv = (k, v)\<close>)
qed (simp add: make_dict_def dupdate_def)

lemma combinations_wf:
  assumes "space_from_mapping m = Inr axes" "p \<in> set (combinations axes)"
  shows "wf_parameters p"
proof (cases "axes = []")
  case True
  with assms(2) show ?thesis by (simp add: combinations_def parameter_set_def sorted_items_def wf_parameters_def)
next
  case False
  then obtain vs where p: "p = sorted_items (make_dict (zip (map ax_name axes) vs))"
    using assms(2) by (auto simp: combinations_def parameter_set_def)
  let ?d = "make_dict (zip (map ax_name axes) vs)"
  have k: "dkeys p = sort (dkeys ?d)" by (simp add: p sorted_items_keys)
  have "set (dkeys ?d) = set (dkeys (zip (map ax_name axes) vs))"
    using make_dict_keys [of "zip (map ax_name axes) vs"] by (rule conjunct2)
  moreover have "set (dkeys (zip (map ax_name axes) vs)) \<subseteq> ax_name ` set axes" by (auto dest: set_zip_leftD)
  ultimately have "set (dkeys ?d) \<subseteq> ax_name ` set axes" by simp
  moreover have "list_all (\<lambda>a. ax_name a \<noteq> [] \<and> str_strip (ax_name a) = ax_name a) axes"
    using assms(1) unfolding space_from_mapping_def by (rule make_axes_names)
  then have "\<forall>n\<in>ax_name ` set axes. n \<noteq> [] \<and> str_strip n = n" by (simp add: list_all_iff)
  ultimately have "\<forall>n\<in>set (dkeys ?d). n \<noteq> [] \<and> str_strip n = n" by (meson subsetD)
  then show ?thesis using make_dict_keys [of "zip (map ax_name axes) vs", THEN conjunct1]
    by (simp add: wf_parameters_def k list_all_iff del: set_map)
qed

text \<open>A single-combination space of a parameter set has that set as its only combination.\<close>

lemma make_axes_single:
  "list_all (\<lambda>n. n \<noteq> [] \<and> str_strip n = n) (dkeys p) \<Longrightarrow>
     make_axes (map (\<lambda>(k, v). (k, [v])) p) = Inr (map (\<lambda>(k, v). \<lparr>ax_name = k, ax_values = [v]\<rparr>) p)"
  by (induction p) (auto simp: new_axis_def)

lemma product_lists_single: "product_lists (map (\<lambda>x. [f x]) xs) = [map f xs]"
  by (induction xs) simp_all

lemma single_space_combinations:
  assumes "wf_parameters p"
  shows "\<exists>axes. single_space p = Inr axes \<and> combinations axes = [p]"
proof (cases "p = []")
  case True
  then show ?thesis by (simp add: single_space_def combinations_def parameter_set_def sorted_items_def)
next
  case False
  let ?axes = "map (\<lambda>(k, v). \<lparr>ax_name = k, ax_values = [v]\<rparr>) p"
  have s: "sorted (dkeys p)" "distinct (dkeys p)" using assms by (auto simp: wf_parameters_def)
  have "sorted_items (map (\<lambda>(k, v). (k, [v])) p) = map (\<lambda>(k, v). (k, [v])) p"
    by (rule sorted_items_sorted) (simp add: s o_def case_prod_beta')
  then have "single_space p = Inr ?axes"
    using False assms make_axes_single by (simp add: single_space_def space_from_mapping_def wf_parameters_def)
  moreover have "combinations ?axes = [p]"
  proof -
    have "product_lists (map ax_values ?axes) = [map snd p]"
      using product_lists_single [of snd p] by (simp add: o_def case_prod_beta')
    moreover have "map ax_name ?axes = map fst p" by (simp add: o_def case_prod_beta')
    ultimately show ?thesis
      using False s by (simp only: combinations_def) (simp add: zip_map_fst_snd make_dict_distinct parameter_set_def sorted_items_sorted)
  qed
  ultimately show ?thesis by blast
qed

definition trials_on :: "date_range \<Rightarrow> optimization \<Rightarrow> bool" where
  "trials_on dr r \<longleftrightarrow> list_all (\<lambda>t. sc_range (tl_scenario t) = dr) (oz_trials r)"

definition trials_with :: "kwargs \<Rightarrow> optimization option \<Rightarrow> bool" where
  "trials_with p r \<longleftrightarrow> (case r of None \<Rightarrow> False | Some r' \<Rightarrow> list_all (\<lambda>t. tl_parameters t = p) (oz_trials r'))"

text \<open>Training uses the training range alone; what it found best is validated and forward tested, unchanged,
  on the other two ranges alone.\<close>

definition out_of_sample :: "wf_step \<Rightarrow> bool" where
  "out_of_sample s \<longleftrightarrow> trials_on (wi_training (wf_window s)) (wf_training s) \<and>
     pred_option (trials_on (wi_validation (wf_window s))) (wf_validation s) \<and>
     pred_option (trials_on (wi_forward (wf_window s))) (wf_forward s) \<and>
     (case best_trial (wf_training s) of
        None \<Rightarrow> wf_validation s = None \<and> wf_forward s = None
      | Some b \<Rightarrow> trials_with (tl_parameters b) (wf_validation s) \<and> trials_with (tl_parameters b) (wf_forward s))"

lemma optimize_on_trials:
  assumes "optimize_on o1 t dr axes src = (src', Inr r)"
  shows "trials_on dr r" "t' \<in> set (oz_trials r) \<Longrightarrow> tl_parameters t' \<in> set (combinations axes)"
proof -
  obtain t1 where t1: "with_date_range t dr = Inr t1" "optimize o1 t1 axes src = (src', r)"
    using assms by (auto simp: optimize_on_def split: sum.splits prod.splits)
  have "ta_ranges t1 = [dr]" using t1(1) by (auto simp: with_date_range_def new_task_def Let_def split: if_splits)
  then show "trials_on dr r" using optimize_ranges(1) [OF t1(2)] by (auto simp: trials_on_def list_all_iff)
  show "tl_parameters t' \<in> set (combinations axes)" if "t' \<in> set (oz_trials r)" using optimize_ranges(2) [OF t1(2) that] .
qed

lemma best_trial_mem: "best_trial r = Some b \<Longrightarrow> b \<in> set (oz_trials r)"
proof -
  assume "best_trial r = Some b"
  then have "scored_trials r \<noteq> []" "b = hd (sort_key (trial_key (ob_direction (oz_objective r))) (scored_trials r))"
    by (auto simp: best_trial_def Let_def split: if_splits)
  then show ?thesis using hd_sort_key_min(1) by (fastforce simp: scored_trials_def)
qed

lemma normalize_texts_idem: "normalize_texts (normalize_texts xs) = normalize_texts xs"
  by (induction xs) (simp_all add: normalize_texts_def)

lemma with_date_range_ok:
  assumes "new_task t0 = Inr t"
  shows "\<exists>t'. with_date_range t dr = Inr t'"
  using assms by (auto simp: new_task_def with_date_range_def Let_def normalize_texts_idem split: if_splits)

lemma optimize_on_ok:
  assumes "new_task t0 = Inr t"
  obtains src' r where "optimize_on o1 t dr axes src = (src', Inr r)"
proof -
  obtain t' where "with_date_range t dr = Inr t'" using with_date_range_ok [OF assms] by blast
  then have "optimize_on o1 t dr axes src = (fst (optimize o1 t' axes src), Inr (snd (optimize o1 t' axes src)))"
    by (simp add: optimize_on_def case_prod_beta)
  then show thesis by (rule that)
qed

lemma walk_step_ok:
  assumes "space_from_mapping m = Inr axes" "new_task t0 = Inr t"
  shows "\<exists>src' s. walk_step o1 t axes w src = (src', Inr s) \<and> wf_window s = w \<and> out_of_sample s"
proof -
  obtain src1 training where tr: "optimize_on o1 t (wi_training w) axes src = (src1, Inr training)"
    by (rule optimize_on_ok [OF assms(2)])
  show ?thesis
  proof (cases "best_trial training")
    case None
    then show ?thesis using tr optimize_on_trials(1) [OF tr] by (simp add: walk_step_def out_of_sample_def)
  next
    case (Some b)
    have "wf_parameters (tl_parameters b)"
      by (rule combinations_wf [OF assms(1) optimize_on_trials(2) [OF tr best_trial_mem [OF Some]]])
    then obtain sp where sp: "single_space (tl_parameters b) = Inr sp" "combinations sp = [tl_parameters b]"
      using single_space_combinations by blast
    obtain src2 v where v: "optimize_on o1 t (wi_validation w) sp src1 = (src2, Inr v)"
      by (rule optimize_on_ok [OF assms(2)])
    obtain src3 f where f: "optimize_on o1 t (wi_forward w) sp src2 = (src3, Inr f)"
      by (rule optimize_on_ok [OF assms(2)])
    have "walk_step o1 t axes w src = (src3, Inr \<lparr>wf_window = w, wf_training = training, wf_validation = Some v, wf_forward = Some f\<rparr>)"
      by (simp add: walk_step_def tr Some sp(1) v f)
    moreover have "tl_parameters u = tl_parameters b" if "u \<in> set (oz_trials v) \<union> set (oz_trials f)" for u
      using that optimize_on_trials(2) [OF v] optimize_on_trials(2) [OF f] sp(2) by auto
    ultimately show ?thesis
      using optimize_on_trials(1) [OF tr] optimize_on_trials(1) [OF v] optimize_on_trials(1) [OF f] Some
      by (auto simp: out_of_sample_def trials_with_def list_all_iff)
  qed
qed

lemma walk_steps_ok:
  assumes "space_from_mapping m = Inr axes" "new_task t0 = Inr t"
  shows "\<exists>src' ss. walk_steps o1 t axes ws src = (src', Inr ss) \<and> map wf_window ss = ws \<and> list_all out_of_sample ss"
proof (induction ws arbitrary: src)
  case (Cons w ws)
  obtain src1 s where s: "walk_step o1 t axes w src = (src1, Inr s)" "wf_window s = w" "out_of_sample s"
    using walk_step_ok [OF assms, of o1 w src] by blast
  obtain src2 ss where "walk_steps o1 t axes ws src1 = (src2, Inr ss)" "map wf_window ss = ws" "list_all out_of_sample ss"
    using Cons.IH by blast
  with s show ?case by simp
qed simp

text \<open>C30: A walk-forward analysis of a valid task succeeds, has one step per window and never looks ahead: the
  parameters are chosen on the training range alone, and exactly the best ones are tried on the validation
  and forward ranges.\<close>

theorem walk_forward_is_out_of_sample:
  assumes "space_from_mapping m = Inr axes" "new_task t0 = Inr t" "ws \<noteq> []"
  shows "\<exists>src' r. analyze o1 t axes ws src = (src', Inr r) \<and> map wf_window (wr_steps r) = ws \<and> list_all out_of_sample (wr_steps r)"
proof -
  obtain src' ss where "walk_steps o1 t axes ws src = (src', Inr ss)" "map wf_window ss = ws" "list_all out_of_sample ss"
    using walk_steps_ok [OF assms(1,2), of o1 ws src] by blast
  with assms(3) show ?thesis by (simp add: analyze_def)
qed

definition demo_task :: task where
  "demo_task = \<lparr>ta_id = ''t'', ta_strategies = [''renko_trend''], ta_symbols = [''A''], ta_datasets = [''d''],
     ta_bricks = [default_brick_spec], ta_ranges = [(None, None)], ta_risks = [default_risk_settings],
     ta_objective = \<lparr>ob_metric = ''net_profit'', ob_direction = Maximize\<rparr>, ta_workers = 1\<rparr>"

definition demo_window :: window where
  "demo_window = \<lparr>wi_index = 0, wi_training = (None, Some ''2020''), wi_validation = (Some ''2021'', Some ''2021''), wi_forward = (Some ''2022'', None)\<rparr>"

definition demo_optimizer :: "brick_store optimizer" where
  "demo_optimizer = \<lparr>op_registry = (case build_registry [] of Inr r \<Rightarrow> r | Inl _ \<Rightarrow> new_strategy_registry), op_get = store_get,
     op_sq = (\<lambda>x. fmul x x), op_rt = id, op_digest = sc_symbol, op_fs = (\<lambda>_. ''1''), op_clock = int\<rparr>"

lemma walk_forward_is_out_of_sample_witness:
  "\<exists>axes src' r. space_from_mapping [(''trend_length'', [PInt 2, PInt 3])] = Inr axes \<and>
     analyze demo_optimizer demo_task axes [demo_window] [] = (src', Inr r) \<and> list_all out_of_sample (wr_steps r)"
proof -
  have "\<exists>axes. space_from_mapping [(''trend_length'', [PInt 2, PInt 3])] = Inr axes"
    by (simp add: space_from_mapping_def sorted_items_def new_axis_def str_strip_def is_space_def Let_def)
  then obtain axes where a: "space_from_mapping [(''trend_length'', [PInt 2, PInt 3])] = Inr axes" by blast
  have "new_task demo_task = Inr demo_task"
    by (simp add: new_task_def demo_task_def normalize_texts_def str_strip_def is_space_def Let_def)
  from walk_forward_is_out_of_sample [OF a this, of "[demo_window]" demo_optimizer "[]"] a show ?thesis by auto
qed

end
