(* ===== verification/Analytics.thy ===== *)
theory Analytics imports Money Research begin

text \<open>
  The entities and services of analytics (\<open>analytics/domain/entities.py\<close>, \<open>services.py\<close>): metrics are read from
  their sources by name, curves and snapshots are made from a portfolio and its metrics, and results are
  ranked and reported. The decimal that the printed text of a float denotes is the parameter \<open>dec\<close>, the hash
  of a text the parameter \<open>hash\<close>. The times at which objects are created and free-form metadata are left out.
\<close>

section \<open>Entities\<close>

datatype metric_value = MoneyValue money | PercentValue percentage | DecimalValue rat | FloatValue rat | IntValue int

datatype metric_source = FromSnapshot perf_snapshot | FromPerformance performance | FromItems "(pystr \<times> metric_value option) list"

definition required_text :: "pystr \<Rightarrow> pystr result" where
  "required_text s = (let t = str_strip s in if t = [] then Inl ValueError else Inr t)"

record strategy_analytics =
  sa_id :: pystr
  sa_scenario :: scenario
  sa_source :: metric_source

definition new_strategy_analytics :: "pystr \<Rightarrow> scenario \<Rightarrow> metric_source \<Rightarrow> strategy_analytics result" where
  "new_strategy_analytics i s m = rbind (required_text i) (\<lambda>t. Inr \<lparr>sa_id = t, sa_scenario = s, sa_source = m\<rparr>)"

record portfolio_analytics =
  pa_id :: pystr
  pa_portfolio :: pystr
  pa_snapshot :: perf_snapshot
  pa_trades :: "trade list"
  pa_curve :: "a_point list"
  pa_drawdowns :: "dd_point list"
  pa_returns :: return_series

definition new_portfolio_analytics :: "pystr \<Rightarrow> pystr \<Rightarrow> perf_snapshot \<Rightarrow> trade list \<Rightarrow> a_point list \<Rightarrow> dd_point list \<Rightarrow> return_series
    \<Rightarrow> portfolio_analytics result" where
  "new_portfolio_analytics i p s ts c d r = rbind (required_text i) (\<lambda>i'. rbind (required_text p) (\<lambda>p'.
     Inr \<lparr>pa_id = i', pa_portfolio = p', pa_snapshot = s, pa_trades = ts, pa_curve = c, pa_drawdowns = d, pa_returns = r\<rparr>))"

datatype ranking_direction = Ascending | Descending

record ranking_entry =
  ry_rank :: int
  ry_id :: pystr
  ry_value :: "metric_value option"

definition new_ranking_entry :: "int \<Rightarrow> pystr \<Rightarrow> metric_value option \<Rightarrow> ranking_entry result" where
  "new_ranking_entry n i v = (if n \<le> 0 then Inl ValueError else rbind (required_text i) (\<lambda>t. Inr \<lparr>ry_rank = n, ry_id = t, ry_value = v\<rparr>))"

record ranking =
  rg_id :: pystr
  rg_metric :: pystr
  rg_direction :: ranking_direction
  rg_entries :: "ranking_entry list"

definition new_ranking :: "pystr \<Rightarrow> pystr \<Rightarrow> ranking_direction \<Rightarrow> ranking_entry list \<Rightarrow> ranking result" where
  "new_ranking i m d es = rbind (required_text i) (\<lambda>i'. rbind (required_text m) (\<lambda>m'.
     if \<not> distinct (map ry_rank es) then Inl ValueError
     else if sort (map ry_rank es) \<noteq> map int [1..<length es + 1] then Inl ValueError
     else if \<not> distinct (map ry_id es) then Inl ValueError
     else Inr \<lparr>rg_id = i', rg_metric = m', rg_direction = d, rg_entries = es\<rparr>))"

definition best_entry :: "ranking \<Rightarrow> ranking_entry option" where
  "best_entry r = (if rg_entries r = [] then None else Some (hd (sort_key ry_rank (rg_entries r))))"

text \<open>\<open>max\<close> returns the first of the largest.\<close>

definition worst_entry :: "ranking \<Rightarrow> ranking_entry option" where
  "worst_entry r = (if rg_entries r = [] then None else Some (hd (sort_key (\<lambda>e. - ry_rank e) (rg_entries r))))"

datatype report_status = Draft | Final | Archived

record analytics_report =
  an_id :: pystr
  an_title :: pystr
  an_status :: report_status
  an_strategies :: "strategy_analytics list"
  an_portfolios :: "portfolio_analytics list"
  an_rankings :: "ranking list"

definition members_unique :: "analytics_report \<Rightarrow> bool" where
  "members_unique r \<longleftrightarrow> distinct (map sa_id (an_strategies r)) \<and> distinct (map pa_id (an_portfolios r)) \<and> distinct (map rg_id (an_rankings r))"

definition new_report :: "pystr \<Rightarrow> pystr \<Rightarrow> strategy_analytics list \<Rightarrow> portfolio_analytics list \<Rightarrow> ranking list \<Rightarrow> analytics_report result" where
  "new_report i t ss ps rs = rbind (required_text i) (\<lambda>i'. rbind (required_text t) (\<lambda>t'.
     let r = \<lparr>an_id = i', an_title = t', an_status = Draft, an_strategies = ss, an_portfolios = ps, an_rankings = rs\<rparr>
     in if members_unique r then Inr r else Inl ValueError))"

text \<open>Copies are not validated.\<close>

definition add_strategy_analytics :: "strategy_analytics \<Rightarrow> analytics_report \<Rightarrow> analytics_report" where
  "add_strategy_analytics a r = r\<lparr>an_strategies := an_strategies r @ [a]\<rparr>"

definition add_portfolio_analytics :: "portfolio_analytics \<Rightarrow> analytics_report \<Rightarrow> analytics_report" where
  "add_portfolio_analytics a r = r\<lparr>an_portfolios := an_portfolios r @ [a]\<rparr>"

definition add_ranking :: "ranking \<Rightarrow> analytics_report \<Rightarrow> analytics_report" where
  "add_ranking a r = r\<lparr>an_rankings := an_rankings r @ [a]\<rparr>"

definition finalize_report :: "analytics_report \<Rightarrow> analytics_report result" where
  "finalize_report r = (if an_status r = Archived then Inl ValueError else Inr (r\<lparr>an_status := Final\<rparr>))"

definition archive_report :: "analytics_report \<Rightarrow> analytics_report" where
  "archive_report r = r\<lparr>an_status := Archived\<rparr>"

section \<open>Runs\<close>

datatype run_status = RunCreated | RunRunning | RunCompleted | RunFailed

record analytics_run =
  ar_id :: pystr
  ar_name :: pystr
  ar_status :: run_status
  ar_created :: time
  ar_started :: "time option"
  ar_completed :: "time option"
  ar_report :: "analytics_report option"
  ar_error :: "pystr option"

definition lifecycle_ok :: "analytics_run \<Rightarrow> bool" where
  "lifecycle_ok r \<longleftrightarrow>
     (case ar_started r of None \<Rightarrow> True | Some s \<Rightarrow> ar_created r \<le> s) \<and>
     (case ar_completed r of None \<Rightarrow> True | Some c \<Rightarrow> (case ar_started r of None \<Rightarrow> ar_created r | Some s \<Rightarrow> s) \<le> c) \<and>
     (case ar_status r of
        RunCreated \<Rightarrow> ar_started r = None \<and> ar_completed r = None \<and> ar_report r = None \<and> ar_error r = None
      | RunRunning \<Rightarrow> ar_started r \<noteq> None \<and> ar_completed r = None \<and> ar_report r = None \<and> ar_error r = None
      | RunCompleted \<Rightarrow> ar_started r \<noteq> None \<and> ar_completed r \<noteq> None \<and> ar_report r \<noteq> None \<and> ar_error r = None
      | RunFailed \<Rightarrow> ar_started r \<noteq> None \<and> ar_completed r \<noteq> None \<and> ar_report r = None \<and> ar_error r \<noteq> None)"

definition validate_run :: "analytics_run \<Rightarrow> analytics_run result" where
  "validate_run r = rbind (required_text (ar_id r)) (\<lambda>i. rbind (required_text (ar_name r)) (\<lambda>n.
     rbind (case ar_error r of None \<Rightarrow> Inr None | Some e \<Rightarrow> rbind (required_text e) (\<lambda>t. Inr (Some t))) (\<lambda>err.
       let r' = r\<lparr>ar_id := i, ar_name := n, ar_error := err\<rparr> in if lifecycle_ok r' then Inr r' else Inl ValueError)))"

definition new_run :: "pystr \<Rightarrow> pystr \<Rightarrow> time \<Rightarrow> analytics_run result" where
  "new_run i n now = validate_run \<lparr>ar_id = i, ar_name = n, ar_status = RunCreated, ar_created = now, ar_started = None,
     ar_completed = None, ar_report = None, ar_error = None\<rparr>"

definition run_is_terminal :: "analytics_run \<Rightarrow> bool" where
  "run_is_terminal r \<longleftrightarrow> ar_status r = RunCompleted \<or> ar_status r = RunFailed"

definition run_duration :: "analytics_run \<Rightarrow> rat option" where
  "run_duration r = (case (ar_started r, ar_completed r) of
     (Some s, Some c) \<Rightarrow> Some (fdiv (of_int (c - s)) 1000000) | _ \<Rightarrow> None)"

definition start_run :: "time \<Rightarrow> analytics_run \<Rightarrow> analytics_run result" where
  "start_run at' r = (if ar_status r \<noteq> RunCreated then Inl ValueError
     else validate_run (r\<lparr>ar_status := RunRunning, ar_started := Some at', ar_completed := None, ar_report := None, ar_error := None\<rparr>))"

definition started_or_created :: "analytics_run \<Rightarrow> time" where
  "started_or_created r = (case ar_started r of None \<Rightarrow> ar_created r | Some s \<Rightarrow> s)"

definition complete_run :: "analytics_report \<Rightarrow> time \<Rightarrow> analytics_run \<Rightarrow> analytics_run result" where
  "complete_run rep at' r = (if ar_status r \<noteq> RunCreated \<and> ar_status r \<noteq> RunRunning then Inl ValueError
     else validate_run (r\<lparr>ar_status := RunCompleted, ar_started := Some (started_or_created r), ar_completed := Some at',
       ar_report := Some rep, ar_error := None\<rparr>))"

definition fail_run :: "pystr \<Rightarrow> time \<Rightarrow> analytics_run \<Rightarrow> analytics_run result" where
  "fail_run err at' r = (if ar_status r = RunCompleted then Inl ValueError
     else validate_run (r\<lparr>ar_status := RunFailed, ar_started := Some (started_or_created r), ar_completed := Some at',
       ar_report := None, ar_error := Some err\<rparr>))"

section \<open>Reading metrics\<close>

definition metric_aliases :: "(pystr, pystr list) dict" where
  "metric_aliases =
     [(''average_trade'', [''average_trade'', ''expectancy'']), (''calmar_ratio'', [''calmar_ratio'', ''calmar'']),
      (''drawdown'', [''drawdown'', ''max_drawdown'']), (''drawdown_pct'', [''drawdown_pct'', ''max_drawdown_pct'', ''maximum_drawdown'']),
      (''net_profit'', [''net_profit'', ''net_pnl'', ''total_pnl'']), (''profit_factor'', [''profit_factor'']),
      (''return'', [''return'', ''total_return'']), (''sharpe_ratio'', [''sharpe_ratio'', ''sharpe'']),
      (''sortino_ratio'', [''sortino_ratio'', ''sortino'']), (''total_trades'', [''total_trades'', ''num_trades'', ''trade_count'']),
      (''win_rate'', [''win_rate''])]"

fun first_value :: "pystr list \<Rightarrow> (pystr, 'v option) dict \<Rightarrow> 'v option" where
  "first_value [] d = None"
| "first_value (n # ns) d = (case dget d n of Some v \<Rightarrow> v | None \<Rightarrow> first_value ns d)"

definition snapshot_values :: "perf_snapshot \<Rightarrow> (pystr, metric_value option) dict" where
  "snapshot_values s = (let t = ps_trades s; k = ps_risk s in
     [(''average_trade'', Some (MoneyValue (xm_expectancy t))), (''calmar_ratio'', Some (DecimalValue (km_calmar k))),
      (''gross_loss'', Some (MoneyValue (xm_gross_loss t))), (''gross_profit'', Some (MoneyValue (xm_gross_profit t))),
      (''max_drawdown'', Some (PercentValue (km_max_drawdown k))), (''max_drawdown_pct'', Some (PercentValue (km_max_drawdown k))),
      (''net_profit'', Some (MoneyValue (xm_net t))), (''profit_factor'', Some (DecimalValue (xm_profit_factor t))),
      (''sharpe'', Some (DecimalValue (km_sharpe k))), (''sharpe_ratio'', Some (DecimalValue (km_sharpe k))),
      (''sortino'', Some (DecimalValue (km_sortino k))), (''sortino_ratio'', Some (DecimalValue (km_sortino k))),
      (''total_return'', Some (PercentValue (tm_total (ps_returns s)))), (''total_trades'', Some (IntValue (xm_count t))),
      (''trade_count'', Some (IntValue (xm_count t))), (''win_rate'', Some (PercentValue (xm_win_rate t)))])"

definition performance_values :: "performance \<Rightarrow> (pystr, metric_value option) dict" where
  "performance_values m = (let f = (\<lambda>x. Some (FloatValue x)); n = Some (IntValue (int (pm_trades m))) in
     [(''average_trade'', f (pm_expectancy m)), (''avg_loss'', f (pm_avg_loss m)), (''avg_win'', f (pm_avg_win m)),
      (''expectancy'', f (pm_expectancy m)), (''gross_pnl'', f (pm_gross m)), (''largest_loss'', f (pm_largest_loss m)),
      (''largest_win'', f (pm_largest_win m)), (''max_drawdown'', f (pm_max_drawdown m)),
      (''max_drawdown_pct'', f (pm_max_drawdown_pct m)), (''net_pnl'', f (pm_net m)), (''net_profit'', f (pm_net m)),
      (''num_trades'', n), (''profit_factor'', map_option FloatValue (pm_profit_factor m)), (''sharpe'', f (pm_sharpe m)),
      (''sortino'', f (pm_sortino m)), (''total_pnl'', f (pm_total_pnl m)), (''total_return'', f (pm_total_return m)),
      (''total_trades'', n), (''win_rate'', f (pm_win_rate m))])"

definition metric_names :: "pystr \<Rightarrow> pystr list" where
  "metric_names m = (case dget metric_aliases m of Some ns \<Rightarrow> ns | None \<Rightarrow> [m])"

definition source_values :: "metric_source \<Rightarrow> (pystr, metric_value option) dict" where
  "source_values src = (case src of FromSnapshot s \<Rightarrow> snapshot_values s | FromPerformance m \<Rightarrow> performance_values m
     | FromItems d \<Rightarrow> make_dict d)"

definition extract_metric :: "metric_source \<Rightarrow> pystr \<Rightarrow> metric_value option result" where
  "extract_metric src name = rbind (required_text name) (\<lambda>m. Inr (first_value (metric_names m) (source_values src)))"

definition to_sortable :: "metric_value option \<Rightarrow> rat option" where
  "to_sortable v = (case v of None \<Rightarrow> None | Some (MoneyValue m) \<Rightarrow> Some (b64 (my_amount m)) | Some (PercentValue p) \<Rightarrow> Some (b64 p)
     | Some (DecimalValue x) \<Rightarrow> Some (b64 x) | Some (FloatValue x) \<Rightarrow> Some x | Some (IntValue n) \<Rightarrow> Some (b64 (of_int n)))"

section \<open>Curves\<close>

fun drawdown_points :: "a_point \<Rightarrow> a_point list \<Rightarrow> dd_point list result" where
  "drawdown_points peak [] = Inr []"
| "drawdown_points peak (p # ps) = rbind (money_lt (ap_equity peak) (ap_equity p)) (\<lambda>above.
     let top = (if above then p else peak); e = my_amount (ap_equity top);
         d = (if e = 0 then 0 else d28 (d28 (my_amount (ap_equity p) - e) / e))
     in rbind (new_dd_point (ap_time p) d (ap_equity top) (ap_equity p) (ap_time top))
          (\<lambda>x. rbind (drawdown_points top ps) (\<lambda>xs. Inr (x # xs))))"

definition drawdown_curve :: "a_point list \<Rightarrow> dd_point list result" where
  "drawdown_curve ps = (case ps of [] \<Rightarrow> Inr [] | p # _ \<Rightarrow> drawdown_points p ps)"

definition period_return :: "a_point \<times> a_point \<Rightarrow> percentage" where
  "period_return pc = (let e = my_amount (ap_equity (fst pc)) in
     if e = 0 then 0 else d28 (d28 (my_amount (ap_equity (snd pc)) - e) / e))"

definition curve_returns :: "time \<Rightarrow> return_period \<Rightarrow> a_point list \<Rightarrow> return_series result" where
  "curve_returns now period ps = (if ps = [] then new_return_series period [] now now
     else new_return_series period (map period_return (zip ps (tl ps))) (ap_time (hd ps)) (ap_time (last ps)))"

section \<open>Snapshots of metrics\<close>

definition ratio_of :: "(rat \<Rightarrow> rat) \<Rightarrow> rat option \<Rightarrow> rat" where
  "ratio_of dec v = (case v of None \<Rightarrow> 0 | Some x \<Rightarrow> dec x)"

definition return_metrics_of :: "(rat \<Rightarrow> rat) \<Rightarrow> performance \<Rightarrow> return_metrics" where
  "return_metrics_of dec m = (let r = dec (pm_total_return m) in
     \<lparr>tm_total = r, tm_daily = r, tm_weekly = r, tm_monthly = r, tm_annual = r, tm_cagr = r, tm_roi = r\<rparr>)"

definition risk_metrics_of :: "(rat \<Rightarrow> rat) \<Rightarrow> performance \<Rightarrow> risk_metrics result" where
  "risk_metrics_of dec m =
     (let dd = d28 \<bar>dec (pm_max_drawdown_pct m)\<bar>; low = d28 (- dd);
          calmar = (if dd = 0 then 0 else d28 (dec (pm_total_return m) / dd))
      in rbind (if low = 0 then Inr None else rbind (new_value_at_risk low (95 / 100) 1) (\<lambda>v. Inr (Some v))) (\<lambda>v.
        check_risk_metrics \<lparr>km_sharpe = dec (pm_sharpe m), km_sortino = dec (pm_sortino m), km_calmar = calmar, km_treynor = None,
          km_information = None, km_max_drawdown = low, km_avg_drawdown = low, km_duration = 0, km_volatility = 0, km_beta = None,
          km_alpha = None, km_ulcer = dd, km_mar = calmar, km_var = v, km_cvar = v\<rparr>))"

definition loss_rate_of :: "performance \<Rightarrow> rat" where
  "loss_rate_of m = (if pm_trades m = 0 then 0 else d28 (of_nat (pm_losses m) / of_nat (pm_trades m)))"

definition gross_of :: "(rat \<Rightarrow> rat) \<Rightarrow> performance \<Rightarrow> rat" where
  "gross_of dec m = d28 (dec (pm_net m) + d28 (dec (pm_brokerage m) + dec (pm_slippage m)))"

text \<open>The amounts are made in this order, so that the first one that fails decides the error.\<close>

definition trade_metrics_of :: "(rat \<Rightarrow> rat) \<Rightarrow> pystr \<Rightarrow> performance \<Rightarrow> trade_metrics result" where
  "trade_metrics_of dec cur m =
     (let mk = (\<lambda>x. new_money x cur); g = gross_of dec m; r = dec (pm_max_drawdown m) in
      rbind (mk (dec (pm_expectancy m))) (\<lambda>expectancy. rbind (mk (max g 0)) (\<lambda>profit. rbind (mk (min g 0)) (\<lambda>loss.
      rbind (mk (dec (pm_net m))) (\<lambda>net. rbind (zero_money cur) (\<lambda>unrealized.
      rbind (mk (dec (max (pm_avg_win m) 0))) (\<lambda>aw. rbind (mk (dec (min (pm_avg_loss m) 0))) (\<lambda>al.
      rbind (mk (dec (max (pm_largest_win m) 0))) (\<lambda>lw. rbind (mk (dec (min (pm_largest_loss m) 0))) (\<lambda>ll.
      rbind (mk (dec (pm_brokerage m))) (\<lambda>commission. rbind (mk (dec (pm_slippage m))) (\<lambda>slip.
        check_trade_metrics \<lparr>xm_profit_factor = ratio_of dec (pm_profit_factor m),
          xm_recovery = (if r = 0 then 0 else d28 (dec (pm_net m) / d28 \<bar>r\<bar>)),
          xm_payoff = (if pm_avg_loss m = 0 then 0 else d28 (dec (pm_avg_win m) / d28 \<bar>dec (pm_avg_loss m)\<bar>)),
          xm_expectancy = expectancy, xm_win_rate = dec (pm_win_rate m), xm_loss_rate = loss_rate_of m, xm_gross_profit = profit,
          xm_gross_loss = loss, xm_net = net, xm_realized = net, xm_unrealized = unrealized, xm_avg_win = aw, xm_avg_loss = al,
          xm_largest_win = lw, xm_largest_loss = ll, xm_wins_run = 0, xm_losses_run = 0, xm_max_wins_run = 0,
          xm_max_losses_run = 0, xm_holding = pm_avg_bars m, xm_exposure = 0, xm_count = int (pm_trades m),
          xm_long = int (pm_trades m), xm_short = 0, xm_commission = commission, xm_slippage = slip\<rparr>))))))))))))"

definition snapshot_of :: "(rat \<Rightarrow> rat) \<Rightarrow> time \<Rightarrow> pystr \<Rightarrow> performance \<Rightarrow> perf_snapshot result" where
  "snapshot_of dec now cur m = rbind (risk_metrics_of dec m) (\<lambda>k. rbind (trade_metrics_of dec cur m) (\<lambda>t.
     Inr \<lparr>ps_time = now, ps_returns = return_metrics_of dec m, ps_risk = k, ps_trades = t\<rparr>))"

section \<open>Portfolios\<close>

definition stable_id :: "(pystr \<Rightarrow> pystr) \<Rightarrow> pystr \<Rightarrow> pystr list \<Rightarrow> pystr" where
  "stable_id hash pre parts = pre @ ''_'' @ take 16 (hash (concat (case parts of [] \<Rightarrow> [] | p # ps \<Rightarrow> p # map (\<lambda>q. ''|'' @ q) ps)))"

text \<open>The realised profit of a point is its equity less the starting capital, a float.\<close>

definition analytics_point :: "(rat \<Rightarrow> rat) \<Rightarrow> rat \<Rightarrow> pystr \<Rightarrow> time \<times> rat \<Rightarrow> a_point result" where
  "analytics_point dec capital cur p = rbind (new_money (dec (snd p)) cur) (\<lambda>e.
     rbind (new_money (dec (fsub (snd p) capital)) cur) (\<lambda>r. rbind (zero_money cur) (\<lambda>u. new_a_point (fst p) e r u)))"

definition analytics_curve :: "(rat \<Rightarrow> rat) \<Rightarrow> rat \<Rightarrow> pystr \<Rightarrow> (time \<times> rat) list \<Rightarrow> a_point list result" where
  "analytics_curve dec capital cur ps = collect (map (analytics_point dec capital cur) ps)"

definition portfolio_analytics_of :: "(rat \<Rightarrow> rat) \<Rightarrow> (pystr \<Rightarrow> pystr) \<Rightarrow> (rat \<Rightarrow> pystr) \<Rightarrow> time \<Rightarrow> pystr \<Rightarrow> portfolio \<Rightarrow> performance \<Rightarrow> pystr
    \<Rightarrow> portfolio_analytics result" where
  "portfolio_analytics_of dec hash fs now i p m cur =
     rbind (analytics_curve dec (pf_starting p) cur (pf_equity p)) (\<lambda>curve.
       rbind (snapshot_of dec now cur m) (\<lambda>s. rbind (drawdown_curve curve) (\<lambda>dds. rbind (curve_returns now Daily curve) (\<lambda>rets.
         new_portfolio_analytics (stable_id hash ''portfolio_analytics'' [i, str_nat (length (pf_equity p)), fs (pm_ending m)])
           i s (pf_trades p) curve dds rets))))"

section \<open>Rankings and reports\<close>

definition default_direction :: "pystr \<Rightarrow> ranking_direction" where
  "default_direction m = (if m \<in> set [''max_drawdown'', ''max_drawdown_pct'', ''drawdown'', ''drawdown_pct''] then Ascending else Descending)"

fun direction_text :: "ranking_direction \<Rightarrow> pystr" where
  "direction_text Ascending = ''ascending''"
| "direction_text Descending = ''descending''"

definition metric_of :: "pystr \<Rightarrow> strategy_analytics \<Rightarrow> metric_value option" where
  "metric_of metric a = first_value (metric_names metric) (source_values (sa_source a))"

definition analytics_key :: "pystr \<Rightarrow> ranking_direction \<Rightarrow> strategy_analytics \<Rightarrow> rank_key" where
  "analytics_key metric d a = (case to_sortable (metric_of metric a) of
     None \<Rightarrow> RankKey True 0 (sa_id a) | Some v \<Rightarrow> RankKey False (if d = Descending then - v else v) (sa_id a))"

definition rank_analytics :: "(pystr \<Rightarrow> pystr) \<Rightarrow> strategy_analytics list \<Rightarrow> pystr \<Rightarrow> ranking_direction option \<Rightarrow> ranking result" where
  "rank_analytics hash as name dir = rbind (required_text name) (\<lambda>metric.
     let d = (case dir of Some x \<Rightarrow> x | None \<Rightarrow> default_direction metric);
         ordered = sort_key (analytics_key metric d) as
     in rbind (collect (map (\<lambda>(i, a). new_ranking_entry (int i + 1) (sa_id a) (metric_of metric a)) (enumerate 0 ordered)))
          (\<lambda>es. new_ranking (stable_id hash ''ranking'' [metric, direction_text d, str_nat (length es)]) metric d es))"

definition create_report :: "(pystr \<Rightarrow> pystr) \<Rightarrow> pystr \<Rightarrow> strategy_analytics list \<Rightarrow> portfolio_analytics list \<Rightarrow> ranking list
    \<Rightarrow> analytics_report result" where
  "create_report hash title ss ps rs = new_report (stable_id hash ''analytics_report''
     [title, str_nat (length ss), str_nat (length ps), str_nat (length rs)]) title ss ps rs"

definition metric_items :: "metric_map \<Rightarrow> (pystr \<times> metric_value option) list" where
  "metric_items m = sorted_items (map (\<lambda>(k, v). (k, map_option FloatValue v)) m)"

definition from_scenario_result :: "(pystr \<Rightarrow> pystr) \<Rightarrow> scenario_result \<Rightarrow> strategy_analytics result" where
  "from_scenario_result hash r = new_strategy_analytics (stable_id hash ''strategy_analytics'' [sc_id (rs_scenario r)]) (rs_scenario r)
     (FromItems (metric_items (rs_metrics r)))"

definition from_scenario_metrics :: "(pystr \<Rightarrow> pystr) \<Rightarrow> scenario \<Rightarrow> performance \<Rightarrow> strategy_analytics result" where
  "from_scenario_metrics hash s m = new_strategy_analytics (stable_id hash ''strategy_analytics'' [sc_id s]) s (FromPerformance m)"

definition report_of_results :: "(pystr \<Rightarrow> pystr) \<Rightarrow> result_set \<Rightarrow> pystr \<Rightarrow> pystr list \<Rightarrow> analytics_report result" where
  "report_of_results hash rs title metrics = rbind (collect (map (from_scenario_result hash) (completed rs))) (\<lambda>ss.
     rbind (collect (map (\<lambda>m. rank_analytics hash ss m None) metrics)) (\<lambda>rks. create_report hash title ss [] rks))"

end
