(* ===== verification/AnalyticsFacts.thy ===== *)
theory AnalyticsFacts imports Analytics begin

text \<open>
  Facts about analytics: money is exact on whole cents, the snapshot of metrics is accepted unless its rates
  round above one, drawdown curves are valid, runs keep their lifecycle, reports need distinct members.
\<close>

section \<open>Rounding to the nearest integer\<close>

locale nearest =
  fixes rnd :: "rat \<Rightarrow> int"
  assumes rnd_le: "of_int (rnd x) \<le> x + 1 / 2"
    and rnd_ge: "x - 1 / 2 \<le> of_int (rnd x)"
    and rnd_mono: "x \<le> y \<Longrightarrow> rnd x \<le> rnd y"
    and rnd_minus: "rnd (- x) = - rnd x"
begin

lemma rnd_of_int [simp]: "rnd (of_int n) = n"
  using rnd_le [of "of_int n"] rnd_ge [of "of_int n"] by linarith

lemma rnd_0 [simp]: "rnd 0 = 0"
  using rnd_of_int [of 0] by simp

lemma rnd_sign: "0 \<le> x \<Longrightarrow> 0 \<le> rnd x" "x \<le> 0 \<Longrightarrow> rnd x \<le> 0"
  using rnd_mono [of 0 x] rnd_mono [of x 0] by auto

lemma rnd_max_min: "rnd (max x 0) + rnd (min x 0) = rnd x"
  by (simp add: max_def min_def)

lemma quantize_cents_eq: "\<bar>x\<bar> \<le> 10 ^ 25 \<Longrightarrow> quantize_cents rnd x = Inr (of_int (rnd (x * 100)) / 100)"
proof -
  assume "\<bar>x\<bar> \<le> 10 ^ 25"
  then have "of_int (rnd (x * 100)) < (10 ^ 28 :: rat)" "- (10 ^ 28 :: rat) < of_int (rnd (x * 100))"
    using rnd_le [of "x * 100"] rnd_ge [of "x * 100"] unfolding abs_le_iff by simp_all
  then have "rnd (x * 100) < 10 ^ 28" "- (10 ^ 28) < rnd (x * 100)"
    by (simp_all only: of_int_less_iff [where 'a = rat, symmetric] of_int_minus of_int_numeral of_int_power)
  then show ?thesis by (simp add: quantize_cents_def Let_def)
qed

lemma quantize_whole_cents: "\<bar>n\<bar> < 10 ^ 28 \<Longrightarrow> quantize_cents rnd (of_int n / 100) = Inr (of_int n / 100)"
  by (simp add: quantize_cents_def Let_def)

lemma quantize_centsE:
  assumes "quantize_cents rnd x = Inr a"
  obtains n where "a = of_int n / 100" "\<bar>n\<bar> < 10 ^ 28" "\<bar>a - x\<bar> \<le> 1 / 200"
proof (rule that)
  show "a = of_int (rnd (x * 100)) / 100" "\<bar>rnd (x * 100)\<bar> < 10 ^ 28"
    using assms by (auto simp: quantize_cents_def Let_def split: if_splits)
  then show "\<bar>a - x\<bar> \<le> 1 / 200"
    using rnd_le [of "x * 100"] rnd_ge [of "x * 100"] unfolding abs_le_iff by simp
qed

end

interpretation half_even: nearest rne
proof
  show "of_int (rne x) \<le> x + 1 / 2" "x - 1 / 2 \<le> of_int (rne x)" for x
    using rne_error [of x] unfolding abs_le_iff by linarith+
qed (simp_all add: rne_mono rne_minus)

lemma half_up_le: "0 \<le> x \<Longrightarrow> of_int (half_up x) \<le> x + 1 / 2" "0 \<le> x \<Longrightarrow> x - 1 / 2 < of_int (half_up x)"
  "x < 0 \<Longrightarrow> of_int (half_up x) < x + 1 / 2" "x < 0 \<Longrightarrow> x - 1 / 2 \<le> of_int (half_up x)"
  by (simp_all add: half_up_def) linarith+

lemma half_up_minus: "half_up (- x) = - half_up x"
proof (cases "x = 0")
  case True
  have "\<lfloor>1 / 2 :: rat\<rfloor> = 0" by linarith
  then show ?thesis using True by (simp add: half_up_def)
qed (auto simp: half_up_def algebra_simps)

lemma half_up_mono: "x \<le> y \<Longrightarrow> half_up x \<le> half_up y"
proof -
  assume xy: "x \<le> y"
  consider "0 \<le> x" | "x < 0" "0 \<le> y" | "y < 0" by linarith
  then show ?thesis
  proof cases
    case 1 then show ?thesis using xy by (simp add: half_up_def floor_mono)
  next
    case 2 then show ?thesis by (simp add: half_up_def) linarith
  next
    case 3 then show ?thesis using xy by (simp add: half_up_def floor_mono)
  qed
qed

interpretation half_up: nearest half_up
proof
  show "of_int (half_up x) \<le> x + 1 / 2" "x - 1 / 2 \<le> of_int (half_up x)" for x
    using half_up_le [of x] by (cases "0 \<le> x"; simp)+
qed (auto simp: half_up_mono half_up_minus)

text \<open>Four rounded amounts that balance before rounding are at most one apart after it.\<close>

lemma half_up_balance:
  assumes "0 \<le> b" "0 \<le> s"
  shows "\<bar>half_up (n + b + s) - half_up b - half_up s - half_up n\<bar> \<le> 1"
proof -
  let ?d = "half_up (n + b + s) - half_up b - half_up s - half_up n"
  have "of_int ?d < (2 :: rat)" "- 2 < (of_int ?d :: rat)"
    using half_up_le [of b] half_up_le [of s] half_up_le [of n] half_up_le [of "n + b + s"] assms
    by (cases "0 \<le> n"; cases "0 \<le> n + b + s"; simp)+
  then show ?thesis by linarith
qed

section \<open>Money\<close>

definition currency_ok :: "pystr \<Rightarrow> bool" where
  "currency_ok c \<longleftrightarrow> length c = 3 \<and> list_all is_alpha c \<and> str_upper c = c"

definition wf_money :: "money \<Rightarrow> bool" where
  "wf_money m \<longleftrightarrow> of_int \<lfloor>my_amount m * 100\<rfloor> = my_amount m * 100 \<and> \<bar>my_amount m\<bar> < 10 ^ 26 \<and> currency_ok (my_currency m)"

lemma str_strip_alpha: "list_all is_alpha c \<Longrightarrow> str_strip c = c"
proof -
  have a: "is_alpha x \<Longrightarrow> \<not> is_space x" for x by (auto simp: is_alpha_def is_space_def Let_def)
  assume "list_all is_alpha c"
  then have "\<not> is_space x" if "x \<in> set c" for x using that a by (auto simp: list_all_iff)
  then have "dropWhile is_space c = c" "dropWhile is_space (rev c) = rev c"
    by (metis dropWhile_eq_self_iff hd_in_set set_rev)+
  then show ?thesis by (simp add: str_strip_def)
qed

lemma str_upper_idem [simp]: "str_upper (str_upper s) = str_upper s"
proof -
  have "of_char x < (256 :: nat)" for x :: char
    by (metis of_char_mod_256 mod_less_divisor zero_less_numeral)
  then have "((of_char x - 32) mod 256 :: nat) = of_char x - 32" for x :: char
    by (intro mod_less) (rule le_less_trans [OF diff_le_self])
  then show ?thesis by (auto simp: str_upper_def Let_def)
qed

lemma new_money_eq:
  assumes "currency_ok (str_upper (str_strip cur))"
  shows "new_money x cur = rbind (quantize_cents half_up x) (\<lambda>a. Inr \<lparr>my_amount = a, my_currency = str_upper (str_strip cur)\<rparr>)"
  using assms by (simp add: new_money_def currency_ok_def)

lemma currency_normal: "currency_ok c \<Longrightarrow> str_upper (str_strip c) = c"
  by (simp add: currency_ok_def str_strip_alpha)

lemma new_money_wf: "new_money x cur = Inr m \<Longrightarrow> wf_money m"
  by (auto simp: new_money_def rbind_Inr_iff wf_money_def currency_ok_def Let_def elim!: half_up.quantize_centsE)

lemma wf_moneyE:
  assumes "wf_money m"
  obtains n where "my_amount m = of_int n / 100" "\<bar>n\<bar> < 10 ^ 28"
proof (rule that)
  have eq: "of_int \<lfloor>my_amount m * 100\<rfloor> = my_amount m * 100" using assms unfolding wf_money_def by blast
  then show "my_amount m = of_int \<lfloor>my_amount m * 100\<rfloor> / 100" by linarith
  have "\<bar>of_int \<lfloor>my_amount m * 100\<rfloor>\<bar> < (10 ^ 28 :: rat)" using assms unfolding wf_money_def eq by (simp add: abs_mult)
  then show "\<bar>\<lfloor>my_amount m * 100\<rfloor>\<bar> < 10 ^ 28"
    by (simp only: of_int_less_iff [where 'a = rat, symmetric] of_int_abs of_int_numeral of_int_power)
qed

lemma d28_scaled: "\<bar>n\<bar> \<le> 10 ^ 28 \<Longrightarrow> d28 (of_int n / 10 ^ k) = of_int n / 10 ^ k"
  using fl_exact [of n 10 28 "- int k"] by (simp add: d28_def power_int_minus divide_inverse)

lemma d28_cents: "\<bar>n\<bar> \<le> 10 ^ 28 \<Longrightarrow> d28 (of_int n / 100) = of_int n / 100"
  using d28_scaled [of n 2] by simp

lemma d28_mono: "x \<le> y \<Longrightarrow> d28 x \<le> d28 y"
  by (simp add: d28_def fl_mono)

lemma d28_minus [simp]: "d28 (- x) = - d28 x"
  by (simp add: d28_def fl_minus)

lemma d28_0 [simp]: "d28 0 = 0"
  by (simp add: d28_def)

lemma d28_1 [simp]: "d28 1 = 1"
  using d28_scaled [of 1 0] by simp

lemma d28_idem [simp]: "d28 (d28 x) = d28 x"
  by (simp add: d28_def fl_idem)

lemma d28_sign: "0 \<le> x \<Longrightarrow> 0 \<le> d28 x" "x \<le> 0 \<Longrightarrow> d28 x \<le> 0"
  using d28_mono [of 0 x] d28_mono [of x 0] by auto

lemma d28_abs: "d28 \<bar>x\<bar> = \<bar>d28 x\<bar>"
  using d28_sign [of x] by (cases "0 \<le> x") (auto simp: abs_if)

lemma d28_eq_0_iff [simp]: "d28 x = 0 \<longleftrightarrow> x = 0"
  using fl_pos [of x 10 28] fl_pos [of "- x" 10 28] by (cases "x = 0"; cases "0 < x") (auto simp: d28_def fl_minus)

lemma cents_bound: "10 ^ 26 \<le> \<bar>of_int n / 100 :: rat\<bar> \<longleftrightarrow> 10 ^ 28 \<le> \<bar>n\<bar>"
proof -
  have "10 ^ 26 \<le> \<bar>of_int n / 100 :: rat\<bar> \<longleftrightarrow> (of_int (10 ^ 28) :: rat) \<le> of_int \<bar>n\<bar>" by simp
  then show ?thesis by (simp only: of_int_le_iff)
qed

text \<open>A sum of whole cents is exact, or too long to be quantised.\<close>

lemma quantize_sum:
  assumes "\<bar>n\<bar> \<le> 2 * 10 ^ 28"
  shows "quantize_cents half_up (d28 (of_int n / 100)) = (if 10 ^ 28 \<le> \<bar>n\<bar> then Inl InvalidOperation else Inr (of_int n / 100))"
proof (cases "\<bar>n\<bar> < 10 ^ 28")
  case True
  then show ?thesis by (simp add: d28_cents half_up.quantize_whole_cents)
next
  case False
  have top: "d28 (10 ^ 26) = 10 ^ 26" using d28_scaled [of "10 ^ 26" 0] by simp
  have "10 ^ 26 \<le> \<bar>of_int n / 100 :: rat\<bar>" using False unfolding cents_bound by simp
  then have "10 ^ 26 \<le> \<bar>d28 (of_int n / 100)\<bar>" using d28_mono [of "10 ^ 26" "\<bar>of_int n / 100\<bar>"] by (simp only: top d28_abs)
  then have "10 ^ 28 \<le> d28 (of_int n / 100) * 100 \<or> d28 (of_int n / 100) * 100 \<le> - (10 ^ 28)" by (simp add: abs_if split: if_splits)
  then have "10 ^ 28 \<le> \<bar>half_up (d28 (of_int n / 100) * 100)\<bar>"
    using half_up.rnd_mono [of "of_int (10 ^ 28)" "d28 (of_int n / 100) * 100"]
      half_up.rnd_mono [of "d28 (of_int n / 100) * 100" "of_int (- (10 ^ 28))"]
    unfolding half_up.rnd_of_int by auto
  then show ?thesis using False by (simp add: quantize_cents_def Let_def)
qed

lemma money_add_eq:
  assumes "wf_money a" "wf_money b"
  shows "money_add a b = (if my_currency a \<noteq> my_currency b then Inl ValueError
    else if 10 ^ 26 \<le> \<bar>my_amount a + my_amount b\<bar> then Inl InvalidOperation
    else Inr \<lparr>my_amount = my_amount a + my_amount b, my_currency = my_currency a\<rparr>)"
proof -
  obtain n where n: "my_amount a = of_int n / 100" "\<bar>n\<bar> < 10 ^ 28" using assms(1) by (rule wf_moneyE)
  obtain k where k: "my_amount b = of_int k / 100" "\<bar>k\<bar> < 10 ^ 28" using assms(2) by (rule wf_moneyE)
  have sum: "my_amount a + my_amount b = of_int (n + k) / 100" by (simp add: n k add_divide_distrib)
  have c: "currency_ok (str_upper (str_strip (my_currency a)))" "str_upper (str_strip (my_currency a)) = my_currency a"
    using assms(1) by (simp_all add: wf_money_def currency_normal)
  show ?thesis unfolding money_add_def same_currency_def sum cents_bound new_money_eq [OF c(1)]
    using n(2) k(2) by (simp add: quantize_sum c(2) del: of_int_add)
qed


lemma money_sub_back:
  assumes "wf_money a" "wf_money b" "my_currency a = my_currency b"
  shows "money_sub \<lparr>my_amount = my_amount a + my_amount b, my_currency = my_currency a\<rparr> b = Inr a"
proof -
  obtain n where n: "my_amount a = of_int n / 100" "\<bar>n\<bar> < 10 ^ 28" using assms(1) by (rule wf_moneyE)
  have c: "currency_ok (str_upper (str_strip (my_currency a)))" "str_upper (str_strip (my_currency a)) = my_currency a"
    using assms(1) by (simp_all add: wf_money_def currency_normal)
  have "quantize_cents half_up (d28 (my_amount a)) = Inr (my_amount a)" using n(2) quantize_sum [of n] unfolding n(1) by simp
  then show ?thesis using new_money_eq [OF c(1)] unfolding c(2) by (simp add: money_sub_def same_currency_def assms(3))
qed

text \<open>Adding money of one currency is exact on whole cents and raises when the sum no longer fits 28 digits;
  the sum is again an amount of whole cents, and subtracting either part gives the other one back.\<close>

theorem money_addition_exact:
  assumes "wf_money a" "wf_money b" "my_currency a = my_currency b"
  shows "case money_add a b of
      Inl e \<Rightarrow> e = InvalidOperation \<and> 10 ^ 26 \<le> \<bar>my_amount a + my_amount b\<bar>
    | Inr c \<Rightarrow> my_amount c = my_amount a + my_amount b \<and> wf_money c \<and> money_sub c b = Inr a \<and> money_sub c a = Inr b"
proof -
  have "wf_money c" if "money_add a b = Inr c" for c
    using that assms(3) new_money_wf by (auto simp: money_add_def same_currency_def)
  then show ?thesis using assms money_sub_back [of a b] money_sub_back [of b a]
    by (simp add: money_add_eq [OF assms(1,2)] add.commute)
qed

definition demo_money :: "rat \<Rightarrow> money" where
  "demo_money x = \<lparr>my_amount = x, my_currency = ''USD''\<rparr>"

lemma usd_ok: "currency_ok ''USD''" "str_upper (str_strip ''USD'') = ''USD''"
  by code_simp+

theorem money_addition_exact_witness:
  "money_sub (demo_money (1035 / 100)) (demo_money (25 / 100)) = Inr (demo_money (101 / 10))"
proof -
  have w: "wf_money (demo_money (101 / 10))" "wf_money (demo_money (25 / 100))"
    by (simp_all add: wf_money_def demo_money_def usd_ok)
  have c: "my_currency (demo_money (101 / 10)) = my_currency (demo_money (25 / 100))" by (simp add: demo_money_def)
  have "money_add (demo_money (101 / 10)) (demo_money (25 / 100)) = Inr (demo_money (1035 / 100))"
    unfolding money_add_eq [OF w] by (simp add: demo_money_def)
  then show ?thesis using money_addition_exact [OF w c] by simp
qed

section \<open>Snapshots\<close>

text \<open>A number with at most seventeen decimals and ten digits before them.\<close>

definition short_decimal :: "rat \<Rightarrow> bool" where
  "short_decimal x \<longleftrightarrow> of_int \<lfloor>x * 10 ^ 17\<rfloor> = x * 10 ^ 17 \<and> \<bar>x\<bar> \<le> 10 ^ 10"

lemma short_decimalE:
  assumes "short_decimal x"
  obtains n where "x = of_int n / 10 ^ 17" "\<bar>n\<bar> \<le> 10 ^ 27"
proof (rule that)
  have eq: "of_int \<lfloor>x * 10 ^ 17\<rfloor> = x * 10 ^ 17" using assms unfolding short_decimal_def by blast
  show "x = of_int \<lfloor>x * 10 ^ 17\<rfloor> / 10 ^ 17" by (simp only: eq) simp
  have "\<bar>of_int \<lfloor>x * 10 ^ 17\<rfloor>\<bar> \<le> (10 ^ 27 :: rat)" using assms unfolding short_decimal_def eq by (simp add: abs_mult)
  then show "\<bar>\<lfloor>x * 10 ^ 17\<rfloor>\<bar> \<le> 10 ^ 27"
    by (simp only: of_int_le_iff [where 'a = rat, symmetric] of_int_abs of_int_numeral of_int_power)
qed

lemma short_decimal_le: "short_decimal x \<Longrightarrow> \<bar>x\<bar> \<le> 10 ^ 10"
  by (simp add: short_decimal_def)

lemma gross_exact:
  assumes "short_decimal (dec (pm_net m))" "short_decimal (dec (pm_brokerage m))" "short_decimal (dec (pm_slippage m))"
  shows "gross_of dec m = dec (pm_net m) + dec (pm_brokerage m) + dec (pm_slippage m)"
proof -
  obtain n where n: "dec (pm_net m) = of_int n / 10 ^ 17" "\<bar>n\<bar> \<le> 10 ^ 27" using assms(1) by (rule short_decimalE)
  obtain b where b: "dec (pm_brokerage m) = of_int b / 10 ^ 17" "\<bar>b\<bar> \<le> 10 ^ 27" using assms(2) by (rule short_decimalE)
  obtain s where s: "dec (pm_slippage m) = of_int s / 10 ^ 17" "\<bar>s\<bar> \<le> 10 ^ 27" using assms(3) by (rule short_decimalE)
  have 1: "of_int b / 10 ^ 17 + of_int s / 10 ^ 17 = (of_int (b + s) / 10 ^ 17 :: rat)"
    "of_int n / 10 ^ 17 + of_int (b + s) / 10 ^ 17 = (of_int (n + b + s) / 10 ^ 17 :: rat)"
    by (simp_all add: field_simps)
  have d: "d28 (of_int (b + s) / 10 ^ 17) = of_int (b + s) / 10 ^ 17" "d28 (of_int (n + b + s) / 10 ^ 17) = of_int (n + b + s) / 10 ^ 17"
    using n(2) b(2) s(2) by (intro d28_scaled; simp)+
  show ?thesis unfolding gross_of_def n(1) b(1) s(1) 1(1) d(1) 1(2) d(2) by (simp add: field_simps)
qed

text \<open>The printed text of a float keeps its sign.\<close>

definition keeps_sign :: "(rat \<Rightarrow> rat) \<Rightarrow> bool" where
  "keeps_sign dec \<longleftrightarrow> (\<forall>x. (0 \<le> x \<longrightarrow> 0 \<le> dec x) \<and> (x \<le> 0 \<longrightarrow> dec x \<le> 0))"

lemma risk_metrics_ok: "\<exists>k. risk_metrics_of dec m = Inr k \<and> km_max_drawdown k = - d28 \<bar>dec (pm_max_drawdown_pct m)\<bar>"
  using d28_sign(1) [of "\<bar>dec (pm_max_drawdown_pct m)\<bar>"]
  by (auto simp: risk_metrics_of_def Let_def new_value_at_risk_def check_risk_metrics_def)

definition cents :: "rat \<Rightarrow> rat" where
  "cents x = of_int (half_up (x * 100)) / 100"

lemma cents_sign: "0 \<le> x \<Longrightarrow> 0 \<le> cents x" "x \<le> 0 \<Longrightarrow> cents x \<le> 0"
  using half_up.rnd_sign [of "x * 100"] by (simp_all add: cents_def)

lemma cents_0 [simp]: "cents 0 = 0"
  by (simp add: cents_def)

lemma new_money_cents:
  assumes "currency_ok (str_upper (str_strip cur))" "\<bar>x\<bar> \<le> 10 ^ 25"
  shows "new_money x cur = Inr \<lparr>my_amount = cents x, my_currency = str_upper (str_strip cur)\<rparr>"
  by (simp add: new_money_eq [OF assms(1)] half_up.quantize_cents_eq [OF assms(2)] cents_def)

lemma cents_wf: "currency_ok c \<Longrightarrow> \<bar>x\<bar> \<le> 10 ^ 25 \<Longrightarrow> wf_money \<lparr>my_amount = cents x, my_currency = c\<rparr>"
  using new_money_wf new_money_cents [of c x] by (simp add: currency_normal)

text \<open>The rounded amounts of a snapshot are at most a cent out of balance.\<close>

lemma cents_balance:
  assumes "0 \<le> b" "0 \<le> s" and g: "g = n + b + s"
  shows "\<bar>cents (max g 0) + cents (min g 0) - cents b - cents s - cents n\<bar> \<le> 1 / 100"
proof -
  have m: "max g 0 * 100 = max (g * 100) 0" "min g 0 * 100 = min (g * 100) 0" by (simp_all add: max_def min_def)
  have "g * 100 = n * 100 + b * 100 + s * 100" by (simp add: g)
  then have "\<bar>half_up (g * 100) - half_up (b * 100) - half_up (s * 100) - half_up (n * 100)\<bar> \<le> 1"
    using half_up_balance [of "b * 100" "s * 100" "n * 100"] assms(1,2) by simp
  then have "\<bar>of_int (half_up (max g 0 * 100) + half_up (min g 0 * 100) - half_up (b * 100) - half_up (s * 100) - half_up (n * 100)) :: rat\<bar> \<le> 1"
    unfolding m half_up.rnd_max_min by (metis of_int_1_le_iff of_int_abs of_int_le_1_iff)
  then show ?thesis unfolding cents_def by (simp add: diff_divide_distrib [symmetric] add_divide_distrib [symmetric] abs_divide)
qed

lemma add_small:
  assumes "wf_money a" "wf_money b" "my_currency a = my_currency b" "\<bar>my_amount a + my_amount b\<bar> < 10 ^ 26"
  shows "money_add a b = Inr \<lparr>my_amount = my_amount a + my_amount b, my_currency = my_currency a\<rparr>"
  using assms by (simp add: money_add_eq)

lemma neg_wf: "wf_money m \<Longrightarrow> wf_money (m\<lparr>my_amount := - my_amount m\<rparr>)"
proof -
  assume w: "wf_money m"
  then obtain n where n: "my_amount m = of_int n / 100" by (rule wf_moneyE)
  have "my_amount m * 100 = of_int n" by (simp add: n)
  then show ?thesis using w by (simp add: wf_money_def n)
qed

lemma sub_is_add:
  assumes "my_currency a = my_currency b"
  shows "money_sub a b = money_add a (b\<lparr>my_amount := - my_amount b\<rparr>)"
  using assms by (simp add: money_sub_def money_add_def same_currency_def)

lemma sub_small:
  assumes "wf_money a" "wf_money b" "my_currency a = my_currency b" "\<bar>my_amount a - my_amount b\<bar> < 10 ^ 26"
  shows "money_sub a b = Inr \<lparr>my_amount = my_amount a - my_amount b, my_currency = my_currency a\<rparr>"
  using assms add_small [OF assms(1) neg_wf [OF assms(2)]] by (simp add: sub_is_add)

lemma add_wf: "money_add a b = Inr c \<Longrightarrow> wf_money c"
  by (auto simp: money_add_def same_currency_def dest: new_money_wf split: if_splits)

lemma sub_wf: "money_sub a b = Inr c \<Longrightarrow> wf_money c"
  by (auto simp: money_sub_def same_currency_def dest: new_money_wf split: if_splits)

definition in_currency :: "pystr \<Rightarrow> rat \<Rightarrow> money \<Rightarrow> bool" where
  "in_currency c bnd m \<longleftrightarrow> wf_money m \<and> my_currency m = c \<and> \<bar>my_amount m\<bar> \<le> bnd"

text \<open>The balance is computed without error, because every partial sum is a whole number of cents.\<close>

lemma check_pnl_eq:
  assumes "in_currency c (10 ^ 24) (xm_gross_profit m)" "in_currency c (10 ^ 24) (xm_gross_loss m)"
    "in_currency c (10 ^ 24) (xm_commission m)" "in_currency c (10 ^ 24) (xm_slippage m)" "in_currency c (10 ^ 24) (xm_net m)"
  shows "check_pnl m = require (\<bar>my_amount (xm_gross_profit m) + my_amount (xm_gross_loss m) - my_amount (xm_commission m)
    - my_amount (xm_slippage m) - my_amount (xm_net m)\<bar> \<le> 1 / 100) ValueError"
proof -
  let ?p = "my_amount (xm_gross_profit m)" and ?l = "my_amount (xm_gross_loss m)" and ?b = "my_amount (xm_commission m)"
    and ?s = "my_amount (xm_slippage m)" and ?n = "my_amount (xm_net m)"
  have w: "\<bar>?p\<bar> \<le> 10 ^ 24" "\<bar>?l\<bar> \<le> 10 ^ 24" "\<bar>?b\<bar> \<le> 10 ^ 24" "\<bar>?s\<bar> \<le> 10 ^ 24" "\<bar>?n\<bar> \<le> 10 ^ 24"
    using assms by (simp_all add: in_currency_def)
  have u: "\<bar>?p + ?l\<bar> < 10 ^ 26" "\<bar>?p + ?l - ?b\<bar> < 10 ^ 26" "\<bar>?p + ?l - ?b - ?s\<bar> < 10 ^ 26" using w by simp_all
  have 1: "money_add (xm_gross_profit m) (xm_gross_loss m) = Inr \<lparr>my_amount = ?p + ?l, my_currency = c\<rparr>"
    using assms u by (simp add: in_currency_def add_small)
  have 2: "money_sub \<lparr>my_amount = ?p + ?l, my_currency = c\<rparr> (xm_commission m) = Inr \<lparr>my_amount = ?p + ?l - ?b, my_currency = c\<rparr>"
    using assms u add_wf [OF 1] by (simp add: in_currency_def sub_small)
  have 3: "money_sub \<lparr>my_amount = ?p + ?l - ?b, my_currency = c\<rparr> (xm_slippage m) = Inr \<lparr>my_amount = ?p + ?l - ?b - ?s, my_currency = c\<rparr>"
    using assms u sub_wf [OF 2] by (simp add: in_currency_def sub_small)
  obtain k where k: "?p + ?l - ?b - ?s = of_int k / 100" using sub_wf [OF 3] by (auto elim: wf_moneyE)
  obtain j where j: "?n = of_int j / 100" using assms(5) by (auto simp: in_currency_def elim: wf_moneyE)
  have e: "?p + ?l - ?b - ?s - ?n = of_int (k - j) / 100" by (simp add: k j diff_divide_distrib)
  have "\<not> 10 ^ 26 \<le> \<bar>?p + ?l - ?b - ?s - ?n\<bar>" using w by simp
  then have "\<bar>k - j\<bar> \<le> 10 ^ 28" unfolding e cents_bound by simp
  then have "d28 (?p + ?l - ?b - ?s - ?n) = ?p + ?l - ?b - ?s - ?n" unfolding e by (rule d28_cents)
  then have "d28 \<bar>d28 (?p + ?l - ?b - ?s - ?n)\<bar> = \<bar>?p + ?l - ?b - ?s - ?n\<bar>" by (simp only: d28_abs)
  then show ?thesis by (simp add: check_pnl_def 1 2 3)
qed

definition rates_fit :: "(rat \<Rightarrow> rat) \<Rightarrow> performance \<Rightarrow> bool" where
  "rates_fit dec m \<longleftrightarrow> 0 \<le> dec (pm_win_rate m) \<and> dec (pm_win_rate m) \<le> 1 \<and> loss_rate_of m \<le> 1 \<and>
     d28 (dec (pm_win_rate m) + loss_rate_of m) \<le> 1"

text \<open>The hypotheses on the metrics: costs that are not negative, amounts that are not astronomic and short enough to
  be added without rounding.\<close>

definition ordinary :: "(rat \<Rightarrow> rat) \<Rightarrow> performance \<Rightarrow> bool" where
  "ordinary dec m \<longleftrightarrow> keeps_sign dec \<and> short_decimal (dec (pm_net m)) \<and> short_decimal (dec (pm_brokerage m)) \<and>
     short_decimal (dec (pm_slippage m)) \<and> 0 \<le> pm_brokerage m \<and> 0 \<le> pm_slippage m \<and> 0 \<le> pm_avg_bars m \<and>
     list_all (\<lambda>x. \<bar>dec x\<bar> \<le> 10 ^ 22) [pm_expectancy m, max (pm_avg_win m) 0, min (pm_avg_loss m) 0, max (pm_largest_win m) 0,
       min (pm_largest_loss m) 0]"

lemma cents_bounded: "\<bar>x\<bar> \<le> 10 ^ 23 \<Longrightarrow> \<bar>cents x\<bar> \<le> 10 ^ 24"
proof -
  assume x: "\<bar>x\<bar> \<le> 10 ^ 23"
  have "\<bar>cents x - x\<bar> \<le> 1"
    using half_up.rnd_le [of "x * 100"] half_up.rnd_ge [of "x * 100"] unfolding cents_def abs_le_iff by simp
  then show ?thesis using x by simp
qed

lemma new_money_in:
  assumes "currency_ok (str_upper (str_strip cur))" "\<bar>x\<bar> \<le> 10 ^ 23"
  shows "in_currency (str_upper (str_strip cur)) (10 ^ 24) \<lparr>my_amount = cents x, my_currency = str_upper (str_strip cur)\<rparr>"
proof -
  have "\<bar>x\<bar> \<le> 10 ^ 25" using assms(2) by simp
  then show ?thesis using cents_wf [OF assms(1)] cents_bounded [OF assms(2)] by (simp add: in_currency_def)
qed

lemma check_trade_metrics_eq:
  assumes "list_all (in_currency c (10 ^ 24)) [xm_expectancy t, xm_gross_profit t, xm_gross_loss t, xm_net t, xm_realized t,
      xm_unrealized t, xm_avg_win t, xm_avg_loss t, xm_largest_win t, xm_largest_loss t, xm_commission t, xm_slippage t]"
    and "counts_ok t" "pnl_signs_ok t" "streaks_ok t" "0 \<le> xm_holding t"
    and "\<bar>my_amount (xm_gross_profit t) + my_amount (xm_gross_loss t) - my_amount (xm_commission t)
      - my_amount (xm_slippage t) - my_amount (xm_net t)\<bar> \<le> 1 / 100"
  shows "check_trade_metrics t = (if rates_ok t then Inr t else Inl ValueError)"
proof -
  have "currencies_ok t" using assms(1) by (simp add: currencies_ok_def in_currency_def)
  moreover have "check_pnl t = Inr ()" using assms(1,6) by (subst check_pnl_eq [of c]) simp_all
  ultimately show ?thesis using assms by (simp add: check_trade_metrics_def)
qed

lemma trade_metrics_of_eq:
  assumes "currency_ok (str_upper (str_strip cur))" and o: "ordinary dec m"
  shows "\<exists>t. trade_metrics_of dec cur m = (if rates_fit dec m then Inr t else Inl ValueError) \<and>
    my_amount (xm_net t) = cents (dec (pm_net m)) \<and> my_amount (xm_commission t) = cents (dec (pm_brokerage m)) \<and>
    my_amount (xm_slippage t) = cents (dec (pm_slippage m)) \<and> xm_count t = int (pm_trades m)"
proof -
  define c where "c = str_upper (str_strip cur)"
  define M where "M x = \<lparr>my_amount = cents x, my_currency = c\<rparr>" for x
  let ?g = "gross_of dec m" and ?n = "dec (pm_net m)" and ?b = "dec (pm_brokerage m)" and ?s = "dec (pm_slippage m)"
  have s: "\<bar>?n\<bar> \<le> 10 ^ 10" "\<bar>?b\<bar> \<le> 10 ^ 10" "\<bar>?s\<bar> \<le> 10 ^ 10" "0 \<le> ?b" "0 \<le> ?s"
    using o unfolding ordinary_def keeps_sign_def by (blast intro: short_decimal_le)+
  have g: "?g = ?n + ?b + ?s" using o by (intro gross_exact) (simp_all add: ordinary_def)
  have gb: "\<bar>max ?g 0\<bar> \<le> 10 ^ 23" "\<bar>min ?g 0\<bar> \<le> 10 ^ 23" 
  proof -
    have "\<bar>?g\<bar> \<le> 10 ^ 23" using s unfolding g by (simp add: abs_le_iff)
    then show "\<bar>max ?g 0\<bar> \<le> 10 ^ 23" "\<bar>min ?g 0\<bar> \<le> 10 ^ 23" by (auto simp: max_def min_def)
  qed
  have sg: "0 \<le> dec (max x 0)" "dec (min x 0) \<le> 0" for x using o by (simp_all add: ordinary_def keeps_sign_def)
  have new: "new_money x cur = Inr (M x)" if "\<bar>x\<bar> \<le> 10 ^ 23" for x
    using new_money_cents [OF assms(1), of x] that by (simp add: M_def c_def)
  have inM: "in_currency c (10 ^ 24) (M x)" if "\<bar>x\<bar> \<le> 10 ^ 23" for x
    using new_money_in [OF assms(1) that] by (simp add: M_def c_def)
  have bal: "\<bar>cents (max ?g 0) + cents (min ?g 0) - cents ?b - cents ?s - cents ?n\<bar> \<le> 1 / 100"
    using s g by (intro cents_balance) auto
  have lr: "0 \<le> loss_rate_of m" by (simp add: loss_rate_of_def d28_sign)
  have l: "\<bar>dec (pm_expectancy m)\<bar> \<le> 10 ^ 23" "\<bar>dec (max (pm_avg_win m) 0)\<bar> \<le> 10 ^ 23" "\<bar>dec (min (pm_avg_loss m) 0)\<bar> \<le> 10 ^ 23"
    "\<bar>dec (max (pm_largest_win m) 0)\<bar> \<le> 10 ^ 23" "\<bar>dec (min (pm_largest_loss m) 0)\<bar> \<le> 10 ^ 23"
    "\<bar>?n\<bar> \<le> 10 ^ 23" "\<bar>?b\<bar> \<le> 10 ^ 23" "\<bar>?s\<bar> \<le> 10 ^ 23" "\<bar>0 :: rat\<bar> \<le> 10 ^ 23"
    using o s(1-3) by (simp_all add: ordinary_def)
  have "\<exists>t. trade_metrics_of dec cur m = check_trade_metrics t \<and> xm_expectancy t = M (dec (pm_expectancy m)) \<and>
      xm_gross_profit t = M (max ?g 0) \<and> xm_gross_loss t = M (min ?g 0) \<and> xm_net t = M ?n \<and> xm_realized t = M ?n \<and>
      xm_unrealized t = M 0 \<and> xm_avg_win t = M (dec (max (pm_avg_win m) 0)) \<and> xm_avg_loss t = M (dec (min (pm_avg_loss m) 0)) \<and>
      xm_largest_win t = M (dec (max (pm_largest_win m) 0)) \<and> xm_largest_loss t = M (dec (min (pm_largest_loss m) 0)) \<and>
      xm_commission t = M ?b \<and> xm_slippage t = M ?s \<and> counts_ok t \<and> streaks_ok t \<and> xm_holding t = pm_avg_bars m \<and>
      rates_ok t = rates_fit dec m \<and> xm_count t = int (pm_trades m)"
    unfolding trade_metrics_of_def Let_def zero_money_def new [OF l(1)] new [OF l(2)] new [OF l(3)] new [OF l(4)] new [OF l(5)]
      new [OF l(6)] new [OF l(7)] new [OF l(8)] new [OF l(9)] new [OF gb(1)] new [OF gb(2)] rbind.simps
    by (intro exI conjI, rule refl) (use lr in \<open>auto simp: counts_ok_def streaks_ok_def rates_ok_def rates_fit_def\<close>)
  then obtain t where t: "trade_metrics_of dec cur m = check_trade_metrics t" "counts_ok t" "streaks_ok t" "xm_holding t = pm_avg_bars m"
      "rates_ok t = rates_fit dec m" "xm_count t = int (pm_trades m)"
    and f: "xm_expectancy t = M (dec (pm_expectancy m))" "xm_gross_profit t = M (max ?g 0)" "xm_gross_loss t = M (min ?g 0)"
      "xm_net t = M ?n" "xm_realized t = M ?n" "xm_unrealized t = M 0" "xm_avg_win t = M (dec (max (pm_avg_win m) 0))"
      "xm_avg_loss t = M (dec (min (pm_avg_loss m) 0))" "xm_largest_win t = M (dec (max (pm_largest_win m) 0))"
      "xm_largest_loss t = M (dec (min (pm_largest_loss m) 0))" "xm_commission t = M ?b" "xm_slippage t = M ?s" by blast
  have a: "my_amount (M x) = cents x" for x by (simp add: M_def)
  have "check_trade_metrics t = (if rates_ok t then Inr t else Inl ValueError)"
  proof (rule check_trade_metrics_eq [of c])
    show "pnl_signs_ok t" using s(4,5) sg
      by (simp add: pnl_signs_ok_def f is_negative_money_def is_positive_money_def a cents_sign not_less)
    show "0 \<le> xm_holding t" using o by (simp add: t(4) ordinary_def)
    show "list_all (in_currency c (10 ^ 24)) [xm_expectancy t, xm_gross_profit t, xm_gross_loss t, xm_net t, xm_realized t,
      xm_unrealized t, xm_avg_win t, xm_avg_loss t, xm_largest_win t, xm_largest_loss t, xm_commission t, xm_slippage t]"
      unfolding f list.pred_inject by (intro conjI inM l gb, rule list.pred_inject(1))
  qed (use bal t(2,3) in \<open>simp_all add: f a\<close>)
  then show ?thesis using t(1,5,6) by (intro exI [of _ t]) (simp add: f a)
qed

text \<open>C31: The metrics of a backtest with costs that are not negative become a snapshot unless the win rate, read from a
  rounded float, and the loss rate, a rounded decimal, are not rates or add up to more than one: signs, currencies, streaks
  and the balance of profit, loss and costs always pass validation, although each amount is rounded to cents on its own.\<close>

theorem snapshot_refused_only_by_rates:
  assumes "currency_ok (str_upper (str_strip cur))" "ordinary dec m"
  shows "case snapshot_of dec now cur m of
      Inl e \<Rightarrow> e = ValueError \<and> \<not> rates_fit dec m
    | Inr s \<Rightarrow> rates_fit dec m \<and> my_amount (xm_net (ps_trades s)) = cents (dec (pm_net m)) \<and>
        my_amount (xm_commission (ps_trades s)) = cents (dec (pm_brokerage m)) \<and>
        my_amount (xm_slippage (ps_trades s)) = cents (dec (pm_slippage m)) \<and> xm_count (ps_trades s) = int (pm_trades m) \<and>
        km_max_drawdown (ps_risk s) = - d28 \<bar>dec (pm_max_drawdown_pct m)\<bar>"
  using trade_metrics_of_eq [OF assms] risk_metrics_ok [of dec m] by (auto simp: snapshot_of_def)

definition demo_metrics :: "nat \<Rightarrow> nat \<Rightarrow> rat \<Rightarrow> performance" where
  "demo_metrics wins losses dd = \<lparr>pm_starting = 1000, pm_ending = 1030, pm_total_return = 3 / 100, pm_total_pnl = 30, pm_max_drawdown = 10,
     pm_max_drawdown_pct = dd, pm_trades = wins + losses, pm_wins = wins, pm_losses = losses,
     pm_win_rate = of_nat wins / of_nat (wins + losses), pm_avg_win = 8, pm_avg_loss = - 10, pm_profit_factor = Some 4,
     pm_expectancy = 5, pm_avg_bars = 3, pm_largest_win = 12, pm_largest_loss = - 10, pm_gross = 36, pm_net = 30,
     pm_brokerage = 4, pm_slippage = 2, pm_sharpe = 1, pm_sortino = 1\<rparr>"

lemma demo_ordinary: "ordinary (\<lambda>x. x) (demo_metrics w l dd)"
  by (simp add: ordinary_def demo_metrics_def keeps_sign_def short_decimal_def)

lemma d28_quarter: "d28 (1 / 4) = 1 / 4"
  by (rule trans [OF _ trans [OF d28_cents [of 25]]]) simp_all

theorem snapshot_refused_only_by_rates_witness:
  "\<exists>s. snapshot_of (\<lambda>x. x) 0 ''usd'' (demo_metrics 3 1 (1 / 100)) = Inr s \<and> my_amount (xm_net (ps_trades s)) = 30"
proof -
  have c: "currency_ok (str_upper (str_strip ''usd''))" by code_simp
  have "rates_fit (\<lambda>x. x) (demo_metrics 3 1 (1 / 100))" by (simp add: rates_fit_def demo_metrics_def loss_rate_of_def d28_quarter)
  moreover have "cents 30 = 30" using half_up.rnd_of_int [of 3000] by (simp add: cents_def)
  ultimately show ?thesis using snapshot_refused_only_by_rates [OF c demo_ordinary [of 3 1 "1 / 100"], of 0]
    by (simp add: demo_metrics_def split: sum.splits)
qed

text \<open>Five trades that win and one that loses are refused: \<open>0.8333333333333334\<close>, the printed win rate, and the
  decimal quotient \<open>1 / 6\<close> add up to more than one, so a portfolio with these trades has no analytics.\<close>

theorem five_of_six_wins_refused:
  assumes "currency_ok (str_upper (str_strip cur))" "ordinary dec m"
    and "pm_wins m = 5" "pm_losses m = 1" "pm_trades m = 6" "pm_win_rate m = b64 (5 / 6)"
    and "dec (b64 (5 / 6)) = 8333333333333334 / 10 ^ 16"
  shows "snapshot_of dec now cur m = Inl ValueError"
proof -
  have "(of_int 16666666666666666666 / 10 ^ 20 :: rat) \<le> 1 / 6" by simp
  then have "16666666666666666666 / 10 ^ 20 \<le> d28 (1 / 6)"
    using d28_mono [of "of_int 16666666666666666666 / 10 ^ 20" "1 / 6"] d28_scaled [of 16666666666666666666 20] by simp
  then have "(of_int 100000000000000006 / 10 ^ 17 :: rat) \<le> 8333333333333334 / 10 ^ 16 + d28 (1 / 6)" by simp
  then have "of_int 100000000000000006 / 10 ^ 17 \<le> d28 (8333333333333334 / 10 ^ 16 + d28 (1 / 6))"
    using d28_mono d28_scaled [of 100000000000000006 17] by fastforce
  then have "1 < d28 (dec (b64 (5 / 6)) + d28 (1 / 6))" unfolding assms(7) by simp
  then have "\<not> rates_fit dec m" using assms(3-6) by (simp add: rates_fit_def loss_rate_of_def)
  then show ?thesis using trade_metrics_of_eq [OF assms(1,2)] risk_metrics_ok [of dec m] by (auto simp: snapshot_of_def)
qed


definition rounded_up :: "rat \<Rightarrow> rat" where
  "rounded_up x = (if x = b64 (5 / 6) then 8333333333333334 / 10 ^ 16 else x)"

theorem five_of_six_wins_refused_witness:
  "snapshot_of rounded_up 0 ''USD'' ((demo_metrics 5 1 (1 / 100))\<lparr>pm_win_rate := b64 (5 / 6)\<rparr>) = Inl ValueError"
proof (rule five_of_six_wins_refused)
  have "0 < b64 (5 / 6)" "b64 (5 / 6) \<le> 1"
    using b64.rnd_le [of 1 "5 / 6"] by (simp_all add: b64.rnd_pos_iff)
  then have "rounded_up x = x" if "x \<le> 0 \<or> 1 < x" for x using that by (auto simp: rounded_up_def)
  then show "ordinary rounded_up ((demo_metrics 5 1 (1 / 100))\<lparr>pm_win_rate := b64 (5 / 6)\<rparr>)"
    by (simp add: ordinary_def demo_metrics_def keeps_sign_def short_decimal_def) (simp add: rounded_up_def)
qed (simp_all add: usd_ok demo_metrics_def rounded_up_def)

section \<open>Drawdown curves\<close>

abbreviation equity_of :: "a_point \<Rightarrow> rat" where
  "equity_of p \<equiv> my_amount (ap_equity p)"

fun running_max :: "rat \<Rightarrow> rat list \<Rightarrow> rat list" where
  "running_max m [] = []"
| "running_max m (x # xs) = max m x # running_max (max m x) xs"

lemma running_max_eq: "running_max m xs = map (\<lambda>i. Max (insert m (set (take (Suc i) xs)))) [0..<length xs]"
proof (induction xs arbitrary: m)
  case (Cons x xs)
  have "map (\<lambda>i. Max (insert m (set (take (Suc i) (x # xs))))) [0..<length (x # xs)]
      = Max {m, x} # map (\<lambda>i. Max (insert m (set (take (Suc (Suc i)) (x # xs))))) [0..<length xs]"
    by (simp add: upt_conv_Cons map_Suc_upt [symmetric] del: upt_Suc)
  also have "map (\<lambda>i. Max (insert m (set (take (Suc (Suc i)) (x # xs))))) [0..<length xs]
      = map (\<lambda>i. Max (insert (max m x) (set (take (Suc i) xs)))) [0..<length xs]"
  proof (rule map_cong [OF refl])
    fix i assume "i \<in> set [0..<length xs]"
    then have "take (Suc i) xs \<noteq> []" by auto
    then show "Max (insert m (set (take (Suc (Suc i)) (x # xs)))) = Max (insert (max m x) (set (take (Suc i) xs)))"
      by (simp add: Max_insert max.assoc)
  qed
  finally show ?case by (simp add: Cons.IH)
qed simp

definition dd_point_ok :: "dd_point \<Rightarrow> bool" where
  "dd_point_ok d \<longleftrightarrow> dp_drawdown d \<le> 0 \<and> dp_peak_time d \<le> dp_time d \<and> my_amount (dp_current d) \<le> my_amount (dp_peak d) \<and>
     dp_drawdown d = (let e = my_amount (dp_peak d) in if e = 0 then 0 else d28 (d28 (my_amount (dp_current d) - e) / e))"

lemma drawdown_points_ok:
  assumes "list_all (\<lambda>p. my_currency (ap_equity p) = my_currency (ap_equity peak)) ps"
    and "sorted (ap_time peak # map ap_time ps)" and "0 \<le> equity_of peak"
  shows "\<exists>ds. drawdown_points peak ps = Inr ds \<and> map dp_time ds = map ap_time ps \<and> map dp_current ds = map ap_equity ps \<and>
    map (my_amount \<circ> dp_peak) ds = running_max (equity_of peak) (map equity_of ps) \<and> list_all dd_point_ok ds"
  using assms
proof (induction ps arbitrary: peak)
  case (Cons p ps)
  define top where "top = (if equity_of peak < equity_of p then p else peak)"
  define d where "d = (if equity_of top = 0 then 0 else d28 (d28 (equity_of p - equity_of top) / equity_of top))"
  have top: "equity_of p \<le> equity_of top" "0 \<le> equity_of top" "equity_of top = max (equity_of peak) (equity_of p)"
    using Cons.prems(3) by (simp_all add: top_def)
  have cur: "my_currency (ap_equity p) = my_currency (ap_equity peak)" "my_currency (ap_equity top) = my_currency (ap_equity peak)"
    using Cons.prems(1) by (simp_all add: top_def)
  have t: "ap_time top \<le> ap_time p" "sorted (ap_time top # map ap_time ps)" using Cons.prems(2) by (auto simp: top_def)
  have d: "d \<le> 0" using top by (simp add: d_def d28_sign divide_nonpos_nonneg)
  have "list_all (\<lambda>q. my_currency (ap_equity q) = my_currency (ap_equity top)) ps"
    using Cons.prems(1) cur by simp
  from Cons.IH [OF this t(2) top(2)] obtain ds where ds: "drawdown_points top ps = Inr ds" "map dp_time ds = map ap_time ps"
      "map dp_current ds = map ap_equity ps" "map (my_amount \<circ> dp_peak) ds = running_max (equity_of top) (map equity_of ps)"
      "list_all dd_point_ok ds" by blast
  have "new_dd_point (ap_time p) d (ap_equity top) (ap_equity p) (ap_time top) =
      Inr \<lparr>dp_time = ap_time p, dp_drawdown = d, dp_peak = ap_equity top, dp_current = ap_equity p, dp_peak_time = ap_time top\<rparr>"
    using d t(1) top(1) cur by (simp add: new_dd_point_def money_lt_def same_currency_def not_less)
  moreover have "drawdown_points peak (p # ps) = rbind (new_dd_point (ap_time p) d (ap_equity top) (ap_equity p) (ap_time top))
      (\<lambda>x. rbind (drawdown_points top ps) (\<lambda>xs. Inr (x # xs)))"
    using cur(1) by (simp add: money_lt_def same_currency_def top_def d_def Let_def)
  ultimately have "drawdown_points peak (p # ps) = Inr (\<lparr>dp_time = ap_time p, dp_drawdown = d, dp_peak = ap_equity top,
      dp_current = ap_equity p, dp_peak_time = ap_time top\<rparr> # ds)"
    by (simp add: ds)
  moreover have "dd_point_ok \<lparr>dp_time = ap_time p, dp_drawdown = d, dp_peak = ap_equity top, dp_current = ap_equity p,
      dp_peak_time = ap_time top\<rparr>"
    using top(1) t(1) d by (simp add: dd_point_ok_def Let_def) (simp add: d_def)
  ultimately show ?case using ds top(3) by (simp add: o_def)
qed simp

text \<open>The drawdown curve of an equity curve in one currency, ordered in time and starting at or above zero, has one
  valid point per equity point: its peak is the largest equity so far, and its drawdown is the loss from that peak as a
  share of it.\<close>

theorem drawdown_curve_valid:
  assumes "list_all (\<lambda>p. my_currency (ap_equity p) = my_currency (ap_equity (hd ps))) ps" and "sorted (map ap_time ps)"
    and "0 \<le> equity_of (hd ps)"
  shows "case drawdown_curve ps of Inl e \<Rightarrow> False
    | Inr ds \<Rightarrow> map dp_time ds = map ap_time ps \<and> map dp_current ds = map ap_equity ps \<and>
        map (my_amount \<circ> dp_peak) ds = map (\<lambda>i. Max (set (take (Suc i) (map equity_of ps)))) [0..<length ps] \<and>
        list_all dd_point_ok ds"
proof (cases ps)
  case (Cons p qs)
  have "insert (equity_of p) (set (take (Suc i) (map equity_of ps))) = set (take (Suc i) (map equity_of ps))" for i
    by (simp add: Cons insert_absorb)
  moreover obtain ds where "drawdown_points p ps = Inr ds" "map dp_time ds = map ap_time ps" "map dp_current ds = map ap_equity ps"
      "map (my_amount \<circ> dp_peak) ds = running_max (equity_of p) (map equity_of ps)" "list_all dd_point_ok ds"
    using drawdown_points_ok [of p ps] assms by (auto simp: Cons)
  ultimately show ?thesis by (simp add: drawdown_curve_def Cons running_max_eq del: take_Suc_Cons)
qed (simp add: drawdown_curve_def)

definition demo_curve :: "rat list \<Rightarrow> a_point list" where
  "demo_curve es = map (\<lambda>(i, e). \<lparr>ap_time = int i, ap_equity = demo_money e, ap_realized = demo_money 0, ap_unrealized = demo_money 0\<rparr>)
     (enumerate 0 es)"

theorem drawdown_curve_valid_witness:
  "map (my_amount \<circ> dp_peak) (projr (drawdown_curve (demo_curve [100, 120, 90]))) = [100, 120, 120]"
  using drawdown_curve_valid [of "demo_curve [100, 120, 90]"]
  by (simp add: demo_curve_def demo_money_def upt_rec numeral_3_eq_3 split: sum.splits)

section \<open>Runs\<close>

inductive run_step :: "analytics_run \<Rightarrow> analytics_run \<Rightarrow> bool" where
  start: "start_run t r = Inr r' \<Longrightarrow> run_step r r'"
| complete: "complete_run rep t r = Inr r' \<Longrightarrow> run_step r r'"
| fail: "fail_run err t r = Inr r' \<Longrightarrow> run_step r r'"

inductive reachable_run :: "analytics_run \<Rightarrow> bool" where
  created: "new_run i n t = Inr r \<Longrightarrow> reachable_run r"
| moved: "reachable_run r \<Longrightarrow> run_step r r' \<Longrightarrow> reachable_run r'"

lemma required_text_iff: "required_text s = Inr t \<longleftrightarrow> t = str_strip s \<and> t \<noteq> []"
  by (auto simp: required_text_def Let_def)

lemma validate_runD:
  assumes "validate_run r = Inr r'"
  shows "lifecycle_ok r'" "ar_id r' = str_strip (ar_id r)" "ar_id r' \<noteq> []" "ar_status r' = ar_status r" "ar_created r' = ar_created r"
    "ar_started r' = ar_started r" "ar_completed r' = ar_completed r" "ar_report r' = ar_report r"
  using assms by (auto simp: validate_run_def rbind_Inr_iff required_text_iff Let_def)

lemma valid_run_ok: "validate_run r = Inr r' \<Longrightarrow> lifecycle_ok r' \<and> ar_id r' \<noteq> [] \<and> str_strip (ar_id r') = ar_id r'"
  using validate_runD [of r r'] by simp

fun run_rank :: "run_status \<Rightarrow> nat" where
  "run_rank RunCreated = 0"
| "run_rank RunRunning = 1"
| "run_rank RunFailed = 2"
| "run_rank RunCompleted = 3"

lemma reachable_lifecycle: "reachable_run r \<Longrightarrow> lifecycle_ok r \<and> ar_id r \<noteq> [] \<and> str_strip (ar_id r) = ar_id r"
proof (induction rule: reachable_run.induct)
  case (moved r r')
  from moved.hyps(2) show ?case
    by cases (auto simp: start_run_def complete_run_def fail_run_def split: if_splits dest!: valid_run_ok)
qed (auto simp: new_run_def dest!: valid_run_ok)

lemma run_step_facts:
  assumes "run_step r r'" and "lifecycle_ok r" and "str_strip (ar_id r) = ar_id r"
  shows "ar_status r \<noteq> RunCompleted \<and> run_rank (ar_status r) \<le> run_rank (ar_status r') \<and> ar_status r' \<noteq> RunCreated \<and>
    (run_rank (ar_status r) = run_rank (ar_status r') \<longrightarrow> ar_status r = RunFailed) \<and>
    ar_id r' = ar_id r \<and> ar_created r' = ar_created r \<and> (ar_started r \<noteq> None \<longrightarrow> ar_started r' = ar_started r)"
  using assms(1)
proof cases
  case (start t)
  then show ?thesis using assms(2,3) validate_runD(2,4-6)
    by (fastforce simp: start_run_def lifecycle_ok_def split: if_splits)
next
  case (complete rep t)
  then have v: "validate_run (r\<lparr>ar_status := RunCompleted, ar_started := Some (started_or_created r), ar_completed := Some t,
      ar_report := Some rep, ar_error := None\<rparr>) = Inr r'" and "ar_status r = RunCreated \<or> ar_status r = RunRunning"
    by (auto simp: complete_run_def split: if_splits)
  then show ?thesis using assms(3) validate_runD(2,4-6) [OF v] by (auto simp: started_or_created_def)
next
  case (fail err t)
  then have v: "validate_run (r\<lparr>ar_status := RunFailed, ar_started := Some (started_or_created r), ar_completed := Some t,
      ar_report := None, ar_error := Some err\<rparr>) = Inr r'" and "ar_status r \<noteq> RunCompleted"
    by (auto simp: fail_run_def split: if_splits)
  then show ?thesis using assms(3) validate_runD(2,4-6) [OF v] by (cases "ar_status r") (auto simp: started_or_created_def)
qed

text \<open>C33: An analytics run keeps its lifecycle: timestamps, report and error are present exactly as its status asks and
  in order of time, so a duration is never negative; a completed run never changes, the status never moves back, and the
  identity, the time of creation and the time of the start stay. Any other run can be failed at a time after its start.\<close>

theorem run_lifecycle:
  assumes "reachable_run r"
  shows "lifecycle_ok r \<and> (run_is_terminal r \<longleftrightarrow> run_duration r \<noteq> None) \<and> (case run_duration r of None \<Rightarrow> True | Some d \<Rightarrow> 0 \<le> d) \<and>
    (run_step r r' \<longrightarrow> ar_status r \<noteq> RunCompleted \<and> run_rank (ar_status r) \<le> run_rank (ar_status r') \<and>
       ar_id r' = ar_id r \<and> ar_created r' = ar_created r \<and> (ar_started r \<noteq> None \<longrightarrow> ar_started r' = ar_started r)) \<and>
    (ar_status r \<noteq> RunCompleted \<and> str_strip err \<noteq> [] \<and> str_strip (ar_name r) \<noteq> [] \<and> started_or_created r \<le> t \<longrightarrow>
       (\<exists>r'. fail_run err t r = Inr r' \<and> ar_status r' = RunFailed))"
proof -
  note i = reachable_lifecycle [OF assms]
  have "run_is_terminal r \<longleftrightarrow> run_duration r \<noteq> None"
    using i by (cases "ar_status r") (auto simp: run_is_terminal_def run_duration_def lifecycle_ok_def split: option.splits)
  moreover have "case run_duration r of None \<Rightarrow> True | Some d \<Rightarrow> 0 \<le> d"
    using i by (auto simp: run_duration_def lifecycle_ok_def fdiv_def b64.rnd_nonneg split: option.splits)
  moreover have "\<exists>r'. fail_run err t r = Inr r' \<and> ar_status r' = RunFailed"
    if "ar_status r \<noteq> RunCompleted" "str_strip err \<noteq> []" "str_strip (ar_name r) \<noteq> []" "started_or_created r \<le> t"
    using i that by (auto simp: fail_run_def validate_run_def required_text_def lifecycle_ok_def started_or_created_def Let_def
        split: option.splits)
  ultimately show ?thesis using i run_step_facts [of r r'] by blast
qed

definition demo_analytics_run :: analytics_run where
  "demo_analytics_run = \<lparr>ar_id = ''r1'', ar_name = ''nightly'', ar_status = RunRunning, ar_created = 0, ar_started = Some 5, ar_completed = None,
     ar_report = None, ar_error = None\<rparr>"

theorem run_lifecycle_witness:
  "\<exists>r'. fail_run ''no data'' 9 demo_analytics_run = Inr r' \<and> ar_status r' = RunFailed"
proof -
  have "start_run 5 (demo_analytics_run\<lparr>ar_status := RunCreated, ar_started := None\<rparr>) = Inr demo_analytics_run"
    "new_run ''r1'' ''nightly'' 0 = Inr (demo_analytics_run\<lparr>ar_status := RunCreated, ar_started := None\<rparr>)" by code_simp+
  then have "reachable_run demo_analytics_run" by (meson reachable_run.intros run_step.intros)
  from run_lifecycle [OF this, of demo_analytics_run "''no data''" 9] show ?thesis
    by (simp add: demo_analytics_run_def started_or_created_def str_strip_def is_space_def)
qed

section \<open>Rankings\<close>

lemma new_ranking_entry_iff:
  "new_ranking_entry n i v = Inr e \<longleftrightarrow> 0 < n \<and> str_strip i \<noteq> [] \<and> e = \<lparr>ry_rank = n, ry_id = str_strip i, ry_value = v\<rparr>"
  by (auto simp: new_ranking_entry_def rbind_Inr_iff required_text_iff)

lemma ranking_entries:
  assumes "collect (map (\<lambda>(i, a). new_ranking_entry (int i + 1) (sa_id a) (metric_of metric a)) (enumerate k as)) = Inr es"
  shows "map ry_rank es = map int [Suc k..<Suc k + length as] \<and> map ry_id es = map (str_strip \<circ> sa_id) as \<and>
    map ry_value es = map (metric_of metric) as"
  using assms
proof (induction as arbitrary: k es)
  case (Cons a as)
  then obtain e es' where e: "es = e # es'" "new_ranking_entry (int k + 1) (sa_id a) (metric_of metric a) = Inr e"
    "collect (map (\<lambda>(i, a). new_ranking_entry (int i + 1) (sa_id a) (metric_of metric a)) (enumerate (Suc k) as)) = Inr es'"
    by (auto simp: rbind_Inr_iff)
  show ?case using Cons.IH [OF e(3)] e(2) by (simp add: e(1) new_ranking_entry_iff upt_conv_Cons del: upt_Suc)
qed simp

lemma rank_analytics_entries:
  assumes "rank_analytics hash as name dir = Inr rk"
  shows "let metric = str_strip name; d = (case dir of Some x \<Rightarrow> x | None \<Rightarrow> default_direction metric);
      ordered = sort_key (analytics_key metric d) as
    in rg_metric rk = metric \<and> rg_direction rk = d \<and> map ry_rank (rg_entries rk) = map int [1..<Suc (length as)] \<and>
      map ry_id (rg_entries rk) = map (str_strip \<circ> sa_id) ordered \<and> map ry_value (rg_entries rk) = map (metric_of metric) ordered"
  using assms ranking_entries [of "str_strip name" 0]
  by (auto simp: rank_analytics_def new_ranking_def rbind_Inr_iff required_text_iff Let_def simp del: upt_Suc)

lemma sorted_values:
  assumes "sorted (map (analytics_key metric Ascending) as)" and "\<forall>a\<in>set as. to_sortable (metric_of metric a) = Some (g a)"
  shows "sorted (map g as)"
proof -
  have key: "analytics_key metric Ascending a = RankKey False (g a) (sa_id a)" if "a \<in> set as" for a
    using assms(2) that by (simp add: analytics_key_def)
  have "sorted_wrt (\<lambda>x y. analytics_key metric Ascending x \<le> analytics_key metric Ascending y) as"
    using assms(1) by (simp only: sorted_map)
  then have "sorted_wrt (\<lambda>x y. g x \<le> g y) as"
  proof (rule sorted_wrt_mono_rel [rotated])
    fix x y assume "x \<in> set as" "y \<in> set as" "analytics_key metric Ascending x \<le> analytics_key metric Ascending y"
    then show "g x \<le> g y" unfolding key [OF \<open>x \<in> set as\<close>] key [OF \<open>y \<in> set as\<close>] less_eq_rank_key.simps by auto
  qed
  then show ?thesis by (simp only: sorted_map)
qed

definition loss_of :: "metric_value option \<Rightarrow> rat" where
  "loss_of v = (case to_sortable v of None \<Rightarrow> 0 | Some x \<Rightarrow> \<bar>x\<bar>)"

definition from_snapshot :: "strategy_analytics \<Rightarrow> bool" where
  "from_snapshot a \<longleftrightarrow> (case sa_source a of FromSnapshot s \<Rightarrow> km_max_drawdown (ps_risk s) \<le> 0 | _ \<Rightarrow> False)"

definition from_metrics :: "strategy_analytics \<Rightarrow> bool" where
  "from_metrics a \<longleftrightarrow> (case sa_source a of FromPerformance m \<Rightarrow> 0 \<le> pm_max_drawdown_pct m | _ \<Rightarrow> False)"

lemma drawdown_of_snapshot:
  "from_snapshot a \<Longrightarrow> to_sortable (metric_of ''max_drawdown_pct'' a) = Some (- loss_of (metric_of ''max_drawdown_pct'' a))"
  using b64.rnd_nonpos
  by (auto simp: from_snapshot_def metric_of_def metric_names_def metric_aliases_def source_values_def snapshot_values_def
      loss_of_def to_sortable_def Let_def split: metric_source.splits)

lemma drawdown_of_metrics:
  "from_metrics a \<Longrightarrow> to_sortable (metric_of ''max_drawdown_pct'' a) = Some (loss_of (metric_of ''max_drawdown_pct'' a))"
  by (auto simp: from_metrics_def metric_of_def metric_names_def metric_aliases_def source_values_def performance_values_def
      loss_of_def to_sortable_def Let_def split: metric_source.splits)

lemma default_drawdown_ranking:
  assumes "rank_analytics hash as ''max_drawdown_pct'' None = Inr rk"
    and "\<forall>a\<in>set as. to_sortable (metric_of ''max_drawdown_pct'' a) = Some (g (metric_of ''max_drawdown_pct'' a))"
  shows "sorted (map (g \<circ> ry_value) (rg_entries rk))"
proof -
  let ?as = "sort_key (analytics_key ''max_drawdown_pct'' Ascending) as"
  have n: "str_strip ''max_drawdown_pct'' = ''max_drawdown_pct''" by code_simp
  have "map ry_value (rg_entries rk) = map (metric_of ''max_drawdown_pct'') ?as"
    using rank_analytics_entries [OF assms(1)] by (simp add: n default_direction_def Let_def)
  then have "map (g \<circ> ry_value) (rg_entries rk) = map (\<lambda>a. g (metric_of ''max_drawdown_pct'' a)) ?as"
    by (simp only: list.map_comp [symmetric]) (simp only: list.map_comp o_def)
  then show ?thesis using sorted_values [OF sorted_sort_key] assms(2) by simp
qed

text \<open>Ranked by drawdown in the default direction, lower first, strategies measured by performance metrics come with
  the smallest loss first, but strategies measured by snapshots, whose drawdown is negative, with the deepest loss first.\<close>

theorem drawdown_ranking_depends_on_source:
  assumes "rank_analytics hash as ''max_drawdown_pct'' None = Inr rk" and "rank_analytics hash bs ''max_drawdown_pct'' None = Inr rk'"
    and "list_all from_metrics as" "list_all from_snapshot bs"
  shows "sorted (map (loss_of \<circ> ry_value) (rg_entries rk)) \<and> sorted (rev (map (loss_of \<circ> ry_value) (rg_entries rk')))"
proof -
  have "sorted (map (\<lambda>e. - loss_of (ry_value e)) (rg_entries rk'))"
    using default_drawdown_ranking [OF assms(2), of "\<lambda>v. - loss_of v"] assms(4) drawdown_of_snapshot by (simp add: list_all_iff o_def)
  then have "sorted (rev (map (loss_of \<circ> ry_value) (rg_entries rk')))" by (simp add: sorted_wrt_rev sorted_wrt_map)
  then show ?thesis using default_drawdown_ranking [OF assms(1), of loss_of] assms(3) drawdown_of_metrics by (simp add: list_all_iff)
qed

section \<open>Reports\<close>

lemma str_strip_id: "s \<noteq> [] \<Longrightarrow> \<not> is_space (hd s) \<Longrightarrow> \<not> is_space (last s) \<Longrightarrow> str_strip s = s"
  unfolding str_strip_def by (metis dropWhile_eq_self_iff hd_rev rev_rev_ident)

definition payload :: "pystr list \<Rightarrow> pystr" where
  "payload parts = concat (case parts of [] \<Rightarrow> [] | p # ps \<Rightarrow> p # map (\<lambda>q. ''|'' @ q) ps)"

lemma stable_id_payload: "stable_id hash pre parts = pre @ ''_'' @ take 16 (hash (payload parts))"
  by (simp add: stable_id_def payload_def)

text \<open>What is asked of the hash: the texts it is applied to keep distinct digests, and a digest has no spaces.\<close>

definition separates :: "(pystr \<Rightarrow> pystr) \<Rightarrow> pystr set \<Rightarrow> bool" where
  "separates hash A \<longleftrightarrow> inj_on (\<lambda>x. take 16 (hash x)) A \<and> (\<forall>x. list_all (\<lambda>c. \<not> is_space c) (hash x))"

lemma stable_id_strip:
  assumes "separates hash A" "pre \<noteq> []" "\<not> is_space (hd pre)"
  shows "str_strip (stable_id hash pre parts) = stable_id hash pre parts" "stable_id hash pre parts \<noteq> []"
proof -
  have u: "\<not> is_space CHR ''_''" by (simp add: is_space_def)
  have "last (take 16 h) \<in> set h" if "h \<noteq> []" for h :: pystr
    by (rule in_set_takeD, rule last_in_set) (simp add: that)
  moreover have "\<not> is_space c" if "c \<in> set (hash x)" for c x using assms(1) that by (simp add: separates_def list_all_iff)
  ultimately have "\<not> is_space (last (take 16 (hash x)))" if "hash x \<noteq> []" for x using that by blast
  then have "\<not> is_space (last (''_'' @ take 16 (hash (payload parts))))"
    using u by (cases "hash (payload parts) = []") (simp_all add: last_append)
  then show "str_strip (stable_id hash pre parts) = stable_id hash pre parts" "stable_id hash pre parts \<noteq> []"
    unfolding stable_id_payload using assms(2,3) by (intro str_strip_id) (simp_all add: last_append)
qed

lemma stable_id_inj:
  assumes "separates hash A" "payload p \<in> A" "payload q \<in> A"
  shows "stable_id hash pre p = stable_id hash pre q \<longleftrightarrow> payload p = payload q"
  using assms by (auto simp: stable_id_payload separates_def dest: inj_onD)

definition plain_id :: "pystr \<Rightarrow> bool" where
  "plain_id i \<longleftrightarrow> i \<noteq> [] \<and> str_strip i = i"

lemma ranking_entries_exist:
  assumes "list_all plain_id (map sa_id as)"
  shows "\<exists>es. collect (map (\<lambda>(i, a). new_ranking_entry (int i + 1) (sa_id a) (metric_of metric a)) (enumerate k as)) = Inr es"
  using assms
proof (induction as arbitrary: k)
  case (Cons a as)
  then obtain es where "collect (map (\<lambda>(i, a). new_ranking_entry (int i + 1) (sa_id a) (metric_of metric a)) (enumerate (Suc k) as)) = Inr es"
    using Cons.IH [of "Suc k"] by auto
  then show ?case using Cons.prems by (simp add: new_ranking_entry_def required_text_def plain_id_def)
qed simp

lemma rank_analytics_result:
  assumes "separates hash A" "list_all plain_id (map sa_id as)"
  shows "case rank_analytics hash as name None of
      Inl e \<Rightarrow> e = ValueError \<and> (str_strip name = [] \<or> \<not> distinct (map sa_id as))
    | Inr rk \<Rightarrow> str_strip name \<noteq> [] \<and> distinct (map sa_id as) \<and> rg_id rk = stable_id hash ''ranking''
        [str_strip name, direction_text (default_direction (str_strip name)), str_nat (length as)]"
proof (cases "str_strip name = []")
  case False
  let ?m = "str_strip name" and ?d = "default_direction (str_strip name)"
  let ?as = "sort_key (analytics_key ?m ?d) as"
  have p: "list_all plain_id (map sa_id ?as)" using assms(2) by (simp add: list_all_iff)
  obtain es where es: "collect (map (\<lambda>(i, a). new_ranking_entry (int i + 1) (sa_id a) (metric_of ?m a)) (enumerate 0 ?as)) = Inr es"
    using ranking_entries_exist [OF p] by blast
  have r: "map ry_rank es = map int [1..<Suc (length as)]" "map ry_id es = map (str_strip \<circ> sa_id) ?as"
    using ranking_entries [OF es] by (simp_all del: upt_Suc)
  have "map ry_id es = map sa_id ?as" using r(2) p by (simp add: plain_id_def list_all_iff)
  moreover have "distinct (map sa_id ?as) \<longleftrightarrow> distinct (map sa_id as)"
    by (metis mset_eq_imp_distinct_iff mset_map mset_sort)
  ultimately have dist: "distinct (map ry_id es) \<longleftrightarrow> distinct (map sa_id as)" by simp
  have len: "length es = length as" using arg_cong [OF r(1), of length] by (simp del: upt_Suc)
  have sorted: "sort (map int [Suc 0..<Suc (length as)]) = map int [Suc 0..<Suc (length as)]"
    by (intro sort_key_id_if_sorted) (simp add: sorted_map sorted_wrt_upt del: upt_Suc)
  have id: "str_strip (stable_id hash ''ranking'' q) = stable_id hash ''ranking'' q" "stable_id hash ''ranking'' q \<noteq> []" for q
    using stable_id_strip [OF assms(1), of "''ranking''"] by (simp_all add: is_space_def)
  have "distinct (map ry_rank es)" unfolding r(1) by (simp add: distinct_map del: upt_Suc)
  then have "rank_analytics hash as name None = (if distinct (map sa_id as) then
      Inr \<lparr>rg_id = stable_id hash ''ranking'' [?m, direction_text ?d, str_nat (length as)], rg_metric = ?m, rg_direction = ?d, rg_entries = es\<rparr>
      else Inl ValueError)"
    using False by (simp add: rank_analytics_def required_text_def es new_ranking_def id r(1) sorted len dist Let_def del: upt_Suc)
  then show ?thesis using False by simp
qed (simp add: rank_analytics_def required_text_def)

lemma ranking_payload_inj:
  "payload [m, direction_text (default_direction m), n] = payload [m', direction_text (default_direction m'), n] \<longleftrightarrow> m = m'"
proof
  assume eq: "payload [m, direction_text (default_direction m), n] = payload [m', direction_text (default_direction m'), n]"
  show "m = m'"
  proof (cases "default_direction m"; cases "default_direction m'")
    assume d: "default_direction m = Ascending" "default_direction m' = Descending"
    have "(m @ ''|a'') @ ''scending|'' @ n = (m' @ ''|de'') @ ''scending|'' @ n" using eq by (simp add: payload_def d)
    then have "m @ ''|a'' = m' @ ''|de''" by (rule append_same_eq [THEN iffD1])
    then have "last (m @ ''|a'') = last (m' @ ''|de'')" by (rule arg_cong)
    then show ?thesis by simp
  next
    assume d: "default_direction m = Descending" "default_direction m' = Ascending"
    have "(m @ ''|de'') @ ''scending|'' @ n = (m' @ ''|a'') @ ''scending|'' @ n" using eq by (simp add: payload_def d)
    then have "m @ ''|de'' = m' @ ''|a''" by (rule append_same_eq [THEN iffD1])
    then have "last (m @ ''|de'') = last (m' @ ''|a'')" by (rule arg_cong)
    then show ?thesis by simp
  qed (use eq in \<open>simp_all add: payload_def\<close>)
qed simp

text \<open>The texts that are hashed when a report is made of results.\<close>

definition report_texts :: "result_set \<Rightarrow> pystr list \<Rightarrow> pystr set" where
  "report_texts rs metrics = set (map (\<lambda>r. payload [sc_id (rs_scenario r)]) (completed rs)) \<union>
     set (map (\<lambda>m. payload [str_strip m, direction_text (default_direction (str_strip m)), str_nat (length (completed rs))]) metrics)"

definition analytics_of :: "(pystr \<Rightarrow> pystr) \<Rightarrow> scenario_result \<Rightarrow> strategy_analytics" where
  "analytics_of hash r = \<lparr>sa_id = stable_id hash ''strategy_analytics'' [sc_id (rs_scenario r)], sa_scenario = rs_scenario r,
     sa_source = FromItems (metric_items (rs_metrics r))\<rparr>"

lemma analytics_of_results:
  assumes "separates hash A"
  shows "collect (map (from_scenario_result hash) rs) = Inr (map (analytics_of hash) rs)"
    and "list_all plain_id (map sa_id (map (analytics_of hash) rs))"
proof -
  have "str_strip (stable_id hash ''strategy_analytics'' q) = stable_id hash ''strategy_analytics'' q"
    "stable_id hash ''strategy_analytics'' q \<noteq> []" for q
    using stable_id_strip [OF assms, of "''strategy_analytics''"] by (simp_all add: is_space_def)
  then show "collect (map (from_scenario_result hash) rs) = Inr (map (analytics_of hash) rs)"
    "list_all plain_id (map sa_id (map (analytics_of hash) rs))"
    by (simp_all add: collect_Inr_iff from_scenario_result_def new_strategy_analytics_def required_text_def analytics_of_def
        plain_id_def list_all_iff)
qed

lemma distinct_ids:
  assumes "separates hash A" "set (map (\<lambda>r. payload [sc_id (rs_scenario r)]) rs) \<subseteq> A"
  shows "distinct (map sa_id (map (analytics_of hash) rs)) \<longleftrightarrow> distinct (map (sc_id \<circ> rs_scenario) rs)"
proof -
  have "sa_id (analytics_of hash r) = sa_id (analytics_of hash q) \<longleftrightarrow> sc_id (rs_scenario r) = sc_id (rs_scenario q)"
    if "r \<in> set rs" "q \<in> set rs" for r q
  proof -
    have "payload [sc_id (rs_scenario r)] \<in> A" "payload [sc_id (rs_scenario q)] \<in> A" using that assms(2) by auto
    note stable_id_inj [OF assms(1) this]
    then show ?thesis by (simp add: analytics_of_def payload_def)
  qed
  then show ?thesis by (auto simp: distinct_map inj_on_def)
qed

lemma rankings_of_results:
  assumes "separates hash A" "list_all plain_id (map sa_id as)"
  shows "case collect (map (\<lambda>m. rank_analytics hash as m None) metrics) of
      Inl e \<Rightarrow> e = ValueError \<and> (\<exists>m\<in>set metrics. str_strip m = [] \<or> \<not> distinct (map sa_id as))
    | Inr rks \<Rightarrow> (\<forall>m\<in>set metrics. str_strip m \<noteq> [] \<and> distinct (map sa_id as)) \<and>
        map rg_id rks = map (\<lambda>m. stable_id hash ''ranking''
          [str_strip m, direction_text (default_direction (str_strip m)), str_nat (length as)]) metrics"
proof (induction metrics)
  case (Cons m ms)
  then show ?case using rank_analytics_result [OF assms, of m] by (auto split: sum.splits simp: rbind_Inl_iff rbind_Inr_iff)
qed simp

text \<open>C32: A report can be made of results exactly when its title and the ranking metrics are not blank, no metric is asked
  for twice, and no two completed results share a scenario id; otherwise \<open>ValueError\<close> is raised. The report then holds
  the completed results in their order, one ranking per metric, and is a draft.\<close>

theorem report_of_results_iff:
  assumes "separates hash (report_texts rs metrics)"
  shows "case report_of_results hash rs title metrics of
      Inl e \<Rightarrow> e = ValueError \<and> (str_strip title = [] \<or> (\<exists>m\<in>set metrics. str_strip m = []) \<or>
        \<not> distinct (map str_strip metrics) \<or> \<not> distinct (map (sc_id \<circ> rs_scenario) (completed rs)))
    | Inr r \<Rightarrow> an_title r = str_strip title \<and> an_title r \<noteq> [] \<and> list_all (\<lambda>m. str_strip m \<noteq> []) metrics \<and>
        distinct (map str_strip metrics) \<and> distinct (map (sc_id \<circ> rs_scenario) (completed rs)) \<and> an_status r = Draft \<and>
        map sa_scenario (an_strategies r) = map rs_scenario (completed rs) \<and> length (an_rankings r) = length metrics"
proof -
  define as where "as = map (analytics_of hash) (completed rs)"
  let ?p = "\<lambda>m. [str_strip m, direction_text (default_direction (str_strip m)), str_nat (length as)]"
  have as: "collect (map (from_scenario_result hash) (completed rs)) = Inr as" "list_all plain_id (map sa_id as)"
    unfolding as_def by (fact analytics_of_results [OF assms])+
  have ids: "distinct (map sa_id as) \<longleftrightarrow> distinct (map (sc_id \<circ> rs_scenario) (completed rs))"
    unfolding as_def by (intro distinct_ids [OF assms]) (auto simp: report_texts_def)
  have inj: "stable_id hash ''ranking'' (?p m) = stable_id hash ''ranking'' (?p m') \<longleftrightarrow> str_strip m = str_strip m'"
    if "m \<in> set metrics" "m' \<in> set metrics" for m m'
  proof -
    have "payload (?p m) \<in> report_texts rs metrics" "payload (?p m') \<in> report_texts rs metrics"
      using that by (auto simp: report_texts_def as_def)
    then show ?thesis by (simp only: stable_id_inj [OF assms] ranking_payload_inj)
  qed
  then have rks: "distinct (map (\<lambda>m. stable_id hash ''ranking'' (?p m)) metrics) \<longleftrightarrow> distinct (map str_strip metrics)"
    by (auto simp: distinct_map inj_on_def)
  have "str_strip (stable_id hash ''analytics_report'' q) = stable_id hash ''analytics_report'' q"
    "stable_id hash ''analytics_report'' q \<noteq> []" for q
    using stable_id_strip [OF assms, of "''analytics_report''"] by (simp_all add: is_space_def)
  then have new: "create_report hash title as [] ks = (if str_strip title = [] \<or> \<not> distinct (map sa_id as) \<or> \<not> distinct (map rg_id ks)
      then Inl ValueError else Inr \<lparr>an_id = stable_id hash ''analytics_report'' [title, str_nat (length as), str_nat 0, str_nat (length ks)],
        an_title = str_strip title, an_status = Draft, an_strategies = as, an_portfolios = [], an_rankings = ks\<rparr>)" for ks
    by (simp add: create_report_def new_report_def required_text_def members_unique_def Let_def)
  have scen: "map sa_scenario as = map rs_scenario (completed rs)" by (simp add: as_def analytics_of_def)
  show ?thesis
  proof (cases "collect (map (\<lambda>m. rank_analytics hash as m None) metrics)")
    case (Inl e)
    then show ?thesis using rankings_of_results [OF assms as(2), of metrics] by (auto simp: report_of_results_def as(1) ids)
  next
    case (Inr ks)
    then have k: "\<forall>m\<in>set metrics. str_strip m \<noteq> [] \<and> distinct (map sa_id as)"
      "map rg_id ks = map (\<lambda>m. stable_id hash ''ranking'' (?p m)) metrics"
      using rankings_of_results [OF assms as(2), of metrics] by simp_all
    have "length ks = length metrics" using arg_cong [OF k(2), of length] by simp
    then show ?thesis using k(1) by (auto simp: report_of_results_def as(1) Inr new k(2) rks ids scen list_all_iff)
  qed
qed

lemma separates_singleton: "list_all (\<lambda>c. \<not> is_space c) t \<Longrightarrow> separates (\<lambda>x. t) {x}"
  by (simp add: separates_def)

theorem report_of_results_iff_witness:
  "report_of_results (\<lambda>x. ''0f'') [demo_result 2 3, demo_result 5 1] ''Report'' [] = Inl ValueError \<and>
   (\<exists>r. report_of_results (\<lambda>x. ''0f'') [demo_result 2 3] ''Report'' [] = Inr r \<and> an_title r = ''Report'')"
proof -
  have "report_texts [demo_result 2 3] [] = {payload [sc_id demo_scenario]}"
    "report_texts [demo_result 2 3, demo_result 5 1] [] = {payload [sc_id demo_scenario]}"
    by (simp_all add: report_texts_def completed_def rs_completed_def demo_result_def scenario_outcome_def)
  then have "separates (\<lambda>x. ''0f'') (report_texts [demo_result 2 3] [])"
    "separates (\<lambda>x. ''0f'') (report_texts [demo_result 2 3, demo_result 5 1] [])"
    using separates_singleton [of "''0f''"] by (simp_all add: is_space_def)
  from this [THEN report_of_results_iff, of "''Report''"] show ?thesis
    by (simp add: completed_def rs_completed_def demo_result_def scenario_outcome_def str_strip_def is_space_def split: sum.splits)
qed

theorem drawdown_ranking_depends_on_source_witness:
  "\<exists>s q rk. snapshot_of (\<lambda>x. x) 0 ''USD'' (demo_metrics 3 1 (1 / 10)) = Inr s \<and> snapshot_of (\<lambda>x. x) 0 ''USD'' (demo_metrics 3 1 (1 / 2)) = Inr q \<and>
     rank_analytics (\<lambda>x. ''0f'') [\<lparr>sa_id = ''a'', sa_scenario = demo_scenario, sa_source = FromSnapshot s\<rparr>,
       \<lparr>sa_id = ''b'', sa_scenario = demo_scenario, sa_source = FromSnapshot q\<rparr>] ''max_drawdown_pct'' None = Inr rk \<and>
     length (rg_entries rk) = 2 \<and> sorted (rev (map (loss_of \<circ> ry_value) (rg_entries rk)))"
proof -
  have ok: "rates_fit (\<lambda>x. x) (demo_metrics 3 1 dd)" for dd by (simp add: rates_fit_def demo_metrics_def loss_rate_of_def d28_quarter)
  have snap: "\<exists>s. snapshot_of (\<lambda>x. x) 0 ''USD'' (demo_metrics 3 1 dd) = Inr s \<and> km_max_drawdown (ps_risk s) \<le> 0" for dd
    using trade_metrics_of_eq [of "''USD''" "\<lambda>x. x" "demo_metrics 3 1 dd"] risk_metrics_ok [of "\<lambda>x. x" "demo_metrics 3 1 dd"] d28_sign(1)
    by (auto simp: snapshot_of_def ok usd_ok demo_ordinary simp del: One_nat_def)
  obtain s q where s: "snapshot_of (\<lambda>x. x) 0 ''USD'' (demo_metrics 3 1 (1 / 10)) = Inr s" "km_max_drawdown (ps_risk s) \<le> 0"
    and q: "snapshot_of (\<lambda>x. x) 0 ''USD'' (demo_metrics 3 1 (1 / 2)) = Inr q" "km_max_drawdown (ps_risk q) \<le> 0"
    using snap by meson
  define bs where "bs = [\<lparr>sa_id = ''a'', sa_scenario = demo_scenario, sa_source = FromSnapshot s\<rparr>,
       \<lparr>sa_id = ''b'', sa_scenario = demo_scenario, sa_source = FromSnapshot q\<rparr>]"
  have n: "str_strip ''max_drawdown_pct'' \<noteq> []" "str_strip ''a'' = ''a''" "str_strip ''b'' = ''b''" by code_simp+
  have h: "separates (\<lambda>x. ''0f'') {[]}" by (rule separates_singleton) (simp add: is_space_def)
  obtain rk where rk: "rank_analytics (\<lambda>x. ''0f'') bs ''max_drawdown_pct'' None = Inr rk"
    using rank_analytics_result [OF h, of bs "''max_drawdown_pct''"] n by (auto simp: bs_def plain_id_def split: sum.splits)
  obtain rk0 where rk0: "rank_analytics (\<lambda>x. ''0f'') [] ''max_drawdown_pct'' None = Inr rk0"
    using rank_analytics_result [OF h, of "[]" "''max_drawdown_pct''"] n by (auto split: sum.splits)
  have "map ry_rank (rg_entries rk) = map int [1..<Suc (length bs)]"
    using rank_analytics_entries [OF rk] unfolding Let_def by (blast dest: conjunct1)
  then have "length (rg_entries rk) = 2" by (simp add: map_eq_conv list_eq_iff_nth_eq bs_def)
  moreover have "list_all from_snapshot bs" using s q by (simp add: bs_def from_snapshot_def)
  from drawdown_ranking_depends_on_source [OF rk0 rk _ this]
  have "sorted (rev (map (loss_of \<circ> ry_value) (rg_entries rk)))" by simp
  ultimately show ?thesis using s q rk unfolding bs_def by blast
qed

end
