(* ===== verification/Aggregation.thy ===== *)
theory Aggregation imports Floats begin

text \<open>
  The market data records (\<open>domain/market_data/models.py\<close>) and the aggregation of ticks into candles
  (\<open>engines/aggregation\<close>): bucket boundaries, the candle builder, the tick aggregator and the engine
  that publishes candle events. Times count microseconds from 1970-01-01; the calendar is that of the
  standard library's \<open>datetime\<close>. A validation error of a model is \<open>ValidationFailed\<close>.
\<close>

section \<open>Market data records\<close>

datatype timeframe = ONE_MINUTE | FIVE_MINUTE | FIFTEEN_MINUTE | THIRTY_MINUTE | ONE_HOUR | FOUR_HOUR
  | ONE_DAY | ONE_WEEK | ONE_MONTH

text \<open>\<open>ti_aware\<close>: the timestamp carries a time zone.\<close>

record tick =
  ti_symbol :: pystr
  ti_exchange :: pystr
  ti_time :: time
  ti_aware :: bool
  ti_price :: rat
  ti_size :: "rat option"
  ti_bid :: "rat option"
  ti_ask :: "rat option"

definition given_and :: "(rat \<Rightarrow> bool) \<Rightarrow> rat option \<Rightarrow> bool" where
  "given_and P x \<longleftrightarrow> (case x of None \<Rightarrow> False | Some y \<Rightarrow> P y)"

definition new_tick :: "pystr \<Rightarrow> pystr \<Rightarrow> time \<Rightarrow> bool \<Rightarrow> rat \<Rightarrow> rat option \<Rightarrow> rat option \<Rightarrow> rat option \<Rightarrow> tick result" where
  "new_tick name exch t aware price sz bid ask =
     (if name = [] \<or> exch = [] \<or> price \<le> 0 \<or> given_and (\<lambda>x. x < 0) sz \<or> given_and (\<lambda>x. x \<le> 0) bid \<or>
         given_and (\<lambda>x. x \<le> 0) ask then Inl ValidationFailed
      else if given_and (\<lambda>b. given_and (\<lambda>a. a < b) ask) bid then Inl ValidationFailed
      else Inr \<lparr>ti_symbol = name, ti_exchange = exch, ti_time = t, ti_aware = aware, ti_price = price,
             ti_size = sz, ti_bid = bid, ti_ask = ask\<rparr>)"

record domain_candle =
  oc_symbol :: pystr
  oc_exchange :: pystr
  oc_timeframe :: timeframe
  oc_start :: time
  oc_open :: rat
  oc_high :: rat
  oc_low :: rat
  oc_close :: rat
  oc_volume :: rat
  oc_trades :: int

definition validate_ohlc :: "domain_candle \<Rightarrow> domain_candle result" where
  "validate_ohlc c =
     (if oc_symbol c = [] \<or> oc_exchange c = [] \<or> oc_open c \<le> 0 \<or> oc_high c \<le> 0 \<or> oc_low c \<le> 0 \<or> oc_close c \<le> 0 \<or>
         oc_volume c < 0 \<or> oc_trades c < 0 then Inl ValidationFailed
      else if oc_high c < oc_low c then Inl ValidationFailed
      else if \<not> (oc_low c \<le> oc_open c \<and> oc_open c \<le> oc_high c \<and> oc_low c \<le> oc_close c \<and> oc_close c \<le> oc_high c)
      then Inl ValidationFailed
      else Inr c)"

text \<open>A session's times are microseconds of the day.\<close>

record trading_session =
  tn_exchange :: pystr
  tn_name :: pystr
  tn_start :: int
  tn_end :: int
  tn_timezone :: pystr
  tn_active :: bool

definition validate_session :: "trading_session \<Rightarrow> trading_session result" where
  "validate_session s =
     (if tn_exchange s = [] \<or> tn_name s = [] \<or> tn_timezone s = [] then Inl ValidationFailed
      else if tn_end s \<le> tn_start s then Inl ValidationFailed else Inr s)"

record market_symbol =
  ms_symbol :: pystr
  ms_exchange :: pystr
  ms_base :: pystr
  ms_quote :: pystr

definition new_market_symbol :: "pystr \<Rightarrow> pystr \<Rightarrow> pystr \<Rightarrow> pystr \<Rightarrow> market_symbol result" where
  "new_market_symbol s e b q =
     (let norm = (\<lambda>x. str_upper (str_strip x)) in
      if norm s = [] \<or> norm e = [] \<or> norm b = [] \<or> norm q = [] then Inl ValidationFailed
      else Inr \<lparr>ms_symbol = norm s, ms_exchange = norm e, ms_base = norm b, ms_quote = norm q\<rparr>)"

section \<open>The calendar\<close>

definition usec_minute :: int where "usec_minute = 60000000"
definition usec_hour :: int where "usec_hour = 3600000000"
definition usec_day :: int where "usec_day = 86400000000"

definition minute_of :: "time \<Rightarrow> int" where "minute_of t = t div usec_minute mod 60"
definition hour_of :: "time \<Rightarrow> int" where "hour_of t = t div usec_hour mod 24"

definition hour_start :: "time \<Rightarrow> time" where "hour_start t = t - t mod usec_hour"
definition day_start :: "time \<Rightarrow> time" where "day_start t = t - t mod usec_day"

text \<open>\<open>timestamp.weekday()\<close>: Monday is 0, and the epoch was a Thursday.\<close>

definition weekday :: "time \<Rightarrow> int" where
  "weekday t = (t div usec_day + 3) mod 7"

definition days_before_month :: "int list" where
  "days_before_month = [-1, 0, 31, 59, 90, 120, 151, 181, 212, 243, 273, 304, 334]"

definition days_in_month :: "int list" where
  "days_in_month = [-1, 31, 28, 31, 30, 31, 30, 31, 31, 30, 31, 30, 31]"

text \<open>The day of the month of the \<open>n\<close>-th day (from 0) of a year, and of a day counted from the epoch.\<close>

definition year_day_of_month :: "bool \<Rightarrow> int \<Rightarrow> int" where
  "year_day_of_month leap n =
     (let m = nat ((n + 50) div 32); p = days_before_month ! m + (if 2 < m \<and> leap then 1 else 0) in
      if n < p then n - (p - (days_in_month ! (m - 1) + (if m - 1 = 2 \<and> leap then 1 else 0))) + 1
      else n - p + 1)"

definition day_of_month :: "int \<Rightarrow> int" where
  "day_of_month d =
     (let n = d + 719162; r400 = n mod 146097; n100 = r400 div 36524; r100 = r400 mod 36524;
          n4 = r100 div 1461; r4 = r100 mod 1461; n1 = r4 div 365; r1 = r4 mod 365
      in if n1 = 4 \<or> n100 = 4 then 31
         else year_day_of_month (n1 = 3 \<and> (n4 \<noteq> 24 \<or> n100 = 3)) r1)"

definition month_start :: "time \<Rightarrow> time" where
  "month_start t = day_start t - (day_of_month (t div usec_day) - 1) * usec_day"

section \<open>Buckets\<close>

fun align_timestamp :: "timeframe \<Rightarrow> time \<Rightarrow> time" where
  "align_timestamp ONE_MINUTE t = t - t mod usec_minute"
| "align_timestamp FIVE_MINUTE t = hour_start t + minute_of t div 5 * 5 * usec_minute"
| "align_timestamp FIFTEEN_MINUTE t = hour_start t + minute_of t div 15 * 15 * usec_minute"
| "align_timestamp THIRTY_MINUTE t = hour_start t + minute_of t div 30 * 30 * usec_minute"
| "align_timestamp ONE_HOUR t = hour_start t"
| "align_timestamp FOUR_HOUR t = day_start t + hour_of t div 4 * 4 * usec_hour"
| "align_timestamp ONE_DAY t = day_start t"
| "align_timestamp ONE_WEEK t = day_start (t - weekday t * usec_day)"
| "align_timestamp ONE_MONTH t = month_start t"

text \<open>\<open>replace(day=1)\<close> keeps the time of the day.\<close>

fun bucket_end :: "timeframe \<Rightarrow> time \<Rightarrow> time" where
  "bucket_end ONE_MINUTE s = s + usec_minute"
| "bucket_end FIVE_MINUTE s = s + 5 * usec_minute"
| "bucket_end FIFTEEN_MINUTE s = s + 15 * usec_minute"
| "bucket_end THIRTY_MINUTE s = s + 30 * usec_minute"
| "bucket_end ONE_HOUR s = s + usec_hour"
| "bucket_end FOUR_HOUR s = s + 4 * usec_hour"
| "bucket_end ONE_DAY s = s + usec_day"
| "bucket_end ONE_WEEK s = s + 7 * usec_day"
| "bucket_end ONE_MONTH s = s - (day_of_month (s div usec_day) - 1) * usec_day + 31 * usec_day"

section \<open>Building a candle\<close>

type_synonym tick_signature = "pystr \<times> pystr \<times> time \<times> rat \<times> rat option \<times> rat option \<times> rat option"

record agg_state =
  gs_symbol :: pystr
  gs_exchange :: pystr
  gs_timeframe :: timeframe
  gs_start :: time
  gs_end :: time
  gs_open :: rat
  gs_high :: rat
  gs_low :: rat
  gs_close :: rat
  gs_volume :: rat
  gs_trades :: int
  gs_last :: time
  gs_signatures :: "tick_signature set"
  gs_closed :: bool

definition signature_for :: "tick \<Rightarrow> tick_signature" where
  "signature_for t = (ti_symbol t, ti_exchange t, ti_time t, ti_price t, ti_size t, ti_bid t, ti_ask t)"

definition has_seen :: "tick \<Rightarrow> agg_state \<Rightarrow> bool" where
  "has_seen t s \<longleftrightarrow> signature_for t \<in> gs_signatures s"

definition record_tick :: "tick \<Rightarrow> agg_state \<Rightarrow> agg_state" where
  "record_tick t s = s\<lparr>gs_signatures := insert (signature_for t) (gs_signatures s)\<rparr>"

definition size_of_tick :: "tick \<Rightarrow> rat" where
  "size_of_tick t = (case ti_size t of None \<Rightarrow> 0 | Some x \<Rightarrow> x)"

definition create_state :: "tick \<Rightarrow> timeframe \<Rightarrow> time \<Rightarrow> time \<Rightarrow> agg_state result" where
  "create_state t tf start en =
     (if en \<le> start then Inl ValidationFailed
      else Inr (record_tick t \<lparr>gs_symbol = ti_symbol t, gs_exchange = ti_exchange t, gs_timeframe = tf, gs_start = start,
             gs_end = en, gs_open = ti_price t, gs_high = ti_price t, gs_low = ti_price t, gs_close = ti_price t,
             gs_volume = size_of_tick t, gs_trades = 1, gs_last = ti_time t, gs_signatures = {}, gs_closed = False\<rparr>))"

definition update_state :: "agg_state \<Rightarrow> tick \<Rightarrow> agg_state" where
  "update_state s t =
     (if has_seen t s then s
      else
        let s1 = s\<lparr>gs_high := max (gs_high s) (ti_price t), gs_low := min (gs_low s) (ti_price t)\<rparr>;
            s2 = (if gs_last s1 < ti_time t then s1\<lparr>gs_close := ti_price t, gs_last := ti_time t\<rparr> else s1)
        in record_tick t (s2\<lparr>gs_volume := fadd (gs_volume s2) (size_of_tick t), gs_trades := gs_trades s2 + 1\<rparr>))"

definition finalize_candle :: "agg_state \<Rightarrow> domain_candle result" where
  "finalize_candle s = validate_ohlc \<lparr>oc_symbol = gs_symbol s, oc_exchange = gs_exchange s, oc_timeframe = gs_timeframe s,
     oc_start = gs_start s, oc_open = gs_open s, oc_high = gs_high s, oc_low = gs_low s, oc_close = gs_close s,
     oc_volume = gs_volume s, oc_trades = gs_trades s\<rparr>"

section \<open>The aggregator\<close>

text \<open>The key of an open bucket, a tuple of symbol, exchange, timeframe and start.\<close>

datatype bucket_key = Bucket pystr pystr timeframe time

record aggregator =
  ag_timeframe :: timeframe
  ag_open :: "(bucket_key, agg_state) dict"

definition new_aggregator :: "timeframe \<Rightarrow> aggregator" where
  "new_aggregator tf = \<lparr>ag_timeframe = tf, ag_open = []\<rparr>"

text \<open>Both kinds of closing take out what is due, in the order the buckets were opened.\<close>

definition close_where :: "(bucket_key \<Rightarrow> agg_state \<Rightarrow> bool) \<Rightarrow> aggregator \<Rightarrow> aggregator \<times> agg_state list" where
  "close_where due a =
     (a\<lparr>ag_open := filter (\<lambda>e. \<not> due (fst e) (snd e)) (ag_open a)\<rparr>,
      map (\<lambda>e. (snd e)\<lparr>gs_closed := True\<rparr>) (filter (\<lambda>e. due (fst e) (snd e)) (ag_open a)))"

definition close_pending :: "time \<Rightarrow> aggregator \<Rightarrow> aggregator \<times> agg_state list" where
  "close_pending t = close_where (\<lambda>k s. gs_end s \<le> t)"

definition close_session_states :: "trading_session \<Rightarrow> time \<Rightarrow> aggregator \<Rightarrow> aggregator \<times> agg_state list" where
  "close_session_states n t a = close_where (\<lambda>k s. case k of Bucket name exch tf start \<Rightarrow>
     tf = ag_timeframe a \<and> exch = tn_exchange n \<and> gs_end s \<le> t \<and> gs_start s div usec_day = t div usec_day) a"

definition within_session :: "tick \<Rightarrow> trading_session \<Rightarrow> bool" where
  "within_session t n \<longleftrightarrow> tn_start n \<le> ti_time t mod usec_day \<and> ti_time t mod usec_day < tn_end n"

definition ingest_tick :: "tick \<Rightarrow> trading_session option \<Rightarrow> aggregator \<Rightarrow> aggregator \<times> agg_state list result" where
  "ingest_tick t n a =
     (if ti_aware t then (a, Inl ValueError)
      else if (case n of None \<Rightarrow> False | Some x \<Rightarrow> \<not> within_session t x) then (a, Inr [])
      else
        let (a1, closed) = close_pending (ti_time t) a; start = align_timestamp (ag_timeframe a1) (ti_time t);
            k = Bucket (ti_symbol t) (ti_exchange t) (ag_timeframe a1) start
        in case dget (ag_open a1) k of
             None \<Rightarrow> (case create_state t (ag_timeframe a1) start (bucket_end (ag_timeframe a1) start) of
                 Inl e \<Rightarrow> (a1, Inl e)
               | Inr s \<Rightarrow> (a1\<lparr>ag_open := dset k s (ag_open a1)\<rparr>, Inr (closed @ [s])))
           | Some s \<Rightarrow>
               if has_seen t s \<or> gs_closed s then (a1, Inr closed)
               else (let s' = update_state s t in (a1\<lparr>ag_open := dset k s' (ag_open a1)\<rparr>, Inr (closed @ [s']))))"

section \<open>The engine\<close>

datatype candle_event = CandleOpened domain_candle | CandleUpdated domain_candle | CandleClosed domain_candle

record agg_engine =
  ae_aggregator :: aggregator
  ae_events :: "candle_event list"

definition new_agg_engine :: "timeframe \<Rightarrow> agg_engine" where
  "new_agg_engine tf = \<lparr>ae_aggregator = new_aggregator tf, ae_events = []\<rparr>"

definition publish_state :: "(domain_candle \<Rightarrow> candle_event) \<Rightarrow> agg_state \<Rightarrow> agg_engine \<Rightarrow> agg_engine \<times> unit result" where
  "publish_state ev s g = (case finalize_candle s of
       Inl e \<Rightarrow> (g, Inl e)
     | Inr c \<Rightarrow> (g\<lparr>ae_events := ae_events g @ [ev c]\<rparr>, Inr ()))"

definition event_for :: "agg_state \<Rightarrow> domain_candle \<Rightarrow> candle_event" where
  "event_for s = (if gs_closed s then CandleClosed else if gs_trades s = 1 then CandleOpened else CandleUpdated)"

fun publish_states :: "agg_state list \<Rightarrow> agg_engine \<Rightarrow> agg_engine \<times> unit result" where
  "publish_states [] g = (g, Inr ())"
| "publish_states (s # ss) g = (case publish_state (event_for s) s g of
       (g1, Inl e) \<Rightarrow> (g1, Inl e) | (g1, Inr _) \<Rightarrow> publish_states ss g1)"

text \<open>Comparing the end of an open bucket with a time that carries a zone raises.\<close>

definition agg_process_tick :: "agg_engine \<Rightarrow> tick \<times> trading_session option \<Rightarrow> agg_engine \<times> unit result" where
  "agg_process_tick g tn =
     (let (t, n) = tn in
      if ti_aware t \<and> ag_open (ae_aggregator g) \<noteq> [] then (g, Inl TypeError)
      else
        let (a1, closed) = close_pending (ti_time t) (ae_aggregator g) in
        case publish_states closed (g\<lparr>ae_aggregator := a1\<rparr>) of
          (g1, Inl e) \<Rightarrow> (g1, Inl e)
        | (g1, Inr _) \<Rightarrow> (case ingest_tick t n (ae_aggregator g1) of
             (a2, Inl e) \<Rightarrow> (g1\<lparr>ae_aggregator := a2\<rparr>, Inl e)
           | (a2, Inr ss) \<Rightarrow> publish_states ss (g1\<lparr>ae_aggregator := a2\<rparr>)))"

definition agg_close_session :: "trading_session \<Rightarrow> time \<Rightarrow> agg_engine \<Rightarrow> agg_engine \<times> unit result" where
  "agg_close_session n t g = (let (a1, closed) = close_session_states n t (ae_aggregator g) in
     publish_states closed (g\<lparr>ae_aggregator := a1\<rparr>))"

definition close_pending_candles :: "time \<Rightarrow> agg_engine \<Rightarrow> agg_engine \<times> unit result" where
  "close_pending_candles t g = (let (a1, closed) = close_pending t (ae_aggregator g) in
     publish_states closed (g\<lparr>ae_aggregator := a1\<rparr>))"

section \<open>Buckets cover time\<close>

lemma within_quotient:
  assumes "0 \<le> k" "k \<le> x mod m" "0 < (m::int)"
  shows "(x - k) div m = x div m" "(x - k) mod m = x mod m - k"
proof -
  have "0 \<le> x mod m - k" "x mod m - k < m" using assms pos_mod_bound [of m x] by linarith+
  moreover have "x - k = m * (x div m) + (x mod m - k)" by (simp add: mult_div_mod_eq algebra_simps)
  ultimately show "(x - k) div m = x div m" "(x - k) mod m = x mod m - k"
    by (metis div_pos_pos_trivial div_mult_self2 assms(3) add.commute add.left_neutral less_irrefl mult.commute)
      (metis \<open>0 \<le> x mod m - k\<close> \<open>x mod m - k < m\<close> \<open>x - k = m * (x div m) + (x mod m - k)\<close> mod_mult_self4 mod_pos_pos_trivial mult.commute)
qed

text \<open>The table of the months, checked on every day of a year.\<close>

lemma year_days_table:
  "list_all (\<lambda>n. list_all (\<lambda>l. let d = year_day_of_month l n in
      1 \<le> d \<and> d \<le> 31 \<and> d \<le> n + 1 \<and> year_day_of_month l (n - (d - 1)) = 1) [False, True]) [0..364]"
  by code_simp

lemma year_day_of_month:
  assumes "0 \<le> n" "n < 365" "d = year_day_of_month l n"
  shows "1 \<le> d" "d \<le> 31" "d \<le> n + 1" "year_day_of_month l (n - (d - 1)) = 1"
proof -
  have "l \<in> set [False, True]" "n \<in> set [0..364]" using assms(1,2) by (cases l, simp_all add: set_upto)
  then have "let d = year_day_of_month l n in 1 \<le> d \<and> d \<le> 31 \<and> d \<le> n + 1 \<and> year_day_of_month l (n - (d - 1)) = 1"
    using year_days_table unfolding list_all_iff by blast
  then show "1 \<le> d" "d \<le> 31" "d \<le> n + 1" "year_day_of_month l (n - (d - 1)) = 1"
    using assms(3) by (simp_all add: Let_def)
qed

lemma day_of_month_bounds: "1 \<le> day_of_month d" "day_of_month d \<le> 31"
proof -
  have "1 \<le> year_day_of_month l (x mod 365)" "year_day_of_month l (x mod 365) \<le> 31" for l x
    by (rule year_day_of_month [OF _ _ refl]; simp)+
  then have "1 \<le> day_of_month d \<and> day_of_month d \<le> 31" by (simp add: day_of_month_def Let_def)
  then show "1 \<le> day_of_month d" "day_of_month d \<le> 31" by simp_all
qed

text \<open>The day on which a month starts is the first of a month.\<close>

lemma first_of_month: "day_of_month (d - (day_of_month d - 1)) = 1"
proof -
  define n where "n = d + 719162"
  define r400 where "r400 = n mod 146097"
  define r100 where "r100 = r400 mod 36524"
  define r4 where "r4 = r100 mod 1461"
  define r1 where "r1 = r4 mod 365"
  define k where "k = day_of_month d - 1"
  have eq: "d - k + 719162 = n - k" by (simp add: n_def)
  have b: "0 \<le> r400" "r400 < 146097" "0 \<le> r100" "r100 < 36524" "0 \<le> r4" "r4 < 1461" "0 \<le> r1" "r1 < 365"
    by (simp_all add: r400_def r100_def r4_def r1_def)
  have le: "r100 \<le> r400" "r4 \<le> r100" "r1 \<le> r4"
    using b by (simp_all add: r100_def r4_def r1_def zmod_le_nonneg_dividend)
  show ?thesis
  proof (cases "r4 div 365 = 4 \<or> r400 div 36524 = 4")
    case last: True
    then have k: "k = 30" by (simp add: k_def day_of_month_def Let_def n_def [symmetric] r400_def [symmetric] r100_def [symmetric] r4_def [symmetric])
    have y: "year_day_of_month True 335 = 1" by code_simp
    show ?thesis
    proof (cases "r400 div 36524 = 4")
      case True
      then have "r400 = 146096" using b(1,2) by linarith
      then have "(n - k) mod 146097 = 146066" using within_quotient(2) [of 30 n 146097] k by (simp add: r400_def)
      then show ?thesis unfolding k_def [symmetric] using y by (simp add: day_of_month_def Let_def eq)
    next
      case False
      then have r4: "r4 = 1460" using last b(5,6) by linarith
      then have q: "r100 div 1461 \<noteq> 24" using b(4) div_mult_mod_eq [of r100 1461] by (auto simp: r4_def)
      have m1: "(n - k) mod 146097 = r400 - k" using within_quotient [of k n 146097] k le r4 by (simp add: r400_def)
      have m2: "(r400 - k) div 36524 = r400 div 36524" "(r400 - k) mod 36524 = r100 - k"
        using within_quotient [of k r400 36524] k le r4 by (simp_all add: r100_def)
      have m3: "(r100 - k) div 1461 = r100 div 1461" "(r100 - k) mod 1461 = r4 - k"
        using within_quotient [of k r100 1461] k r4 by (simp_all add: r4_def)
      have e: "(r4 - k) div 365 = 3" "(r4 - k) mod 365 = 335" by (simp_all add: r4 k)
      have l: "(3 = (3::int) \<and> (r100 div 1461 \<noteq> 24 \<or> r400 div 36524 = 3)) = True" using q by blast
      have c: "(3 = (4::int) \<or> r400 div 36524 = 4) = False" using False by (simp only: simp_thms)
      show ?thesis
        unfolding k_def [symmetric] by (simp only: day_of_month_def Let_def eq m1 m2 m3 e l c if_False y)
    qed
  next
    case False
    then have k: "k = year_day_of_month (r4 div 365 = 3 \<and> (r100 div 1461 \<noteq> 24 \<or> r400 div 36524 = 3)) r1 - 1"
      by (simp add: k_def day_of_month_def Let_def n_def [symmetric] r400_def [symmetric] r100_def [symmetric] r4_def [symmetric] r1_def [symmetric])
    have k0: "0 \<le> k" "k \<le> r1"
      using year_day_of_month(1,3) [OF b(7,8) refl, of "r4 div 365 = 3 \<and> (r100 div 1461 \<noteq> 24 \<or> r400 div 36524 = 3)"]
      unfolding k by linarith+
    have m1: "(n - k) mod 146097 = r400 - k" using within_quotient [of k n 146097] k0 le by (simp add: r400_def)
    have m2: "(r400 - k) div 36524 = r400 div 36524" "(r400 - k) mod 36524 = r100 - k"
      using within_quotient [of k r400 36524] k0 le by (simp_all add: r100_def)
    have m3: "(r100 - k) div 1461 = r100 div 1461" "(r100 - k) mod 1461 = r4 - k"
      using within_quotient [of k r100 1461] k0 le by (simp_all add: r4_def)
    have m4: "(r4 - k) div 365 = r4 div 365" "(r4 - k) mod 365 = r1 - k"
      using within_quotient [of k r4 365] k0 le by (simp_all add: r1_def)
    show ?thesis
      unfolding k_def [symmetric]
      by (simp only: day_of_month_def Let_def eq m1 m2 m3 m4 False if_False
          year_day_of_month(4) [OF b(7,8) refl, of "r4 div 365 = 3 \<and> (r100 div 1461 \<noteq> 24 \<or> r400 div 36524 = 3)", folded k])
  qed
qed

lemma usec_simps: "usec_minute = 60000000" "usec_hour = 60 * usec_minute" "usec_day = 24 * usec_hour"
  by (simp_all add: usec_minute_def usec_hour_def usec_day_def)

lemma floor_of_part:
  assumes "0 < (u::int)" "0 < k" "0 < m"
  shows "t - t mod (u * k * m) + t div u mod (k * m) div k * k * u = t - t mod (k * u)"
proof -
  define q where "q = t div u"
  have t: "t = u * q + t mod u" by (simp add: q_def mult_div_mod_eq)
  have "t mod (u * (k * m)) = u * (q mod (k * m)) + t mod u"
    using assms by (simp add: q_def zmod_zmult2_eq)
  moreover have "t mod (u * k) = u * (q mod k) + t mod u"
    using assms by (simp add: q_def zmod_zmult2_eq)
  moreover have "q mod (k * m) = q mod k + k * (q mod (k * m) div k)"
    by (metis dvd_triv_left mod_mod_cancel mod_mult_div_eq)
  then have "u * (q mod (k * m)) = u * (q mod k) + k * (u * (q mod (k * m) div k))"
    by (metis distrib_left mult.left_commute)
  ultimately show ?thesis
    by (simp add: q_def [symmetric] algebra_simps)
qed

text \<open>For the timeframes of a fixed width below a week, the bucket starts at the multiple of the width below.\<close>

lemma align_floor:
  "align_timestamp FIVE_MINUTE t = t - t mod (5 * usec_minute)"
  "align_timestamp FIFTEEN_MINUTE t = t - t mod (15 * usec_minute)"
  "align_timestamp THIRTY_MINUTE t = t - t mod (30 * usec_minute)"
  "align_timestamp FOUR_HOUR t = t - t mod (4 * usec_hour)"
proof -
  have p: "0 < usec_minute" "0 < usec_hour" by (simp_all add: usec_minute_def usec_hour_def)
  have h: "usec_minute * 5 * 12 = usec_hour" "usec_minute * 15 * 4 = usec_hour" "usec_minute * 30 * 2 = usec_hour"
    "usec_hour * 4 * 6 = usec_day" "5 * 12 = (60::int)" "15 * 4 = (60::int)" "30 * 2 = (60::int)" "4 * 6 = (24::int)"
    by (simp_all add: usec_minute_def usec_hour_def usec_day_def)
  have g: "0 < (5::int)" "0 < (15::int)" "0 < (30::int)" "0 < (4::int)" "0 < (12::int)" "0 < (2::int)" "0 < (6::int)" by simp_all
  note defs = align_timestamp.simps hour_start_def minute_of_def day_start_def hour_of_def
  show "align_timestamp FIVE_MINUTE t = t - t mod (5 * usec_minute)"
    using floor_of_part [OF p(1) g(1,5)] by (simp only: h defs)
  show "align_timestamp FIFTEEN_MINUTE t = t - t mod (15 * usec_minute)"
    using floor_of_part [OF p(1) g(2,4)] by (simp only: h defs)
  show "align_timestamp THIRTY_MINUTE t = t - t mod (30 * usec_minute)"
    using floor_of_part [OF p(1) g(3,6)] by (simp only: h defs)
  show "align_timestamp FOUR_HOUR t = t - t mod (4 * usec_hour)"
    using floor_of_part [OF p(2) g(4,7)] by (simp only: h defs)
qed

lemma week_start_eq: "align_timestamp ONE_WEEK t = t - t mod usec_day - weekday t * usec_day"
  using mod_mult_self1 [of t "- weekday t" usec_day] by (simp add: day_start_def)

lemma month_start_eq: "month_start t = (t div usec_day - (day_of_month (t div usec_day) - 1)) * usec_day"
  by (simp add: month_start_def day_start_def minus_mod_eq_div_mult algebra_simps)

lemma align_bounds: "align_timestamp tf t \<le> t \<and> t < bucket_end tf (align_timestamp tf t)"
proof -
  have f: "t - t mod w \<le> t \<and> t < t - t mod w + w" if "0 < w" for w :: int
    using that pos_mod_sign [of w t] pos_mod_bound [of w t] by simp
  have p: "0 < usec_minute" "0 < usec_hour" "0 < usec_day" by (simp_all add: usec_minute_def usec_hour_def usec_day_def)
  have month: "month_start t \<le> t \<and> t < bucket_end ONE_MONTH (month_start t)"
  proof -
    define d where "d = t div usec_day"
    have s: "month_start t = (d - (day_of_month d - 1)) * usec_day"
      by (simp add: month_start_eq d_def)
    then have "month_start t div usec_day = d - (day_of_month d - 1)" using p(3) by simp
    then have "bucket_end ONE_MONTH (month_start t) = (d - (day_of_month d - 1)) * usec_day + 31 * usec_day"
      by (simp only: bucket_end.simps first_of_month s) simp
    then have e: "bucket_end ONE_MONTH (month_start t) = (d - (day_of_month d - 1) + 31) * usec_day"
      by (simp only: distrib_right)
    have "d * usec_day \<le> t" "t < (d + 1) * usec_day"
      using f [OF p(3)] by (simp_all add: d_def minus_mod_eq_div_mult algebra_simps)
    moreover have "(d - (day_of_month d - 1)) * usec_day \<le> d * usec_day" "(d + 1) * usec_day \<le> (d - (day_of_month d - 1) + 31) * usec_day"
      using day_of_month_bounds [of d] p(3) by (auto intro!: mult_right_mono)
    ultimately show ?thesis using e s by linarith
  qed
  have week: "align_timestamp ONE_WEEK t \<le> t \<and> t < align_timestamp ONE_WEEK t + 7 * usec_day"
  proof -
    have "0 \<le> weekday t" "weekday t \<le> 6" using pos_mod_bound [of 7 "t div usec_day + 3"] by (simp_all add: weekday_def)
    then have "0 \<le> weekday t * usec_day" "weekday t * usec_day \<le> 6 * usec_day" using p(3) by (auto intro: mult_right_mono)
    then show ?thesis unfolding week_start_eq using f [OF p(3)] by linarith
  qed
  show ?thesis
    using f [of usec_minute] f [of "5 * usec_minute"] f [of "15 * usec_minute"] f [of "30 * usec_minute"]
      f [of usec_hour] f [of "4 * usec_hour"] f [of usec_day] p month week
    by (cases tf) (simp_all only: align_floor bucket_end.simps align_timestamp.simps(1,5,7,9) hour_start_def day_start_def
        zero_less_mult_iff zero_less_numeral simp_thms)
qed

text \<open>A monthly bucket always lasts 31 days, so after a shorter month it reaches into the next one.\<close>

lemma short_month_overlaps:
  assumes "t = 20208 * usec_day"
  shows "align_timestamp ONE_MONTH t < t" "t < bucket_end ONE_MONTH (align_timestamp ONE_MONTH t)"
    "align_timestamp ONE_MONTH (t + usec_day) = t + usec_day"
    "align_timestamp ONE_MONTH (t + usec_day) < bucket_end ONE_MONTH (align_timestamp ONE_MONTH t)"
proof -
  have p: "0 < usec_day" by (simp add: usec_day_def)
  have d: "day_of_month 20208 = 30" "day_of_month 20209 = 1" "day_of_month 20179 = 1" by code_simp+
  have a: "align_timestamp ONE_MONTH t = 20179 * usec_day" "align_timestamp ONE_MONTH (t + usec_day) = 20209 * usec_day"
    using p d assms by (simp_all add: month_start_eq)
  then have "bucket_end ONE_MONTH (align_timestamp ONE_MONTH t) = 20210 * usec_day" using p d by simp
  with a p assms show "align_timestamp ONE_MONTH t < t" "t < bucket_end ONE_MONTH (align_timestamp ONE_MONTH t)"
    "align_timestamp ONE_MONTH (t + usec_day) = t + usec_day"
    "align_timestamp ONE_MONTH (t + usec_day) < bucket_end ONE_MONTH (align_timestamp ONE_MONTH t)"
    by simp_all
qed

section \<open>A candle against the ticks it was built from\<close>

definition candle_of :: "agg_state \<Rightarrow> domain_candle" where
  "candle_of s = \<lparr>oc_symbol = gs_symbol s, oc_exchange = gs_exchange s, oc_timeframe = gs_timeframe s,
     oc_start = gs_start s, oc_open = gs_open s, oc_high = gs_high s, oc_low = gs_low s, oc_close = gs_close s,
     oc_volume = gs_volume s, oc_trades = gs_trades s\<rparr>"

text \<open>The ticks in the order they arrive, each only once.\<close>

definition arrive :: "tick list \<Rightarrow> tick \<Rightarrow> tick list" where
  "arrive us t = (if signature_for t \<in> signature_for ` set us then us else us @ [t])"

definition first_arrivals :: "tick list \<Rightarrow> tick list" where
  "first_arrivals ts = foldl arrive [] ts"

text \<open>The first tick of the latest time.\<close>

definition latest_tick :: "tick list \<Rightarrow> tick" where
  "latest_tick us = hd (filter (\<lambda>x. ti_time x = Max (ti_time ` set us)) us)"

definition reflects :: "tick list \<Rightarrow> agg_state \<Rightarrow> bool" where
  "reflects us s \<longleftrightarrow> us \<noteq> [] \<and> gs_signatures s = signature_for ` set us \<and> gs_open s = ti_price (hd us) \<and>
     gs_high s = Max (ti_price ` set us) \<and> gs_low s = Min (ti_price ` set us) \<and> gs_last s = Max (ti_time ` set us) \<and>
     gs_close s = ti_price (latest_tick us) \<and>
     gs_volume s = foldl fadd (size_of_tick (hd us)) (map size_of_tick (tl us)) \<and> gs_trades s = int (length us)"

lemma latest_tick_snoc:
  assumes "us \<noteq> []"
  shows "latest_tick (us @ [t]) = (if Max (ti_time ` set us) < ti_time t then t else latest_tick us)"
proof -
  let ?m = "Max (ti_time ` set us)"
  have m: "?m \<in> ti_time ` set us" "\<And>x. x \<in> set us \<Longrightarrow> ti_time x \<le> ?m" using assms by simp_all
  have M: "Max (ti_time ` set (us @ [t])) = max ?m (ti_time t)" using assms by (simp add: max.commute)
  show ?thesis
  proof (cases "?m < ti_time t")
    case True
    then have "filter (\<lambda>x. ti_time x = ti_time t) us = []" using m(2) by (intro filter_False) (metis not_le)
    then show ?thesis unfolding latest_tick_def M using True by (simp add: max_def)
  next
    case False
    then have "max ?m (ti_time t) = ?m" by simp
    moreover have "filter (\<lambda>x. ti_time x = ?m) us \<noteq> []" using m(1) by (auto simp: filter_empty_conv)
    ultimately show ?thesis unfolding latest_tick_def M using False by simp
  qed
qed

lemma reflects_update:
  assumes "reflects us s"
  shows "reflects (arrive us t) (update_state s t)"
proof (cases "has_seen t s")
  case True
  then show ?thesis using assms by (simp add: update_state_def has_seen_def arrive_def reflects_def)
next
  case False
  have us: "us \<noteq> []" using assms by (simp add: reflects_def)
  have "signature_for t \<notin> signature_for ` set us" using False assms by (simp add: has_seen_def reflects_def)
  moreover have "Max (ti_price ` set (us @ [t])) = max (Max (ti_price ` set us)) (ti_price t)"
    "Min (ti_price ` set (us @ [t])) = min (Min (ti_price ` set us)) (ti_price t)"
    "Max (ti_time ` set (us @ [t])) = max (Max (ti_time ` set us)) (ti_time t)"
    using us by (simp_all add: max.commute min.commute)
  moreover have "update_state s t = record_tick t (s\<lparr>gs_high := max (gs_high s) (ti_price t), gs_low := min (gs_low s) (ti_price t),
      gs_close := (if gs_last s < ti_time t then ti_price t else gs_close s), gs_last := max (gs_last s) (ti_time t),
      gs_volume := fadd (gs_volume s) (size_of_tick t), gs_trades := gs_trades s + 1\<rparr>)"
    using False by (simp add: update_state_def Let_def max_def)
  moreover have "hd (us @ [t]) = hd us" "tl (us @ [t]) = tl us @ [t]" "signature_for ` set (us @ [t]) = insert (signature_for t) (signature_for ` set us)"
    using us by simp_all
  ultimately show ?thesis using assms
    unfolding reflects_def arrive_def record_tick_def latest_tick_snoc [OF us]
    by (simp add: latest_tick_snoc [OF us] del: set_append)
qed

text \<open>C20: For any ticks of one bucket, in whatever order they arrive, the candle built step by step is the one the ticks
  determine when each is counted once: the price of the first arrival, the highest and lowest price, the price of the
  tick with the latest time (of several, the first to arrive), the sizes summed in the order of arrival, and the number of
  ticks.\<close>

theorem candle_matches_ticks:
  assumes "create_state t tf start en = Inr s"
  shows "let c = candle_of (foldl update_state s ts); us = first_arrivals (t # ts) in
    oc_open c = ti_price t \<and> oc_high c = Max (ti_price ` set (t # ts)) \<and> oc_low c = Min (ti_price ` set (t # ts)) \<and>
    oc_close c = ti_price (latest_tick us) \<and>
    oc_volume c = foldl fadd (size_of_tick t) (map size_of_tick (tl us)) \<and> oc_trades c = int (length us)"
proof -
  have "reflects [t] s" using assms
    by (auto simp: create_state_def record_tick_def reflects_def latest_tick_def split: if_splits)
  then have "reflects (foldl arrive [t] ts) (foldl update_state s ts)"
    by (induction ts rule: rev_induct) (simp_all add: reflects_update)
  moreover have "foldl arrive [t] ts = first_arrivals (t # ts)" by (simp add: first_arrivals_def arrive_def)
  ultimately have r: "reflects (first_arrivals (t # ts)) (foldl update_state s ts)" by simp
  have p: "ti_price ` set (first_arrivals (t # ts)) = ti_price ` set (t # ts) \<and> hd (first_arrivals (t # ts)) = t \<and> first_arrivals (t # ts) \<noteq> []"
  proof (induction ts rule: rev_induct)
    case (snoc x xs)
    have "ti_price x \<in> ti_price ` S" if "signature_for x \<in> signature_for ` S" for S
      using that by (force simp: signature_for_def)
    moreover have "first_arrivals (t # xs @ [x]) = arrive (first_arrivals (t # xs)) x" by (simp add: first_arrivals_def)
    ultimately show ?case using snoc.IH by (auto simp: arrive_def insert_absorb)
  qed (simp add: first_arrivals_def arrive_def)
  show ?thesis using r p by (simp add: reflects_def candle_of_def Let_def)
qed

text \<open>Ticks that arrive in the order of their times are all counted, and the last one gives the close.\<close>

lemma first_arrivals_sorted: "sorted_wrt (<) (map ti_time ts) \<Longrightarrow> first_arrivals ts = ts"
proof (induction ts rule: rev_induct)
  case (snoc t ts)
  then have "\<forall>x\<in>set ts. ti_time x < ti_time t" by (simp add: sorted_wrt_append)
  then have "signature_for t \<notin> signature_for ` set ts" by (auto simp: signature_for_def)
  then show ?case using snoc by (simp add: first_arrivals_def arrive_def sorted_wrt_append)
qed (simp add: first_arrivals_def)

lemma latest_tick_sorted: "sorted_wrt (<) (map ti_time ts) \<Longrightarrow> ts \<noteq> [] \<Longrightarrow> latest_tick ts = last ts"
proof (induction ts rule: rev_induct)
  case (snoc t ts)
  show ?case
  proof (cases "ts = []")
    case False
    have "\<forall>x\<in>set ts. ti_time x < ti_time t" using snoc.prems(1) by (simp add: sorted_wrt_append)
    then have "Max (ti_time ` set ts) < ti_time t" using False by simp
    then show ?thesis using False by (simp add: latest_tick_snoc)
  qed (simp add: latest_tick_def)
qed simp

section \<open>What the aggregator keeps\<close>

definition state_ok :: "agg_state \<Rightarrow> bool" where
  "state_ok s \<longleftrightarrow> gs_symbol s \<noteq> [] \<and> gs_exchange s \<noteq> [] \<and> 0 < gs_low s \<and> gs_low s \<le> gs_open s \<and> gs_open s \<le> gs_high s \<and>
     gs_low s \<le> gs_close s \<and> gs_close s \<le> gs_high s \<and> 0 \<le> gs_volume s \<and> 1 \<le> gs_trades s"

definition valid_tick :: "tick \<Rightarrow> bool" where
  "valid_tick t \<longleftrightarrow> ti_symbol t \<noteq> [] \<and> ti_exchange t \<noteq> [] \<and> 0 < ti_price t \<and> 0 \<le> size_of_tick t"

lemma new_tick_valid: "new_tick name exch t aware price sz bid ask = Inr x \<Longrightarrow> valid_tick x"
  by (auto simp: new_tick_def valid_tick_def size_of_tick_def given_and_def split: if_splits option.splits)

lemma finalize_ok: "state_ok s \<Longrightarrow> finalize_candle s = Inr (candle_of s)"
  by (auto simp: finalize_candle_def validate_ohlc_def candle_of_def state_ok_def)

lemma validate_candle_of: "state_ok s \<Longrightarrow> validate_ohlc (candle_of s) = Inr (candle_of s)"
  using finalize_ok by (simp add: finalize_candle_def candle_of_def)

lemma create_state_ok: "create_state t tf start en = Inr s \<Longrightarrow> valid_tick t \<Longrightarrow> state_ok s"
  by (auto simp: create_state_def record_tick_def state_ok_def valid_tick_def split: if_splits)

lemma update_state_ok: "state_ok s \<Longrightarrow> valid_tick t \<Longrightarrow> state_ok (update_state s t)"
  by (auto simp: update_state_def record_tick_def state_ok_def valid_tick_def Let_def fadd_nonneg min_def max_def)

lemma update_state_frame:
  "gs_symbol (update_state s t) = gs_symbol s" "gs_exchange (update_state s t) = gs_exchange s"
  "gs_timeframe (update_state s t) = gs_timeframe s" "gs_start (update_state s t) = gs_start s"
  "gs_end (update_state s t) = gs_end s" "gs_closed (update_state s t) = gs_closed s"
  by (simp_all add: update_state_def record_tick_def Let_def)

definition key_of :: "agg_state \<Rightarrow> bucket_key" where
  "key_of s = Bucket (gs_symbol s) (gs_exchange s) (gs_timeframe s) (gs_start s)"

text \<open>Each open bucket is stored under its key, has a valid candle, and ends where its timeframe says.\<close>

definition agg_inv :: "aggregator \<Rightarrow> bool" where
  "agg_inv a \<longleftrightarrow> wf_dict (ag_open a) \<and> (\<forall>k s. dget (ag_open a) k = Some s \<longrightarrow>
     state_ok s \<and> \<not> gs_closed s \<and> gs_timeframe s = ag_timeframe a \<and> k = key_of s \<and>
     gs_end s = bucket_end (ag_timeframe a) (gs_start s))"

lemma agg_invD:
  assumes "agg_inv a" "dget (ag_open a) k = Some s"
  shows "state_ok s" "\<not> gs_closed s" "gs_timeframe s = ag_timeframe a" "k = key_of s"
    "gs_end s = bucket_end (ag_timeframe a) (gs_start s)"
  using assms unfolding agg_inv_def by blast+

text \<open>Storing a state under its key keeps the invariant.\<close>

lemma agg_inv_store:
  assumes "agg_inv a" "state_ok s" "\<not> gs_closed s" "gs_timeframe s = ag_timeframe a"
    "gs_end s = bucket_end (ag_timeframe a) (gs_start s)"
  shows "agg_inv (a\<lparr>ag_open := dset (key_of s) s (ag_open a)\<rparr>)"
proof -
  define b where "b = a\<lparr>ag_open := dset (key_of s) s (ag_open a)\<rparr>"
  have b: "ag_open b = dset (key_of s) s (ag_open a)" "ag_timeframe b = ag_timeframe a" by (simp_all add: b_def)
  have "wf_dict (ag_open b)" using assms(1) by (auto simp: agg_inv_def b)
  moreover have "state_ok x \<and> \<not> gs_closed x \<and> gs_timeframe x = ag_timeframe b \<and> k = key_of x \<and>
      gs_end x = bucket_end (ag_timeframe b) (gs_start x)" if d: "dget (ag_open b) k = Some x" for k x
  proof (cases "k = key_of s")
    case True
    with d have "x = s" by (simp add: b dget_dset)
    with True assms show ?thesis by (simp add: b)
  next
    case False
    with d have "dget (ag_open a) k = Some x" by (simp add: b dget_dset)
    from agg_invD [OF assms(1) this] show ?thesis unfolding b by blast
  qed
  ultimately show ?thesis unfolding agg_inv_def b_def [symmetric] by blast
qed

lemma agg_inv_new: "agg_inv (new_aggregator tf)"
  by (simp add: agg_inv_def new_aggregator_def)

lemma wf_dict_filter: "wf_dict d \<Longrightarrow> wf_dict (filter P d)"
  by (simp add: wf_dict_def distinct_map_filter)

lemma dget_filter_wf: "wf_dict d \<Longrightarrow> dget (filter P d) k = (case dget d k of None \<Rightarrow> None | Some v \<Rightarrow> if P (k, v) then Some v else None)"
proof (induction d)
  case (Cons e d)
  obtain k' v where e: "e = (k', v)" by fastforce
  have "wf_dict d" "k' \<notin> fst ` set d" using Cons.prems by (simp_all add: wf_dict_def e)
  then have "dget d k' = None" by (simp add: map_of_eq_None_iff)
  then show ?case using Cons.IH [OF \<open>wf_dict d\<close>] by (auto simp: e split: option.splits)
qed simp

lemma close_where_inv:
  assumes "agg_inv a" "close_where due a = (a', cls)"
  shows "agg_inv a'" "ag_timeframe a' = ag_timeframe a"
    "dget (ag_open a') k = (case dget (ag_open a) k of None \<Rightarrow> None | Some s \<Rightarrow> if due k s then None else Some s)"
    "s \<in> set cls \<longleftrightarrow> (\<exists>k s0. dget (ag_open a) k = Some s0 \<and> due k s0 \<and> s = s0\<lparr>gs_closed := True\<rparr>)"
proof -
  have a': "ag_open a' = filter (\<lambda>e. \<not> due (fst e) (snd e)) (ag_open a)" "ag_timeframe a' = ag_timeframe a"
    "cls = map (\<lambda>e. (snd e)\<lparr>gs_closed := True\<rparr>) (filter (\<lambda>e. due (fst e) (snd e)) (ag_open a))"
    using assms(2) by (auto simp: close_where_def)
  have w: "wf_dict (ag_open a)" using assms(1) by (simp add: agg_inv_def)
  show d: "dget (ag_open a') k = (case dget (ag_open a) k of None \<Rightarrow> None | Some s \<Rightarrow> if due k s then None else Some s)" for k
    by (simp add: a'(1) dget_filter_wf [OF w] split: option.split)
  show "ag_timeframe a' = ag_timeframe a" by (rule a'(2))
  show "agg_inv a'"
  proof -
    have "dget (ag_open a) k = Some s" if "dget (ag_open a') k = Some s" for k s
      using that d [of k] by (simp split: option.splits if_splits)
    moreover have "wf_dict (ag_open a')" unfolding a'(1) by (rule wf_dict_filter [OF w])
    ultimately show ?thesis using assms(1) unfolding agg_inv_def a'(2) by blast
  qed
  have "dget (ag_open a) k = Some s \<longleftrightarrow> (k, s) \<in> set (ag_open a)" for k s
    using w by (simp add: wf_dict_def)
  then show "s \<in> set cls \<longleftrightarrow> (\<exists>k s0. dget (ag_open a) k = Some s0 \<and> due k s0 \<and> s = s0\<lparr>gs_closed := True\<rparr>)"
    by (force simp: a'(3))
qed

lemma publish_states_ok:
  assumes "\<And>s. s \<in> set ss \<Longrightarrow> state_ok s"
  shows "publish_states ss g = (g\<lparr>ae_events := ae_events g @ map (\<lambda>s. event_for s (candle_of s)) ss\<rparr>, Inr ())"
  using assms by (induction ss arbitrary: g) (simp_all add: publish_state_def finalize_ok)

text \<open>Closing what is due at a time leaves nothing that is due at it.\<close>

lemma close_pending_inv:
  assumes "agg_inv a" "close_pending t a = (a', cls)"
  shows "agg_inv a'" "ag_timeframe a' = ag_timeframe a"
    "dget (ag_open a') k = Some s \<longleftrightarrow> dget (ag_open a) k = Some s \<and> t < gs_end s"
    "close_pending t a' = (a', [])"
    "s \<in> set cls \<longleftrightarrow> (\<exists>k s0. dget (ag_open a) k = Some s0 \<and> gs_end s0 \<le> t \<and> s = s0\<lparr>gs_closed := True\<rparr>)"
proof -
  have c: "close_where (\<lambda>k s. gs_end s \<le> t) a = (a', cls)" using assms(2) by (simp add: close_pending_def)
  note f = close_where_inv [OF assms(1) c]
  show "agg_inv a'" "ag_timeframe a' = ag_timeframe a" by (fact f(1), fact f(2))
  show "dget (ag_open a') k = Some s \<longleftrightarrow> dget (ag_open a) k = Some s \<and> t < gs_end s"
    using f(3) [of k] by (auto split: option.splits if_splits)
  show "s \<in> set cls \<longleftrightarrow> (\<exists>k s0. dget (ag_open a) k = Some s0 \<and> gs_end s0 \<le> t \<and> s = s0\<lparr>gs_closed := True\<rparr>)"
    by (rule f(4))
  show "close_pending t a' = (a', [])"
    using c by (auto simp: close_pending_def close_where_def filter_empty_conv)
qed

definition bucket_of :: "timeframe \<Rightarrow> tick \<Rightarrow> bucket_key" where
  "bucket_of tf t = Bucket (ti_symbol t) (ti_exchange t) tf (align_timestamp tf (ti_time t))"

definition in_session :: "tick \<Rightarrow> trading_session option \<Rightarrow> bool" where
  "in_session t n \<longleftrightarrow> (case n of None \<Rightarrow> True | Some x \<Rightarrow> within_session t x)"

text \<open>
  A tick after everything due was closed: nothing happens outside the session or for a repetition, else its
  bucket is opened or updated.
\<close>

lemma ingest_cases:
  assumes "agg_inv a" "close_pending (ti_time t) a = (a, [])" "valid_tick t" "\<not> ti_aware t"
  obtains (skip) "ingest_tick t n a = (a, Inr [])"
  | (opened) s where "in_session t n" "dget (ag_open a) (bucket_of (ag_timeframe a) t) = None"
      "ingest_tick t n a = (a\<lparr>ag_open := dset (key_of s) s (ag_open a)\<rparr>, Inr [s])" "key_of s = bucket_of (ag_timeframe a) t"
      "state_ok s" "\<not> gs_closed s" "gs_trades s = 1" "gs_timeframe s = ag_timeframe a"
      "gs_end s = bucket_end (ag_timeframe a) (gs_start s)"
  | (updated) s0 s where "in_session t n" "dget (ag_open a) (key_of s) = Some s0" "s = update_state s0 t" "\<not> has_seen t s0"
      "ingest_tick t n a = (a\<lparr>ag_open := dset (key_of s) s (ag_open a)\<rparr>, Inr [s])" "key_of s = bucket_of (ag_timeframe a) t"
      "state_ok s" "\<not> gs_closed s" "gs_trades s \<noteq> 1" "gs_timeframe s = ag_timeframe a"
      "gs_end s = bucket_end (ag_timeframe a) (gs_start s)"
proof (cases "in_session t n")
  case False
  then have "ingest_tick t n a = (a, Inr [])"
    using assms(4) by (auto simp: ingest_tick_def in_session_def split: option.splits)
  then show thesis by (rule skip)
next
  case True
  define k where "k = bucket_of (ag_timeframe a) t"
  define st where "st = align_timestamp (ag_timeframe a) (ti_time t)"
  have lt: "st < bucket_end (ag_timeframe a) st" using align_bounds [of "ag_timeframe a" "ti_time t"] by (simp add: st_def)
  have ing: "ingest_tick t n a = (case dget (ag_open a) k of
      None \<Rightarrow> (case create_state t (ag_timeframe a) st (bucket_end (ag_timeframe a) st) of
          Inl e \<Rightarrow> (a, Inl e) | Inr s \<Rightarrow> (a\<lparr>ag_open := dset k s (ag_open a)\<rparr>, Inr [s]))
    | Some s \<Rightarrow> if has_seen t s \<or> gs_closed s then (a, Inr [])
        else (let s' = update_state s t in (a\<lparr>ag_open := dset k s' (ag_open a)\<rparr>, Inr [s'])))"
    using True assms(2,4) by (auto simp: ingest_tick_def in_session_def k_def bucket_of_def st_def Let_def split: option.split sum.split)
  show thesis
  proof (cases "dget (ag_open a) k")
    case None
    obtain s where s: "create_state t (ag_timeframe a) st (bucket_end (ag_timeframe a) st) = Inr s"
      using lt by (simp add: create_state_def)
    then have "key_of s = k" "\<not> gs_closed s" "gs_trades s = 1" "gs_timeframe s = ag_timeframe a"
      "gs_end s = bucket_end (ag_timeframe a) (gs_start s)"
      by (auto simp: create_state_def record_tick_def key_of_def k_def bucket_of_def st_def split: if_splits)
    moreover have "state_ok s" using create_state_ok [OF s assms(3)] .
    ultimately show thesis using opened [of s] True None s ing by (simp add: k_def)
  next
    case (Some s0)
    then have s0: "state_ok s0" "\<not> gs_closed s0" "gs_timeframe s0 = ag_timeframe a" "k = key_of s0"
      "gs_end s0 = bucket_end (ag_timeframe a) (gs_start s0)"
      using agg_invD [OF assms(1) Some] by simp_all
    show thesis
    proof (cases "has_seen t s0")
      case True
      with Some ing have "ingest_tick t n a = (a, Inr [])" by simp
      then show thesis by (rule skip)
    next
      case False
      define s where "s = update_state s0 t"
      have k: "key_of s = k" unfolding s0(4) by (simp add: s_def key_of_def update_state_frame)
      show thesis
      proof (rule updated [of s s0])
        show "dget (ag_open a) (key_of s) = Some s0" using Some k by simp
        show "ingest_tick t n a = (a\<lparr>ag_open := dset (key_of s) s (ag_open a)\<rparr>, Inr [s])"
          unfolding ing k using Some False s0(2) by (simp add: s_def Let_def)
        show "key_of s = bucket_of (ag_timeframe a) t" using k by (simp add: k_def)
        show "state_ok s" using update_state_ok [OF s0(1) assms(3)] by (simp add: s_def)
        show "gs_trades s \<noteq> 1"
          using False s0(1) by (simp add: s_def update_state_def record_tick_def state_ok_def Let_def)
        show "\<not> gs_closed s" "gs_timeframe s = ag_timeframe a" "gs_end s = bucket_end (ag_timeframe a) (gs_start s)"
          using s0 by (simp_all add: s_def update_state_frame)
      qed (simp_all add: True s_def False \<open>in_session t n\<close>)
    qed
  qed
qed

lemma ingest_inv:
  assumes "agg_inv a" "close_pending (ti_time t) a = (a, [])" "valid_tick t" "\<not> ti_aware t"
  obtains (result) a' ss where "ingest_tick t n a = (a', Inr ss)" "agg_inv a'" "ag_timeframe a' = ag_timeframe a"
    "length ss \<le> 1" "\<And>s. s \<in> set ss \<Longrightarrow> state_ok s \<and> \<not> gs_closed s \<and> key_of s = bucket_of (ag_timeframe a) t \<and>
       (gs_trades s = 1 \<longleftrightarrow> dget (ag_open a) (bucket_of (ag_timeframe a) t) = None)"
    "\<And>k s. dget (ag_open a') k = Some s \<Longrightarrow> s \<in> set ss \<or> dget (ag_open a) k = Some s"
    "\<And>k. dget (ag_open a) k \<noteq> None \<Longrightarrow> dget (ag_open a') k \<noteq> None"
    "\<And>s. s \<in> set ss \<Longrightarrow> dget (ag_open a') (key_of s) = Some s"
proof -
  have one: thesis
    if i: "ingest_tick t n a = (a\<lparr>ag_open := dset (key_of s) s (ag_open a)\<rparr>, Inr [s])"
      and k: "key_of s = bucket_of (ag_timeframe a) t"
      and ok: "state_ok s" "\<not> gs_closed s" "gs_timeframe s = ag_timeframe a" "gs_end s = bucket_end (ag_timeframe a) (gs_start s)"
      and n: "gs_trades s = 1 \<longleftrightarrow> dget (ag_open a) (bucket_of (ag_timeframe a) t) = None" for s
  proof (rule result)
    show "ingest_tick t n a = (a\<lparr>ag_open := dset (key_of s) s (ag_open a)\<rparr>, Inr [s])" by (rule i)
    show "agg_inv (a\<lparr>ag_open := dset (key_of s) s (ag_open a)\<rparr>)" by (rule agg_inv_store [OF assms(1) ok])
    show "x \<in> set [s] \<or> dget (ag_open a) j = Some x"
      if "dget (ag_open (a\<lparr>ag_open := dset (key_of s) s (ag_open a)\<rparr>)) j = Some x" for j x
      using that by (simp add: dget_dset split: if_splits)
    show "dget (ag_open (a\<lparr>ag_open := dset (key_of s) s (ag_open a)\<rparr>)) j \<noteq> None" if "dget (ag_open a) j \<noteq> None" for j
      using that by (simp add: dget_dset)
    show "dget (ag_open (a\<lparr>ag_open := dset (key_of s) s (ag_open a)\<rparr>)) (key_of x) = Some x" if "x \<in> set [s]" for x
      using that by (simp add: dget_dset)
    show "state_ok x \<and> \<not> gs_closed x \<and> key_of x = bucket_of (ag_timeframe a) t \<and>
        (gs_trades x = 1 \<longleftrightarrow> dget (ag_open a) (bucket_of (ag_timeframe a) t) = None)" if "x \<in> set [s]" for x
      using that k ok n by simp
  qed simp_all
  show thesis
  proof (cases rule: ingest_cases [OF assms, of n])
    case 1
    show thesis by (rule result [OF 1 assms(1)]) simp_all
  next
    case (2 s)
    show thesis by (rule one [of s]) (use 2 in simp_all)
  next
    case (3 s0 s)
    show thesis by (rule one [of s]) (use 3 in simp_all)
  qed
qed

section \<open>What the engine publishes\<close>

fun event_candle :: "candle_event \<Rightarrow> domain_candle" where
  "event_candle (CandleOpened c) = c"
| "event_candle (CandleUpdated c) = c"
| "event_candle (CandleClosed c) = c"

definition candle_key :: "domain_candle \<Rightarrow> bucket_key" where
  "candle_key c = Bucket (oc_symbol c) (oc_exchange c) (oc_timeframe c) (oc_start c)"

definition closed_keys :: "candle_event list \<Rightarrow> bucket_key list" where
  "closed_keys evs = List.map_filter (\<lambda>e. case e of CandleClosed c \<Rightarrow> Some (candle_key c) | _ \<Rightarrow> None) evs"

definition opened_keys :: "candle_event list \<Rightarrow> bucket_key list" where
  "opened_keys evs = List.map_filter (\<lambda>e. case e of CandleOpened c \<Rightarrow> Some (candle_key c) | _ \<Rightarrow> None) evs"

lemma keys_append [simp]:
  "closed_keys (xs @ ys) = closed_keys xs @ closed_keys ys" "opened_keys (xs @ ys) = opened_keys xs @ opened_keys ys"
  "closed_keys [] = []" "opened_keys [] = []"
  by (simp_all add: closed_keys_def opened_keys_def List.map_filter_def)

lemma event_candle_for [simp]: "event_candle (event_for s c) = c"
  by (simp add: event_for_def)

lemma candle_key_of [simp]: "candle_key (candle_of s) = key_of s"
  by (simp add: candle_key_def candle_of_def key_of_def)

lemma closing_keys:
  "(\<And>s. s \<in> set ss \<Longrightarrow> gs_closed s) \<Longrightarrow> closed_keys (map (\<lambda>s. event_for s (candle_of s)) ss) = map key_of ss"
  "(\<And>s. s \<in> set ss \<Longrightarrow> gs_closed s) \<Longrightarrow> opened_keys (map (\<lambda>s. event_for s (candle_of s)) ss) = []"
  by (induction ss) (simp_all add: closed_keys_def opened_keys_def List.map_filter_def event_for_def)

lemma touching_keys:
  "(\<And>s. s \<in> set ss \<Longrightarrow> \<not> gs_closed s) \<Longrightarrow> closed_keys (map (\<lambda>s. event_for s (candle_of s)) ss) = []"
  "(\<And>s. s \<in> set ss \<Longrightarrow> \<not> gs_closed s) \<Longrightarrow>
     opened_keys (map (\<lambda>s. event_for s (candle_of s)) ss) = map key_of (filter (\<lambda>s. gs_trades s = 1) ss)"
  by (induction ss) (simp_all add: closed_keys_def opened_keys_def List.map_filter_def event_for_def)

text \<open>The whole of a valid tick: first what is due is closed, then its own bucket is touched at most once.\<close>

lemma process_tick_shape:
  assumes "agg_inv (ae_aggregator g)" "valid_tick t" "\<not> ti_aware t"
  obtains a1 cls a2 ss where "close_pending (ti_time t) (ae_aggregator g) = (a1, cls)" "agg_inv a1"
    "ingest_tick t n a1 = (a2, Inr ss)" "agg_inv a2" "ag_timeframe a2 = ag_timeframe (ae_aggregator g)" "length ss \<le> 1"
    "\<And>s. s \<in> set ss \<Longrightarrow> state_ok s \<and> \<not> gs_closed s \<and> key_of s = bucket_of (ag_timeframe (ae_aggregator g)) t \<and>
       (gs_trades s = 1 \<longleftrightarrow> dget (ag_open a1) (bucket_of (ag_timeframe (ae_aggregator g)) t) = None)"
    "\<And>k s. dget (ag_open a2) k = Some s \<Longrightarrow> s \<in> set ss \<or> dget (ag_open a1) k = Some s"
    "\<And>k. dget (ag_open a1) k \<noteq> None \<Longrightarrow> dget (ag_open a2) k \<noteq> None"
    "\<And>s. s \<in> set ss \<Longrightarrow> dget (ag_open a2) (key_of s) = Some s"
    "agg_process_tick g (t, n) = (\<lparr>ae_aggregator = a2, ae_events = ae_events g @
       map (\<lambda>s. event_for s (candle_of s)) (cls @ ss)\<rparr>, Inr ())"
    "\<And>s. s \<in> set (cls @ ss) \<Longrightarrow> state_ok s"
proof -
  obtain a1 cls where c: "close_pending (ti_time t) (ae_aggregator g) = (a1, cls)" by fastforce
  note p = close_pending_inv [OF assms(1) c]
  have cls: "state_ok s" if "s \<in> set cls" for s
    using that p(5) agg_invD(1) [OF assms(1)] by (auto simp: state_ok_def)
  obtain a2 ss where i: "ingest_tick t n a1 = (a2, Inr ss)" "agg_inv a2" "ag_timeframe a2 = ag_timeframe a1" "length ss \<le> 1"
    "\<And>s. s \<in> set ss \<Longrightarrow> state_ok s \<and> \<not> gs_closed s \<and> key_of s = bucket_of (ag_timeframe a1) t \<and>
       (gs_trades s = 1 \<longleftrightarrow> dget (ag_open a1) (bucket_of (ag_timeframe a1) t) = None)"
    "\<And>k s. dget (ag_open a2) k = Some s \<Longrightarrow> s \<in> set ss \<or> dget (ag_open a1) k = Some s"
    "\<And>k. dget (ag_open a1) k \<noteq> None \<Longrightarrow> dget (ag_open a2) k \<noteq> None"
    "\<And>s. s \<in> set ss \<Longrightarrow> dget (ag_open a2) (key_of s) = Some s"
    by (rule ingest_inv [OF p(1) p(4) assms(2,3), where n = n]) (rule that)
  note i' = i [unfolded p(2)]
  have ok: "state_ok s" if "s \<in> set (cls @ ss)" for s using that cls i(5) by auto
  have "publish_states cls (g\<lparr>ae_aggregator := a1\<rparr>) = (g\<lparr>ae_aggregator := a1, ae_events := ae_events g @
      map (\<lambda>s. event_for s (candle_of s)) cls\<rparr>, Inr ())"
    using publish_states_ok [of cls "g\<lparr>ae_aggregator := a1\<rparr>"] ok by simp
  moreover have "publish_states ss h = (h\<lparr>ae_events := ae_events h @ map (\<lambda>s. event_for s (candle_of s)) ss\<rparr>, Inr ())" for h
    using publish_states_ok [of ss h] ok by simp
  ultimately have proc: "agg_process_tick g (t, n) = (\<lparr>ae_aggregator = a2, ae_events = ae_events g @
       map (\<lambda>s. event_for s (candle_of s)) (cls @ ss)\<rparr>, Inr ())"
    using assms(3) c i(1) by (simp add: agg_process_tick_def)
  show thesis
    by (rule that [OF c p(1) i'(1,2,3,4)], rule i'(5), assumption, rule i'(6), assumption, rule i'(7), assumption,
        rule i'(8), assumption, rule proc, rule ok, assumption)
qed

definition sound_events :: "candle_event list \<Rightarrow> bool" where
  "sound_events evs \<longleftrightarrow> (\<forall>ev\<in>set evs. validate_ohlc (event_candle ev) = Inr (event_candle ev))"

lemma tick_before_end:
  assumes "agg_inv a" "dget (ag_open a) (key_of s) = Some s" "key_of s = bucket_of (ag_timeframe a) t"
  shows "ti_time t < gs_end s"
  using agg_invD(5) [OF assms(1,2)] assms(3) align_bounds [of "ag_timeframe a" "ti_time t"]
  by (simp add: key_of_def bucket_of_def)

lemma process_tick_ok:
  assumes "agg_inv (ae_aggregator g)" "sound_events (ae_events g)" "valid_tick t" "\<not> ti_aware t"
  shows "\<exists>g'. agg_process_tick g (t, n) = (g', Inr ()) \<and> agg_inv (ae_aggregator g') \<and>
    ag_timeframe (ae_aggregator g') = ag_timeframe (ae_aggregator g) \<and> sound_events (ae_events g') \<and>
    (\<forall>k s. dget (ag_open (ae_aggregator g')) k = Some s \<longrightarrow> ti_time t < gs_end s)"
proof (rule process_tick_shape [OF assms(1,3,4), where n = n])
  fix a1 cls a2 ss
  assume c: "close_pending (ti_time t) (ae_aggregator g) = (a1, cls)" and a2: "agg_inv a2"
    and tf: "ag_timeframe a2 = ag_timeframe (ae_aggregator g)"
    and ss: "\<And>s. s \<in> set ss \<Longrightarrow> state_ok s \<and> \<not> gs_closed s \<and> key_of s = bucket_of (ag_timeframe (ae_aggregator g)) t \<and>
       (gs_trades s = 1 \<longleftrightarrow> dget (ag_open a1) (bucket_of (ag_timeframe (ae_aggregator g)) t) = None)"
    and old: "\<And>k s. dget (ag_open a2) k = Some s \<Longrightarrow> s \<in> set ss \<or> dget (ag_open a1) k = Some s"
    and new: "\<And>s. s \<in> set ss \<Longrightarrow> dget (ag_open a2) (key_of s) = Some s"
    and p: "agg_process_tick g (t, n) = (\<lparr>ae_aggregator = a2, ae_events = ae_events g @
       map (\<lambda>s. event_for s (candle_of s)) (cls @ ss)\<rparr>, Inr ())"
    and ok: "\<And>s. s \<in> set (cls @ ss) \<Longrightarrow> state_ok s"
  have "ti_time t < gs_end s" if "dget (ag_open a2) k = Some s" for k s
  proof (cases "s \<in> set ss")
    case True
    from tick_before_end [OF a2 new [OF True]] ss [OF True] tf show ?thesis by simp
  next
    case False
    with old [OF that] close_pending_inv(3) [OF assms(1) c] show ?thesis by blast
  qed
  moreover have "sound_events (ae_events g @ map (\<lambda>s. event_for s (candle_of s)) (cls @ ss))"
    using assms(2) validate_candle_of ok by (auto simp: sound_events_def)
  ultimately show ?thesis using p a2 tf by simp
qed

text \<open>C21: However the ticks arrive, valid ticks with plain timestamps never make the engine raise, every candle
  it publishes is a valid one, and after a tick no open bucket has ended.\<close>

theorem aggregation_publishes_valid_candles:
  assumes "\<And>x. x \<in> set xs \<Longrightarrow> valid_tick (fst x) \<and> \<not> ti_aware (fst x)" "valid_tick t" "\<not> ti_aware t"
  shows "\<exists>g. agg_process_tick (feed agg_process_tick (new_agg_engine tf) xs) (t, n) = (g, Inr ()) \<and> sound_events (ae_events g) \<and>
    (\<forall>k s. dget (ag_open (ae_aggregator g)) k = Some s \<longrightarrow> ti_time t < gs_end s)"
proof -
  have "agg_inv (ae_aggregator (feed agg_process_tick (new_agg_engine tf) xs)) \<and>
      sound_events (ae_events (feed agg_process_tick (new_agg_engine tf) xs))"
  proof (rule feed_invariant [where P = "\<lambda>g. agg_inv (ae_aggregator g) \<and> sound_events (ae_events g)"])
    show "agg_inv (ae_aggregator (new_agg_engine tf)) \<and> sound_events (ae_events (new_agg_engine tf))"
      by (simp add: new_agg_engine_def agg_inv_new sound_events_def)
  next
    fix g :: agg_engine and x assume "x \<in> set xs" "agg_inv (ae_aggregator g) \<and> sound_events (ae_events g)"
    with assms(1) process_tick_ok [of g "fst x" "snd x"]
    show "agg_inv (ae_aggregator (fst (agg_process_tick g x))) \<and> sound_events (ae_events (fst (agg_process_tick g x)))"
      by fastforce
  qed
  with process_tick_ok [OF _ _ assms(2,3)] show ?thesis by blast
qed

definition key_end :: "bucket_key \<Rightarrow> time" where
  "key_end k = (case k of Bucket name exch tf start \<Rightarrow> bucket_end tf start)"

text \<open>
  Up to time \<open>T\<close>: a closed bucket has ended and is not open, a bucket that was opened is open or closed,
  and neither happened twice.
\<close>

definition once_inv :: "time \<Rightarrow> agg_engine \<Rightarrow> bool" where
  "once_inv T g \<longleftrightarrow> agg_inv (ae_aggregator g) \<and> sound_events (ae_events g) \<and>
     distinct (closed_keys (ae_events g)) \<and> distinct (opened_keys (ae_events g)) \<and>
     (\<forall>k\<in>set (closed_keys (ae_events g)). key_end k \<le> T) \<and>
     (\<forall>k s. dget (ag_open (ae_aggregator g)) k = Some s \<longrightarrow> T < gs_end s) \<and>
     set (opened_keys (ae_events g)) = set (closed_keys (ae_events g)) \<union> {k. dget (ag_open (ae_aggregator g)) k \<noteq> None}"

lemma key_of_closed: "key_of (s\<lparr>gs_closed := b\<rparr>) = key_of s"
  by (simp add: key_of_def)

lemma stored_key_end: "agg_inv a \<Longrightarrow> dget (ag_open a) k = Some s \<Longrightarrow> key_end k = gs_end s"
  using agg_invD [of a k s] by (simp add: key_end_def key_of_def)

lemma closing_keys_distinct:
  assumes "agg_inv a" "close_pending t a = (a', cls)"
  shows "distinct (map key_of cls)"
proof -
  define es where "es = filter (\<lambda>e. gs_end (snd e) \<le> t) (ag_open a)"
  have w: "distinct (dkeys (ag_open a))" using assms(1) by (simp add: agg_inv_def wf_dict_def)
  have cls: "cls = map (\<lambda>e. (snd e)\<lparr>gs_closed := True\<rparr>) es"
    using assms(2) by (auto simp: close_pending_def close_where_def es_def)
  have "key_of (snd e) = fst e" if "e \<in> set es" for e
  proof -
    have "dget (ag_open a) (fst e) = Some (snd e)" using that w by (simp add: es_def)
    from agg_invD(4) [OF assms(1) this] show ?thesis by simp
  qed
  then have "map key_of cls = map fst es" by (simp add: cls key_of_closed)
  then show ?thesis using w by (simp add: es_def distinct_map_filter)
qed

lemma once_inv_step:
  assumes inv: "once_inv T g" and "T \<le> ti_time t" "valid_tick t" "\<not> ti_aware t"
  shows "once_inv (ti_time t) (fst (agg_process_tick g (t, n)))"
proof -
  have ai: "agg_inv (ae_aggregator g)" using inv by (simp add: once_inv_def)
  show ?thesis
  proof (rule process_tick_shape [OF ai assms(3,4), where n = n])
    fix a1 cls a2 ss
    let ?a = "ae_aggregator g" and ?b = "bucket_of (ag_timeframe (ae_aggregator g)) t"
    assume c: "close_pending (ti_time t) ?a = (a1, cls)" and a2: "agg_inv a2" and one: "length ss \<le> 1"
      and ss: "\<And>s. s \<in> set ss \<Longrightarrow> state_ok s \<and> \<not> gs_closed s \<and> key_of s = ?b \<and> (gs_trades s = 1 \<longleftrightarrow> dget (ag_open a1) ?b = None)"
      and old: "\<And>k s. dget (ag_open a2) k = Some s \<Longrightarrow> s \<in> set ss \<or> dget (ag_open a1) k = Some s"
      and keep: "\<And>k. dget (ag_open a1) k \<noteq> None \<Longrightarrow> dget (ag_open a2) k \<noteq> None"
      and new: "\<And>s. s \<in> set ss \<Longrightarrow> dget (ag_open a2) (key_of s) = Some s"
      and p: "agg_process_tick g (t, n) = (\<lparr>ae_aggregator = a2, ae_events = ae_events g @
         map (\<lambda>s. event_for s (candle_of s)) (cls @ ss)\<rparr>, Inr ())"
    note cp = close_pending_inv [OF ai c]
    define g' where "g' = fst (agg_process_tick g (t, n))"
    have g': "ae_aggregator g' = a2" "ae_events g' = ae_events g @ map (\<lambda>s. event_for s (candle_of s)) cls @
        map (\<lambda>s. event_for s (candle_of s)) ss" by (simp_all add: g'_def p)
    have open_end: "ti_time t < key_end k" if "dget (ag_open a1) k \<noteq> None" for k
      using that cp(1,3) stored_key_end by fastforce
    have due: "key_of s \<in> {k. dget (ag_open ?a) k \<noteq> None} - {k. dget (ag_open a1) k \<noteq> None} \<and> key_end (key_of s) \<le> ti_time t \<and> gs_closed s"
      if m: "s \<in> set cls" for s
    proof -
      obtain k s0 where s0: "dget (ag_open ?a) k = Some s0" "gs_end s0 \<le> ti_time t" "s = s0\<lparr>gs_closed := True\<rparr>"
        using m [unfolded cp(5)] by blast
      have "key_of s = k" unfolding s0(3) key_of_closed by (rule agg_invD(4) [OF ai s0(1), symmetric])
      moreover have "dget (ag_open a1) k = None"
        using cp(3) [of k] s0(1,2) by (cases "dget (ag_open a1) k") force+
      moreover have "key_end k \<le> ti_time t" "gs_closed s" using stored_key_end [OF ai s0(1)] s0(2,3) by simp_all
      ultimately show ?thesis using s0(1) by simp
    qed
    have gone: "\<exists>s\<in>set cls. key_of s = k" if k: "dget (ag_open ?a) k \<noteq> None" "dget (ag_open a1) k = None" for k
    proof -
      obtain s0 where s0: "dget (ag_open ?a) k = Some s0" using k(1) by blast
      then have "gs_end s0 \<le> ti_time t" using cp(3) [of k s0] k(2) by force
      with s0 have "s0\<lparr>gs_closed := True\<rparr> \<in> set cls" unfolding cp(5) by (intro exI conjI) (assumption, assumption, rule refl)
      moreover have "key_of (s0\<lparr>gs_closed := True\<rparr>) = k" unfolding key_of_closed by (rule agg_invD(4) [OF ai s0, symmetric])
      ultimately show ?thesis by blast
    qed
    have closed: "gs_closed s" if "s \<in> set cls" for s using due [OF that] by blast
    have touched: "\<not> gs_closed s" if "s \<in> set ss" for s using ss [OF that] by blast
    have ck: "closed_keys (ae_events g') = closed_keys (ae_events g) @ map key_of cls"
      by (simp add: g'(2) closing_keys(1) [OF closed] touching_keys(1) [OF touched])
    have ok: "opened_keys (ae_events g') = opened_keys (ae_events g) @ map key_of (filter (\<lambda>s. gs_trades s = 1) ss)"
      by (simp add: g'(2) closing_keys(2) [OF closed] touching_keys(2) [OF touched])
    define fresh where "fresh = map key_of (filter (\<lambda>s. gs_trades s = 1) ss)"
    have fresh: "distinct fresh" "k \<in> set fresh \<Longrightarrow> k = ?b \<and> dget (ag_open a1) k = None \<and> dget (ag_open a2) k \<noteq> None" for k
    proof -
      show "distinct fresh" using one by (cases ss) (auto simp: fresh_def)
      show "k = ?b \<and> dget (ag_open a1) k = None \<and> dget (ag_open a2) k \<noteq> None" if m: "k \<in> set fresh"
      proof -
        obtain s where "s \<in> set ss" "gs_trades s = 1" "k = key_of s" using m by (auto simp: fresh_def)
        with ss [of s] new [of s] show ?thesis by simp
      qed
    qed
    have kb: "ti_time t < key_end ?b"
      using align_bounds [of "ag_timeframe ?a" "ti_time t"] by (simp add: key_end_def bucket_of_def)
    have opened2: "dget (ag_open a2) k \<noteq> None \<longleftrightarrow> dget (ag_open a1) k \<noteq> None \<or> k \<in> set fresh" for k
    proof
      assume "dget (ag_open a2) k \<noteq> None"
      then obtain s where s: "dget (ag_open a2) k = Some s" by blast
      show "dget (ag_open a1) k \<noteq> None \<or> k \<in> set fresh"
      proof (cases "s \<in> set ss")
        case True
        have "k = ?b" using agg_invD(4) [OF a2 s] ss [OF True] by simp
        have "gs_trades s = 1 \<Longrightarrow> key_of s \<in> set fresh" using True by (simp add: fresh_def)
        with ss [OF True] \<open>k = ?b\<close> show ?thesis by metis
      next
        case False
        with old [OF s] show ?thesis by simp
      qed
    next
      assume "dget (ag_open a1) k \<noteq> None \<or> k \<in> set fresh"
      then show "dget (ag_open a2) k \<noteq> None" using keep fresh(2) by blast
    qed
    have once: "distinct (closed_keys (ae_events g))" "distinct (opened_keys (ae_events g))"
      "\<And>k. k \<in> set (closed_keys (ae_events g)) \<Longrightarrow> key_end k \<le> T"
      "\<And>k s. dget (ag_open ?a) k = Some s \<Longrightarrow> T < gs_end s"
      "set (opened_keys (ae_events g)) = set (closed_keys (ae_events g)) \<union> {k. dget (ag_open ?a) k \<noteq> None}"
      "sound_events (ae_events g)"
      using inv by (simp_all add: once_inv_def)
    have apart: "dget (ag_open ?a) k = None" if "k \<in> set (closed_keys (ae_events g))" for k
      using once(3) [OF that] once(4) [of k] stored_key_end [OF ai, of k] by (cases "dget (ag_open ?a) k") force+
    have cls_keys: "set (map key_of cls) = {k. dget (ag_open ?a) k \<noteq> None} - {k. dget (ag_open a1) k \<noteq> None}" (is "?L = ?R")
    proof
      show "?L \<subseteq> ?R" using due by auto
      show "?R \<subseteq> ?L" using gone by force
    qed
    have dc: "distinct (closed_keys (ae_events g) @ map key_of cls)"
      using once(1) closing_keys_distinct [OF ai c] apart cls_keys by auto
    have not_before: "k \<notin> set (opened_keys (ae_events g))" if k: "k \<in> set fresh" for k
    proof
      assume "k \<in> set (opened_keys (ae_events g))"
      moreover have "k = ?b" "dget (ag_open a1) k = None" using fresh(2) [OF k] by blast+
      moreover have "key_end j \<le> ti_time t" if "j \<in> set (closed_keys (ae_events g))" for j
        using once(3) [OF that] assms(2) by linarith
      moreover have "key_end j \<le> ti_time t" if "dget (ag_open ?a) j \<noteq> None" "dget (ag_open a1) j = None" for j
        using gone [OF that] due by blast
      ultimately show False using kb once(5) by fastforce
    qed
    have dop: "distinct (opened_keys (ae_events g) @ fresh)"
      using once(2) fresh(1) not_before by auto
    have late: "key_end k \<le> ti_time t" if "k \<in> set (closed_keys (ae_events g) @ map key_of cls)" for k
      using that once(3) [of k] assms(2) due by auto
    have opn: "ti_time t < gs_end s" if "dget (ag_open a2) k = Some s" for k s
      using stored_key_end [OF a2 that] opened2 [of k] that open_end [of k] fresh(2) [of k] kb by auto
    have a1a: "dget (ag_open a1) k \<noteq> None \<Longrightarrow> dget (ag_open ?a) k \<noteq> None" for k
      using cp(3) [of k] by (cases "dget (ag_open a1) k") force+
    have sets: "set (opened_keys (ae_events g) @ fresh) =
        set (closed_keys (ae_events g) @ map key_of cls) \<union> {k. dget (ag_open a2) k \<noteq> None}"
      unfolding set_append once(5) cls_keys opened2 using a1a by blast
    obtain g'' where "agg_process_tick g (t, n) = (g'', Inr ())" "sound_events (ae_events g'')"
      using process_tick_ok [OF ai once(6) assms(3,4)] by blast
    then have "sound_events (ae_events g')" by (simp add: g'_def)
    then show ?thesis
      unfolding once_inv_def g'_def [symmetric] g'(1) ck ok fresh_def [symmetric]
      using a2 dc dop late opn sets by blast
  qed
qed

text \<open>When ticks arrive in the order of their times, every bucket is opened once and closed at most once,
  and closed only after it was opened.\<close>

theorem buckets_close_once:
  assumes "sorted (map (\<lambda>x. ti_time (fst x)) xs)" "\<And>x. x \<in> set xs \<Longrightarrow> valid_tick (fst x) \<and> \<not> ti_aware (fst x)"
    and "evs = ae_events (feed agg_process_tick (new_agg_engine tf) xs)"
  shows "distinct (opened_keys evs) \<and> distinct (closed_keys evs) \<and> set (closed_keys evs) \<subseteq> set (opened_keys evs)"
proof -
  have "once_inv (if xs = [] then 0 else ti_time (fst (last xs))) (feed agg_process_tick (new_agg_engine tf) xs)"
    using assms(1,2)
  proof (induction xs rule: rev_induct)
    case Nil
    then show ?case by (simp add: once_inv_def new_agg_engine_def agg_inv_new sound_events_def) (simp add: new_aggregator_def)
  next
    case (snoc x xs)
    have "valid_tick (fst x)" "\<not> ti_aware (fst x)" using snoc.prems(2) by simp_all
    moreover have "once_inv (if xs = [] then 0 else ti_time (fst (last xs))) (feed agg_process_tick (new_agg_engine tf) xs)"
      using snoc by (auto simp: sorted_append)
    moreover have "ti_time (fst (last xs)) \<le> ti_time (fst x)" if "xs \<noteq> []"
      using snoc.prems(1) that by (auto simp: sorted_append)
    moreover have "once_inv (ti_time (fst x)) (feed agg_process_tick (new_agg_engine tf) xs)" if "xs = []"
      using that by (simp add: once_inv_def new_agg_engine_def agg_inv_new sound_events_def) (simp add: new_aggregator_def)
    ultimately show ?case
      using once_inv_step [of "ti_time (fst (last xs))" _ "fst x" "snd x"] once_inv_step [of "ti_time (fst x)" _ "fst x" "snd x"]
      by (cases "xs = []") simp_all
  qed
  then show ?thesis by (auto simp: once_inv_def assms(3))
qed

definition demo_market_tick :: "time \<Rightarrow> rat \<Rightarrow> tick" where
  "demo_market_tick t p = \<lparr>ti_symbol = ''BTC'', ti_exchange = ''X'', ti_time = t, ti_aware = False, ti_price = p,
     ti_size = Some 1, ti_bid = None, ti_ask = None\<rparr>"

lemma demo_market_tick_simps [simp]:
  "valid_tick (demo_market_tick t p) \<longleftrightarrow> 0 < p" "ti_aware (demo_market_tick t p) = False"
  "ti_time (demo_market_tick t p) = t" "ti_price (demo_market_tick t p) = p" "size_of_tick (demo_market_tick t p) = 1"
  by (simp_all add: demo_market_tick_def valid_tick_def size_of_tick_def)

theorem candle_matches_ticks_witness:
  "\<exists>s. create_state (demo_market_tick 10 7) ONE_MINUTE 0 60000000 = Inr s \<and>
     (let c = candle_of (foldl update_state s [demo_market_tick 30 8, demo_market_tick 20 9, demo_market_tick 30 8]) in
     oc_open c = 7 \<and> oc_high c = 9 \<and> oc_low c = 7 \<and> oc_close c = 8 \<and> oc_volume c = 3 \<and> oc_trades c = 3)"
proof -
  let ?ts = "[demo_market_tick 30 8, demo_market_tick 20 9, demo_market_tick 30 8]"
  obtain s where s: "create_state (demo_market_tick 10 7) ONE_MINUTE 0 60000000 = Inr s" by (simp add: create_state_def)
  have f: "first_arrivals (demo_market_tick 10 7 # ?ts) = [demo_market_tick 10 7, demo_market_tick 30 8, demo_market_tick 20 9]"
    by (simp add: first_arrivals_def arrive_def signature_for_def demo_market_tick_def)
  have "latest_tick [demo_market_tick 10 7, demo_market_tick 30 8, demo_market_tick 20 9] = demo_market_tick 30 8"
    by (simp add: latest_tick_def)
  then show ?thesis using s candle_matches_ticks [OF s, of ?ts] by (simp add: f fadd_def)
qed

theorem aggregation_publishes_valid_candles_witness:
  "\<exists>g. agg_process_tick (feed agg_process_tick (new_agg_engine ONE_MINUTE) [(demo_market_tick 10 7, None)]) (demo_market_tick 5 3, None) =
     (g, Inr ()) \<and> sound_events (ae_events g)"
  using aggregation_publishes_valid_candles [of "[(demo_market_tick 10 7, None)]" "demo_market_tick 5 3" ONE_MINUTE None]
  by auto

theorem buckets_close_once_witness:
  "distinct (closed_keys (ae_events (feed agg_process_tick (new_agg_engine ONE_MINUTE)
     [(demo_market_tick 10 7, None), (demo_market_tick 70000000 8, None)])))"
proof -
  let ?xs = "[(demo_market_tick 10 7, None), (demo_market_tick 70000000 8, None)]"
  have "sorted (map (\<lambda>x. ti_time (fst x)) ?xs)" "\<And>x. x \<in> set ?xs \<Longrightarrow> valid_tick (fst x) \<and> \<not> ti_aware (fst x)"
    by auto
  from buckets_close_once [OF this refl, of ONE_MINUTE] show ?thesis by blast
qed

text \<open>
  A tick that arrives late for a bucket already closed opens it again, so its candle is published twice.
\<close>

lemma late_tick_reopens:
  "closed_keys (ae_events (fst (close_pending_candles 200000000 (feed agg_process_tick (new_agg_engine ONE_MINUTE)
     [(demo_market_tick 10 7, None), (demo_market_tick 70000000 8, None), (demo_market_tick 20 9, None)])))) =
   [Bucket ''BTC'' ''X'' ONE_MINUTE 0, Bucket ''BTC'' ''X'' ONE_MINUTE 60000000, Bucket ''BTC'' ''X'' ONE_MINUTE 0]"
  by (simp add: close_pending_candles_def agg_process_tick_def new_agg_engine_def new_aggregator_def close_pending_def close_where_def
      ingest_tick_def create_state_def record_tick_def update_state_def has_seen_def signature_for_def publish_state_def
      finalize_candle_def validate_ohlc_def event_for_def closed_keys_def List.map_filter_def candle_key_def usec_minute_def
      demo_market_tick_def size_of_tick_def Let_def)

text \<open>Of two ticks with the same time the candle closes at the first.\<close>

lemma equal_times_keep_close:
  assumes "gs_last s = ti_time t"
  shows "gs_close (update_state s t) = gs_close s"
  using assms by (simp add: update_state_def record_tick_def Let_def)

end
