(* ===== verification/Replay.thy ===== *)
theory Replay imports Aggregation Paper begin

text \<open>
  The replay of recorded market data (\<open>engines/replay\<close>): session, clock, controller and scheduler, and the
  feed of a paper session from replayed data (\<open>trading/paper/replay_feed.py\<close>). The source of the data is
  a protocol: a parameter that opens an iterator for a session and answers each request for the next
  record, reading the session as an asynchronous generator does, with the record or with the end. All
  timestamps of a replay are of one kind, with or without a zone. Published events are a log.
\<close>

section \<open>Sessions\<close>

datatype replay_state = RpStopped | RpRunning | RpPaused | RpCompleted
datatype replay_speed = ONE_X | TWO_X | FIVE_X | TEN_X | FIFTY_X | ONE_HUNDRED_X

fun multiplier :: "replay_speed \<Rightarrow> rat" where
  "multiplier ONE_X = 1"
| "multiplier TWO_X = 2"
| "multiplier FIVE_X = 5"
| "multiplier TEN_X = 10"
| "multiplier FIFTY_X = 50"
| "multiplier ONE_HUNDRED_X = 100"

record replay_session =
  rs_id :: pystr
  rs_start :: time
  rs_end :: time
  rs_current :: time
  rs_speed :: replay_speed
  rs_state :: replay_state
  rs_seek :: "time option"

definition session_advance :: "int \<Rightarrow> replay_session \<Rightarrow> replay_session" where
  "session_advance d s = s\<lparr>rs_current := rs_current s + d\<rparr>"

definition session_reset :: "replay_session \<Rightarrow> replay_session" where
  "session_reset s = s\<lparr>rs_current := rs_start s, rs_state := RpStopped, rs_seek := None\<rparr>"

definition is_completed :: "replay_session \<Rightarrow> bool" where
  "is_completed s \<longleftrightarrow> rs_end s \<le> rs_current s"

definition session_clamp :: "replay_session \<Rightarrow> time \<Rightarrow> time" where
  "session_clamp s t = (if t < rs_start s then rs_start s else if rs_end s < t then rs_end s else t)"

section \<open>The clock\<close>

text \<open>A duration times a float is rounded to the nearest microsecond, ties to even.\<close>

record replay_clock =
  ck_speed :: replay_speed
  ck_start :: "time option"
  ck_elapsed :: int

definition new_clock :: "replay_speed \<Rightarrow> replay_clock" where
  "new_clock v = \<lparr>ck_speed = v, ck_start = None, ck_elapsed = 0\<rparr>"

definition update_elapsed :: "time \<Rightarrow> replay_clock \<Rightarrow> replay_clock" where
  "update_elapsed now c = (case ck_start c of None \<Rightarrow> c
     | Some t \<Rightarrow> c\<lparr>ck_elapsed := ck_elapsed c + rne (of_int (now - t) * multiplier (ck_speed c)), ck_start := Some now\<rparr>)"

definition clock_start :: "time \<Rightarrow> replay_clock \<Rightarrow> replay_clock" where
  "clock_start now c = c\<lparr>ck_start := Some now, ck_elapsed := 0\<rparr>"

definition clock_pause :: "time \<Rightarrow> replay_clock \<Rightarrow> replay_clock" where
  "clock_pause now c = update_elapsed now c"

definition clock_resume :: "time \<Rightarrow> replay_clock \<Rightarrow> replay_clock" where
  "clock_resume now c = c\<lparr>ck_start := Some now\<rparr>"

definition clock_change_speed :: "replay_speed \<Rightarrow> time \<Rightarrow> replay_clock \<Rightarrow> replay_clock" where
  "clock_change_speed v now c = (update_elapsed now c)\<lparr>ck_speed := v, ck_start := Some now\<rparr>"

definition clock_elapsed :: "time \<Rightarrow> replay_clock \<Rightarrow> replay_clock \<times> int" where
  "clock_elapsed now c = (let c' = update_elapsed now c in (c', ck_elapsed c'))"

definition clock_current_time :: "time \<Rightarrow> time \<Rightarrow> replay_clock \<Rightarrow> replay_clock \<times> time" where
  "clock_current_time begin_time now c = (let (c', d) = clock_elapsed now c in (c', begin_time + d))"

section \<open>The source and the events\<close>

datatype replay_event = ReplayStarted | ReplayPaused | ReplayResumed | ReplayStopped | ReplayCompleted
  | TickReplayed tick | CandleReplayed domain_candle | ReplaySpeedChanged replay_speed | ReplaySeeked time

record ('i, 'j) replay_source =
  src_ticks :: "replay_session \<Rightarrow> 'i"
  src_next_tick :: "replay_session \<Rightarrow> 'i \<Rightarrow> tick option \<times> 'i"
  src_candles :: "replay_session \<Rightarrow> 'j"
  src_next_candle :: "replay_session \<Rightarrow> 'j \<Rightarrow> domain_candle option \<times> 'j"

section \<open>The controller\<close>

text \<open>Ticks and candles have an iterator, a record read ahead and the last one replayed each.\<close>

record ('x, 'i) feed_pos =
  fp_iter :: "'i option"
  fp_next :: "'x option"
  fp_current :: "'x option"

record ('i, 'j) replay_controller =
  rc_session :: replay_session
  rc_ticks :: "(tick, 'i) feed_pos"
  rc_candles :: "(domain_candle, 'j) feed_pos"
  rc_log :: "replay_event list"

definition no_feed :: "('x, 'i) feed_pos" where
  "no_feed = \<lparr>fp_iter = None, fp_next = None, fp_current = None\<rparr>"

definition new_controller :: "replay_session \<Rightarrow> ('i, 'j) replay_controller" where
  "new_controller s = \<lparr>rc_session = s, rc_ticks = no_feed, rc_candles = no_feed, rc_log = []\<rparr>"

definition take_next :: "(replay_session \<Rightarrow> 'i \<Rightarrow> 'x option \<times> 'i) \<Rightarrow> replay_session \<Rightarrow> ('x, 'i) feed_pos \<Rightarrow> 'x option \<times> ('x, 'i) feed_pos" where
  "take_next nxt s p = (case fp_next p of
       Some x \<Rightarrow> (Some x, p\<lparr>fp_next := None\<rparr>)
     | None \<Rightarrow> (case fp_iter p of None \<Rightarrow> (None, p)
         | Some i \<Rightarrow> let (x, i') = nxt s i in (x, p\<lparr>fp_iter := Some i'\<rparr>)))"

definition peek_exhausted :: "(replay_session \<Rightarrow> 'i \<Rightarrow> 'x option \<times> 'i) \<Rightarrow> replay_session \<Rightarrow> ('x, 'i) feed_pos \<Rightarrow> bool \<times> ('x, 'i) feed_pos" where
  "peek_exhausted nxt s p = (case fp_next p of
       Some x \<Rightarrow> (False, p)
     | None \<Rightarrow> (case fp_iter p of None \<Rightarrow> (True, p)
         | Some i \<Rightarrow> let (x, i') = nxt s i in (x = None, p\<lparr>fp_iter := Some i', fp_next := x\<rparr>)))"

definition complete_if_finished :: "bool \<Rightarrow> replay_session \<Rightarrow> replay_session \<times> replay_event list" where
  "complete_if_finished exhausted s =
     (if exhausted \<or> is_completed s then (s\<lparr>rs_state := RpCompleted\<rparr>, [ReplayCompleted]) else (s, []))"

definition feed_step :: "(replay_session \<Rightarrow> 'i) \<Rightarrow> (replay_session \<Rightarrow> 'i \<Rightarrow> 'x option \<times> 'i) \<Rightarrow> ('x \<Rightarrow> time) \<Rightarrow> ('x \<Rightarrow> replay_event)
    \<Rightarrow> replay_session \<Rightarrow> ('x, 'i) feed_pos \<Rightarrow> replay_session \<times> ('x, 'i) feed_pos \<times> replay_event list" where
  "feed_step op nxt tm ev s p =
     (let p1 = (if fp_iter p = None then p\<lparr>fp_iter := Some (op s)\<rparr> else p); (x, p2) = take_next nxt s p1
      in case x of
           None \<Rightarrow> (let (s1, es) = complete_if_finished True s in (s1, p2, es))
         | Some x \<Rightarrow>
             (let s1 = s\<lparr>rs_current := tm x\<rparr>; (done, p3) = peek_exhausted nxt s1 (p2\<lparr>fp_current := Some x\<rparr>);
                  (s2, es) = complete_if_finished done s1
              in (s2, p3, ev x # es)))"

definition rc_publish :: "replay_event list \<Rightarrow> ('i, 'j) replay_controller \<Rightarrow> ('i, 'j) replay_controller" where
  "rc_publish es c = c\<lparr>rc_log := rc_log c @ es\<rparr>"

definition set_state :: "replay_state \<Rightarrow> ('i, 'j) replay_controller \<Rightarrow> ('i, 'j) replay_controller" where
  "set_state x c = c\<lparr>rc_session := (rc_session c)\<lparr>rs_state := x\<rparr>\<rparr>"

definition open_feeds :: "('i, 'j) replay_source \<Rightarrow> ('i, 'j) replay_controller \<Rightarrow> ('i, 'j) replay_controller" where
  "open_feeds src c = c\<lparr>rc_ticks := (rc_ticks c)\<lparr>fp_iter := Some (src_ticks src (rc_session c))\<rparr>,
     rc_candles := (rc_candles c)\<lparr>fp_iter := Some (src_candles src (rc_session c))\<rparr>\<rparr>"

definition rc_start :: "('i, 'j) replay_source \<Rightarrow> ('i, 'j) replay_controller \<Rightarrow> ('i, 'j) replay_controller" where
  "rc_start src c =
     (if rs_state (rc_session c) = RpRunning then c
      else rc_publish [ReplayStarted] (open_feeds src
        (c\<lparr>rc_session := (rc_session c)\<lparr>rs_state := RpRunning, rs_current := rs_start (rc_session c)\<rparr>\<rparr>)))"

definition rc_pause :: "('i, 'j) replay_controller \<Rightarrow> ('i, 'j) replay_controller" where
  "rc_pause c = (if rs_state (rc_session c) \<noteq> RpRunning then c else rc_publish [ReplayPaused] (set_state RpPaused c))"

definition rc_resume :: "('i, 'j) replay_controller \<Rightarrow> ('i, 'j) replay_controller" where
  "rc_resume c = (if rs_state (rc_session c) \<noteq> RpPaused then c else rc_publish [ReplayResumed] (set_state RpRunning c))"

definition rc_stop :: "('i, 'j) replay_controller \<Rightarrow> ('i, 'j) replay_controller" where
  "rc_stop c = (if rs_state (rc_session c) = RpStopped then c else rc_publish [ReplayStopped] (set_state RpStopped c))"

definition rc_restart :: "('i, 'j) replay_source \<Rightarrow> ('i, 'j) replay_controller \<Rightarrow> ('i, 'j) replay_controller" where
  "rc_restart src c = (let c1 = rc_stop c in rc_start src (c1\<lparr>rc_session := session_reset (rc_session c1)\<rparr>))"

definition rc_seek :: "('i, 'j) replay_source \<Rightarrow> time \<Rightarrow> ('i, 'j) replay_controller \<Rightarrow> ('i, 'j) replay_controller" where
  "rc_seek src t c =
     (let t' = session_clamp (rc_session c) t;
          c1 = open_feeds src (c\<lparr>rc_session := (rc_session c)\<lparr>rs_current := t'\<rparr>\<rparr>);
          c2 = c1\<lparr>rc_ticks := (rc_ticks c1)\<lparr>fp_next := None\<rparr>, rc_candles := (rc_candles c1)\<lparr>fp_next := None\<rparr>\<rparr>
      in rc_publish [ReplaySeeked t'] c2)"

definition step_tick :: "('i, 'j) replay_source \<Rightarrow> ('i, 'j) replay_controller \<Rightarrow> ('i, 'j) replay_controller \<times> unit result" where
  "step_tick src c =
     (if rs_state (rc_session c) \<noteq> RpRunning then (c, Inl RuntimeError)
      else let (s, p, es) = feed_step (src_ticks src) (src_next_tick src) ti_time TickReplayed (rc_session c) (rc_ticks c)
        in (rc_publish es (c\<lparr>rc_session := s, rc_ticks := p\<rparr>), Inr ()))"

definition step_candle :: "('i, 'j) replay_source \<Rightarrow> ('i, 'j) replay_controller \<Rightarrow> ('i, 'j) replay_controller \<times> unit result" where
  "step_candle src c =
     (if rs_state (rc_session c) \<noteq> RpRunning then (c, Inl RuntimeError)
      else let (s, p, es) = feed_step (src_candles src) (src_next_candle src) oc_start CandleReplayed (rc_session c) (rc_candles c)
        in (rc_publish es (c\<lparr>rc_session := s, rc_candles := p\<rparr>), Inr ()))"

definition rc_change_speed :: "replay_speed \<Rightarrow> ('i, 'j) replay_controller \<Rightarrow> ('i, 'j) replay_controller" where
  "rc_change_speed v c = (if rs_speed (rc_session c) = v then c
     else rc_publish [ReplaySpeedChanged v] (c\<lparr>rc_session := (rc_session c)\<lparr>rs_speed := v\<rparr>\<rparr>))"

datatype rc_call = RcStart | RcPause | RcResume | RcStop | RcRestart | RcSeek time | RcTick | RcCandle | RcSpeed replay_speed

fun rc_step :: "('i, 'j) replay_source \<Rightarrow> ('i, 'j) replay_controller \<Rightarrow> rc_call \<Rightarrow> ('i, 'j) replay_controller \<times> unit result" where
  "rc_step src c RcStart = (rc_start src c, Inr ())"
| "rc_step src c RcPause = (rc_pause c, Inr ())"
| "rc_step src c RcResume = (rc_resume c, Inr ())"
| "rc_step src c RcStop = (rc_stop c, Inr ())"
| "rc_step src c RcRestart = (rc_restart src c, Inr ())"
| "rc_step src c (RcSeek t) = (rc_seek src t c, Inr ())"
| "rc_step src c RcTick = step_tick src c"
| "rc_step src c RcCandle = step_candle src c"
| "rc_step src c (RcSpeed v) = (rc_change_speed v c, Inr ())"

section \<open>The scheduler\<close>

text \<open>
  Every start creates a task; a task opens its iterator when it first runs, and one step takes it from
  one wait to the next: it replays a tick and sleeps, or leaves its loop and ends. \<open>sd_sleeps\<close> lists the
  seconds slept. \<open>stop\<close> waits for the last task created.
\<close>

datatype 'i sched_task = FreshTask | RunningTask 'i | EndedTask

record 'i scheduler =
  sd_session :: replay_session
  sd_stop :: bool
  sd_tasks :: "'i sched_task list"
  sd_sleeps :: "rat list"
  sd_log :: "replay_event list"

definition new_scheduler :: "replay_session \<Rightarrow> 'i scheduler" where
  "new_scheduler s = \<lparr>sd_session = s, sd_stop = False, sd_tasks = [], sd_sleeps = [], sd_log = []\<rparr>"

definition sched_state :: "replay_state \<Rightarrow> 'i scheduler \<Rightarrow> 'i scheduler" where
  "sched_state x d = d\<lparr>sd_session := (sd_session d)\<lparr>rs_state := x\<rparr>\<rparr>"

definition sched_start :: "'i scheduler \<Rightarrow> 'i scheduler" where
  "sched_start d = (if rs_state (sd_session d) = RpRunning then d
     else (sched_state RpRunning d)\<lparr>sd_stop := False, sd_tasks := sd_tasks d @ [FreshTask]\<rparr>)"

definition sched_pause :: "'i scheduler \<Rightarrow> 'i scheduler" where
  "sched_pause d = (if rs_state (sd_session d) \<noteq> RpRunning then d else sched_state RpPaused d)"

definition sched_resume :: "'i scheduler \<Rightarrow> 'i scheduler" where
  "sched_resume d = (if rs_state (sd_session d) \<noteq> RpPaused then d else sched_state RpRunning d)"

text \<open>\<open>_sleep_until_next_tick\<close>.\<close>

definition sleep_for :: "tick \<Rightarrow> replay_session \<Rightarrow> rat list" where
  "sleep_for t s = (let d = ti_time t - rs_current s; secs = b64 (of_int d / 1000000) in
     if 0 < d then [fdiv secs (multiplier (rs_speed s))] else [])"

definition sched_finish :: "'i scheduler \<Rightarrow> 'i scheduler" where
  "sched_finish d = (if rs_state (sd_session d) = RpRunning \<and> is_completed (sd_session d)
     then (sched_state RpCompleted d)\<lparr>sd_log := sd_log d @ [ReplayCompleted]\<rparr> else d)"

definition task_step :: "('i, 'j) replay_source \<Rightarrow> nat \<Rightarrow> 'i scheduler \<Rightarrow> 'i scheduler" where
  "task_step src k d =
     (if length (sd_tasks d) \<le> k \<or> sd_tasks d ! k = EndedTask then d
      else
        let i = (case sd_tasks d ! k of RunningTask i \<Rightarrow> i | _ \<Rightarrow> src_ticks src (sd_session d));
            (x, i') = src_next_tick src (sd_session d) i
        in case x of
             None \<Rightarrow> sched_finish (d\<lparr>sd_tasks := (sd_tasks d)[k := EndedTask]\<rparr>)
           | Some t \<Rightarrow>
               if sd_stop d \<or> rs_state (sd_session d) \<noteq> RpRunning
               then sched_finish (d\<lparr>sd_tasks := (sd_tasks d)[k := EndedTask]\<rparr>)
               else (let s = (sd_session d)\<lparr>rs_current := ti_time t\<rparr> in
                 d\<lparr>sd_session := s, sd_tasks := (sd_tasks d)[k := RunningTask i'], sd_log := sd_log d @ [TickReplayed t],
                   sd_sleeps := sd_sleeps d @ sleep_for t s\<rparr>))"

definition sched_stop :: "('i, 'j) replay_source \<Rightarrow> 'i scheduler \<Rightarrow> 'i scheduler" where
  "sched_stop src d = sched_state RpStopped (task_step src (length (sd_tasks d) - 1) (d\<lparr>sd_stop := True\<rparr>))"

datatype sched_call = SdStart | SdPause | SdResume | SdStop | SdRun nat

fun sched_step :: "('i, 'j) replay_source \<Rightarrow> 'i scheduler \<Rightarrow> sched_call \<Rightarrow> 'i scheduler \<times> unit" where
  "sched_step src d SdStart = (sched_start d, ())"
| "sched_step src d SdPause = (sched_pause d, ())"
| "sched_step src d SdResume = (sched_resume d, ())"
| "sched_step src d SdStop = (sched_stop src d, ())"
| "sched_step src d (SdRun k) = (task_step src k d, ())"

section \<open>Feeding a paper session\<close>

text \<open>\<open>mf_subs\<close> counts the subscriptions of the two handlers. A handler validates the record again.\<close>

record market_feed =
  mf_session :: session
  mf_subs :: nat

definition feed_attach :: "market_feed \<Rightarrow> market_feed" where
  "feed_attach m = m\<lparr>mf_subs := mf_subs m + 1\<rparr>"

definition feed_detach :: "market_feed \<Rightarrow> market_feed" where
  "feed_detach m = m\<lparr>mf_subs := mf_subs m - 1\<rparr>"

definition session_on_tick :: "tick \<Rightarrow> session \<Rightarrow> session \<times> order_event list result" where
  "session_on_tick t z = feed_quote (quote_from_tick (ti_symbol t) (ti_time t) (ti_price t)) z"

definition session_on_candle :: "domain_candle \<Rightarrow> session \<Rightarrow> session \<times> order_event list result" where
  "session_on_candle c z = feed_quote (quote_from_candle (oc_symbol c) (oc_start c) (oc_close c) (oc_high c) (oc_low c)) z"

definition handle_tick :: "tick \<Rightarrow> session \<Rightarrow> session \<times> unit result" where
  "handle_tick d z = (case new_tick (ti_symbol d) (ti_exchange d) (ti_time d) (ti_aware d) (ti_price d) (ti_size d) (ti_bid d) (ti_ask d) of
       Inl e \<Rightarrow> (z, Inl e)
     | Inr t \<Rightarrow> if ti_symbol t \<noteq> ss_symbol z then (z, Inr ())
         else (case session_on_tick t z of (z', Inl e) \<Rightarrow> (z', Inl e) | (z', Inr _) \<Rightarrow> (z', Inr ())))"

definition handle_candle :: "domain_candle \<Rightarrow> session \<Rightarrow> session \<times> unit result" where
  "handle_candle d z = (case validate_ohlc d of
       Inl e \<Rightarrow> (z, Inl e)
     | Inr c \<Rightarrow> if oc_symbol c \<noteq> ss_symbol z then (z, Inr ())
         else (case session_on_candle c z of (z', Inl e) \<Rightarrow> (z', Inl e) | (z', Inr _) \<Rightarrow> (z', Inr ())))"

definition handle_event :: "replay_event \<Rightarrow> session \<Rightarrow> session \<times> unit result" where
  "handle_event ev z = (case ev of TickReplayed t \<Rightarrow> handle_tick t z | CandleReplayed c \<Rightarrow> handle_candle c z | _ \<Rightarrow> (z, Inr ()))"

text \<open>What publishing an event does: every subscription is served, and the first failure is raised.\<close>

fun serve :: "nat \<Rightarrow> replay_event \<Rightarrow> session \<Rightarrow> session \<times> unit result" where
  "serve 0 ev z = (z, Inr ())"
| "serve (Suc n) ev z = (case handle_event ev z of
     (z1, r) \<Rightarrow> (case serve n ev z1 of (z2, r') \<Rightarrow> (z2, case r of Inl e \<Rightarrow> Inl e | Inr _ \<Rightarrow> r')))"

definition feed_event :: "market_feed \<Rightarrow> replay_event \<Rightarrow> market_feed \<times> unit result" where
  "feed_event m ev = (case serve (mf_subs m) ev (mf_session m) of (z, r) \<Rightarrow> (m\<lparr>mf_session := z\<rparr>, r))"

section \<open>A replay is a tape\<close>

text \<open>The source of the tests: recorded ticks and candles, from the session's current time on.\<close>

definition from_current :: "('x \<Rightarrow> time) \<Rightarrow> replay_session \<Rightarrow> 'x list \<Rightarrow> 'x list" where
  "from_current tm s xs = dropWhile (\<lambda>x. tm x < rs_current s) xs"

definition memory_next :: "('x \<Rightarrow> time) \<Rightarrow> replay_session \<Rightarrow> 'x list \<Rightarrow> 'x option \<times> 'x list" where
  "memory_next tm s xs = (case from_current tm s xs of [] \<Rightarrow> (None, []) | y # ys \<Rightarrow> (Some y, ys))"

definition memory_source :: "tick list \<Rightarrow> domain_candle list \<Rightarrow> (tick list, domain_candle list) replay_source" where
  "memory_source ts cs = \<lparr>src_ticks = \<lambda>s. ts, src_next_tick = memory_next ti_time,
     src_candles = \<lambda>s. cs, src_next_candle = memory_next oc_start\<rparr>"

text \<open>
  What a source promises for one kind of record: its iterator goes through recorded data and answers
  with the next record that is not before the session's current time.
\<close>

locale recorded_feed =
  fixes op :: "replay_session \<Rightarrow> 'i"
    and nxt :: "replay_session \<Rightarrow> 'i \<Rightarrow> 'x option \<times> 'i"
    and tm :: "'x \<Rightarrow> time"
    and ev :: "'x \<Rightarrow> replay_event"
    and todo :: "'i \<Rightarrow> 'x list"
    and recorded :: "'x list"
  assumes op: "todo (op s) = recorded"
    and nxt_none: "from_current tm s (todo i) = [] \<Longrightarrow> fst (nxt s i) = None \<and> todo (snd (nxt s i)) = []"
    and nxt_some: "from_current tm s (todo i) = x # xs \<Longrightarrow> fst (nxt s i) = Some x \<and> todo (snd (nxt s i)) = xs"
begin

text \<open>What is left to replay, and when the records come in order.\<close>

definition left :: "replay_session \<Rightarrow> ('x, 'i) feed_pos \<Rightarrow> 'x list" where
  "left s p = (case fp_iter p of None \<Rightarrow> [] | Some i \<Rightarrow>
     (case fp_next p of Some x \<Rightarrow> x # todo i | None \<Rightarrow> from_current tm s (todo i)))"

definition ordered :: "replay_session \<Rightarrow> ('x, 'i) feed_pos \<Rightarrow> bool" where
  "ordered s p \<longleftrightarrow> fp_iter p \<noteq> None \<and>
     (case fp_iter p of None \<Rightarrow> True | Some i \<Rightarrow> sorted (map tm (todo i)) \<and>
       (case fp_next p of None \<Rightarrow> True | Some x \<Rightarrow> rs_current s \<le> tm x \<and> (\<forall>y \<in> set (todo i). tm x \<le> tm y)))"

lemma from_current_id: "(\<And>y. y \<in> set xs \<Longrightarrow> rs_current s \<le> tm y) \<Longrightarrow> from_current tm s xs = xs"
  by (simp add: from_current_def dropWhile_eq_self_iff not_less disj_imp)

lemma from_current_sorted:
  assumes "sorted (map tm xs)" "from_current tm s xs = y # ys"
  shows "sorted (map tm ys)" "\<forall>z \<in> set ys. tm y \<le> tm z" "rs_current s \<le> tm y"
proof -
  have "xs = takeWhile (\<lambda>x. tm x < rs_current s) xs @ y # ys"
    using assms(2) takeWhile_dropWhile_id unfolding from_current_def by metis
  then have "sorted (map tm (takeWhile (\<lambda>x. tm x < rs_current s) xs @ y # ys))" using assms(1) by metis
  then show "sorted (map tm ys)" "\<forall>z \<in> set ys. tm y \<le> tm z" by (auto simp: sorted_append)
  show "rs_current s \<le> tm y" using hd_dropWhile [of "\<lambda>x. tm x < rs_current s" xs] assms(2) unfolding from_current_def by auto
qed

lemma peek:
  assumes "fp_iter p = Some i" "fp_next p = None" "sorted (map tm (todo i))"
    and "\<And>y. y \<in> set (todo i) \<Longrightarrow> rs_current s \<le> tm y"
  obtains p' where "peek_exhausted nxt s p = (todo i = [], p')" "left s p' = todo i" "ordered s p'"
proof -
  obtain x i' where n: "nxt s i = (x, i')" by (cases "nxt s i")
  have fc: "from_current tm s (todo i) = todo i" by (rule from_current_id) (rule assms(4))
  show thesis
  proof (cases "todo i")
    case Nil
    then have "x = None" "todo i' = []" using nxt_none [of s i] fc n by simp_all
    then show thesis using Nil assms n
      by (intro that [of "p\<lparr>fp_iter := Some i', fp_next := x\<rparr>"])
        (auto simp: peek_exhausted_def left_def ordered_def from_current_def)
  next
    case (Cons y ys)
    then have "x = Some y" "todo i' = ys" using nxt_some [of s i y ys] fc n by simp_all
    then show thesis using Cons assms n
      by (intro that [of "p\<lparr>fp_iter := Some i', fp_next := x\<rparr>"])
        (auto simp: peek_exhausted_def left_def ordered_def)
  qed
qed

lemma take:
  assumes "ordered s p"
  obtains i where "fp_iter p = Some i"
    and "left s p = [] \<Longrightarrow> \<exists>p'. take_next nxt s p = (None, p') \<and> ordered s p' \<and> left s p' = []"
    and "\<And>x xs. left s p = x # xs \<Longrightarrow> \<exists>p' i'. take_next nxt s p = (Some x, p') \<and> fp_iter p' = Some i' \<and> fp_next p' = None \<and>
      todo i' = xs \<and> sorted (map tm xs) \<and> rs_current s \<le> tm x \<and> (\<forall>y \<in> set xs. tm x \<le> tm y)"
proof -
  obtain i where i: "fp_iter p = Some i" using assms by (auto simp: ordered_def)
  obtain x i' where n: "nxt s i = (x, i')" by (cases "nxt s i")
  show thesis
  proof (rule that [OF i])
    assume l: "left s p = []"
    then have "fp_next p = None" "from_current tm s (todo i) = []" using i by (auto simp: left_def split: option.splits)
    then show "\<exists>p'. take_next nxt s p = (None, p') \<and> ordered s p' \<and> left s p' = []"
      using nxt_none [of s i] n i by (auto simp: take_next_def ordered_def left_def from_current_def)
  next
    fix y ys assume l: "left s p = y # ys"
    show "\<exists>p' i'. take_next nxt s p = (Some y, p') \<and> fp_iter p' = Some i' \<and> fp_next p' = None \<and>
      todo i' = ys \<and> sorted (map tm ys) \<and> rs_current s \<le> tm y \<and> (\<forall>z \<in> set ys. tm y \<le> tm z)"
    proof (cases "fp_next p")
      case None
      then have fc: "from_current tm s (todo i) = y # ys" using i l by (simp add: left_def)
      have "sorted (map tm (todo i))" using assms i by (simp add: ordered_def)
      then show ?thesis using None i n nxt_some [OF fc] from_current_sorted [OF _ fc] by (simp add: take_next_def)
    next
      case (Some z)
      then show ?thesis using assms i l by (auto simp: take_next_def ordered_def left_def)
    qed
  qed
qed

text \<open>One step replays the first record that is left and completes the session with the last one.\<close>

lemma feed_step_cases:
  assumes "ordered s p"
  shows "case feed_step op nxt tm ev s p of (s', p', es) \<Rightarrow>
    (case left s p of
       [] \<Rightarrow> s' = s\<lparr>rs_state := RpCompleted\<rparr> \<and> es = [ReplayCompleted] \<and> left s' p' = [] \<and> ordered s' p'
     | x # xs \<Rightarrow> s' = s\<lparr>rs_current := tm x, rs_state := if xs = [] \<or> rs_end s \<le> tm x then RpCompleted else rs_state s\<rparr> \<and>
         es = ev x # (if xs = [] \<or> rs_end s \<le> tm x then [ReplayCompleted] else []) \<and>
         left s' p' = xs \<and> ordered s' p')"
proof (rule take [OF assms])
  fix i
  assume i: "fp_iter p = Some i"
    and none: "left s p = [] \<Longrightarrow> \<exists>p'. take_next nxt s p = (None, p') \<and> ordered s p' \<and> left s p' = []"
    and some: "\<And>x xs. left s p = x # xs \<Longrightarrow> \<exists>p' i'. take_next nxt s p = (Some x, p') \<and> fp_iter p' = Some i' \<and> fp_next p' = None \<and>
      todo i' = xs \<and> sorted (map tm xs) \<and> rs_current s \<le> tm x \<and> (\<forall>y \<in> set xs. tm x \<le> tm y)"
  have frame: "left (s\<lparr>rs_state := v\<rparr>) q = left s q" "ordered (s\<lparr>rs_state := v\<rparr>) q = ordered s q" for v q s
    by (simp_all add: left_def ordered_def from_current_def cong: option.case_cong)
  show ?thesis
  proof (cases "left s p")
    case Nil
    then show ?thesis using none i
      by (auto simp: feed_step_def complete_if_finished_def Let_def frame split_def)
  next
    case (Cons x xs)
    then obtain p' i' where t: "take_next nxt s p = (Some x, p')" and p': "fp_iter p' = Some i'" "fp_next p' = None" "todo i' = xs"
      and o: "sorted (map tm xs)" "\<forall>y \<in> set xs. tm x \<le> tm y"
      using some by blast
    define s1 where "s1 = s\<lparr>rs_current := tm x\<rparr>"
    define p2 where "p2 = p'\<lparr>fp_current := Some x\<rparr>"
    obtain p3 where pk: "peek_exhausted nxt s1 p2 = (xs = [], p3)" and l: "left s1 p3 = xs" "ordered s1 p3"
      by (rule peek [of p2 i' s1]) (use p' o in \<open>auto simp: p2_def s1_def\<close>)
    have "feed_step op nxt tm ev s p = (let (s2, es) = complete_if_finished (xs = []) s1 in (s2, p3, ev x # es))"
      using t i pk by (simp add: feed_step_def s1_def p2_def)
    then show ?thesis using l Cons
      by (auto simp: complete_if_finished_def is_completed_def s1_def frame split_def Let_def)
  qed
qed

end

lemma memory_next_cases:
  "from_current tm s xs = [] \<Longrightarrow> memory_next tm s xs = (None, [])"
  "from_current tm s xs = y # ys \<Longrightarrow> memory_next tm s xs = (Some y, ys)"
  by (simp_all add: memory_next_def)

interpretation mem_ticks: recorded_feed "src_ticks (memory_source ts cs)" "src_next_tick (memory_source ts cs)" ti_time
  TickReplayed "\<lambda>xs. xs" ts for ts cs
  by unfold_locales (simp_all add: memory_source_def memory_next_cases)

interpretation mem_candles: recorded_feed "src_candles (memory_source ts cs)" "src_next_candle (memory_source ts cs)" oc_start
  CandleReplayed "\<lambda>xs. xs" cs for ts cs
  by unfold_locales (simp_all add: memory_source_def memory_next_cases)

text \<open>
  The abstract player: the state, what is left of the tape and what was played. It knows neither
  iterators nor records read ahead.
\<close>

record tape =
  tp_state :: replay_state
  tp_left :: "tick list"
  tp_done :: "tick list"

fun tape_step :: "tick list \<Rightarrow> replay_session \<Rightarrow> tape \<Rightarrow> rc_call \<Rightarrow> tape" where
  "tape_step all s k RcPause = (if tp_state k = RpRunning then k\<lparr>tp_state := RpPaused\<rparr> else k)"
| "tape_step all s k RcResume = (if tp_state k = RpPaused then k\<lparr>tp_state := RpRunning\<rparr> else k)"
| "tape_step all s k RcStop = k\<lparr>tp_state := RpStopped\<rparr>"
| "tape_step all s k (RcSpeed v) = k"
| "tape_step all s k (RcSeek t) = k\<lparr>tp_left := dropWhile (\<lambda>x. ti_time x < session_clamp s t) all\<rparr>"
| "tape_step all s k RcTick =
     (if tp_state k \<noteq> RpRunning then k
      else (case tp_left k of
          [] \<Rightarrow> k\<lparr>tp_state := RpCompleted\<rparr>
        | x # xs \<Rightarrow> \<lparr>tp_state = (if xs = [] \<or> rs_end s \<le> ti_time x then RpCompleted else RpRunning),
            tp_left = xs, tp_done = tp_done k @ [x]\<rparr>))"
| "tape_step all s k _ = k"

fun tape_call :: "rc_call \<Rightarrow> bool" where
  "tape_call RcStart = False" | "tape_call RcRestart = False" | "tape_call RcCandle = False" | "tape_call _ = True"

definition replayed :: "replay_event list \<Rightarrow> tick list" where
  "replayed es = concat (map (\<lambda>e. case e of TickReplayed t \<Rightarrow> [t] | _ \<Rightarrow> []) es)"

definition tape_of :: "(tick list, domain_candle list) replay_controller \<Rightarrow> tape" where
  "tape_of c = \<lparr>tp_state = rs_state (rc_session c), tp_left = mem_ticks.left (rc_session c) (rc_ticks c), tp_done = replayed (rc_log c)\<rparr>"

lemma replayed_simps [simp]:
  "replayed [] = []" "replayed (es @ fs) = replayed es @ replayed fs"
  "replayed (e # es) = (case e of TickReplayed t \<Rightarrow> [t] | _ \<Rightarrow> []) @ replayed es"
  by (simp_all add: replayed_def)

text \<open>The bounds of a session never change, and the records stay ordered.\<close>

definition tape_inv :: "replay_session \<Rightarrow> (tick list, domain_candle list) replay_controller \<Rightarrow> bool" where
  "tape_inv s c \<longleftrightarrow> rs_start (rc_session c) = rs_start s \<and> rs_end (rc_session c) = rs_end s \<and>
     mem_ticks.ordered (rc_session c) (rc_ticks c)"

lemma mem_frame [simp]:
  "mem_ticks.left (s\<lparr>rs_state := v\<rparr>) p = mem_ticks.left s p" "mem_ticks.ordered (s\<lparr>rs_state := v\<rparr>) p = mem_ticks.ordered s p"
  "mem_ticks.left (s\<lparr>rs_speed := w\<rparr>) p = mem_ticks.left s p" "mem_ticks.ordered (s\<lparr>rs_speed := w\<rparr>) p = mem_ticks.ordered s p"
  by (simp_all add: mem_ticks.left_def mem_ticks.ordered_def from_current_def cong: option.case_cong)

lemma seek_tape:
  assumes "sorted (map ti_time ts)" "tape_inv s c"
  shows "tape_inv s (rc_seek (memory_source ts cs) t c) \<and> tape_of (rc_seek (memory_source ts cs) t c) = tape_step ts s (tape_of c) (RcSeek t)"
  using assms
  by (simp add: tape_inv_def tape_of_def rc_seek_def open_feeds_def rc_publish_def memory_source_def mem_ticks.left_def
      mem_ticks.ordered_def from_current_def session_clamp_def Let_def)

lemma tick_tape:
  assumes "tape_inv s c"
  shows "tape_inv s (fst (step_tick (memory_source ts cs) c)) \<and> tape_of (fst (step_tick (memory_source ts cs) c)) = tape_step ts s (tape_of c) RcTick"
proof (cases "rs_state (rc_session c) = RpRunning")
  case True
  obtain s' p' es where f: "feed_step (src_ticks (memory_source ts cs)) (src_next_tick (memory_source ts cs)) ti_time TickReplayed
      (rc_session c) (rc_ticks c) = (s', p', es)" by (metis prod_cases3)
  have o: "mem_ticks.ordered (rc_session c) (rc_ticks c)" using assms by (simp add: tape_inv_def)
  from mem_ticks.feed_step_cases [OF o, of ts cs] True f assms show ?thesis
    by (auto simp: step_tick_def rc_publish_def tape_of_def tape_inv_def Let_def split: list.splits)
next
  case False
  with assms show ?thesis by (simp add: step_tick_def tape_of_def)
qed

lemma tape_step_refines:
  assumes "sorted (map ti_time ts)" "tape_call call" "tape_inv s c"
  shows "tape_inv s (fst (rc_step (memory_source ts cs) c call)) \<and>
    tape_of (fst (rc_step (memory_source ts cs) c call)) = tape_step ts s (tape_of c) call"
  using assms(2,3) seek_tape [OF assms(1,3)] tick_tape [OF assms(3)]
  by (cases call)
    (simp_all add: tape_inv_def tape_of_def rc_pause_def rc_resume_def rc_stop_def rc_change_speed_def rc_publish_def set_state_def)

lemma start_tape:
  assumes "sorted (map ti_time ts)" "rs_state s \<noteq> RpRunning"
  shows "tape_inv s (rc_start (memory_source ts cs) (new_controller s))"
    "tape_of (rc_start (memory_source ts cs) (new_controller s)) =
      \<lparr>tp_state = RpRunning, tp_left = dropWhile (\<lambda>x. ti_time x < rs_start s) ts, tp_done = []\<rparr>"
  using assms
  by (simp_all add: tape_inv_def tape_of_def rc_start_def new_controller_def no_feed_def open_feeds_def rc_publish_def memory_source_def
      mem_ticks.left_def mem_ticks.ordered_def from_current_def)

lemma calls_tape:
  assumes "sorted (map ti_time ts)" "list_all tape_call calls" "tape_inv s c"
  shows "tape_inv s (feed (rc_step (memory_source ts cs)) c calls) \<and>
    tape_of (feed (rc_step (memory_source ts cs)) c calls) = foldl (tape_step ts s) (tape_of c) calls"
  using assms(2,3)
proof (induction calls arbitrary: c)
  case Nil
  then show ?case by simp
next
  case (Cons call calls)
  then show ?case using tape_step_refines [OF assms(1), of call s c cs] by simp
qed

text \<open>C22: On recorded ticks in time order, however a started replay is paused, resumed, stopped, slowed down,
  stepped and moved, the controller with its iterators and its tick read ahead behaves as a tape: each
  step while running plays the next tick, moving it rewinds to the first tick at or after the place
  (clamped to the session), and it completes with the last tick or at the end of the session.\<close>

theorem controller_refines_tape:
  assumes "sorted (map ti_time ts)" "rs_state s \<noteq> RpRunning" "list_all tape_call calls"
  shows "tape_of (feed (rc_step (memory_source ts cs)) (rc_start (memory_source ts cs) (new_controller s)) calls) =
    foldl (tape_step ts s) \<lparr>tp_state = RpRunning, tp_left = dropWhile (\<lambda>x. ti_time x < rs_start s) ts, tp_done = []\<rparr> calls"
  using calls_tape [OF assms(1,3) start_tape(1) [OF assms(1,2)], of cs cs] start_tape(2) [OF assms(1,2), of cs] by simp

definition demo_tick :: "time \<Rightarrow> rat \<Rightarrow> tick" where
  "demo_tick t price = \<lparr>ti_symbol = ''BTC'', ti_exchange = ''X'', ti_time = t, ti_aware = False, ti_price = price, ti_size = None,
     ti_bid = None, ti_ask = None\<rparr>"

definition demo_replay :: replay_session where
  "demo_replay = \<lparr>rs_id = ''r'', rs_start = 10, rs_end = 60, rs_current = 10, rs_speed = ONE_X, rs_state = RpStopped, rs_seek = None\<rparr>"

lemma controller_refines_tape_witness:
  "replayed (rc_log (feed (rc_step (memory_source [demo_tick 10 5, demo_tick 20 6, demo_tick 30 7] []))
     (rc_start (memory_source [demo_tick 10 5, demo_tick 20 6, demo_tick 30 7] []) (new_controller demo_replay))
     [RcTick, RcPause, RcTick, RcResume, RcTick, RcSeek 15, RcTick])) = [demo_tick 10 5, demo_tick 20 6, demo_tick 20 6]"
  using arg_cong [where f = tp_done, OF controller_refines_tape [of "[demo_tick 10 5, demo_tick 20 6, demo_tick 30 7]" demo_replay
    "[RcTick, RcPause, RcTick, RcResume, RcTick, RcSeek 15, RcTick]" "[]"]]
  by (simp add: tape_of_def demo_replay_def demo_tick_def session_clamp_def)

lemma tape_left_bounded:
  assumes "list_all tape_call calls" "length (tp_left k) \<le> length ts"
  shows "length (tp_left (foldl (tape_step ts s) k calls)) \<le> length ts"
  using assms
proof (induction calls arbitrary: k)
  case (Cons call calls)
  have "length (tp_left (tape_step ts s k call)) \<le> length ts"
    using Cons.prems by (cases call) (auto simp: length_dropWhile_le split: list.split)
  then show ?case using Cons by simp
qed simp

lemma tape_plays_out:
  assumes "tp_state k = RpCompleted \<or> (tp_state k = RpRunning \<and> length (tp_left k) \<le> n \<and> 0 < n)"
  shows "tp_state (foldl (tape_step ts s) k (replicate n RcTick)) = RpCompleted"
  using assms
proof (induction n arbitrary: k)
  case (Suc n)
  let ?k = "tape_step ts s k RcTick"
  have "tp_state ?k = RpCompleted \<or> (tp_state ?k = RpRunning \<and> length (tp_left ?k) \<le> n \<and> 0 < n)"
    using Suc.prems by (cases n; cases "tp_left k") auto
  then show ?case using Suc.IH [of ?k] by simp
qed simp

lemma tape_idle: "tp_state k \<noteq> RpRunning \<Longrightarrow> foldl (tape_step ts s) k (replicate n RcTick) = k"
  by (induction n) simp_all

text \<open>C23: A started replay that has been paused, resumed, slowed down, stepped and moved can always be brought to its
  end: resuming it and stepping once for every recorded tick (once if there is none) completes it. Only stopping it
  prevents that: a replay that was stopped stays stopped, whatever else was done.\<close>

theorem replay_can_finish:
  assumes "sorted (map ti_time ts)" "rs_state s \<noteq> RpRunning" "list_all tape_call calls"
    and "c = feed (rc_step (memory_source ts cs)) (rc_start (memory_source ts cs) (new_controller s)) calls"
  shows "rs_state (rc_session (feed (rc_step (memory_source ts cs)) c (RcResume # replicate (max 1 (length ts)) RcTick))) =
    (if rs_state (rc_session c) = RpStopped then RpStopped else RpCompleted)"
proof -
  let ?k = "tape_of c"
  define k where "k = tape_step ts s ?k RcResume"
  have inv: "tape_inv s c" and kc: "length (tp_left ?k) \<le> length ts"
    using calls_tape [OF assms(1,3) start_tape(1) [OF assms(1,2)], of cs cs] tape_left_bounded [OF assms(3), of _ ts s]
    by (simp_all add: assms(4) start_tape(2) [OF assms(1,2)] length_dropWhile_le)
  have st: "rs_state (rc_session d) = tp_state (tape_of d)" for d by (simp add: tape_of_def)
  have "tp_state (foldl (tape_step ts s) k (replicate (max 1 (length ts)) RcTick)) = (if tp_state ?k = RpStopped then RpStopped else RpCompleted)"
  proof (cases "tp_state ?k = RpRunning \<or> tp_state ?k = RpPaused")
    case True
    then have "tp_state k = RpRunning" "length (tp_left k) \<le> length ts" using kc by (auto simp: k_def)
    then have "tp_state (foldl (tape_step ts s) k (replicate (max 1 (length ts)) RcTick)) = RpCompleted"
      by (intro tape_plays_out disjI2) auto
    with True show ?thesis by auto
  next
    case False
    then have "k = ?k" "tp_state ?k = RpStopped \<or> tp_state ?k = RpCompleted" by (cases "tp_state ?k"; simp add: k_def)+
    then show ?thesis using False by (auto simp: tape_idle)
  qed
  moreover have "list_all tape_call (RcResume # replicate (max 1 (length ts)) RcTick)" by (simp add: list_all_iff)
  then have "tape_of (feed (rc_step (memory_source ts cs)) c (RcResume # replicate (max 1 (length ts)) RcTick)) =
      foldl (tape_step ts s) k (replicate (max 1 (length ts)) RcTick)"
    unfolding k_def using calls_tape [OF assms(1) _ inv] by (metis foldl_Cons)
  ultimately show ?thesis unfolding st by simp
qed

lemma replay_can_finish_witness:
  "rs_state (rc_session (feed (rc_step (memory_source [demo_tick 10 5, demo_tick 20 6] []))
     (feed (rc_step (memory_source [demo_tick 10 5, demo_tick 20 6] []))
       (rc_start (memory_source [demo_tick 10 5, demo_tick 20 6] []) (new_controller demo_replay)) [RcTick, RcPause])
     (RcResume # replicate (max 1 (length [demo_tick 10 5, demo_tick 20 6])) RcTick))) = RpCompleted"
proof -
  let ?m = "memory_source [demo_tick 10 5, demo_tick 20 6] []"
  let ?c = "feed (rc_step ?m) (rc_start ?m (new_controller demo_replay)) [RcTick, RcPause]"
  have s: "sorted (map ti_time [demo_tick 10 5, demo_tick 20 6])" "rs_state demo_replay \<noteq> RpRunning" "list_all tape_call [RcTick, RcPause]"
    "rs_state (rc_session ?c) \<noteq> RpStopped" by code_simp+
  show ?thesis using replay_can_finish [OF s(1-3) refl, of "[]"] s(4) by simp
qed

text \<open>A restart keeps the tick read ahead, so it is replayed before the first one.\<close>

lemma restart_replays_read_ahead:
  assumes "fp_next (rc_ticks c) = Some x"
  shows "\<exists>es. rc_log (fst (step_tick src (rc_restart src c))) = rc_log (rc_restart src c) @ TickReplayed x # es"
  using assms
  by (simp add: rc_restart_def rc_stop_def rc_start_def rc_publish_def set_state_def session_reset_def open_feeds_def step_tick_def
      feed_step_def take_next_def Let_def split_def)

text \<open>The recorded ticks of the test source after a restart: the second, then nothing before it.\<close>

lemma restart_loses_start:
  "replayed (rc_log (feed (rc_step (memory_source [demo_tick 10 5, demo_tick 20 6, demo_tick 30 7] []))
     (new_controller demo_replay) [RcStart, RcTick, RcRestart, RcTick, RcTick])) = [demo_tick 10 5, demo_tick 20 6, demo_tick 20 6]"
  by code_simp

section \<open>The clock\<close>

text \<open>The time replayed is the sum of the stretches, each times its speed.\<close>

fun stretches :: "(replay_speed \<times> time) list \<Rightarrow> replay_speed \<Rightarrow> time \<Rightarrow> time \<Rightarrow> rat" where
  "stretches [] v t now = of_int (now - t) * multiplier v"
| "stretches ((v', t') # xs) v t now = of_int (t' - t) * multiplier v + stretches xs v' t' now"

lemma rne_multiple: "(of_int (rne (of_int d * multiplier v)) :: rat) = of_int d * multiplier v"
proof -
  have "\<exists>m. multiplier v = of_int m"
    by (cases v) (auto intro: exI [of _ 1] exI [of _ 2] exI [of _ 5] exI [of _ 10] exI [of _ 50] exI [of _ 100])
  then obtain m where "multiplier v = of_int m" ..
  then have "of_int d * multiplier v = of_int (d * m)" by simp
  then show ?thesis by (simp only: rne_of_int)
qed

lemma clock_sums_stretches:
  assumes "ck_start c = Some t"
  shows "of_int (snd (clock_elapsed now (foldl (\<lambda>c x. clock_change_speed (fst x) (snd x) c) c xs))) =
    of_int (ck_elapsed c) + stretches xs (ck_speed c) t now"
  using assms
proof (induction xs arbitrary: c t)
  case Nil
  then show ?case by (simp add: clock_elapsed_def update_elapsed_def rne_multiple del: of_int_diff)
next
  case (Cons x xs)
  define c' where "c' = clock_change_speed (fst x) (snd x) c"
  have "ck_start c' = Some (snd x)" "ck_speed c' = fst x"
    "(of_int (ck_elapsed c') :: rat) = of_int (ck_elapsed c) + of_int (snd x - t) * multiplier (ck_speed c)"
    using Cons.prems by (simp_all add: c'_def clock_change_speed_def update_elapsed_def rne_multiple del: of_int_diff)
  then show ?case using Cons.IH [of c' "snd x"] by (cases x) (simp add: c'_def del: of_int_diff)
qed

text \<open>A pause does not stop the clock: a reading while paused counts the time since the pause.\<close>

lemma paused_clock_runs:
  "snd (clock_elapsed 30 (clock_pause 10 (clock_start 0 (new_clock ONE_X)))) = 30"
  "snd (clock_elapsed 30 (clock_resume 30 (clock_pause 10 (clock_start 0 (new_clock ONE_X))))) = 10"
  by code_simp+

section \<open>The scheduler\<close>

lemma task_step_cases:
  "task_step src k d = d \<or>
   (\<exists>l. task_step src k d = sched_finish (d\<lparr>sd_tasks := (sd_tasks d)[k := EndedTask]\<rparr>)) \<or>
   (\<exists>t i'. rs_state (sd_session d) = RpRunning \<and> \<not> sd_stop d \<and> k < length (sd_tasks d) \<and> sd_tasks d ! k \<noteq> EndedTask \<and>
      src_next_tick src (sd_session d) (case sd_tasks d ! k of RunningTask i \<Rightarrow> i | _ \<Rightarrow> src_ticks src (sd_session d)) = (Some t, i') \<and>
      task_step src k d = d\<lparr>sd_session := (sd_session d)\<lparr>rs_current := ti_time t\<rparr>, sd_tasks := (sd_tasks d)[k := RunningTask i'],
        sd_log := sd_log d @ [TickReplayed t]\<rparr>)"
  by (auto simp: task_step_def sleep_for_def Let_def not_le split: prod.splits option.splits)

lemma sched_finish_frame [simp]:
  "sd_tasks (sched_finish d) = sd_tasks d" "sd_sleeps (sched_finish d) = sd_sleeps d" "replayed (sd_log (sched_finish d)) = replayed (sd_log d)"
  "rs_current (sd_session (sched_finish d)) = rs_current (sd_session d)"
  by (simp_all add: sched_finish_def sched_state_def)

lemma task_step_no_sleep [simp]: "sd_sleeps (task_step src k d) = sd_sleeps d"
  using task_step_cases [of src k d] by auto

lemma scheduler_never_sleeps: "sd_sleeps (feed (sched_step src) d calls) = sd_sleeps d"
proof (rule feed_frame)
  show "sd_sleeps (fst (sched_step src d x)) = sd_sleeps d" for d x
    by (cases x) (simp_all add: sched_start_def sched_pause_def sched_resume_def sched_stop_def sched_state_def)
qed

text \<open>What one task has replayed and what it has left are the recorded ticks.\<close>

definition sched_inv :: "tick list \<Rightarrow> replay_session \<Rightarrow> tick list scheduler \<Rightarrow> bool" where
  "sched_inv ts s d \<longleftrightarrow> sd_tasks d \<noteq> [] \<and> (case sd_tasks d of [] \<Rightarrow> True | t # us \<Rightarrow> us = [] \<and> (case t of
       FreshTask \<Rightarrow> replayed (sd_log d) = [] \<and> rs_current (sd_session d) = rs_current s
     | RunningTask xs \<Rightarrow> replayed (sd_log d) @ xs = from_current ti_time s ts \<and> (\<forall>x \<in> set xs. rs_current (sd_session d) \<le> ti_time x)
     | EndedTask \<Rightarrow> extends (replayed (sd_log d)) (from_current ti_time s ts)))"

lemma memory_ordered:
  assumes "sorted (map ti_time ts)"
  shows "sorted (map ti_time (from_current ti_time s ts))" "\<forall>x \<in> set (from_current ti_time s ts). rs_current s \<le> ti_time x"
proof -
  let ?P = "\<lambda>x. ti_time x < rs_current s"
  show sorted: "sorted (map ti_time (from_current ti_time s ts))"
    unfolding from_current_def using assms sorted_dropWhile [of "map ti_time ts" "\<lambda>t. t < rs_current s"]
    by (simp add: dropWhile_map comp_def)
  show "\<forall>x \<in> set (from_current ti_time s ts). rs_current s \<le> ti_time x"
  proof (cases "from_current ti_time s ts")
    case (Cons x xs)
    then have "\<not> ?P x" using hd_dropWhile [of ?P ts] unfolding from_current_def by auto
    then show ?thesis using sorted Cons by auto
  qed simp
qed

lemma task_step_inv:
  assumes "sorted (map ti_time ts)" "sched_inv ts s d"
  shows "sched_inv ts s (task_step (memory_source ts cs) k d)"
proof (cases "k = 0")
  case False
  then have "task_step (memory_source ts cs) k d = d" using assms(2)
    by (auto simp: sched_inv_def task_step_def split: list.splits)
  then show ?thesis using assms(2) by simp
next
  case True
  obtain t where t: "sd_tasks d = [t]" using assms(2) by (auto simp: sched_inv_def split: list.splits)
  define us where "us = (case t of RunningTask i \<Rightarrow> i | _ \<Rightarrow> ts)"
  define left where "left = from_current ti_time (sd_session d) us"
  show ?thesis
  proof (cases "t = EndedTask")
    case True
    then show ?thesis using assms(2) t \<open>k = 0\<close> by (simp add: task_step_def)
  next
    case live: False
    have all: "replayed (sd_log d) @ left = from_current ti_time s ts"
    proof (cases t)
      case FreshTask
      then show ?thesis using assms(2) t by (simp add: left_def us_def sched_inv_def from_current_def)
    next
      case (RunningTask xs)
      then have "left = xs" using assms(2) t by (simp add: left_def us_def sched_inv_def mem_ticks.from_current_id)
      then show ?thesis using assms(2) t RunningTask by (simp add: sched_inv_def)
    qed (use live in simp)
    have later: "\<forall>z \<in> set xs. ti_time x \<le> ti_time z" if "left = x # xs" for x xs
      using memory_ordered(1) [OF assms(1), of s] by (simp add: all [symmetric] that sorted_append)
    have next_tick: "src_next_tick (memory_source ts cs) (sd_session d) us = (case left of [] \<Rightarrow> (None, []) | y # ys \<Rightarrow> (Some y, ys))"
      by (simp add: memory_source_def memory_next_def left_def)
    have ended: "sched_inv ts s (sched_finish (d\<lparr>sd_tasks := [EndedTask]\<rparr>))" using all [symmetric] by (simp add: sched_inv_def)
    have iter: "(case sd_tasks d ! 0 of RunningTask i \<Rightarrow> i | _ \<Rightarrow> src_ticks (memory_source ts cs) (sd_session d)) = us"
      using t by (simp add: us_def memory_source_def split: sched_task.split)
    show ?thesis
      using all later next_tick ended live t \<open>k = 0\<close> iter
      by (cases left) (auto simp: task_step_def Let_def sched_inv_def sleep_for_def)
  qed
qed

definition one_start :: "sched_call \<Rightarrow> bool" where
  "one_start c \<longleftrightarrow> c \<noteq> SdStart"

lemma sched_step_inv:
  assumes "sorted (map ti_time ts)" "sched_inv ts s d" "one_start c"
  shows "sched_inv ts s (fst (sched_step (memory_source ts cs) d c))"
proof -
  have st: "sched_inv ts s (sched_state x d) = sched_inv ts s d" "sched_inv ts s (d\<lparr>sd_stop := b\<rparr>) = sched_inv ts s d" for x b d
    by (simp_all add: sched_inv_def sched_state_def cong: list.case_cong sched_task.case_cong)
  show ?thesis using assms(2,3) task_step_inv [OF assms(1)]
    by (cases c) (simp_all add: one_start_def sched_pause_def sched_resume_def sched_stop_def st)
qed

text \<open>On recorded ticks in time order a started scheduler, however its task is interleaved with pauses,
  resumptions and stops, replays a prefix of the ticks from the session's current time on, in order and
  none twice. It never sleeps: the session has been moved to the tick before the distance is taken.\<close>

theorem scheduler_replays_in_order:
  assumes "sorted (map ti_time ts)" "rs_state s \<noteq> RpRunning" "list_all one_start calls"
    and "d = feed (sched_step (memory_source ts cs)) (sched_start (new_scheduler s)) calls"
  shows "extends (replayed (sd_log d)) (from_current ti_time s ts) \<and> sd_sleeps d = []"
proof
  have "sched_inv ts s (sched_start (new_scheduler s))"
    using assms(2) by (simp add: sched_start_def new_scheduler_def sched_state_def sched_inv_def)
  then have "sched_inv ts s d" unfolding assms(4)
    by (rule feed_invariant) (use assms(1,3) sched_step_inv in \<open>auto simp: list_all_iff\<close>)
  moreover have "extends xs (xs @ ys)" for xs ys :: "tick list" by simp
  ultimately show "extends (replayed (sd_log d)) (from_current ti_time s ts)"
    by (auto simp: sched_inv_def extends_iff split: list.splits sched_task.splits) metis
  show "sd_sleeps d = []" by (simp add: assms(4) scheduler_never_sleeps sched_start_def sched_state_def new_scheduler_def)
qed

lemma scheduler_replays_in_order_witness:
  "let d = feed (sched_step (memory_source [demo_tick 5 4, demo_tick 10 5, demo_tick 20 6] [])) (sched_start (new_scheduler demo_replay))
      [SdRun 0, SdPause, SdResume, SdRun 0, SdStop]
   in extends (replayed (sd_log d)) (from_current ti_time demo_replay [demo_tick 5 4, demo_tick 10 5, demo_tick 20 6]) \<and> sd_sleeps d = []"
  unfolding Let_def by (rule scheduler_replays_in_order [OF _ _ _ refl]; code_simp)

text \<open>A task that has seen the pause ends; resuming leaves the session running with no task, so nothing is
  replayed however often it is started, resumed and run.\<close>

lemma dead_scheduler_stays:
  assumes "list_all (\<lambda>t. t = EndedTask) (sd_tasks d)" "rs_state (sd_session d) = RpRunning"
    and "list_all (\<lambda>c. c \<noteq> SdStop \<and> c \<noteq> SdPause) calls"
  shows "feed (sched_step src) d calls = d"
  using assms(3)
proof (induction calls)
  case (Cons c calls)
  have "task_step src k d = d" for k using assms(1) by (auto simp: task_step_def list_all_length)
  then have "fst (sched_step src d c) = d" using assms(2) Cons.prems by (cases c) (simp_all add: sched_start_def sched_resume_def)
  then show ?case using Cons by simp
qed simp

lemma resumed_scheduler_is_dead:
  "let d = feed (sched_step (memory_source [demo_tick 10 5, demo_tick 20 6] [])) (new_scheduler demo_replay)
      [SdStart, SdRun 0, SdPause, SdRun 0, SdResume]
   in list_all (\<lambda>t. t = EndedTask) (sd_tasks d) \<and> rs_state (sd_session d) = RpRunning \<and> replayed (sd_log d) = [demo_tick 10 5]"
  by code_simp

text \<open>Starting a paused scheduler runs a second task beside the first: the ticks come twice. Ticks that run
  out before the end of the session leave it running.\<close>

lemma started_twice_replays_twice:
  "replayed (sd_log (feed (sched_step (memory_source [demo_tick 10 5, demo_tick 10 6] [])) (new_scheduler demo_replay)
      [SdStart, SdRun 0, SdPause, SdStart, SdRun 1, SdRun 0, SdRun 1])) = [demo_tick 10 5, demo_tick 10 5, demo_tick 10 6, demo_tick 10 6]"
  by code_simp

lemma exhausted_scheduler_runs:
  "let d = feed (sched_step (memory_source [demo_tick 10 5] [])) (new_scheduler demo_replay) [SdStart, SdRun 0, SdRun 0]
   in sd_tasks d = [EndedTask] \<and> rs_state (sd_session d) = RpRunning"
  by code_simp

section \<open>Replayed data at the paper venue\<close>

text \<open>The quotes one subscription makes of replayed data of a symbol.\<close>

definition quotes_of :: "pystr \<Rightarrow> replay_event list \<Rightarrow> quote list" where
  "quotes_of name es = concat (map (\<lambda>e. case e of
       TickReplayed t \<Rightarrow> if ti_symbol t = name then [quote_from_tick (ti_symbol t) (ti_time t) (ti_price t)] else []
     | CandleReplayed c \<Rightarrow> if oc_symbol c = name
         then [quote_from_candle (oc_symbol c) (oc_start c) (oc_close c) (oc_high c) (oc_low c)] else []
     | _ \<Rightarrow> []) es)"

definition sound_event :: "replay_event \<Rightarrow> bool" where
  "sound_event e \<longleftrightarrow> (case e of
       TickReplayed t \<Rightarrow> new_tick (ti_symbol t) (ti_exchange t) (ti_time t) (ti_aware t) (ti_price t) (ti_size t) (ti_bid t) (ti_ask t) = Inr t
     | CandleReplayed c \<Rightarrow> validate_ohlc c = Inr c | _ \<Rightarrow> True)"

lemma feed_quote_frame [simp]: "ss_symbol (fst (feed_quote q z)) = ss_symbol z"
  by (simp add: feed_quote_def session_publish_def split: prod.splits sum.splits)

lemma feed_quote_sim: "ss_sim (fst (feed_quote q z)) = fst (sim_step (ss_sim z) (Quote q))"
  by (auto simp: feed_quote_def session_publish_def split: prod.splits sum.splits)

lemma fst_discard: "fst (case r of (z', Inl e) \<Rightarrow> (z', Inl e) | (z', Inr y) \<Rightarrow> (z', Inr ())) = fst r"
  by (simp split: prod.splits sum.splits)

lemma handle_event_quotes:
  assumes "sound_event e"
  shows "ss_symbol (fst (handle_event e z)) = ss_symbol z \<and>
    ss_sim (fst (handle_event e z)) = feed sim_step (ss_sim z) (map Quote (quotes_of (ss_symbol z) [e]))"
  using assms
  by (cases e)
    (simp_all add: handle_event_def handle_tick_def handle_candle_def session_on_tick_def session_on_candle_def sound_event_def quotes_of_def
      fst_discard feed_quote_sim del: sim_step.simps)

lemma quotes_of_Cons: "quotes_of n (e # es) = quotes_of n [e] @ quotes_of n es"
  by (simp add: quotes_of_def)

lemma events_quotes:
  assumes "list_all sound_event es" "mf_subs m = 1"
  shows "ss_symbol (mf_session (feed feed_event m es)) = ss_symbol (mf_session m) \<and>
    ss_sim (mf_session (feed feed_event m es)) = feed sim_step (ss_sim (mf_session m)) (map Quote (quotes_of (ss_symbol (mf_session m)) es))"
  using assms
proof (induction es arbitrary: m)
  case Nil
  then show ?case by (simp add: quotes_of_def)
next
  case (Cons e es)
  have f: "fst (feed_event m e) = m\<lparr>mf_session := fst (handle_event e (mf_session m))\<rparr>"
    using Cons.prems(2) by (simp add: feed_event_def split_def)
  show ?case
    using handle_event_quotes [of e "mf_session m"] Cons.IH [of "fst (feed_event m e)"] Cons.prems
    by (simp add: f quotes_of_Cons [of _ e es])
qed

text \<open>C24: Feeding replayed ticks and candles into a paper session that is attached once is the same as giving
  its venue the quotes of its symbol, in order: other symbols are ignored, and the venue stays consistent.\<close>

theorem replay_feeds_venue:
  assumes "list_all sound_event es" "new_portfolio capital a leverage = Inr p"
    and "m = feed_attach \<lparr>mf_session = new_session name p x, mf_subs = 0\<rparr>"
  shows "ss_sim (mf_session (feed feed_event m es)) = feed sim_step (new_simulator p x) (map Quote (quotes_of name es)) \<and>
    paper_inv (ss_sim (mf_session (feed feed_event m es)))"
  using events_quotes [OF assms(1), of m] sim_run_inv [OF assms(2)] by (simp add: assms(3) feed_attach_def new_session_def)

lemma replay_feeds_venue_witness:
  "\<exists>p. new_portfolio 1000 None 1 = Inr p \<and>
    paper_inv (ss_sim (mf_session (feed feed_event (feed_attach \<lparr>mf_session = new_session ''BTC'' p demo_executor, mf_subs = 0\<rparr>)
      [TickReplayed (demo_tick 10 5), ReplayPaused])))"
proof -
  obtain p where p: "new_portfolio 1000 None 1 = Inr p" by (simp add: new_portfolio_def)
  moreover have "list_all sound_event [TickReplayed (demo_tick 10 5), ReplayPaused]"
    by (simp add: sound_event_def demo_tick_def new_tick_def given_and_def)
  ultimately show ?thesis using replay_feeds_venue [OF _ p refl, of _ "''BTC''" demo_executor] by blast
qed

end
