(* ===== verification/Oms.thy ===== *)
theory Oms imports StrategyRuntime begin

text \<open>
  The order management system (\<open>trading/oms\<close>) and the live executor behind it
  (\<open>trading/broker/live_executor.py\<close>). The broker is code of a third party: it is a parameter, a
  record of its four calls over a state \<open>'b\<close> of its own, each answering with a failure or a value.
  A coroutine of the system runs to its end before the next one starts. Wall-clock readings are
  arguments, the readings of one wait a sequence; \<open>fs\<close> and \<open>f2\<close> are the texts of a float
  (\<open>str\<close> and two decimals). What the code does not read of a broker's answer is not kept.
\<close>

section \<open>The broker\<close>

datatype broker_status = B_CREATED | B_OPEN | B_PARTIALLY_FILLED | B_FILLED | B_CANCELLED | B_REJECTED | B_EXPIRED

fun broker_status_value :: "broker_status \<Rightarrow> pystr" where
  "broker_status_value B_CREATED = ''created''"
| "broker_status_value B_OPEN = ''open''"
| "broker_status_value B_PARTIALLY_FILLED = ''partially_filled''"
| "broker_status_value B_FILLED = ''filled''"
| "broker_status_value B_CANCELLED = ''cancelled''"
| "broker_status_value B_REJECTED = ''rejected''"
| "broker_status_value B_EXPIRED = ''expired''"

record broker_order =
  bo_id :: pystr
  bo_symbol :: pystr
  bo_quantity :: rat
  bo_status :: broker_status
  bo_updated :: time
  bo_filled :: rat
  bo_average :: "rat option"
  bo_reject_reason :: "pystr option"

record broker_position =
  bp_symbol :: pystr
  bp_side :: pystr
  bp_quantity :: rat
  bp_average :: rat
  bp_price :: "rat option"
  bp_unrealized :: "rat option"
  bp_realized :: rat

text \<open>A \<open>BrokerError\<close> or any other exception, with its text.\<close>

datatype broker_failure = BrokerError pystr | OtherError pystr

fun failure_text :: "broker_failure \<Rightarrow> pystr" where
  "failure_text (BrokerError s) = s"
| "failure_text (OtherError s) = s"

record 'b broker =
  br_submit :: "'b \<Rightarrow> pystr \<Rightarrow> order_side \<Rightarrow> rat \<Rightarrow> pystr \<Rightarrow> 'b \<times> (broker_failure + broker_order)"
  br_get :: "'b \<Rightarrow> pystr \<Rightarrow> pystr \<Rightarrow> 'b \<times> (broker_failure + broker_order)"
  br_cancel :: "'b \<Rightarrow> pystr \<Rightarrow> pystr \<Rightarrow> 'b \<times> (broker_failure + broker_order)"
  br_positions :: "'b \<Rightarrow> pystr option \<Rightarrow> 'b \<times> (broker_failure + broker_position list)"

text \<open>\<open>x or d\<close> on a text, an optional text and an optional number: the empty and the zero are false.\<close>

definition or_text :: "pystr \<Rightarrow> pystr \<Rightarrow> pystr" where
  "or_text x d = (if x = [] then d else x)"

definition or_opt_text :: "pystr option \<Rightarrow> pystr \<Rightarrow> pystr" where
  "or_opt_text x d = (case x of None \<Rightarrow> d | Some y \<Rightarrow> or_text y d)"

definition or_number :: "rat option \<Rightarrow> rat \<Rightarrow> rat" where
  "or_number x d = (case x of None \<Rightarrow> d | Some y \<Rightarrow> if y = 0 then d else y)"

section \<open>The live executor\<close>

record live =
  lv_brokerage :: brokerage
  lv_timeout :: rat

definition is_terminal :: "broker_order \<Rightarrow> bool" where
  "is_terminal b \<longleftrightarrow> bo_status b \<in> {B_FILLED, B_REJECTED, B_CANCELLED, B_EXPIRED}"

text \<open>\<open>(b - a).total_seconds()\<close> of two times in microseconds.\<close>

definition total_seconds :: "time \<Rightarrow> time \<Rightarrow> rat" where
  "total_seconds a b = fdiv (of_int (b - a)) 1000000"

text \<open>
  The body of \<open>_wait_for_fill\<close>, from the \<open>n\<close>-th reading of the clock on: it may run for ever when the
  clock stands still, which is the value \<open>None\<close>.
\<close>

partial_function (option) wait_loop ::
    "'b broker \<Rightarrow> live \<Rightarrow> (nat \<Rightarrow> time) \<Rightarrow> broker_order \<Rightarrow> nat \<Rightarrow> 'b \<Rightarrow> ('b \<times> (broker_failure + broker_order)) option" where
  "wait_loop br lv clock b n v =
     (if lv_timeout lv < total_seconds (clock 0) (clock n) then
        (case br_cancel br v (bo_id b) (bo_symbol b) of
           (v', r) \<Rightarrow> (case r of Inl e \<Rightarrow> Some (v', Inr (b\<lparr>bo_status := B_EXPIRED\<rparr>))
              | Inr latest \<Rightarrow> Some (v', Inr latest)))
      else
        (case br_get br v (bo_id b) (bo_symbol b) of
           (v', r) \<Rightarrow> (case r of Inl e \<Rightarrow> Some (v', Inl e)
              | Inr latest \<Rightarrow> if is_terminal latest then Some (v', Inr latest)
                  else wait_loop br lv clock b (n + 1) v')))"

definition wait_for_fill ::
    "'b broker \<Rightarrow> live \<Rightarrow> (nat \<Rightarrow> time) \<Rightarrow> broker_order \<Rightarrow> 'b \<Rightarrow> ('b \<times> (broker_failure + broker_order)) option" where
  "wait_for_fill br lv clock b v = (if is_terminal b then Some (v, Inr b) else wait_loop br lv clock b 1 v)"

definition apply_broker_fill :: "(rat \<Rightarrow> pystr) \<Rightarrow> live \<Rightarrow> broker_order \<Rightarrow> order \<Rightarrow> order" where
  "apply_broker_fill fs lv b o0 =
     (let o1 = o0\<lparr>or_broker_id := (if bo_id b = [] then or_broker_id o0 else Some (bo_id b))\<rparr> in
      case bo_status b of
        B_FILLED \<Rightarrow>
          (let price = or_number (bo_average b) (or_reference o1);
               q = (if bo_filled b = 0 then bo_quantity b else bo_filled b)
           in complete_order \<lparr>fl_price = price, fl_quantity = q, fl_cost = brokerage_cost (lv_brokerage lv) q price,
                fl_reference = b64 (or_reference o1), fl_side = or_side o1, fl_time = bo_updated b,
                fl_id = Some (bo_id b @ '':'' @ fs q @ '':'' @ fs price)\<rparr> o1)
      | B_CANCELLED \<Rightarrow> cancel_order o1
      | B_REJECTED \<Rightarrow> reject_order (or_opt_text (bo_reject_reason b) (''Order '' @ broker_status_value (bo_status b))) o1
      | B_EXPIRED \<Rightarrow> reject_order (or_opt_text (bo_reject_reason b) (''Order '' @ broker_status_value (bo_status b))) o1
      | _ \<Rightarrow> o1)"

fun execute_failure :: "broker_failure \<Rightarrow> pystr" where
  "execute_failure (BrokerError s) = s"
| "execute_failure (OtherError s) = ''Unexpected error: '' @ s"

definition live_execute :: "(rat \<Rightarrow> pystr) \<Rightarrow> 'b broker \<Rightarrow> live \<Rightarrow> (nat \<Rightarrow> time) \<Rightarrow> order \<Rightarrow> 'b \<Rightarrow> ('b \<times> order) option" where
  "live_execute fs br lv clock o0 v =
     (let o1 = submit_order o0 in
      case br_submit br v (or_symbol o1) (or_side o1) (or_quantity o1)
             (or_opt_text (or_client_id o1) (''renkolab-'' @ str_int (or_id o1))) of
        (v1, Inl e) \<Rightarrow> Some (v1, reject_order (execute_failure e) o1)
      | (v1, Inr b) \<Rightarrow>
          (let o2 = o1\<lparr>or_broker_id := Some (bo_id b)\<rparr> in
           case wait_for_fill br lv clock b v1 of
             None \<Rightarrow> None
           | Some (v2, Inl e) \<Rightarrow> Some (v2, reject_order (execute_failure e) o2)
           | Some (v2, Inr b') \<Rightarrow> Some (v2, apply_broker_fill fs lv b' o2)))"

section \<open>Tracked positions\<close>

record position_record =
  pr_symbol :: pystr
  pr_side :: pystr
  pr_quantity :: rat
  pr_average :: rat
  pr_price :: "rat option"
  pr_unrealized :: rat
  pr_realized :: rat
  pr_opened :: time
  pr_updated :: time
  pr_broker_id :: "pystr option"

definition record_update_price :: "time \<Rightarrow> rat \<Rightarrow> position_record \<Rightarrow> position_record" where
  "record_update_price now p r = r\<lparr>pr_price := Some p,
     pr_unrealized := (if pr_side r = ''long'' then fmul (fsub p (pr_average r)) (pr_quantity r)
                       else fmul (fsub (pr_average r) p) (pr_quantity r)), pr_updated := now\<rparr>"

definition clean_quantity :: "time \<Rightarrow> position_record \<Rightarrow> position_record" where
  "clean_quantity now r = r\<lparr>pr_quantity := (if \<bar>pr_quantity r\<bar> < b64 (1 / 1000000000) then 0 else pr_quantity r),
     pr_updated := now\<rparr>"

text \<open>Adding to a position divides by the new quantity, which is zero after an oversell is bought back.\<close>

definition record_add :: "time \<Rightarrow> fill \<Rightarrow> position_record \<Rightarrow> position_record \<times> unit result" where
  "record_add now f r =
     (let total = fadd (fmul (pr_quantity r) (pr_average r)) (fmul (fl_quantity f) (fl_price f));
          q = fadd (pr_quantity r) (fl_quantity f)
      in if q = 0 then (r\<lparr>pr_quantity := q\<rparr>, Inl ZeroDivisionError)
         else (clean_quantity now (r\<lparr>pr_quantity := q, pr_average := fdiv total q\<rparr>), Inr ()))"

definition record_reduce :: "time \<Rightarrow> rat \<Rightarrow> fill \<Rightarrow> position_record \<Rightarrow> position_record \<times> unit result" where
  "record_reduce now gain f r =
     (clean_quantity now (r\<lparr>pr_realized := fadd (pr_realized r) (fmul gain (fl_quantity f)),
        pr_quantity := fsub (pr_quantity r) (fl_quantity f)\<rparr>), Inr ())"

definition record_apply_fill :: "time \<Rightarrow> fill \<Rightarrow> position_record \<Rightarrow> position_record \<times> unit result" where
  "record_apply_fill now f r =
     (if pr_side r = ''long'' then
        (if fl_side f = BUY then record_add now f r
         else record_reduce now (fsub (fl_price f) (pr_average r)) f r)
      else
        (if fl_side f = SELL then record_add now f r
         else record_reduce now (fsub (pr_average r) (fl_price f)) f r))"

record position_sync =
  ps_positions :: "(pystr, position_record) dict"
  ps_last :: "time option"

definition new_position_sync :: position_sync where
  "new_position_sync = \<lparr>ps_positions = [], ps_last = None\<rparr>"

definition ps_drop_closed :: "pystr \<Rightarrow> position_sync \<Rightarrow> position_sync" where
  "ps_drop_closed s y = (case dget (ps_positions y) s of
       Some r \<Rightarrow> if pr_quantity r = 0 then y\<lparr>ps_positions := ddel s (ps_positions y)\<rparr> else y
     | None \<Rightarrow> y)"

definition ps_apply_fill :: "time \<Rightarrow> fill \<Rightarrow> pystr \<Rightarrow> position_sync \<Rightarrow> position_sync \<times> unit result" where
  "ps_apply_fill now f s y = (case dget (ps_positions y) s of
       None \<Rightarrow> (ps_drop_closed s (y\<lparr>ps_positions := dset s \<lparr>pr_symbol = s,
           pr_side = (if fl_side f = BUY then ''long'' else ''short''), pr_quantity = fl_quantity f,
           pr_average = fl_price f, pr_price = None, pr_unrealized = 0, pr_realized = 0,
           pr_opened = fl_time f, pr_updated = now, pr_broker_id = None\<rparr> (ps_positions y)\<rparr>), Inr ())
     | Some r \<Rightarrow> (case record_apply_fill now f r of
           (r', Inl e) \<Rightarrow> (y\<lparr>ps_positions := dset s r' (ps_positions y)\<rparr>, Inl e)
         | (r', Inr _) \<Rightarrow> (ps_drop_closed s (y\<lparr>ps_positions := dset s r' (ps_positions y)\<rparr>), Inr ())))"

definition ps_update_price :: "time \<Rightarrow> pystr \<Rightarrow> rat \<Rightarrow> position_sync \<Rightarrow> position_sync" where
  "ps_update_price now s p y = (case dget (ps_positions y) s of
       None \<Rightarrow> y
     | Some r \<Rightarrow> y\<lparr>ps_positions := dset s (record_update_price now p r) (ps_positions y)\<rparr>)"

definition ps_unrealized :: "pystr \<Rightarrow> position_sync \<Rightarrow> rat" where
  "ps_unrealized s y = (case dget (ps_positions y) s of None \<Rightarrow> 0 | Some r \<Rightarrow> pr_unrealized r)"

definition ps_exposure :: "position_sync \<Rightarrow> rat" where
  "ps_exposure y = foldl (\<lambda>t r. case pr_price r of None \<Rightarrow> t | Some p \<Rightarrow> fadd t \<bar>fmul (pr_quantity r) p\<bar>) 0
     (dvals (ps_positions y))"

definition ps_update_from_broker :: "time \<Rightarrow> position_sync \<Rightarrow> broker_position \<Rightarrow> position_sync" where
  "ps_update_from_broker now y p = (case dget (ps_positions y) (bp_symbol p) of
       Some r \<Rightarrow> y\<lparr>ps_positions := dset (bp_symbol p) (r\<lparr>pr_quantity := bp_quantity p, pr_average := bp_average p,
           pr_price := bp_price p, pr_unrealized := (case bp_unrealized p of None \<Rightarrow> 0 | Some u \<Rightarrow> u),
           pr_realized := bp_realized p, pr_updated := now\<rparr>) (ps_positions y)\<rparr>
     | None \<Rightarrow> y\<lparr>ps_positions := dset (bp_symbol p) \<lparr>pr_symbol = bp_symbol p, pr_side = bp_side p,
           pr_quantity = bp_quantity p, pr_average = bp_average p, pr_price = bp_price p,
           pr_unrealized = (case bp_unrealized p of None \<Rightarrow> 0 | Some u \<Rightarrow> u), pr_realized = bp_realized p,
           pr_opened = now, pr_updated = now, pr_broker_id = Some (bp_symbol p)\<rparr> (ps_positions y)\<rparr>)"

definition ps_reconcile :: "time \<Rightarrow> broker_position list \<Rightarrow> position_sync \<Rightarrow> position_sync" where
  "ps_reconcile now ps y =
     (let live = filter (\<lambda>p. 0 < bp_quantity p) ps;
          y1 = foldl (ps_update_from_broker now) y live
      in y1\<lparr>ps_positions := filter (\<lambda>e. fst e \<in> bp_symbol ` set live) (ps_positions y1)\<rparr>)"

definition ps_sync :: "'b broker \<Rightarrow> time \<Rightarrow> 'b \<Rightarrow> position_sync \<Rightarrow> 'b \<times> position_sync \<times> position_record list" where
  "ps_sync br now v y = (case br_positions br v None of
       (v', Inl e) \<Rightarrow> (v', y, dvals (ps_positions y))
     | (v', Inr ps) \<Rightarrow> (let y' = (ps_reconcile now ps y)\<lparr>ps_last := Some now\<rparr> in (v', y', dvals (ps_positions y'))))"

definition ps_sync_symbol :: "'b broker \<Rightarrow> time \<Rightarrow> pystr \<Rightarrow> 'b \<Rightarrow> position_sync \<Rightarrow> 'b \<times> position_sync \<times> position_record option" where
  "ps_sync_symbol br now s v y = (case br_positions br v (Some s) of
       (v', Inl e) \<Rightarrow> (v', y, dget (ps_positions y) s)
     | (v', Inr ps) \<Rightarrow> (let y' = (case List.find (\<lambda>p. bp_symbol p = s \<and> 0 < bp_quantity p) ps of
             None \<Rightarrow> y | Some p \<Rightarrow> ps_update_from_broker now y p)
         in (v', y', dget (ps_positions y') s)))"

section \<open>Risk validation before execution\<close>

record risk_check =
  rc_passed :: bool
  rc_reason :: pystr
  rc_rule :: pystr

definition pass_check :: "pystr \<Rightarrow> pystr \<Rightarrow> risk_check" where
  "pass_check reason rule = \<lparr>rc_passed = True, rc_reason = reason, rc_rule = rule\<rparr>"

definition fail_check :: "pystr \<Rightarrow> pystr \<Rightarrow> risk_check" where
  "fail_check reason rule = \<lparr>rc_passed = False, rc_reason = reason, rc_rule = rule\<rparr>"

text \<open>The strategy's risk manager is only ever asked whether it is there.\<close>

record risk_validator =
  rv_manager :: bool
  rv_max_value :: "rat option"
  rv_max_loss :: "rat option"
  rv_max_drawdown :: "rat option"
  rv_max_open :: int
  rv_pnl :: rat
  rv_day :: "int option"

definition new_validator :: "bool \<Rightarrow> rat option \<Rightarrow> rat option \<Rightarrow> rat option \<Rightarrow> int \<Rightarrow> risk_validator" where
  "new_validator m v l d n = \<lparr>rv_manager = m, rv_max_value = v, rv_max_loss = l, rv_max_drawdown = d,
     rv_max_open = n, rv_pnl = 0, rv_day = None\<rparr>"

definition rv_record_fill :: "fill \<Rightarrow> risk_validator \<Rightarrow> risk_validator" where
  "rv_record_fill f v = v\<lparr>rv_pnl :=
     (if fl_side f = SELL then fadd (rv_pnl v) (fsub (fmul (fl_price f) (fl_quantity f)) (fl_cost f))
      else fsub (rv_pnl v) (fadd (fmul (fl_price f) (fl_quantity f)) (fl_cost f)))\<rparr>"

definition rv_maybe_reset :: "time \<Rightarrow> risk_validator \<Rightarrow> risk_validator" where
  "rv_maybe_reset now v =
     (if rv_day v = None \<or> rv_day v \<noteq> Some (day_of now) then v\<lparr>rv_pnl := 0, rv_day := Some (day_of now)\<rparr> else v)"

definition check_order_value :: "(rat \<Rightarrow> pystr) \<Rightarrow> risk_validator \<Rightarrow> order \<Rightarrow> rat \<Rightarrow> risk_check" where
  "check_order_value f2 v o1 ref = (case rv_max_value v of
       None \<Rightarrow> pass_check ''No limit set'' ''order_value''
     | Some m \<Rightarrow>
         if m < fmul (or_quantity o1) ref
         then fail_check (''Order value '' @ f2 (fmul (or_quantity o1) ref) @ '' exceeds max '' @ f2 m) ''order_value''
         else pass_check ''Order value within limit'' ''order_value'')"

definition check_position_count :: "risk_validator \<Rightarrow> position_sync option \<Rightarrow> order \<Rightarrow> risk_check" where
  "check_position_count v ps o1 = (case ps of
       None \<Rightarrow> pass_check ''No position tracking'' ''position_count''
     | Some y \<Rightarrow>
         if or_intent o1 = ENTRY \<and> rv_max_open v \<le> int (length (ps_positions y))
         then fail_check (''Max open positions ('' @ str_int (rv_max_open v) @ '') reached'') ''position_count''
         else pass_check ''Position count within limit'' ''position_count'')"

definition check_daily_loss :: "(rat \<Rightarrow> pystr) \<Rightarrow> risk_validator \<Rightarrow> risk_check" where
  "check_daily_loss f2 v = (case rv_max_loss v of
       None \<Rightarrow> pass_check ''No daily loss limit'' ''daily_loss''
     | Some m \<Rightarrow>
         if rv_pnl v < - m then fail_check (''Daily loss '' @ f2 (rv_pnl v) @ '' exceeds limit '' @ f2 m) ''daily_loss''
         else pass_check ''Daily loss within limit'' ''daily_loss'')"

definition check_drawdown :: "(rat \<Rightarrow> pystr) \<Rightarrow> risk_validator \<Rightarrow> position_sync option \<Rightarrow> risk_check" where
  "check_drawdown f2 v ps = (case (rv_max_drawdown v, ps) of
       (Some m, Some y) \<Rightarrow>
         (let u = py_sum (map pr_unrealized (dvals (ps_positions y))) in
          if u < - m then fail_check (''Drawdown '' @ f2 u @ '' exceeds limit '' @ f2 m) ''drawdown''
          else pass_check ''Drawdown within limit'' ''drawdown'')
     | _ \<Rightarrow> pass_check ''No drawdown limit'' ''drawdown'')"

definition check_broker_positions :: "(rat \<Rightarrow> pystr) \<Rightarrow> risk_validator \<Rightarrow> position_sync \<Rightarrow> order \<Rightarrow> rat \<Rightarrow> risk_check" where
  "check_broker_positions f2 v y o1 ref = (case (or_side o1, dget (ps_positions y) (or_symbol o1), rv_max_value v) of
       (BUY, Some r, Some m) \<Rightarrow>
         (let pv = fmul (fadd (pr_quantity r) (or_quantity o1)) ref in
          if m < pv
          then fail_check (''Projected broker position value '' @ f2 pv @ '' exceeds max '' @ f2 m) ''broker_positions''
          else pass_check ''Broker position check passed'' ''broker_positions'')
     | _ \<Rightarrow> pass_check ''Broker position check passed'' ''broker_positions'')"

definition check_strategy_rules :: "risk_validator \<Rightarrow> risk_check" where
  "check_strategy_rules v =
     (if \<not> rv_manager v then pass_check ''No strategy risk manager'' ''strategy_rules''
      else pass_check ''Strategy risk rules passed'' ''strategy_rules'')"

definition first_failure :: "risk_check list \<Rightarrow> risk_check" where
  "first_failure cs = (case List.find (\<lambda>c. \<not> rc_passed c) cs of
       Some c \<Rightarrow> c | None \<Rightarrow> pass_check ''All checks passed'' ''all'')"

definition rv_validate :: "(rat \<Rightarrow> pystr) \<Rightarrow> time \<Rightarrow> order \<Rightarrow> rat \<Rightarrow> position_sync option \<Rightarrow> risk_validator
    \<Rightarrow> risk_validator \<times> risk_check" where
  "rv_validate f2 now o1 ref ps v0 =
     (let v = rv_maybe_reset now v0 in
      (v, first_failure ([check_order_value f2 v o1 ref, check_position_count v ps o1, check_daily_loss f2 v,
            check_drawdown f2 v ps]
          @ (case ps of None \<Rightarrow> [] | Some y \<Rightarrow> [check_broker_positions f2 v y o1 ref])
          @ (if rv_manager v then [check_strategy_rules v] else []))))"

section \<open>Broker orders and platform orders\<close>

record sync_decision =
  sd_order :: int
  sd_broker_id :: "pystr option"
  sd_previous :: order_status
  sd_current :: order_status
  sd_changed :: bool
  sd_reason :: pystr

definition apply_broker_state :: "broker_order \<Rightarrow> order \<Rightarrow> order" where
  "apply_broker_state b o0 =
     (let o1 = o0\<lparr>or_broker_id := Some (bo_id b)\<rparr> in
      if bo_status b = B_OPEN \<or> bo_status b = B_PARTIALLY_FILLED then submit_order o1
      else if bo_status b = B_CANCELLED then cancel_order o1
      else if bo_status b = B_REJECTED \<or> bo_status b = B_EXPIRED
      then reject_order (or_opt_text (bo_reject_reason b) (''Broker order '' @ broker_status_value (bo_status b))) o1
      else o1)"

definition decide :: "order \<Rightarrow> pystr option \<Rightarrow> order \<Rightarrow> pystr \<Rightarrow> sync_decision" where
  "decide o0 i o1 reason = \<lparr>sd_order = or_id o1, sd_broker_id = i, sd_previous = or_status o0,
     sd_current = or_status o1, sd_changed = (or_status o0 \<noteq> or_status o1), sd_reason = reason\<rparr>"

definition synchronize_order :: "'b broker \<Rightarrow> order \<Rightarrow> 'b \<Rightarrow> 'b \<times> order \<times> sync_decision" where
  "synchronize_order br o0 v = (case or_broker_id o0 of
       None \<Rightarrow> (v, o0, decide o0 None o0 ''order has no broker_order_id'')
     | Some i \<Rightarrow>
         if i = [] then (v, o0, decide o0 None o0 ''order has no broker_order_id'')
         else (case br_get br v i (or_symbol o0) of
           (v', Inl e) \<Rightarrow> (v', o0, decide o0 (Some i) o0 (''broker synchronization failed: '' @ failure_text e))
         | (v', Inr b) \<Rightarrow> (let o1 = apply_broker_state b o0 in
             (v', o1, decide o0 (Some i) o1 (''broker status '' @ broker_status_value (bo_status b))))))"

definition cancel_at_broker :: "'b broker \<Rightarrow> order \<Rightarrow> 'b \<Rightarrow> 'b \<times> order \<times> sync_decision" where
  "cancel_at_broker br o0 v =
     (let i = or_opt_text (or_broker_id o0) (str_int (or_id o0)) in
      case br_cancel br v i (or_symbol o0) of
        (v', Inl e) \<Rightarrow> (v', o0, decide o0 (Some i) o0 (''broker cancel failed: '' @ failure_text e))
      | (v', Inr b) \<Rightarrow>
          (let o1 = apply_broker_state b o0; o2 = (if bo_status b = B_CANCELLED then cancel_order o1 else o1)
           in (v', o2, decide o0 (Some i) o2 (''broker cancel status '' @ broker_status_value (bo_status b)))))"

text \<open>\<open>modify\<close> raises after it has changed what came before the offending argument.\<close>

definition modify_at_broker :: "rat option \<Rightarrow> rat option \<Rightarrow> order \<Rightarrow> order \<times> sync_decision result" where
  "modify_at_broker q p o0 =
     (if (case q of None \<Rightarrow> False | Some x \<Rightarrow> x \<le> 0) then (o0, Inl ValueError)
      else
        let o1 = (case q of None \<Rightarrow> o0 | Some x \<Rightarrow> o0\<lparr>or_quantity := b64 x\<rparr>) in
        if (case p of None \<Rightarrow> False | Some x \<Rightarrow> x \<le> 0) then (o1, Inl ValueError)
        else
          let o2 = (case p of None \<Rightarrow> o1 | Some x \<Rightarrow> o1\<lparr>or_reference := b64 x\<rparr>) in
          (o2, Inr (decide o0 (or_broker_id o2) o2 ''local order parameters updated before broker-native replace support'')))"

section \<open>The order management system\<close>

text \<open>An executor is the live one, or one of the two whose \<open>execute\<close> is an ordinary function.\<close>

datatype oms_executor = Simulated slippage_model brokerage | PaperExec executor | LiveExec live

fun is_live :: "oms_executor \<Rightarrow> bool" where
  "is_live (Simulated s b) = False"
| "is_live (PaperExec x) = False"
| "is_live (LiveExec lv) = True"

record risk_decision =
  rd_order :: int
  rd_passed :: bool
  rd_reason :: pystr
  rd_rule :: pystr

text \<open>
  \<open>os_broker\<close>: \<open>_broker\<close> and with it the order synchroniser are there. The position synchroniser is one
  object that the validator shares; \<open>os_venue\<close> is the broker's own state.
\<close>

record 'b oms =
  os_executor :: oms_executor
  os_broker :: bool
  os_orders :: "(int, order) dict"
  os_next :: int
  os_validator :: risk_validator
  os_positions :: "position_sync option"
  os_max_size :: rat
  os_allowed :: "pystr list option"
  os_require :: bool
  os_decisions :: "risk_decision list"
  os_log :: "sync_decision list"
  os_venue :: 'b

definition new_oms :: "oms_executor \<Rightarrow> bool \<Rightarrow> bool \<Rightarrow> position_sync option \<Rightarrow> rat \<Rightarrow> rat option \<Rightarrow> pystr list option
    \<Rightarrow> bool \<Rightarrow> 'b \<Rightarrow> 'b oms" where
  "new_oms x broker manager ps fraction value allowed req v = \<lparr>os_executor = x, os_broker = (broker \<or> is_live x),
     os_orders = [], os_next = 0, os_validator = new_validator manager value None None 10, os_positions = ps,
     os_max_size = fraction, os_allowed = allowed, os_require = req, os_decisions = [], os_log = [], os_venue = v\<rparr>"

definition create_order :: "order_side \<Rightarrow> order_intent \<Rightarrow> rat \<Rightarrow> rat \<Rightarrow> pystr \<Rightarrow> time \<Rightarrow> 'b oms \<Rightarrow> 'b oms \<times> order" where
  "create_order side intent q ref name now s =
     (let i = os_next s + 1;
          o1 = (new_order i side intent q ref now)\<lparr>or_symbol := name, or_client_id := Some (''renkolab-'' @ str_int i)\<rparr>
      in (s\<lparr>os_next := i, os_orders := dset i o1 (os_orders s)\<rparr>, o1))"

definition update_order :: "order \<Rightarrow> 'b oms \<Rightarrow> 'b oms" where
  "update_order o1 s = s\<lparr>os_orders := dset (or_id o1) o1 (os_orders s)\<rparr>"

definition active_orders :: "'b oms \<Rightarrow> order list" where
  "active_orders s = filter (\<lambda>o1. or_status o1 \<notin> {FILLED, CANCELLED, REJECTED}) (dvals (os_orders s))"

definition oms_entry_quantity :: "strategy_context \<Rightarrow> rat \<Rightarrow> 'b oms \<Rightarrow> rat" where
  "oms_entry_quantity c price s =
     (if price \<le> 0 then 0 else fdiv (fmul (case cx_cash c of None \<Rightarrow> 0 | Some x \<Rightarrow> x) (os_max_size s)) price)"

definition signal_to_order :: "signal_type \<Rightarrow> strategy_context \<Rightarrow> rat \<Rightarrow> time \<Rightarrow> 'b oms \<Rightarrow> 'b oms \<times> order option" where
  "signal_to_order g c ref now s =
     (let exit_order = (if 0 < cx_quantity c
            then (let (s', o1) = create_order SELL EXIT (cx_quantity c) ref (cx_symbol c) now s in (s', Some o1))
            else (s, None))
      in case g of
           SigBuy \<Rightarrow>
             (let q = oms_entry_quantity c ref s in
              if q \<le> 0 then (s, None)
              else (let (s', o1) = create_order BUY ENTRY q ref (cx_symbol c) now s in (s', Some o1)))
         | SigSell \<Rightarrow> exit_order
         | SigExit \<Rightarrow> exit_order
         | SigHold \<Rightarrow> (s, None))"

definition validate_order_risk :: "(rat \<Rightarrow> pystr) \<Rightarrow> time \<Rightarrow> order \<Rightarrow> rat \<Rightarrow> 'b oms \<Rightarrow> 'b oms \<times> risk_check" where
  "validate_order_risk f2 now o1 ref s =
     (let (v, c) = (if \<not> os_require s then (os_validator s, pass_check ''Risk validation disabled'' ''disabled'')
                    else rv_validate f2 now o1 ref (os_positions s) (os_validator s))
      in (s\<lparr>os_validator := v, os_decisions := os_decisions s @
            [\<lparr>rd_order = or_id o1, rd_passed = rc_passed c, rd_reason = rc_reason c, rd_rule = rc_rule c\<rparr>]\<rparr>, c))"

text \<open>\<open>_record_fill_integrations\<close>.\<close>

definition record_fill_integrations :: "time \<Rightarrow> order \<Rightarrow> 'b oms \<Rightarrow> 'b oms \<times> unit result" where
  "record_fill_integrations now o1 s =
     (if \<not> is_filled o1 then (s, Inr ()) else
      case or_fill o1 of
        None \<Rightarrow> (s, Inr ())
      | Some f \<Rightarrow>
          (let s1 = s\<lparr>os_validator := rv_record_fill f (os_validator s)\<rparr> in
           case os_positions s1 of
             None \<Rightarrow> (s1, Inr ())
           | Some y \<Rightarrow> (let (y', r) = ps_apply_fill now f (or_symbol o1) y in (s1\<lparr>os_positions := Some y'\<rparr>, r))))"

text \<open>
  \<open>await self._executor.execute(...)\<close>: the call of an ordinary function runs, and awaiting the order it
  returned raises. What an executor leaves of the order is kept beside the exception.
\<close>

definition await_executor :: "(rat \<Rightarrow> pystr) \<Rightarrow> 'b broker \<Rightarrow> (nat \<Rightarrow> time) \<Rightarrow> order \<Rightarrow> rat \<Rightarrow> time \<Rightarrow> 'b oms
    \<Rightarrow> ('b oms \<times> order \<times> unit result) option" where
  "await_executor fs br clock o1 ref t s = (case os_executor s of
       Simulated sl b \<Rightarrow> Some (s, simulated_execute sl b o1 (Some ref) t, Inl TypeError)
     | PaperExec x \<Rightarrow> (let (x', o2) = paper_execute x o1 (Some ref) t in
         Some (s\<lparr>os_executor := PaperExec x'\<rparr>, o2, Inl TypeError))
     | LiveExec lv \<Rightarrow> (case live_execute fs br lv clock o1 (os_venue s) of
         None \<Rightarrow> None
       | Some (v, o2) \<Rightarrow> Some (s\<lparr>os_venue := v\<rparr>, o2, Inr ())))"

fun exception_text :: "py_error \<Rightarrow> pystr" where
  "exception_text TypeError = ''object Order can't be used in 'await' expression''"
| "exception_text _ = ''float division by zero''"

text \<open>The part of \<open>process_signal\<close> inside its \<open>try\<close>.\<close>

definition execute_order :: "(rat \<Rightarrow> pystr) \<Rightarrow> 'b broker \<Rightarrow> (nat \<Rightarrow> time) \<Rightarrow> order \<Rightarrow> rat \<Rightarrow> time \<Rightarrow> 'b oms
    \<Rightarrow> ('b oms \<times> order) option" where
  "execute_order fs br clock o1 ref t s = (case await_executor fs br clock o1 ref t s of
       None \<Rightarrow> None
     | Some (s1, o2, r) \<Rightarrow>
         (let (s2, r2) = (case r of Inl e \<Rightarrow> (s1, Inl e) | Inr _ \<Rightarrow> record_fill_integrations t o2 (update_order o2 s1));
              o3 = (case r2 of Inl e \<Rightarrow> reject_order (''Execution failed: '' @ exception_text e) o2 | Inr _ \<Rightarrow> o2)
          in Some (update_order o3 s2, o3)))"

definition symbol_allowed :: "strategy_context \<Rightarrow> 'b oms \<Rightarrow> bool" where
  "symbol_allowed c s \<longleftrightarrow> (case os_allowed s of None \<Rightarrow> True | Some xs \<Rightarrow> cx_symbol c \<in> set xs)"

definition process_signal :: "(rat \<Rightarrow> pystr) \<Rightarrow> (rat \<Rightarrow> pystr) \<Rightarrow> 'b broker \<Rightarrow> (nat \<Rightarrow> time) \<Rightarrow> signal_type
    \<Rightarrow> strategy_context \<Rightarrow> rat \<Rightarrow> time \<Rightarrow> 'b oms \<Rightarrow> ('b oms \<times> order option) option" where
  "process_signal fs f2 br clock g c ref now s =
     (if g = SigHold \<or> \<not> symbol_allowed c s then Some (s, None)
      else case signal_to_order g c ref now s of
        (s1, None) \<Rightarrow> Some (s1, None)
      | (s1, Some o1) \<Rightarrow>
          (let (s2, chk) = validate_order_risk f2 now o1 ref s1 in
           if \<not> rc_passed chk
           then (let o2 = reject_order (rc_reason chk) o1 in Some (update_order o2 s2, Some o2))
           else (case execute_order fs br clock o1 ref now s2 of
               None \<Rightarrow> None | Some (s3, o3) \<Rightarrow> Some (s3, Some o3))))"

text \<open>
  \<open>cancel_order\<close>. Its branch for a live executor without a synchroniser cannot be taken: a live
  executor's broker always comes with one.
\<close>

definition oms_cancel :: "'b broker \<Rightarrow> int \<Rightarrow> 'b oms \<Rightarrow> 'b oms \<times> bool" where
  "oms_cancel br i s = (case dget (os_orders s) i of
       None \<Rightarrow> (s, False)
     | Some o0 \<Rightarrow>
         if or_status o0 \<notin> {CREATED, PENDING} then (s, False)
         else
           (let (s1, o1) = (if os_broker s
                  then (let (v, o', d) = cancel_at_broker br o0 (os_venue s) in
                        (s\<lparr>os_venue := v, os_log := os_log s @ [d]\<rparr>, o'))
                  else (s, o0));
                o2 = (if or_status o1 = CANCELLED then o1 else cancel_order o1)
            in (update_order o2 s1, True)))"

text \<open>\<open>synchronize_orders\<close>: each order is the object the manager holds, so its change is seen there.\<close>

fun synchronize_all :: "'b broker \<Rightarrow> order list \<Rightarrow> 'b oms \<Rightarrow> 'b oms \<times> sync_decision list" where
  "synchronize_all br [] s = (s, [])"
| "synchronize_all br (o0 # os) s =
     (let (v, o1, d) = synchronize_order br o0 (os_venue s);
          (s', ds) = synchronize_all br os (update_order o1 (s\<lparr>os_venue := v, os_log := os_log s @ [d]\<rparr>))
      in (s', d # ds))"

definition synchronize_orders :: "'b broker \<Rightarrow> 'b oms \<Rightarrow> 'b oms \<times> sync_decision list" where
  "synchronize_orders br s = (if \<not> os_broker s then (s, []) else synchronize_all br (active_orders s) s)"

definition oms_modify :: "int \<Rightarrow> rat option \<Rightarrow> rat option \<Rightarrow> 'b oms \<Rightarrow> 'b oms \<times> bool result" where
  "oms_modify i q p s = (case dget (os_orders s) i of
       None \<Rightarrow> (s, Inr False)
     | Some o0 \<Rightarrow>
         if or_status o0 \<notin> {CREATED, PENDING} then (s, Inr False)
         else
           (let finish = (\<lambda>o1 s1. (update_order (case p of None \<Rightarrow> o1 | Some x \<Rightarrow> o1\<lparr>or_reference := x\<rparr>) s1, Inr True))
            in if os_broker s
               then (case modify_at_broker q p o0 of
                   (o1, Inl e) \<Rightarrow> (update_order o1 s, Inl e)
                 | (o1, Inr d) \<Rightarrow> finish o1 (s\<lparr>os_log := os_log s @ [d]\<rparr>))
               else finish (case q of None \<Rightarrow> o0 | Some x \<Rightarrow> o0\<lparr>or_quantity := x\<rparr>) s))"

definition active_positions :: "'b oms \<Rightarrow> position_record list" where
  "active_positions s = (case os_positions s of None \<Rightarrow> []
     | Some y \<Rightarrow> filter (\<lambda>r. 0 < pr_quantity r) (dvals (ps_positions y)))"

section \<open>The wait for a fill ends\<close>

text \<open>Every poll sleeps, so each reading of the clock is at least \<open>p\<close> microseconds after the one before.\<close>

definition clock_advances :: "int \<Rightarrow> (nat \<Rightarrow> time) \<Rightarrow> bool" where
  "clock_advances p clock \<longleftrightarrow> 0 < p \<and> (\<forall>n. clock n + p \<le> clock (n + 1))"

lemma clock_advances_by:
  assumes "clock_advances p clock"
  shows "clock 0 + int n * p \<le> clock n"
proof (induction n)
  case (Suc n)
  have "clock n + p \<le> clock (Suc n)" using assms by (simp add: clock_advances_def)
  then show ?case using Suc by (simp add: algebra_simps)
qed simp

lemma isfl_pow2: "isfl (2 ^ k)"
proof -
  have "b64 (of_int 1 * 2 powi int k) = of_int 1 * 2 powi int k" by (rule b64_exact) simp
  then have "isfl (of_int 1 * 2 powi int k)" by (simp only: isfl_def)
  moreover have "of_int 1 * 2 powi int k = (2 ^ k :: rat)" by simp
  ultimately show ?thesis by (simp only:)
qed

lemma timeout_reached:
  assumes "clock_advances p clock"
  shows "\<exists>N. \<forall>n\<ge>N. x < total_seconds (clock 0) (clock n)"
proof -
  obtain k :: nat where k: "x < of_nat (2 ^ k)"
  proof -
    obtain m :: nat where m: "x < of_nat m" using reals_Archimedean2 by blast
    have "of_nat m < (of_nat (2 ^ m) :: rat)" using of_nat_less_iff [of m "2 ^ m"] less_exp by blast
    with m that show thesis by (meson less_trans)
  qed
  have "x < total_seconds (clock 0) (clock n)" if n: "1000000 * 2 ^ k \<le> n" for n
  proof -
    have p: "1 \<le> p" using assms by (simp add: clock_advances_def)
    have "int (1000000 * 2 ^ k) \<le> int n" using n of_nat_le_iff by blast
    also have "\<dots> \<le> int n * p" using p by (simp add: mult_le_cancel_left1)
    also have "\<dots> \<le> clock n - clock 0" using clock_advances_by [OF assms, of n] by linarith
    finally have "(of_int (int (1000000 * 2 ^ k)) :: rat) \<le> of_int (clock n - clock 0)" by (simp only: of_int_le_iff)
    then have "2 ^ k \<le> of_int (clock n - clock 0) / (1000000 :: rat)" by (simp add: field_simps)
    then have "2 ^ k \<le> total_seconds (clock 0) (clock n)"
      unfolding total_seconds_def fdiv_def by (rule b64.rnd_ge [rotated]) (rule isfl_pow2 [unfolded isfl_def])
    with k show ?thesis by simp
  qed
  then show ?thesis by blast
qed

lemma wait_loop_returns:
  assumes "\<And>n. N \<le> n \<Longrightarrow> lv_timeout lv < total_seconds (clock 0) (clock n)"
  shows "\<exists>r. wait_loop br lv clock b n v = Some r"
proof (induction "N - n" arbitrary: n v)
  case 0
  then show ?case
    by (subst wait_loop.simps) (auto simp: assms split: prod.split sum.split)
next
  case (Suc k)
  have "\<exists>r. wait_loop br lv clock b (n + 1) v' = Some r" for v' by (rule Suc.hyps(1)) (use Suc.hyps(2) in simp)
  then show ?case
    by (subst wait_loop.simps) (auto split: prod.split sum.split)
qed

lemma wait_for_fill_returns:
  "clock_advances p clock \<Longrightarrow> \<exists>r. wait_for_fill br lv clock b v = Some r"
  using timeout_reached [of p clock "lv_timeout lv"] wait_loop_returns [of _ lv clock br b 1 v]
  by (auto simp: wait_for_fill_def)

lemma live_execute_returns:
  assumes "clock_advances p clock"
  shows "\<exists>r. live_execute fs br lv clock o0 v = Some r"
proof -
  have "\<exists>x. wait_for_fill br lv clock b v' = Some x" for b v' using assms by (rule wait_for_fill_returns)
  then show ?thesis
    by (auto simp: live_execute_def Let_def split: prod.split sum.split option.split) (metis option.simps(3))
qed

lemma execute_order_returns:
  assumes "clock_advances p clock"
  shows "\<exists>r. execute_order fs br clock o1 ref t s = Some r"
proof -
  have "\<exists>r. await_executor fs br clock o1 ref t s = Some r"
    by (auto simp: await_executor_def split: oms_executor.split option.split prod.split)
      (metis live_execute_returns [OF assms] option.distinct(1))
  then show ?thesis by (auto simp: execute_order_def Let_def split: prod.split)
qed

text \<open>C17: With a clock that advances at every poll, processing a signal always ends, whatever the broker
  answers: the wait for a fill is cut off by its timeout.\<close>

theorem process_signal_returns:
  assumes "clock_advances p clock"
  shows "\<exists>s' r. process_signal fs f2 br clock g c ref now s = Some (s', r)"
proof -
  have "\<exists>s3 o3. execute_order fs br clock o1 ref now s2 = Some (s3, o3)" for o1 s2
    using execute_order_returns [OF assms, of fs br o1 ref now s2] by auto
  then show ?thesis
    by (auto simp: process_signal_def Let_def split: prod.split option.split) (metis option.simps(3))
qed

section \<open>A demonstration broker\<close>

text \<open>
  A broker whose state is the answer it gives to every question about an order: it acknowledges an
  order as open and then reports what its state says.
\<close>

definition demo_answer :: "broker_status \<Rightarrow> rat \<Rightarrow> broker_order" where
  "demo_answer st q = \<lparr>bo_id = ''b1'', bo_symbol = ''BTC'', bo_quantity = 2, bo_status = st, bo_updated = 7,
     bo_filled = q, bo_average = (if q = 0 then None else Some 100), bo_reject_reason = None\<rparr>"

definition demo_broker :: "broker_order broker" where
  "demo_broker = \<lparr>br_submit = (\<lambda>v name side q cid. (v, Inr (demo_answer B_OPEN 0))),
     br_get = (\<lambda>v i name. (v, Inr v)), br_cancel = (\<lambda>v i name. (v, Inr v)), br_positions = (\<lambda>v name. (v, Inr []))\<rparr>"

definition demo_live :: live where
  "demo_live = \<lparr>lv_brokerage = FixedBrokerage 1, lv_timeout = 60\<rparr>"

definition demo_tick_context :: strategy_context where
  "demo_tick_context = \<lparr>cx_symbol = ''BTC'', cx_price = Some 100, cx_cash = Some 200, cx_equity = Some 200,
     cx_quantity = 0, cx_open = 0, cx_daily_pnl = None\<rparr>"

definition demo_clock :: "nat \<Rightarrow> time" where
  "demo_clock n = int n * 1000000"

definition demo_oms :: "oms_executor \<Rightarrow> broker_order \<Rightarrow> broker_order oms" where
  "demo_oms x b = new_oms x True False (Some new_position_sync) 1 (Some 1000) None True b"

theorem process_signal_returns_witness:
  "\<exists>s' r. process_signal (\<lambda>x. ''1'') (\<lambda>x. ''1'') demo_broker demo_clock SigBuy demo_tick_context 100 5
     (demo_oms (LiveExec demo_live) (demo_answer B_OPEN 0)) = Some (s', r)"
  by (rule process_signal_returns [of 1000000]) (simp add: clock_advances_def demo_clock_def)

section \<open>What the system keeps\<close>

definition order_consistent :: "int \<Rightarrow> order \<Rightarrow> bool" where
  "order_consistent i o1 \<longleftrightarrow> or_id o1 = i \<and> (or_status o1 = FILLED \<longrightarrow> or_fill o1 \<noteq> None)"

definition refused_for_good :: "order option \<Rightarrow> bool" where
  "refused_for_good x \<longleftrightarrow> (case x of None \<Rightarrow> False
     | Some o1 \<Rightarrow> or_status o1 = REJECTED \<and> or_fill o1 = None \<and> or_broker_id o1 = None)"

text \<open>
  Orders are numbered from one without a gap, each has its risk decision, a filled order has its fill,
  and an order that the risk check refused never reaches a broker.
\<close>

definition oms_inv :: "'b oms \<Rightarrow> bool" where
  "oms_inv s \<longleftrightarrow> 0 \<le> os_next s \<and> dkeys (os_orders s) = [1..os_next s] \<and>
     map rd_order (os_decisions s) = [1..os_next s] \<and>
     (\<forall>i o1. dget (os_orders s) i = Some o1 \<longrightarrow> order_consistent i o1) \<and>
     (\<forall>d\<in>set (os_decisions s). \<not> rd_passed d \<longrightarrow> refused_for_good (dget (os_orders s) (rd_order d)))"

definition same_book :: "'b oms \<Rightarrow> 'b oms \<Rightarrow> bool" where
  "same_book s s' \<longleftrightarrow> os_orders s' = os_orders s \<and> os_next s' = os_next s \<and> os_decisions s' = os_decisions s"

lemma same_book_inv: "same_book s s' \<Longrightarrow> oms_inv s' = oms_inv s"
  by (simp add: same_book_def oms_inv_def)

lemma same_book_refl [simp]: "same_book s s"
  by (simp add: same_book_def)

text \<open>An order that is not rejected may change into any consistent order of the same number.\<close>

lemma update_order_inv:
  assumes "oms_inv s" "dget (os_orders s) i = Some o0" "or_status o0 \<noteq> REJECTED" "order_consistent i o1"
  shows "oms_inv (update_order o1 s)"
proof -
  have i: "or_id o1 = i" using assms(4) by (simp add: order_consistent_def)
  have "i \<in> set (dkeys (os_orders s))" using assms(2) by (force dest: map_of_SomeD)
  then have k: "dkeys (dset i o1 (os_orders s)) = dkeys (os_orders s)" by (simp add: update_keys)
  have "refused_for_good (dget (dset i o1 (os_orders s)) (rd_order d))"
    if "d \<in> set (os_decisions s)" "\<not> rd_passed d" for d
  proof -
    have r: "refused_for_good (dget (os_orders s) (rd_order d))" using assms(1) that by (simp add: oms_inv_def)
    then have "rd_order d \<noteq> i" using assms(2,3) by (auto simp: refused_for_good_def)
    with r show ?thesis by (simp add: dget_dset)
  qed
  then show ?thesis
    using assms k i by (simp add: oms_inv_def update_order_def dget_dset)
qed

lemma execution_status_simps [simp]:
  "or_id (submit_order o1) = or_id o1" "or_id (cancel_order o1) = or_id o1" "or_id (reject_order r o1) = or_id o1"
  "or_id (complete_order f o1) = or_id o1"
  "or_status (submit_order o1) = PENDING" "or_status (cancel_order o1) = CANCELLED"
  "or_status (reject_order r o1) = REJECTED" "or_status (complete_order f o1) = FILLED"
  "or_fill (submit_order o1) = or_fill o1" "or_fill (cancel_order o1) = or_fill o1"
  "or_fill (reject_order r o1) = or_fill o1" "or_fill (complete_order f o1) = Some f"
  by (simp_all add: submit_order_def cancel_order_def reject_order_def complete_order_def)

lemma execution_terms_simps [simp]:
  "or_quantity (submit_order o1) = or_quantity o1" "or_quantity (cancel_order o1) = or_quantity o1"
  "or_quantity (reject_order r o1) = or_quantity o1" "or_quantity (complete_order f o1) = or_quantity o1"
  "or_intent (submit_order o1) = or_intent o1" "or_intent (cancel_order o1) = or_intent o1"
  "or_intent (reject_order r o1) = or_intent o1" "or_intent (complete_order f o1) = or_intent o1"
  "or_symbol (submit_order o1) = or_symbol o1" "or_symbol (cancel_order o1) = or_symbol o1"
  "or_symbol (reject_order r o1) = or_symbol o1" "or_symbol (complete_order f o1) = or_symbol o1"
  "or_side (submit_order o1) = or_side o1" "or_side (cancel_order o1) = or_side o1"
  "or_side (reject_order r o1) = or_side o1" "or_side (complete_order f o1) = or_side o1"
  by (simp_all add: submit_order_def cancel_order_def reject_order_def complete_order_def)

text \<open>What an execution leaves of an order: its number and terms, and a fill if it is filled.\<close>

definition executed_from :: "order \<Rightarrow> order \<Rightarrow> bool" where
  "executed_from o1 o2 \<longleftrightarrow> order_consistent (or_id o1) o2 \<and> or_quantity o2 = or_quantity o1 \<and>
     or_intent o2 = or_intent o1 \<and> or_symbol o2 = or_symbol o1 \<and> or_side o2 = or_side o1"

lemma apply_broker_fill_from:
  "order_consistent (or_id o1) o1 \<Longrightarrow> executed_from o1 (apply_broker_fill fs lv b o1)"
  by (auto simp: apply_broker_fill_def Let_def executed_from_def order_consistent_def split: broker_status.split)

lemma live_execute_from:
  assumes "live_execute fs br lv clock o1 v = Some (v', o2)"
  shows "executed_from o1 o2"
proof -
  define o' where "o' = submit_order o1"
  obtain v1 r where sub: "br_submit br v (or_symbol o') (or_side o') (or_quantity o')
      (or_opt_text (or_client_id o') (''renkolab-'' @ str_int (or_id o'))) = (v1, r)" by fastforce
  show ?thesis
  proof (cases r)
    case (Inl e)
    then show ?thesis
      using assms sub by (auto simp: live_execute_def Let_def o'_def [symmetric] executed_from_def order_consistent_def)
         (auto simp: o'_def)
  next
    case (Inr b)
    define o3 where "o3 = o'\<lparr>or_broker_id := Some (bo_id b)\<rparr>"
    have t: "or_id o3 = or_id o1" "or_status o3 = PENDING" "or_quantity o3 = or_quantity o1"
      "or_intent o3 = or_intent o1" "or_symbol o3 = or_symbol o1" "or_side o3 = or_side o1" by (simp_all add: o3_def o'_def)
    have f: "executed_from o3 (apply_broker_fill fs lv b' o3)" for b'
      using t by (intro apply_broker_fill_from) (simp add: order_consistent_def)
    have "executed_from o1 (reject_order x o3)" "executed_from o1 (apply_broker_fill fs lv b' o3)" for b' x
      using f [of b'] t by (auto simp: executed_from_def order_consistent_def)
    then show ?thesis
      using assms sub Inr by (auto simp: live_execute_def Let_def o'_def [symmetric] o3_def [symmetric]
          split: option.splits sum.splits)
  qed
qed

lemma simulated_execute_from: "executed_from o1 (simulated_execute sl b o1 ref t)"
  by (auto simp: simulated_execute_def Let_def executed_from_def order_consistent_def split: option.split)

lemma paper_execute_from: "executed_from o1 (snd (paper_execute x o1 ref t))"
  by (auto simp: paper_execute_def Let_def executed_from_def order_consistent_def split: option.split prod.split)

lemma await_executor_from:
  assumes "await_executor fs br clock o1 ref t s = Some (s', o2, r)"
  shows "executed_from o1 o2 \<and> same_book s s' \<and> os_positions s' = os_positions s"
  using assms live_execute_from [of fs br _ clock o1 "os_venue s"] simulated_execute_from [of o1]
    paper_execute_from [of o1]
  by (auto simp: await_executor_def same_book_def split: oms_executor.splits option.splits prod.splits)
    (metis snd_conv)

lemma record_fill_integrations_book: "same_book s (fst (record_fill_integrations t o1 s))"
  by (auto simp: record_fill_integrations_def same_book_def Let_def split: option.split prod.split)

lemma executed_from_rejected: "executed_from o1 o2 \<Longrightarrow> executed_from o1 (reject_order x o2)"
  by (simp add: executed_from_def order_consistent_def)

text \<open>Of the book, an execution changes the order it executed.\<close>

lemma execute_order_book:
  assumes "execute_order fs br clock o1 ref t s = Some (s', o3)"
  shows "executed_from o1 o3 \<and> same_book (update_order o3 s) s'"
proof -
  obtain s1 o2 r where aw: "await_executor fs br clock o1 ref t s = Some (s1, o2, r)"
    using assms by (auto simp: execute_order_def split: option.splits)
  have f: "executed_from o1 o2" "same_book s s1" using await_executor_from [OF aw] by simp_all
  have i: "or_id o2 = or_id o1" using f(1) by (simp add: executed_from_def order_consistent_def)
  show ?thesis
  proof (cases r)
    case (Inl e)
    then show ?thesis
      using assms aw f executed_from_rejected [OF f(1)]
      by (auto simp: execute_order_def update_order_def same_book_def Let_def)
  next
    case (Inr u)
    obtain s2 r2 where rf: "record_fill_integrations t o2 (update_order o2 s1) = (s2, r2)" by fastforce
    have b: "same_book (update_order o2 s1) s2" using record_fill_integrations_book [of "update_order o2 s1" t o2] rf by simp
    define o4 where "o4 = (case r2 of Inl e \<Rightarrow> reject_order (''Execution failed: '' @ exception_text e) o2 | Inr _ \<Rightarrow> o2)"
    have "o3 = o4" "s' = update_order o4 s2"
      using assms aw Inr rf by (auto simp: execute_order_def o4_def Let_def)
    moreover have "executed_from o1 o4" "or_id o4 = or_id o1"
      using f(1) executed_from_rejected [OF f(1)] i by (auto simp: o4_def split: sum.split)
    ultimately show ?thesis using f(2) b i by (auto simp: update_order_def same_book_def)
  qed
qed

section \<open>Every operation keeps it\<close>

lemma create_order_book:
  assumes "create_order side intent q ref name now s = (s1, o1)" "oms_inv s"
  shows "or_id o1 = os_next s + 1" "or_status o1 = CREATED" "or_fill o1 = None" "or_broker_id o1 = None"
    "or_quantity o1 = q" "or_intent o1 = intent" "or_symbol o1 = name"
    "os_orders s1 = os_orders s @ [(or_id o1, o1)]" "os_next s1 = or_id o1" "os_decisions s1 = os_decisions s"
    "os_executor s1 = os_executor s" "os_positions s1 = os_positions s" "os_validator s1 = os_validator s"
    "os_require s1 = os_require s" "os_venue s1 = os_venue s"
proof -
  have "dget (os_orders s) (os_next s + 1) = None"
    using assms(2) by (simp add: dget_None_iff oms_inv_def)
  with assms(1) show "or_id o1 = os_next s + 1" "or_status o1 = CREATED" "or_fill o1 = None" "or_broker_id o1 = None"
    "or_quantity o1 = q" "or_intent o1 = intent" "or_symbol o1 = name"
    "os_orders s1 = os_orders s @ [(or_id o1, o1)]" "os_next s1 = or_id o1" "os_decisions s1 = os_decisions s"
    "os_executor s1 = os_executor s" "os_positions s1 = os_positions s" "os_validator s1 = os_validator s"
    "os_require s1 = os_require s" "os_venue s1 = os_venue s"
    by (auto simp: create_order_def new_order_def Let_def dset_new)
qed

text \<open>The order a signal becomes: an entry bought with the cash, or the exit of what is held.\<close>

lemma signal_to_order_cases:
  assumes "signal_to_order g c ref now s = (s1, x)"
  obtains (none) "x = None" "s1 = s"
  | (buy) o1 where "g = SigBuy" "x = Some o1" "0 < oms_entry_quantity c ref s"
      "create_order BUY ENTRY (oms_entry_quantity c ref s) ref (cx_symbol c) now s = (s1, o1)"
  | (sell) o1 where "g = SigSell \<or> g = SigExit" "x = Some o1" "0 < cx_quantity c"
      "create_order SELL EXIT (cx_quantity c) ref (cx_symbol c) now s = (s1, o1)"
  using assms by (cases g) (auto simp: signal_to_order_def Let_def split: if_splits prod.splits)

lemma validate_order_risk_frame:
  assumes "validate_order_risk f2 now o1 ref s = (s', c)"
  shows "os_orders s' = os_orders s" "os_next s' = os_next s" "os_positions s' = os_positions s"
    "os_executor s' = os_executor s" "os_venue s' = os_venue s"
    "os_decisions s' = os_decisions s @
       [\<lparr>rd_order = or_id o1, rd_passed = rc_passed c, rd_reason = rc_reason c, rd_rule = rc_rule c\<rparr>]"
  using assms by (auto simp: validate_order_risk_def Let_def split: prod.splits if_splits)

text \<open>A new order and its decision extend the book; a refused one is stored rejected.\<close>

lemma new_decision_inv:
  assumes "oms_inv s" and o1: "or_id o1 = os_next s + 1" "or_status o1 = CREATED" "or_fill o1 = None" "or_broker_id o1 = None"
    and s2: "os_orders s2 = os_orders s @ [(or_id o1, o1)]" "os_next s2 = or_id o1"
      "os_decisions s2 = os_decisions s @ [d]" "rd_order d = or_id o1"
    and o2: "o2 = (if rd_passed d then o1 else reject_order x o1)"
  shows "oms_inv (update_order o2 s2)"
proof -
  have n: "0 \<le> os_next s" "dkeys (os_orders s) = [1..os_next s]" "map rd_order (os_decisions s) = [1..os_next s]"
    using assms(1) by (simp_all add: oms_inv_def)
  have fresh: "dget (os_orders s) (os_next s + 1) = None" by (simp add: dget_None_iff n(2))
  have i2: "or_id o2 = os_next s + 1" using o1 o2 by simp
  have upd: "dset (os_next s + 1) o2 (os_orders s @ [(os_next s + 1, o1)]) = os_orders s @ [(os_next s + 1, o2)]"
    using fresh dset_new [OF fresh, of o1] dset_new [OF fresh, of o2] by (metis update_last)
  have upto: "[1..os_next s + 1] = [1..os_next s] @ [os_next s + 1]" using n(1) by (simp add: upto_rec2)
  define D where "D = os_orders (update_order o2 s2)"
  have D: "D = os_orders s @ [(os_next s + 1, o2)]" by (simp add: D_def update_order_def s2 o1(1) i2 upd)
  have keys: "dkeys D = [1..os_next s + 1]" by (simp add: D n(2) upto)
  have get: "dget D i = (if i = os_next s + 1 then Some o2 else dget (os_orders s) i)" for i
    using fresh by (simp add: D map_add_def split: option.split)
  have old: "rd_order e \<noteq> os_next s + 1" if "e \<in> set (os_decisions s)" for e
  proof -
    have "rd_order e \<in> set (map rd_order (os_decisions s))" using that by auto
    then show ?thesis by (simp only: n(3)) simp
  qed
  have c2: "order_consistent (os_next s + 1) o2" "rd_passed d \<or> refused_for_good (Some o2)"
    using o1 o2 by (auto simp: order_consistent_def refused_for_good_def reject_order_def)
  have nd: "os_next (update_order o2 s2) = os_next s + 1" "os_decisions (update_order o2 s2) = os_decisions s @ [d]"
    by (simp_all add: update_order_def s2 o1(1))
  have cons: "order_consistent i x" if "dget D i = Some x" for i x
    using that assms(1) c2(1) by (auto simp: get oms_inv_def split: if_splits)
  have ref: "refused_for_good (dget D (rd_order e))" if "e \<in> set (os_decisions s @ [d])" "\<not> rd_passed e" for e
    using that assms(1) c2(2) old [of e] s2(4) o1(1) unfolding get by (auto simp: oms_inv_def)
  have "map rd_order (os_decisions s @ [d]) = [1..os_next s + 1]" by (simp add: n(3) upto s2(4) o1(1))
  then show ?thesis
    unfolding oms_inv_def nd D_def [symmetric] using keys cons ref n(1) by (intro conjI allI ballI impI) auto
qed

lemma process_signal_cases:
  assumes "process_signal fs f2 br clock g c ref now s = Some (s', r)"
  obtains (nothing) "r = None" "s' = s"
  | (refused) s1 o1 s2 chk where "g \<noteq> SigHold" "symbol_allowed c s" "signal_to_order g c ref now s = (s1, Some o1)"
      "validate_order_risk f2 now o1 ref s1 = (s2, chk)" "\<not> rc_passed chk"
      "r = Some (reject_order (rc_reason chk) o1)" "s' = update_order (reject_order (rc_reason chk) o1) s2"
  | (executed) s1 o1 s2 chk o3 where "g \<noteq> SigHold" "symbol_allowed c s" "signal_to_order g c ref now s = (s1, Some o1)"
      "validate_order_risk f2 now o1 ref s1 = (s2, chk)" "rc_passed chk"
      "execute_order fs br clock o1 ref now s2 = Some (s', o3)" "r = Some o3"
proof (cases "g = SigHold \<or> \<not> symbol_allowed c s")
  case True
  with assms have "r = None" "s' = s" by (auto simp: process_signal_def)
  then show ?thesis by (rule nothing)
next
  case False
  obtain s1 x where so: "signal_to_order g c ref now s = (s1, x)" by fastforce
  show ?thesis
  proof (cases x)
    case None
    with so have "s1 = s" by (auto elim: signal_to_order_cases)
    with assms False so None have "r = None" "s' = s" by (auto simp: process_signal_def)
    then show ?thesis by (rule nothing)
  next
    case (Some o1)
    obtain s2 chk where v: "validate_order_risk f2 now o1 ref s1 = (s2, chk)" by fastforce
    show ?thesis
    proof (cases "rc_passed chk")
      case True
      then show ?thesis
        using assms False so Some v executed by (auto simp: process_signal_def split: option.splits)
    next
      case nf: False
      then show ?thesis
        using assms False so Some v refused by (auto simp: process_signal_def Let_def)
    qed
  qed
qed

lemma signal_to_order_book:
  assumes "signal_to_order g c ref now s = (s1, Some o1)" "oms_inv s"
  shows "or_id o1 = os_next s + 1" "or_status o1 = CREATED" "or_fill o1 = None" "or_broker_id o1 = None"
    "os_orders s1 = os_orders s @ [(or_id o1, o1)]" "os_next s1 = or_id o1" "os_decisions s1 = os_decisions s"
    "os_executor s1 = os_executor s" "os_positions s1 = os_positions s" "os_validator s1 = os_validator s"
    "os_require s1 = os_require s"
  using assms(1) by (cases rule: signal_to_order_cases; use create_order_book [OF _ assms(2)] in auto)+

lemma process_signal_inv:
  assumes "oms_inv s" "process_signal fs f2 br clock g c ref now s = Some (s', r)"
  shows "oms_inv s'"
  using assms(2)
proof (cases rule: process_signal_cases)
  case nothing
  then show ?thesis using assms(1) by simp
next
  case (refused s1 o1 s2 chk)
  note o1 = signal_to_order_book [OF refused(3) assms(1)] and v = validate_order_risk_frame [OF refused(4)]
  show ?thesis
    unfolding refused(7)
    by (rule new_decision_inv [OF assms(1) o1(1-4), where d = "\<lparr>rd_order = or_id o1, rd_passed = rc_passed chk,
          rd_reason = rc_reason chk, rd_rule = rc_rule chk\<rparr>" and x = "rc_reason chk"]) (simp_all add: v o1 refused(5))
next
  case (executed s1 o1 s2 chk o3)
  note o1 = signal_to_order_book [OF executed(3) assms(1)] and v = validate_order_risk_frame [OF executed(4)]
  have "oms_inv (update_order o1 s2)"
    by (rule new_decision_inv [OF assms(1) o1(1-4), where d = "\<lparr>rd_order = or_id o1, rd_passed = rc_passed chk,
          rd_reason = rc_reason chk, rd_rule = rc_rule chk\<rparr>" and x = "[]"]) (simp_all add: v o1 executed(5))
  moreover have "dget (os_orders (update_order o1 s2)) (or_id o1) = Some o1" by (simp add: update_order_def dget_dset)
  moreover have "executed_from o1 o3" "same_book (update_order o3 s2) s'"
    using execute_order_book [OF executed(6)] by simp_all
  ultimately have "oms_inv (update_order o3 (update_order o1 s2))" "or_id o3 = or_id o1"
    using update_order_inv [of "update_order o1 s2" "or_id o1" o1 o3] o1(2)
    by (simp_all add: executed_from_def order_consistent_def)
  moreover have "same_book (update_order o3 (update_order o1 s2)) (update_order o3 s2)"
    using \<open>or_id o3 = or_id o1\<close> by (simp add: same_book_def update_order_def)
  ultimately show ?thesis using same_book_inv \<open>same_book (update_order o3 s2) s'\<close> by blast
qed

lemma oms_cancel_inv:
  assumes "oms_inv s"
  shows "oms_inv (fst (oms_cancel br i s))"
proof (cases "dget (os_orders s) i")
  case None
  then show ?thesis using assms by (simp add: oms_cancel_def)
next
  case (Some o0)
  have c0: "order_consistent i o0" using assms Some by (simp add: oms_inv_def)
  obtain v o' d where ca: "cancel_at_broker br o0 (os_venue s) = (v, o', d)" by (metis prod_cases3)
  have i': "or_id o' = i"
    using ca c0 by (auto simp: cancel_at_broker_def apply_broker_state_def Let_def order_consistent_def
        split: prod.splits sum.splits if_splits)
  define s1 where "s1 = (if os_broker s then s\<lparr>os_venue := v, os_log := os_log s @ [d]\<rparr> else s)"
  define o2 where "o2 = (let o1 = (if os_broker s then o' else o0) in if or_status o1 = CANCELLED then o1 else cancel_order o1)"
  have e: "fst (oms_cancel br i s) = (if or_status o0 \<notin> {CREATED, PENDING} then s else update_order o2 s1)"
    using Some ca by (auto simp: oms_cancel_def s1_def o2_def Let_def)
  have "order_consistent i o2" using c0 i' by (auto simp: o2_def Let_def order_consistent_def)
  moreover have "same_book s s1" by (simp add: s1_def same_book_def)
  ultimately show ?thesis
    using assms Some update_order_inv [of s1 i o0 o2] same_book_inv [of s s1]
    by (auto simp: e same_book_def)
qed

lemma synchronize_order_consistent:
  assumes "synchronize_order br o0 v = (v', o1, d)" "order_consistent i o0" "or_status o0 \<noteq> FILLED"
  shows "order_consistent i o1"
  using assms by (auto simp: synchronize_order_def apply_broker_state_def Let_def order_consistent_def
      split: option.splits if_splits prod.splits sum.splits)

text \<open>The orders still to be synchronised are the stored ones, each once, and none has ended.\<close>

lemma synchronize_all_inv:
  assumes "oms_inv s" "distinct (map or_id os)"
    and "\<And>o0. o0 \<in> set os \<Longrightarrow> dget (os_orders s) (or_id o0) = Some o0 \<and> or_status o0 \<notin> {FILLED, CANCELLED, REJECTED}"
  shows "oms_inv (fst (synchronize_all br os s))"
  using assms
proof (induction os arbitrary: s)
  case (Cons o0 os)
  obtain v o1 d where so: "synchronize_order br o0 (os_venue s) = (v, o1, d)" by (metis prod_cases3)
  define s1 where "s1 = update_order o1 (s\<lparr>os_venue := v, os_log := os_log s @ [d]\<rparr>)"
  have o0: "dget (os_orders s) (or_id o0) = Some o0" "or_status o0 \<notin> {FILLED, CANCELLED, REJECTED}"
    using Cons.prems(3) [of o0] by simp_all
  have "order_consistent (or_id o0) o0" using Cons.prems(1) o0(1) by (simp add: oms_inv_def)
  then have c: "order_consistent (or_id o0) o1" using synchronize_order_consistent [OF so] o0(2) by simp
  have b: "same_book s (s\<lparr>os_venue := v, os_log := os_log s @ [d]\<rparr>)" by (simp add: same_book_def)
  have i1: "oms_inv s1"
    unfolding s1_def
    by (rule update_order_inv [of _ "or_id o0" o0]) (use Cons.prems(1) same_book_inv [OF b] o0 c in simp_all)
  have "or_id o1 = or_id o0" using c by (simp add: order_consistent_def)
  then have "dget (os_orders s1) (or_id x) = Some x \<and> or_status x \<notin> {FILLED, CANCELLED, REJECTED}"
    if "x \<in> set os" for x
    using that Cons.prems(2) Cons.prems(3) [of x] by (auto simp: s1_def update_order_def dget_dset image_iff)
  then have "oms_inv (fst (synchronize_all br os s1))" using Cons.IH [OF i1] Cons.prems(2) by simp
  then show ?case using so by (auto simp: s1_def Let_def split: prod.split)
qed simp

lemma synchronize_orders_inv:
  assumes "oms_inv s"
  shows "oms_inv (fst (synchronize_orders br s))"
proof -
  have d: "distinct (dkeys (os_orders s))" and c: "\<And>i o1. dget (os_orders s) i = Some o1 \<Longrightarrow> or_id o1 = i"
    using assms by (auto simp: oms_inv_def order_consistent_def)
  have get: "dget (os_orders s) (or_id o0) = Some o0" if "o0 \<in> set (dvals (os_orders s))" for o0
    using that d c by (metis (no_types, lifting) imageE list.set_map map_of_eq_Some_iff prod.collapse)
  have "map or_id (dvals (os_orders s)) = dkeys (os_orders s)"
  proof -
    have "or_id (snd x) = fst x" if "x \<in> set (os_orders s)" for x
      using that d c [of "fst x" "snd x"] by (simp add: map_of_eq_Some_iff)
    then show ?thesis by simp
  qed
  with d have "distinct (map or_id (dvals (os_orders s)))" by (simp only:)
  then have "distinct (map or_id (active_orders s))" by (simp add: active_orders_def distinct_map_filter)
  then show ?thesis
    using assms get by (auto simp: synchronize_orders_def active_orders_def intro!: synchronize_all_inv)
qed

lemma oms_modify_inv:
  assumes "oms_inv s"
  shows "oms_inv (fst (oms_modify i q p s))"
proof (cases "dget (os_orders s) i")
  case None
  then show ?thesis using assms by (simp add: oms_modify_def)
next
  case (Some o0)
  have c0: "order_consistent i o0" using assms Some by (simp add: oms_inv_def)
  have keep: "oms_inv (update_order o1 s1)"
    if "order_consistent i o1" "same_book s s1" "or_status o0 \<in> {CREATED, PENDING}" for o1 s1
    using update_order_inv [of s1 i o0 o1] that assms Some same_book_inv [OF that(2)] by (auto simp: same_book_def)
  obtain o1 r where m: "modify_at_broker q p o0 = (o1, r)" by fastforce
  have "order_consistent i o1"
    using m c0 by (auto simp: modify_at_broker_def Let_def order_consistent_def split: if_splits option.splits)
  then have t: "order_consistent i o1" "order_consistent i (o1\<lparr>or_reference := x\<rparr>)" "order_consistent i (o0\<lparr>or_quantity := x\<rparr>)"
    "order_consistent i (o0\<lparr>or_quantity := x, or_reference := y\<rparr>)" "order_consistent i (o0\<lparr>or_reference := x\<rparr>)" for x y
    using c0 by (simp_all add: order_consistent_def)
  show ?thesis
  proof (cases "or_status o0 \<in> {CREATED, PENDING}")
    case True
    have e: "fst (oms_modify i q p s) = (if os_broker s then
        (case r of Inl e \<Rightarrow> update_order o1 s
         | Inr d \<Rightarrow> update_order (case p of None \<Rightarrow> o1 | Some x \<Rightarrow> o1\<lparr>or_reference := x\<rparr>) (s\<lparr>os_log := os_log s @ [d]\<rparr>))
      else update_order (case (q, p) of (None, None) \<Rightarrow> o0 | (None, Some y) \<Rightarrow> o0\<lparr>or_reference := y\<rparr>
         | (Some x, None) \<Rightarrow> o0\<lparr>or_quantity := x\<rparr> | (Some x, Some y) \<Rightarrow> o0\<lparr>or_quantity := x, or_reference := y\<rparr>) s)"
      using Some True m by (auto simp: oms_modify_def Let_def split: sum.split option.split)
    have b: "same_book s (s\<lparr>os_log := l\<rparr>)" for l by (simp add: same_book_def)
    show ?thesis
      unfolding e using keep [OF _ same_book_refl True] keep [OF _ b True] t c0 by (auto split: sum.split option.split)
  next
    case False
    then show ?thesis using Some assms by (simp add: oms_modify_def)
  qed
qed

section \<open>The system as a state machine\<close>

text \<open>One step: a call of the system, a synchronisation of positions, or a price for a position.\<close>

inductive oms_step :: "(rat \<Rightarrow> pystr) \<Rightarrow> (rat \<Rightarrow> pystr) \<Rightarrow> 'b broker \<Rightarrow> 'b oms \<Rightarrow> 'b oms \<Rightarrow> bool"
  for fs f2 br where
  Signal: "process_signal fs f2 br clock g c ref now s = Some (s', r) \<Longrightarrow> oms_step fs f2 br s s'"
| Cancel: "oms_step fs f2 br s (fst (oms_cancel br i s))"
| Synchronize: "oms_step fs f2 br s (fst (synchronize_orders br s))"
| Modify: "oms_step fs f2 br s (fst (oms_modify i q p s))"
| SyncPositions: "os_positions s = Some y \<Longrightarrow> ps_sync br now (os_venue s) y = (v, y', rs) \<Longrightarrow>
    oms_step fs f2 br s (s\<lparr>os_venue := v, os_positions := Some y'\<rparr>)"
| Price: "os_positions s = Some y \<Longrightarrow> oms_step fs f2 br s (s\<lparr>os_positions := Some (ps_update_price now name p y)\<rparr>)"

lemma oms_step_inv: "oms_step fs f2 br s s' \<Longrightarrow> oms_inv s \<Longrightarrow> oms_inv s'"
proof (induction rule: oms_step.induct)
  case (Signal clock g c ref now s s' r)
  from process_signal_inv [OF Signal.prems Signal.hyps] show ?case .
next
  case (SyncPositions s y now v y' rs)
  have "same_book s (s\<lparr>os_venue := v, os_positions := Some y'\<rparr>)" by (simp add: same_book_def)
  from same_book_inv [OF this] SyncPositions.prems show ?case by simp
next
  case (Price s y now name p)
  have "same_book s (s\<lparr>os_positions := Some (ps_update_price now name p y)\<rparr>)" by (simp add: same_book_def)
  from same_book_inv [OF this] Price.prems show ?case by simp
qed (simp_all add: oms_cancel_inv synchronize_orders_inv oms_modify_inv)

text \<open>C16: However the system is driven and whatever its broker answers, orders are numbered without a gap,
  each has exactly one risk decision, every filled order has its fill, and an order that the risk check
  refused stays rejected and never reaches a broker.\<close>

theorem oms_stays_consistent:
  assumes "(oms_step fs f2 br)\<^sup>*\<^sup>* (new_oms x broker manager ps fraction value allowed req v) s"
  shows "oms_inv s"
  using assms
proof (induction rule: rtranclp_induct)
  case base
  show ?case by (simp add: new_oms_def oms_inv_def)
next
  case (step s s')
  from oms_step_inv [OF step.hyps(2) step.IH] show ?case .
qed

theorem oms_stays_consistent_witness:
  "\<exists>s. oms_step (\<lambda>x. ''1'') (\<lambda>x. ''1'') demo_broker (demo_oms (LiveExec demo_live) (demo_answer B_FILLED 2)) s \<and> oms_inv s"
proof -
  have "clock_advances 1000000 demo_clock" by (simp add: clock_advances_def demo_clock_def)
  then obtain s r where "process_signal (\<lambda>x. ''1'') (\<lambda>x. ''1'') demo_broker demo_clock SigBuy demo_tick_context 100 5
      (demo_oms (LiveExec demo_live) (demo_answer B_FILLED 2)) = Some (s, r)"
    using process_signal_returns by blast
  then have "oms_step (\<lambda>x. ''1'') (\<lambda>x. ''1'') demo_broker (demo_oms (LiveExec demo_live) (demo_answer B_FILLED 2)) s"
    by (rule oms_step.Signal)
  moreover from this have "oms_inv s"
    by (intro oms_stays_consistent [OF r_into_rtranclp]) (simp add: demo_oms_def)
  ultimately show ?thesis by blast
qed

section \<open>What reaches an executor\<close>

lemma first_failure_passes: "rc_passed (first_failure cs) \<Longrightarrow> c \<in> set cs \<Longrightarrow> rc_passed c"
  by (auto simp: first_failure_def find_None_iff find_Some_iff split: option.splits)

lemma validated_order:
  assumes "rv_validate f2 now o1 ref ps v = (v', c)" "rc_passed c"
  shows "rv_max_value v = Some m \<Longrightarrow> fmul (or_quantity o1) ref \<le> m"
    and "ps = Some y \<Longrightarrow> or_intent o1 = ENTRY \<Longrightarrow> int (length (ps_positions y)) < rv_max_open v"
    and "ps = Some y \<Longrightarrow> or_side o1 = BUY \<Longrightarrow> dget (ps_positions y) (or_symbol o1) = Some r \<Longrightarrow> rv_max_value v = Some m \<Longrightarrow>
      fmul (fadd (pr_quantity r) (or_quantity o1)) ref \<le> m"
proof -
  define w where "w = rv_maybe_reset now v"
  have w: "rv_max_value w = rv_max_value v" "rv_max_open w = rv_max_open v"
    by (simp_all add: w_def rv_maybe_reset_def)
  define cs where "cs = [check_order_value f2 w o1 ref, check_position_count w ps o1, check_daily_loss f2 w,
      check_drawdown f2 w ps] @ (case ps of None \<Rightarrow> [] | Some y \<Rightarrow> [check_broker_positions f2 w y o1 ref])
    @ (if rv_manager w then [check_strategy_rules w] else [])"
  have "c = first_failure cs"
    using assms(1) unfolding rv_validate_def Let_def w_def [symmetric] cs_def [symmetric] by simp
  with assms(2) have p: "\<And>x. x \<in> set cs \<Longrightarrow> rc_passed x" using first_failure_passes by blast
  have "rc_passed (check_order_value f2 w o1 ref)" "rc_passed (check_position_count w ps o1)"
    "\<And>y. ps = Some y \<Longrightarrow> rc_passed (check_broker_positions f2 w y o1 ref)"
    by (rule p, simp add: cs_def)+
  then show "rv_max_value v = Some m \<Longrightarrow> fmul (or_quantity o1) ref \<le> m"
    "ps = Some y \<Longrightarrow> or_intent o1 = ENTRY \<Longrightarrow> int (length (ps_positions y)) < rv_max_open v"
    "ps = Some y \<Longrightarrow> or_side o1 = BUY \<Longrightarrow> dget (ps_positions y) (or_symbol o1) = Some r \<Longrightarrow> rv_max_value v = Some m \<Longrightarrow>
      fmul (fadd (pr_quantity r) (or_quantity o1)) ref \<le> m"
    by (auto simp: check_order_value_def check_position_count_def check_broker_positions_def w pass_check_def
        fail_check_def Let_def split: if_splits)
qed

text \<open>C18: With risk validation on (\<open>os_require\<close>), an order filled by processing a signal is one for an allowed symbol
  and within the limits: its value at the reference price of the signal does not exceed the maximum, an entry was made below the limit on open positions, and a
  purchase that adds to a tracked position keeps the value of the whole within the maximum.\<close>

theorem filled_orders_respect_limits:
  assumes "oms_inv s" "os_require s" "process_signal fs f2 br clock g c ref now s = Some (s', Some o1)" "or_status o1 = FILLED"
  shows "symbol_allowed c s \<and> (\<forall>m. rv_max_value (os_validator s) = Some m \<longrightarrow> fmul (or_quantity o1) ref \<le> m) \<and>
    (\<forall>y. os_positions s = Some y \<and> or_intent o1 = ENTRY \<longrightarrow>
       int (length (ps_positions y)) < rv_max_open (os_validator s)) \<and>
    (\<forall>y r m. os_positions s = Some y \<and> or_side o1 = BUY \<and> dget (ps_positions y) (or_symbol o1) = Some r \<and>
       rv_max_value (os_validator s) = Some m \<longrightarrow> fmul (fadd (pr_quantity r) (or_quantity o1)) ref \<le> m)"
  using assms(3)
proof (cases rule: process_signal_cases)
  case nothing
  then show ?thesis by simp
next
  case (refused s1 o2 s2 chk)
  then show ?thesis using assms(4) by simp
next
  case (executed s1 o2 s2 chk o3)
  note frame = signal_to_order_book [OF executed(3) assms(1)]
  have "rv_validate f2 now o2 ref (os_positions s) (os_validator s) = (os_validator s2, chk)"
    using executed(4) assms(2) frame by (auto simp: validate_order_risk_def split: prod.splits)
  note lim = validated_order [OF this executed(5)]
  have "or_quantity o1 = or_quantity o2" "or_intent o1 = or_intent o2" "or_side o1 = or_side o2" "or_symbol o1 = or_symbol o2"
    using execute_order_book [OF executed(6)] executed(7) by (simp_all add: executed_from_def)
  with lim executed(2) show ?thesis by simp
qed

lemma demo_wait: "wait_loop demo_broker demo_live demo_clock (demo_answer B_OPEN 0) 1 (demo_answer B_FILLED 2) =
   Some (demo_answer B_FILLED 2, Inr (demo_answer B_FILLED 2))"
proof -
  have "total_seconds (demo_clock 0) (demo_clock 1) = 1"
    by (simp add: total_seconds_def demo_clock_def fdiv_def)
  moreover have "br_get demo_broker v i n = (v, Inr v)" for v i n by (simp add: demo_broker_def)
  moreover have "is_terminal (demo_answer B_FILLED 2)" by (simp add: is_terminal_def demo_answer_def)
  ultimately show ?thesis by (subst wait_loop.simps) (simp add: demo_live_def)
qed


definition demo_filled :: order where
  "demo_filled = \<lparr>or_id = 1, or_side = BUY, or_intent = ENTRY, or_quantity = 2, or_reference = 100, or_created = 5,
     or_symbol = ''BTC'', or_status = FILLED,
     or_fill = Some \<lparr>fl_price = 100, fl_quantity = 2, fl_cost = 1, fl_reference = 100, fl_side = BUY, fl_time = 7,
       fl_id = Some ''b1:1:1''\<rparr>,
     or_reject_reason = None, or_reserved = 0, or_broker_id = Some ''b1'', or_client_id = Some ''renkolab-1''\<rparr>"

definition demo_created :: order where
  "demo_created = (new_order 1 BUY ENTRY 2 100 5)\<lparr>or_symbol := ''BTC'', or_client_id := Some ''renkolab-1''\<rparr>"

lemma demo_live_execute:
  "live_execute (\<lambda>x. ''1'') demo_broker demo_live demo_clock demo_created (demo_answer B_FILLED 2) =
     Some (demo_answer B_FILLED 2, demo_filled)"
proof -
  have "br_submit demo_broker v a b q i = (v, Inr (demo_answer B_OPEN 0))" for v a b q i
    by (simp add: demo_broker_def)
  moreover have "wait_for_fill demo_broker demo_live demo_clock (demo_answer B_OPEN 0) (demo_answer B_FILLED 2) =
      Some (demo_answer B_FILLED 2, Inr (demo_answer B_FILLED 2))"
    using demo_wait by (simp add: wait_for_fill_def is_terminal_def demo_answer_def)
  ultimately have "live_execute (\<lambda>x. ''1'') demo_broker demo_live demo_clock demo_created (demo_answer B_FILLED 2) =
      Some (demo_answer B_FILLED 2, apply_broker_fill (\<lambda>x. ''1'') demo_live (demo_answer B_FILLED 2)
        ((submit_order demo_created)\<lparr>or_broker_id := Some ''b1''\<rparr>))"
    unfolding live_execute_def Let_def by (simp add: demo_answer_def)
  then show ?thesis
    by (simp add: apply_broker_fill_def demo_answer_def demo_created_def new_order_def submit_order_def complete_order_def
        demo_filled_def demo_live_def or_number_def)
qed

lemma demo_signal:
  "\<exists>s'. process_signal (\<lambda>x. ''1'') (\<lambda>x. ''1'') demo_broker demo_clock SigBuy demo_tick_context 100 5
     (demo_oms (LiveExec demo_live) (demo_answer B_FILLED 2)) = Some (s', Some demo_filled)"
proof -
  define s where "s = demo_oms (LiveExec demo_live) (demo_answer B_FILLED 2)"
  have q: "oms_entry_quantity demo_tick_context 100 s = 2"
    by (simp add: oms_entry_quantity_def demo_tick_context_def s_def demo_oms_def new_oms_def demo_simps)
  define s1 where "s1 = s\<lparr>os_next := 1, os_orders := [(1, demo_created)]\<rparr>"
  have n: "os_next s = 0" "os_orders s = []" by (simp_all add: s_def demo_oms_def new_oms_def)
  have one: "str_int 1 = ''1''" by code_simp
  have so: "signal_to_order SigBuy demo_tick_context 100 5 s = (s1, Some demo_created)"
    by (simp add: signal_to_order_def Let_def q create_order_def n s1_def demo_created_def one) (simp add: demo_tick_context_def)
  have so2: "os_executor s1 = LiveExec demo_live" "os_venue s1 = demo_answer B_FILLED 2" "os_require s1" "os_positions s1 = Some new_position_sync"
    "os_validator s1 = new_validator False (Some 1000) None None 10"
    by (simp_all add: s1_def s_def demo_oms_def new_oms_def)
  obtain s2 chk where v: "validate_order_risk (\<lambda>x. ''1'') 5 demo_created 100 s1 = (s2, chk)" by fastforce
  have "rc_passed chk"
    using v so2(3-5) by (auto simp: validate_order_risk_def rv_validate_def Let_def rv_maybe_reset_def new_validator_def
        check_order_value_def check_position_count_def check_daily_loss_def check_drawdown_def check_broker_positions_def
        first_failure_def pass_check_def fail_check_def new_position_sync_def demo_created_def new_order_def demo_simps)
  moreover have "os_executor s2 = LiveExec demo_live" "os_venue s2 = demo_answer B_FILLED 2" "os_positions s2 = Some new_position_sync"
    using validate_order_risk_frame [OF v] so2 by simp_all
  then have "\<exists>s3. execute_order (\<lambda>x. ''1'') demo_broker demo_clock demo_created 100 5 s2 = Some (s3, demo_filled)"
    using demo_live_execute
    by (simp add: execute_order_def await_executor_def record_fill_integrations_def is_filled_def demo_filled_def
        update_order_def ps_apply_fill_def new_position_sync_def Let_def)
  moreover have "symbol_allowed demo_tick_context s" by (simp add: symbol_allowed_def s_def demo_oms_def new_oms_def)
  ultimately show ?thesis
    unfolding s_def [symmetric] using so v by (auto simp: process_signal_def)
qed

theorem filled_orders_respect_limits_witness:
  "\<exists>s' o1. process_signal (\<lambda>x. ''1'') (\<lambda>x. ''1'') demo_broker demo_clock SigBuy demo_tick_context 100 5
       (demo_oms (LiveExec demo_live) (demo_answer B_FILLED 2)) = Some (s', Some o1) \<and>
     or_status o1 = FILLED \<and> or_quantity o1 = 2 \<and> fmul (or_quantity o1) 100 \<le> 1000"
proof -
  define s where "s = demo_oms (LiveExec demo_live) (demo_answer B_FILLED 2)"
  obtain s' where r: "process_signal (\<lambda>x. ''1'') (\<lambda>x. ''1'') demo_broker demo_clock SigBuy demo_tick_context 100 5 s =
      Some (s', Some demo_filled)" using demo_signal s_def by blast
  have i: "oms_inv s" "os_require s" "rv_max_value (os_validator s) = Some 1000"
    by (simp_all add: s_def demo_oms_def new_oms_def oms_inv_def new_validator_def)
  have f: "or_status demo_filled = FILLED" "or_quantity demo_filled = 2" by (simp_all add: demo_filled_def)
  from filled_orders_respect_limits [OF i(1,2) r f(1)] i(3) have "fmul (or_quantity demo_filled) 100 \<le> 1000" by blast
  then show ?thesis using r f unfolding s_def by blast
qed

section \<open>An executor that is not a coroutine\<close>

lemma await_not_live:
  assumes "\<not> is_live (os_executor s)"
  obtains s' o2 where "await_executor fs br clock o1 ref t s = Some (s', o2, Inl TypeError)" "os_positions s' = os_positions s"
    "os_validator s' = os_validator s" "0 < ref \<longrightarrow> or_fill o2 \<noteq> None"
  using assms that
  by (cases "os_executor s")
    (force simp: await_executor_def simulated_execute_def paper_execute_def Let_def split: prod.splits)+

text \<open>With the simulated or the paper executor no order is ever filled: awaiting the finished order raises,
  so the order is rejected although the executor has completed it with a fill, and neither the positions
  nor the daily profit learn of it.\<close>

theorem plain_executor_never_fills:
  assumes "\<not> is_live (os_executor s)" "oms_inv s"
  shows "\<exists>s' r. process_signal fs f2 br clock g c ref now s = Some (s', r) \<and> os_positions s' = os_positions s \<and>
    (\<forall>o1. r = Some o1 \<longrightarrow> or_status o1 = REJECTED \<and>
       (0 < ref \<and> rd_passed (last (os_decisions s')) \<longrightarrow> or_fill o1 \<noteq> None))"
proof (cases "g = SigHold \<or> \<not> symbol_allowed c s")
  case True
  then show ?thesis by (auto simp: process_signal_def)
next
  case ok: False
  obtain s1 x where so: "signal_to_order g c ref now s = (s1, x)" by fastforce
  show ?thesis
  proof (cases x)
    case None
    with so have "s1 = s" by (auto elim: signal_to_order_cases)
    with ok so None show ?thesis by (simp add: process_signal_def)
  next
    case (Some o1)
    note b = signal_to_order_book [OF so [unfolded Some] assms(2)]
    obtain s2 chk where v: "validate_order_risk f2 now o1 ref s1 = (s2, chk)" by fastforce
    note vf = validate_order_risk_frame [OF v]
    show ?thesis
    proof (cases "rc_passed chk")
      case False
      then show ?thesis using ok so Some v vf b by (simp add: process_signal_def update_order_def Let_def)
    next
      case True
      have "\<not> is_live (os_executor s2)" using assms(1) vf(4) b(8) by simp
      then obtain s3 o2 where aw: "await_executor fs br clock o1 ref now s2 = Some (s3, o2, Inl TypeError)"
        "os_positions s3 = os_positions s2" "0 < ref \<longrightarrow> or_fill o2 \<noteq> None" by (rule await_not_live)
      have "same_book s2 s3" using await_executor_from [OF aw(1)] by simp
      with True aw ok so Some v vf b show ?thesis
        by (auto simp: process_signal_def execute_order_def update_order_def same_book_def Let_def)
    qed
  qed
qed

theorem plain_executor_never_fills_witness:
  "\<exists>s' r. process_signal (\<lambda>x. ''1'') (\<lambda>x. ''1'') demo_broker demo_clock SigBuy demo_tick_context 100 5
     (demo_oms (Simulated ZeroSlippage ZeroBrokerage) (demo_answer B_FILLED 2)) = Some (s', r) \<and>
     os_positions s' = Some new_position_sync"
proof -
  define s where "s = demo_oms (Simulated ZeroSlippage ZeroBrokerage) (demo_answer B_FILLED 2)"
  have "\<not> is_live (os_executor s)" "oms_inv s" "os_positions s = Some new_position_sync"
    by (simp_all add: s_def demo_oms_def new_oms_def oms_inv_def)
  with plain_executor_never_fills [of s] show ?thesis unfolding s_def [symmetric] by metis
qed

section \<open>Fills the system never learns of\<close>

text \<open>C19: A fill is lost on three paths. Cancelling an order that the broker reports filled marks it cancelled;
  synchronising an order that the broker reports filled leaves its status; and an order that the broker
  cancelled after filling a part of it is cancelled as a whole. In each case the order has no fill and
  the tracked positions stay as they were.\<close>

theorem broker_fills_are_lost:
  assumes "dget (os_orders s) i = Some o1" "or_status o1 = PENDING" "or_fill o1 = None" "os_broker s"
    and "\<And>v k. \<exists>v' b. br_cancel br v k (or_symbol o1) = (v', Inr b) \<and> bo_status b = B_FILLED"
    and "\<And>v k. \<exists>v' b. br_get br v k (or_symbol o1) = (v', Inr b) \<and> bo_status b = B_FILLED"
    and "bo_status part = B_CANCELLED" "0 < bo_filled part" "or_id o1 = i"
  shows "(\<exists>s' o2. oms_cancel br i s = (s', True) \<and> dget (os_orders s') i = Some o2 \<and> or_status o2 = CANCELLED \<and>
      or_fill o2 = None \<and> os_positions s' = os_positions s \<and> os_validator s' = os_validator s) \<and>
    (or_status (fst (snd (synchronize_order br o1 v))) = PENDING \<and> or_fill (fst (snd (synchronize_order br o1 v))) = None) \<and>
    (or_status (apply_broker_fill fs lv part o1) = CANCELLED \<and> or_fill (apply_broker_fill fs lv part o1) = None)"
proof (intro conjI)
  define k where "k = or_opt_text (or_broker_id o1) (str_int (or_id o1))"
  obtain v' b where b: "br_cancel br (os_venue s) k (or_symbol o1) = (v', Inr b)" "bo_status b = B_FILLED"
    using assms(5) by blast
  define o2 where "o2 = o1\<lparr>or_broker_id := Some (bo_id b)\<rparr>"
  obtain d where ca: "cancel_at_broker br o1 (os_venue s) = (v', o2, d)"
    using b by (simp add: cancel_at_broker_def k_def [symmetric] apply_broker_state_def o2_def Let_def)
  have o2: "or_id o2 = i" "or_status o2 = PENDING" "or_fill o2 = None" using assms(2,3,9) by (simp_all add: o2_def)
  have "oms_cancel br i s = (update_order (cancel_order o2) (s\<lparr>os_venue := v', os_log := os_log s @ [d]\<rparr>), True)"
    using assms(1,2,4) ca o2 by (simp add: oms_cancel_def Let_def)
  then show "\<exists>s' o2. oms_cancel br i s = (s', True) \<and> dget (os_orders s') i = Some o2 \<and> or_status o2 = CANCELLED \<and>
      or_fill o2 = None \<and> os_positions s' = os_positions s \<and> os_validator s' = os_validator s"
    using o2 by (simp add: update_order_def dget_dset)
  have "or_status (fst (snd (synchronize_order br o1 v))) = PENDING \<and> or_fill (fst (snd (synchronize_order br o1 v))) = None"
  proof (cases "or_broker_id o1")
    case None
    then show ?thesis using assms(2,3) by (simp add: synchronize_order_def)
  next
    case (Some j)
    obtain v'' b' where "br_get br v j (or_symbol o1) = (v'', Inr b')" "bo_status b' = B_FILLED" using assms(6) by blast
    then show ?thesis using assms(2,3) Some by (simp add: synchronize_order_def apply_broker_state_def Let_def)
  qed
  then show "or_status (fst (snd (synchronize_order br o1 v))) = PENDING" "or_fill (fst (snd (synchronize_order br o1 v))) = None"
    by simp_all
  show "or_status (apply_broker_fill fs lv part o1) = CANCELLED" "or_fill (apply_broker_fill fs lv part o1) = None"
    using assms(3,7) by (simp_all add: apply_broker_fill_def Let_def)
qed

definition filled_broker :: "unit broker" where
  "filled_broker = \<lparr>br_submit = (\<lambda>v name side q cid. (v, Inr (demo_answer B_OPEN 0))),
     br_get = (\<lambda>v i name. (v, Inr (demo_answer B_FILLED 2))), br_cancel = (\<lambda>v i name. (v, Inr (demo_answer B_FILLED 2))),
     br_positions = (\<lambda>v name. (v, Inr []))\<rparr>"

definition demo_pending :: order where
  "demo_pending = (submit_order demo_created)\<lparr>or_broker_id := Some ''b1''\<rparr>"

definition waiting_oms :: "unit oms" where
  "waiting_oms = (new_oms (LiveExec demo_live) True False (Some new_position_sync) 1 (Some 1000) None True ())
     \<lparr>os_orders := [(1, demo_pending)], os_next := 1\<rparr>"

theorem broker_fills_are_lost_witness:
  "\<exists>s' o2. oms_cancel filled_broker 1 waiting_oms = (s', True) \<and> dget (os_orders s') 1 = Some o2 \<and>
     or_status o2 = CANCELLED \<and> or_fill o2 = None"
proof -
  have w: "dget (os_orders waiting_oms) 1 = Some demo_pending" "or_status demo_pending = PENDING"
    "or_fill demo_pending = None" "os_broker waiting_oms"
    by (simp_all add: waiting_oms_def new_oms_def demo_pending_def demo_created_def new_order_def)
  have b: "\<exists>v' b. br_cancel filled_broker v k n = (v', Inr b) \<and> bo_status b = B_FILLED"
    "\<exists>v' b. br_get filled_broker v k n = (v', Inr b) \<and> bo_status b = B_FILLED" for v k n
    by (simp_all add: filled_broker_def demo_answer_def)
  have p: "bo_status (demo_answer B_CANCELLED 1) = B_CANCELLED" "0 < bo_filled (demo_answer B_CANCELLED 1)" "or_id demo_pending = 1"
    by (simp_all add: demo_answer_def demo_pending_def demo_created_def new_order_def)
  from broker_fills_are_lost [OF w b p, THEN conjunct1] show ?thesis by blast
qed

section \<open>Tracked positions against the broker's\<close>

lemma ps_update_from_broker_get:
  "dget (ps_positions (ps_update_from_broker now y p)) s =
     (if s = bp_symbol p then
        Some (case dget (ps_positions y) s of
           Some r \<Rightarrow> r\<lparr>pr_quantity := bp_quantity p, pr_average := bp_average p, pr_price := bp_price p,
             pr_unrealized := (case bp_unrealized p of None \<Rightarrow> 0 | Some u \<Rightarrow> u), pr_realized := bp_realized p, pr_updated := now\<rparr>
         | None \<Rightarrow> \<lparr>pr_symbol = s, pr_side = bp_side p, pr_quantity = bp_quantity p, pr_average = bp_average p,
             pr_price = bp_price p, pr_unrealized = (case bp_unrealized p of None \<Rightarrow> 0 | Some u \<Rightarrow> u),
             pr_realized = bp_realized p, pr_opened = now, pr_updated = now, pr_broker_id = Some s\<rparr>)
      else dget (ps_positions y) s)"
  by (simp add: ps_update_from_broker_def dget_dset split: option.split)

text \<open>What a record shows of a report.\<close>

definition shows_report :: "broker_position \<Rightarrow> position_record \<Rightarrow> bool" where
  "shows_report p r \<longleftrightarrow> pr_quantity r = bp_quantity p \<and> pr_average r = bp_average p \<and> pr_price r = bp_price p \<and>
     pr_unrealized r = (case bp_unrealized p of None \<Rightarrow> 0 | Some u \<Rightarrow> u) \<and> pr_realized r = bp_realized p"

text \<open>The first and the last of a list of reports on a symbol.\<close>

definition first_report :: "broker_position list \<Rightarrow> pystr \<Rightarrow> broker_position option" where
  "first_report ps s = List.find (\<lambda>p. bp_symbol p = s) ps"

definition last_report :: "broker_position list \<Rightarrow> pystr \<Rightarrow> broker_position option" where
  "last_report ps s = List.find (\<lambda>p. bp_symbol p = s) (rev ps)"

lemma last_report_snoc: "last_report (ps @ [p]) s = (if bp_symbol p = s then Some p else last_report ps s)"
  by (simp add: last_report_def)

lemma find_append: "List.find P (xs @ ys) = (case List.find P xs of None \<Rightarrow> List.find P ys | Some x \<Rightarrow> Some x)"
  by (induction xs) simp_all

lemma first_report_snoc:
  "first_report (ps @ [p]) s = (case first_report ps s of
     None \<Rightarrow> (if bp_symbol p = s then Some p else None) | Some x \<Rightarrow> Some x)"
  by (simp add: first_report_def find_append split: option.split)

lemma report_none: "last_report ps s = None \<longleftrightarrow> s \<notin> bp_symbol ` set ps" "first_report ps s = None \<longleftrightarrow> s \<notin> bp_symbol ` set ps"
  by (auto simp: last_report_def first_report_def find_None_iff)

lemma updates_from_broker:
  "(case last_report ps s of
      None \<Rightarrow> dget (ps_positions (foldl (ps_update_from_broker now) y ps)) s = dget (ps_positions y) s
    | Some p \<Rightarrow> \<exists>r. dget (ps_positions (foldl (ps_update_from_broker now) y ps)) s = Some r \<and> shows_report p r \<and>
        pr_side r = (case dget (ps_positions y) s of Some r0 \<Rightarrow> pr_side r0 | None \<Rightarrow> bp_side (the (first_report ps s))))"
proof (induction ps rule: rev_induct)
  case Nil
  then show ?case by (simp add: last_report_def)
next
  case (snoc p ps)
  show ?case
  proof (cases "bp_symbol p = s")
    case False
    then show ?thesis
      using snoc report_none [of ps s]
      by (auto simp: last_report_snoc first_report_snoc ps_update_from_broker_get split: option.splits)
  next
    case True
    then show ?thesis
      using snoc report_none [of ps s]
      by (auto simp: last_report_snoc first_report_snoc ps_update_from_broker_get shows_report_def split: option.splits)
  qed
qed

lemma dget_filter: "dget (filter (\<lambda>e. fst e \<in> A) d) s = (if s \<in> A then dget d s else None)"
  by (induction d) auto

text \<open>After a reconciliation the tracked symbols are exactly those the broker reports with a positive
  quantity, and each shows the figures of the last report on it; but the side is that of the record
  there was, and only a new record takes it from the (first) report.\<close>

theorem reconciled_positions_mirror_broker:
  "let live = filter (\<lambda>p. 0 < bp_quantity p) ps in
   case dget (ps_positions (ps_reconcile now ps y)) s of
     None \<Rightarrow> s \<notin> bp_symbol ` set live
   | Some r \<Rightarrow> s \<in> bp_symbol ` set live \<and> shows_report (the (last_report live s)) r \<and>
      pr_side r = (case dget (ps_positions y) s of Some r0 \<Rightarrow> pr_side r0 | None \<Rightarrow> bp_side (the (first_report live s)))"
proof -
  define live where "live = filter (\<lambda>p. 0 < bp_quantity p) ps"
  show ?thesis
    using updates_from_broker [where ps = live and s = s and now = now and y = y] report_none(1) [of live s]
    unfolding Let_def live_def [symmetric] ps_reconcile_def
    by (auto simp: live_def [symmetric] dget_filter split: option.splits)
qed

text \<open>So a position that turned short at the broker is still tracked as long.\<close>

lemma side_is_stale:
  assumes "dget (ps_positions y) (bp_symbol p) = Some r0" "pr_side r0 = ''long''" "bp_side p = ''short''" "0 < bp_quantity p"
  shows "\<exists>r. dget (ps_positions (ps_reconcile now [p] y)) (bp_symbol p) = Some r \<and> pr_side r = ''long'' \<and>
    pr_quantity r = bp_quantity p"
proof -
  have "ps_positions (ps_reconcile now [p] y) =
      filter (\<lambda>e. fst e \<in> {bp_symbol p}) (ps_positions (ps_update_from_broker now y p))"
    using assms(4) by (simp add: ps_reconcile_def Let_def)
  then have "dget (ps_positions (ps_reconcile now [p] y)) (bp_symbol p) =
      dget (ps_positions (ps_update_from_broker now y p)) (bp_symbol p)"
    by (simp only: dget_filter) simp
  then show ?thesis using assms(1,2) by (simp add: ps_update_from_broker_get)
qed

text \<open>A purchase counts as a loss of the whole amount paid until something is sold.\<close>

lemma buying_counts_as_loss:
  assumes "rv_max_loss v = Some m" "rv_pnl v = 0" "fl_side f = BUY" "m < fadd (fmul (fl_price f) (fl_quantity f)) (fl_cost f)"
  shows "\<not> rc_passed (check_daily_loss f2 (rv_record_fill f v))"
proof -
  define x where "x = fadd (fmul (fl_price f) (fl_quantity f)) (fl_cost f)"
  have "isfl x" by (simp add: x_def)
  then have "fsub 0 x = - x" by (simp add: fsub_def isfl_def [symmetric] b64.rnd_minus)
  then show ?thesis
    using assms by (simp add: check_daily_loss_def rv_record_fill_def x_def [symmetric] fail_check_def)
qed

text \<open>Selling more than is held leaves a long position of a negative size; buying it back exactly divides by zero.\<close>

lemma oversold_position:
  assumes "pr_side r = ''long''" "fl_side f = SELL" "fl_side g = BUY" "q = fsub (pr_quantity r) (fl_quantity f)"
    and "q \<le> -1" "fl_quantity g = - q" "record_apply_fill now f r = (r', x)"
  shows "pr_side r' = ''long'' \<and> pr_quantity r' < 0 \<and> snd (record_apply_fill now g r') = Inl ZeroDivisionError"
proof -
  have "b64 (1 / 1000000000) \<le> 1" by (rule b64.rnd_le) simp_all
  then have r': "pr_quantity r' = q" "pr_side r' = ''long''"
    using assms by (auto simp: record_apply_fill_def record_reduce_def clean_quantity_def abs_if)
  then show ?thesis using assms(3,5,6) by (simp add: record_apply_fill_def record_add_def fadd_def Let_def)
qed

end
