(* ===== verification/Events.thy ===== *)
theory Events imports Prelude begin

text \<open>
  The event bus (\<open>events/bus.py\<close>), the streaming dispatcher (\<open>marketdata/streaming/dispatcher.py\<close>) and the
  bridge between them (\<open>events/bridge.py\<close>). A class is its name with its base classes. A handler is a
  callback: it is named by a value \<open>'h\<close> and does what the parameter \<open>run\<close> says to a world of its own;
  handlers of one event run one after the other and do not call the bus back.
\<close>

section \<open>Event classes\<close>

datatype event_class = EventClass (class_name: pystr) (class_bases: "event_class list")

definition base_event :: event_class where
  "base_event = EventClass ''BaseEvent'' []"

text \<open>\<open>issubclass\<close>, and \<open>isinstance\<close> on an event of the class.\<close>

fun is_subclass :: "event_class \<Rightarrow> event_class \<Rightarrow> bool" where
  "is_subclass (EventClass n bs) d \<longleftrightarrow> EventClass n bs = d \<or> list_ex (\<lambda>b. is_subclass b d) bs"

record 'p event =
  ev_class :: event_class
  ev_payload :: 'p

type_synonym ('h, 'p, 'w) runner = "'h \<Rightarrow> 'p event \<Rightarrow> 'w \<Rightarrow> 'w \<times> unit result"

section \<open>The registry\<close>

type_synonym event_registry = "(pystr, event_class) dict"

definition registry_register :: "event_class \<Rightarrow> event_registry \<Rightarrow> event_registry result" where
  "registry_register c r = (if \<not> is_subclass c base_event then Inl TypeError else Inr (dset (class_name c) c r))"

definition registry_lookup :: "pystr \<Rightarrow> event_registry \<Rightarrow> event_class option" where
  "registry_lookup n r = dget r n"

definition event_classes :: "event_registry \<Rightarrow> event_class list" where
  "event_classes r = dvals r"

definition is_registered :: "event_class \<Rightarrow> event_registry \<Rightarrow> bool" where
  "is_registered c r \<longleftrightarrow> dget r (class_name c) \<noteq> None"

section \<open>Subscriptions\<close>

text \<open>A dictionary of lists of handlers, in which a missing list is empty.\<close>

type_synonym 'h subscribers = "(event_class, 'h list) dict"

definition handlers_of :: "event_class \<Rightarrow> 'h subscribers \<Rightarrow> 'h list" where
  "handlers_of c s = (case dget s c of None \<Rightarrow> [] | Some hs \<Rightarrow> hs)"

definition add_handler :: "event_class \<Rightarrow> 'h \<Rightarrow> 'h subscribers \<Rightarrow> 'h subscribers" where
  "add_handler c h s = dset c (handlers_of c s @ [h]) s"

definition remove_handler :: "event_class \<Rightarrow> 'h \<Rightarrow> 'h subscribers \<Rightarrow> 'h subscribers" where
  "remove_handler c h s = (if h \<in> set (handlers_of c s) then dset c (remove1 h (handlers_of c s)) s else s)"

text \<open>The handlers an event is for, in the order of the subscriptions of each class.\<close>

definition matching :: "'p event \<Rightarrow> 'h subscribers \<Rightarrow> 'h list" where
  "matching e s = concat (map snd (filter (\<lambda>(c, hs). is_subclass (ev_class e) c) s))"

text \<open>\<open>asyncio.gather\<close>: every handler runs; the first failure is raised.\<close>

fun run_all :: "('h, 'p, 'w) runner \<Rightarrow> 'p event \<Rightarrow> 'h list \<Rightarrow> 'w \<Rightarrow> 'w \<times> unit result" where
  "run_all run e [] w = (w, Inr ())"
| "run_all run e (h # hs) w = (case run h e w of (w1, r) \<Rightarrow>
     (case run_all run e hs w1 of (w2, r') \<Rightarrow> (w2, case r of Inl x \<Rightarrow> Inl x | Inr _ \<Rightarrow> r')))"

text \<open>\<open>_safe_handler\<close> logs a failure and goes on.\<close>

definition run_safe :: "('h, 'p, 'w) runner \<Rightarrow> 'p event \<Rightarrow> 'h list \<Rightarrow> 'w \<Rightarrow> 'w" where
  "run_safe run e hs w = fst (run_all run e hs w)"

section \<open>The bus\<close>

record 'h event_bus =
  eb_registry :: event_registry
  eb_subs :: "'h subscribers"

definition new_bus :: "'h event_bus" where
  "new_bus = \<lparr>eb_registry = [], eb_subs = []\<rparr>"

definition register_event :: "event_class \<Rightarrow> 'h event_bus \<Rightarrow> 'h event_bus \<times> unit result" where
  "register_event c b = (case registry_register c (eb_registry b) of
       Inl e \<Rightarrow> (b, Inl e) | Inr r \<Rightarrow> (b\<lparr>eb_registry := r\<rparr>, Inr ()))"

definition bus_subscribe :: "event_class \<Rightarrow> 'h \<Rightarrow> 'h event_bus \<Rightarrow> 'h event_bus \<times> unit result" where
  "bus_subscribe c h b = (case register_event c b of
       (b1, Inl e) \<Rightarrow> (b1, Inl e) | (b1, Inr _) \<Rightarrow> (b1\<lparr>eb_subs := add_handler c h (eb_subs b1)\<rparr>, Inr ()))"

definition bus_unsubscribe :: "event_class \<Rightarrow> 'h \<Rightarrow> 'h event_bus \<Rightarrow> 'h event_bus" where
  "bus_unsubscribe c h b = b\<lparr>eb_subs := remove_handler c h (eb_subs b)\<rparr>"

definition bus_publish :: "('h, 'p, 'w) runner \<Rightarrow> 'p event \<Rightarrow> 'h event_bus \<Rightarrow> 'w \<Rightarrow> 'w \<times> unit result" where
  "bus_publish run e b w =
     (if \<not> is_subclass (ev_class e) base_event then (w, Inl TypeError)
      else if \<not> is_registered (ev_class e) (eb_registry b) then (w, Inl ValueError)
      else run_all run e (matching e (eb_subs b)) w)"

section \<open>The dispatcher\<close>

record ('h, 'p) dispatcher =
  dp_subs :: "'h subscribers"
  dp_running :: bool
  dp_queue :: "'p event list"

definition new_dispatcher :: "('h, 'p) dispatcher" where
  "new_dispatcher = \<lparr>dp_subs = [], dp_running = False, dp_queue = []\<rparr>"

definition dp_subscribe :: "event_class \<Rightarrow> 'h \<Rightarrow> ('h, 'p) dispatcher \<Rightarrow> ('h, 'p) dispatcher" where
  "dp_subscribe c h d = d\<lparr>dp_subs := add_handler c h (dp_subs d)\<rparr>"

definition dp_unsubscribe :: "event_class \<Rightarrow> 'h \<Rightarrow> ('h, 'p) dispatcher \<Rightarrow> ('h, 'p) dispatcher" where
  "dp_unsubscribe c h d = d\<lparr>dp_subs := remove_handler c h (dp_subs d)\<rparr>"

definition dp_dispatch :: "('h, 'p, 'w) runner \<Rightarrow> 'h subscribers \<Rightarrow> 'p event \<Rightarrow> 'w \<Rightarrow> 'w" where
  "dp_dispatch run s e w = run_safe run e (matching e s) w"

definition dp_publish :: "('h, 'p, 'w) runner \<Rightarrow> 'p event \<Rightarrow> ('h, 'p) dispatcher \<Rightarrow> 'w \<Rightarrow> ('h, 'p) dispatcher \<times> 'w" where
  "dp_publish run e d w =
     (if \<not> dp_running d then (d\<lparr>dp_queue := dp_queue d @ [e]\<rparr>, w) else (d, dp_dispatch run (dp_subs d) e w))"

fun dp_drain :: "('h, 'p, 'w) runner \<Rightarrow> 'h subscribers \<Rightarrow> 'p event list \<Rightarrow> 'w \<Rightarrow> 'w" where
  "dp_drain run s [] w = w"
| "dp_drain run s (e # es) w = dp_drain run s es (dp_dispatch run s e w)"

definition dp_start :: "('h, 'p, 'w) runner \<Rightarrow> ('h, 'p) dispatcher \<Rightarrow> 'w \<Rightarrow> ('h, 'p) dispatcher \<times> 'w" where
  "dp_start run d w =
     (if dp_running d then (d, w)
      else (d\<lparr>dp_running := True, dp_queue := []\<rparr>, dp_drain run (dp_subs d) (dp_queue d) w))"

definition dp_stop :: "('h, 'p) dispatcher \<Rightarrow> ('h, 'p) dispatcher" where
  "dp_stop d = d\<lparr>dp_running := False\<rparr>"

section \<open>The bridge\<close>

record ('h, 'p) bridge_sys =
  bs_bus :: "'h event_bus"
  bs_dispatcher :: "('h, 'p) dispatcher"
  bs_started :: bool

definition bs_start :: "('h, 'p, 'w) runner \<Rightarrow> ('h, 'p) bridge_sys \<Rightarrow> 'w \<Rightarrow> ('h, 'p) bridge_sys \<times> 'w" where
  "bs_start run s w = (if bs_started s then (s, w)
     else (case dp_start run (bs_dispatcher s) w of (d, w') \<Rightarrow> (s\<lparr>bs_dispatcher := d, bs_started := True\<rparr>, w')))"

definition bs_stop :: "('h, 'p) bridge_sys \<Rightarrow> ('h, 'p) bridge_sys" where
  "bs_stop s = (if \<not> bs_started s then s else s\<lparr>bs_dispatcher := dp_stop (bs_dispatcher s), bs_started := False\<rparr>)"

definition bs_subscribe :: "event_class \<Rightarrow> 'h \<Rightarrow> ('h, 'p) bridge_sys \<Rightarrow> ('h, 'p) bridge_sys \<times> unit result" where
  "bs_subscribe c h s = (case bus_subscribe c h (bs_bus s) of
       (b, Inl e) \<Rightarrow> (s\<lparr>bs_bus := b\<rparr>, Inl e)
     | (b, Inr _) \<Rightarrow> (s\<lparr>bs_bus := b, bs_dispatcher := dp_subscribe c h (bs_dispatcher s)\<rparr>, Inr ()))"

definition bs_unsubscribe :: "event_class \<Rightarrow> 'h \<Rightarrow> ('h, 'p) bridge_sys \<Rightarrow> ('h, 'p) bridge_sys" where
  "bs_unsubscribe c h s = s\<lparr>bs_bus := bus_unsubscribe c h (bs_bus s), bs_dispatcher := dp_unsubscribe c h (bs_dispatcher s)\<rparr>"

definition bs_publish :: "('h, 'p, 'w) runner \<Rightarrow> 'p event \<Rightarrow> ('h, 'p) bridge_sys \<Rightarrow> 'w \<Rightarrow> (('h, 'p) bridge_sys \<times> 'w) \<times> unit result" where
  "bs_publish run e s w =
     (case (if is_registered (ev_class e) (eb_registry (bs_bus s)) then (bs_bus s, Inr ()) else register_event (ev_class e) (bs_bus s)) of
        (b, Inl x) \<Rightarrow> ((s\<lparr>bs_bus := b\<rparr>, w), Inl x)
      | (b, Inr _) \<Rightarrow> (case bus_publish run e b w of
            (w1, Inl x) \<Rightarrow> ((s\<lparr>bs_bus := b\<rparr>, w1), Inl x)
          | (w1, Inr _) \<Rightarrow> (case dp_publish run e (bs_dispatcher s) w1 of
              (d, w2) \<Rightarrow> ((s\<lparr>bs_bus := b, bs_dispatcher := d\<rparr>, w2), Inr ()))))"

lemma is_subclass_refl [simp]: "is_subclass c c"
  by (cases c) simp

section \<open>Who is served\<close>

text \<open>A handler that writes down what it is given, and fails as \<open>fails\<close> says.\<close>

definition log_run :: "('h \<Rightarrow> py_error option) \<Rightarrow> ('h, 'p, ('h \<times> 'p event) list) runner" where
  "log_run fails h e w = (w @ [(h, e)], case fails h of None \<Rightarrow> Inr () | Some x \<Rightarrow> Inl x)"

lemma run_all_log:
  "run_all (log_run fails) e hs w = (w @ map (\<lambda>h. (h, e)) hs,
     case List.find (\<lambda>h. fails h \<noteq> None) hs of None \<Rightarrow> Inr () | Some h \<Rightarrow> Inl (the (fails h)))"
  by (induction hs arbitrary: w) (auto simp: log_run_def split: option.splits)

text \<open>How often a handler is subscribed to a class.\<close>

definition subscriptions :: "'h subscribers \<Rightarrow> event_class \<Rightarrow> 'h \<Rightarrow> nat" where
  "subscriptions s c h = count_list (handlers_of c s) h"

lemma handlers_of_update: "handlers_of c (dset c' hs s) = (if c' = c then hs else handlers_of c s)"
  by (simp add: handlers_of_def update_conv')

lemma count_list_remove1: "count_list (remove1 h xs) h' = count_list xs h' - (if h' = h \<and> h \<in> set xs then 1 else 0)"
  by (induction xs) (auto simp: count_list_0_iff)

lemma subscriptions_change:
  "subscriptions (add_handler c h s) c' h' = subscriptions s c' h' + (if c' = c \<and> h' = h then 1 else 0)"
  "subscriptions (remove_handler c h s) c' h' = subscriptions s c' h' - (if c' = c \<and> h' = h then 1 else 0)"
  by (auto simp: subscriptions_def add_handler_def remove_handler_def handlers_of_update count_list_remove1)

lemma wf_subscribers:
  "wf_dict s \<Longrightarrow> wf_dict (add_handler c h s)" "wf_dict s \<Longrightarrow> wf_dict (remove_handler c h s)"
  by (auto simp: add_handler_def remove_handler_def)

lemma count_matching:
  assumes "wf_dict s"
  shows "count_list (matching e s) h = (\<Sum>c \<leftarrow> filter (is_subclass (ev_class e)) (dkeys s). subscriptions s c h)"
  using assms
proof (induction s)
  case Nil
  then show ?case by (simp add: matching_def)
next
  case (Cons p s)
  obtain c hs where p: "p = (c, hs)" by (cases p)
  have "c \<notin> set (dkeys s)" "wf_dict s" using Cons.prems p by (auto simp: wf_dict_def)
  then have "subscriptions (p # s) c' h = subscriptions s c' h" if "c' \<in> set (dkeys s)" for c'
    using that p by (auto simp: subscriptions_def handlers_of_def)
  then have eq: "map (\<lambda>c. subscriptions (p # s) c h) (filter (is_subclass (ev_class e)) (dkeys s)) =
      map (\<lambda>c. subscriptions s c h) (filter (is_subclass (ev_class e)) (dkeys s))" by (auto intro!: map_cong)
  have "(\<Sum>c \<leftarrow> filter (is_subclass (ev_class e)) (dkeys (p # s)). subscriptions (p # s) c h) =
      (if is_subclass (ev_class e) c then count_list hs h else 0) +
      (\<Sum>c \<leftarrow> filter (is_subclass (ev_class e)) (dkeys s). subscriptions s c h)"
    using p by (simp add: eq [unfolded p] subscriptions_def [of "_ # _" c] handlers_of_def [of c])
  then show ?case using Cons.IH [OF \<open>wf_dict s\<close>] p by (simp add: matching_def)
qed

section \<open>The bus over a run\<close>

datatype 'h bus_call = BusRegister event_class | BusSubscribe event_class 'h | BusUnsubscribe event_class 'h

fun bus_step :: "'h event_bus \<Rightarrow> 'h bus_call \<Rightarrow> 'h event_bus \<times> unit result" where
  "bus_step b (BusRegister c) = register_event c b"
| "bus_step b (BusSubscribe c h) = bus_subscribe c h b"
| "bus_step b (BusUnsubscribe c h) = (bus_unsubscribe c h b, Inr ())"

definition subs_classes :: "'h subscribers \<Rightarrow> event_class set" where
  "subs_classes s = set (dkeys s)"

definition bus_inv :: "'h event_bus \<Rightarrow> bool" where
  "bus_inv b \<longleftrightarrow> wf_dict (eb_subs b) \<and> (\<forall>c \<in> subs_classes (eb_subs b). is_subclass c base_event \<and> is_registered c (eb_registry b))"

lemma registered_grows:
  "is_registered c r \<Longrightarrow> is_registered c (dset n d r)" "is_registered c (dset (class_name c) d r)"
  by (simp_all add: is_registered_def update_conv')

lemma subs_classes_change:
  "subs_classes (add_handler c h s) = insert c (subs_classes s)" "subs_classes (remove_handler c h s) = subs_classes s"
proof -
  show "subs_classes (add_handler c h s) = insert c (subs_classes s)" by (simp add: subs_classes_def add_handler_def dom_update)
  have "c \<in> set (dkeys s)" if "h \<in> set (handlers_of c s)"
    using that dget_None_iff [of s c] by (auto simp: handlers_of_def split: option.splits)
  then show "subs_classes (remove_handler c h s) = subs_classes s"
    by (simp add: subs_classes_def remove_handler_def dom_update insert_absorb)
qed

lemma bus_step_inv:
  assumes "bus_inv b"
  shows "bus_inv (fst (bus_step b x))"
proof (cases x)
  case (BusRegister c)
  then show ?thesis using assms registered_grows(1)
    by (auto simp: register_event_def registry_register_def bus_inv_def split: sum.splits)
next
  case (BusSubscribe c h)
  then show ?thesis using assms registered_grows wf_subscribers(1)
    by (auto simp: bus_subscribe_def register_event_def registry_register_def bus_inv_def subs_classes_change split: sum.splits prod.splits)
next
  case (BusUnsubscribe c h)
  then show ?thesis using assms wf_subscribers(2)
    by (auto simp: bus_unsubscribe_def bus_inv_def subs_classes_change)
qed

lemma bus_run_inv: "bus_inv (feed bus_step new_bus cs)"
  by (rule feed_invariant, simp add: bus_inv_def new_bus_def subs_classes_def, rule bus_step_inv)

text \<open>After any registrations, subscriptions and unsubscriptions, publishing an event of a subscribed class
  never fails for want of a registration: it runs, once for each subscription and in spite of failing
  handlers, exactly the handlers subscribed to its class or a class above it, and then raises the
  first failure.\<close>

theorem bus_serves_subscriptions:
  assumes "b = feed bus_step new_bus cs" "ev_class e \<in> subs_classes (eb_subs b)"
  shows "case bus_publish (log_run fails) e b w of (w', r) \<Rightarrow>
    (\<exists>hs. w' = w @ map (\<lambda>h. (h, e)) hs \<and>
      (\<forall>h. count_list hs h = (\<Sum>c \<leftarrow> filter (is_subclass (ev_class e)) (dkeys (eb_subs b)). subscriptions (eb_subs b) c h)) \<and>
      r = (case List.find (\<lambda>h. fails h \<noteq> None) hs of None \<Rightarrow> Inr () | Some h \<Rightarrow> Inl (the (fails h))))"
proof -
  have inv: "bus_inv b" unfolding assms(1) by (rule bus_run_inv)
  then have "is_subclass (ev_class e) base_event" "is_registered (ev_class e) (eb_registry b)"
    using assms(2) unfolding bus_inv_def by blast+
  then have "bus_publish (log_run fails) e b w = run_all (log_run fails) e (matching e (eb_subs b)) w"
    by (simp add: bus_publish_def)
  moreover have "wf_dict (eb_subs b)" using inv by (simp add: bus_inv_def)
  ultimately show ?thesis by (auto simp: run_all_log count_matching)
qed

definition demo_class :: event_class where
  "demo_class = EventClass ''TickReplayed'' [base_event]"

lemma bus_serves_subscriptions_witness:
  "let b = feed bus_step new_bus [BusSubscribe base_event (1 :: nat), BusSubscribe demo_class 2, BusSubscribe demo_class 2] in
   case bus_publish (log_run (\<lambda>h. if h = 1 then Some KeyError else None)) \<lparr>ev_class = demo_class, ev_payload = ()\<rparr> b [] of (w', r) \<Rightarrow>
     (\<exists>hs. w' = map (\<lambda>h. (h, \<lparr>ev_class = demo_class, ev_payload = ()\<rparr>)) hs \<and> count_list hs 2 = 2 \<and> count_list hs 1 = 1)"
proof -
  let ?b = "feed bus_step new_bus [BusSubscribe base_event (1 :: nat), BusSubscribe demo_class 2, BusSubscribe demo_class 2]"
  have m: "demo_class \<in> subs_classes (eb_subs ?b)" by code_simp
  have s: "(\<Sum>c \<leftarrow> filter (is_subclass demo_class) (dkeys (eb_subs ?b)). subscriptions (eb_subs ?b) c 2) = 2"
    "(\<Sum>c \<leftarrow> filter (is_subclass demo_class) (dkeys (eb_subs ?b)). subscriptions (eb_subs ?b) c 1) = 1" by code_simp+
  show ?thesis
    using bus_serves_subscriptions [OF refl, where e = "\<lparr>ev_class = demo_class, ev_payload = ()\<rparr>" and w = "[]"
      and cs = "[BusSubscribe base_event (1 :: nat), BusSubscribe demo_class 2, BusSubscribe demo_class 2]"
      and fails = "\<lambda>h. if h = 1 then Some KeyError else None"] m s
    unfolding Let_def by (fastforce split: prod.splits)
qed

text \<open>An event of a class nobody registered is refused, although a class above it is subscribed.\<close>

lemma unregistered_subclass_refused:
  "bus_publish (log_run (\<lambda>h. None)) \<lparr>ev_class = demo_class, ev_payload = ()\<rparr> (feed bus_step new_bus [BusSubscribe base_event (1 :: nat)]) [] =
    ([], Inl ValueError)"
  by code_simp

section \<open>The dispatcher over a run\<close>

datatype 'p dp_call = DpPublish "'p event" | DpStart | DpStop

fun dp_step :: "('h, 'p, 'w) runner \<Rightarrow> ('h, 'p) dispatcher \<times> 'w \<Rightarrow> 'p dp_call \<Rightarrow> (('h, 'p) dispatcher \<times> 'w) \<times> unit" where
  "dp_step run (d, w) (DpPublish e) = (dp_publish run e d w, ())"
| "dp_step run (d, w) DpStart = (dp_start run d w, ())"
| "dp_step run (d, w) DpStop = ((dp_stop d, w), ())"

fun dp_published :: "'p dp_call list \<Rightarrow> 'p event list" where
  "dp_published [] = []"
| "dp_published (DpPublish e # cs) = e # dp_published cs"
| "dp_published (_ # cs) = dp_published cs"

lemma dp_drain_append [simp]: "dp_drain run s (es @ fs) w = dp_drain run s fs (dp_drain run s es w)"
  by (induction es arbitrary: w) simp_all

lemma dp_run_conserves:
  assumes "feed (dp_step run) (d, w) cs = (d', w')" "if dp_running d then dp_queue d = [] else True"
  shows "dp_subs d' = dp_subs d \<and> (if dp_running d' then dp_queue d' = [] else True) \<and>
    (\<exists>es. dp_queue d @ dp_published cs = es @ dp_queue d' \<and> w' = dp_drain run (dp_subs d) es w)"
  using assms
proof (induction cs arbitrary: d w)
  case Nil
  then show ?case by (auto intro: exI [of _ "[]"])
next
  case (Cons c cs)
  show ?case
  proof (cases c)
    case (DpPublish e)
    show ?thesis
    proof (cases "dp_running d")
      case True
      then have q: "dp_queue d = []" using Cons.prems(2) by simp
      obtain es where "dp_subs d' = dp_subs d" "if dp_running d' then dp_queue d' = [] else True"
        "dp_published cs = es @ dp_queue d'" "w' = dp_drain run (dp_subs d) es (dp_dispatch run (dp_subs d) e w)"
        using Cons.IH [of d "dp_dispatch run (dp_subs d) e w"] Cons.prems DpPublish True q by (auto simp: dp_publish_def)
      then show ?thesis using q DpPublish by (auto intro: exI [of _ "e # es"])
    next
      case False
      then show ?thesis using Cons.IH [of "d\<lparr>dp_queue := dp_queue d @ [e]\<rparr>" w] Cons.prems DpPublish by (simp add: dp_publish_def)
    qed
  next
    case DpStart
    show ?thesis
    proof (cases "dp_running d")
      case True
      then show ?thesis using Cons.IH [of d w] Cons.prems DpStart by (simp add: dp_start_def)
    next
      case False
      obtain es where "dp_subs d' = dp_subs d" "if dp_running d' then dp_queue d' = [] else True"
        "dp_published cs = es @ dp_queue d'" "w' = dp_drain run (dp_subs d) es (dp_drain run (dp_subs d) (dp_queue d) w)"
        using Cons.IH [of "d\<lparr>dp_running := True, dp_queue := []\<rparr>" "dp_drain run (dp_subs d) (dp_queue d) w"] Cons.prems DpStart False
        by (auto simp: dp_start_def)
      then show ?thesis using DpStart by (auto intro: exI [of _ "dp_queue d @ es"])
    qed
  next
    case DpStop
    then show ?thesis using Cons.IH [of "dp_stop d" w] Cons.prems by (simp add: dp_stop_def)
  qed
qed

text \<open>However publishing, starting and stopping interleave, the dispatcher loses no event, dispatches none
  twice and keeps their order: what its handlers did is dispatching, in order, the events published
  except those still in the queue, and while it runs the queue is empty.\<close>

theorem dispatcher_keeps_every_event:
  "case feed (dp_step run) (new_dispatcher\<lparr>dp_subs := s\<rparr>, w) cs of (d, w') \<Rightarrow>
    (\<exists>es. dp_published cs = es @ dp_queue d \<and> w' = dp_drain run s es w) \<and> (if dp_running d then dp_queue d = [] else True)"
  using dp_run_conserves [of run "new_dispatcher\<lparr>dp_subs := s\<rparr>" w cs]
  by (cases "feed (dp_step run) (new_dispatcher\<lparr>dp_subs := s\<rparr>, w) cs") (simp add: new_dispatcher_def)

text \<open>A handler subscribed through the bridge is run twice for every event published through it.\<close>

lemma bridge_serves_twice:
  assumes "bs_subscribe c h \<lparr>bs_bus = new_bus, bs_dispatcher = new_dispatcher, bs_started = False\<rparr> = (s, Inr ())" "ev_class e = c"
    and "bs_start (log_run fails) s w = (s', w')" "fails h = None"
  shows "bs_publish (log_run fails) e s' w' = ((s', w' @ [(h, e), (h, e)]), Inr ())"
  using assms
  by (auto simp: bs_subscribe_def bus_subscribe_def register_event_def registry_register_def bs_start_def dp_start_def new_bus_def
      new_dispatcher_def dp_subscribe_def add_handler_def handlers_of_def bs_publish_def is_registered_def bus_publish_def matching_def
      log_run_def dp_publish_def dp_dispatch_def run_safe_def is_subclass_refl split: prod.splits sum.splits if_splits)

end
