(* ===== verification/Streaming.thy ===== *)
theory Streaming imports Events Floats "HOL-Library.Sublist" begin

text \<open>
  The streaming layer (\<open>marketdata/streaming\<close>): the router by symbol, the manager of subscriptions, the
  manager of reconnections with its growing delays, the web socket stream (its state; the socket is a
  third party's, its successes and failures are arguments) and the streaming manager. Of the events the
  layer reads the class and, of a tick, the symbol; the payload \<open>'p\<close> is what handlers read.
\<close>

section \<open>Events of a stream\<close>

definition tick_class :: event_class where "tick_class = EventClass ''TickEvent'' [base_event]"
definition candle_class :: event_class where "candle_class = EventClass ''CandleEvent'' [base_event]"
definition order_book_class :: event_class where "order_book_class = EventClass ''OrderBookEvent'' [base_event]"
definition market_status_class :: event_class where "market_status_class = EventClass ''MarketStatusEvent'' [base_event]"

record 'p market_payload =
  mp_symbol :: pystr
  mp_data :: 'p

type_synonym 'p market_event = "'p market_payload event"

section \<open>The router\<close>

record ('h, 'p) router =
  rt_handlers :: "(pystr, 'h list) dict"
  rt_global :: "'h list"
  rt_symbols :: "pystr set"
  rt_queue :: "'p market_event list"
  rt_max :: nat
  rt_running :: bool
  rt_count :: nat

definition new_router :: "nat \<Rightarrow> ('h, 'p) router" where
  "new_router n = \<lparr>rt_handlers = [], rt_global = [], rt_symbols = {}, rt_queue = [], rt_max = n, rt_running = False, rt_count = 0\<rparr>"

definition symbol_handlers :: "pystr \<Rightarrow> ('h, 'p) router \<Rightarrow> 'h list" where
  "symbol_handlers s r = (case dget (rt_handlers r) s of None \<Rightarrow> [] | Some hs \<Rightarrow> hs)"

definition register_symbol :: "pystr \<Rightarrow> ('h, 'p) router \<Rightarrow> ('h, 'p) router" where
  "register_symbol s r = r\<lparr>rt_symbols := insert s (rt_symbols r)\<rparr>"

definition unregister_symbol :: "pystr \<Rightarrow> ('h, 'p) router \<Rightarrow> ('h, 'p) router" where
  "unregister_symbol s r = r\<lparr>rt_symbols := rt_symbols r - {s}, rt_handlers := ddel s (rt_handlers r)\<rparr>"

definition rt_subscribe :: "pystr \<Rightarrow> 'h \<Rightarrow> ('h, 'p) router \<Rightarrow> ('h, 'p) router" where
  "rt_subscribe s h r =
     (let r1 = (if s \<in> rt_symbols r then r else register_symbol s r); hs = symbol_handlers s r1 in
      r1\<lparr>rt_handlers := dset s (if h \<in> set hs then hs else hs @ [h]) (rt_handlers r1)\<rparr>)"

definition rt_unsubscribe :: "pystr \<Rightarrow> 'h \<Rightarrow> ('h, 'p) router \<Rightarrow> ('h, 'p) router" where
  "rt_unsubscribe s h r =
     (let hs = remove1 h (symbol_handlers s r) in
      if hs = [] then r\<lparr>rt_handlers := ddel s (rt_handlers r)\<rparr> else r\<lparr>rt_handlers := dset s hs (rt_handlers r)\<rparr>)"

definition subscribe_global :: "'h \<Rightarrow> ('h, 'p) router \<Rightarrow> ('h, 'p) router" where
  "subscribe_global h r = (if h \<in> set (rt_global r) then r else r\<lparr>rt_global := rt_global r @ [h]\<rparr>)"

definition unsubscribe_global :: "'h \<Rightarrow> ('h, 'p) router \<Rightarrow> ('h, 'p) router" where
  "unsubscribe_global h r = r\<lparr>rt_global := remove1 h (rt_global r)\<rparr>"

definition rt_targets :: "'p market_event \<Rightarrow> ('h, 'p) router \<Rightarrow> 'h list" where
  "rt_targets e r = (if is_subclass (ev_class e) tick_class \<and> mp_symbol (ev_payload e) \<noteq> []
     then symbol_handlers (mp_symbol (ev_payload e)) r else []) @ rt_global r"

definition rt_dispatch :: "('h, 'p market_payload, 'w) runner \<Rightarrow> 'p market_event \<Rightarrow> ('h, 'p) router \<Rightarrow> 'w \<Rightarrow> ('h, 'p) router \<times> 'w" where
  "rt_dispatch run e r w = (r\<lparr>rt_count := rt_count r + 1\<rparr>, run_safe run e (rt_targets e r) w)"

text \<open>A queue of size 0 has no bound.\<close>

definition rt_route :: "('h, 'p market_payload, 'w) runner \<Rightarrow> 'p market_event \<Rightarrow> ('h, 'p) router \<Rightarrow> 'w \<Rightarrow> ('h, 'p) router \<times> 'w" where
  "rt_route run e r w =
     (if \<not> rt_running r
      then (if 0 < rt_max r \<and> rt_max r \<le> length (rt_queue r) then r else r\<lparr>rt_queue := rt_queue r @ [e]\<rparr>, w)
      else rt_dispatch run e r w)"

fun rt_drain :: "('h, 'p market_payload, 'w) runner \<Rightarrow> 'p market_event list \<Rightarrow> ('h, 'p) router \<Rightarrow> 'w \<Rightarrow> ('h, 'p) router \<times> 'w" where
  "rt_drain run [] r w = (r, w)"
| "rt_drain run (e # es) r w = (case rt_dispatch run e r w of (r1, w1) \<Rightarrow> rt_drain run es r1 w1)"

definition rt_start :: "('h, 'p market_payload, 'w) runner \<Rightarrow> ('h, 'p) router \<Rightarrow> 'w \<Rightarrow> ('h, 'p) router \<times> 'w" where
  "rt_start run r w = (if rt_running r then (r, w)
     else rt_drain run (rt_queue r) (r\<lparr>rt_running := True, rt_queue := []\<rparr>) w)"

definition rt_stop :: "('h, 'p) router \<Rightarrow> ('h, 'p) router" where
  "rt_stop r = r\<lparr>rt_running := False\<rparr>"

text \<open>The figures of \<open>health\<close>: running, symbols, subscriptions, global handlers, queued, processed.\<close>

definition rt_health :: "('h, 'p) router \<Rightarrow> bool \<times> nat \<times> nat \<times> nat \<times> nat \<times> nat" where
  "rt_health r = (rt_running r, card (rt_symbols r), sum_list (map length (dvals (rt_handlers r))), length (rt_global r),
     length (rt_queue r), rt_count r)"

section \<open>The web socket stream\<close>

text \<open>
  \<open>ws_open\<close>: there is a socket; \<open>ws_receiving\<close>: the receiving task is alive. \<open>ws_sent\<close> are the messages
  sent, made by the parameter \<open>build\<close> (the base class builds none).
\<close>

record 'p web_socket =
  ws_open :: bool
  ws_connected :: bool
  ws_running :: bool
  ws_receiving :: bool
  ws_reconnect :: bool
  ws_symbols :: "pystr list"
  ws_sent :: "(pystr \<times> bool) list"
  ws_queue :: "'p market_event list"

definition new_web_socket :: "bool \<Rightarrow> 'p web_socket" where
  "new_web_socket b = \<lparr>ws_open = False, ws_connected = False, ws_running = False, ws_receiving = False, ws_reconnect = b,
     ws_symbols = [], ws_sent = [], ws_queue = []\<rparr>"

definition ws_connect :: "bool \<Rightarrow> 'p web_socket \<Rightarrow> 'p web_socket \<times> unit result" where
  "ws_connect ok s = (if ws_connected s then (s, Inr ())
     else if \<not> ok then (s, Inl RuntimeError)
     else (s\<lparr>ws_open := True, ws_connected := True, ws_running := True, ws_receiving := True\<rparr>, Inr ()))"

definition ws_disconnect :: "'p web_socket \<Rightarrow> 'p web_socket" where
  "ws_disconnect s = s\<lparr>ws_running := False, ws_receiving := False, ws_open := False, ws_connected := False\<rparr>"

definition ws_send :: "(pystr \<Rightarrow> bool \<Rightarrow> bool) \<Rightarrow> bool \<Rightarrow> pystr \<Rightarrow> bool \<Rightarrow> 'p web_socket \<Rightarrow> 'p web_socket \<times> unit result" where
  "ws_send build ok n sub s =
     (if \<not> ws_open s then (s, Inr ())
      else if build n sub then (if ok then (s\<lparr>ws_sent := ws_sent s @ [(n, sub)]\<rparr>, Inr ()) else (s, Inl RuntimeError))
      else (s, Inr ()))"

definition ws_subscribe :: "(pystr \<Rightarrow> bool \<Rightarrow> bool) \<Rightarrow> bool \<Rightarrow> pystr \<Rightarrow> 'p web_socket \<Rightarrow> 'p web_socket \<times> unit result" where
  "ws_subscribe build ok n s = (if n \<in> set (ws_symbols s) then (s, Inr ())
     else ws_send build ok n True (s\<lparr>ws_symbols := ws_symbols s @ [n]\<rparr>))"

definition ws_unsubscribe :: "(pystr \<Rightarrow> bool \<Rightarrow> bool) \<Rightarrow> bool \<Rightarrow> pystr \<Rightarrow> 'p web_socket \<Rightarrow> 'p web_socket \<times> unit result" where
  "ws_unsubscribe build ok n s = (if n \<notin> set (ws_symbols s) then (s, Inr ())
     else ws_send build ok n False (s\<lparr>ws_symbols := remove1 n (ws_symbols s)\<rparr>))"

text \<open>
  One round of the receiving loop: \<open>None\<close> is a failure to receive, \<open>Some\<close> a message with the event the
  parser makes of it, if any.
\<close>

definition ws_receive :: "'p market_event option option \<Rightarrow> 'p web_socket \<Rightarrow> 'p web_socket" where
  "ws_receive m s =
     (if \<not> ws_receiving s then s
      else if \<not> (ws_running s \<and> ws_open s) then s\<lparr>ws_receiving := False\<rparr>
      else (case m of
          None \<Rightarrow> if ws_reconnect s then s\<lparr>ws_receiving := False\<rparr> else s
        | Some None \<Rightarrow> s
        | Some (Some e) \<Rightarrow> s\<lparr>ws_queue := ws_queue s @ [e]\<rparr>))"

text \<open>\<open>events()\<close>: the next event, or none yet, or the end.\<close>

datatype 'p ws_event = WsEvent "'p market_event" | WsWaiting | WsEnd

definition ws_next :: "'p web_socket \<Rightarrow> 'p web_socket \<times> 'p ws_event" where
  "ws_next s = (case ws_queue s of
       e # es \<Rightarrow> (s\<lparr>ws_queue := es\<rparr>, WsEvent e)
     | [] \<Rightarrow> (s, if ws_running s then WsWaiting else WsEnd))"

section \<open>Subscriptions\<close>

text \<open>The stream of a subscription manager is a parameter: its two calls over a state \<open>'s\<close>.\<close>

type_synonym 's stream_call = "pystr \<Rightarrow> 's \<Rightarrow> 's \<times> unit result"

definition sm_subscribe :: "'s stream_call \<Rightarrow> pystr \<Rightarrow> pystr set \<times> 's \<Rightarrow> (pystr set \<times> 's) \<times> unit result" where
  "sm_subscribe sub n = (\<lambda>(m, s). if n \<in> m then ((m, s), Inr ())
     else (case sub n s of (s1, Inl e) \<Rightarrow> ((m, s1), Inl e) | (s1, Inr _) \<Rightarrow> ((insert n m, s1), Inr ())))"

definition sm_unsubscribe :: "'s stream_call \<Rightarrow> pystr \<Rightarrow> pystr set \<times> 's \<Rightarrow> (pystr set \<times> 's) \<times> unit result" where
  "sm_unsubscribe unsub n = (\<lambda>(m, s). if n \<notin> m then ((m, s), Inr ())
     else (case unsub n s of (s1, Inl e) \<Rightarrow> ((m, s1), Inl e) | (s1, Inr _) \<Rightarrow> ((m - {n}, s1), Inr ())))"

fun sm_subscribe_many :: "'s stream_call \<Rightarrow> pystr list \<Rightarrow> pystr set \<times> 's \<Rightarrow> (pystr set \<times> 's) \<times> unit result" where
  "sm_subscribe_many sub [] x = (x, Inr ())"
| "sm_subscribe_many sub (n # ns) x = (case sm_subscribe sub n x of
     (x1, Inl e) \<Rightarrow> (x1, Inl e) | (x1, Inr _) \<Rightarrow> sm_subscribe_many sub ns x1)"

fun sm_unsubscribe_many :: "'s stream_call \<Rightarrow> pystr list \<Rightarrow> pystr set \<times> 's \<Rightarrow> (pystr set \<times> 's) \<times> unit result" where
  "sm_unsubscribe_many unsub [] x = (x, Inr ())"
| "sm_unsubscribe_many unsub (n # ns) x = (case sm_unsubscribe unsub n x of
     (x1, Inl e) \<Rightarrow> (x1, Inl e) | (x1, Inr _) \<Rightarrow> sm_unsubscribe_many unsub ns x1)"

definition is_subscribed :: "pystr \<Rightarrow> pystr set \<times> 's \<Rightarrow> bool" where
  "is_subscribed n x \<longleftrightarrow> n \<in> fst x"

definition subscription_count :: "pystr set \<times> 's \<Rightarrow> nat" where
  "subscription_count x = card (fst x)"

section \<open>Reconnecting\<close>

text \<open>
  The stream is a parameter: \<open>connect\<close> and \<open>is_connected\<close> over a state \<open>'s\<close>. The monitoring loop is given
  what happens to the stream during each second it sleeps; as many rounds are run as are given.
  \<open>rm_sleeps\<close> are the delays slept before attempts, \<open>rm_calls\<close> the callbacks (true for \<open>on_reconnect\<close>).
\<close>

record reconnect_manager =
  rm_initial :: rat
  rm_max :: rat
  rm_factor :: rat
  rm_max_retries :: int
  rm_retries :: int
  rm_delay :: rat
  rm_running :: bool
  rm_sleeps :: "rat list"
  rm_calls :: "bool list"

definition new_reconnect :: "rat \<Rightarrow> rat \<Rightarrow> rat \<Rightarrow> int \<Rightarrow> reconnect_manager" where
  "new_reconnect i mx f n = \<lparr>rm_initial = i, rm_max = mx, rm_factor = f, rm_max_retries = n, rm_retries = 0, rm_delay = i,
     rm_running = False, rm_sleeps = [], rm_calls = []\<rparr>"

definition rm_start :: "reconnect_manager \<Rightarrow> reconnect_manager" where
  "rm_start m = (if rm_running m then m else m\<lparr>rm_running := True, rm_retries := 0, rm_delay := rm_initial m\<rparr>)"

definition rm_stop :: "reconnect_manager \<Rightarrow> reconnect_manager" where
  "rm_stop m = m\<lparr>rm_running := False\<rparr>"

definition rm_connected :: "reconnect_manager \<Rightarrow> reconnect_manager" where
  "rm_connected m = m\<lparr>rm_retries := 0, rm_delay := rm_initial m, rm_calls := rm_calls m @ [True]\<rparr>"

text \<open>\<open>_reconnect\<close>, with callbacks \<open>on_reconnect\<close> and \<open>on_disconnect\<close> that do not raise.\<close>

definition rm_attempt :: "('s \<Rightarrow> 's \<times> unit result) \<Rightarrow> reconnect_manager \<times> 's \<Rightarrow> reconnect_manager \<times> 's" where
  "rm_attempt connect = (\<lambda>(m, s).
     if rm_max_retries m \<le> rm_retries m then (m, s)
     else (let m1 = m\<lparr>rm_sleeps := rm_sleeps m @ [rm_delay m]\<rparr> in
       case connect s of
         (s1, Inr _) \<Rightarrow> (rm_connected m1, s1)
       | (s1, Inl _) \<Rightarrow> (m1\<lparr>rm_retries := rm_retries m1 + 1, rm_delay := min (fmul (rm_delay m1) (rm_factor m1)) (rm_max m1)\<rparr>, s1)))"

fun rm_watch :: "('s \<Rightarrow> 's \<times> unit result) \<Rightarrow> ('s \<Rightarrow> bool) \<Rightarrow> ('s \<Rightarrow> 's) list \<Rightarrow> reconnect_manager \<times> 's \<Rightarrow> reconnect_manager \<times> 's" where
  "rm_watch connect isconn [] x = x"
| "rm_watch connect isconn (f # fs) (m, s) =
     (if \<not> rm_running m then (m, s)
      else (let s1 = f s in
        rm_watch connect isconn fs
          (if isconn s1 then (m, s1) else rm_attempt connect (m\<lparr>rm_calls := rm_calls m @ [False]\<rparr>, s1))))"

definition rm_monitor :: "('s \<Rightarrow> 's \<times> unit result) \<Rightarrow> ('s \<Rightarrow> bool) \<Rightarrow> ('s \<Rightarrow> 's) list \<Rightarrow> reconnect_manager \<times> 's \<Rightarrow> reconnect_manager \<times> 's" where
  "rm_monitor connect isconn fs = (\<lambda>(m, s).
     if \<not> rm_running m then (m, s)
     else (case connect s of
         (s1, Inr _) \<Rightarrow> rm_watch connect isconn fs (rm_connected m, s1)
       | (s1, Inl _) \<Rightarrow> rm_attempt connect (m, s1)))"

section \<open>The streaming manager\<close>

text \<open>The tasks of the streams and reconnection managers are kept by name.\<close>

record ('h, 'p, 's) streaming_manager =
  st_streams :: "(pystr, 's) dict"
  st_subscribers :: "(pystr, 'h) dict"
  st_dispatcher :: "('h, 'p market_payload) dispatcher"
  st_router :: "('h, 'p) router"
  st_reconnects :: "(pystr, reconnect_manager) dict"
  st_running :: bool
  st_tasks :: "pystr list"

definition new_streaming_manager :: "('h, 'p, 's) streaming_manager" where
  "new_streaming_manager = \<lparr>st_streams = [], st_subscribers = [], st_dispatcher = new_dispatcher, st_router = new_router 10000,
     st_reconnects = [], st_running = False, st_tasks = []\<rparr>"

definition register_stream :: "pystr \<Rightarrow> 's \<Rightarrow> ('h, 'p, 's) streaming_manager \<Rightarrow> ('h, 'p, 's) streaming_manager" where
  "register_stream n s m = m\<lparr>st_streams := dset n s (st_streams m)\<rparr>"

definition unregister_stream :: "pystr \<Rightarrow> ('h, 'p, 's) streaming_manager \<Rightarrow> ('h, 'p, 's) streaming_manager" where
  "unregister_stream n m = (if dget (st_streams m) n = None then m
     else m\<lparr>st_streams := ddel n (st_streams m), st_reconnects := ddel n (st_reconnects m)\<rparr>)"

definition register_subscriber :: "pystr \<Rightarrow> 'h \<Rightarrow> ('h, 'p, 's) streaming_manager \<Rightarrow> ('h, 'p, 's) streaming_manager" where
  "register_subscriber n h m = m\<lparr>st_subscribers := dset n h (st_subscribers m),
     st_dispatcher := foldl (\<lambda>d c. dp_subscribe c h d) (st_dispatcher m) [tick_class, candle_class, order_book_class, market_status_class]\<rparr>"

definition unregister_subscriber :: "pystr \<Rightarrow> ('h, 'p, 's) streaming_manager \<Rightarrow> ('h, 'p, 's) streaming_manager" where
  "unregister_subscriber n m = m\<lparr>st_subscribers := ddel n (st_subscribers m)\<rparr>"

definition register_reconnect_manager :: "pystr \<Rightarrow> reconnect_manager \<Rightarrow> ('h, 'p, 's) streaming_manager \<Rightarrow> ('h, 'p, 's) streaming_manager" where
  "register_reconnect_manager n r m = m\<lparr>st_reconnects := dset n r (st_reconnects m)\<rparr>"

definition st_start :: "('h, 'p market_payload, 'w) runner \<Rightarrow> ('h, 'p, 's) streaming_manager \<Rightarrow> 'w \<Rightarrow> ('h, 'p, 's) streaming_manager \<times> 'w" where
  "st_start run m w =
     (if st_running m then (m, w)
      else (case dp_start run (st_dispatcher m) w of (d, w1) \<Rightarrow>
        (case rt_start run (st_router m) w1 of (r, w2) \<Rightarrow>
          (m\<lparr>st_running := True, st_dispatcher := d, st_router := r,
             st_tasks := st_tasks m @ dkeys (st_streams m) @ dkeys (st_reconnects m)\<rparr>, w2))))"

definition st_stop :: "('s \<Rightarrow> 's) \<Rightarrow> ('h, 'p, 's) streaming_manager \<Rightarrow> ('h, 'p, 's) streaming_manager" where
  "st_stop disconnect m = (if \<not> st_running m then m
     else m\<lparr>st_running := False, st_tasks := [], st_reconnects := map (\<lambda>(n, r). (n, rm_stop r)) (st_reconnects m),
       st_router := rt_stop (st_router m), st_dispatcher := dp_stop (st_dispatcher m),
       st_streams := map (\<lambda>(n, s). (n, disconnect s)) (st_streams m)\<rparr>)"

text \<open>One event of a stream that is being run.\<close>

definition st_event :: "('h, 'p market_payload, 'w) runner \<Rightarrow> 'p market_event \<Rightarrow> ('h, 'p, 's) streaming_manager \<Rightarrow> 'w \<Rightarrow> ('h, 'p, 's) streaming_manager \<times> 'w" where
  "st_event run e m w =
     (if \<not> st_running m then (m, w)
      else (case dp_publish run e (st_dispatcher m) w of (d, w1) \<Rightarrow>
        (case rt_route run e (st_router m) w1 of (r, w2) \<Rightarrow> (m\<lparr>st_dispatcher := d, st_router := r\<rparr>, w2))))"

section \<open>The router over a run\<close>

datatype ('h, 'p) rt_call = RtRegister pystr | RtUnregister pystr | RtSubscribe pystr 'h | RtUnsubscribe pystr 'h
  | RtSubscribeGlobal 'h | RtUnsubscribeGlobal 'h | RtRoute "'p market_event" | RtStart | RtStop

fun rt_step :: "('h, 'p market_payload, 'w) runner \<Rightarrow> ('h, 'p) router \<times> 'w \<Rightarrow> ('h, 'p) rt_call \<Rightarrow> (('h, 'p) router \<times> 'w) \<times> unit" where
  "rt_step run (r, w) (RtRegister s) = ((register_symbol s r, w), ())"
| "rt_step run (r, w) (RtUnregister s) = ((unregister_symbol s r, w), ())"
| "rt_step run (r, w) (RtSubscribe s h) = ((rt_subscribe s h r, w), ())"
| "rt_step run (r, w) (RtUnsubscribe s h) = ((rt_unsubscribe s h r, w), ())"
| "rt_step run (r, w) (RtSubscribeGlobal h) = ((subscribe_global h r, w), ())"
| "rt_step run (r, w) (RtUnsubscribeGlobal h) = ((unsubscribe_global h r, w), ())"
| "rt_step run (r, w) (RtRoute e) = (rt_route run e r w, ())"
| "rt_step run (r, w) RtStart = (rt_start run r w, ())"
| "rt_step run (r, w) RtStop = ((rt_stop r, w), ())"

text \<open>What holds of the tables for handlers, and of the queue.\<close>

definition rt_tables :: "(pystr, 'h list) dict \<Rightarrow> pystr set \<Rightarrow> 'h list \<Rightarrow> bool" where
  "rt_tables hs names gs \<longleftrightarrow> wf_dict hs \<and> distinct gs \<and> (\<forall>s l. dget hs s = Some l \<longrightarrow> distinct l \<and> l \<noteq> [] \<and> s \<in> names)"

definition rt_inv :: "('h, 'p) router \<Rightarrow> bool" where
  "rt_inv r \<longleftrightarrow> rt_tables (rt_handlers r) (rt_symbols r) (rt_global r) \<and> (rt_running r \<longrightarrow> rt_queue r = []) \<and>
     (0 < rt_max r \<longrightarrow> length (rt_queue r) \<le> rt_max r)"

lemma symbol_handlers_tables:
  assumes "rt_tables (rt_handlers r) names gs"
  shows "distinct (symbol_handlers s r)" "h \<in> set (symbol_handlers s r) \<Longrightarrow> s \<in> names"
  using assms by (cases "dget (rt_handlers r) s"; auto simp: symbol_handlers_def rt_tables_def)+

lemma rt_dispatch_frame:
  "fst (rt_dispatch run e r w) = r\<lparr>rt_count := rt_count r + 1\<rparr>"
  by (simp add: rt_dispatch_def)

lemma rt_drain_frame: "fst (rt_drain run es r w) = r\<lparr>rt_count := rt_count r + length es\<rparr>"
  by (induction es arbitrary: r w) (simp_all add: rt_dispatch_def)

lemma rt_tables_update:
  assumes "rt_tables hs names gs" "distinct l" "l \<noteq> []" "s \<in> names"
  shows "rt_tables (dset s l hs) names gs"
  using assms by (auto simp: rt_tables_def dget_dset)

lemma rt_tables_delete: "rt_tables hs names gs \<Longrightarrow> rt_tables (ddel s hs) (names - {s}) gs" "rt_tables hs names gs \<Longrightarrow> rt_tables (ddel s hs) names gs"
  by (auto simp: rt_tables_def dget_ddel split: if_splits)

lemma rt_tables_more: "rt_tables hs names gs \<Longrightarrow> rt_tables hs (insert s names) gs"
  by (auto simp: rt_tables_def)

lemma rt_step_inv:
  assumes "rt_inv (fst x)"
  shows "rt_inv (fst (fst (rt_step run x c)))"
proof -
  obtain r w where x: "x = (r, w)" by (cases x)
  have t: "rt_tables (rt_handlers r) (rt_symbols r) (rt_global r)" using assms x by (simp add: rt_inv_def)
  show ?thesis
  proof (cases c)
    case (RtSubscribe s h)
    let ?hs = "symbol_handlers s r"
    have "rt_tables (dset s (if h \<in> set ?hs then ?hs else ?hs @ [h]) (rt_handlers r)) (insert s (rt_symbols r)) (rt_global r)"
      by (rule rt_tables_update [OF rt_tables_more [OF t]]) (use symbol_handlers_tables(1) [OF t, of s] in auto)
    moreover have "symbol_handlers s (register_symbol s r) = ?hs" by (simp add: symbol_handlers_def register_symbol_def)
    ultimately show ?thesis using assms x RtSubscribe
      by (auto simp: rt_inv_def rt_subscribe_def register_symbol_def insert_absorb Let_def)
  next
    case (RtUnsubscribe s h)
    have "rt_tables (dset s (remove1 h (symbol_handlers s r)) (rt_handlers r)) (rt_symbols r) (rt_global r)"
      if ne: "remove1 h (symbol_handlers s r) \<noteq> []"
    proof (rule rt_tables_update [OF t _ ne])
      obtain y where "y \<in> set (symbol_handlers s r)" using ne by (cases "symbol_handlers s r") auto
      then show "s \<in> rt_symbols r" by (rule symbol_handlers_tables(2) [OF t])
    qed (simp add: symbol_handlers_tables(1) [OF t])
    then show ?thesis using assms x RtUnsubscribe rt_tables_delete(2) [OF t] by (simp add: rt_inv_def rt_unsubscribe_def Let_def)
  qed (use assms x rt_tables_delete(1) [OF t, of "case c of RtUnregister s \<Rightarrow> s"] rt_tables_more [OF t] in
      \<open>auto simp: rt_inv_def register_symbol_def unregister_symbol_def subscribe_global_def unsubscribe_global_def rt_route_def rt_start_def
        rt_stop_def rt_dispatch_frame rt_drain_frame rt_tables_def\<close>)
qed

lemma count_list_distinct: "distinct xs \<Longrightarrow> count_list xs h \<le> 1"
  by (induction xs) (auto simp: count_list_0_iff)

text \<open>However handlers come and go and events are routed while it runs or not, a router stays consistent:
  a symbol with handlers is registered and has each handler once, the waiting events fit the queue, and
  none waits while it runs. So an event reaches a handler at most once for its symbol and once for all.\<close>

theorem router_stays_consistent:
  "case feed (rt_step run) (new_router n, w) cs of (r, w') \<Rightarrow> rt_inv r \<and> (\<forall>e h. count_list (rt_targets e r) h \<le> 2)"
proof -
  obtain r w' where f: "feed (rt_step run) (new_router n, w) cs = (r, w')" by (cases "feed (rt_step run) (new_router n, w) cs")
  have "rt_inv (fst (feed (rt_step run) (new_router n, w) cs))"
    by (rule feed_invariant, simp add: rt_inv_def rt_tables_def new_router_def, rule rt_step_inv)
  then have inv: "rt_inv r" by (simp add: f)
  then have t: "rt_tables (rt_handlers r) (rt_symbols r) (rt_global r)" by (simp add: rt_inv_def)
  have "count_list (symbol_handlers s r) h \<le> 1" "count_list (rt_global r) h \<le> 1" for s h
    using count_list_distinct [OF symbol_handlers_tables(1) [OF t], of s h] count_list_distinct [of "rt_global r" h] t
    by (simp_all add: rt_tables_def)
  then have "count_list (rt_targets e r) h \<le> 1 + 1" for e h unfolding rt_targets_def count_list_append by (intro add_mono) auto
  then show ?thesis using inv by (simp add: f numeral_2_eq_2)
qed

text \<open>The calls that leave the handlers alone.\<close>

fun rt_flow :: "('h, 'p) rt_call \<Rightarrow> bool" where
  "rt_flow (RtRoute e) = True" | "rt_flow RtStart = True" | "rt_flow RtStop = True" | "rt_flow _ = False"

fun rt_routed :: "('h, 'p) rt_call list \<Rightarrow> 'p market_event list" where
  "rt_routed [] = []" | "rt_routed (RtRoute e # cs) = e # rt_routed cs" | "rt_routed (_ # cs) = rt_routed cs"


definition rt_serve :: "('h, 'p market_payload, 'w) runner \<Rightarrow> ('h, 'p) router \<Rightarrow> 'p market_event list \<Rightarrow> 'w \<Rightarrow> 'w" where
  "rt_serve run r es w = foldl (\<lambda>w e. run_safe run e (rt_targets e r) w) w es"

lemma rt_targets_frame [simp]:
  "rt_targets e (r\<lparr>rt_count := n\<rparr>) = rt_targets e r" "rt_targets e (r\<lparr>rt_queue := q\<rparr>) = rt_targets e r"
  "rt_targets e (r\<lparr>rt_running := b\<rparr>) = rt_targets e r"
proof -
  have "symbol_handlers s (r\<lparr>rt_count := n\<rparr>) = symbol_handlers s r" "symbol_handlers s (r\<lparr>rt_queue := q\<rparr>) = symbol_handlers s r"
    "symbol_handlers s (r\<lparr>rt_running := b\<rparr>) = symbol_handlers s r" for s by (simp_all add: symbol_handlers_def)
  then show "rt_targets e (r\<lparr>rt_count := n\<rparr>) = rt_targets e r" "rt_targets e (r\<lparr>rt_queue := q\<rparr>) = rt_targets e r"
    "rt_targets e (r\<lparr>rt_running := b\<rparr>) = rt_targets e r" by (simp_all add: rt_targets_def)
qed

lemma rt_serve_frame [simp]:
  "rt_serve run (r\<lparr>rt_count := n\<rparr>) = rt_serve run r" "rt_serve run (r\<lparr>rt_queue := q\<rparr>) = rt_serve run r"
  "rt_serve run (r\<lparr>rt_running := b\<rparr>) = rt_serve run r"
  by (simp_all add: rt_serve_def fun_eq_iff)

lemma rt_serve_append: "rt_serve run r (es @ fs) w = rt_serve run r fs (rt_serve run r es w)"
  by (simp add: rt_serve_def)

lemma rt_drain_serve: "rt_drain run es r w = (r\<lparr>rt_count := rt_count r + length es\<rparr>, rt_serve run r es w)"
  by (induction es arbitrary: r w) (simp_all add: rt_dispatch_def rt_serve_def)

lemma rt_run_keeps:
  assumes "feed (rt_step run) (r, w) cs = (r', w')" "list_all rt_flow cs" "rt_running r \<longrightarrow> rt_queue r = []"
  shows "\<exists>es. subseq (es @ rt_queue r') (rt_queue r @ rt_routed cs) \<and> w' = rt_serve run r es w \<and> rt_count r' = rt_count r + length es \<and>
    (rt_max r = 0 \<longrightarrow> es @ rt_queue r' = rt_queue r @ rt_routed cs)"
  using assms
proof (induction cs arbitrary: r w)
  case Nil
  then show ?case by (auto intro!: exI [of _ "[]"] simp: rt_serve_def)
next
  case (Cons c cs)
  show ?case
  proof (cases c)
    case (RtRoute e)
    consider "rt_running r" | "\<not> rt_running r" "0 < rt_max r \<and> rt_max r \<le> length (rt_queue r)"
      | "\<not> rt_running r" "\<not> (0 < rt_max r \<and> rt_max r \<le> length (rt_queue r))" by blast
    then show ?thesis
    proof cases
      case 1
      then have q: "rt_queue r = []" using Cons.prems(3) by simp
      obtain es where "subseq (es @ rt_queue r') (rt_routed cs)" "w' = rt_serve run r (e # es) w" "rt_count r' = rt_count r + length (e # es)"
        "rt_max r = 0 \<longrightarrow> es @ rt_queue r' = rt_routed cs"
        using Cons.IH [of "r\<lparr>rt_count := rt_count r + 1\<rparr>" "run_safe run e (rt_targets e r) w"] Cons.prems RtRoute 1 q
        by (auto simp: rt_route_def rt_dispatch_def rt_serve_def)
      then show ?thesis using q RtRoute by (intro exI [of _ "e # es"]) simp
    next
      case 2
      then obtain es where "subseq (es @ rt_queue r') (rt_queue r @ rt_routed cs)" "w' = rt_serve run r es w"
        "rt_count r' = rt_count r + length es"
        using Cons.IH [of r w] Cons.prems RtRoute by (auto simp: rt_route_def)
      moreover have "subseq (rt_queue r @ rt_routed cs) (rt_queue r @ e # rt_routed cs)" by (intro list_emb_append_mono) auto
      ultimately show ?thesis using 2 RtRoute subseq_order.trans by fastforce
    next
      case 3
      then have "fst (rt_step run (r, w) c) = (r\<lparr>rt_queue := rt_queue r @ [e]\<rparr>, w)" using RtRoute by (auto simp: rt_route_def)
      then show ?thesis using Cons.IH [of "r\<lparr>rt_queue := rt_queue r @ [e]\<rparr>" w] Cons.prems 3 RtRoute by simp
    qed
  next
    case RtStart
    show ?thesis
    proof (cases "rt_running r")
      case True
      then show ?thesis using Cons.IH [of r w] Cons.prems RtStart by (simp add: rt_start_def)
    next
      case False
      define r1 where "r1 = r\<lparr>rt_running := True, rt_queue := [], rt_count := rt_count r + length (rt_queue r)\<rparr>"
      have "fst (rt_step run (r, w) c) = (r1, rt_serve run r (rt_queue r) w)"
        using False RtStart by (simp add: rt_start_def rt_drain_serve r1_def)
      then have run: "feed (rt_step run) (r1, rt_serve run r (rt_queue r) w) cs = (r', w')" using Cons.prems(1) by simp
      have r1: "rt_queue r1 = []" "rt_count r1 = rt_count r + length (rt_queue r)" "rt_max r1 = rt_max r" "rt_serve run r1 = rt_serve run r"
        by (simp_all add: r1_def)
      have "list_all rt_flow cs" using Cons.prems(2) by simp
      note ih = Cons.IH [OF run this]
      have "rt_running r1 \<longrightarrow> rt_queue r1 = []" by (simp add: r1)
      from ih [OF this] obtain es where es: "subseq (es @ rt_queue r') (rt_routed cs)"
        "w' = rt_serve run r es (rt_serve run r (rt_queue r) w)" "rt_count r' = rt_count r + length (rt_queue r) + length es"
        "rt_max r = 0 \<longrightarrow> es @ rt_queue r' = rt_routed cs"
        unfolding r1 append_Nil by (elim exE conjE) (rule that)
      have "subseq ((rt_queue r @ es) @ rt_queue r') (rt_queue r @ rt_routed cs)"
        using list_emb_append_mono [OF subseq_order.refl [of "rt_queue r"] es(1)] by simp
      moreover have "w' = rt_serve run r (rt_queue r @ es) w" using es(2) by (simp add: rt_serve_append)
      moreover have "rt_count r' = rt_count r + length (rt_queue r @ es)" using es(3) by simp
      moreover have "rt_max r = 0 \<longrightarrow> (rt_queue r @ es) @ rt_queue r' = rt_queue r @ rt_routed cs" using es(4) by simp
      moreover have "rt_routed (c # cs) = rt_routed cs" using RtStart by simp
      ultimately show ?thesis by metis
    qed
  next
    case RtStop
    then show ?thesis using Cons.IH [of "rt_stop r" w] Cons.prems by (simp add: rt_stop_def)
  qed (use Cons.prems in simp_all)
qed

text \<open>However routing, starting and stopping interleave, the events a router has dispatched and those it
  still holds are the routed ones in their order, none twice; only a full queue loses events, a queue
  without bound none; and the count is the number dispatched.\<close>

theorem router_keeps_order:
  assumes "list_all rt_flow cs" "\<not> rt_running r" "rt_queue r = []"
  shows "case feed (rt_step run) (r, w) cs of (r', w') \<Rightarrow>
    \<exists>es. subseq (es @ rt_queue r') (rt_routed cs) \<and> w' = rt_serve run r es w \<and> rt_count r' = rt_count r + length es \<and>
      (if rt_max r = 0 then es @ rt_queue r' = rt_routed cs else True)"
  using rt_run_keeps [of run r w cs] assms by (cases "feed (rt_step run) (r, w) cs") fastforce

definition demo_event :: "unit market_event" where
  "demo_event = \<lparr>ev_class = tick_class, ev_payload = \<lparr>mp_symbol = ''BTC'', mp_data = ()\<rparr>\<rparr>"

lemma router_keeps_order_witness:
  "case feed (rt_step (log_run (\<lambda>h. None))) ((new_router 1)\<lparr>rt_global := [7 :: nat]\<rparr>, []) [RtRoute demo_event, RtRoute demo_event, RtStart, RtRoute demo_event] of
     (r', w') \<Rightarrow> \<exists>es. subseq (es @ rt_queue r') [demo_event, demo_event, demo_event] \<and> rt_count r' = length es"
  using router_keeps_order [of "[RtRoute demo_event, RtRoute demo_event, RtStart, RtRoute demo_event]" "(new_router 1)\<lparr>rt_global := [7 :: nat]\<rparr>"
    "log_run (\<lambda>h. None)" "[]"]
  by (simp add: new_router_def split: prod.splits) blast

section \<open>The subscription manager tracks its stream\<close>

text \<open>
  What a stream promises: a call that succeeds changes the subscribed symbols by its symbol, a call that
  fails does not. \<open>good\<close> is an invariant of the stream.
\<close>

locale subscribing_stream =
  fixes sub :: "'s stream_call"
    and unsub :: "'s stream_call"
    and active :: "'s \<Rightarrow> pystr set"
    and good :: "'s \<Rightarrow> bool"
  assumes sub: "good s \<Longrightarrow> case sub n s of (s', r) \<Rightarrow> good s' \<and> active s' = (case r of Inl _ \<Rightarrow> active s | Inr _ \<Rightarrow> insert n (active s))"
    and unsub: "good s \<Longrightarrow> case unsub n s of (s', r) \<Rightarrow> good s' \<and> active s' = (case r of Inl _ \<Rightarrow> active s | Inr _ \<Rightarrow> active s - {n})"
begin

definition tracks :: "pystr set \<times> 's \<Rightarrow> bool" where
  "tracks x \<longleftrightarrow> good (snd x) \<and> fst x = active (snd x)"

lemma sm_subscribe_tracks: "tracks x \<Longrightarrow> tracks (fst (sm_subscribe sub n x))"
  using sub [of "snd x" n] by (auto simp: tracks_def sm_subscribe_def split_def split: prod.splits sum.splits)

lemma sm_unsubscribe_tracks: "tracks x \<Longrightarrow> tracks (fst (sm_unsubscribe unsub n x))"
  using unsub [of "snd x" n] by (auto simp: tracks_def sm_unsubscribe_def split_def split: prod.splits sum.splits)

lemma sm_subscribe_many_tracks: "tracks x \<Longrightarrow> tracks (fst (sm_subscribe_many sub ns x))"
proof (induction ns arbitrary: x)
  case (Cons n ns)
  obtain x1 r where r: "sm_subscribe sub n x = (x1, r)" by (cases "sm_subscribe sub n x")
  then have "tracks x1" using sm_subscribe_tracks [OF Cons.prems, of n] by simp
  then show ?case using Cons.IH [of x1] r by (cases r) simp_all
qed simp

lemma sm_unsubscribe_many_tracks: "tracks x \<Longrightarrow> tracks (fst (sm_unsubscribe_many unsub ns x))"
proof (induction ns arbitrary: x)
  case (Cons n ns)
  obtain x1 r where r: "sm_unsubscribe unsub n x = (x1, r)" by (cases "sm_unsubscribe unsub n x")
  then have "tracks x1" using sm_unsubscribe_tracks [OF Cons.prems, of n] by simp
  then show ?case using Cons.IH [of x1] r by (cases r) simp_all
qed simp

end

text \<open>The web socket stream keeps the promise while its messages can be sent.\<close>

interpretation ws_stream: subscribing_stream "ws_subscribe build True" "ws_unsubscribe build True" "\<lambda>s. set (ws_symbols s)"
  "\<lambda>s. distinct (ws_symbols s)" for build
  by unfold_locales (auto simp: ws_subscribe_def ws_unsubscribe_def ws_send_def)

text \<open>A subscription whose message cannot be sent raises, yet the stream has recorded the symbol and never
  sends the message again.\<close>

lemma failed_subscription_is_recorded:
  assumes "ws_open s" "n \<notin> set (ws_symbols s)" "build n True"
  shows "case ws_subscribe build False n s of (s', r) \<Rightarrow> r = Inl RuntimeError \<and> n \<in> set (ws_symbols s') \<and> ws_subscribe build True n s' = (s', Inr ())"
  using assms by (simp add: ws_subscribe_def ws_send_def)

datatype sm_call = SmSubscribe pystr | SmUnsubscribe pystr | SmSubscribeMany "pystr list" | SmUnsubscribeMany "pystr list"

fun sm_step :: "'s stream_call \<Rightarrow> 's stream_call \<Rightarrow> pystr set \<times> 's \<Rightarrow> sm_call \<Rightarrow> (pystr set \<times> 's) \<times> unit result" where
  "sm_step sub unsub x (SmSubscribe n) = sm_subscribe sub n x"
| "sm_step sub unsub x (SmUnsubscribe n) = sm_unsubscribe unsub n x"
| "sm_step sub unsub x (SmSubscribeMany ns) = sm_subscribe_many sub ns x"
| "sm_step sub unsub x (SmUnsubscribeMany ns) = sm_unsubscribe_many unsub ns x"

lemma manager_tracks_stream:
  "case feed (sm_step (ws_subscribe build True) (ws_unsubscribe build True)) ({}, new_web_socket b :: 'p web_socket) cs of (m, s) \<Rightarrow> m = set (ws_symbols s)"
proof -
  have "ws_stream.tracks (feed (sm_step (ws_subscribe build True) (ws_unsubscribe build True)) ({}, new_web_socket b :: 'p web_socket) cs)"
  proof (rule feed_invariant)
    show "ws_stream.tracks ({}, new_web_socket b :: 'p web_socket)" by (simp add: ws_stream.tracks_def new_web_socket_def)
  next
    fix x c assume "ws_stream.tracks x"
    then show "ws_stream.tracks (fst (sm_step (ws_subscribe build True) (ws_unsubscribe build True) x c))"
      by (cases c) (simp_all add: ws_stream.sm_subscribe_tracks ws_stream.sm_unsubscribe_tracks ws_stream.sm_subscribe_many_tracks
          ws_stream.sm_unsubscribe_many_tracks)
  qed
  then show ?thesis by (simp add: ws_stream.tracks_def split_def)
qed

lemma sm_subscribe_many_again: "set ns \<subseteq> m \<Longrightarrow> sm_subscribe_many sub ns (m, s) = ((m, s), Inr ())"
  by (induction ns) (simp_all add: sm_subscribe_def)

lemma early_subscriptions:
  assumes "\<not> ws_open s" "m = set (ws_symbols s)"
  shows "\<exists>s'. sm_subscribe_many (ws_subscribe build ok) ns (m, s) = ((set ns \<union> m, s'), Inr ()) \<and> set (ws_symbols s') = set ns \<union> m \<and>
    ws_connected s' = ws_connected s \<and> ws_sent s' = ws_sent s"
  using assms
proof (induction ns arbitrary: m s)
  case (Cons n ns)
  show ?case
  proof (cases "n \<in> m")
    case True
    then show ?thesis using Cons.IH [of s m] Cons.prems by (simp add: sm_subscribe_def insert_absorb)
  next
    case False
    then show ?thesis using Cons.IH [of "s\<lparr>ws_symbols := ws_symbols s @ [n]\<rparr>" "insert n m"] Cons.prems
      by (simp add: sm_subscribe_def ws_subscribe_def ws_send_def)
  qed
qed simp

text \<open>Symbols subscribed before the stream is connected, the order in which the runtime starts, never reach
  the server: connecting sends nothing, and subscribing them again does nothing, because they are
  recorded as subscribed.\<close>

theorem early_subscriptions_are_lost:
  "let x = sm_subscribe_many (ws_subscribe build ok) ns ({}, new_web_socket b :: 'p web_socket); s = fst (ws_connect True (snd (fst x))) in
   snd x = Inr () \<and> fst (fst x) = set ns \<and> set (ws_symbols s) = set ns \<and> ws_connected s \<and> ws_sent s = [] \<and>
   sm_subscribe_many (ws_subscribe build ok) ns (fst (fst x), s) = ((fst (fst x), s), Inr ()) \<and>
   list_all (\<lambda>n. ws_subscribe build ok n s = (s, Inr ())) ns"
proof -
  obtain s0 where s0: "sm_subscribe_many (ws_subscribe build ok) ns ({}, new_web_socket b :: 'p web_socket) = ((set ns, s0), Inr ())"
    "set (ws_symbols s0) = set ns" "\<not> ws_connected s0" "ws_sent s0 = []"
    using early_subscriptions [of "new_web_socket b :: 'p web_socket" "{}" build ok ns] by (auto simp: new_web_socket_def)
  define s where "s = fst (ws_connect True s0)"
  have s: "set (ws_symbols s) = set ns" "ws_connected s" "ws_sent s = []" using s0 by (simp_all add: s_def ws_connect_def)
  have "list_all (\<lambda>n. ws_subscribe build ok n s = (s, Inr ())) ns" by (simp add: list_all_iff ws_subscribe_def s(1))
  then show ?thesis using s sm_subscribe_many_again [of ns "set ns" "ws_subscribe build ok" s] by (simp add: s0 s_def [symmetric] Let_def)
qed

section \<open>Reconnection\<close>

text \<open>The delays grow from the first to the largest, and the failures are counted up to the limit.\<close>

definition backoff :: "rat \<Rightarrow> rat \<Rightarrow> rat \<Rightarrow> int \<Rightarrow> bool" where
  "backoff i mx f n \<longleftrightarrow> 0 \<le> i \<and> i \<le> mx \<and> isfl i \<and> isfl mx \<and> 1 \<le> f \<and> 0 \<le> n"

definition rm_inv :: "rat \<Rightarrow> rat \<Rightarrow> rat \<Rightarrow> int \<Rightarrow> reconnect_manager \<Rightarrow> bool" where
  "rm_inv i mx f n m \<longleftrightarrow> rm_initial m = i \<and> rm_max m = mx \<and> rm_factor m = f \<and> rm_max_retries m = n \<and>
     i \<le> rm_delay m \<and> rm_delay m \<le> mx \<and> isfl (rm_delay m) \<and> 0 \<le> rm_retries m \<and> rm_retries m \<le> n \<and>
     list_all (\<lambda>d. i \<le> d \<and> d \<le> mx) (rm_sleeps m)"

lemma rm_connected_inv: "backoff i mx f n \<Longrightarrow> rm_inv i mx f n m \<Longrightarrow> rm_inv i mx f n (rm_connected m)"
  by (simp add: rm_inv_def rm_connected_def backoff_def)

lemma rm_attempt_inv:
  assumes "backoff i mx f n" "rm_inv i mx f n m"
  shows "rm_inv i mx f n (fst (rm_attempt connect (m, s)))"
proof -
  have "rm_delay m * 1 \<le> rm_delay m * f" by (rule mult_left_mono) (use assms in \<open>auto simp: rm_inv_def backoff_def\<close>)
  then have "rm_delay m \<le> fmul (rm_delay m) f" unfolding fmul_def
    by (intro b64.rnd_ge) (use assms in \<open>simp_all add: rm_inv_def isfl_def\<close>)
  then have "rm_inv i mx f n (m\<lparr>rm_sleeps := rm_sleeps m @ [rm_delay m], rm_retries := rm_retries m + 1,
      rm_delay := min (fmul (rm_delay m) f) mx\<rparr>)" if "rm_retries m < n"
    using assms that by (auto simp: rm_inv_def backoff_def)
  moreover have "rm_inv i mx f n (m\<lparr>rm_sleeps := rm_sleeps m @ [rm_delay m]\<rparr>)" using assms(2) by (simp add: rm_inv_def)
  moreover have "rm_factor m = f" "rm_max m = mx" "rm_max_retries m = n" using assms(2) by (simp_all add: rm_inv_def)
  ultimately show ?thesis using assms rm_connected_inv
    by (auto simp: rm_attempt_def Let_def split: prod.splits sum.splits)
qed

lemma rm_watch_inv:
  assumes "backoff i mx f n"
  shows "rm_inv i mx f n m \<Longrightarrow> rm_inv i mx f n (fst (rm_watch connect isconn fs (m, s)))"
proof (induction fs arbitrary: m s)
  case (Cons g gs)
  let ?m = "m\<lparr>rm_calls := rm_calls m @ [False]\<rparr>"
  have "rm_inv i mx f n ?m" using Cons.prems by (simp add: rm_inv_def)
  then have "rm_inv i mx f n (fst (rm_attempt connect (?m, g s)))" by (rule rm_attempt_inv [OF assms])
  then show ?case using Cons.prems Cons.IH by (cases "rm_attempt connect (?m, g s)") (simp add: Let_def)
qed simp

text \<open>C25: Whatever the stream does, the reconnection manager sleeps between its initial and its largest delay
  before each attempt and never counts more failures than its limit.\<close>

theorem reconnect_backoff_bounded:
  assumes "0 \<le> i" "i \<le> mx" "isfl i" "isfl mx" "1 \<le> f" "0 \<le> n"
  shows "let m = fst (rm_monitor connect isconn fs (rm_start (new_reconnect i mx f n), s)) in
    list_all (\<lambda>d. i \<le> d \<and> d \<le> mx) (rm_sleeps m) \<and> 0 \<le> rm_retries m \<and> rm_retries m \<le> n"
proof -
  let ?m = "rm_start (new_reconnect i mx f n)"
  have b: "backoff i mx f n" using assms by (simp add: backoff_def)
  have "rm_inv i mx f n ?m" using assms by (simp add: rm_inv_def rm_start_def new_reconnect_def)
  then have "rm_inv i mx f n (fst (rm_monitor connect isconn fs (?m, s)))"
    using rm_attempt_inv [OF b] rm_watch_inv [OF b rm_connected_inv [OF b]]
    by (auto simp: rm_monitor_def split: prod.splits sum.splits)
  then show ?thesis by (simp add: rm_inv_def Let_def)
qed

lemma reconnect_backoff_bounded_witness:
  "let m = fst (rm_monitor (\<lambda>s. (s - 1, if s = 0 then Inr () else Inl RuntimeError)) (\<lambda>s. False) [\<lambda>s. 2, \<lambda>s. s]
      (rm_start (new_reconnect 1 60 2 10), 0 :: int)) in
    list_all (\<lambda>d. 1 \<le> d \<and> d \<le> 60) (rm_sleeps m) \<and> 0 \<le> rm_retries m \<and> rm_retries m \<le> 10"
  by (rule reconnect_backoff_bounded) (simp_all add: isfl_def)

text \<open>Once the limit is reached, no attempt is made again, even when the stream would connect.\<close>

lemma exhausted_manager_gives_up:
  assumes "rm_max_retries m \<le> rm_retries m"
  shows "rm_sleeps (fst (rm_watch connect isconn fs (m, s))) = rm_sleeps m \<and> rm_retries (fst (rm_watch connect isconn fs (m, s))) = rm_retries m"
  using assms by (induction fs arbitrary: m s) (simp_all add: rm_attempt_def Let_def)

text \<open>When the first connection fails, one attempt follows and the monitor ends: however the stream behaves
  afterwards it is not watched.\<close>

lemma monitor_ends_after_failed_start:
  assumes "connect s = (s1, Inl e)"
  shows "rm_monitor connect isconn fs (m, s) = rm_monitor connect isconn [] (m, s)"
  using assms by (simp add: rm_monitor_def)

text \<open>A web socket stream whose receiving loop has died of an error still counts as connected, so the
  reconnection manager never reconnects it: nothing changes for it, whatever happens to the stream
  short of a disconnection.\<close>

theorem dead_stream_is_not_reconnected:
  assumes "ws_receiving s" "ws_running s" "ws_open s" "ws_reconnect s" "ws_connected s" "rm_running m"
  shows "let s1 = ws_receive None s in \<not> ws_receiving s1 \<and>
    rm_watch (ws_connect ok) ws_connected (map (\<lambda>e s. ws_receive e s) es) (m, s1) = (m, s1) \<and> ws_queue s1 = ws_queue s"
proof -
  define s1 where "s1 = ws_receive None s"
  have s1: "\<not> ws_receiving s1" "ws_connected s1" "ws_queue s1 = ws_queue s" using assms by (simp_all add: s1_def ws_receive_def)
  have "rm_watch (ws_connect ok) ws_connected (map (\<lambda>e s. ws_receive e s) es) (m, s1) = (m, s1)"
    using s1 assms(6) by (induction es) (simp_all add: ws_receive_def)
  then show ?thesis using s1 by (simp add: s1_def [symmetric])
qed

definition demo_socket :: "unit web_socket" where
  "demo_socket = fst (ws_connect True (new_web_socket True))"

lemma dead_stream_is_not_reconnected_witness:
  "let s1 = ws_receive None demo_socket in \<not> ws_receiving s1 \<and>
    rm_watch (ws_connect True) ws_connected (map (\<lambda>e s. ws_receive e s) [Some (Some demo_event), None]) (rm_start (new_reconnect 1 60 2 10), s1) =
      (rm_start (new_reconnect 1 60 2 10), s1) \<and> ws_queue s1 = ws_queue demo_socket"
  by (rule dead_stream_is_not_reconnected) (simp_all add: demo_socket_def ws_connect_def new_web_socket_def rm_start_def new_reconnect_def)

section \<open>Subscribers of the streaming manager\<close>

text \<open>A subscriber that was unregistered still receives every event.\<close>

lemma unregistered_subscriber_is_served:
  "st_event run e (unregister_subscriber n m) w = (case st_event run e m w of (m', w') \<Rightarrow> (unregister_subscriber n m', w'))"
  by (simp add: st_event_def unregister_subscriber_def split_def)

end
