(* ===== verification/Live.thy ===== *)
theory Live imports Oms Streaming begin

text \<open>
  Live trading (\<open>trading/live_pipeline.py\<close>, \<open>trading/runtime.py\<close>, \<open>marketdata/streaming/tick_processor.py\<close>,
  \<open>metrics/production.py\<close>): from a tick of a stream over the strategy and the order management system to
  the portfolio. The pipeline holds the state of all three; what it stores and counts is a log. The
  analytics report of a portfolio, which may raise, is the parameter \<open>rep\<close>. An order object is shared by
  the order manager and the portfolio, so what the portfolio does to it is written back.
\<close>

section \<open>Ticks\<close>

record tick_event =
  te_symbol :: pystr
  te_price :: rat
  te_size :: rat
  te_side :: pystr
  te_exchange :: pystr
  te_time :: time

definition tick_context :: "tick_event \<Rightarrow> rat option \<Rightarrow> rat option \<Rightarrow> rat \<Rightarrow> int \<Rightarrow> strategy_context result" where
  "tick_context t cash eq q n =
     new_context (te_symbol t) (Some (b64 (te_price t))) None None (Some (b64 (te_price t))) cash eq q n None"

definition bar_from_tick :: "tick_event \<Rightarrow> market_bar result" where
  "bar_from_tick t = (let p = b64 (te_price t) in new_market_bar (te_symbol t) (te_time t) p p p p (b64 (te_size t)))"

text \<open>No built-in strategy overrides \<open>on_tick\<close>, so a tick reaches the strategy as a bar of one price.\<close>

record tick_processor =
  tp_engine :: strategy_engine
  tp_processed :: nat

definition tp_process :: "tick_event \<Rightarrow> strategy_context option \<Rightarrow> tick_processor \<Rightarrow> tick_processor \<times> (strategy_context \<times> strategy_result) result" where
  "tp_process t ctx p =
     (case (case ctx of Some c \<Rightarrow> Inr c | None \<Rightarrow> tick_context t None None 0 0) of
        Inl e \<Rightarrow> (p, Inl e)
      | Inr c \<Rightarrow> (case bar_from_tick t of
            Inl e \<Rightarrow> (p, Inl e)
          | Inr m \<Rightarrow> (case process_bar m (Some c) (tp_engine p) of
                (g, Inl e) \<Rightarrow> (p\<lparr>tp_engine := g\<rparr>, Inl e)
              | (g, Inr r) \<Rightarrow> (p\<lparr>tp_engine := g, tp_processed := tp_processed p + 1\<rparr>, Inr (c, r)))))"

definition actionable :: "strategy_result \<Rightarrow> bool" where
  "actionable r \<longleftrightarrow> sg_type (rs_signal r) \<noteq> SigHold"

section \<open>Counters\<close>

record trading_metrics =
  mt_ticks :: int
  mt_orders :: int
  mt_rejected :: int
  mt_fills :: int
  mt_positions :: int
  mt_equity :: rat

definition no_metrics :: trading_metrics where
  "no_metrics = \<lparr>mt_ticks = 0, mt_orders = 0, mt_rejected = 0, mt_fills = 0, mt_positions = 0, mt_equity = 0\<rparr>"

definition count_tick :: "trading_metrics \<Rightarrow> trading_metrics" where "count_tick m = m\<lparr>mt_ticks := mt_ticks m + 1\<rparr>"
definition count_submitted :: "trading_metrics \<Rightarrow> trading_metrics" where "count_submitted m = m\<lparr>mt_orders := mt_orders m + 1\<rparr>"
definition count_rejected :: "trading_metrics \<Rightarrow> trading_metrics" where "count_rejected m = m\<lparr>mt_rejected := mt_rejected m + 1\<rparr>"
definition count_fill :: "trading_metrics \<Rightarrow> trading_metrics" where "count_fill m = m\<lparr>mt_fills := mt_fills m + 1\<rparr>"

definition set_portfolio :: "int \<Rightarrow> rat \<Rightarrow> trading_metrics \<Rightarrow> trading_metrics" where
  "set_portfolio n e m = m\<lparr>mt_positions := max 0 n, mt_equity := e\<rparr>"

section \<open>The pipeline\<close>

datatype persisted = SavedOrder order | SavedFill order | SavedDecision risk_decision | SavedSnapshot live_snapshot
  | SavedAnalytics | SavedSyncState "sync_decision list"

record 'b live_pipeline =
  lp_processor :: tick_processor
  lp_oms :: "'b oms"
  lp_sync :: synchronizer
  lp_metrics :: trading_metrics
  lp_saved :: "persisted list"
  lp_bar :: int

definition new_pipeline :: "strategy_engine \<Rightarrow> 'b oms \<Rightarrow> portfolio \<Rightarrow> pystr \<Rightarrow> 'b live_pipeline" where
  "new_pipeline g s p i = \<lparr>lp_processor = \<lparr>tp_engine = g, tp_processed = 0\<rparr>, lp_oms = s, lp_sync = new_synchronizer p i,
     lp_metrics = no_metrics, lp_saved = [], lp_bar = 0\<rparr>"

abbreviation lp_portfolio :: "'b live_pipeline \<Rightarrow> portfolio" where
  "lp_portfolio l \<equiv> sy_portfolio (lp_sync l)"

definition live_context :: "tick_event \<Rightarrow> 'b live_pipeline \<Rightarrow> strategy_context result" where
  "live_context t l =
     (let p = lp_portfolio l; q0 = (if position_is_open (pf_position p) then po_quantity (pf_position p) else 0);
          q = (case os_positions (lp_oms l) of None \<Rightarrow> q0
               | Some y \<Rightarrow> (case dget (ps_positions y) (te_symbol t) of None \<Rightarrow> q0 | Some r \<Rightarrow> pr_quantity r))
      in tick_context t (Some (pf_cash p)) (Some (equity (b64 (te_price t)) p)) q (if 0 < q then 1 else 0))"

text \<open>What is done first: the counter, the price of the tracked position, the mark of the portfolio.\<close>

definition lp_begin :: "time \<Rightarrow> tick_event \<Rightarrow> 'b live_pipeline \<Rightarrow> 'b live_pipeline" where
  "lp_begin now t l = l\<lparr>lp_metrics := count_tick (lp_metrics l),
     lp_oms := (lp_oms l)\<lparr>os_positions := map_option (ps_update_price now (te_symbol t) (b64 (te_price t))) (os_positions (lp_oms l))\<rparr>,
     lp_sync := (lp_sync l)\<lparr>sy_portfolio := mark (te_time t) (b64 (te_price t)) (lp_portfolio l)\<rparr>\<rparr>"

definition lp_save :: "persisted list \<Rightarrow> 'b live_pipeline \<Rightarrow> 'b live_pipeline" where
  "lp_save xs l = l\<lparr>lp_saved := lp_saved l @ xs\<rparr>"

definition lp_record :: "order \<Rightarrow> 'b live_pipeline \<Rightarrow> 'b live_pipeline" where
  "lp_record o1 l =
     (let m = (if or_status o1 = REJECTED then count_rejected (lp_metrics l) else count_submitted (lp_metrics l)) in
      lp_save ([SavedOrder o1] @ (if or_fill o1 \<noteq> None then [SavedFill o1] else []) @
          map SavedDecision (filter (\<lambda>d. rd_order d = or_id o1) (os_decisions (lp_oms l))))
        (l\<lparr>lp_metrics := (if or_fill o1 \<noteq> None then count_fill m else m)\<rparr>))"

text \<open>\<open>on_order_fill\<close> and \<open>on_position_close\<close> with a context of the new state.\<close>

definition lp_notify :: "tick_event \<Rightarrow> 'b live_pipeline \<Rightarrow> 'b live_pipeline \<times> unit result" where
  "lp_notify t l = (case live_context t l of
       Inl e \<Rightarrow> (l, Inl e)
     | Inr c \<Rightarrow> (l\<lparr>lp_processor := (lp_processor l)\<lparr>tp_engine := fst (se_notify (Some c) (tp_engine (lp_processor l)))\<rparr>\<rparr>, Inr ()))"

definition lp_settle :: "(rat \<Rightarrow> pystr) \<Rightarrow> (time \<Rightarrow> pystr) \<Rightarrow> tick_event \<Rightarrow> order \<Rightarrow> 'b live_pipeline \<Rightarrow> 'b live_pipeline \<times> unit result" where
  "lp_settle fs ts t o1 l =
     (case sync_apply fs ts (lp_sync l) \<lparr>sc_order = o1, sc_bar = lp_bar l, sc_price = b64 (te_price t), sc_time = te_time t\<rparr> of
        (y, Inl e) \<Rightarrow> (l\<lparr>lp_sync := y\<rparr>, Inl e)
      | (y, Inr r) \<Rightarrow>
          (let l1 = l\<lparr>lp_sync := y, lp_oms := update_order (sr_order r) (lp_oms l)\<rparr> in
           if sr_applied r \<and> or_fill (sr_order r) \<noteq> None
           then (case lp_notify t l1 of
               (l2, Inl e) \<Rightarrow> (l2, Inl e)
             | (l2, Inr _) \<Rightarrow> if sr_trade r \<noteq> None then lp_notify t l2 else (l2, Inr ()))
           else (l1, Inr ())))"

definition lp_finish :: "(portfolio \<Rightarrow> unit result) \<Rightarrow> tick_event \<Rightarrow> 'b live_pipeline \<Rightarrow> 'b live_pipeline \<times> unit result" where
  "lp_finish rep t l =
     (let (y, z) = sync_snapshot (b64 (te_price t)) (te_time t) (lp_sync l);
          l1 = lp_save [SavedSnapshot z] (l\<lparr>lp_sync := y,
            lp_metrics := set_portfolio (if 0 < ls_quantity z then 1 else 0) (ls_equity z) (lp_metrics l)\<rparr>)
      in case rep (lp_portfolio l1) of
           Inl e \<Rightarrow> (l1, Inl e)
         | Inr _ \<Rightarrow> (lp_save (SavedAnalytics # (if os_broker (lp_oms l) then [SavedSyncState (os_log (lp_oms l))] else []))
             (l1\<lparr>lp_bar := lp_bar l1 + 1\<rparr>), Inr ()))"

definition lp_trade :: "(rat \<Rightarrow> pystr) \<Rightarrow> (rat \<Rightarrow> pystr) \<Rightarrow> (time \<Rightarrow> pystr) \<Rightarrow> 'b broker \<Rightarrow> (nat \<Rightarrow> time) \<Rightarrow> time \<Rightarrow> tick_event
    \<Rightarrow> strategy_context \<Rightarrow> strategy_result \<Rightarrow> 'b live_pipeline \<Rightarrow> ('b live_pipeline \<times> unit result) option" where
  "lp_trade fs f2 ts br clock now t c r l =
     (if \<not> actionable r then Some (l, Inr ())
      else (case process_signal fs f2 br clock (sg_type (rs_signal r)) (case rs_context r of Some x \<Rightarrow> x | None \<Rightarrow> c)
                   (b64 (te_price t)) now (lp_oms l) of
          None \<Rightarrow> None
        | Some (s, None) \<Rightarrow> Some (l\<lparr>lp_oms := s\<rparr>, Inr ())
        | Some (s, Some o1) \<Rightarrow> Some (lp_settle fs ts t o1 (lp_record o1 (l\<lparr>lp_oms := s\<rparr>)))))"

definition handle_tick_event :: "(rat \<Rightarrow> pystr) \<Rightarrow> (rat \<Rightarrow> pystr) \<Rightarrow> (time \<Rightarrow> pystr) \<Rightarrow> (portfolio \<Rightarrow> unit result) \<Rightarrow> 'b broker
    \<Rightarrow> (nat \<Rightarrow> time) \<Rightarrow> time \<Rightarrow> tick_event \<Rightarrow> 'b live_pipeline \<Rightarrow> ('b live_pipeline \<times> unit result) option" where
  "handle_tick_event fs f2 ts rep br clock now t l0 =
     (let l = lp_begin now t l0 in
      case live_context t l of
        Inl e \<Rightarrow> Some (l, Inl e)
      | Inr c \<Rightarrow> (case tp_process t (Some c) (lp_processor l) of
            (p, Inl e) \<Rightarrow> Some (l\<lparr>lp_processor := p\<rparr>, Inl e)
          | (p, Inr (c', r)) \<Rightarrow> (case lp_trade fs f2 ts br clock now t c r (l\<lparr>lp_processor := p\<rparr>) of
                None \<Rightarrow> None
              | Some (l1, Inl e) \<Rightarrow> Some (l1, Inl e)
              | Some (l1, Inr _) \<Rightarrow> Some (lp_finish rep t l1))))"

section \<open>The runtime\<close>

text \<open>
  The orchestrator over a streaming manager with streams \<open>'s\<close>; its handler \<open>h\<close> is the pipeline's
  \<open>on_event\<close>. The bridge it starts works on the dispatcher of the streaming manager.
\<close>

record ('h, 'p, 's) live_runtime =
  lr_streaming :: "('h, 'p, 's) streaming_manager"
  lr_bridge :: bool
  lr_running :: bool

definition new_runtime :: "('h, 'p, 's) streaming_manager \<Rightarrow> ('h, 'p, 's) live_runtime" where
  "new_runtime m = \<lparr>lr_streaming = m, lr_bridge = False, lr_running = False\<rparr>"

fun subscribe_streams :: "'s stream_call \<Rightarrow> pystr \<Rightarrow> (pystr, 's) dict \<Rightarrow> (pystr, 's) dict \<times> unit result" where
  "subscribe_streams sub n [] = ([], Inr ())"
| "subscribe_streams sub n ((k, s) # xs) = (case sub n s of
     (s', Inl e) \<Rightarrow> ((k, s') # xs, Inl e)
   | (s', Inr _) \<Rightarrow> (case subscribe_streams sub n xs of (ys, r) \<Rightarrow> ((k, s') # ys, r)))"

fun subscribe_symbols :: "'s stream_call \<Rightarrow> pystr list \<Rightarrow> (pystr, 's) dict \<Rightarrow> (pystr, 's) dict \<times> unit result" where
  "subscribe_symbols sub [] xs = (xs, Inr ())"
| "subscribe_symbols sub (n # ns) xs = (case subscribe_streams sub n xs of
     (ys, Inl e) \<Rightarrow> (ys, Inl e) | (ys, Inr _) \<Rightarrow> subscribe_symbols sub ns ys)"

definition lr_start :: "'s stream_call \<Rightarrow> ('h, 'p market_payload, 'w) runner \<Rightarrow> 'h \<Rightarrow> pystr list \<Rightarrow> ('h, 'p, 's) live_runtime \<Rightarrow> 'w
    \<Rightarrow> (('h, 'p, 's) live_runtime \<times> 'w) \<times> unit result" where
  "lr_start sub run h ns x w =
     (if lr_running x then ((x, w), Inr ())
      else
        let m = (lr_streaming x)\<lparr>st_dispatcher := dp_subscribe tick_class h (st_dispatcher (lr_streaming x))\<rparr> in
        case subscribe_symbols sub ns (st_streams m) of
          (ss, Inl e) \<Rightarrow> ((x\<lparr>lr_streaming := m\<lparr>st_streams := ss\<rparr>\<rparr>, w), Inl e)
        | (ss, Inr _) \<Rightarrow>
            (let (d, w1) = (if lr_bridge x then (st_dispatcher m, w) else dp_start run (st_dispatcher m) w);
                 (m2, w2) = st_start run (m\<lparr>st_streams := ss, st_dispatcher := d\<rparr>) w1
             in ((x\<lparr>lr_streaming := m2, lr_bridge := True, lr_running := True\<rparr>, w2), Inr ())))"

definition lr_stop :: "('s \<Rightarrow> 's) \<Rightarrow> 'h \<Rightarrow> ('h, 'p, 's) live_runtime \<Rightarrow> ('h, 'p, 's) live_runtime" where
  "lr_stop disconnect h x =
     (if \<not> lr_running x then x
      else
        let m = st_stop disconnect ((lr_streaming x)\<lparr>st_dispatcher := dp_unsubscribe tick_class h (st_dispatcher (lr_streaming x))\<rparr>) in
        x\<lparr>lr_streaming := (if lr_bridge x then m\<lparr>st_dispatcher := dp_stop (st_dispatcher m)\<rparr> else m), lr_bridge := False, lr_running := False\<rparr>)"

text \<open>Every start that finds the runtime stopped subscribes the pipeline once more, also one that fails.\<close>

definition tick_subscriptions :: "'h \<Rightarrow> ('h, 'p, 's) live_runtime \<Rightarrow> nat" where
  "tick_subscriptions h x = subscriptions (dp_subs (st_dispatcher (lr_streaming x))) tick_class h"

lemma start_frame [simp]:
  "dp_subs (fst (dp_start run d w)) = dp_subs d" "dp_subs (st_dispatcher (fst (st_start run m w))) = dp_subs (st_dispatcher m)"
  by (simp_all add: dp_start_def st_start_def split: prod.split)

lemma start_adds_subscription:
  assumes "\<not> lr_running x"
  shows "tick_subscriptions h (fst (fst (lr_start sub run h ns x w))) = tick_subscriptions h x + 1"
proof -
  let ?m = "(lr_streaming x)\<lparr>st_dispatcher := dp_subscribe tick_class h (st_dispatcher (lr_streaming x))\<rparr>"
  obtain ss r where s: "subscribe_symbols sub ns (st_streams ?m) = (ss, r)" by (cases "subscribe_symbols sub ns (st_streams ?m)")
  obtain d w1 where d: "(if lr_bridge x then (st_dispatcher ?m, w) else dp_start run (st_dispatcher ?m) w) = (d, w1)" by fastforce
  have subs: "dp_subs d = dp_subs (st_dispatcher ?m)"
    using d by (metis fst_conv start_frame(1))
  obtain m2 w2 where m2: "st_start run (?m\<lparr>st_streams := ss, st_dispatcher := d\<rparr>) w1 = (m2, w2)" by fastforce
  have "dp_subs (st_dispatcher m2) = dp_subs (st_dispatcher (fst (st_start run (?m\<lparr>st_streams := ss, st_dispatcher := d\<rparr>) w1)))"
    by (simp only: m2 fst_conv)
  also have "\<dots> = dp_subs (st_dispatcher ?m)" using subs by simp
  finally have "dp_subs (st_dispatcher m2) = dp_subs (st_dispatcher ?m)" .
  moreover have "lr_start sub run h ns x w = (case r of
      Inl e \<Rightarrow> ((x\<lparr>lr_streaming := ?m\<lparr>st_streams := ss\<rparr>\<rparr>, w), Inl e)
    | Inr _ \<Rightarrow> ((x\<lparr>lr_streaming := m2, lr_bridge := True, lr_running := True\<rparr>, w2), Inr ()))"
    using assms by (cases r) (simp_all only: lr_start_def if_False Let_def s d m2 prod.case sum.case)
  ultimately show ?thesis
    by (cases r) (simp_all add: tick_subscriptions_def dp_subscribe_def subscriptions_change(1))
qed

section \<open>What the pipeline keeps\<close>

definition live_inv :: "'b live_pipeline \<Rightarrow> bool" where
  "live_inv l \<longleftrightarrow> oms_inv (lp_oms l) \<and> portfolio_inv (lp_portfolio l)"

lemma dset_same: "dget d k = Some v \<Longrightarrow> dset k v d = d"
  by (induction d) (auto split: if_splits)

lemma process_signal_stores:
  assumes "process_signal fs f2 br clock g c ref now s = Some (s', Some o1)"
  shows "dget (os_orders s') (or_id o1) = Some o1"
  using assms
proof (cases rule: process_signal_cases)
  case (executed s1 o2 s2 chk o3)
  then show ?thesis using execute_order_book [OF executed(6)] by (auto simp: same_book_def update_order_def dget_dset)
qed (auto simp: update_order_def dget_dset)

text \<open>What applying an order leaves of it and of the portfolio.\<close>

lemma apply_order_target:
  assumes "apply_order o1 bar p = (p', o2, r)"
  shows "o2 = o1 \<or> o2 = reject_order ''insufficient cash'' o1" "pf_equity p' = pf_equity p"
  using assms
  by (auto simp: apply_order_def apply_buy_def apply_sell_def release_def Let_def
      split: option.splits if_splits prod.splits sum.splits)

lemma sync_apply_cases:
  assumes "sync_apply fs ts y c = (y', r)"
  obtains (skipped) z where "r = Inr z" "sr_order z = sc_order c" "\<not> sr_applied z"
      "sy_portfolio y' = sy_portfolio (sync_record (sc_order c) y)" "sy_keys y' = sy_keys y"
  | (failed) p o2 e where "r = Inl e" "is_filled (sc_order c)" "or_fill (sc_order c) \<noteq> None"
      "apply_order (sc_order c) (sc_bar c) (sy_portfolio (sync_record (sc_order c) y)) = (p, o2, Inl e)" "sy_portfolio y' = p"
  | (applied) p o2 tr z where "r = Inr z" "sr_applied z" "sr_order z = o2" "sr_trade z = tr" "is_filled (sc_order c)"
      "or_fill (sc_order c) \<noteq> None" "fill_key fs ts (sc_order c) \<notin> sy_keys y"
      "apply_order (sc_order c) (sc_bar c) (sy_portfolio (sync_record (sc_order c) y)) = (p, o2, Inr tr)"
      "sy_portfolio y' = p" "sy_keys y' = insert (fill_key fs ts (sc_order c)) (sy_keys y)"
proof -
  have k: "sy_keys (sync_record (sc_order c) y) = sy_keys y" by (simp add: sync_record_def)
  show ?thesis
  proof (cases "\<not> is_filled (sc_order c) \<or> or_fill (sc_order c) = None \<or> fill_key fs ts (sc_order c) \<in> sy_keys y")
    case True
    then show ?thesis using assms skipped k by (auto simp: sync_apply_def sync_snapshot_def Let_def)
  next
    case False
    obtain p o2 q where a: "apply_order (sc_order c) (sc_bar c) (sy_portfolio (sync_record (sc_order c) y)) = (p, o2, q)"
      by (metis prod_cases3)
    show ?thesis
      using assms a False failed applied k
      by (cases q) (auto simp: sync_apply_def sync_snapshot_def Let_def)
  qed
qed

lemma sync_record_portfolio:
  "sy_portfolio (sync_record o1 y) \<in> {sy_portfolio y, record_order o1 (sy_portfolio y)}"
  by (simp add: sync_record_def)

lemma sync_record_inv: "portfolio_inv (sy_portfolio y) \<Longrightarrow> portfolio_inv (sy_portfolio (sync_record o1 y))"
  by (simp add: sync_record_def portfolio_inv_def record_order_def)

lemma lp_notify_frame [simp]:
  "lp_oms (fst (lp_notify t l)) = lp_oms l" "lp_sync (fst (lp_notify t l)) = lp_sync l" "lp_bar (fst (lp_notify t l)) = lp_bar l"
  by (simp_all add: lp_notify_def split: sum.split)

text \<open>Settling changes the order and the portfolio, nothing else.\<close>

lemma lp_settle_cases:
  assumes "lp_settle fs ts t o1 l = (l', r)" "sync_apply fs ts (lp_sync l) \<lparr>sc_order = o1, sc_bar = lp_bar l, sc_price = b64 (te_price t), sc_time = te_time t\<rparr> = (y, q)"
  shows "lp_sync l' = y \<and> lp_bar l' = lp_bar l \<and>
    lp_oms l' = (case q of Inl e \<Rightarrow> lp_oms l | Inr z \<Rightarrow> update_order (sr_order z) (lp_oms l)) \<and> (\<forall>e. q = Inl e \<longrightarrow> r = Inl e)"
proof (cases q)
  case (Inl e)
  then show ?thesis using assms by (auto simp: lp_settle_def)
next
  case (Inr z)
  let ?l = "l\<lparr>lp_sync := y, lp_oms := update_order (sr_order z) (lp_oms l)\<rparr>"
  obtain l2 r2 where n: "lp_notify t ?l = (l2, r2)" by fastforce
  then have l2: "lp_oms l2 = lp_oms ?l" "lp_sync l2 = lp_sync ?l" "lp_bar l2 = lp_bar ?l"
    using lp_notify_frame [of t ?l] by simp_all
  have "l' \<in> {?l, l2, fst (lp_notify t l2)}"
    using assms Inr n by (cases r2) (auto simp: lp_settle_def Let_def split: if_splits)
  then show ?thesis using l2 Inr by auto
qed

lemma lp_settle_inv:
  assumes "live_inv l" "dget (os_orders (lp_oms l)) (or_id o1) = Some o1"
  shows "live_inv (fst (lp_settle fs ts t o1 l))"
proof -
  obtain l' r where s: "lp_settle fs ts t o1 l = (l', r)" by fastforce
  obtain y q where a: "sync_apply fs ts (lp_sync l) \<lparr>sc_order = o1, sc_bar = lp_bar l, sc_price = b64 (te_price t), sc_time = te_time t\<rparr> = (y, q)"
    by fastforce
  have p: "portfolio_inv (sy_portfolio (sync_record o1 (lp_sync l)))" using assms(1) sync_record_inv by (simp add: live_inv_def)
  note f = lp_settle_cases [OF s a]
  from a have "portfolio_inv (sy_portfolio y) \<and> (\<forall>z. q = Inr z \<longrightarrow> oms_inv (update_order (sr_order z) (lp_oms l)))"
  proof (cases rule: sync_apply_cases)
    case (skipped z)
    then have "update_order (sr_order z) (lp_oms l) = lp_oms l" using assms(2) by (simp add: update_order_def dset_same)
    then show ?thesis using skipped p assms(1) by (auto simp: live_inv_def)
  next
    case (failed p' o2 e)
    then show ?thesis using p apply_order_inv by auto
  next
    case (applied p' o2 tr z)
    have o2: "o2 = o1 \<or> o2 = reject_order ''insufficient cash'' o1" using apply_order_target(1) applied(8) by simp
    have "or_status o1 = FILLED" using applied(5) by (simp add: is_filled_def)
    then have "oms_inv (update_order o2 (lp_oms l))"
      using assms o2 applied(6) by (intro update_order_inv [of _ "or_id o1" o1]) (auto simp: live_inv_def order_consistent_def reject_order_def)
    then show ?thesis using applied p apply_order_inv by auto
  qed
  then show ?thesis using f s assms(1) by (cases q) (auto simp: live_inv_def)
qed

lemma lp_begin_inv: "live_inv l \<Longrightarrow> live_inv (lp_begin now t l)"
  by (cases "os_positions (lp_oms l)") (auto simp: live_inv_def lp_begin_def oms_inv_def portfolio_inv_def mark_def)

lemma lp_record_frame [simp]:
  "lp_oms (lp_record o1 l) = lp_oms l" "lp_sync (lp_record o1 l) = lp_sync l" "lp_bar (lp_record o1 l) = lp_bar l"
  by (simp_all add: lp_record_def lp_save_def Let_def)

lemma lp_finish_frame [simp]:
  "lp_oms (fst (lp_finish rep t l)) = lp_oms l" "lp_portfolio (fst (lp_finish rep t l)) = lp_portfolio l"
  "sy_keys (lp_sync (fst (lp_finish rep t l))) = sy_keys (lp_sync l)"
  "snd (lp_finish rep t l) = Inr u \<Longrightarrow> lp_bar (fst (lp_finish rep t l)) = lp_bar l + 1"
  by (auto simp: lp_finish_def lp_save_def sync_snapshot_def Let_def split: sum.split)

lemma lp_trade_inv:
  assumes "live_inv l" "lp_trade fs f2 ts br clock now t c r l = Some (l', q)"
  shows "live_inv l'"
proof (cases "actionable r")
  case False
  then show ?thesis using assms by (simp add: lp_trade_def)
next
  case True
  obtain s x where p: "process_signal fs f2 br clock (sg_type (rs_signal r)) (case rs_context r of Some x \<Rightarrow> x | None \<Rightarrow> c)
      (b64 (te_price t)) now (lp_oms l) = Some (s, x)"
    using assms(2) True by (auto simp: lp_trade_def split: option.splits)
  have s: "live_inv (l\<lparr>lp_oms := s\<rparr>)" using process_signal_inv [OF _ p] assms(1) by (simp add: live_inv_def)
  show ?thesis
  proof (cases x)
    case None
    then show ?thesis using assms(2) True p s by (simp add: lp_trade_def)
  next
    case (Some o1)
    have "dget (os_orders s) (or_id o1) = Some o1" using process_signal_stores p Some by blast
    moreover have "live_inv (lp_record o1 (l\<lparr>lp_oms := s\<rparr>))" using s by (simp add: live_inv_def)
    ultimately have "live_inv (fst (lp_settle fs ts t o1 (lp_record o1 (l\<lparr>lp_oms := s\<rparr>))))" by (intro lp_settle_inv) simp_all
    then show ?thesis using assms(2) True p Some by (simp add: lp_trade_def)
  qed
qed

lemma handle_tick_inv:
  assumes "live_inv l" "handle_tick_event fs f2 ts rep br clock now t l = Some (l', r)"
  shows "live_inv l'"
proof -
  let ?l = "lp_begin now t l"
  have b: "live_inv ?l" using assms(1) by (rule lp_begin_inv)
  show ?thesis
  proof (cases "live_context t ?l")
    case (Inl e)
    then show ?thesis using assms(2) b by (simp add: handle_tick_event_def)
  next
    case (Inr c)
    obtain p q where p: "tp_process t (Some c) (lp_processor ?l) = (p, q)" by fastforce
    have bp: "live_inv (?l\<lparr>lp_processor := p\<rparr>)" using b by (simp add: live_inv_def)
    show ?thesis
    proof (cases q)
      case (Inl e)
      then show ?thesis using assms(2) bp Inr p by (simp add: handle_tick_event_def)
    next
      case qr: (Inr cr)
      obtain c' sr where cr: "cr = (c', sr)" by (cases cr)
      obtain l1 r1 where tr: "lp_trade fs f2 ts br clock now t c sr (?l\<lparr>lp_processor := p\<rparr>) = Some (l1, r1)"
        using assms(2) Inr p qr cr by (auto simp: handle_tick_event_def split: option.splits)
      have "live_inv l1" by (rule lp_trade_inv [OF bp tr])
      moreover have "l' \<in> {l1, fst (lp_finish rep t l1)}"
        using assms(2) Inr p qr cr tr by (cases r1) (auto simp: handle_tick_event_def)
      ultimately show ?thesis by (auto simp: live_inv_def)
    qed
  qed
qed

lemma tick_returns:
  assumes "clock_advances p clock"
  shows "\<exists>l' r. handle_tick_event fs f2 ts rep br clock now t l = Some (l', r)"
proof -
  have "\<exists>z. lp_trade fs f2 ts br clock now t c r l = Some z" for c r l
    using process_signal_returns [OF assms, of fs f2 br "sg_type (rs_signal r)" "case rs_context r of Some x \<Rightarrow> x | None \<Rightarrow> c"
        "b64 (te_price t)" now "lp_oms l"]
    by (auto simp: lp_trade_def split: option.splits)
  then show ?thesis
    by (auto simp: handle_tick_event_def Let_def split: sum.split prod.split option.split) (metis option.distinct(1))
qed

text \<open>One step of live trading: a tick, or a call of the order management system by the runtime.\<close>

inductive live_step :: "(rat \<Rightarrow> pystr) \<Rightarrow> (rat \<Rightarrow> pystr) \<Rightarrow> (time \<Rightarrow> pystr) \<Rightarrow> (portfolio \<Rightarrow> unit result) \<Rightarrow> 'b broker
    \<Rightarrow> 'b live_pipeline \<Rightarrow> 'b live_pipeline \<Rightarrow> bool"
  for fs f2 ts rep br where
  LiveTick: "handle_tick_event fs f2 ts rep br clock now t l = Some (l', r) \<Longrightarrow> live_step fs f2 ts rep br l l'"
| LiveCall: "oms_step fs f2 br (lp_oms l) s' \<Longrightarrow> live_step fs f2 ts rep br l (l\<lparr>lp_oms := s'\<rparr>)"

text \<open>C26: However ticks and calls follow one another, whatever the broker answers and whichever ticks fail,
  live trading keeps both books: in the order management system orders are numbered without a gap and
  each has its decision and, when filled, its fill; the portfolio's reservation, position, realised
  profit and trades agree.\<close>

theorem live_trading_keeps_books:
  assumes "new_portfolio capital a leverage = Inr p"
    and "(live_step fs f2 ts rep br)\<^sup>*\<^sup>* (new_pipeline g (new_oms x broker manager ps fraction value allowed req v) p i) l"
  shows "oms_inv (lp_oms l) \<and> portfolio_inv (lp_portfolio l)"
  using assms(2)
proof (induction rule: rtranclp_induct)
  case base
  show ?case using new_portfolio_inv [OF assms(1)] by (simp add: new_pipeline_def new_oms_def new_synchronizer_def oms_inv_def)
next
  case (step l l')
  from step.hyps(2) step.IH show ?case
    by (cases rule: live_step.cases) (auto simp: live_inv_def oms_step_inv dest: handle_tick_inv [rotated])
qed

definition demo_live_tick :: tick_event where
  "demo_live_tick = \<lparr>te_symbol = ''BTC'', te_price = 100, te_size = 1, te_side = ''buy'', te_exchange = ''X'', te_time = 5\<rparr>"

definition demo_pipeline :: "portfolio \<Rightarrow> broker_order live_pipeline" where
  "demo_pipeline p = new_pipeline (new_strategy_engine (RenkoTrend \<lparr>rt_length = 1, rt_direction = None, rt_streak = 0, rt_position = Flat, rt_brick = None, rt_signal = hold_signal\<rparr>) []) (demo_oms (LiveExec demo_live) (demo_answer B_FILLED 2)) p ''p''"

lemma live_trading_keeps_books_witness:
  "\<exists>p l. new_portfolio 1000 None 1 = Inr p \<and>
    (\<exists>r. handle_tick_event (\<lambda>x. ''1'') (\<lambda>x. ''1'') (\<lambda>x. ''t'') (\<lambda>p. Inr ()) demo_broker demo_clock 5 demo_live_tick (demo_pipeline p) = Some (l, r)) \<and>
    oms_inv (lp_oms l) \<and> portfolio_inv (lp_portfolio l)"
proof -
  obtain p where p: "new_portfolio 1000 None 1 = Inr p" by (simp add: new_portfolio_def)
  have "clock_advances 1000000 demo_clock" by (simp add: clock_advances_def demo_clock_def)
  from tick_returns [OF this, of "\<lambda>x. ''1''" "\<lambda>x. ''1''" "\<lambda>x. ''t''" "\<lambda>p. Inr ()" demo_broker 5 demo_live_tick "demo_pipeline p"]
  obtain l r where l: "handle_tick_event (\<lambda>x. ''1'') (\<lambda>x. ''1'') (\<lambda>x. ''t'') (\<lambda>p. Inr ()) demo_broker demo_clock 5 demo_live_tick (demo_pipeline p) = Some (l, r)"
    by blast
  have "(live_step (\<lambda>x. ''1'') (\<lambda>x. ''1'') (\<lambda>x. ''t'') (\<lambda>p. Inr ()) demo_broker)\<^sup>*\<^sup>* (demo_pipeline p) l"
    using live_step.LiveTick [OF l] by blast
  from live_trading_keeps_books [OF p this [unfolded demo_pipeline_def demo_oms_def]] p l show ?thesis by blast
qed

text \<open>With a clock that advances at every poll every tick is answered: handling it ends, whatever the broker does.\<close>

theorem tick_is_answered:
  assumes "clock_advances p clock"
  shows "\<exists>l' r. handle_tick_event fs f2 ts rep br clock now t l = Some (l', r)"
  by (rule tick_returns [OF assms])

lemma tick_is_answered_witness:
  "\<exists>l' r. handle_tick_event (\<lambda>x. ''1'') (\<lambda>x. ''1'') (\<lambda>x. ''t'') (\<lambda>p. Inr ()) demo_broker demo_clock 5 demo_live_tick
     (demo_pipeline demo_portfolio) = Some (l', r)"
  by (rule tick_is_answered [of 1000000]) (simp add: clock_advances_def demo_clock_def)

definition one_fill :: "(rat \<Rightarrow> pystr) \<Rightarrow> (time \<Rightarrow> pystr) \<Rightarrow> int \<Rightarrow> portfolio \<Rightarrow> pystr set \<Rightarrow> synchronizer \<Rightarrow> bool" where
  "one_fill fs ts bar p keys y \<longleftrightarrow> (\<exists>q. (q = p \<or> (\<exists>o1. q = record_order o1 p)) \<and>
     (sy_portfolio y = q \<and> sy_keys y = keys \<or>
      (\<exists>o1. is_filled o1 \<and> or_fill o1 \<noteq> None \<and> fill_key fs ts o1 \<notin> keys \<and> sy_portfolio y = fst (apply_order o1 bar q) \<and>
         sy_keys y = insert (fill_key fs ts o1) keys)))"

lemma one_fill_equity:
  assumes "one_fill fs ts bar p keys y"
  shows "pf_equity (sy_portfolio y) = pf_equity p"
proof -
  have "pf_equity (fst (apply_order o1 bar q)) = pf_equity q" for o1 q
    using apply_order_target(2) [of o1 bar q] by (cases "apply_order o1 bar q") auto
  then show ?thesis using assms by (auto simp: one_fill_def record_order_def)
qed

lemma sync_apply_one_fill:
  assumes "sync_apply fs ts y c = (y', Inr z)"
  shows "one_fill fs ts (sc_bar c) (sy_portfolio y) (sy_keys y) y'"
proof -
  have rec: "sy_portfolio (sync_record (sc_order c) y) = sy_portfolio y \<or>
      (\<exists>o1. sy_portfolio (sync_record (sc_order c) y) = record_order o1 (sy_portfolio y))"
    using sync_record_portfolio [of "sc_order c" y] by auto
  from assms show ?thesis
  proof (cases rule: sync_apply_cases)
    case (applied p o2 tr z)
    have "sy_portfolio y' = fst (apply_order (sc_order c) (sc_bar c) (sy_portfolio (sync_record (sc_order c) y)))"
      by (simp add: applied(8,9))
    then show ?thesis using applied(5-7,10) rec unfolding one_fill_def by metis
  qed (use rec in \<open>auto simp: one_fill_def\<close>)
qed

lemma lp_trade_one_fill:
  assumes "lp_trade fs f2 ts br clock now t c r l = Some (l', Inr u)"
  shows "one_fill fs ts (lp_bar l) (lp_portfolio l) (sy_keys (lp_sync l)) (lp_sync l') \<and> lp_bar l' = lp_bar l"
proof -
  have same: "one_fill fs ts bar (sy_portfolio y) (sy_keys y) y" for bar y by (auto simp: one_fill_def)
  consider "l' = l" | s where "l' = l\<lparr>lp_oms := s\<rparr>"
    | s o1 where "lp_settle fs ts t o1 (lp_record o1 (l\<lparr>lp_oms := s\<rparr>)) = (l', Inr u)"
    using assms by (auto simp: lp_trade_def split: if_splits option.splits prod.splits)
  then show ?thesis
  proof cases
    case (3 s o1)
    let ?l = "lp_record o1 (l\<lparr>lp_oms := s\<rparr>)"
    obtain y q where a: "sync_apply fs ts (lp_sync ?l) \<lparr>sc_order = o1, sc_bar = lp_bar ?l, sc_price = b64 (te_price t), sc_time = te_time t\<rparr> = (y, q)"
      by fastforce
    from lp_settle_cases [OF 3 a] obtain z where "q = Inr z" "lp_sync l' = y" "lp_bar l' = lp_bar l" by (cases q) auto
    then show ?thesis using sync_apply_one_fill [of fs ts "lp_sync ?l" _ y z] a by fastforce
  qed (simp_all add: same)
qed

text \<open>A tick that is handled to its end marks the portfolio once and otherwise changes it in at most one
  way: it records the order of the tick, and applies its fill if the order is filled and its fill was
  never applied before. Without a new fill cash, position and trades stay as they were.\<close>

theorem tick_applies_one_fill:
  "case handle_tick_event fs f2 ts rep br clock now t l of
     Some (l', Inr _) \<Rightarrow>
       lp_bar l' = lp_bar l + 1 \<and> length (pf_equity (lp_portfolio l')) = length (pf_equity (lp_portfolio l)) + 1 \<and>
       (\<exists>q. (q = mark (te_time t) (b64 (te_price t)) (lp_portfolio l) \<or>
             (\<exists>o1. q = record_order o1 (mark (te_time t) (b64 (te_price t)) (lp_portfolio l)))) \<and>
         (lp_portfolio l' = q \<and> sy_keys (lp_sync l') = sy_keys (lp_sync l) \<or>
          (\<exists>o1. is_filled o1 \<and> or_fill o1 \<noteq> None \<and> fill_key fs ts o1 \<notin> sy_keys (lp_sync l) \<and>
             lp_portfolio l' = fst (apply_order o1 (lp_bar l) q) \<and> sy_keys (lp_sync l') = insert (fill_key fs ts o1) (sy_keys (lp_sync l)))))
   | _ \<Rightarrow> True"
proof -
  let ?l = "lp_begin now t l"
  have b: "lp_portfolio ?l = mark (te_time t) (b64 (te_price t)) (lp_portfolio l)" "sy_keys (lp_sync ?l) = sy_keys (lp_sync l)"
    "lp_bar ?l = lp_bar l" by (simp_all add: lp_begin_def)
  have "lp_bar l' = lp_bar l + 1 \<and> length (pf_equity (lp_portfolio l')) = length (pf_equity (lp_portfolio l)) + 1 \<and>
      one_fill fs ts (lp_bar l) (lp_portfolio ?l) (sy_keys (lp_sync l)) (lp_sync l')"
    if h: "handle_tick_event fs f2 ts rep br clock now t l = Some (l', Inr u)" for l' u
  proof -
    obtain c p c' sr l1 v where p: "live_context t ?l = Inr c" "tp_process t (Some c) (lp_processor ?l) = (p, Inr (c', sr))"
      and tr: "lp_trade fs f2 ts br clock now t c sr (?l\<lparr>lp_processor := p\<rparr>) = Some (l1, Inr v)" and f: "lp_finish rep t l1 = (l', Inr u)"
      using h by (auto simp: handle_tick_event_def Let_def split: sum.splits prod.splits option.splits)
    have "lp_bar l' = lp_bar l1 + 1" "lp_portfolio l' = lp_portfolio l1" "sy_keys (lp_sync l') = sy_keys (lp_sync l1)"
      using lp_finish_frame [of rep t l1] f by simp_all
    moreover have of: "one_fill fs ts (lp_bar l) (lp_portfolio ?l) (sy_keys (lp_sync l)) (lp_sync l1)" and "lp_bar l1 = lp_bar l"
      using lp_trade_one_fill [OF tr] b(2,3) by simp_all
    moreover have "length (pf_equity (lp_portfolio l1)) = length (pf_equity (lp_portfolio l)) + 1"
      by (simp add: one_fill_equity [OF of] b(1) mark_def)
    ultimately show ?thesis by (simp add: one_fill_def)
  qed
  then show ?thesis unfolding one_fill_def b(1) by (auto split: option.split sum.split)
qed

section \<open>Where the books part\<close>

text \<open>A filled purchase the cash does not cover: the broker holds it, but the portfolio refuses it, the order
  ends rejected with its fill, and the result says it was applied.\<close>

lemma unaffordable_fill_is_dropped:
  assumes "or_side o1 = BUY" "is_filled o1" "or_fill o1 = Some f" "fill_key fs ts o1 \<notin> sy_keys y"
    and "fadd (pf_cash (sy_portfolio y)) (b64 (1 / 1000000000)) < fadd (fmul (fl_price f) (fl_quantity f)) (fl_cost f)"
  shows "case sync_apply fs ts y \<lparr>sc_order = o1, sc_bar = n, sc_price = x, sc_time = t\<rparr> of
    (y', Inr r) \<Rightarrow> sr_applied r \<and> or_status (sr_order r) = REJECTED \<and> or_fill (sr_order r) = Some f \<and> sr_trade r = None \<and>
      pf_position (sy_portfolio y') = pf_position (sy_portfolio y) \<and> pf_cash (sy_portfolio y') = pf_cash (sy_portfolio y)
  | _ \<Rightarrow> False"
proof -
  let ?y = "sync_record o1 y"
  have r: "pf_cash (sy_portfolio ?y) = pf_cash (sy_portfolio y)" "pf_position (sy_portfolio ?y) = pf_position (sy_portfolio y)"
    "sy_keys ?y = sy_keys y" by (simp_all add: sync_record_def record_order_def)
  then have "apply_order o1 n (sy_portfolio ?y) = (release (or_reserved o1) (sy_portfolio ?y), reject_order ''insufficient cash'' o1, Inr None)"
    using assms(1,3,5) by (simp add: apply_order_def apply_buy_def release_def Let_def)
  then show ?thesis
    using assms(2-4) r by (simp add: sync_apply_def sync_snapshot_def Let_def release_def reject_order_def)
qed

end
