(* ===== verification/Pipeline.thy ===== *)
theory Pipeline imports Events "HOL-Library.Multiset" begin

text \<open>
  The processing pipeline (\<open>pipeline/\<close>): stages are registered under a name, a graph of edges orders them, and a
  pipeline executes them one after the other with retries, announcing each step on the event bus. A stage is a
  callback: the parameter \<open>exec\<close> says what the stage of a name does to its context and to the world. Durations and
  the pauses between retries are left out.
\<close>

section \<open>Contexts and results\<close>

record 'v p_context =
  px_data :: "(pystr, 'v) dict"
  px_metadata :: "(pystr, 'v) dict"

definition px_get :: "pystr \<Rightarrow> 'v option \<Rightarrow> 'v p_context \<Rightarrow> 'v option" where
  "px_get k d c = (case dget (px_data c) k of Some v \<Rightarrow> Some v | None \<Rightarrow> d)"

definition px_set :: "pystr \<Rightarrow> 'v \<Rightarrow> 'v p_context \<Rightarrow> 'v p_context" where
  "px_set k v c = c\<lparr>px_data := dset k v (px_data c)\<rparr>"

definition px_add_metadata :: "pystr \<Rightarrow> 'v \<Rightarrow> 'v p_context \<Rightarrow> 'v p_context" where
  "px_add_metadata k v c = c\<lparr>px_metadata := dset k v (px_metadata c)\<rparr>"

text \<open>\<open>dict.update\<close>: the keys of the second dictionary replace or follow those of the first.\<close>

definition dict_merge :: "('k, 'v) dict \<Rightarrow> ('k, 'v) dict \<Rightarrow> ('k, 'v) dict" where
  "dict_merge d e = foldl (\<lambda>a (k, v). dset k v a) d e"

definition px_merge :: "'v p_context \<Rightarrow> 'v p_context \<Rightarrow> 'v p_context" where
  "px_merge c o1 = c\<lparr>px_data := dict_merge (px_data c) (px_data o1), px_metadata := dict_merge (px_metadata c) (px_metadata o1)\<rparr>"

datatype stage_status = StageSuccess | StageFailed | StageSkipped

record 'v p_result =
  pr_stage :: pystr
  pr_status :: stage_status
  pr_context :: "'v p_context"
  pr_error :: "py_error option"
  pr_retries :: nat

section \<open>Stages and their order\<close>

text \<open>The registry maps each name to its stage in the order of registration; a stage is known by its name.\<close>

type_synonym stage_registry = "pystr list"

definition register_stage :: "pystr \<Rightarrow> stage_registry \<Rightarrow> stage_registry result" where
  "register_stage n r = (if n \<in> set r then Inl ValueError else Inr (r @ [n]))"

record p_graph =
  gr_stages :: stage_registry
  gr_edges :: "(pystr, pystr list) dict"

definition new_graph :: "stage_registry \<Rightarrow> p_graph" where
  "new_graph r = \<lparr>gr_stages = r, gr_edges = []\<rparr>"

definition targets :: "(pystr, pystr list) dict \<Rightarrow> pystr \<Rightarrow> pystr list" where
  "targets es n = (case dget es n of None \<Rightarrow> [] | Some ts \<Rightarrow> ts)"

definition add_edge :: "pystr \<Rightarrow> pystr \<Rightarrow> p_graph \<Rightarrow> p_graph result" where
  "add_edge a b g = (if a \<notin> set (gr_stages g) \<or> b \<notin> set (gr_stages g) then Inl ValueError
     else Inr (g\<lparr>gr_edges := dset a (targets (gr_edges g) a @ [b]) (gr_edges g)\<rparr>))"

definition downstream :: "pystr \<Rightarrow> p_graph \<Rightarrow> pystr list" where
  "downstream a g = targets (gr_edges g) a"

definition upstream :: "pystr \<Rightarrow> p_graph \<Rightarrow> pystr list" where
  "upstream b g = map fst (filter (\<lambda>(a, ts). b \<in> set ts) (gr_edges g))"

text \<open>The visited names and the order built so far; \<open>d\<close> is the depth of recursion that is left, \<open>None\<close> that it is exhausted.\<close>

fun visit :: "nat \<Rightarrow> (pystr, pystr list) dict \<Rightarrow> pystr list \<Rightarrow> pystr list \<times> pystr list \<Rightarrow> (pystr list \<times> pystr list) option" where
  "visit d es [] s = Some s"
| "visit d es (n # ns) (vs, order) =
     (if n \<in> set vs then visit d es ns (vs, order)
      else (case d of 0 \<Rightarrow> None
        | Suc d' \<Rightarrow> (case visit d' es (targets es n) (n # vs, order) of None \<Rightarrow> None
           | Some (vs', order') \<Rightarrow> visit d es ns (vs', order' @ [n]))))"

definition ordered_stages :: "nat \<Rightarrow> p_graph \<Rightarrow> pystr list option" where
  "ordered_stages depth g = (case visit depth (gr_edges g) (gr_stages g) ([], []) of None \<Rightarrow> None | Some (vs, order) \<Rightarrow> Some (rev order))"

section \<open>Running\<close>

record p_config =
  pc_retry_count :: int

definition default_p_config :: p_config where
  "default_p_config = \<lparr>pc_retry_count = 0\<rparr>"

definition pipeline_event :: "pystr \<Rightarrow> event_class" where
  "pipeline_event n = EventClass n [base_event]"

datatype p_note = AboutPipeline | AboutStage pystr | StageOutcome pystr stage_status | StageError pystr py_error | PipelineFailed pystr "py_error option"

type_synonym ('v, 'w) stage_exec = "pystr \<Rightarrow> 'v p_context \<Rightarrow> 'w \<Rightarrow> 'w \<times> 'v p_context \<times> (py_error + 'v p_result)"

definition announce :: "('h, p_note, 'w) runner \<Rightarrow> 'h event_bus \<Rightarrow> pystr \<Rightarrow> p_note \<Rightarrow> 'w \<Rightarrow> 'w \<times> unit result" where
  "announce run bus n nt w = bus_publish run \<lparr>ev_class = pipeline_event n, ev_payload = nt\<rparr> bus w"

text \<open>The attempts at one stage: \<open>k\<close> have failed. A stage sees the changes that failed attempts made to its context.\<close>

function attempt :: "('v, 'w) stage_exec \<Rightarrow> p_config \<Rightarrow> pystr \<Rightarrow> nat \<Rightarrow> 'v p_context \<Rightarrow> 'w \<Rightarrow> 'w \<times> 'v p_context \<times> (py_error \<times> nat + 'v p_result)" where
  "attempt exec cfg n k c w = (case exec n c w of
     (w1, c1, Inr r) \<Rightarrow> (w1, c1, Inr (r\<lparr>pr_retries := k\<rparr>))
   | (w1, c1, Inl e) \<Rightarrow> if pc_retry_count cfg < int (k + 1) then (w1, c1, Inl (e, k)) else attempt exec cfg n (k + 1) c1 w1)"
  by pat_completeness auto

termination
  by (relation "measure (\<lambda>(exec, cfg, n, k, c, w). nat (pc_retry_count cfg - int k))") auto

declare attempt.simps [simp del]

definition run_stage :: "('h, p_note, 'w) runner \<Rightarrow> 'h event_bus \<Rightarrow> ('v, 'w) stage_exec \<Rightarrow> p_config \<Rightarrow> pystr \<Rightarrow> 'v p_context \<Rightarrow> 'w
    \<Rightarrow> 'w \<times> 'v p_context \<times> 'v p_result result" where
  "run_stage run bus exec cfg n c w =
     (case announce run bus ''PipelineStageStarted'' (AboutStage n) w of
        (w1, Inl e) \<Rightarrow> (w1, c, Inl e)
      | (w1, Inr _) \<Rightarrow> (case attempt exec cfg n 0 c w1 of
          (w2, c2, Inl (e, k)) \<Rightarrow> (case announce run bus ''PipelineStageFailed'' (StageError n e) w2 of
             (w3, Inl x) \<Rightarrow> (w3, c2, Inl x)
           | (w3, Inr _) \<Rightarrow> (w3, c2, Inr \<lparr>pr_stage = n, pr_status = StageFailed, pr_context = c2, pr_error = Some e, pr_retries = k\<rparr>))
        | (w2, c2, Inr r) \<Rightarrow> (case announce run bus ''PipelineStageCompleted'' (StageOutcome n (pr_status r)) w2 of
             (w3, Inl x) \<Rightarrow> (w3, c2, Inl x)
           | (w3, Inr _) \<Rightarrow> (w3, c2, Inr r))))"

text \<open>\<open>Some\<close> is the failed result that ended the loop.\<close>

fun run_stages :: "('h, p_note, 'w) runner \<Rightarrow> 'h event_bus \<Rightarrow> ('v, 'w) stage_exec \<Rightarrow> p_config \<Rightarrow> pystr list \<Rightarrow> 'v p_context \<Rightarrow> 'w
    \<Rightarrow> 'w \<times> 'v p_context \<times> 'v p_result option result" where
  "run_stages run bus exec cfg [] c w = (w, c, Inr None)"
| "run_stages run bus exec cfg (n # ns) c w = (case run_stage run bus exec cfg n c w of
     (w1, c1, Inl e) \<Rightarrow> (w1, c1, Inl e)
   | (w1, c1, Inr r) \<Rightarrow> if pr_status r = StageFailed then (w1, c1, Inr (Some r))
       else run_stages run bus exec cfg ns (px_merge c1 (pr_context r)) w1)"

definition run_pipeline :: "('h, p_note, 'w) runner \<Rightarrow> 'h event_bus \<Rightarrow> ('v, 'w) stage_exec \<Rightarrow> p_config \<Rightarrow> nat \<Rightarrow> p_graph \<Rightarrow> 'v p_context \<Rightarrow> 'w
    \<Rightarrow> 'w \<times> 'v p_result result" where
  "run_pipeline run bus exec cfg depth g c w =
     (case announce run bus ''PipelineStarted'' AboutPipeline w of
        (w1, Inl e) \<Rightarrow> (w1, Inl e)
      | (w1, Inr _) \<Rightarrow> (case ordered_stages depth g of None \<Rightarrow> (w1, Inl RuntimeError) | Some ns \<Rightarrow>
          (case run_stages run bus exec cfg ns c w1 of
             (w2, c2, Inl e) \<Rightarrow> (w2, Inl e)
           | (w2, c2, Inr None) \<Rightarrow> (case announce run bus ''PipelineCompleted'' AboutPipeline w2 of
               (w3, Inl e) \<Rightarrow> (w3, Inl e)
             | (w3, Inr _) \<Rightarrow> (w3, Inr \<lparr>pr_stage = ''pipeline'', pr_status = StageSuccess, pr_context = c2, pr_error = None, pr_retries = 0\<rparr>))
           | (w2, c2, Inr (Some r)) \<Rightarrow> (case announce run bus ''PipelineError'' (PipelineFailed (pr_stage r) (pr_error r)) w2 of
               (w3, Inl e) \<Rightarrow> (w3, Inl e)
             | (w3, Inr _) \<Rightarrow> (w3, Inr r)))))"

section \<open>The order\<close>

definition edge_rel :: "(pystr, pystr list) dict \<Rightarrow> (pystr \<times> pystr) set" where
  "edge_rel es = {(a, b). b \<in> set (targets es a)}"

text \<open>Every name comes after the targets of its edges.\<close>

fun children_first :: "(pystr, pystr list) dict \<Rightarrow> pystr list \<Rightarrow> bool" where
  "children_first es [] \<longleftrightarrow> True"
| "children_first es (n # older) \<longleftrightarrow> set (targets es n) \<subseteq> set older \<and> children_first es older"

definition wf_graph :: "p_graph \<Rightarrow> bool" where
  "wf_graph g \<longleftrightarrow> distinct (gr_stages g) \<and> edge_rel (gr_edges g) \<subseteq> set (gr_stages g) \<times> set (gr_stages g)"

lemma wf_new_graph: "distinct r \<Longrightarrow> wf_graph (new_graph r)"
  by (simp add: wf_graph_def new_graph_def edge_rel_def targets_def)

lemma targets_dset: "targets (dset a ts es) n = (if n = a then ts else targets es n)"
  by (simp add: targets_def dget_dset)

lemma edge_rel_subset: "edge_rel es \<subseteq> S \<times> S \<longleftrightarrow> (\<forall>a. \<forall>b\<in>set (targets es a). a \<in> S \<and> b \<in> S)"
  by (auto simp: edge_rel_def)

lemma wf_add_edge: "wf_graph g \<Longrightarrow> add_edge a b g = Inr g' \<Longrightarrow> wf_graph g'"
  by (auto simp: wf_graph_def add_edge_def edge_rel_subset targets_dset split: if_splits)

lemma visit_mono:
  assumes "visit d es ns s = Some s'"
  shows "set (fst s) \<subseteq> set (fst s') \<and> set ns \<subseteq> set (fst s')"
  using assms
proof (induction d es ns s arbitrary: s' rule: visit.induct)
  case (2 d es n ns vs order)
  show ?case
  proof (cases "n \<in> set vs")
    case False
    then obtain d' vs' o' where d: "d = Suc d'" "visit d' es (targets es n) (n # vs, order) = Some (vs', o')"
      "visit d es ns (vs', o' @ [n]) = Some s'" using "2.prems" by (auto split: nat.splits option.splits)
    have "set (n # vs) \<subseteq> set vs'" using "2.IH"(2) [OF False d(1,2)] by simp
    moreover have "set vs' \<subseteq> set (fst s') \<and> set ns \<subseteq> set (fst s')" using "2.IH"(3) [OF False d(1) d(2) refl d(3)] by simp
    ultimately show ?thesis by auto
  qed (use "2.IH"(1) "2.prems" in auto)
qed simp

text \<open>As many levels of recursion as there are names not yet visited are enough.\<close>

lemma visit_terminates:
  assumes "finite N" "set ns \<subseteq> N" "\<forall>a\<in>N. set (targets es a) \<subseteq> N" "card (N - set (fst s)) \<le> d"
  shows "\<exists>s'. visit d es ns s = Some s'"
  using assms
proof (induction d es ns s rule: visit.induct)
  case (2 d es n ns vs order)
  show ?case
  proof (cases "n \<in> set vs")
    case False
    have n: "n \<in> N - set vs" using False "2.prems"(2) by simp
    then have "card (N - set vs) \<noteq> 0" using "2.prems"(1) by auto
    then obtain d' where d: "d = Suc d'" using "2.prems"(4) by (cases d) auto
    have "N - set (n # vs) = N - set vs - {n}" by auto
    then have c: "card (N - set (n # vs)) \<le> d'" using n "2.prems"(1,4) d by simp
    then obtain vs' o' where v: "visit d' es (targets es n) (n # vs, order) = Some (vs', o')"
      using "2.IH"(2) [OF False d] n "2.prems" by fastforce
    have "N - set vs' \<subseteq> N - set vs" using visit_mono [OF v] by auto
    then have "card (N - set vs') \<le> d" using "2.prems"(1,4) card_mono [of "N - set vs" "N - set vs'"] by simp
    then show ?thesis using "2.IH"(3) [OF False d v refl] "2.prems" by (simp add: False d v)
  qed (use "2.IH"(1) "2.prems" in auto)
qed simp

lemma visit_within:
  assumes "visit d es ns s = Some s'" and "set ns \<subseteq> N" "set (fst s) \<subseteq> N" "\<forall>a\<in>N. set (targets es a) \<subseteq> N"
  shows "set (fst s') \<subseteq> N"
  using assms
proof (induction d es ns s arbitrary: s' rule: visit.induct)
  case (2 d es n ns vs order)
  show ?case
  proof (cases "n \<in> set vs")
    case False
    then obtain d' vs' o' where d: "d = Suc d'" "visit d' es (targets es n) (n # vs, order) = Some (vs', o')"
      "visit d es ns (vs', o' @ [n]) = Some s'" using "2.prems"(1) by (auto split: nat.splits option.splits)
    have "set vs' \<subseteq> N" using "2.IH"(2) [OF False d(1,2)] "2.prems" by simp
    then show ?thesis using "2.IH"(3) [OF False d(1) d(2) refl d(3)] "2.prems" by simp
  qed (use "2.IH"(1) "2.prems" in auto)
qed simp

lemma visit_finishes:
  assumes "visit d es ns s = Some s'" and "set (snd s) \<subseteq> set (fst s)" "distinct (snd s)"
  shows "set (snd s') \<subseteq> set (fst s') \<and> distinct (snd s') \<and> set (fst s') - set (snd s') = set (fst s) - set (snd s)"
  using assms
proof (induction d es ns s arbitrary: s' rule: visit.induct)
  case (2 d es n ns vs order)
  show ?case
  proof (cases "n \<in> set vs")
    case False
    then obtain d' vs' o' where d: "d = Suc d'" "visit d' es (targets es n) (n # vs, order) = Some (vs', o')"
      "visit d es ns (vs', o' @ [n]) = Some s'" using "2.prems"(1) by (auto split: nat.splits option.splits)
    have i: "set o' \<subseteq> set vs'" "distinct o'" "set vs' - set o' = insert n (set vs - set order)"
      using "2.IH"(2) [OF False d(1,2)] "2.prems"(2,3) False by auto
    moreover have "n \<in> set vs'" using visit_mono [OF d(2)] by auto
    ultimately show ?thesis using "2.IH"(3) [OF False d(1) d(2) refl d(3)] False by auto
  qed (use "2.IH"(1) "2.prems" in auto)
qed simp

lemma visit_order:
  assumes "visit d es ns s = Some s'" and "acyclic (edge_rel es)" and "set (snd s) \<subseteq> set (fst s)" "distinct (snd s)"
    and "children_first es (rev (snd s))" and "\<forall>g\<in>set (fst s) - set (snd s). \<forall>n\<in>set ns. (g, n) \<in> (edge_rel es)\<^sup>+"
  shows "children_first es (rev (snd s'))"
  using assms
proof (induction d es ns s arbitrary: s' rule: visit.induct)
  case (2 d es n ns vs order)
  show ?case
  proof (cases "n \<in> set vs")
    case False
    then obtain d' vs' o' where d: "d = Suc d'" "visit d' es (targets es n) (n # vs, order) = Some (vs', o')"
      "visit d es ns (vs', o' @ [n]) = Some s'" using "2.prems"(1) by (auto split: nat.splits option.splits)
    let ?E = "edge_rel es"
    have gray: "set (n # vs) - set order = insert n (set vs - set order)" using False "2.prems"(3) by auto
    have edge: "(n, t) \<in> ?E" if "t \<in> set (targets es n)" for t using that by (simp add: edge_rel_def)
    have r: "\<forall>g\<in>set (n # vs) - set order. \<forall>t\<in>set (targets es n). (g, t) \<in> ?E\<^sup>+"
      using "2.prems"(6) edge unfolding gray by (auto intro: trancl_into_trancl)
    have i: "set o' \<subseteq> set vs'" "distinct o'" "set vs' - set o' = insert n (set vs - set order)"
      using visit_finishes [OF d(2)] "2.prems"(3,4) False by auto
    have c: "children_first es (rev o')" using "2.IH"(2) [OF False d(1,2) "2.prems"(2)] "2.prems"(3-5) r by auto
    have m: "n \<in> set vs'" "set (targets es n) \<subseteq> set vs'" using visit_mono [OF d(2)] by auto
    have "set (targets es n) \<subseteq> set o'"
    proof
      fix t assume t: "t \<in> set (targets es n)"
      show "t \<in> set o'"
      proof (rule ccontr)
        assume "t \<notin> set o'"
        then have "t = n \<or> (t, n) \<in> ?E\<^sup>+" using t m(2) i(3) "2.prems"(6) by auto
        then have "(n, n) \<in> ?E\<^sup>+" using edge [OF t] by (auto intro: trancl_into_trancl2)
        then show False using "2.prems"(2) by (simp add: acyclic_def)
      qed
    qed
    moreover have "n \<notin> set o'" "set vs' - set (o' @ [n]) = set vs - set order" using i(3) False by auto
    ultimately show ?thesis using i c m(1) "2.prems"(6) by (intro "2.IH"(3) [OF False d(1) d(2) refl d(3) "2.prems"(2)]) auto
  qed (use "2.IH"(1) "2.prems" in auto)
qed simp

lemma children_first_sorted: "children_first es ns \<Longrightarrow> distinct ns \<Longrightarrow> sorted_wrt (\<lambda>a b. (b, a) \<notin> edge_rel es) ns \<and> (\<forall>a\<in>set ns. set (targets es a) \<subseteq> set ns)"
  by (induction ns) (auto simp: edge_rel_def)

text \<open>C34: The stages of a graph are ordered within as many levels of recursion as there are stages: every stage comes
  exactly once, and when the edges have no cycle no stage comes before one it depends on. A cycle is not reported: the
  order is then some order of all stages.\<close>

theorem stages_in_order:
  assumes "wf_graph g" "length (gr_stages g) \<le> depth"
  shows "case ordered_stages depth g of None \<Rightarrow> False
    | Some ns \<Rightarrow> mset ns = mset (gr_stages g) \<and> (acyclic (edge_rel (gr_edges g)) \<longrightarrow> sorted_wrt (\<lambda>a b. (b, a) \<notin> edge_rel (gr_edges g)) ns)"
proof -
  let ?N = "gr_stages g" and ?es = "gr_edges g"
  have N: "\<forall>a\<in>set ?N. set (targets ?es a) \<subseteq> set ?N" using assms(1) by (auto simp: wf_graph_def edge_rel_subset)
  have "card (set ?N - set (fst ([] :: pystr list, [] :: pystr list))) \<le> depth" using assms(2) card_length [of ?N] by simp
  then obtain vs order where v: "visit depth ?es ?N ([], []) = Some (vs, order)"
    using visit_terminates [of "set ?N" ?N ?es "([], [])" depth] N by auto
  have f: "set order = set vs" "distinct order" using visit_finishes [OF v] by auto
  have "set vs \<subseteq> set ?N" by (rule visit_within [OF v, simplified]) (use N in auto)
  then have "set order = set ?N" using visit_mono [OF v] f(1) by auto
  then have m: "mset (rev order) = mset ?N" using assms(1) f(2) by (simp add: wf_graph_def set_eq_iff_mset_eq_distinct)
  have "sorted_wrt (\<lambda>a b. (b, a) \<notin> edge_rel ?es) (rev order)" if "acyclic (edge_rel ?es)"
    using visit_order [OF v that] children_first_sorted [of ?es "rev order"] f(2) by simp
  then show ?thesis using m by (simp add: ordered_stages_def v)
qed

definition demo_graph :: p_graph where
  "demo_graph = \<lparr>gr_stages = [''trade'', ''brick'', ''load''], gr_edges = [(''load'', [''brick'']), (''brick'', [''trade''])]\<rparr>"

theorem stages_in_order_witness:
  "mset (the (ordered_stages 3 demo_graph)) = mset [''trade'', ''brick'', ''load''] \<and> ordered_stages 3 demo_graph = Some [''load'', ''brick'', ''trade'']"
proof -
  have "edge_rel (gr_edges demo_graph) \<subseteq> set (gr_stages demo_graph) \<times> set (gr_stages demo_graph)"
    unfolding edge_rel_subset by (simp add: demo_graph_def targets_def)
  then have "wf_graph demo_graph" by (simp add: wf_graph_def) (simp add: demo_graph_def)
  moreover have "ordered_stages 3 demo_graph = Some [''load'', ''brick'', ''trade'']" by code_simp
  ultimately show ?thesis using stages_in_order [of demo_graph 3] by (simp add: demo_graph_def)
qed

section \<open>Attempts\<close>

text \<open>
  To say what a run did, the world is a log: every execution of a stage is recorded with its outcome, \<open>None\<close> when it
  raised and the status of its result otherwise.
\<close>

type_synonym run_log = "(pystr \<times> stage_status option) list"

definition outcome :: "py_error + 'v p_result \<Rightarrow> stage_status option" where
  "outcome x = (case x of Inl e \<Rightarrow> None | Inr r \<Rightarrow> Some (pr_status r))"

definition logs_runs :: "('v, run_log) stage_exec \<Rightarrow> bool" where
  "logs_runs exec \<longleftrightarrow> (\<forall>n c w. fst (exec n c w) = w @ [(n, outcome (snd (snd (exec n c w))))])"

text \<open>A stage that raised \<open>k\<close> times before the execution that ended it.\<close>

definition tries :: "pystr \<Rightarrow> nat \<times> stage_status option \<Rightarrow> run_log" where
  "tries n t = replicate (fst t) (n, None) @ [(n, snd t)]"

definition passed :: "nat \<times> stage_status option \<Rightarrow> bool" where
  "passed t \<longleftrightarrow> snd t = Some StageSuccess \<or> snd t = Some StageSkipped"

text \<open>Within the retries, and a stage that raised at its end used them all.\<close>

definition within_retries :: "p_config \<Rightarrow> nat \<times> stage_status option \<Rightarrow> bool" where
  "within_retries cfg t \<longleftrightarrow> int (fst t) \<le> max 0 (pc_retry_count cfg) \<and> (snd t = None \<longrightarrow> int (fst t) = max 0 (pc_retry_count cfg))"

definition executions :: "(nat \<times> stage_status option) list \<Rightarrow> pystr list \<Rightarrow> run_log" where
  "executions ts ns = concat (map2 (\<lambda>t n. tries n t) ts ns)"

lemma executions_simps [simp]:
  "executions (t # ts) (n # ns) = tries n t @ executions ts ns" "executions [] ns = []"
  by (simp_all add: executions_def)

text \<open>The attempts that follow \<open>k\<close> failed ones.\<close>

definition ended_after :: "p_config \<Rightarrow> pystr \<Rightarrow> nat \<Rightarrow> nat \<Rightarrow> run_log \<Rightarrow> run_log \<times> 'v p_context \<times> (py_error \<times> nat + 'v p_result) \<Rightarrow> bool" where
  "ended_after cfg n k j w x \<longleftrightarrow> (case x of (w', c', r) \<Rightarrow> k \<le> j \<and> (j = k \<or> int j \<le> pc_retry_count cfg) \<and>
     (case r of Inl (e, i) \<Rightarrow> w' = w @ tries n (j - k, None) \<and> i = j \<and> pc_retry_count cfg \<le> int j
        | Inr y \<Rightarrow> w' = w @ tries n (j - k, Some (pr_status y)) \<and> pr_retries y = j))"

lemma attempt_executions:
  assumes "logs_runs exec"
  shows "\<exists>j. ended_after cfg n k j w (attempt exec cfg n k c w)"
  using assms
proof (induction exec cfg n k c w rule: attempt.induct)
  case (1 exec cfg n k c w)
  obtain w1 c1 x where x: "exec n c w = (w1, c1, x)" by (cases "exec n c w") auto
  have w1: "w1 = w @ [(n, outcome x)]" using "1.prems" x unfolding logs_runs_def by (metis fst_conv snd_conv)
  show ?case
  proof (cases "\<exists>e. x = Inl e \<and> \<not> pc_retry_count cfg < int (k + 1)")
    case True
    then obtain e where e: "x = Inl e" "\<not> pc_retry_count cfg < int (k + 1)" by blast
    obtain j where "ended_after cfg n (k + 1) j w1 (attempt exec cfg n (k + 1) c1 w1)"
      using "1.IH" [OF x [unfolded e(1), symmetric] refl refl e(2)] "1.prems" by auto
    moreover have "tries n (j - k, s) = (n, None) # tries n (j - Suc k, s)" if "Suc k \<le> j" for s
      using that by (simp add: tries_def flip: Suc_diff_Suc)
    ultimately have "ended_after cfg n k j w (attempt exec cfg n (k + 1) c1 w1)"
      using e(2) by (auto simp: ended_after_def w1 e(1) outcome_def split: prod.splits sum.splits)
    then show ?thesis using e by (subst attempt.simps) (auto simp: x)
  next
    case False
    then have "ended_after cfg n k k w (attempt exec cfg n k c w)"
      by (subst attempt.simps) (auto simp: x w1 ended_after_def outcome_def tries_def split: sum.splits)
    then show ?thesis ..
  qed
qed

section \<open>Runs\<close>

definition pipeline_events :: "pystr list" where
  "pipeline_events = [''PipelineStarted'', ''PipelineStageStarted'', ''PipelineStageCompleted'', ''PipelineStageFailed'',
     ''PipelineCompleted'', ''PipelineError'']"

text \<open>A bus that knows the events of the pipeline and has nobody listening.\<close>

definition quiet_bus :: "'h event_bus \<Rightarrow> bool" where
  "quiet_bus b \<longleftrightarrow> eb_subs b = [] \<and> list_all (\<lambda>n. is_registered (pipeline_event n) (eb_registry b)) pipeline_events"

lemma pipeline_event_sub: "is_subclass (pipeline_event n) base_event"
  by (simp add: pipeline_event_def base_event_def)

lemma announce_quiet: "quiet_bus b \<Longrightarrow> n \<in> set pipeline_events \<Longrightarrow> announce run b n nt w = (w, Inr ())"
  by (simp add: announce_def bus_publish_def pipeline_event_sub quiet_bus_def list_all_iff matching_def)

lemma run_stage_executions:
  assumes q: "quiet_bus bus" and e: "logs_runs exec"
  shows "\<exists>c' x t. run_stage run bus exec cfg n c w = (w @ tries n t, c', Inr x) \<and> pr_retries x = fst t \<and>
    within_retries cfg t \<and> (passed t \<longleftrightarrow> pr_status x \<noteq> StageFailed)"
proof -
  have a: "announce run bus m nt w = (w, Inr ())" if "m \<in> set pipeline_events" for m nt w
    by (rule announce_quiet [OF q that])
  have m: "''PipelineStageStarted'' \<in> set pipeline_events" "''PipelineStageFailed'' \<in> set pipeline_events"
    "''PipelineStageCompleted'' \<in> set pipeline_events" by (simp_all add: pipeline_events_def)
  obtain j where j: "ended_after cfg n 0 j w (attempt exec cfg n 0 c w)" using attempt_executions [OF e] by blast
  obtain w' c' x where x: "attempt exec cfg n 0 c w = (w', c', x)" by (cases "attempt exec cfg n 0 c w") auto
  show ?thesis
  proof (cases x)
    case (Inl ei)
    then show ?thesis using j unfolding x
      by (cases ei) (auto simp: run_stage_def a [OF m(1)] a [OF m(2)] x ended_after_def within_retries_def passed_def
        intro!: exI [of _ "(j, None)"])
  next
    case (Inr y)
    have "passed (j, Some (pr_status y)) \<longleftrightarrow> pr_status y \<noteq> StageFailed" by (cases "pr_status y") (simp_all add: passed_def)
    then show ?thesis using j Inr unfolding x
      by (auto simp: run_stage_def a [OF m(1)] a [OF m(3)] x ended_after_def within_retries_def
        intro!: exI [of _ "(j, Some (pr_status y))"])
  qed
qed

text \<open>How the stages ended: all passed, or all but the last one.\<close>

definition run_ends :: "p_config \<Rightarrow> pystr list \<Rightarrow> (nat \<times> stage_status option) list \<Rightarrow> 'v p_result option \<Rightarrow> bool" where
  "run_ends cfg ns ts x \<longleftrightarrow> list_all (within_retries cfg) ts \<and> (case x of
       None \<Rightarrow> length ts = length ns \<and> list_all passed ts
     | Some r \<Rightarrow> ts \<noteq> [] \<and> length ts \<le> length ns \<and> list_all passed (butlast ts) \<and> \<not> passed (last ts) \<and>
         pr_status r = StageFailed \<and> pr_retries r = fst (last ts))"

lemma run_stages_executions:
  assumes q: "quiet_bus bus" and e: "logs_runs exec"
  shows "\<exists>ts c' x. run_stages run bus exec cfg ns c w = (w @ executions ts ns, c', Inr x) \<and> run_ends cfg ns ts x"
proof (induction ns arbitrary: c w)
  case Nil
  show ?case by (simp add: run_ends_def exI [of _ "[]"])
next
  case (Cons n ns)
  obtain c1 x t where s: "run_stage run bus exec cfg n c w = (w @ tries n t, c1, Inr x)" "pr_retries x = fst t"
    "within_retries cfg t" "passed t \<longleftrightarrow> pr_status x \<noteq> StageFailed" using run_stage_executions [OF q e] by blast
  show ?case
  proof (cases "pr_status x = StageFailed")
    case True
    then show ?thesis using s by (intro exI [of _ "[t]"] exI conjI) (auto simp: run_ends_def)
  next
    case False
    obtain ts c' y where i: "run_stages run bus exec cfg ns (px_merge c1 (pr_context x)) (w @ tries n t)
        = ((w @ tries n t) @ executions ts ns, c', Inr y)" "run_ends cfg ns ts y"
      using Cons.IH [of "px_merge c1 (pr_context x)" "w @ tries n t"] by blast
    then show ?thesis using s False
      by (intro exI [of _ "t # ts"] exI conjI) (auto simp: run_ends_def split: option.splits)
  qed
qed

text \<open>C35: On a bus that knows the events of a pipeline and has nobody listening, a pipeline executes the stages in their
  order. A stage that raises is executed again, at most as often as the retry count says; the pipeline stops after the
  first stage that fails, because it raised each time or returned a failed result, and then returns a failed result with
  the number of retries that stage used. It succeeds exactly when every stage was executed and none failed.\<close>

theorem pipeline_executes_in_order:
  assumes "quiet_bus bus" "logs_runs exec" "ordered_stages depth g = Some ns"
  shows "\<exists>ts r. run_pipeline run bus exec cfg depth g c w = (w @ executions ts ns, Inr r) \<and>
    list_all (within_retries cfg) ts \<and>
    (if pr_status r = StageFailed
     then ts \<noteq> [] \<and> length ts \<le> length ns \<and> list_all passed (butlast ts) \<and> \<not> passed (last ts) \<and> pr_retries r = fst (last ts)
     else pr_status r = StageSuccess \<and> length ts = length ns \<and> list_all passed ts)"
proof -
  have m: "''PipelineStarted'' \<in> set pipeline_events" "''PipelineCompleted'' \<in> set pipeline_events"
    "''PipelineError'' \<in> set pipeline_events" by (simp_all add: pipeline_events_def)
  obtain ts c' x where s: "run_stages run bus exec cfg ns c w = (w @ executions ts ns, c', Inr x)" "run_ends cfg ns ts x"
    using run_stages_executions [OF assms(1,2)] by blast
  show ?thesis using s(2)
    by (cases x) (auto simp: run_ends_def run_pipeline_def announce_quiet [OF assms(1) m(1)] announce_quiet [OF assms(1) m(2)]
        announce_quiet [OF assms(1) m(3)] assms(3) s(1))
qed

definition demo_bus :: "nat event_bus" where
  "demo_bus = \<lparr>eb_registry = map (\<lambda>n. (n, pipeline_event n)) pipeline_events, eb_subs = []\<rparr>"

definition failing_brick :: "(nat, run_log) stage_exec" where
  "failing_brick n c w = (let x = (if n = ''brick'' then Inl RuntimeError
     else Inr \<lparr>pr_stage = n, pr_status = StageSuccess, pr_context = c, pr_error = None, pr_retries = 0\<rparr>) in (w @ [(n, outcome x)], c, x))"

theorem pipeline_executes_in_order_witness:
  "\<exists>ts r. run_pipeline (\<lambda>h e w. (w, Inr ())) demo_bus failing_brick \<lparr>pc_retry_count = 2\<rparr> 3 demo_graph \<lparr>px_data = [], px_metadata = []\<rparr> [] =
     (executions ts [''load'', ''brick'', ''trade''], Inr r) \<and> list_all (within_retries \<lparr>pc_retry_count = 2\<rparr>) ts"
proof -
  have "quiet_bus demo_bus" by (simp add: quiet_bus_def demo_bus_def pipeline_events_def is_registered_def pipeline_event_def)
  moreover have "logs_runs failing_brick" by (simp add: logs_runs_def failing_brick_def Let_def)
  moreover have "ordered_stages 3 demo_graph = Some [''load'', ''brick'', ''trade'']" by code_simp
  ultimately show ?thesis
    using pipeline_executes_in_order [of demo_bus failing_brick 3 demo_graph _ "\<lambda>h e w. (w, Inr ())" "\<lparr>pc_retry_count = 2\<rparr>"
        "\<lparr>px_data = [], px_metadata = []\<rparr>" "[]"] by fastforce
qed

text \<open>On a bus where the start of a pipeline is not registered, which no code of the repository does, running a
  pipeline raises \<open>ValueError\<close> before any stage is executed.\<close>

theorem unregistered_pipeline_raises:
  assumes "\<not> is_registered (pipeline_event ''PipelineStarted'') (eb_registry bus)"
  shows "run_pipeline run bus exec cfg depth g c w = (w, Inl ValueError)"
  using assms by (simp add: run_pipeline_def announce_def bus_publish_def pipeline_event_sub)

theorem unregistered_pipeline_raises_witness:
  "run_pipeline (\<lambda>h e w. (w, Inr ())) (new_bus :: nat event_bus) (\<lambda>n c w. (Suc w, c, Inl RuntimeError)) default_p_config 3 demo_graph
     \<lparr>px_data = [], px_metadata = []\<rparr> (7 :: nat) = (7, Inl ValueError)"
  by (rule unregistered_pipeline_raises) (simp add: new_bus_def is_registered_def)

end
