(* ===== verification/Base64.thy ===== *)
theory Base64 imports Prelude begin

text \<open>
  The URL-safe base64 coding that tokens (\<open>security/jwt.py\<close>) and stored credentials (\<open>security/credentials.py\<close>)
  use. Bytes and ASCII text are lists of characters. Decoding follows the non-strict mode of the standard library:
  characters outside the alphabet are skipped, and input may stop after sufficient padding.
\<close>

section \<open>The alphabet\<close>

definition sextet_char :: "nat \<Rightarrow> char" where
  "sextet_char n = char_of (if n < 26 then 65 + n else if n < 52 then 71 + n else if n < 62 then n - 4 else if n = 62 then 45 else 95)"

text \<open>Both the URL-safe and the standard characters stand for 62 and 63.\<close>

definition char_sextet :: "char \<Rightarrow> nat option" where
  "char_sextet c = (let n = of_char c :: nat in
     if 65 \<le> n \<and> n \<le> 90 then Some (n - 65) else if 97 \<le> n \<and> n \<le> 122 then Some (n - 71)
     else if 48 \<le> n \<and> n \<le> 57 then Some (n + 4) else if n = 45 \<or> n = 43 then Some 62 else if n = 95 \<or> n = 47 then Some 63 else None)"

section \<open>Coding\<close>

fun b64_encode :: "pystr \<Rightarrow> pystr" where
  "b64_encode [] = []"
| "b64_encode [a] = (let x = of_char a :: nat in
     [sextet_char (x div 4), sextet_char (x mod 4 * 16), CHR ''='', CHR ''='']) "
| "b64_encode [a, b] = (let x = of_char a :: nat; y = of_char b :: nat in
     [sextet_char (x div 4), sextet_char (x mod 4 * 16 + y div 16), sextet_char (y mod 16 * 4), CHR ''=''])"
| "b64_encode (a # b # c # s) = (let x = of_char a :: nat; y = of_char b :: nat; z = of_char c :: nat in
     sextet_char (x div 4) # sextet_char (x mod 4 * 16 + y div 16) # sextet_char (y mod 16 * 4 + z div 64) # sextet_char (z mod 64)
     # b64_encode s)"

text \<open>The position in the group of four, the bits left over and the padding seen.\<close>

fun b64_scan :: "nat \<Rightarrow> nat \<Rightarrow> nat \<Rightarrow> pystr \<Rightarrow> pystr result" where
  "b64_scan q left pads [] = (if q = 0 then Inr [] else Inl ValueError)"
| "b64_scan q left pads (c # cs) =
     (if c = CHR ''='' then (if 2 \<le> q \<and> 4 \<le> q + pads + 1 then Inr [] else b64_scan q left (if 2 \<le> q then pads + 1 else pads) cs)
      else (case char_sextet c of None \<Rightarrow> b64_scan q left pads cs
        | Some x \<Rightarrow>
            if q = 0 then b64_scan 1 x 0 cs
            else if q = 1 then rbind (b64_scan 2 (x mod 16) 0 cs) (\<lambda>s. Inr (char_of (left * 4 + x div 16) # s))
            else if q = 2 then rbind (b64_scan 3 (x mod 4) 0 cs) (\<lambda>s. Inr (char_of (left * 16 + x div 4) # s))
            else rbind (b64_scan 0 0 0 cs) (\<lambda>s. Inr (char_of (left * 64 + x) # s))))"

definition b64_decode :: "pystr \<Rightarrow> pystr result" where
  "b64_decode s = b64_scan 0 0 0 s"

definition strip_padding :: "pystr \<Rightarrow> pystr" where
  "strip_padding s = rev (dropWhile (\<lambda>c. c = CHR ''='') (rev s))"

text \<open>\<open>"=" * (-len(value) % 4)\<close> is appended before decoding.\<close>

definition repad :: "pystr \<Rightarrow> pystr" where
  "repad s = s @ replicate (nat ((- int (length s)) mod 4)) CHR ''=''"

section \<open>Round trips\<close>

lemma of_char_bound: "(of_char c :: nat) < 256"
  by (metis of_char_mod_256 mod_less_divisor zero_less_numeral)

lemma of_sextet_char:
  assumes "n < 64"
  shows "(of_char (sextet_char n) :: nat) = (if n < 26 then 65 + n else if n < 52 then 71 + n else if n < 62 then n - 4 else if n = 62 then 45 else 95)"
  using assms by (simp add: sextet_char_def)

lemma char_sextet_inverse [simp]: "n < 64 \<Longrightarrow> char_sextet (sextet_char n) = Some n"
  unfolding char_sextet_def Let_def by (subst of_sextet_char, assumption)+ auto

lemma sextet_not_pad [simp]: "n < 64 \<Longrightarrow> sextet_char n \<noteq> CHR ''=''"
  using of_sextet_char [of n] by (auto dest!: arg_cong [of _ _ "of_char :: char \<Rightarrow> nat"] split: if_splits)

lemma b64_scan_sextet:
  assumes "x < 64"
  shows "b64_scan 0 left pads (sextet_char x # cs) = b64_scan 1 x 0 cs"
    and "b64_scan 1 left pads (sextet_char x # cs) = rbind (b64_scan 2 (x mod 16) 0 cs) (\<lambda>s. Inr (char_of (left * 4 + x div 16) # s))"
    and "b64_scan 2 left pads (sextet_char x # cs) = rbind (b64_scan 3 (x mod 4) 0 cs) (\<lambda>s. Inr (char_of (left * 16 + x div 4) # s))"
    and "b64_scan 3 left pads (sextet_char x # cs) = rbind (b64_scan 0 0 0 cs) (\<lambda>s. Inr (char_of (left * 64 + x) # s))"
  using assms by simp_all

lemma b64_scan_pads: "b64_scan 2 left 0 ''=='' = Inr []" "b64_scan 3 left 0 ''='' = Inr []"
  by simp_all

lemma sextet_bounds:
  assumes "x < 256" "y < (256 :: nat)"
  shows "x div 4 < 64" "x mod 4 * 16 < 64" "x mod 4 * 16 + y div 16 < 64" "x mod 16 * 4 < 64" "x mod 16 * 4 + y div 64 < 64" "x mod 64 < 64"
proof -
  have d: "x div 4 < 64" "y div 16 < 16" "y div 64 < 4" using assms by (auto intro: less_mult_imp_div_less)
  have m: "x mod 4 \<le> 3" "x mod 16 \<le> 15" using mod_less_divisor [of 4 x] mod_less_divisor [of 16 x] by linarith+
  show "x div 4 < 64" "x mod 4 * 16 < 64" "x mod 4 * 16 + y div 16 < 64" "x mod 16 * 4 < 64" "x mod 16 * 4 + y div 64 < 64" "x mod 64 < 64"
    using d m by simp_all
qed

lemma sextet_joins:
  assumes "y < (256 :: nat)"
  shows "y div 16 div 16 = 0" "y div 16 mod 16 = y div 16" "y div 64 div 4 = 0" "y div 64 mod 4 = y div 64"
proof -
  have "y div 16 < 16" "y div 64 < 4" using assms by (auto intro: less_mult_imp_div_less)
  then show "y div 16 div 16 = 0" "y div 16 mod 16 = y div 16" "y div 64 div 4 = 0" "y div 64 mod 4 = y div 64" by simp_all
qed

lemmas sextets = sextet_bounds [OF of_char_bound of_char_bound] sextet_joins [OF of_char_bound]

lemma b64_scan_encode: "b64_scan 0 left pads (b64_encode s) = Inr s"
  by (induction s arbitrary: left pads rule: b64_encode.induct)
    (simp_all add: Let_def b64_scan_sextet b64_scan_pads sextets del: b64_scan.simps(2) One_nat_def)

text \<open>An encoded text is padded to a multiple of four, and its characters before the padding are not padding.\<close>

lemma b64_encode_shape:
  "\<exists>d k. b64_encode s = d @ replicate k CHR ''='' \<and> k < 4 \<and> (length d + k) mod 4 = 0 \<and> (d = [] \<or> last d \<noteq> CHR ''='') \<and>
     (d = [] \<longleftrightarrow> s = [])"
proof (induction s rule: b64_encode.induct)
  case (2 a)
  have "(of_char a :: nat) mod 4 * 16 < 64" by simp
  then show ?case
    by (intro exI [of _ "[sextet_char (of_char a div 4), sextet_char (of_char a mod 4 * 16)]"] exI [of _ 2]) (simp add: Let_def numeral_2_eq_2)
next
  case (3 a b)
  have "(of_char b :: nat) mod 16 * 4 < 64" by simp
  then show ?case
    by (intro exI [of _ "[sextet_char (of_char a div 4), sextet_char (of_char a mod 4 * 16 + of_char b div 16), sextet_char (of_char b mod 16 * 4)]"]
        exI [of _ 1]) (simp add: Let_def)
next
  case (4 a b c s)
  obtain d k where d: "b64_encode s = d @ replicate k CHR ''=''" "k < 4" "(length d + k) mod 4 = 0" "d = [] \<or> last d \<noteq> CHR ''=''"
    using "4.IH" [OF refl refl refl] by (elim exE conjE) (rule that; assumption)
  have "(of_char c :: nat) mod 64 < 64" by simp
  let ?d = "sextet_char (of_char a div 4) # sextet_char (of_char a mod 4 * 16 + of_char b div 16) #
      sextet_char (of_char b mod 16 * 4 + of_char c div 64) # sextet_char (of_char c mod 64) # d"
  have "(length ?d + k) mod 4 = (length d + k + 4) mod 4" by simp
  then have "(length ?d + k) mod 4 = 0" using d(3) by (simp only: mod_add_self2)
  moreover have "last ?d \<noteq> CHR ''=''" using d(4) \<open>of_char c mod 64 < 64\<close> by (cases "d = []") simp_all
  ultimately show ?case using d(1,2) by (intro exI [of _ ?d] exI [of _ k]) (simp add: Let_def)
qed simp

lemma padding_length: "k < 4 \<Longrightarrow> ((n :: nat) + k) mod 4 = 0 \<Longrightarrow> nat ((- int n) mod 4) = k"
proof -
  assume k: "k < 4" "(n + k) mod 4 = 0"
  then obtain q where "n + k = 4 * q" by (auto simp: mod_0_imp_dvd elim!: dvdE)
  then have "- int n = int k + 4 * (- int q)" by linarith
  then have "(- int n) mod 4 = int k mod 4" by (simp only: mod_mult_self2)
  then show ?thesis using k(1) by simp
qed

lemma repad_strip: "repad (strip_padding (b64_encode s)) = b64_encode s"
proof -
  obtain d k where d: "b64_encode s = d @ replicate k CHR ''=''" "k < 4" "(length d + k) mod 4 = 0" "d = [] \<or> last d \<noteq> CHR ''=''"
    using b64_encode_shape [of s] by (elim exE conjE) (rule that; assumption)
  have "dropWhile (\<lambda>c. c = CHR ''='') (replicate k CHR ''='' @ rev d) = rev d"
    using d(4) by (simp add: dropWhile_append hd_rev dropWhile_eq_self_iff)
  then have "strip_padding (b64_encode s) = d" by (simp add: strip_padding_def d(1))
  moreover have "nat ((- int (length d)) mod 4) = k" using d(2,3) by (rule padding_length)
  ultimately show ?thesis by (simp add: repad_def d(1))
qed

text \<open>Decoding what was encoded gives the bytes back, also after the padding was stripped and put back by length.\<close>

theorem base64_round_trip:
  "b64_decode (b64_encode s) = Inr s \<and> b64_decode (repad (strip_padding (b64_encode s))) = Inr s"
  by (simp add: repad_strip b64_decode_def b64_scan_encode)

end
