(* ===== verification/Security.thy ===== *)
theory Security imports Base64 Scenarios begin

text \<open>
  Security (\<open>security/\<close>): permissions and roles, the kill switch, password hashes, the user file, signed tokens with
  their revocation, and stored broker credentials. The key derivation \<open>kdf\<close>, the package for tokens and, for the code
  that does without it, the message authentication code and the JSON text of a token are parameters, random salts and
  token ids are supplied from outside, and texts are ASCII. A file is the data it holds.
\<close>

section \<open>Permissions\<close>

datatype permission = MayView | MaySubmit | MayCancel | MayModify | MayManage | MayKill

fun permission_value :: "permission \<Rightarrow> pystr" where
  "permission_value MayView = ''trading:view''"
| "permission_value MaySubmit = ''trading:submit_order''"
| "permission_value MayCancel = ''trading:cancel_order''"
| "permission_value MayModify = ''trading:modify_order''"
| "permission_value MayManage = ''trading:manage_runtime''"
| "permission_value MayKill = ''trading:kill_switch''"

definition all_permissions :: "permission list" where
  "all_permissions = [MayView, MaySubmit, MayCancel, MayModify, MayManage, MayKill]"

definition permission_of :: "pystr \<Rightarrow> permission result" where
  "permission_of s = (case find (\<lambda>p. permission_value p = s) all_permissions of None \<Rightarrow> Inl ValueError | Some p \<Rightarrow> Inr p)"

record principal =
  pn_subject :: pystr
  pn_roles :: "pystr set"
  pn_permissions :: "permission set"

type_synonym authorizer = "(pystr, permission list) dict"

definition new_authorizer :: "(pystr, permission list) dict \<Rightarrow> authorizer" where
  "new_authorizer extra = foldl (\<lambda>a (k, v). dset k v a)
     [(''viewer'', [MayView]), (''trader'', [MayView, MaySubmit, MayCancel]), (''admin'', all_permissions)] extra"

definition role_allows :: "authorizer \<Rightarrow> permission \<Rightarrow> pystr \<Rightarrow> bool" where
  "role_allows a p r \<longleftrightarrow> (case dget a r of None \<Rightarrow> False | Some ps \<Rightarrow> p \<in> set ps)"

definition allowed :: "authorizer \<Rightarrow> principal \<Rightarrow> permission \<Rightarrow> bool" where
  "allowed a pn p \<longleftrightarrow> p \<in> pn_permissions pn \<or> (\<exists>r\<in>pn_roles pn. role_allows a p r)"

definition require_permission :: "authorizer \<Rightarrow> principal \<Rightarrow> permission \<Rightarrow> unit result" where
  "require_permission a pn p = require (allowed a pn p) PermissionError"

section \<open>The kill switch\<close>

record kill_switch =
  ks_engaged :: bool
  ks_reason :: "pystr option"

definition new_kill_switch :: kill_switch where "new_kill_switch = \<lparr>ks_engaged = False, ks_reason = None\<rparr>"
definition engage :: "pystr \<Rightarrow> kill_switch \<Rightarrow> kill_switch" where "engage r k = k\<lparr>ks_engaged := True, ks_reason := Some r\<rparr>"
definition disengage :: "kill_switch \<Rightarrow> kill_switch" where "disengage k = k\<lparr>ks_engaged := False, ks_reason := None\<rparr>"

definition ensure_trading_allowed :: "kill_switch \<Rightarrow> unit result" where
  "ensure_trading_allowed k = require (\<not> ks_engaged k) RuntimeError"

section \<open>Passwords\<close>

definition hex_digit :: "nat \<Rightarrow> char" where
  "hex_digit n = char_of (if n < 10 then 48 + n else 87 + n)"

definition hex_value :: "char \<Rightarrow> nat option" where
  "hex_value c = (let n = of_char c :: nat in
     if 48 \<le> n \<and> n \<le> 57 then Some (n - 48) else if 97 \<le> n \<and> n \<le> 102 then Some (n - 87)
     else if 65 \<le> n \<and> n \<le> 70 then Some (n - 55) else None)"

definition hex_space :: "char \<Rightarrow> bool" where
  "hex_space c \<longleftrightarrow> (let n = of_char c :: nat in n = 32 \<or> 9 \<le> n \<and> n \<le> 13)"

fun hex_text :: "pystr \<Rightarrow> pystr" where
  "hex_text [] = []"
| "hex_text (c # s) = hex_digit (of_char c div 16) # hex_digit (of_char c mod 16) # hex_text s"

text \<open>\<open>bytes.fromhex\<close> skips white space between the pairs.\<close>

fun from_hex :: "pystr \<Rightarrow> pystr result" where
  "from_hex [] = Inr []"
| "from_hex [c] = (if hex_space c then Inr [] else Inl ValueError)"
| "from_hex (c # d # s) = (if hex_space c then from_hex (d # s)
     else (case (hex_value c, hex_value d) of
         (Some x, Some y) \<Rightarrow> rbind (from_hex s) (\<lambda>t. Inr (char_of (x * 16 + y) # t))
       | _ \<Rightarrow> Inl ValueError))"

text \<open>\<open>split\<close> at most \<open>n\<close> times.\<close>

fun split_max :: "nat \<Rightarrow> char \<Rightarrow> pystr \<Rightarrow> pystr list" where
  "split_max n c [] = [[]]"
| "split_max n c (x # s) = (if x = c \<and> 0 < n then [] # split_max (n - 1) c s
     else (case split_max n c s of [] \<Rightarrow> [[x]] | t # ts \<Rightarrow> (x # t) # ts))"

type_synonym derivation = "pystr \<Rightarrow> pystr \<Rightarrow> int \<Rightarrow> pystr result"

text \<open>\<open>random_salt\<close> is what the random source returns; an empty salt is replaced by it.\<close>

definition hash_password :: "derivation \<Rightarrow> int \<Rightarrow> pystr \<Rightarrow> pystr \<Rightarrow> pystr option \<Rightarrow> pystr result" where
  "hash_password kdf iters random_salt pw salt =
     (if pw = [] then Inl ValueError
      else (let s = (case salt of None \<Rightarrow> random_salt | Some t \<Rightarrow> if t = [] then random_salt else t)
            in rbind (kdf pw s iters) (\<lambda>d. Inr (''pbkdf2_sha256$'' @ str_int iters @ ''$'' @ hex_text s @ ''$'' @ hex_text d))))"

text \<open>Every failure is \<open>False\<close>.\<close>

definition verify_password :: "derivation \<Rightarrow> int \<Rightarrow> pystr \<Rightarrow> pystr \<Rightarrow> pystr \<Rightarrow> bool" where
  "verify_password kdf iters random_salt pw enc = (case split_max 3 CHR ''$'' enc of
     [alg, it, salt, dig] \<Rightarrow> alg = ''pbkdf2_sha256'' \<and>
       (case rbind (from_hex salt) (\<lambda>s. rbind (hash_password kdf iters random_salt pw (Some s)) (\<lambda>_.
          case int_of_text it of None \<Rightarrow> Inl ValueError | Some n \<Rightarrow> kdf pw s n)) of
        Inl e \<Rightarrow> False | Inr d \<Rightarrow> dig = hex_text d)
   | _ \<Rightarrow> False)"

section \<open>Users\<close>

record user =
  us_name :: pystr
  us_hash :: pystr
  us_roles :: "pystr set"
  us_permissions :: "permission set"
  us_active :: bool
  us_created :: time

record stored_user =
  su_hash :: pystr
  su_roles :: "pystr list"
  su_permissions :: "pystr list"
  su_active :: bool
  su_created :: time

type_synonym user_file = "(pystr, stored_user) dict"

definition load_user :: "pystr \<times> stored_user \<Rightarrow> (pystr \<times> user) result" where
  "load_user e = rbind (collect (map permission_of (su_permissions (snd e)))) (\<lambda>ps. Inr (fst e,
     \<lparr>us_name = fst e, us_hash = su_hash (snd e), us_roles = set (su_roles (snd e)), us_permissions = set ps,
      us_active = su_active (snd e), us_created = su_created (snd e)\<rparr>))"

definition read_users :: "user_file \<Rightarrow> (pystr, user) dict result" where
  "read_users f = collect (map load_user f)"

definition store_user :: "user \<Rightarrow> stored_user" where
  "store_user u = \<lparr>su_hash = us_hash u, su_roles = sorted_list_of_set (us_roles u),
     su_permissions = sorted_list_of_set (permission_value ` us_permissions u), su_active = us_active u, su_created = us_created u\<rparr>"

text \<open>The file is written with sorted keys.\<close>

definition write_users :: "(pystr, user) dict \<Rightarrow> user_file" where
  "write_users us = sorted_items (map (\<lambda>(k, u). (k, store_user u)) us)"

definition get_user :: "user_file \<Rightarrow> pystr \<Rightarrow> user option result" where
  "get_user f n = rbind (read_users f) (\<lambda>us. Inr (dget us n))"

definition save_user :: "user \<Rightarrow> user_file \<Rightarrow> user_file result" where
  "save_user u f = rbind (read_users f) (\<lambda>us. Inr (write_users (dset (us_name u) u us)))"

definition list_users :: "user_file \<Rightarrow> user list result" where
  "list_users f = rbind (read_users f) (\<lambda>us. Inr (sort_key us_name (dvals us)))"

definition ensure_user :: "derivation \<Rightarrow> pystr \<Rightarrow> time \<Rightarrow> pystr \<Rightarrow> pystr \<Rightarrow> pystr set \<Rightarrow> user_file \<Rightarrow> (user_file \<times> user) result" where
  "ensure_user kdf random_salt now n pw roles f = rbind (read_users f) (\<lambda>us. case dget us n of
       Some u \<Rightarrow> Inr (f, u)
     | None \<Rightarrow> rbind (hash_password kdf 260000 random_salt pw None) (\<lambda>h.
         let u = \<lparr>us_name = n, us_hash = h, us_roles = roles, us_permissions = {}, us_active = True, us_created = now\<rparr>
         in Inr (write_users (dset n u us), u)))"

section \<open>Tokens\<close>

record claims =
  cl_sub :: pystr
  cl_typ :: pystr
  cl_roles :: "pystr list"
  cl_permissions :: "pystr list"
  cl_exp :: int
  cl_iat :: int
  cl_jti :: pystr
  cl_iss :: pystr

text \<open>
  The third-party package for tokens, when it is installed: what it writes with a key for the claims, and what it reads
  from a token at some time with a key for an issuer.
\<close>

record jwt_library =
  jl_encode :: "pystr \<Rightarrow> claims \<Rightarrow> pystr"
  jl_decode :: "pystr \<Rightarrow> pystr \<Rightarrow> time \<Rightarrow> pystr \<Rightarrow> claims result"

text \<open>
  The package, the settings of the service, the code that signs, the JSON text of the claims and how it is read, and the
  supply of token ids.
\<close>

record token_env =
  tk_library :: "jwt_library option"
  tk_secret :: pystr
  tk_issuer :: pystr
  tk_seconds :: int
  tk_mac :: "pystr \<Rightarrow> pystr \<Rightarrow> pystr"
  tk_dumps :: "claims \<Rightarrow> pystr"
  tk_loads :: "pystr \<Rightarrow> claims result"
  tk_fresh :: "nat \<Rightarrow> pystr"

definition seconds_of :: "time \<Rightarrow> int" where
  "seconds_of t = t div 1000000"

definition token_header :: pystr where
  "token_header = ''{\"alg\":\"HS256\",\"typ\":\"JWT\"}''"

definition sign_part :: "token_env \<Rightarrow> pystr \<Rightarrow> pystr" where
  "sign_part v inp = strip_padding (b64_encode (tk_mac v (tk_secret v) inp))"

definition encode_token :: "token_env \<Rightarrow> claims \<Rightarrow> pystr" where
  "encode_token v c = (let inp = strip_padding (b64_encode token_header) @ ''.'' @ strip_padding (b64_encode (tk_dumps v c))
     in inp @ ''.'' @ sign_part v inp)"

definition decode_fallback :: "token_env \<Rightarrow> time \<Rightarrow> pystr \<Rightarrow> claims result" where
  "decode_fallback v now t = (case split_max (length t) CHR ''.'' t of
     [h, p, sig] \<Rightarrow>
       if sig \<noteq> sign_part v (h @ ''.'' @ p) then Inl ValueError
       else (case rbind (b64_decode (repad p)) (tk_loads v) of
           Inl e \<Rightarrow> Inl ValueError
         | Inr c \<Rightarrow> if cl_iss c \<noteq> tk_issuer v then Inl ValueError else if cl_exp c < seconds_of now then Inl ValueError else Inr c)
   | _ \<Rightarrow> Inl ValueError)"

definition decode_token :: "token_env \<Rightarrow> time \<Rightarrow> pystr \<Rightarrow> claims result" where
  "decode_token v now t = (case tk_library v of
       Some l \<Rightarrow> jl_decode l (tk_secret v) (tk_issuer v) now t
     | None \<Rightarrow> decode_fallback v now t)"

text \<open>Both ways of encoding turn the two times into whole seconds.\<close>

definition create_token :: "token_env \<Rightarrow> time \<Rightarrow> pystr \<Rightarrow> pystr \<Rightarrow> pystr \<Rightarrow> pystr list \<Rightarrow> pystr list \<Rightarrow> int \<Rightarrow> pystr" where
  "create_token v now jti sub typ roles perms secs =
     (let c = \<lparr>cl_sub = sub, cl_typ = typ, cl_roles = roles, cl_permissions = perms,
          cl_exp = seconds_of (now + (if secs = 0 then tk_seconds v else secs) * 1000000), cl_iat = seconds_of now,
          cl_jti = jti, cl_iss = tk_issuer v\<rparr>
      in case tk_library v of Some l \<Rightarrow> jl_encode l (tk_secret v) c | None \<Rightarrow> encode_token v c)"

section \<open>Authentication\<close>

record auth =
  au_users :: user_file
  au_revoked :: "pystr set"
  au_issued :: nat

definition tokens_for :: "token_env \<Rightarrow> time \<Rightarrow> user \<Rightarrow> auth \<Rightarrow> auth \<times> pystr \<times> pystr" where
  "tokens_for v now u s =
     (let roles = sorted_list_of_set (us_roles u); perms = sorted_list_of_set (permission_value ` us_permissions u); k = au_issued s
      in (s\<lparr>au_issued := k + 2\<rparr>,
          create_token v now (tk_fresh v k) (us_name u) ''access'' roles perms (tk_seconds v),
          create_token v now (tk_fresh v (k + 1)) (us_name u) ''refresh'' roles perms (max (tk_seconds v * 24) 86400)))"

definition is_revoked :: "auth \<Rightarrow> pystr \<Rightarrow> bool" where
  "is_revoked s j \<longleftrightarrow> j \<noteq> [] \<and> j \<in> au_revoked s"

definition login :: "token_env \<Rightarrow> (pystr \<Rightarrow> pystr \<Rightarrow> bool) \<Rightarrow> time \<Rightarrow> pystr \<Rightarrow> pystr \<Rightarrow> auth \<Rightarrow> auth \<times> (pystr \<times> pystr) result" where
  "login v verify now n pw s = (case get_user (au_users s) n of
       Inl e \<Rightarrow> (s, Inl e)
     | Inr None \<Rightarrow> (s, Inl PermissionError)
     | Inr (Some u) \<Rightarrow> if \<not> us_active u \<or> \<not> verify pw (us_hash u) then (s, Inl PermissionError)
         else (case tokens_for v now u s of (s', a, r) \<Rightarrow> (s', Inr (a, r))))"

definition refresh_tokens :: "token_env \<Rightarrow> time \<Rightarrow> pystr \<Rightarrow> auth \<Rightarrow> auth \<times> (pystr \<times> pystr) result" where
  "refresh_tokens v now t s = (case decode_token v now t of
       Inl e \<Rightarrow> (s, Inl e)
     | Inr c \<Rightarrow> if cl_typ c \<noteq> ''refresh'' then (s, Inl PermissionError)
         else if is_revoked s (cl_jti c) then (s, Inl PermissionError)
         else (case get_user (au_users s) (cl_sub c) of
             Inl e \<Rightarrow> (s, Inl e)
           | Inr None \<Rightarrow> (s, Inl PermissionError)
           | Inr (Some u) \<Rightarrow> if \<not> us_active u then (s, Inl PermissionError)
               else (case tokens_for v now u s of (s', a, r) \<Rightarrow> (s', Inr (a, r)))))"

definition logout :: "token_env \<Rightarrow> time \<Rightarrow> pystr \<Rightarrow> auth \<Rightarrow> auth \<times> unit result" where
  "logout v now t s = (case decode_token v now t of
       Inl e \<Rightarrow> (s, Inl e) | Inr c \<Rightarrow> (s\<lparr>au_revoked := insert (cl_jti c) (au_revoked s)\<rparr>, Inr ()))"

definition principal_from_token :: "token_env \<Rightarrow> time \<Rightarrow> pystr \<Rightarrow> auth \<Rightarrow> principal result" where
  "principal_from_token v now t s = rbind (decode_token v now t) (\<lambda>c.
     if cl_typ c \<noteq> ''access'' then Inl PermissionError
     else if is_revoked s (cl_jti c) then Inl PermissionError
     else rbind (collect (map permission_of (cl_permissions c))) (\<lambda>ps.
       Inr \<lparr>pn_subject = cl_sub c, pn_roles = set (cl_roles c), pn_permissions = set ps\<rparr>))"

section \<open>Broker credentials\<close>

record credentials =
  cr_exchange :: pystr
  cr_key :: pystr
  cr_secret :: pystr
  cr_password :: "pystr option"
  cr_sandbox :: bool

datatype config_value = ConfigText pystr | ConfigFlag bool

definition to_ccxt_config :: "credentials \<Rightarrow> (pystr, config_value) dict" where
  "to_ccxt_config c = [(''apiKey'', ConfigText (cr_key c)), (''secret'', ConfigText (cr_secret c)), (''enableRateLimit'', ConfigFlag True)]
     @ (case cr_password c of None \<Rightarrow> [] | Some p \<Rightarrow> if p = [] then [] else [(''password'', ConfigText p)])
     @ (if cr_sandbox c then [(''sandbox'', ConfigFlag True)] else [])"

definition public_credentials :: "credentials \<Rightarrow> pystr \<times> bool \<times> bool" where
  "public_credentials c = (cr_exchange c, cr_key c \<noteq> [], cr_sandbox c)"

text \<open>An empty mapping is replaced by the environment of the process.\<close>

definition environment :: "(pystr, pystr) dict option \<Rightarrow> (pystr, pystr) dict \<Rightarrow> (pystr, pystr) dict" where
  "environment given process = (case given of None \<Rightarrow> process | Some d \<Rightarrow> if d = [] then process else d)"

definition env_credentials :: "(pystr, pystr) dict \<Rightarrow> pystr \<Rightarrow> credentials result" where
  "env_credentials env x = (let var = (\<lambda>n. dget env (''BROKER_'' @ str_upper x @ n)) in
     case (var ''_API_KEY'', var ''_SECRET'') of
       (Some k, Some s) \<Rightarrow> if k = [] \<or> s = [] then Inl RuntimeError
         else Inr \<lparr>cr_exchange = x, cr_key = k, cr_secret = s, cr_password = var ''_PASSWORD'',
                   cr_sandbox = (case var ''_SANDBOX'' of None \<Rightarrow> False | Some b \<Rightarrow> str_lower b = ''true'')\<rparr>
     | _ \<Rightarrow> Inl RuntimeError)"

text \<open>In the file every text is encoded; a missing password stays missing.\<close>

type_synonym credential_file = "(pystr, credentials) dict"

definition encode_credentials :: "credentials \<Rightarrow> credentials" where
  "encode_credentials c = \<lparr>cr_exchange = b64_encode (cr_exchange c), cr_key = b64_encode (cr_key c), cr_secret = b64_encode (cr_secret c),
     cr_password = map_option b64_encode (cr_password c), cr_sandbox = cr_sandbox c\<rparr>"

definition save_credentials :: "credentials \<Rightarrow> credential_file \<Rightarrow> credential_file" where
  "save_credentials c f = sorted_items (dset (cr_exchange c) (encode_credentials c) f)"

definition file_credentials :: "credential_file \<Rightarrow> pystr \<Rightarrow> credentials result" where
  "file_credentials f x = (case dget f x of None \<Rightarrow> Inl RuntimeError
     | Some d \<Rightarrow> rbind (b64_decode (cr_exchange d)) (\<lambda>e. rbind (b64_decode (cr_key d)) (\<lambda>k. rbind (b64_decode (cr_secret d)) (\<lambda>s.
         rbind (case cr_password d of None \<Rightarrow> Inr None | Some p \<Rightarrow> if p = [] then Inr None else rbind (b64_decode p) (\<lambda>t. Inr (Some t))) (\<lambda>p.
           Inr \<lparr>cr_exchange = e, cr_key = k, cr_secret = s, cr_password = p, cr_sandbox = cr_sandbox d\<rparr>)))))"

definition list_public :: "credential_file \<Rightarrow> (pystr \<times> bool \<times> bool) list result" where
  "list_public f = rbind (collect (map (file_credentials f) (dkeys f))) (\<lambda>cs. Inr (sort_key fst (map public_credentials cs)))"

definition load_credentials :: "(pystr, pystr) dict \<Rightarrow> credential_file \<Rightarrow> pystr \<Rightarrow> credentials result" where
  "load_credentials env f x = (case env_credentials env x of Inr c \<Rightarrow> Inr c
     | Inl e \<Rightarrow> if e = RuntimeError then file_credentials f x else Inl e)"

end
