(* ===== verification/SecurityFacts.thy ===== *)
theory SecurityFacts imports Security begin

text \<open>
  Facts about security: a password is verified exactly by what derives the same digest, users and credentials survive
  their files, tokens carry their claims, and a revoked token stays revoked whatever is done afterwards.
\<close>

section \<open>Numbers and texts\<close>

lemma str_strip_nospace: "list_all (\<lambda>c. \<not> is_space c) s \<Longrightarrow> str_strip s = s"
proof -
  assume s: "list_all (\<lambda>c. \<not> is_space c) s"
  have "dropWhile is_space t = t" if "set t \<subseteq> set s" for t
    using s that by (cases t) (auto simp: list_all_iff)
  then show ?thesis by (simp add: str_strip_def)
qed

lemma scan_digits_value:
  assumes "list_all is_digit xs"
  shows "scan_digits a ok xs = (if xs = [] \<and> \<not> ok then None else Some (foldl (\<lambda>a c. 10 * a + (of_char c - 48)) a xs))"
  using assms by (induction xs arbitrary: a ok) auto

lemma digit_facts:
  assumes "n < 10"
  shows "is_digit (char_of (48 + n))" "(of_char (char_of (48 + n)) :: int) = 48 + int n" "\<not> is_space (char_of (48 + n))"
proof -
  have n: "(of_char (char_of (48 + n)) :: nat) = 48 + n" using assms by simp
  then show "is_digit (char_of (48 + n))" "\<not> is_space (char_of (48 + n))" using assms by (simp_all add: is_digit_def is_space_def)
  have "(of_char (char_of (48 + n)) :: int) = int (of_char (char_of (48 + n)))" by (rule of_nat_of_char [symmetric])
  also have "\<dots> = int (48 + n)" by (simp only: n)
  finally show "(of_char (char_of (48 + n)) :: int) = 48 + int n" by simp
qed

lemma str_nat_facts:
  "list_all is_digit (str_nat n) \<and> list_all (\<lambda>c. \<not> is_space c) (str_nat n) \<and> str_nat n \<noteq> [] \<and>
   foldl (\<lambda>a c. 10 * a + (of_char c - 48)) (0 :: int) (str_nat n) = int n"
proof (induction n rule: str_nat.induct)
  case (1 n)
  show ?case
  proof (cases "n < 10")
    case True
    then have eq: "str_nat n = [char_of (48 + n)]" by (subst str_nat.simps) simp
    show ?thesis unfolding eq using True by (simp add: digit_facts)
  next
    case False
    have m: "n mod 10 < 10" by simp
    have eq: "str_nat n = str_nat (n div 10) @ [char_of (48 + n mod 10)]" using False by (subst str_nat.simps) simp
    have "10 * int (n div 10) + int (n mod 10) = int (10 * (n div 10) + n mod 10)" by (simp only: of_nat_add of_nat_mult of_nat_numeral)
    then have "10 * int (n div 10) + int (n mod 10) = int n" by (simp only: mult_div_mod_eq)
    then show ?thesis unfolding eq using 1 [OF False] by (simp add: digit_facts [OF m])
  qed
qed

lemma str_nat_head: "\<exists>c cs. str_nat n = c # cs \<and> is_digit c"
  using str_nat_facts [of n] by (cases "str_nat n") auto

lemma int_of_str_int: "int_of_text (str_int n) = Some n"
proof -
  have s: "str_strip (str_int n) = str_int n"
    using str_nat_facts by (intro str_strip_nospace) (auto simp: str_int_def is_space_def)
  show ?thesis
  proof (cases "n < 0")
    case True
    then show ?thesis using str_nat_facts [of "nat (- n)"]
      unfolding int_of_text_def s by (simp add: str_int_def signed_def scan_digits_value)
  next
    case False
    obtain c cs where c: "str_nat (nat n) = c # cs" "is_digit c" using str_nat_head by blast
    then have "c \<noteq> CHR ''-''" "c \<noteq> CHR ''+''" by (auto simp: is_digit_def)
    then show ?thesis using str_nat_facts [of "nat n"] c(1) False
      unfolding int_of_text_def s by (simp add: str_int_def signed_def scan_digits_value)
  qed
qed

lemma split_max_sep: "c \<notin> set x \<Longrightarrow> 0 < n \<Longrightarrow> split_max n c (x @ c # s) = x # split_max (n - 1) c s"
  by (induction x) auto

lemma split_max_last: "c \<notin> set x \<Longrightarrow> split_max n c x = [x]"
  by (induction x) auto

section \<open>Passwords\<close>

lemma hex_value_digit: "n < 16 \<Longrightarrow> hex_value (hex_digit n) = Some n" "n < 16 \<Longrightarrow> \<not> hex_space (hex_digit n)" "n < 16 \<Longrightarrow> hex_digit n \<noteq> CHR ''$''"
proof -
  assume n: "n < 16"
  then have "(of_char (hex_digit n) :: nat) = (if n < 10 then 48 + n else 87 + n)" by (simp add: hex_digit_def)
  then show "hex_value (hex_digit n) = Some n" "\<not> hex_space (hex_digit n)" "hex_digit n \<noteq> CHR ''$''"
    using n by (auto simp: hex_value_def hex_space_def Let_def split: if_splits)
qed

lemma hex_parts: "(of_char c :: nat) div 16 < 16" "(of_char c :: nat) mod 16 < 16"
  using of_char_bound [of c] by (auto intro: less_mult_imp_div_less)

lemma from_hex_text: "from_hex (hex_text s) = Inr s"
  by (induction s) (simp_all add: hex_value_digit hex_parts)

lemma hex_text_inj [simp]: "hex_text s = hex_text t \<longleftrightarrow> s = t"
  using from_hex_text [of s] from_hex_text [of t] by (metis sum.inject(2))

lemma hex_text_plain: "CHR ''$'' \<notin> set (hex_text s)"
  using hex_value_digit(3) hex_parts by (induction s) (simp, metis hex_text.simps(2) set_ConsD)

lemma str_int_plain: "CHR ''$'' \<notin> set (str_int n)"
proof -
  have "CHR ''$'' \<notin> set (str_nat k)" for k
    using str_nat_facts [of k] by (auto simp: list_all_iff is_digit_def dest!: bspec)
  then show ?thesis by (simp add: str_int_def)
qed

text \<open>C39: A stored password is accepted exactly for a password that is not empty and derives the stored digest from the
  stored salt and number of iterations, whatever number of iterations the verifier itself is set to.\<close>

theorem password_verified_iff:
  assumes "hash_password kdf iters rs pw (Some salt) = Inr enc" "salt \<noteq> []" and "\<And>q s n. 0 < n \<Longrightarrow> \<exists>d. kdf q s n = Inr d" "0 < iters'"
  shows "verify_password kdf iters' rs' q enc \<longleftrightarrow> q \<noteq> [] \<and> kdf q salt iters = kdf pw salt iters"
proof -
  obtain d where d: "kdf pw salt iters = Inr d" "enc = ''pbkdf2_sha256$'' @ str_int iters @ ''$'' @ hex_text salt @ ''$'' @ hex_text d"
    using assms(1,2) by (auto simp: hash_password_def rbind_Inr_iff split: if_splits)
  have "split_max 3 CHR ''$'' (''pbkdf2_sha256'' @ CHR ''$'' # str_int iters @ CHR ''$'' # hex_text salt @ CHR ''$'' # hex_text d)
      = [''pbkdf2_sha256'', str_int iters, hex_text salt, hex_text d]"
    by (subst split_max_sep, simp, simp)+ (simp add: split_max_sep str_int_plain hex_text_plain split_max_last)
  then have s: "split_max 3 CHR ''$'' enc = [''pbkdf2_sha256'', str_int iters, hex_text salt, hex_text d]" by (simp add: d(2))
  obtain x where x: "kdf q salt iters' = Inr x" using assms(3,4) by blast
  have "hash_password kdf iters' rs' q (Some salt) = (if q = [] then Inl ValueError
      else Inr (''pbkdf2_sha256$'' @ str_int iters' @ ''$'' @ hex_text salt @ ''$'' @ hex_text x))"
    using assms(2) x by (simp add: hash_password_def)
  then show ?thesis unfolding verify_password_def s
    by (cases "kdf q salt iters") (auto simp: from_hex_text int_of_str_int d(1))
qed

theorem password_verified_iff_witness:
  "\<exists>enc. hash_password (\<lambda>p s n. Inr (p @ s)) 1000 ''zz'' ''secret'' (Some ''ab'') = Inr enc \<and>
     verify_password (\<lambda>p s n. Inr (p @ s)) 5 ''yy'' ''secret'' enc \<and> \<not> verify_password (\<lambda>p s n. Inr (p @ s)) 5 ''yy'' ''guess'' enc"
proof -
  obtain enc where e: "hash_password (\<lambda>p s n. Inr (p @ s)) 1000 ''zz'' ''secret'' (Some ''ab'') = Inr enc"
    by (simp add: hash_password_def)
  show ?thesis using password_verified_iff [OF e, of 5 "''yy''"] e by auto
qed

section \<open>Tokens\<close>

lemma sextet_not_dot: "n < 64 \<Longrightarrow> sextet_char n \<noteq> CHR ''.''"
  using of_sextet_char [of n] by (auto dest!: arg_cong [of _ _ "of_char :: char \<Rightarrow> nat"] split: if_splits)

lemma encoded_has_no_dot: "CHR ''.'' \<notin> set (b64_encode s)"
  by (induction s rule: b64_encode.induct) (simp_all add: Let_def sextets sextet_not_dot [symmetric])

lemma stripped_has_no_dot: "CHR ''.'' \<notin> set (strip_padding (b64_encode s))"
  using encoded_has_no_dot [of s] by (auto simp: strip_padding_def dest: set_dropWhileD)

lemma decode_encode_fallback:
  assumes "tk_loads v (tk_dumps v c) = Inr c" "cl_iss c = tk_issuer v"
  shows "decode_fallback v now (encode_token v c) = (if cl_exp c < seconds_of now then Inl ValueError else Inr c)"
proof -
  define h where "h = strip_padding (b64_encode token_header)"
  define p where "p = strip_padding (b64_encode (tk_dumps v c))"
  define g where "g = sign_part v (h @ ''.'' @ p)"
  have t: "encode_token v c = h @ CHR ''.'' # p @ CHR ''.'' # g" by (simp add: encode_token_def h_def p_def g_def Let_def)
  have d: "CHR ''.'' \<notin> set h" "CHR ''.'' \<notin> set p" "CHR ''.'' \<notin> set g"
    by (simp_all add: h_def p_def g_def sign_part_def stripped_has_no_dot)
  have "split_max (length (encode_token v c)) CHR ''.'' (encode_token v c) = [h, p, g]"
    unfolding t using d by (simp add: split_max_sep split_max_last)
  moreover have "b64_decode (repad p) = Inr (tk_dumps v c)" by (simp add: p_def repad_strip b64_decode_def b64_scan_encode)
  ultimately show ?thesis using assms by (simp add: decode_fallback_def g_def)
qed

lemma fallback_deterministic: "decode_fallback v now t = Inr c \<Longrightarrow> decode_fallback v now' t = Inr c' \<Longrightarrow> c' = c"
  by (auto simp: decode_fallback_def split: list.splits if_splits sum.splits)

text \<open>
  What the service relies on: its own tokens are read back until they expire. The package refuses a token from the
  second of its expiry on, or before it was issued; the code that does without it refuses one after that second.
\<close>

definition token_stands :: "token_env \<Rightarrow> int \<Rightarrow> int \<Rightarrow> time \<Rightarrow> bool" where
  "token_stands v iat ex now \<longleftrightarrow> (case tk_library v of
       None \<Rightarrow> seconds_of now \<le> ex
     | Some l \<Rightarrow> now < ex * 1000000 \<and> iat * 1000000 \<le> now)"

definition reads_own_tokens :: "token_env \<Rightarrow> bool" where
  "reads_own_tokens v \<longleftrightarrow> (case tk_library v of
       None \<Rightarrow> \<forall>c. tk_loads v (tk_dumps v c) = Inr c
     | Some l \<Rightarrow> \<forall>c now. cl_iss c = tk_issuer v \<longrightarrow> jl_decode l (tk_secret v) (tk_issuer v) now (jl_encode l (tk_secret v) c) =
         (if cl_exp c * 1000000 \<le> now \<or> now < cl_iat c * 1000000 then Inl InvalidTokenError else Inr c))"

text \<open>When a token is read does not change what it says.\<close>

definition payloads_fixed :: "token_env \<Rightarrow> bool" where
  "payloads_fixed v \<longleftrightarrow> (case tk_library v of
       None \<Rightarrow> True
     | Some l \<Rightarrow> \<forall>now now' t c c'. jl_decode l (tk_secret v) (tk_issuer v) now t = Inr c \<longrightarrow>
         jl_decode l (tk_secret v) (tk_issuer v) now' t = Inr c' \<longrightarrow> c' = c)"

lemma decode_deterministic:
  assumes "payloads_fixed v" "decode_token v now t = Inr c" "decode_token v now' t = Inr c'"
  shows "c' = c"
proof (cases "tk_library v")
  case None
  then show ?thesis using assms(2,3) by (auto simp: decode_token_def intro: fallback_deterministic)
next
  case (Some l)
  then show ?thesis using assms by (simp add: decode_token_def payloads_fixed_def)
qed

section \<open>The user file\<close>

lemma permission_of_value [simp]: "permission_of (permission_value p) = Inr p"
  by (cases p) (simp_all add: permission_of_def all_permissions_def)

lemma permissions_read:
  "\<exists>ps. collect (map permission_of (sorted_list_of_set (permission_value ` P))) = Inr ps \<and> set ps = P"
proof -
  have fin: "finite P" by (rule finite_subset [of _ "set all_permissions"]) (auto simp: all_permissions_def intro: permission.exhaust)
  let ?vs = "sorted_list_of_set (permission_value ` P)"
  have vs: "set ?vs = permission_value ` P" using fin by simp
  have "\<forall>x\<in>set ?vs. \<exists>p. permission_of x = Inr p \<and> permission_value p = x" by (auto simp: vs)
  then obtain f where f: "\<forall>x\<in>set ?vs. permission_of x = Inr (f x) \<and> permission_value (f x) = x" by metis
  have "collect (map permission_of ?vs) = Inr (map f ?vs)" using f by (simp add: collect_Inr_iff)
  moreover have "f ` set ?vs = P"
  proof -
    have "f (permission_value p) = p" if "p \<in> P" for p using f that vs by (metis image_eqI permission_of_value sum.inject(2))
    then show ?thesis unfolding vs by force
  qed
  ultimately show ?thesis by (intro exI [of _ "map f ?vs"]) simp
qed

definition wf_users :: "(pystr, user) dict \<Rightarrow> bool" where
  "wf_users us \<longleftrightarrow> wf_dict us \<and> list_all (\<lambda>(k, u). us_name u = k \<and> finite (us_roles u)) us"

lemma load_store_user: "finite (us_roles u) \<Longrightarrow> load_user (us_name u, store_user u) = Inr (us_name u, u)"
  using permissions_read [of "us_permissions u"] by (auto simp: load_user_def store_user_def)

lemma insort_map_snd: "insort_key fst (k, f v) (map (\<lambda>(k, v). (k, f v)) d) = map (\<lambda>(k, v). (k, f v)) (insort_key fst (k, v) d)"
  by (induction d) auto

lemma sorted_items_map: "sorted_items (map (\<lambda>(k, v). (k, f v)) d) = map (\<lambda>(k, v). (k, f v)) (sorted_items d)"
  unfolding sorted_items_def by (induction d) (auto simp: sort_key_def insort_map_snd)

lemma read_write_users:
  assumes "wf_users us"
  shows "read_users (write_users us) = Inr (sorted_items us)"
proof -
  have "\<forall>e\<in>set (sorted_items us). load_user (fst e, store_user (snd e)) = Inr e"
    using assms load_store_user by (auto simp: wf_users_def sorted_items_def list_all_iff)
  then show ?thesis by (simp add: read_users_def write_users_def sorted_items_map collect_Inr_iff case_prod_beta)
qed

lemma sorted_items_get: "wf_dict us \<Longrightarrow> dget (sorted_items us) n = dget us n"
proof -
  assume w: "wf_dict us"
  have "mset (map fst (sorted_items us)) = mset (map fst us)" by (simp add: sorted_items_def)
  then have "distinct (map fst (sorted_items us))" using w mset_eq_imp_distinct_iff unfolding wf_dict_def by blast
  then have "dget (sorted_items us) = dget us" using w by (simp add: wf_dict_def map_of_inject_set sorted_items_def)
  then show ?thesis by simp
qed

lemma wf_sorted_items: "wf_users us \<Longrightarrow> wf_users (sorted_items us)"
proof -
  assume w: "wf_users us"
  have "mset (map fst (sorted_items us)) = mset (map fst us)" by (simp add: sorted_items_def)
  then have "wf_dict (sorted_items us)" using w mset_eq_imp_distinct_iff unfolding wf_users_def wf_dict_def by blast
  then show ?thesis using w by (simp add: wf_users_def sorted_items_def list_all_iff)
qed

lemma set_dset: "set (dset k v d) \<subseteq> insert (k, v) (set d)"
  by (induction d) auto

lemma wf_users_dset: "wf_users us \<Longrightarrow> finite (us_roles u) \<Longrightarrow> wf_users (dset (us_name u) u us)"
  by (auto simp: wf_users_def list_all_iff dest!: set_mp [OF set_dset])

text \<open>A user that was saved is read back as it was saved, whoever else is in the file.\<close>

theorem saved_users_are_read:
  assumes "wf_users us" "finite (us_roles u)"
  shows "case save_user u (write_users us) of Inl e \<Rightarrow> False
    | Inr f \<Rightarrow> get_user f n = Inr (if n = us_name u then Some u else dget us n)"
proof -
  have w: "wf_users (dset (us_name u) u (sorted_items us))" by (intro wf_users_dset wf_sorted_items assms)
  have "wf_dict us" using assms(1) by (simp add: wf_users_def)
  then show ?thesis using w
    by (simp add: save_user_def read_write_users [OF assms(1)] get_user_def read_write_users [OF w] sorted_items_get dget_dset wf_users_def)
qed

section \<open>Sessions\<close>

datatype auth_op = Login time pystr pystr | Refresh time pystr | Logout time pystr | Save user

fun auth_step :: "token_env \<Rightarrow> (pystr \<Rightarrow> pystr \<Rightarrow> bool) \<Rightarrow> auth_op \<Rightarrow> auth \<Rightarrow> auth" where
  "auth_step v verify (Login now n pw) s = fst (login v verify now n pw s)"
| "auth_step v verify (Refresh now t) s = fst (refresh_tokens v now t s)"
| "auth_step v verify (Logout now t) s = fst (logout v now t s)"
| "auth_step v verify (Save u) s = (case save_user u (au_users s) of Inl e \<Rightarrow> s | Inr f \<Rightarrow> s\<lparr>au_users := f\<rparr>)"

definition auth_run :: "token_env \<Rightarrow> (pystr \<Rightarrow> pystr \<Rightarrow> bool) \<Rightarrow> auth_op list \<Rightarrow> auth \<Rightarrow> auth" where
  "auth_run v verify ops s = foldl (\<lambda>s x. auth_step v verify x s) s ops"

lemma revoked_grows: "au_revoked s \<subseteq> au_revoked (auth_step v verify x s)"
  by (cases x) (auto simp: login_def refresh_tokens_def logout_def tokens_for_def Let_def split: sum.splits option.splits)

lemma revoked_grows_run: "au_revoked s \<subseteq> au_revoked (auth_run v verify ops s)"
  unfolding auth_run_def by (induction ops arbitrary: s) (auto dest: set_mp [OF revoked_grows])

text \<open>C37: A token whose id was revoked by a logout is never accepted again, neither for a request nor for a refresh,
  whatever logins, refreshes, logouts and changes of users follow.\<close>

theorem revoked_token_is_dead:
  assumes "payloads_fixed v" and "logout v t0 tok s = (s1, Inr ())" "decode_token v t0 tok = Inr c" "cl_jti c \<noteq> []"
  shows "let s = auth_run v verify ops s1 in isl (principal_from_token v now tok s) \<and> fst (refresh_tokens v now tok s) = s \<and>
    isl (snd (refresh_tokens v now tok s))"
proof -
  let ?s = "auth_run v verify ops s1"
  have "cl_jti c \<in> au_revoked s1" using assms(2,3) by (auto simp: logout_def)
  then have "is_revoked ?s (cl_jti c)" using revoked_grows_run [of s1 v verify ops] assms(4) by (auto simp: is_revoked_def)
  then show ?thesis using decode_deterministic [OF assms(1,3), of now]
    by (cases "decode_token v now tok") (auto simp: principal_from_token_def refresh_tokens_def)
qed

text \<open>What a new token says when it is read.\<close>

lemma token_decodes:
  assumes "reads_own_tokens v" "secs \<noteq> 0"
  shows "\<exists>e. decode_token v now' (create_token v now jti sub ty roles perms secs) =
    (if token_stands v (seconds_of now) (seconds_of (now + secs * 1000000)) now'
     then Inr \<lparr>cl_sub = sub, cl_typ = ty, cl_roles = roles, cl_permissions = perms, cl_exp = seconds_of (now + secs * 1000000),
       cl_iat = seconds_of now, cl_jti = jti, cl_iss = tk_issuer v\<rparr>
     else Inl e)"
proof (cases "tk_library v")
  case None
  then show ?thesis using assms
    by (simp add: reads_own_tokens_def token_stands_def create_token_def decode_token_def decode_encode_fallback not_less)
next
  case (Some l)
  then show ?thesis using assms
    by (simp add: reads_own_tokens_def token_stands_def create_token_def decode_token_def not_le not_less)
qed

lemma new_token_stands:
  assumes "0 < secs"
  shows "token_stands v (seconds_of now) (seconds_of (now + secs * 1000000)) now"
proof -
  have "seconds_of (now + secs * 1000000) = seconds_of now + secs" by (simp add: seconds_of_def)
  moreover have "seconds_of now * 1000000 \<le> now" "now < (seconds_of now + 1) * 1000000"
    unfolding seconds_of_def by presburger+
  ultimately show ?thesis using assms by (auto simp: token_stands_def split: option.split)
qed

lemma get_user_finite:
  assumes "get_user f n = Inr (Some u)"
  shows "finite (us_roles u) \<and> us_name u = n"
proof -
  obtain us where us: "read_users f = Inr us" "dget us n = Some u" using assms by (auto simp: get_user_def rbind_Inr_iff)
  then have "(n, u) \<in> set us" by (auto dest: map_of_SomeD)
  moreover have "map load_user f = map Inr us" using us(1) by (simp add: read_users_def collect_Inr_iff)
  ultimately have "Inr (n, u) \<in> set (map load_user f)" by simp
  then obtain e where "load_user e = Inr (n, u)" by (metis imageE list.set_map)
  then show ?thesis by (auto simp: load_user_def rbind_Inr_iff)
qed

text \<open>An id was logged out by one of the operations.\<close>

fun logs_out :: "token_env \<Rightarrow> pystr \<Rightarrow> auth_op \<Rightarrow> bool" where
  "logs_out v j (Logout now t) \<longleftrightarrow> (case decode_token v now t of Inl e \<Rightarrow> False | Inr c \<Rightarrow> cl_jti c = j)"
| "logs_out v j _ \<longleftrightarrow> False"

lemma revoked_step: "j \<in> au_revoked (auth_step v verify x s) \<longleftrightarrow> j \<in> au_revoked s \<or> logs_out v j x"
  by (cases x) (auto simp: login_def refresh_tokens_def logout_def tokens_for_def Let_def split: sum.splits option.splits)

lemma revoked_run: "j \<in> au_revoked (auth_run v verify ops s) \<longleftrightarrow> j \<in> au_revoked s \<or> list_ex (logs_out v j) ops"
proof -
  have "j \<in> au_revoked (foldl (\<lambda>s x. auth_step v verify x s) s ops) \<longleftrightarrow> j \<in> au_revoked s \<or> list_ex (logs_out v j) ops"
    by (induction ops arbitrary: s) (auto simp: revoked_step)
  then show ?thesis by (simp add: auth_run_def)
qed

text \<open>The access token issued at \<open>now\<close> under an id has neither expired nor been logged out by the operations.\<close>

definition access_valid :: "token_env \<Rightarrow> time \<Rightarrow> pystr \<Rightarrow> auth_op list \<Rightarrow> time \<Rightarrow> bool" where
  "access_valid v now j ops now' \<longleftrightarrow>
     token_stands v (seconds_of now) (seconds_of (now + tk_seconds v * 1000000)) now' \<and> \<not> list_ex (logs_out v j) ops"

text \<open>C36: A login succeeds only for an active user whose password is verified. Whatever logins, refreshes, logouts and
  changes of users follow, its access token, if its id is fresh, is accepted from then on exactly until it expires or its
  id is logged out, and then for a principal with the roles and permissions the user had at the login; its refresh token
  is never accepted in its place. This holds with the package for tokens, which must read back what it wrote and refuse
  it from its expiry on, and without it.\<close>

theorem login_issues_principal:
  assumes "reads_own_tokens v" "0 < tk_seconds v" and "login v verify now n pw s = (s', Inr (a, r))"
    and "tk_fresh v (au_issued s) \<noteq> []" "tk_fresh v (au_issued s) \<notin> au_revoked s"
  shows "\<exists>u. get_user (au_users s) n = Inr (Some u) \<and> us_active u \<and> verify pw (us_hash u) \<and>
    (\<forall>ops now'. (case principal_from_token v now' a (auth_run v verify ops s') of
         Inl e \<Rightarrow> \<not> access_valid v now (tk_fresh v (au_issued s)) ops now'
       | Inr p \<Rightarrow> access_valid v now (tk_fresh v (au_issued s)) ops now' \<and>
           p = \<lparr>pn_subject = n, pn_roles = us_roles u, pn_permissions = us_permissions u\<rparr>) \<and>
       isl (principal_from_token v now' r (auth_run v verify ops s')))"
proof -
  obtain u where u: "get_user (au_users s) n = Inr (Some u)" "us_active u" "verify pw (us_hash u)" "tokens_for v now u s = (s', a, r)"
    using assms(3) by (auto simp: login_def split: sum.splits option.splits if_splits prod.splits)
  have f: "finite (us_roles u)" "us_name u = n" using get_user_finite [OF u(1)] by auto
  let ?ps = "sorted_list_of_set (permission_value ` us_permissions u)" and ?rs = "sorted_list_of_set (us_roles u)"
  obtain ps where ps: "collect (map permission_of ?ps) = Inr ps" "set ps = us_permissions u" using permissions_read by blast
  have secs: "tk_seconds v \<noteq> 0" "max (tk_seconds v * 24) 86400 \<noteq> 0" using assms(2) by auto
  have t: "au_revoked s' = au_revoked s"
    "a = create_token v now (tk_fresh v (au_issued s)) n ''access'' ?rs ?ps (tk_seconds v)"
    "r = create_token v now (tk_fresh v (au_issued s + 1)) n ''refresh'' ?rs ?ps (max (tk_seconds v * 24) 86400)"
    using u(4) f(2) by (auto simp: tokens_for_def Let_def)
  have rev: "is_revoked (auth_run v verify ops s') (tk_fresh v (au_issued s)) \<longleftrightarrow> list_ex (logs_out v (tk_fresh v (au_issued s))) ops" for ops
    using assms(4,5) by (simp add: is_revoked_def revoked_run t(1))
  show ?thesis
  proof (intro exI [of _ u] conjI u(1-3) allI)
    fix ops now'
    from token_decodes [OF assms(1) secs(1), of now' now "tk_fresh v (au_issued s)" n "''access''" ?rs ?ps] obtain e where
      d: "decode_token v now' a = (if token_stands v (seconds_of now) (seconds_of (now + tk_seconds v * 1000000)) now'
        then Inr \<lparr>cl_sub = n, cl_typ = ''access'', cl_roles = ?rs, cl_permissions = ?ps, cl_exp = seconds_of (now + tk_seconds v * 1000000),
          cl_iat = seconds_of now, cl_jti = tk_fresh v (au_issued s), cl_iss = tk_issuer v\<rparr> else Inl e)"
      unfolding t(2) by blast
    from token_decodes [OF assms(1) secs(2), of now' now "tk_fresh v (au_issued s + 1)" n "''refresh''" ?rs ?ps] have
      d': "decode_token v now' r = Inr c \<Longrightarrow> cl_typ c = ''refresh''" for c unfolding t(3) by (auto split: if_splits)
    show "isl (principal_from_token v now' r (auth_run v verify ops s'))"
      using d' by (cases "decode_token v now' r") (auto simp: principal_from_token_def)
    show "case principal_from_token v now' a (auth_run v verify ops s') of
         Inl e \<Rightarrow> \<not> access_valid v now (tk_fresh v (au_issued s)) ops now'
       | Inr p \<Rightarrow> access_valid v now (tk_fresh v (au_issued s)) ops now' \<and>
           p = \<lparr>pn_subject = n, pn_roles = us_roles u, pn_permissions = us_permissions u\<rparr>"
      using ps f(1) by (simp add: principal_from_token_def d rev access_valid_def)
  qed
qed

text \<open>C38: Logging out with the access token does not end the session: the refresh token of the same login still gives new
  tokens, as long as the user is active.\<close>

theorem logout_keeps_refresh_token:
  assumes "reads_own_tokens v" "0 < tk_seconds v"
    and "login v verify now n pw s = (s1, Inr (a, r))" "logout v now a s1 = (s2, Inr ())"
    and "tk_fresh v (au_issued s) \<noteq> tk_fresh v (au_issued s + 1)" "tk_fresh v (au_issued s + 1) \<notin> au_revoked s"
    and "token_stands v (seconds_of now) (seconds_of (now + 86400 * 1000000)) now'"
  shows "\<not> isl (snd (refresh_tokens v now' r s2))"
proof -
  obtain u where u: "get_user (au_users s) n = Inr (Some u)" "us_active u" "tokens_for v now u s = (s1, a, r)"
    using assms(3) by (auto simp: login_def split: sum.splits option.splits if_splits prod.splits)
  have f: "us_name u = n" using get_user_finite [OF u(1)] by auto
  let ?ps = "sorted_list_of_set (permission_value ` us_permissions u)" and ?rs = "sorted_list_of_set (us_roles u)"
  let ?m = "max (tk_seconds v * 24) 86400"
  have secs: "tk_seconds v \<noteq> 0" "?m \<noteq> 0" using assms(2) by auto
  have "seconds_of (now + 86400 * 1000000) \<le> seconds_of (now + ?m * 1000000)"
    unfolding seconds_of_def by (intro zdiv_mono1) auto
  then have e: "token_stands v (seconds_of now) (seconds_of (now + ?m * 1000000)) now'"
    using assms(7) by (auto simp: token_stands_def split: option.splits)
  have t: "au_revoked s1 = au_revoked s" "au_users s1 = au_users s"
    "a = create_token v now (tk_fresh v (au_issued s)) n ''access'' ?rs ?ps (tk_seconds v)"
    "r = create_token v now (tk_fresh v (au_issued s + 1)) n ''refresh'' ?rs ?ps ?m"
    using u(3) f by (auto simp: tokens_for_def Let_def)
  have "\<exists>c. decode_token v now a = Inr c \<and> cl_jti c = tk_fresh v (au_issued s)"
    using token_decodes [OF assms(1) secs(1), of now now "tk_fresh v (au_issued s)" n "''access''" ?rs ?ps]
    unfolding t(3) by (auto simp: new_token_stands [OF assms(2)])
  then have s2: "au_revoked s2 = insert (tk_fresh v (au_issued s)) (au_revoked s)" "au_users s2 = au_users s"
    using assms(4) t(1,2) by (auto simp: logout_def)
  obtain c where c: "decode_token v now' r = Inr c" "cl_typ c = ''refresh''" "cl_jti c = tk_fresh v (au_issued s + 1)" "cl_sub c = n"
    using token_decodes [OF assms(1) secs(2), of now' now "tk_fresh v (au_issued s + 1)" n "''refresh''" ?rs ?ps] e
    unfolding t(4) by auto
  show ?thesis using u(1,2) assms(5,6) by (simp add: refresh_tokens_def c is_revoked_def s2 split: prod.split)
qed

section \<open>A concrete token service\<close>

text \<open>Texts are written behind their length, so that they can be read back one after the other.\<close>

definition put_text :: "pystr \<Rightarrow> pystr" where
  "put_text t = str_nat (length t) @ ''|'' @ t"

definition get_text :: "pystr \<Rightarrow> pystr \<times> pystr" where
  "get_text s = (let d = takeWhile (\<lambda>c. c \<noteq> CHR ''|'') s; r = drop (length d + 1) s; n = nat (the (int_of_text d)) in (take n r, drop n r))"

fun get_texts :: "nat \<Rightarrow> pystr \<Rightarrow> pystr list" where
  "get_texts 0 s = []"
| "get_texts (Suc k) s = (if s = [] then [] else (case get_text s of (t, r) \<Rightarrow> t # get_texts k r))"

lemma int_of_str_nat: "int_of_text (str_nat n) = Some (int n)"
  using int_of_str_int [of "int n"] by (simp add: str_int_def)

lemma get_put_text: "get_text (put_text t @ s) = (t, s)"
proof -
  have "CHR ''|'' \<notin> set (str_nat n)" for n using str_nat_facts [of n] by (auto simp: list_all_iff is_digit_def dest!: bspec)
  then have "\<forall>c\<in>set (str_nat n). c \<noteq> CHR ''|''" for n by metis
  then have "takeWhile (\<lambda>c. c \<noteq> CHR ''|'') (str_nat n @ CHR ''|'' # u) = str_nat n" for n u by (simp add: takeWhile_append2)
  then show ?thesis by (simp add: get_text_def put_text_def int_of_str_nat Let_def)
qed

lemma get_put_texts: "length (concat (map put_text ts)) \<le> k \<Longrightarrow> get_texts k (concat (map put_text ts)) = ts"
proof (induction ts arbitrary: k)
  case (Cons t ts)
  have p: "put_text t \<noteq> []" by (simp add: put_text_def)
  then obtain j where k: "k = Suc j" "length (concat (map put_text ts)) \<le> j" using Cons.prems by (cases k) (auto simp: Suc_le_eq neq_Nil_conv)
  show ?case using Cons.IH [OF k(2)] p by (simp add: k(1) get_put_text)
next
  case Nil
  show ?case by (cases k) simp_all
qed

definition claims_text :: "claims \<Rightarrow> pystr" where
  "claims_text c = concat (map put_text [cl_sub c, cl_typ c, concat (map put_text (cl_roles c)), concat (map put_text (cl_permissions c)),
     str_int (cl_exp c), str_int (cl_iat c), cl_jti c, cl_iss c])"

definition claims_of_text :: "pystr \<Rightarrow> claims result" where
  "claims_of_text s = (case get_texts (length s) s of
     [a, b, rs, ps, e, i, j, k] \<Rightarrow> Inr \<lparr>cl_sub = a, cl_typ = b, cl_roles = get_texts (length rs) rs, cl_permissions = get_texts (length ps) ps,
        cl_exp = the (int_of_text e), cl_iat = the (int_of_text i), cl_jti = j, cl_iss = k\<rparr>
   | _ \<Rightarrow> Inl ValueError)"

lemma claims_round_trip: "claims_of_text (claims_text c) = Inr c"
  unfolding claims_of_text_def claims_text_def get_put_texts [OF order_refl] by (simp add: int_of_str_int get_put_texts)

definition demo_env :: token_env where
  "demo_env = \<lparr>tk_library = None, tk_secret = ''key'', tk_issuer = ''lab'', tk_seconds = 3600, tk_mac = (\<lambda>k m. take 8 (k @ m)), tk_dumps = claims_text,
     tk_loads = claims_of_text, tk_fresh = (\<lambda>n. CHR ''t'' # str_nat n)\<rparr>"

definition demo_auth :: auth where
  "demo_auth = \<lparr>au_users = [(''ann'', \<lparr>su_hash = ''h'', su_roles = [''trader''], su_permissions = [], su_active = True, su_created = 0\<rparr>)],
     au_revoked = {}, au_issued = 0\<rparr>"

abbreviation demo_verify :: "pystr \<Rightarrow> pystr \<Rightarrow> bool" where
  "demo_verify p h \<equiv> p = ''pw''"

text \<open>A package that keeps the documented rules, though it does not sign.\<close>

definition demo_library :: jwt_library where
  "demo_library = \<lparr>jl_encode = (\<lambda>k c. claims_text c),
     jl_decode = (\<lambda>k i now t. case claims_of_text t of
         Inl e \<Rightarrow> Inl InvalidTokenError
       | Inr c \<Rightarrow> if cl_iss c \<noteq> i \<or> cl_exp c * 1000000 \<le> now \<or> now < cl_iat c * 1000000 then Inl InvalidTokenError else Inr c)\<rparr>"

definition library_env :: token_env where
  "library_env = demo_env\<lparr>tk_library := Some demo_library\<rparr>"

lemma demo_laws:
  "reads_own_tokens demo_env" "0 < tk_seconds demo_env" "payloads_fixed demo_env"
  "reads_own_tokens library_env" "0 < tk_seconds library_env" "payloads_fixed library_env"
  by (auto simp: demo_env_def library_env_def demo_library_def reads_own_tokens_def payloads_fixed_def claims_round_trip
      split: sum.splits if_splits)

lemma demo_login:
  assumes "v = demo_env \<or> v = library_env"
  shows "\<exists>s' a r. login v demo_verify 0 ''ann'' ''pw'' demo_auth = (s', Inr (a, r))"
  by (simp add: login_def get_user_def read_users_def load_user_def demo_auth_def tokens_for_def Let_def)

theorem login_issues_principal_witness:
  "\<exists>s' a r p. login library_env demo_verify 0 ''ann'' ''pw'' demo_auth = (s', Inr (a, r)) \<and>
     principal_from_token library_env 5000000 a (auth_run library_env demo_verify [Login 1 ''ann'' ''pw''] s') = Inr p \<and>
     pn_subject p = ''ann'' \<and> isl (principal_from_token library_env 3600000000 a s')"
proof -
  obtain s' a r where l: "login library_env demo_verify 0 ''ann'' ''pw'' demo_auth = (s', Inr (a, r))" using demo_login [of library_env] by blast
  have k: "tk_fresh library_env (au_issued demo_auth) \<noteq> []" "tk_fresh library_env (au_issued demo_auth) \<notin> au_revoked demo_auth"
    by (simp_all add: library_env_def demo_env_def demo_auth_def)
  have e: "seconds_of (tk_seconds library_env * 1000000) = 3600" "seconds_of 0 = 0" "tk_library library_env = Some demo_library"
    by (simp_all add: library_env_def demo_env_def seconds_of_def)
  from login_issues_principal [OF demo_laws(4,5) l k] obtain u :: user where
    i: "\<forall>ops now'. (case principal_from_token library_env now' a (auth_run library_env demo_verify ops s') of
         Inl e \<Rightarrow> \<not> access_valid library_env 0 (tk_fresh library_env (au_issued demo_auth)) ops now'
       | Inr p \<Rightarrow> access_valid library_env 0 (tk_fresh library_env (au_issued demo_auth)) ops now' \<and>
           p = \<lparr>pn_subject = ''ann'', pn_roles = us_roles u, pn_permissions = us_permissions u\<rparr>) \<and>
       isl (principal_from_token library_env now' r (auth_run library_env demo_verify ops s'))" by (elim exE conjE) (rule that, assumption)
  have "access_valid library_env 0 j [Login 1 ''ann'' ''pw''] 5000000" "\<not> access_valid library_env 0 j [] 3600000000" for j
    by (simp_all add: access_valid_def token_stands_def e)
  then have "\<exists>p. principal_from_token library_env 5000000 a (auth_run library_env demo_verify [Login 1 ''ann'' ''pw''] s') = Inr p \<and> pn_subject p = ''ann''"
    "isl (principal_from_token library_env 3600000000 a (auth_run library_env demo_verify [] s'))"
    using i [THEN spec2, of "[Login 1 ''ann'' ''pw'']" 5000000, THEN conjunct1] i [THEN spec2, of "[]" 3600000000, THEN conjunct1]
    by (auto split: sum.splits)
  then show ?thesis using l by (auto simp: auth_run_def)
qed

lemma demo_logout:
  assumes "login demo_env demo_verify 0 ''ann'' ''pw'' demo_auth = (s1, Inr (a, r))"
  shows "\<exists>s2 c. logout demo_env 0 a s1 = (s2, Inr ()) \<and> decode_token demo_env 0 a = Inr c \<and> cl_jti c \<noteq> []"
proof -
  have "a = create_token demo_env 0 (tk_fresh demo_env 0) ''ann'' ''access'' [''trader''] [] (tk_seconds demo_env)"
    using assms by (auto simp: login_def get_user_def read_users_def load_user_def demo_auth_def tokens_for_def Let_def)
  then obtain c where "decode_token demo_env 0 a = Inr c" "cl_jti c = tk_fresh demo_env 0"
    using token_decodes [OF demo_laws(1), of "tk_seconds demo_env" 0 0 "tk_fresh demo_env 0" "''ann''" "''access''" "[''trader'']" "[]"]
      new_token_stands [OF demo_laws(2), of demo_env 0] demo_laws(2) by auto
  then show ?thesis by (simp add: logout_def) (simp add: demo_env_def)
qed

theorem revoked_token_is_dead_witness:
  "\<exists>s1 s2 a r. login demo_env demo_verify 0 ''ann'' ''pw'' demo_auth = (s1, Inr (a, r)) \<and> logout demo_env 0 a s1 = (s2, Inr ()) \<and>
     isl (principal_from_token demo_env 1 a (auth_run demo_env demo_verify [Login 1 ''ann'' ''pw'', Logout 2 r] s2))"
proof -
  obtain s1 a r where l: "login demo_env demo_verify 0 ''ann'' ''pw'' demo_auth = (s1, Inr (a, r))" using demo_login [of demo_env] by blast
  obtain s2 c where o1: "logout demo_env 0 a s1 = (s2, Inr ())" "decode_token demo_env 0 a = Inr c" "cl_jti c \<noteq> []" using demo_logout [OF l] by blast
  show ?thesis using revoked_token_is_dead [OF demo_laws(3) o1, of demo_verify "[Login 1 ''ann'' ''pw'', Logout 2 r]" 1] l o1(1) unfolding Let_def by blast
qed

theorem logout_keeps_refresh_token_witness:
  "\<exists>s1 s2 a r. login demo_env demo_verify 0 ''ann'' ''pw'' demo_auth = (s1, Inr (a, r)) \<and> logout demo_env 0 a s1 = (s2, Inr ()) \<and>
     \<not> isl (snd (refresh_tokens demo_env 7000000 r s2))"
proof -
  obtain s1 a r where l: "login demo_env demo_verify 0 ''ann'' ''pw'' demo_auth = (s1, Inr (a, r))" using demo_login [of demo_env] by blast
  obtain s2 where o1: "logout demo_env 0 a s1 = (s2, Inr ())" using demo_logout [OF l] by blast
  have "tk_fresh demo_env (au_issued demo_auth) \<noteq> tk_fresh demo_env (au_issued demo_auth + 1)"
    by (simp add: demo_env_def demo_auth_def str_nat.simps)
  from logout_keeps_refresh_token [OF demo_laws(1,2) l o1 this, of 7000000] show ?thesis using l o1
    by (auto simp: demo_auth_def seconds_of_def token_stands_def demo_env_def)
qed

theorem saved_users_are_read_witness:
  "\<exists>f. save_user \<lparr>us_name = ''bob'', us_hash = ''x'', us_roles = {''viewer''}, us_permissions = {MayKill}, us_active = True, us_created = 5\<rparr> (write_users []) = Inr f
     \<and> map_option us_permissions (case get_user f ''bob'' of Inr x \<Rightarrow> x | Inl e \<Rightarrow> None) = Some {MayKill}"
  using saved_users_are_read [of "[]" "\<lparr>us_name = ''bob'', us_hash = ''x'', us_roles = {''viewer''}, us_permissions = {MayKill}, us_active = True, us_created = 5\<rparr>" "''bob''"]
  by (cases "save_user \<lparr>us_name = ''bob'', us_hash = ''x'', us_roles = {''viewer''}, us_permissions = {MayKill}, us_active = True, us_created = 5\<rparr> (write_users [])")
    (simp_all add: wf_users_def)

section \<open>Credentials\<close>

lemma b64_encode_eq_Nil [simp]: "b64_encode s = [] \<longleftrightarrow> s = []"
  by (cases s rule: b64_encode.cases) (simp_all add: Let_def)

text \<open>C40: Credentials that were saved are loaded as they were saved, except that an empty password comes back as none, and
  those of other exchanges are not touched; but credentials in the environment are preferred.\<close>

theorem credentials_round_trip:
  assumes "wf_dict f"
  shows "load_credentials env (save_credentials c f) x = (case env_credentials env x of Inr d \<Rightarrow> Inr d
     | Inl e \<Rightarrow> if x = cr_exchange c then Inr (c\<lparr>cr_password := (if cr_password c = Some [] then None else cr_password c)\<rparr>)
         else file_credentials f x)"
proof -
  have e: "env_credentials env x = Inl y \<Longrightarrow> y = RuntimeError" for y by (auto simp: env_credentials_def Let_def split: option.splits if_splits)
  have d: "dget (save_credentials c f) k = (if k = cr_exchange c then Some (encode_credentials c) else dget f k)" for k
    using assms by (simp add: save_credentials_def sorted_items_get dget_dset wf_dict_dset)
  show ?thesis using e by (auto simp: load_credentials_def file_credentials_def d encode_credentials_def b64_decode_def b64_scan_encode
        split: sum.splits option.splits)
qed

theorem credentials_round_trip_witness:
  "load_credentials [] (save_credentials \<lparr>cr_exchange = ''binance'', cr_key = ''k'', cr_secret = ''s'', cr_password = Some [], cr_sandbox = True\<rparr> []) ''binance''
     = Inr \<lparr>cr_exchange = ''binance'', cr_key = ''k'', cr_secret = ''s'', cr_password = None, cr_sandbox = True\<rparr>"
  using credentials_round_trip [of "[]" "[]" "\<lparr>cr_exchange = ''binance'', cr_key = ''k'', cr_secret = ''s'', cr_password = Some [], cr_sandbox = True\<rparr>" "''binance''"]
  by (simp add: env_credentials_def)

end
