(* ===== verification/Spec2Isabelle.thy ===== *)
theory Spec2Isabelle imports RenkoSnapshot AnalyticsFacts Replay Live Pipeline SecurityFacts begin

text \<open>
  A verification library for RenkoLabAI: the Renko chart engine, the trading core that runs strategies
  on its bricks, the market data that feeds them, and what surrounds them: events, research, analytics,
  processing pipelines and security. Paths are under \<open>src/backend/app\<close>.

  How the program fits together. A candle enters the Renko engine, which extracts a reference price,
  lets the brick-size provider update its size and appends bricks. A strategy reads completed bricks and
  emits signals; the strategy engine filters them through risk rules and sizes them. Sized signals become
  orders: of a backtest (executed on the next brick), of the paper venue (market, limit and stop orders
  matched against quotes) or of the order management system (checked, executed by the live executor on a
  broker, reconciled with it). Fills move a portfolio. Quotes come from ticks, recorded or live, and ticks
  are aggregated into the candles the chart starts from. Ticks reach the live pipeline over streams, a
  dispatcher and a router. Backtests are run by the matrix of validation scenarios and by the searches of
  the research engine; their metrics become the entities that analytics ranks and reports.

  Theories, in the order they build on each other.
  \<^item> \<open>Prelude\<close>: exceptions as values (\<open>py_error\<close>, \<open>'a result\<close>), insertion-ordered dictionaries, logs that
    only grow (\<open>extends\<close>), running an operation over a list of inputs (\<open>feed\<close>), text helpers.
  \<^item> \<open>Floats\<close>: binary64 arithmetic as rounded rationals; the laws of rounding are the locale \<open>rounding\<close>.
  \<^item> \<open>RenkoModels\<close>: \<open>chart/renko/models.py\<close>, \<open>configuration.py\<close>, \<open>strategies.py\<close>.
  \<^item> \<open>RenkoProviders\<close>: \<open>chart/renko/providers.py\<close>. Locale \<open>size_provider\<close>, the contract of update, reset,
    export and import, interpreted on the fixed, ATR, percentage and adaptive providers.
  \<^item> \<open>RenkoEngine\<close>: \<open>builder.py\<close> and \<open>engine.py\<close>; \<open>RenkoEngineFacts\<close>: the geometry of the bricks, the two
    append paths, events, errors. The engine record has the attributes of \<open>TraditionalRenkoEngine\<close>.
  \<^item> \<open>Registry\<close>: the name-keyed registries (locale \<open>name_registry\<close>); \<open>RenkoFactory\<close>: \<open>factory.py\<close>,
    \<open>validator.py\<close>, \<open>pipeline.py\<close>; \<open>RenkoSnapshot\<close>: \<open>snapshot.py\<close>, \<open>serialization.py\<close>.
  \<^item> \<open>Execution\<close>, \<open>Portfolio\<close>: \<open>trading/execution\<close>, \<open>costs\<close>, \<open>paper/executor.py\<close>, \<open>paper/latency.py\<close>,
    \<open>portfolio\<close>. The portfolio record has the attributes of \<open>Portfolio\<close>; orders are kept in stores by id.
  \<^item> \<open>Paper\<close>: \<open>trading/paper\<close>, the venue, its book and its session.
  \<^item> \<open>Strategies\<close>: \<open>trading/signals\<close>, \<open>indicators\<close> and the four strategies; \<open>StrategyRuntime\<close>: \<open>risk.py\<close>,
    \<open>sizing.py\<close>, \<open>engine.py\<close>, \<open>paper_bridge.py\<close> of \<open>trading/strategy\<close>; \<open>Backtest\<close>: \<open>trading/backtesting\<close>.
  \<^item> \<open>Oms\<close>: \<open>trading/oms\<close> and \<open>broker/live_executor.py\<close> over a broker.
  \<^item> \<open>Aggregation\<close>: \<open>domain/market_data/models.py\<close> and \<open>engines/aggregation\<close>; \<open>Replay\<close>: \<open>engines/replay\<close> and
    \<open>paper/replay_feed.py\<close> (locale \<open>recorded_feed\<close>, interpreted on the ticks and candles of the memory source).
  \<^item> \<open>Events\<close>: \<open>events/bus.py\<close>, \<open>events/bridge.py\<close>, \<open>streaming/dispatcher.py\<close>; \<open>Streaming\<close>: the rest of
    \<open>marketdata/streaming\<close> (locale \<open>subscribing_stream\<close>); \<open>Live\<close>: \<open>trading/live_pipeline.py\<close>, \<open>runtime.py\<close>.
  \<^item> \<open>Scenarios\<close>: \<open>trading/validation\<close>, \<open>trading/strategy/registry.py\<close>, \<open>factory.py\<close> (locales \<open>replacing_store\<close>
    and \<open>brick_source\<close>); \<open>ResearchMetrics\<close>, \<open>Research\<close>: \<open>trading/backtesting/research\<close>.
  \<^item> \<open>Money\<close>, \<open>Analytics\<close>: \<open>analytics/domain\<close>, its value objects and its entities with their services;
    \<open>AnalyticsFacts\<close>: their properties (locale \<open>nearest\<close>, the two ways of rounding to an integer).
  \<^item> \<open>Pipeline\<close>: \<open>pipeline/\<close>; \<open>Base64\<close>, \<open>Security\<close>, \<open>SecurityFacts\<close>: \<open>security/\<close>.

  What the lemmas show. Renko: bricks form a chain and their number is what the move determines; the
  optimised path, the builder path, and the engine with and without a bus agree; a snapshot restores the
  same engine, which then goes on in the same way. Execution: the portfolio invariant, the balance of the
  accounts, and that no cost model lets a round trip gain. Paper venue: a quote settles the book, ended
  orders stay ended. Strategies: signals alternate, risk rules only reduce, a backtest does not look ahead.
  Order management: consistency for any broker, termination of the wait for a fill, limits. Market data:
  a candle is what its ticks determine in whatever order they arrive, a replay shows its controller the whole
  tape and can be completed unless it was stopped, subscriptions and
  reconnections stay bounded, and live trading keeps the books of the order manager and the portfolio.
  Research: a scenario completes exactly when its parts are valid, rankings are ordered, the weights
  of a portfolio are the shares of its method and add up to one but for a rounding error \<open>Floats\<close> bounds, and forward tests use no data of their own. Analytics: snapshots are refused only by their rates,
  reports exactly by ambiguous ids, runs keep their lifecycle. Pipelines: stages are ordered by their
  edges and executed until the first that fails, retries apart; a pipeline succeeds exactly when all stages did.
  Security: a token is accepted until it expires or is logged out, whatever happens in between; passwords, tokens, revocation and stored
  credentials do what they promise, and a logout that leaves the session open is shown as such.

  Conventions. Python's unbounded integers are \<open>int\<close>. A float is the rational it denotes and every
  operation rounds to 53 bits; overflow, underflow, NaN and infinities are outside the model, and where a
  lemma speaks of exact sums its bounds (\<open>2 ^ 49\<close>, \<open>2 ^ 53\<close>) keep every intermediate result representable.
  An operation that may raise after it has changed something returns the state it leaves and the error.
  Times count microseconds. Coroutines run one at a time, each to its end or to a wait the model names.
  Loops are structural recursions; the only loop that need not end, the wait for a fill, is a partial
  function to option, and \<open>process_signal_returns\<close> shows it ends when the clock advances. The one bound on
  recursion is the depth of \<open>visit\<close> in \<open>Pipeline\<close>: \<open>stages_in_order\<close> shows that the number of stages is enough.
  Decimals of analytics carry the 28 digits of the default context. Texts are ASCII.

  Parameters: the texts Python prints for floats and times (\<open>fs\<close>, \<open>ts\<close>, \<open>f2\<close>), the square and square root
  of the C library (\<open>sq\<close>, \<open>rt\<close>), the draws of a random generator (\<open>rb\<close>), powers (\<open>pw\<close>), readings of the wall clock, and the
  broker, a record of its calls over a state of its own. Further: the source of a replay and of bricks, what
  a handler (\<open>run\<close>) or a stage (\<open>exec\<close>) does, the outcome of connecting a stream, the analytics report (\<open>rep\<close>),
  hashes (\<open>digest\<close>, \<open>hash\<close>), the decimal of a printed float (\<open>dec\<close>), the key derivation (\<open>kdf\<close>), and of
  tokens the signature, the JSON text, the supply of ids (\<open>token_env\<close>) and the third-party JWT package
  (\<open>tk_library\<close>; without it the fallback of \<open>jwt.py\<close> is used). What is assumed of the package is
  \<open>reads_own_tokens\<close>: a token it wrote is read back as written before its expiry and refused after it.

  Not modelled: web routes and their schemas, database models, repositories and migrations, configuration
  files and logging, dependency injection, the adapters of third-party brokers and data vendors (they pass
  calls on to clients that are not in the repository and rename fields of the answers), loading of plugins, durable files and the JSON text of snapshots,
  report rendering, benchmarks and telemetry. They are input and output, declarations for libraries, or
  calls to code that is not in the repository.
\<close>

end
